(* ===== verification/Prelude.thy ===== *)
theory Prelude
  imports Main "HOL-Library.Word"
begin

text \<open>
  Shared vocabulary of the development: the fixed-width integer types of the Rust sources as
  words, \<^verbatim>\<open>Result\<close> as a sum type with the \<^verbatim>\<open>?\<close> operator, the casts between integer
  types, and the algebra of bit fields of a 32-bit word on which every proof about the
  instruction encoder rests. The collection \<open>field_rules\<close> evaluates a field of an
  OR of shifted fields; the collection \<open>fits_rules\<close> holds the width of every operand
  that is placed in an instruction word.
\<close>

unbundle bit_operations_syntax

named_theorems field_rules
named_theorems fits_rules

type_synonym u8 = "8 word"
type_synonym u16 = "16 word"
type_synonym u32 = "32 word"
type_synonym u64 = "64 word"
type_synonym u128 = "128 word"

section \<open>Results\<close>

text \<open>\<open>Inl\<close> is Rust's \<^verbatim>\<open>Err\<close>, \<open>Inr\<close> is \<^verbatim>\<open>Ok\<close>; \<open>bindR\<close> is the \<^verbatim>\<open>?\<close> operator.\<close>

type_synonym ('e, 'a) result = "'e + 'a"

fun bindR :: "('e, 'a) result \<Rightarrow> ('a \<Rightarrow> ('e, 'b) result) \<Rightarrow> ('e, 'b) result" where
  "bindR (Inl e) f = Inl e"
| "bindR (Inr x) f = f x"

lemma bindR_eq_Inr [simp]: "bindR m f = Inr y \<longleftrightarrow> (\<exists>x. m = Inr x \<and> f x = Inr y)"
  by (cases m) auto

lemma bindR_eq_Inl: "bindR m f = Inl e \<longleftrightarrow> m = Inl e \<or> (\<exists>x. m = Inr x \<and> f x = Inl e)"
  by (cases m) auto

lemma if_Inl_eq_Inr [simp]: "(if b then Inl e else m) = Inr y \<longleftrightarrow> \<not> b \<and> m = Inr y"
  by simp

fun is_ok :: "('e, 'a) result \<Rightarrow> bool" where
  "is_ok (Inl e) = False"
| "is_ok (Inr x) = True"

lemma is_ok_iff: "is_ok r \<longleftrightarrow> (\<exists>x. r = Inr x)"
  by (cases r) auto

section \<open>Casts and signed ranges\<close>

text \<open>
  A signed value is an \<open>int\<close>; \<open>as_signed n\<close> is the cast to the \<open>n\<close>-bit signed type and
  \<open>in_signed n\<close> says that the cast loses nothing. A cast to an unsigned type is
  \<open>word_of_int\<close>.
\<close>

definition as_signed :: "nat \<Rightarrow> int \<Rightarrow> int" where
  "as_signed n x = signed_take_bit (n - 1) x"

definition in_signed :: "nat \<Rightarrow> int \<Rightarrow> bool" where
  "in_signed n x \<longleftrightarrow> - (2 ^ (n - 1)) \<le> x \<and> x < 2 ^ (n - 1)"

lemma as_signed_id [simp]: "in_signed n x \<Longrightarrow> as_signed n x = x"
  by (simp add: as_signed_def in_signed_def signed_take_bit_int_eq_self)

lemma in_signed_mono: "in_signed m x \<Longrightarrow> m \<le> n \<Longrightarrow> in_signed n x"
proof -
  assume a: "in_signed m x" "m \<le> n"
  have "(2::int) ^ (m - 1) \<le> 2 ^ (n - 1)"
    using a(2) by (intro power_increasing) auto
  with a(1) show ?thesis unfolding in_signed_def by linarith
qed

lemma in_signed_as_signed [simp]: "in_signed n (as_signed n x)"
  by (simp add: in_signed_def as_signed_def signed_take_bit_int_greater_eq_minus_exp
      signed_take_bit_int_less_exp)

lemma unat_ucast_up [simp]:
  "LENGTH('a::len) \<le> LENGTH('b::len) \<Longrightarrow> unat (ucast (w :: 'a word) :: 'b word) = unat w"
proof -
  assume le: "LENGTH('a) \<le> LENGTH('b)"
  have "unat w < 2 ^ LENGTH('a)" by (rule unsigned_less)
  also have "\<dots> \<le> 2 ^ LENGTH('b)" using le by (rule power_increasing) simp
  finally show ?thesis by (simp add: unsigned_ucast_eq take_bit_nat_eq_self)
qed

lemma uint_ucast_up [simp]:
  "LENGTH('a::len) \<le> LENGTH('b::len) \<Longrightarrow> uint (ucast (w :: 'a word) :: 'b word) = uint w"
  by (metis uint_nat unat_ucast_up)

lemma u8_less_256: "unat (w :: u8) < 256"
  using unsigned_less [of w] by simp

text \<open>Narrowing loses nothing when the value fits, so widening again gives it back.\<close>

lemma ucast_narrow_widen:
  assumes "unat (w :: 'a::len word) < 2 ^ LENGTH('b::len)"
  shows "(ucast (ucast w :: 'b word) :: 'a word) = w"
proof -
  have "take_bit LENGTH('b) (unat w) = unat w" using assms by (rule take_bit_nat_eq_self)
  moreover have "take_bit LENGTH('a) (unat w) = unat w"
    using unsigned_less [of w] by (intro take_bit_nat_eq_self) simp
  ultimately show ?thesis by (simp add: word_unat_eq_iff unsigned_ucast_eq unsigned_take_bit_eq)
qed

lemma ucast_ucast_up [simp]:
  "LENGTH('a::len) \<le> LENGTH('b::len) \<Longrightarrow> ucast (ucast (w :: 'a word) :: 'b word) = w"
  by (rule bit_word_eqI) (auto simp: bit_simps)

text \<open>The idiom \<^verbatim>\<open>(1 << n) - 1\<close> is the mask of the \<open>n\<close> low bits.\<close>

lemma bit_exp_minus_one [bit_simps]:
  "bit (2 ^ n - 1 :: 'a::len word) i \<longleftrightarrow> i < n \<and> i < LENGTH('a)"
  unfolding mask_eq_exp_minus_1 [symmetric] bit_mask_iff by auto

lemma unat_push_bit:
  "unat w * 2 ^ n < 2 ^ LENGTH('a) \<Longrightarrow> unat (push_bit n (w :: 'a::len word)) = unat w * 2 ^ n"
  unfolding unsigned_push_bit_eq by (simp add: push_bit_eq_mult take_bit_nat_eq_self)

section \<open>The leading bit of a word\<close>

text \<open>\<^verbatim>\<open>leading_zeros\<close> of the unsigned integer types.\<close>

fun clz_from :: "nat \<Rightarrow> 'a::len word \<Rightarrow> nat" where
  "clz_from 0 w = 0"
| "clz_from (Suc i) w = (if bit w i then 0 else Suc (clz_from i w))"

definition leading_zeros :: "'a::len word \<Rightarrow> nat" where
  "leading_zeros w = clz_from LENGTH('a) w"

lemma clz_from_top:
  "\<exists>i<n. bit w i \<Longrightarrow>
   clz_from n w < n \<and> bit w (n - 1 - clz_from n w) \<and> (\<forall>j<n. bit w j \<longrightarrow> j \<le> n - 1 - clz_from n w)"
proof (induction n)
  case (Suc n)
  show ?case
  proof (cases "bit w n")
    case False
    with Suc.prems have "\<exists>i<n. bit w i" by (auto simp: less_Suc_eq)
    from Suc.IH [OF this] False show ?thesis by (auto simp: less_Suc_eq)
  qed auto
qed simp

lemma leading_zeros_top:
  assumes "(w :: 'a::len word) \<noteq> 0"
  defines "k \<equiv> LENGTH('a) - 1 - leading_zeros w"
  shows "k < LENGTH('a)" "bit w k" "\<And>j. bit w j \<Longrightarrow> j \<le> k"
proof -
  obtain i where "bit w i" using assms(1) bit_eqI [of w 0] by auto
  then have "\<exists>i<LENGTH('a). bit w i" using bit_imp_le_length by blast
  note top = clz_from_top [OF this]
  show "k < LENGTH('a)" "bit w k" using top by (simp_all add: k_def leading_zeros_def)
  show "j \<le> k" if "bit w j" for j
    using top that bit_imp_le_length [OF that] by (simp add: k_def leading_zeros_def)
qed

text \<open>The position of the leading bit brackets the value.\<close>

lemma leading_bit_bounds:
  assumes "(w :: 'a::len word) \<noteq> 0"
  defines "k \<equiv> LENGTH('a) - 1 - leading_zeros w"
  shows "2 ^ k \<le> unat w" "unat w < 2 ^ Suc k"
proof -
  note top = leading_zeros_top [OF assms(1), folded k_def]
  have "take_bit (Suc k) w = w"
    by (rule bit_word_eqI) (use top(3) in \<open>auto simp: bit_simps less_Suc_eq_le\<close>)
  then have "take_bit (Suc k) (unat w) = unat w" by (metis unsigned_take_bit_eq)
  then show "unat w < 2 ^ Suc k" by (metis take_bit_nat_less_exp)
  show "2 ^ k \<le> unat w"
  proof (rule ccontr)
    assume "\<not> 2 ^ k \<le> unat w"
    then have "unat w div 2 ^ k = 0" by simp
    then have "\<not> bit (unat w) k" by (simp add: bit_iff_odd)
    with top(2) show False by (simp add: bit_unsigned_iff)
  qed
qed

section \<open>Bit fields of an instruction word\<close>

definition field :: "nat \<Rightarrow> nat \<Rightarrow> u32 \<Rightarrow> u32" where
  "field lo n x = take_bit n (drop_bit lo x)"

definition fits :: "nat \<Rightarrow> u32 \<Rightarrow> bool" where
  "fits n v \<longleftrightarrow> take_bit n v = v"

lemma bit_field [bit_simps]: "bit (field lo n x) i \<longleftrightarrow> i < n \<and> bit x (lo + i)"
  by (auto simp: field_def bit_simps dest: bit_imp_le_length)

lemma fits_iff_bit: "fits n v \<longleftrightarrow> (\<forall>i. bit v i \<longrightarrow> i < n)"
proof
  assume "fits n v"
  then have "bit v i = bit (take_bit n v) i" for i
    by (simp add: fits_def)
  then show "\<forall>i. bit v i \<longrightarrow> i < n"
    unfolding bit_take_bit_iff by blast
next
  assume "\<forall>i. bit v i \<longrightarrow> i < n"
  then show "fits n v"
    by (auto simp: fits_def bit_eq_iff bit_simps)
qed

lemma fitsD: "fits n v \<Longrightarrow> bit v i \<Longrightarrow> i < n"
  by (simp add: fits_iff_bit)

lemma fits_mono: "fits m v \<Longrightarrow> m \<le> n \<Longrightarrow> fits n v"
  by (auto simp: fits_iff_bit)

lemma fits_field: "fits n (field lo n x)"
  by (simp add: fits_iff_bit bit_simps)

lemma field_or [field_rules]: "field lo n (a OR b) = field lo n a OR field lo n b"
  by (simp add: field_def)

lemma field_push_le [field_rules]:
  "k \<le> lo \<Longrightarrow> lo + n \<le> 32 \<Longrightarrow> field lo n (push_bit k v) = field (lo - k) n v"
  by (rule bit_word_eqI) (auto simp: bit_simps)

lemma field_push_ge [field_rules]: "lo + n \<le> k \<Longrightarrow> field lo n (push_bit k v) = 0"
  by (rule bit_word_eqI) (auto simp: bit_simps)

lemma field_numeral [field_rules]:
  "field lo n (numeral k) = take_bit n (drop_bit lo (numeral k))"
  by (simp add: field_def)

lemma field_one [field_rules]: "field lo n 1 = take_bit n (drop_bit lo 1)"
  by (simp add: field_def)

lemma field_zero [field_rules]: "field lo n 0 = 0"
  by (simp add: field_def)

lemma fits_field_high: "fits m v \<Longrightarrow> m \<le> lo \<Longrightarrow> field lo n v = 0"
  by (rule bit_word_eqI) (auto simp: bit_simps dest: fitsD)

lemma fits_field_self: "fits m v \<Longrightarrow> m \<le> n \<Longrightarrow> field 0 n v = v"
  by (rule bit_word_eqI) (auto simp: bit_simps dest: fitsD)

lemma fits_of_bool [fits_rules]: "fits 1 (of_bool b)"
  by (auto simp: fits_def)

lemma fits_of_unat: "unat v < 2 ^ n \<Longrightarrow> fits n v"
  by (simp add: fits_def word_unat_eq_iff unsigned_take_bit_eq take_bit_nat_eq_self)

end
