(* ===== verification/Asm_Reg.thy ===== *)
theory Asm_Reg
  imports Prelude
begin

text \<open>
  Register operands and encoding errors of the AArch64 encoder
  (\<^verbatim>\<open>fors-asm/src/reg.rs\<close>, \<^verbatim>\<open>fors-asm/src/error.rs\<close>). Encoding 31 is the stack pointer
  or the zero register; a \<open>Reg\<close> carries which one is meant. A panicking constructor
  returns \<open>None\<close>.
\<close>

section \<open>Errors\<close>

datatype EncodeError =
    ImmediateOutOfRange string int
  | UnencodableLogicalImmediate u64 bool
  | MisalignedOffset string int
  | InvalidShiftForForm string
  | RegisterWidthMismatch string
  | InvalidRegisterForForm string

section \<open>General-purpose registers\<close>

text \<open>The field \<open>sp_flag\<close> is the private field \<^verbatim>\<open>is_sp\<close>; the method of that name also
  requires encoding 31.\<close>

record Reg =
  num :: u8
  is64 :: bool
  sp_flag :: bool

definition reg_x :: "u8 \<Rightarrow> Reg option" where
  "reg_x n = (if n \<le> 30 then Some \<lparr>num = n, is64 = True, sp_flag = False\<rparr> else None)"

definition reg_w :: "u8 \<Rightarrow> Reg option" where
  "reg_w n = (if n \<le> 30 then Some \<lparr>num = n, is64 = False, sp_flag = False\<rparr> else None)"

definition reg_sp :: Reg where
  "reg_sp = \<lparr>num = 31, is64 = True, sp_flag = True\<rparr>"

definition reg_wsp :: Reg where
  "reg_wsp = \<lparr>num = 31, is64 = False, sp_flag = True\<rparr>"

definition reg_xzr :: Reg where
  "reg_xzr = \<lparr>num = 31, is64 = True, sp_flag = False\<rparr>"

definition reg_wzr :: Reg where
  "reg_wzr = \<lparr>num = 31, is64 = False, sp_flag = False\<rparr>"

definition is_sp :: "Reg \<Rightarrow> bool" where
  "is_sp r \<longleftrightarrow> num r = 31 \<and> sp_flag r"

definition is_zr :: "Reg \<Rightarrow> bool" where
  "is_zr r \<longleftrightarrow> num r = 31 \<and> \<not> sp_flag r"

definition reg_encoding :: "Reg \<Rightarrow> u32" where
  "reg_encoding r = ucast (num r)"

definition with64 :: "Reg \<Rightarrow> bool \<Rightarrow> Reg" where
  "with64 r b = \<lparr>num = num r, is64 = b, sp_flag = sp_flag r\<rparr>"

section \<open>Scalar floating-point registers\<close>

datatype FpWidth = FpWidth_S | FpWidth_D

record FpReg =
  fp_num :: u8
  width :: FpWidth

definition fpreg_s :: "u8 \<Rightarrow> FpReg option" where
  "fpreg_s n = (if n \<le> 31 then Some \<lparr>fp_num = n, width = FpWidth_S\<rparr> else None)"

definition fpreg_d :: "u8 \<Rightarrow> FpReg option" where
  "fpreg_d n = (if n \<le> 31 then Some \<lparr>fp_num = n, width = FpWidth_D\<rparr> else None)"

definition is_double :: "FpReg \<Rightarrow> bool" where
  "is_double r \<longleftrightarrow> width r = FpWidth_D"

definition fpreg_encoding :: "FpReg \<Rightarrow> u32" where
  "fpreg_encoding r = ucast (fp_num r)"

definition with_width :: "FpReg \<Rightarrow> FpWidth \<Rightarrow> FpReg" where
  "with_width r w = \<lparr>fp_num = fp_num r, width = w\<rparr>"

section \<open>Well-formed registers\<close>

text \<open>What the constructors can build: an encoding of at most 31, and the stack-pointer flag
  only on encoding 31.\<close>

definition wf_reg :: "Reg \<Rightarrow> bool" where
  "wf_reg r \<longleftrightarrow> num r \<le> 31 \<and> (sp_flag r \<longrightarrow> num r = 31)"

definition wf_fpreg :: "FpReg \<Rightarrow> bool" where
  "wf_fpreg r \<longleftrightarrow> fp_num r \<le> 31"

lemma wf_reg_x: "reg_x n = Some r \<Longrightarrow> wf_reg r"
  by (auto simp: reg_x_def wf_reg_def word_le_nat_alt split: if_splits)

lemma wf_reg_w: "reg_w n = Some r \<Longrightarrow> wf_reg r"
  by (auto simp: reg_w_def wf_reg_def word_le_nat_alt split: if_splits)

lemma wf_reg_31 [simp]: "wf_reg reg_sp" "wf_reg reg_wsp" "wf_reg reg_xzr" "wf_reg reg_wzr"
  by (simp_all add: wf_reg_def reg_sp_def reg_wsp_def reg_xzr_def reg_wzr_def)

lemma wf_with64 [simp]: "wf_reg (with64 r b) = wf_reg r"
  by (simp add: wf_reg_def with64_def)

lemma wf_fpreg_s: "fpreg_s n = Some r \<Longrightarrow> wf_fpreg r"
  by (auto simp: fpreg_s_def wf_fpreg_def split: if_splits)

lemma wf_fpreg_d: "fpreg_d n = Some r \<Longrightarrow> wf_fpreg r"
  by (auto simp: fpreg_d_def wf_fpreg_def split: if_splits)

lemma reg_31_simps [simp]:
  "is64 reg_sp" "\<not> is64 reg_wsp" "is64 reg_xzr" "\<not> is64 reg_wzr"
  "is_sp reg_sp" "is_sp reg_wsp" "\<not> is_sp reg_xzr" "\<not> is_sp reg_wzr"
  "\<not> is_zr reg_sp" "\<not> is_zr reg_wsp" "is_zr reg_xzr" "is_zr reg_wzr"
  by (simp_all add: is_sp_def is_zr_def reg_sp_def reg_wsp_def reg_xzr_def reg_wzr_def)

lemma ucast_u8_fits: "w \<le> 31 \<Longrightarrow> fits 5 (ucast (w :: u8))"
  by (rule fits_of_unat) (simp add: word_le_nat_alt)

lemma fits_reg_encoding [fits_rules]: "wf_reg r \<Longrightarrow> fits 5 (reg_encoding r)"
  by (simp add: reg_encoding_def wf_reg_def ucast_u8_fits)

lemma fits_fpreg_encoding [fits_rules]: "wf_fpreg r \<Longrightarrow> fits 5 (fpreg_encoding r)"
  by (simp add: fpreg_encoding_def wf_fpreg_def ucast_u8_fits)

section \<open>Reading a register field back\<close>

text \<open>
  The architecture gives encoding 31 one meaning per field: \<open>dec_sp\<close> reads a field in which it
  is the stack pointer, \<open>dec_zr\<close> one in which it is the zero register.
\<close>

definition dec_zr :: "bool \<Rightarrow> u32 \<Rightarrow> Reg" where
  "dec_zr b v = \<lparr>num = ucast v, is64 = b, sp_flag = False\<rparr>"

definition dec_sp :: "bool \<Rightarrow> u32 \<Rightarrow> Reg" where
  "dec_sp b v = \<lparr>num = ucast v, is64 = b, sp_flag = (v = 31)\<rparr>"

definition dec_fp :: "bool \<Rightarrow> u32 \<Rightarrow> FpReg" where
  "dec_fp b v = \<lparr>fp_num = ucast v, width = (if b then FpWidth_D else FpWidth_S)\<rparr>"

lemma ucast_u8_eq_31: "(ucast (w :: u8) :: u32) = 31 \<longleftrightarrow> w = 31"
proof
  assume "(ucast w :: u32) = 31"
  then have "(ucast (ucast w :: u32) :: u8) = ucast (31 :: u32)" by (rule arg_cong)
  then show "w = 31" by simp
qed simp

lemma dec_zr_encoding [simp]:
  "wf_reg r \<Longrightarrow> \<not> is_sp r \<Longrightarrow> b = is64 r \<Longrightarrow> dec_zr b (reg_encoding r) = r"
  by (cases r) (auto simp: dec_zr_def reg_encoding_def wf_reg_def is_sp_def)

lemma dec_sp_encoding [simp]:
  "wf_reg r \<Longrightarrow> \<not> is_zr r \<Longrightarrow> b = is64 r \<Longrightarrow> dec_sp b (reg_encoding r) = r"
  by (cases r) (auto simp: dec_sp_def reg_encoding_def wf_reg_def is_zr_def ucast_u8_eq_31)

lemma dec_fp_encoding [simp]: "b = is_double r \<Longrightarrow> dec_fp b (fpreg_encoding r) = r"
  by (cases r; cases "width r") (auto simp: dec_fp_def fpreg_encoding_def is_double_def)

end
