(* ===== verification/Search_Codec.thy ===== *)
theory Search_Codec
  imports Prelude
begin

text \<open>
  The interface "decoding is the specification, encoding searches it" that
  \<^verbatim>\<open>fors-asm/src/bitmask.rs\<close> and \<^verbatim>\<open>fors-asm/src/fpimm.rs\<close> share: an encoder that tries a
  fixed list of candidates in order and returns the first one the decoder maps to the target.
  The locale proves once that such an encoder is sound, complete and deterministic; both
  encoders are interpreted in their own theories.
\<close>

text \<open>\<open>first_some f xs\<close> is a \<^verbatim>\<open>for\<close> loop over \<open>xs\<close> whose body returns from the function when
  \<open>f\<close> gives a value.\<close>

fun first_some :: "('a \<Rightarrow> 'b option) \<Rightarrow> 'a list \<Rightarrow> 'b option" where
  "first_some f [] = None"
| "first_some f (x # xs) = (case f x of Some y \<Rightarrow> Some y | None \<Rightarrow> first_some f xs)"

lemma first_some_None: "first_some f xs = None \<longleftrightarrow> (\<forall>x \<in> set xs. f x = None)"
  by (induction xs) (auto split: option.splits)

lemma first_some_SomeD: "first_some f xs = Some y \<Longrightarrow> \<exists>x \<in> set xs. f x = Some y"
  by (induction xs) (auto split: option.splits)

lemma first_some_append:
  "first_some f (xs @ ys) = (case first_some f xs of Some y \<Rightarrow> Some y | None \<Rightarrow> first_some f ys)"
  by (induction xs) (auto split: option.splits)

lemma first_some_map: "first_some f (map g xs) = first_some (f \<circ> g) xs"
  by (induction xs) (auto split: option.splits)

lemma first_some_find: "first_some (\<lambda>x. if P x then Some x else None) xs = find P xs"
  by (induction xs) auto

text \<open>Nested loops search the product list.\<close>

lemma first_some_nested:
  "first_some (\<lambda>x. first_some (f x) (g x)) xs =
   first_some (\<lambda>(x, y). f x y) (concat (map (\<lambda>x. map (Pair x) (g x)) xs))"
  by (induction xs) (auto simp: first_some_append first_some_map comp_def split: option.splits)

lemma find_Some_mem: "find P xs = Some x \<Longrightarrow> P x \<and> x \<in> set xs"
  by (induction xs) (auto split: if_splits)

lemma find_None_all: "find P xs = None \<longleftrightarrow> (\<forall>x \<in> set xs. \<not> P x)"
  by (induction xs) auto

locale search_codec =
  fixes dec :: "'c \<Rightarrow> 'v option"
    and cands :: "'c list"
    and rejected :: "'v \<Rightarrow> bool"
    and enc :: "'v \<Rightarrow> 'c option"
  assumes enc_find: "enc v = (if rejected v then None else find (\<lambda>c. dec c = Some v) cands)"
    and rejected_undecodable: "c \<in> set cands \<Longrightarrow> dec c = Some v \<Longrightarrow> \<not> rejected v"
begin

lemma enc_sound: "enc v = Some c \<Longrightarrow> dec c = Some v \<and> c \<in> set cands"
  by (auto simp: enc_find split: if_splits dest: find_Some_mem)

lemma enc_complete:
  assumes "c \<in> set cands" and "dec c = Some v"
  shows "\<exists>c'. enc v = Some c' \<and> dec c' = Some v"
proof -
  have "find (\<lambda>c. dec c = Some v) cands \<noteq> None"
    using assms by (auto simp: find_None_all)
  with rejected_undecodable [OF assms] obtain c' where "enc v = Some c'"
    by (auto simp: enc_find)
  with enc_sound show ?thesis by blast
qed

lemma enc_None_iff: "enc v = None \<longleftrightarrow> (\<forall>c \<in> set cands. dec c \<noteq> Some v)"
proof
  assume "enc v = None"
  then show "\<forall>c \<in> set cands. dec c \<noteq> Some v" using enc_complete by fastforce
next
  assume "\<forall>c \<in> set cands. dec c \<noteq> Some v"
  then show "enc v = None" by (cases "enc v") (auto dest: enc_sound)
qed

lemma enc_inj: "enc v = Some c \<Longrightarrow> enc w = Some c \<Longrightarrow> v = w"
  by (auto dest!: enc_sound)

end

end
