(* ===== verification/Asm_Bitmask.thy ===== *)
theory Asm_Bitmask
  imports Search_Codec
begin

text \<open>
  The bitmask-immediate codec of \<^verbatim>\<open>fors-asm/src/bitmask.rs\<close>: \<open>decode_bitmask\<close> expands an
  \<^verbatim>\<open>(N, immr, imms)\<close> triple into the pattern it denotes, \<open>encode_bitmask\<close> searches the triples.
  The section on the meaning of a triple states the pattern bit by bit: ones at the positions
  \<open>i\<close> with \<open>(i + R) mod size \<le> S\<close>, which is a run of \<open>S + 1\<close> ones rotated right by \<open>R\<close> in
  elements of \<open>size\<close> bits.
\<close>

section \<open>The code\<close>

definition ror :: "u64 \<Rightarrow> nat \<Rightarrow> nat \<Rightarrow> u64" where
  "ror x amount width =
     (let mask = (if width = 64 then - 1 else push_bit width 1 - 1);
          x = x AND mask;
          amount = amount mod width
      in if amount = 0 then x
         else (drop_bit amount x OR (push_bit (width - amount) x AND mask)))"

text \<open>The loop of \<open>replicate\<close>; \<open>filled\<close> starts at an element size of at least 2, so the
  guard \<open>0 < filled\<close>, which makes the recursion terminate, always holds.\<close>

function replicate_loop :: "u64 \<Rightarrow> nat \<Rightarrow> nat \<Rightarrow> u64" where
  "replicate_loop result filled reg_bits =
     (if 0 < filled \<and> filled < reg_bits
      then replicate_loop (result OR push_bit filled result) (filled * 2) reg_bits
      else result)"
  by pat_completeness auto
termination
  by (relation "measure (\<lambda>(r, filled, reg_bits). reg_bits - filled)") auto

declare replicate_loop.simps [simp del]

definition replicate_bits :: "u64 \<Rightarrow> nat \<Rightarrow> nat \<Rightarrow> u64" where
  "replicate_bits pattern width reg_bits =
     (let result = replicate_loop pattern width reg_bits
      in if reg_bits = 64 then result else result AND (push_bit reg_bits 1 - 1))"

definition decode_bitmask :: "u8 \<Rightarrow> u8 \<Rightarrow> u8 \<Rightarrow> nat \<Rightarrow> u64 option" where
  "decode_bitmask n immr imms reg_size =
     (let n = ucast (n AND 1) :: u32;
          immr = (ucast immr :: u32) AND 0x3f;
          imms = (ucast imms :: u32) AND 0x3f;
          concat = push_bit 6 n OR (NOT imms AND 0x3f)
      in if concat = 0 then None
         else let len = 31 - leading_zeros concat
              in if len < 1 then None
                 else let size = 2 ^ len :: nat
                      in if size > reg_size then None
                         else let levels = size - 1;
                                  s = unat imms AND levels;
                                  r = unat immr AND levels
                              in if s = levels then None
                                 else let welem = push_bit (s + 1) 1 - 1 :: u64;
                                          telem = ror welem r size
                                      in Some (replicate_bits telem size reg_size))"

definition u8_range :: "nat \<Rightarrow> u8 list" where
  "u8_range k = map word_of_nat [0..<k]"

definition encode_bitmask :: "u64 \<Rightarrow> nat \<Rightarrow> (u8 \<times> u8 \<times> u8) option" where
  "encode_bitmask v reg_size =
     (let all_ones = (if reg_size = 64 then - 1 else push_bit reg_size 1 - 1)
      in if v = 0 \<or> v = all_ones then None
         else let n_choices = (if reg_size = 64 then [1, 0] else [0])
              in first_some (\<lambda>n. first_some (\<lambda>immr. first_some (\<lambda>imms.
                   if decode_bitmask n immr imms reg_size = Some v
                   then Some (n, immr, imms) else None)
                   (u8_range 64)) (u8_range 64)) n_choices)"

section \<open>Rotation and replication, bit by bit\<close>

lemma bit_register_mask:
  "w \<le> 64 \<Longrightarrow> j < 64 \<Longrightarrow>
   bit ((if w = 64 then - 1 else push_bit w 1 - 1) :: u64) j \<longleftrightarrow> j < w"
  by (cases "w = 64") (auto simp: bit_simps)

lemma bit_ror:
  assumes w: "w \<le> 64" and i: "i < w" and a: "a < w"
  shows "bit (ror x a w) i \<longleftrightarrow> bit x ((a + i) mod w)"
proof -
  have m: "(a + i) mod w = (if a + i < w then a + i else i - (w - a))"
    using i a by (auto simp: mod_if)
  show ?thesis
    using i a w bit_register_mask [of w i] bit_register_mask [of w "a + i"]
      bit_register_mask [of w "i - (w - a)"]
    by (auto simp: ror_def Let_def bit_simps m)
qed

lemma bit_ror_lt:
  assumes "w \<le> 64" and "bit (ror x a w) i"
  shows "i < w"
proof -
  have "i < 64" using assms(2) by (auto dest: bit_imp_le_length)
  then show ?thesis
    using assms bit_register_mask [of w i] bit_register_mask [of w "a mod w + i"]
    by (fastforce simp: ror_def Let_def bit_simps split: if_splits dest: bit_imp_le_length)
qed

text \<open>Replication: once \<open>f\<close> low bits repeat the \<open>w\<close>-bit pattern, the loop extends the
  repetition to the whole register.\<close>

definition tiled :: "u64 \<Rightarrow> nat \<Rightarrow> nat \<Rightarrow> u64 \<Rightarrow> bool" where
  "tiled p w f v \<longleftrightarrow> (\<forall>i < 64. bit v i \<longleftrightarrow> i < f \<and> bit p (i mod w))"

lemma tiled_double:
  assumes "tiled p w f v" and "w dvd f"
  shows "tiled p w (f * 2) (v OR push_bit f v)"
proof -
  from assms(2) obtain q where f: "f = w * q" ..
  have "bit p ((i - f) mod w) \<longleftrightarrow> bit p (i mod w)" if "f \<le> i" for i
    using that unfolding f by (metis le_add_diff_inverse mod_mult_self2 add.commute)
  with assms(1) show ?thesis
    unfolding tiled_def by (auto simp: bit_simps)
qed

lemma replicate_loop_tiled:
  assumes "tiled p w f v" and "w dvd f" and "0 < f" and "f dvd t"
    and "\<exists>k. t = f * 2 ^ k"
  shows "tiled p w t (replicate_loop v f t)"
  using assms
proof (induction v f t rule: replicate_loop.induct)
  case (1 v f t)
  show ?case
  proof (cases "f < t")
    case True
    from "1.prems"(5) obtain k where k: "t = f * 2 ^ k" ..
    with True obtain m where m: "k = Suc m" by (cases k) auto
    with k have t: "t = (f * 2) * 2 ^ m" by simp
    have "tiled p w t (replicate_loop (v OR push_bit f v) (f * 2) t)"
    proof (rule "1.IH")
      show "0 < f \<and> f < t" using True "1.prems"(3) by simp
      show "tiled p w (f * 2) (v OR push_bit f v)"
        using "1.prems"(1,2) by (rule tiled_double)
    qed (use "1.prems" t in \<open>auto simp: dvd_mult2\<close>)
    with True "1.prems"(3) show ?thesis by (simp add: replicate_loop.simps [of v f t])
  next
    case False
    from "1.prems"(5) obtain k where k: "t = f * 2 ^ k" ..
    with False "1.prems"(3) have "2 ^ k \<le> (1::nat)" by (auto simp: not_less)
    with k have "t = f" by (simp add: le_Suc_eq)
    with "1.prems"(1) show ?thesis by (simp add: replicate_loop.simps [of v f f])
  qed
qed

lemma bit_replicate_bits:
  assumes p: "\<And>i. bit p i \<Longrightarrow> i < 2 ^ k" and k: "k \<le> m" and m: "m \<le> 6" and i: "i < 64"
  shows "bit (replicate_bits p (2 ^ k) (2 ^ m)) i \<longleftrightarrow> i < 2 ^ m \<and> bit p (i mod 2 ^ k)"
proof -
  have "tiled p (2 ^ k) (2 ^ k) p"
    using p by (auto simp: tiled_def)
  moreover have "(2::nat) ^ m = 2 ^ k * 2 ^ (m - k)"
    using k by (simp flip: power_add)
  ultimately have "tiled p (2 ^ k) (2 ^ m) (replicate_loop p (2 ^ k) (2 ^ m))"
    by (intro replicate_loop_tiled) (auto intro: exI [of _ "m - k"])
  with i show ?thesis
    unfolding replicate_bits_def tiled_def Let_def by (auto simp: bit_simps)
qed

section \<open>The meaning of a triple\<close>

text \<open>The pattern a bitmask immediate denotes: elements of \<open>e\<close> bits, each a run of \<open>s + 1\<close>
  ones rotated right by \<open>r\<close>.\<close>

definition bitmask_pattern :: "nat \<Rightarrow> nat \<Rightarrow> nat \<Rightarrow> nat \<Rightarrow> u64 \<Rightarrow> bool" where
  "bitmask_pattern reg_size e s r v \<longleftrightarrow>
     (\<forall>i < 64. bit v i \<longleftrightarrow> i < reg_size \<and> (r + i) mod e \<le> s)"

lemma clz_from_ge: "(\<And>j. k \<le> j \<Longrightarrow> j < n \<Longrightarrow> \<not> bit w j) \<Longrightarrow> n - k \<le> clz_from n w"
proof (induction n)
  case (Suc n)
  then show ?case by (cases "k \<le> n") (auto simp: Suc_diff_le)
qed simp

lemma nat_and_ones: "(x :: nat) AND (2 ^ n - 1) = x mod 2 ^ n"
  unfolding mask_eq_exp_minus_1 [symmetric] take_bit_eq_mask [symmetric]
  by (simp add: take_bit_eq_mod)

lemma mask6: "(0x3f :: u32) = mask 6"
  by (simp add: mask_eq_exp_minus_1)

lemma pattern_of_elements:
  assumes l: "l \<le> m" "m \<le> 6" and s: "s + 1 < 2 ^ l" and r: "r < 2 ^ l"
  shows "bitmask_pattern (2 ^ m) (2 ^ l) s r
           (replicate_bits (ror (push_bit (s + 1) 1 - 1) r (2 ^ l)) (2 ^ l) (2 ^ m))"
proof -
  have w: "(2::nat) ^ l \<le> 64"
    using power_increasing [of l 6 "2::nat"] l by simp
  define W :: u64 where "W = push_bit (s + 1) 1 - 1"
  have ones: "bit W j \<longleftrightarrow> j \<le> s" if "j < 2 ^ l" for j
    using s w that unfolding W_def push_bit_of_1 bit_exp_minus_one by auto
  have "bit (replicate_bits (ror W r (2 ^ l)) (2 ^ l) (2 ^ m)) i \<longleftrightarrow>
      i < 2 ^ m \<and> bit (ror W r (2 ^ l)) (i mod 2 ^ l)" if "i < 64" for i
    using l that bit_ror_lt [OF w] by (intro bit_replicate_bits) auto
  moreover have "bit (ror W r (2 ^ l)) (i mod 2 ^ l) \<longleftrightarrow> (r + i) mod 2 ^ l \<le> s" for i
    using r w by (subst bit_ror) (auto simp: ones mod_add_right_eq)
  ultimately show ?thesis unfolding bitmask_pattern_def W_def [symmetric] by simp
qed

lemma leading_zeros_concat:
  assumes "\<And>j. bit (m :: u32) j \<Longrightarrow> j = 0"
  shows "25 \<le> leading_zeros (push_bit 6 m OR (NOT x AND 0x3f))"
proof -
  have "\<not> bit (push_bit 6 m OR (NOT x AND 0x3f)) j" if "7 \<le> j" for j
    using that assms [of "j - 6"] by (auto simp: bit_simps mask6)
  then show ?thesis
    using clz_from_ge [of 7 32 "push_bit 6 m OR (NOT x AND 0x3f)"] by (simp add: leading_zeros_def)
qed

lemma decode_bitmask_cases:
  assumes "decode_bitmask n immr imms reg_size = Some v"
  obtains l s r where "1 \<le> l" "l \<le> 6" "2 ^ l \<le> reg_size" "s + 1 < 2 ^ l" "r < 2 ^ l"
    and "v = replicate_bits (ror (push_bit (s + 1) 1 - 1) r (2 ^ l)) (2 ^ l) reg_size"
proof -
  let ?c = "push_bit 6 (ucast (n AND 1)) OR (NOT ((ucast imms :: u32) AND 0x3f) AND 0x3f) :: u32"
  let ?l = "31 - leading_zeros ?c"
  let ?s = "unat ((ucast imms :: u32) AND 0x3f) AND (2 ^ ?l - 1)"
  let ?r = "unat ((ucast immr :: u32) AND 0x3f) AND (2 ^ ?l - 1)"
  have "25 \<le> leading_zeros ?c"
    by (rule leading_zeros_concat) (auto simp: bit_simps)
  then have l6: "?l \<le> 6" by simp
  have s: "?s < 2 ^ ?l" and r: "?r < 2 ^ ?l"
    unfolding nat_and_ones by simp_all
  from assms have *: "?l \<ge> 1" "2 ^ ?l \<le> reg_size" "?s \<noteq> 2 ^ ?l - 1"
    "v = replicate_bits (ror (push_bit (?s + 1) 1 - 1) ?r (2 ^ ?l)) (2 ^ ?l) reg_size"
    by (auto simp: decode_bitmask_def Let_def not_less Suc_le_eq split: if_splits)
  with s have "?s + 1 < 2 ^ ?l" by linarith
  with * l6 r that show thesis by blast
qed

text \<open>Both register sizes at once: the size is a power of two between an element and 64.\<close>

lemma decode_bitmask_pattern:
  assumes dec: "decode_bitmask n immr imms reg_size = Some v"
    and rs: "reg_size = 32 \<or> reg_size = 64"
  obtains l s r where "1 \<le> l" "2 ^ l \<le> reg_size" "s + 1 < 2 ^ l" "r < 2 ^ l"
    and "bitmask_pattern reg_size (2 ^ l) s r v"
proof -
  from rs obtain m where m: "reg_size = 2 ^ m" "m \<le> 6"
    by (elim disjE) (auto intro: that [of 5] that [of 6])
  from dec obtain l s r where *: "1 \<le> l" "l \<le> 6" "2 ^ l \<le> reg_size" "s + 1 < 2 ^ l" "r < 2 ^ l"
    "v = replicate_bits (ror (push_bit (s + 1) 1 - 1) r (2 ^ l)) (2 ^ l) reg_size"
    by (rule decode_bitmask_cases)
  with m have "l \<le> m" by (simp add: power_le_imp_le_exp)
  with * m have "bitmask_pattern reg_size (2 ^ l) s r v"
    using pattern_of_elements [of l m s r] by simp
  with * that show thesis by blast
qed

definition all_ones :: "nat \<Rightarrow> u64" where
  "all_ones reg_size = (if reg_size = 64 then - 1 else push_bit reg_size 1 - 1)"

text \<open>A pattern has a one (where the rotated run starts) and a zero (just before it) in its
  first element, so it is never one of the two values the encoder refuses up front.\<close>

lemma ex_rotation: "r < e \<Longrightarrow> x < e \<Longrightarrow> \<exists>i < e. (r + i) mod e = (x :: nat)"
  by (rule exI [of _ "if r \<le> x then x - r else e + x - r"]) auto

lemma pattern_mixed:
  assumes p: "bitmask_pattern reg_size e s r v" and e: "e \<le> reg_size" and rs: "reg_size \<le> 64"
    and s: "s + 1 < e" and r: "r < e"
  shows "v \<noteq> 0 \<and> v \<noteq> all_ones reg_size"
proof
  from ex_rotation [OF r, of 0] s obtain i where i: "i < e" "(r + i) mod e = 0" by auto
  with p e rs have "bit v i" by (simp add: bitmask_pattern_def)
  then show "v \<noteq> 0" by auto
  from ex_rotation [OF r, of "s + 1"] s obtain j where j: "j < e" "(r + j) mod e = s + 1" by auto
  with p e rs have "\<not> bit v j" by (simp add: bitmask_pattern_def)
  moreover have "bit (all_ones reg_size) j"
    using j e rs bit_register_mask [of reg_size j] by (simp add: all_ones_def)
  ultimately show "v \<noteq> all_ones reg_size" by auto
qed

section \<open>The encoder inverts the decoder\<close>

definition triples :: "nat \<Rightarrow> (u8 \<times> u8 \<times> u8) list" where
  "triples reg_size =
     concat (map (\<lambda>n. map (Pair n) (concat (map (\<lambda>immr. map (Pair immr) (u8_range 64)) (u8_range 64))))
       (if reg_size = 64 then [1, 0] else [0]))"

lemma encode_bitmask_find:
  "encode_bitmask v reg_size =
   (if v = 0 \<or> v = all_ones reg_size then None
    else find (\<lambda>(n, immr, imms). decode_bitmask n immr imms reg_size = Some v) (triples reg_size))"
proof -
  have body: "(\<lambda>(n, immr, imms). if decode_bitmask n immr imms reg_size = Some v
        then Some (n, immr, imms) else None) =
      (\<lambda>t. if case t of (n, immr, imms) \<Rightarrow> decode_bitmask n immr imms reg_size = Some v
        then Some t else None)"
    by (auto simp: fun_eq_iff)
  show ?thesis
    unfolding encode_bitmask_def all_ones_def triples_def Let_def
    by (simp add: first_some_nested body first_some_find case_prod_beta' cong: if_cong)
qed

lemma decode_bitmask_mixed:
  assumes "decode_bitmask n immr imms reg_size = Some v" and rs: "reg_size = 32 \<or> reg_size = 64"
  shows "v \<noteq> 0 \<and> v \<noteq> all_ones reg_size"
proof -
  from assms obtain l s r where "2 ^ l \<le> reg_size" "s + 1 < 2 ^ l" "r < 2 ^ l"
    and "bitmask_pattern reg_size (2 ^ l) s r v" by (rule decode_bitmask_pattern)
  with rs show ?thesis by (intro pattern_mixed [of reg_size "2 ^ l" s r v]) auto
qed

lemma bitmask_search_codec:
  assumes rs: "reg_size = 32 \<or> reg_size = 64"
  shows "search_codec (\<lambda>(n, immr, imms). decode_bitmask n immr imms reg_size) (triples reg_size)
           (\<lambda>v. v = 0 \<or> v = all_ones reg_size) (\<lambda>v. encode_bitmask v reg_size)"
proof
  show "encode_bitmask v reg_size = (if v = 0 \<or> v = all_ones reg_size then None
      else find (\<lambda>c. (case c of (n, immr, imms) \<Rightarrow> decode_bitmask n immr imms reg_size) = Some v)
        (triples reg_size))" for v
    unfolding encode_bitmask_find by (auto intro!: arg_cong2 [where f = find])
  show "\<not> (v = 0 \<or> v = all_ones reg_size)"
    if "(case c of (n, immr, imms) \<Rightarrow> decode_bitmask n immr imms reg_size) = Some v" for c v
    using that decode_bitmask_mixed [OF _ rs] by (cases c) auto
qed

interpretation bm64: search_codec
  "\<lambda>(n, immr, imms). decode_bitmask n immr imms 64" "triples 64"
  "\<lambda>v. v = 0 \<or> v = all_ones 64" "\<lambda>v. encode_bitmask v 64"
  by (rule bitmask_search_codec) simp

interpretation bm32: search_codec
  "\<lambda>(n, immr, imms). decode_bitmask n immr imms 32" "triples 32"
  "\<lambda>v. v = 0 \<or> v = all_ones 32" "\<lambda>v. encode_bitmask v 32"
  by (rule bitmask_search_codec) simp

lemma set_u8_range: "k \<le> 256 \<Longrightarrow> set (u8_range k) = {w. unat w < k}"
proof -
  assume k: "k \<le> 256"
  have "w \<in> word_of_nat ` {0..<k}" if "unat w < k" for w :: u8
    using that by (intro image_eqI [of _ _ "unat w"]) auto
  moreover have "unat (word_of_nat m :: u8) < k" if "m < k" for m
    using that k by (simp add: unat_of_nat)
  ultimately show ?thesis by (auto simp: u8_range_def)
qed

text \<open>A decidable fact about bytes is proved by evaluating it on all 256 of them.\<close>

lemma u8_all: "list_all P (u8_range 256) \<Longrightarrow> P w"
  using u8_less_256 [of w] by (simp add: list_all_iff set_u8_range)

lemma mem_triples:
  "(n, immr, imms) \<in> set (triples reg_size) \<longleftrightarrow>
   (n = 0 \<or> n = 1 \<and> reg_size = 64) \<and> unat immr < 64 \<and> unat imms < 64"
  by (auto simp: triples_def set_u8_range)

text \<open>Only the low bits of a triple matter, so the candidates the encoder tries cover every
  triple of bytes; \<open>N = 1\<close> is reserved in a 32-bit context.\<close>

lemma decode_bitmask_masked:
  "decode_bitmask (n AND 1) (immr AND 0x3f) (imms AND 0x3f) reg_size = decode_bitmask n immr imms reg_size"
proof -
  have "(ucast ((w :: u8) AND 0x3f) :: u32) AND 0x3f = ucast w AND 0x3f" for w
    by (rule bit_word_eqI) (auto simp: bit_simps dest: bit_imp_le_length)
  then show ?thesis by (simp add: decode_bitmask_def and.assoc)
qed

lemma and_one_cases: "(w :: u8) AND 1 = 0 \<or> w AND 1 = 1"
  by (simp add: and_one_eq mod_2_eq_odd)

lemma unat_and_mask6: "unat ((w :: u8) AND 0x3f) < 64"
proof -
  have "(w AND 0x3f) \<le> 0x3f" by (rule word_and_le1)
  then show ?thesis by (simp add: word_le_nat_alt)
qed

lemma clz_from_le: "bit w k \<Longrightarrow> k < n \<Longrightarrow> clz_from n w \<le> n - 1 - k"
proof (induction n)
  case (Suc n)
  then show ?case by (cases "k = n") auto
qed simp

lemma decode_bitmask_N1_32: "decode_bitmask 1 immr imms 32 = None"
proof -
  let ?c = "push_bit 6 1 OR (NOT ((ucast imms :: u32) AND 0x3f) AND 0x3f) :: u32"
  have "25 \<le> leading_zeros ?c"
    by (rule leading_zeros_concat) (auto simp: bit_simps)
  moreover have "bit ?c 6" by (simp add: bit_simps)
  then have "leading_zeros ?c \<le> 32 - 1 - 6"
    using clz_from_le [of ?c 6 32] by (simp add: leading_zeros_def)
  ultimately have "leading_zeros ?c = 25" by simp
  then show ?thesis by (simp add: decode_bitmask_def Let_def)
qed

lemma decodable_triple:
  assumes "decode_bitmask n immr imms reg_size = Some v" and "reg_size = 32 \<or> reg_size = 64"
  shows "(n AND 1, immr AND 0x3f, imms AND 0x3f) \<in> set (triples reg_size)"
  using assms and_one_cases [of n] decode_bitmask_N1_32 [of "immr AND 0x3f" "imms AND 0x3f"]
    decode_bitmask_masked [of n immr imms reg_size]
  by (auto simp: mem_triples unat_and_mask6)



text \<open>C15: the encoder returns a triple exactly when some triple of bytes denotes the value, and
  the triple it returns denotes the value: searching the decoder loses nothing.\<close>

theorem encode_bitmask_correct:
  assumes "reg_size = 32 \<or> reg_size = 64"
  shows "(encode_bitmask v reg_size = Some (n, immr, imms) \<longrightarrow>
            decode_bitmask n immr imms reg_size = Some v) \<and>
         (encode_bitmask v reg_size = None \<longleftrightarrow>
            (\<forall>n immr imms. decode_bitmask n immr imms reg_size \<noteq> Some v))"
proof -
  note codec = bitmask_search_codec [OF assms]
  have "decode_bitmask n immr imms reg_size = Some v"
    if "encode_bitmask v reg_size = Some (n, immr, imms)"
    using search_codec.enc_sound [OF codec that] by simp
  moreover have "(\<forall>(n, immr, imms) \<in> set (triples reg_size). decode_bitmask n immr imms reg_size \<noteq> Some v)
      \<longleftrightarrow> (\<forall>n immr imms. decode_bitmask n immr imms reg_size \<noteq> Some v)"
    (is "?L \<longleftrightarrow> ?R")
  proof
    assume ?L
    show ?R
    proof (intro allI notI)
      fix n immr imms
      assume d: "decode_bitmask n immr imms reg_size = Some v"
      from \<open>?L\<close> decodable_triple [OF d assms]
      have "decode_bitmask (n AND 1) (immr AND 0x3f) (imms AND 0x3f) reg_size \<noteq> Some v" by blast
      with d show False unfolding decode_bitmask_masked by simp
    qed
  qed auto
  ultimately show ?thesis
    using search_codec.enc_None_iff [OF codec, of v] by (simp add: case_prod_beta')
qed

theorem encode_bitmask_correct_witness:
  "encode_bitmask 1 64 = Some (1, 0, 0) \<and> decode_bitmask 1 0 0 64 = Some 1"
proof -
  have e: "encode_bitmask 1 64 = Some (1, 0, 0)" by code_simp
  show ?thesis using e encode_bitmask_correct [of 64 1 1 0 0] by simp
qed

end
