(* ===== verification/Asm_Operand.thy ===== *)
theory Asm_Operand
  imports Asm_Reg Asm_Bitmask
begin

text \<open>
  Condition codes, shifts, extends and the validated immediates of
  \<^verbatim>\<open>fors-asm/src/operand.rs\<close> and \<^verbatim>\<open>fors-asm/src/fpimm.rs\<close>. Each wrapper validates at
  construction and is later placed verbatim in an instruction word. The locale
  \<open>immediate\<close> states what the encoder relies on: the constructor keeps the value it is given,
  the encoded field fits its width, and the field determines the operand.
\<close>

section \<open>Condition codes\<close>

datatype Cond = Cond u8

fun cond_bits :: "Cond \<Rightarrow> u8" where
  "cond_bits (Cond b) = b"

definition cond_all :: "Cond list" where
  "cond_all = map Cond [0, 1, 2, 3, 4, 5, 6, 7, 8, 9, 10, 11, 12, 13, 14, 15]"

definition cond_AL :: Cond where "cond_AL = Cond 0b1110"
definition cond_NV :: Cond where "cond_NV = Cond 0b1111"

definition cond_code :: "Cond \<Rightarrow> u32" where
  "cond_code c = ucast (cond_bits c)"

definition inverted :: "Cond \<Rightarrow> Cond" where
  "inverted c = Cond (cond_bits c XOR 1)"

definition wf_cond :: "Cond \<Rightarrow> bool" where
  "wf_cond c \<longleftrightarrow> cond_bits c \<le> 15"

section \<open>Shifts and extends\<close>

datatype ShiftKind = Lsl | Lsr | Asr | Ror

fun shift_encoding :: "ShiftKind \<Rightarrow> u32" where
  "shift_encoding Lsl = 0b00"
| "shift_encoding Lsr = 0b01"
| "shift_encoding Asr = 0b10"
| "shift_encoding Ror = 0b11"

record RegShift =
  sh_kind :: ShiftKind
  sh_amount :: u8

definition reg_shift_new :: "ShiftKind \<Rightarrow> u8 \<Rightarrow> bool \<Rightarrow> (EncodeError, RegShift) result" where
  "reg_shift_new k amount b =
     (let max = (if b then 63 else 31)
      in if amount > max
         then Inl (ImmediateOutOfRange ''shifted-register amount'' (uint amount))
         else Inr \<lparr>sh_kind = k, sh_amount = amount\<rparr>)"

definition reg_shift_none :: RegShift where
  "reg_shift_none = \<lparr>sh_kind = Lsl, sh_amount = 0\<rparr>"

definition shift_amount :: "RegShift \<Rightarrow> u32" where
  "shift_amount s = ucast (sh_amount s)"

datatype ExtendKind = Uxtb | Uxth | Uxtw | Uxtx | Sxtb | Sxth | Sxtw | Sxtx

fun extend_encoding :: "ExtendKind \<Rightarrow> u32" where
  "extend_encoding Uxtb = 0b000"
| "extend_encoding Uxth = 0b001"
| "extend_encoding Uxtw = 0b010"
| "extend_encoding Uxtx = 0b011"
| "extend_encoding Sxtb = 0b100"
| "extend_encoding Sxth = 0b101"
| "extend_encoding Sxtw = 0b110"
| "extend_encoding Sxtx = 0b111"

record RegExtend =
  ex_kind :: ExtendKind
  ex_amount :: u8

definition reg_extend_new :: "ExtendKind \<Rightarrow> u8 \<Rightarrow> (EncodeError, RegExtend) result" where
  "reg_extend_new k amount =
     (if amount > 4
      then Inl (ImmediateOutOfRange ''extended-register amount'' (uint amount))
      else Inr \<lparr>ex_kind = k, ex_amount = amount\<rparr>)"

definition extend_amount :: "RegExtend \<Rightarrow> u32" where
  "extend_amount e = ucast (ex_amount e)"

section \<open>Immediates\<close>

record Uimm12Lsl =
  u12_raw :: u16
  shift12 :: bool

definition uimm12_new :: "u64 \<Rightarrow> (EncodeError, Uimm12Lsl) result" where
  "uimm12_new v =
     (if v \<le> 0xFFF then Inr \<lparr>u12_raw = ucast v, shift12 = False\<rparr>
      else if v AND 0xFFF = 0 \<and> drop_bit 12 v \<le> 0xFFF
      then Inr \<lparr>u12_raw = ucast (drop_bit 12 v), shift12 = True\<rparr>
      else Inl (ImmediateOutOfRange ''ADD/SUB immediate'' (sint v)))"

definition uimm12_raw :: "Uimm12Lsl \<Rightarrow> u32" where
  "uimm12_raw i = ucast (u12_raw i)"

definition uimm12_value :: "Uimm12Lsl \<Rightarrow> u64" where
  "uimm12_value i = (if shift12 i then push_bit 12 (ucast (u12_raw i)) else ucast (u12_raw i))"

record LogicalImm =
  li_n :: u8
  li_immr :: u8
  li_imms :: u8
  li_is64 :: bool
  li_value :: u64

definition logical_imm_new :: "u64 \<Rightarrow> bool \<Rightarrow> (EncodeError, LogicalImm) result" where
  "logical_imm_new v b =
     (let reg_size = (if b then 64 else 32);
          target = (if b then v else ucast (ucast v :: u32))
      in case encode_bitmask target reg_size of
           Some (n, immr, imms) \<Rightarrow>
             Inr \<lparr>li_n = n, li_immr = immr, li_imms = imms, li_is64 = b, li_value = target\<rparr>
         | None \<Rightarrow> Inl (UnencodableLogicalImmediate target b))"

definition logical_imm_n :: "LogicalImm \<Rightarrow> u32" where
  "logical_imm_n i = ucast (li_n i)"

definition logical_imm_immr :: "LogicalImm \<Rightarrow> u32" where
  "logical_imm_immr i = ucast (li_immr i)"

definition logical_imm_imms :: "LogicalImm \<Rightarrow> u32" where
  "logical_imm_imms i = ucast (li_imms i)"

text \<open>
  \<^verbatim>\<open>BranchOffset::new\<close> shifts by \<^verbatim>\<open>bits - 1\<close> and negates the result: \<open>None\<close> is the arithmetic
  overflow panic for \<^verbatim>\<open>bits\<close> 0 or at least 64. Rust's \<^verbatim>\<open>%\<close> and \<^verbatim>\<open>/\<close> by 4 truncate towards zero,
  which on a multiple of 4 is exact division.
\<close>

record BranchOffset =
  bo_bits :: nat
  word_off :: int

definition branch_offset_new ::
  "int \<Rightarrow> nat \<Rightarrow> string \<Rightarrow> (EncodeError, BranchOffset) result option" where
  "branch_offset_new bytes bits what =
     (if bytes mod 4 \<noteq> 0 then Some (Inl (MisalignedOffset what bytes))
      else if bits = 0 \<or> bits \<ge> 64 then None
      else let off = bytes div 4;
               min = - (2 ^ (bits - 1));
               max = 2 ^ (bits - 1) - 1
           in if off < min \<or> off > max then Some (Inl (ImmediateOutOfRange what bytes))
              else Some (Inr \<lparr>bo_bits = bits, word_off = as_signed 32 off\<rparr>))"

definition branch_offset_encoding :: "BranchOffset \<Rightarrow> u32" where
  "branch_offset_encoding off = word_of_int (word_off off) AND (push_bit (bo_bits off) 1 - 1)"

definition branch_offset_bytes :: "BranchOffset \<Rightarrow> int" where
  "branch_offset_bytes off = word_off off * 4"

datatype AdrOffset = AdrOffset int

fun adr_bytes :: "AdrOffset \<Rightarrow> int" where
  "adr_bytes (AdrOffset b) = b"

definition adr_new :: "int \<Rightarrow> (EncodeError, AdrOffset) result" where
  "adr_new bytes =
     (if \<not> (- (2 ^ 20) \<le> bytes \<and> bytes < 2 ^ 20)
      then Inl (ImmediateOutOfRange ''ADR offset'' bytes)
      else Inr (AdrOffset (as_signed 32 bytes)))"

definition adr_encoding :: "AdrOffset \<Rightarrow> u32 \<times> u32" where
  "adr_encoding off =
     (let imm21 = word_of_int (adr_bytes off) AND 0x1FFFFF
      in (imm21 AND 0b11, drop_bit 2 imm21))"

datatype AdrpOffset = AdrpOffset int

fun adrp_pages :: "AdrpOffset \<Rightarrow> int" where
  "adrp_pages (AdrpOffset p) = p"

definition adrp_new :: "int \<Rightarrow> (EncodeError, AdrpOffset) result" where
  "adrp_new pages =
     (if \<not> (- (2 ^ 20) \<le> pages \<and> pages < 2 ^ 20)
      then Inl (ImmediateOutOfRange ''ADRP page offset'' pages)
      else Inr (AdrpOffset (as_signed 32 pages)))"

definition adrp_encoding :: "AdrpOffset \<Rightarrow> u32 \<times> u32" where
  "adrp_encoding off =
     (let imm21 = word_of_int (adrp_pages off) AND 0x1FFFFF
      in (imm21 AND 0b11, drop_bit 2 imm21))"

datatype Simm9 = Simm9 int

fun simm9_value :: "Simm9 \<Rightarrow> int" where
  "simm9_value (Simm9 b) = b"

definition simm9_new :: "int \<Rightarrow> (EncodeError, Simm9) result" where
  "simm9_new bytes =
     (if \<not> (- 256 \<le> bytes \<and> bytes < 256)
      then Inl (ImmediateOutOfRange ''unscaled/indexed offset (simm9)'' bytes)
      else Inr (Simm9 (as_signed 16 bytes)))"

definition simm9_encoding :: "Simm9 \<Rightarrow> u32" where
  "simm9_encoding i = word_of_int (simm9_value i) AND 0x1FF"

text \<open>
  The scaled immediates divide by the access size: \<open>None\<close> is the division-by-zero panic.
  \<^verbatim>\<open>is_multiple_of(0)\<close> holds of 0 only, so a zero access size panics for a zero offset and is
  reported as misaligned otherwise.
\<close>

record UScaledImm12 =
  us_scaled :: u16
  us_access_size :: nat

definition uscaled_new :: "int \<Rightarrow> nat \<Rightarrow> (EncodeError, UScaledImm12) result option" where
  "uscaled_new bytes access_size =
     (if bytes < 0 \<or> \<not> int access_size dvd bytes
      then Some (Inl (MisalignedOffset ''LDR/STR unsigned-offset'' bytes))
      else if access_size = 0 then None
      else let scaled = nat bytes div access_size
           in if scaled > 0xFFF
              then Some (Inl (ImmediateOutOfRange ''LDR/STR unsigned-offset'' bytes))
              else Some (Inr \<lparr>us_scaled = word_of_nat scaled, us_access_size = access_size\<rparr>))"

definition uscaled_encoding :: "UScaledImm12 \<Rightarrow> u32" where
  "uscaled_encoding i = ucast (us_scaled i)"

definition uscaled_bytes :: "UScaledImm12 \<Rightarrow> int" where
  "uscaled_bytes i = uint (us_scaled i) * int (us_access_size i)"

record SImm7Scaled =
  s7_scaled :: int
  s7_access_size :: nat

definition simm7_new :: "int \<Rightarrow> nat \<Rightarrow> (EncodeError, SImm7Scaled) result option" where
  "simm7_new bytes access_size =
     (if access_size = 0 then None
      else if bytes mod int access_size \<noteq> 0
      then Some (Inl (MisalignedOffset ''LDP/STP offset'' bytes))
      else let scaled = bytes div int access_size
           in if \<not> (- 64 \<le> scaled \<and> scaled < 64)
              then Some (Inl (ImmediateOutOfRange ''LDP/STP offset'' bytes))
              else Some (Inr \<lparr>s7_scaled = as_signed 8 scaled, s7_access_size = access_size\<rparr>))"

definition simm7_encoding :: "SImm7Scaled \<Rightarrow> u32" where
  "simm7_encoding i = word_of_int (s7_scaled i) AND 0x7F"

definition simm7_bytes :: "SImm7Scaled \<Rightarrow> int" where
  "simm7_bytes i = s7_scaled i * int (s7_access_size i)"

section \<open>The 8-bit floating-point immediate\<close>

definition fp_expand :: "u8 \<Rightarrow> bool \<Rightarrow> u64" where
  "fp_expand imm8 b =
     (let sign = ucast (drop_bit 7 imm8 AND 1) :: u64;
          bb = drop_bit 6 imm8 AND 1;
          cd = ucast (drop_bit 4 imm8 AND 0b11) :: u64;
          efgh = ucast (imm8 AND 0xF) :: u64;
          not_b = (1 - ucast bb) AND 1 :: u64
      in if b
         then let rep_b = (if bb = 1 then 0xFF else 0);
                  exp = push_bit 10 not_b OR push_bit 2 rep_b OR cd;
                  frac = push_bit 48 efgh
              in push_bit 63 sign OR push_bit 52 exp OR frac
         else let rep_b = (if bb = 1 then 0x1F else 0);
                  exp = push_bit 7 not_b OR push_bit 2 rep_b OR cd;
                  frac = push_bit 19 efgh
              in push_bit 31 sign OR push_bit 23 exp OR frac)"

record FpImm8 =
  fi_imm8 :: u8
  fi_is64 :: bool
  fi_bits :: u64

definition fpimm_search :: "u64 \<Rightarrow> bool \<Rightarrow> u8 option" where
  "fpimm_search target b =
     first_some (\<lambda>imm8. if fp_expand imm8 b = target then Some imm8 else None) (u8_range 256)"

definition fpimm_from_bits :: "u64 \<Rightarrow> bool \<Rightarrow> (EncodeError, FpImm8) result" where
  "fpimm_from_bits bits b =
     (let target = (if b then bits else bits AND 0xFFFFFFFF)
      in case fpimm_search target b of
           Some imm8 \<Rightarrow> Inr \<lparr>fi_imm8 = imm8, fi_is64 = b, fi_bits = target\<rparr>
         | None \<Rightarrow> Inl (ImmediateOutOfRange
             ''FMOV immediate (not one of the 256 representable values)'' (sint target)))"

definition fpimm_encoding :: "FpImm8 \<Rightarrow> u32" where
  "fpimm_encoding i = ucast (fi_imm8 i)"

end
