(* ===== verification/Asm_Inst.thy ===== *)
theory Asm_Inst
  imports Asm_Operand
begin

text \<open>
  The instruction type and its constructors (\<^verbatim>\<open>fors-asm/src/inst.rs\<close>,
  \<^verbatim>\<open>fors-asm/src/fp.rs\<close>): one variant per encoding shape, aliases as constructor functions that
  build the canonical variant and record which alias was meant. A constructor that can refuse
  its operands returns \<open>Inl\<close> of the error the source returns, checked in the source's order.
  Constructor names that two Rust enums share carry a prefix.
\<close>

section \<open>Operation kinds\<close>

datatype MovWideOp = Movz | Movn | Movk

datatype AddSubOp = Add | Sub

datatype AddSubAlias = AS_None | AS_Cmp | AS_Cmn | AS_Neg | AS_Negs | AS_Mov

datatype LogicalShiftOp =
  LS_And | LS_Bic | LS_Orr | LS_Orn | LS_Eor | LS_Eon | LS_Ands | LS_Bics

datatype LogicalImmOp = LI_And | LI_Orr | LI_Eor | LI_Ands

datatype LogicalAlias = LA_None | LA_Mvn | LA_Tst | LA_Mov

datatype BitfieldOp = Sbfm | Bfm | Ubfm

datatype BitfieldAlias =
  BF_None | BF_Lsl | BF_Lsr | BF_Asr | BF_Sxtb | BF_Sxth | BF_Sxtw | BF_Uxtb | BF_Uxth

datatype DataProc2Op = Udiv | Sdiv | Lslv | Lsrv | Asrv | Rorv

datatype DataProc3Op = Madd | Msub | Smulh | Umulh

datatype DataProc1Op = Rbit | Clz | Rev

datatype CondSelectOp = Csel | Csinc | Csinv | Csneg

datatype CondSelectAlias = CS_None | CS_Cset | CS_Csetm | CS_Cinc | CS_Cinv | CS_Cneg

datatype LdStOp =
    StrB | LdrB | LdrSb bool | StrH | LdrH | LdrSh bool | StrW | LdrW | LdrSw | StrX | LdrX

fun size_opc :: "LdStOp \<Rightarrow> u32 \<times> u32" where
  "size_opc StrB = (0b00, 0b00)"
| "size_opc LdrB = (0b00, 0b01)"
| "size_opc (LdrSb True) = (0b00, 0b10)"
| "size_opc (LdrSb False) = (0b00, 0b11)"
| "size_opc StrH = (0b01, 0b00)"
| "size_opc LdrH = (0b01, 0b01)"
| "size_opc (LdrSh True) = (0b01, 0b10)"
| "size_opc (LdrSh False) = (0b01, 0b11)"
| "size_opc StrW = (0b10, 0b00)"
| "size_opc LdrW = (0b10, 0b01)"
| "size_opc LdrSw = (0b10, 0b10)"
| "size_opc StrX = (0b11, 0b00)"
| "size_opc LdrX = (0b11, 0b01)"

fun access_size :: "LdStOp \<Rightarrow> nat" where
  "access_size StrB = 1"
| "access_size LdrB = 1"
| "access_size (LdrSb _) = 1"
| "access_size StrH = 2"
| "access_size LdrH = 2"
| "access_size (LdrSh _) = 2"
| "access_size StrW = 4"
| "access_size LdrW = 4"
| "access_size LdrSw = 4"
| "access_size StrX = 8"
| "access_size LdrX = 8"

fun rt_is64 :: "LdStOp \<Rightarrow> bool" where
  "rt_is64 (LdrSb b) = b"
| "rt_is64 (LdrSh b) = b"
| "rt_is64 LdrSw = True"
| "rt_is64 StrX = True"
| "rt_is64 LdrX = True"
| "rt_is64 _ = False"

datatype LdStExtend = LX_Uxtw | LX_Lsl | LX_Sxtw | LX_Sxtx

fun ldst_option :: "LdStExtend \<Rightarrow> u32" where
  "ldst_option LX_Uxtw = 0b010"
| "ldst_option LX_Lsl = 0b011"
| "ldst_option LX_Sxtw = 0b110"
| "ldst_option LX_Sxtx = 0b111"

fun rm_is64 :: "LdStExtend \<Rightarrow> bool" where
  "rm_is64 e = (case e of LX_Lsl \<Rightarrow> True | LX_Sxtx \<Rightarrow> True | _ \<Rightarrow> False)"

record RegOffset =
  ro_rm :: Reg
  ro_extend :: LdStExtend
  ro_shifted :: bool

definition reg_offset_new :: "Reg \<Rightarrow> LdStExtend \<Rightarrow> bool \<Rightarrow> (EncodeError, RegOffset) result" where
  "reg_offset_new rm ext shifted =
     (if is64 rm \<noteq> rm_is64 ext
      then Inl (RegisterWidthMismatch ''load/store register offset'')
      else Inr \<lparr>ro_rm = rm, ro_extend = ext, ro_shifted = shifted\<rparr>)"

datatype AddrMode =
    UnsignedOffset UScaledImm12
  | Unscaled Simm9
  | PreIndex Simm9
  | PostIndex Simm9
  | AM_RegOffset RegOffset

datatype SysOp = Nop | Brk u16 | Svc u16 | Udf u16

datatype PairIndex = PI_Offset | PI_PreIndex | PI_PostIndex

datatype FpUnaryOp = Fmov | Fabs | Fneg | Fsqrt

datatype FpBinOp = Fadd | Fsub | Fmul | Fdiv

datatype FpIntConvertOp = Scvtf | Ucvtf | Fcvtzs | Fcvtzu

section \<open>Instructions\<close>

text \<open>The arguments of a variant are the fields of the Rust variant in their order.\<close>

datatype Inst =
    MovWide MovWideOp Reg u16 u8
  | AddSubImm AddSubOp bool Reg Reg Uimm12Lsl AddSubAlias
  | AddSubShiftedReg AddSubOp bool Reg Reg Reg RegShift AddSubAlias
  | AddSubExtendedReg AddSubOp bool Reg Reg Reg RegExtend AddSubAlias
  | LogicalImmInst LogicalImmOp Reg Reg LogicalImm LogicalAlias
  | LogicalShiftedReg LogicalShiftOp Reg Reg Reg RegShift LogicalAlias
  | Bitfield BitfieldOp Reg Reg u8 u8 BitfieldAlias
  | DataProc2Source DataProc2Op Reg Reg Reg
  | DataProc3Source DataProc3Op Reg Reg Reg Reg bool
  | DataProc1Source DataProc1Op Reg Reg
  | CondSelect CondSelectOp Reg Reg Reg Cond CondSelectAlias
  | Adr Reg AdrOffset
  | Adrp Reg AdrpOffset
  | Branch bool BranchOffset
  | BranchCond Cond BranchOffset
  | CompareBranch bool bool Reg BranchOffset
  | TestBranch bool Reg u8 BranchOffset
  | BranchReg Reg
  | BranchLinkReg Reg
  | Ret Reg
  | LoadStoreImm LdStOp Reg Reg AddrMode
  | LoadStorePair bool bool Reg Reg Reg SImm7Scaled PairIndex
  | FpLoadStoreImm bool FpReg Reg AddrMode
  | SystemInst SysOp
  | FpDataProc1 FpUnaryOp FpReg FpReg
  | FpConvert FpReg FpReg
  | FpDataProc2 FpBinOp FpReg FpReg FpReg
  | FpCompare FpReg FpReg
  | FpCondSelect FpReg FpReg FpReg Cond
  | FpImmMove FpReg FpImm8
  | FpToGp Reg FpReg
  | GpToFp FpReg Reg
  | FpIntConvert FpIntConvertOp Reg FpReg
  | FpMadd FpReg FpReg FpReg FpReg

type_synonym inst_result = "(EncodeError, Inst) result"

definition check_same_width :: "Reg \<Rightarrow> Reg \<Rightarrow> string \<Rightarrow> (EncodeError, unit) result" where
  "check_same_width a b what =
     (if is64 a \<noteq> is64 b then Inl (RegisterWidthMismatch what) else Inr ())"

text \<open>The expression \<^verbatim>\<open>if r.is64() { Reg::xzr() } else { Reg::wzr() }\<close> of the alias constructors.\<close>

definition zr_like :: "Reg \<Rightarrow> Reg" where
  "zr_like r = (if is64 r then reg_xzr else reg_wzr)"

section \<open>MOVZ, MOVN, MOVK\<close>

definition mov_wide :: "MovWideOp \<Rightarrow> Reg \<Rightarrow> u16 \<Rightarrow> u8 \<Rightarrow> inst_result" where
  "mov_wide op rd imm16 shift =
     (let max_shift = (if is64 rd then 48 else 16)
      in if shift > max_shift \<or> shift mod 16 \<noteq> 0
         then Inl (ImmediateOutOfRange ''MOVZ/MOVN/MOVK shift'' (uint shift))
         else Inr (MovWide op rd imm16 shift))"

definition inst_movz :: "Reg \<Rightarrow> u16 \<Rightarrow> u8 \<Rightarrow> inst_result" where
  "inst_movz rd imm16 shift = mov_wide Movz rd imm16 shift"

definition inst_movn :: "Reg \<Rightarrow> u16 \<Rightarrow> u8 \<Rightarrow> inst_result" where
  "inst_movn rd imm16 shift = mov_wide Movn rd imm16 shift"

definition inst_movk :: "Reg \<Rightarrow> u16 \<Rightarrow> u8 \<Rightarrow> inst_result" where
  "inst_movk rd imm16 shift = mov_wide Movk rd imm16 shift"

section \<open>ADD and SUB\<close>

definition add_sub_imm_common :: "bool \<Rightarrow> Reg \<Rightarrow> Reg \<Rightarrow> string \<Rightarrow> (EncodeError, unit) result" where
  "add_sub_imm_common set_flags rd rn what =
     bindR (check_same_width rd rn what) (\<lambda>_.
       if is_zr rn
       then Inl (InvalidRegisterForForm
         ''ADD/SUB immediate Rn (field 31 is always SP here, never XZR/WZR)'')
       else if set_flags
       then (if is_sp rd
             then Inl (InvalidRegisterForForm
               ''ADDS/SUBS Rd (field 31 is always XZR/WZR here, never SP; use ADD/SUB for an SP destination)'')
             else Inr ())
       else if is_zr rd
       then Inl (InvalidRegisterForForm
         ''ADD/SUB Rd (field 31 is always SP here, never XZR/WZR; use ADDS/SUBS for a discarded/flags-only result)'')
       else Inr ())"

definition inst_add_imm :: "Reg \<Rightarrow> Reg \<Rightarrow> Uimm12Lsl \<Rightarrow> inst_result" where
  "inst_add_imm rd rn imm =
     bindR (add_sub_imm_common False rd rn ''ADD (immediate)'')
       (\<lambda>_. Inr (AddSubImm Add False rd rn imm AS_None))"

definition inst_adds_imm :: "Reg \<Rightarrow> Reg \<Rightarrow> Uimm12Lsl \<Rightarrow> inst_result" where
  "inst_adds_imm rd rn imm =
     bindR (add_sub_imm_common True rd rn ''ADDS (immediate)'')
       (\<lambda>_. Inr (AddSubImm Add True rd rn imm AS_None))"

definition inst_sub_imm :: "Reg \<Rightarrow> Reg \<Rightarrow> Uimm12Lsl \<Rightarrow> inst_result" where
  "inst_sub_imm rd rn imm =
     bindR (add_sub_imm_common False rd rn ''SUB (immediate)'')
       (\<lambda>_. Inr (AddSubImm Sub False rd rn imm AS_None))"

definition inst_subs_imm :: "Reg \<Rightarrow> Reg \<Rightarrow> Uimm12Lsl \<Rightarrow> inst_result" where
  "inst_subs_imm rd rn imm =
     bindR (add_sub_imm_common True rd rn ''SUBS (immediate)'')
       (\<lambda>_. Inr (AddSubImm Sub True rd rn imm AS_None))"

definition inst_cmp_imm :: "Reg \<Rightarrow> Uimm12Lsl \<Rightarrow> inst_result" where
  "inst_cmp_imm rn imm =
     (let rd = zr_like rn
      in bindR (add_sub_imm_common True rd rn ''CMP (immediate)'')
           (\<lambda>_. Inr (AddSubImm Sub True rd rn imm AS_Cmp)))"

definition inst_cmn_imm :: "Reg \<Rightarrow> Uimm12Lsl \<Rightarrow> inst_result" where
  "inst_cmn_imm rn imm =
     (let rd = zr_like rn
      in bindR (add_sub_imm_common True rd rn ''CMN (immediate)'')
           (\<lambda>_. Inr (AddSubImm Add True rd rn imm AS_Cmn)))"

definition add_sub_shifted ::
  "AddSubOp \<Rightarrow> bool \<Rightarrow> Reg \<Rightarrow> Reg \<Rightarrow> Reg \<Rightarrow> RegShift \<Rightarrow> AddSubAlias \<Rightarrow> inst_result" where
  "add_sub_shifted op set_flags rd rn rm shift alias =
     (if sh_kind shift = Ror
      then Inl (InvalidShiftForForm ''ADD/SUB shifted-register (ROR is not legal here)'')
      else bindR (check_same_width rd rn ''ADD/SUB shifted-register'') (\<lambda>_.
        bindR (check_same_width rd rm ''ADD/SUB shifted-register'') (\<lambda>_.
          if is_sp rd \<or> is_sp rn \<or> is_sp rm
          then Inl (InvalidRegisterForForm
            ''ADD/SUB shifted-register (no SP operand; use extended-register form)'')
          else Inr (AddSubShiftedReg op set_flags rd rn rm shift alias))))"

definition inst_add_shifted :: "Reg \<Rightarrow> Reg \<Rightarrow> Reg \<Rightarrow> RegShift \<Rightarrow> inst_result" where
  "inst_add_shifted rd rn rm shift = add_sub_shifted Add False rd rn rm shift AS_None"

definition inst_adds_shifted :: "Reg \<Rightarrow> Reg \<Rightarrow> Reg \<Rightarrow> RegShift \<Rightarrow> inst_result" where
  "inst_adds_shifted rd rn rm shift = add_sub_shifted Add True rd rn rm shift AS_None"

definition inst_sub_shifted :: "Reg \<Rightarrow> Reg \<Rightarrow> Reg \<Rightarrow> RegShift \<Rightarrow> inst_result" where
  "inst_sub_shifted rd rn rm shift = add_sub_shifted Sub False rd rn rm shift AS_None"

definition inst_subs_shifted :: "Reg \<Rightarrow> Reg \<Rightarrow> Reg \<Rightarrow> RegShift \<Rightarrow> inst_result" where
  "inst_subs_shifted rd rn rm shift = add_sub_shifted Sub True rd rn rm shift AS_None"

definition inst_cmp_shifted :: "Reg \<Rightarrow> Reg \<Rightarrow> RegShift \<Rightarrow> inst_result" where
  "inst_cmp_shifted rn rm shift = add_sub_shifted Sub True (zr_like rn) rn rm shift AS_Cmp"

definition inst_cmn_shifted :: "Reg \<Rightarrow> Reg \<Rightarrow> RegShift \<Rightarrow> inst_result" where
  "inst_cmn_shifted rn rm shift = add_sub_shifted Add True (zr_like rn) rn rm shift AS_Cmn"

definition inst_neg :: "Reg \<Rightarrow> Reg \<Rightarrow> RegShift \<Rightarrow> inst_result" where
  "inst_neg rd rm shift = add_sub_shifted Sub False rd (zr_like rd) rm shift AS_Neg"

definition inst_negs :: "Reg \<Rightarrow> Reg \<Rightarrow> RegShift \<Rightarrow> inst_result" where
  "inst_negs rd rm shift = add_sub_shifted Sub True rd (zr_like rd) rm shift AS_Negs"

definition add_sub_extended ::
  "AddSubOp \<Rightarrow> bool \<Rightarrow> Reg \<Rightarrow> Reg \<Rightarrow> Reg \<Rightarrow> RegExtend \<Rightarrow> AddSubAlias \<Rightarrow> inst_result" where
  "add_sub_extended op set_flags rd rn rm ext alias =
     (if is_sp rm then Inl (InvalidRegisterForForm ''ADD/SUB extended-register Rm'')
      else if is64 rd \<noteq> is64 rn
      then Inl (RegisterWidthMismatch ''ADD/SUB extended-register'')
      else let rm_must_be_64 = (ex_kind ext = Uxtx \<or> ex_kind ext = Sxtx)
           in if is64 rm \<noteq> rm_must_be_64
              then Inl (RegisterWidthMismatch
                ''ADD/SUB extended-register Rm width vs extend kind (UXTB/UXTH/UXTW/SXTB/SXTH/SXTW need Wm; UXTX/SXTX need Xm)'')
              else if rm_must_be_64 \<and> \<not> is64 rd
              then Inl (RegisterWidthMismatch
                ''ADD/SUB extended-register: UXTX/SXTX require a 64-bit (X) destination'')
              else Inr (AddSubExtendedReg op set_flags rd rn rm ext alias))"

definition inst_add_extended :: "Reg \<Rightarrow> Reg \<Rightarrow> Reg \<Rightarrow> RegExtend \<Rightarrow> inst_result" where
  "inst_add_extended rd rn rm ext = add_sub_extended Add False rd rn rm ext AS_None"

definition inst_adds_extended :: "Reg \<Rightarrow> Reg \<Rightarrow> Reg \<Rightarrow> RegExtend \<Rightarrow> inst_result" where
  "inst_adds_extended rd rn rm ext = add_sub_extended Add True rd rn rm ext AS_None"

definition inst_sub_extended :: "Reg \<Rightarrow> Reg \<Rightarrow> Reg \<Rightarrow> RegExtend \<Rightarrow> inst_result" where
  "inst_sub_extended rd rn rm ext = add_sub_extended Sub False rd rn rm ext AS_None"

definition inst_subs_extended :: "Reg \<Rightarrow> Reg \<Rightarrow> Reg \<Rightarrow> RegExtend \<Rightarrow> inst_result" where
  "inst_subs_extended rd rn rm ext = add_sub_extended Sub True rd rn rm ext AS_None"

definition inst_cmp_extended :: "Reg \<Rightarrow> Reg \<Rightarrow> RegExtend \<Rightarrow> inst_result" where
  "inst_cmp_extended rn rm ext = add_sub_extended Sub True (zr_like rn) rn rm ext AS_Cmp"

definition inst_cmn_extended :: "Reg \<Rightarrow> Reg \<Rightarrow> RegExtend \<Rightarrow> inst_result" where
  "inst_cmn_extended rn rm ext = add_sub_extended Add True (zr_like rn) rn rm ext AS_Cmn"

text \<open>\<^verbatim>\<open>Uimm12Lsl::new(0).expect(..)\<close>: the constant 0 is always accepted, as \<open>uimm12_new_0\<close> shows.\<close>

definition inst_mov_sp :: "Reg \<Rightarrow> Reg \<Rightarrow> inst_result" where
  "inst_mov_sp rd rn =
     bindR (add_sub_imm_common False rd rn ''MOV (to/from SP)'') (\<lambda>_.
       bindR (uimm12_new 0) (\<lambda>imm. Inr (AddSubImm Add False rd rn imm AS_Mov)))"

lemma uimm12_new_0: "uimm12_new 0 = Inr \<lparr>u12_raw = 0, shift12 = False\<rparr>"
  by (simp add: uimm12_new_def)

section \<open>Logical operations\<close>

definition logical_imm ::
  "LogicalImmOp \<Rightarrow> Reg \<Rightarrow> Reg \<Rightarrow> LogicalImm \<Rightarrow> LogicalAlias \<Rightarrow> inst_result" where
  "logical_imm op rd rn imm alias =
     bindR (check_same_width rd rn ''AND/ORR/EOR/ANDS (immediate)'') (\<lambda>_.
       if is64 rd \<noteq> li_is64 imm
       then Inl (RegisterWidthMismatch ''logical immediate width vs register width'')
       else if is_sp rn
       then Inl (InvalidRegisterForForm ''AND/ORR/EOR/ANDS (immediate) Rn (no SP)'')
       else if op = LI_Ands \<and> is_sp rd
       then Inl (InvalidRegisterForForm ''ANDS (immediate) Rd (no SP; flag-setting form)'')
       else Inr (LogicalImmInst op rd rn imm alias))"

definition inst_and_imm :: "Reg \<Rightarrow> Reg \<Rightarrow> LogicalImm \<Rightarrow> inst_result" where
  "inst_and_imm rd rn imm = logical_imm LI_And rd rn imm LA_None"

definition inst_orr_imm :: "Reg \<Rightarrow> Reg \<Rightarrow> LogicalImm \<Rightarrow> inst_result" where
  "inst_orr_imm rd rn imm = logical_imm LI_Orr rd rn imm LA_None"

definition inst_eor_imm :: "Reg \<Rightarrow> Reg \<Rightarrow> LogicalImm \<Rightarrow> inst_result" where
  "inst_eor_imm rd rn imm = logical_imm LI_Eor rd rn imm LA_None"

definition inst_ands_imm :: "Reg \<Rightarrow> Reg \<Rightarrow> LogicalImm \<Rightarrow> inst_result" where
  "inst_ands_imm rd rn imm = logical_imm LI_Ands rd rn imm LA_None"

definition inst_tst_imm :: "Reg \<Rightarrow> LogicalImm \<Rightarrow> inst_result" where
  "inst_tst_imm rn imm = logical_imm LI_Ands (zr_like rn) rn imm LA_Tst"

definition logical_shifted ::
  "LogicalShiftOp \<Rightarrow> Reg \<Rightarrow> Reg \<Rightarrow> Reg \<Rightarrow> RegShift \<Rightarrow> LogicalAlias \<Rightarrow> inst_result" where
  "logical_shifted op rd rn rm shift alias =
     bindR (check_same_width rd rn ''logical shifted-register'') (\<lambda>_.
       bindR (check_same_width rd rm ''logical shifted-register'') (\<lambda>_.
         if is_sp rd \<or> is_sp rn \<or> is_sp rm
         then Inl (InvalidRegisterForForm ''logical shifted-register (no SP operand)'')
         else Inr (LogicalShiftedReg op rd rn rm shift alias)))"

definition inst_and_shifted :: "Reg \<Rightarrow> Reg \<Rightarrow> Reg \<Rightarrow> RegShift \<Rightarrow> inst_result" where
  "inst_and_shifted rd rn rm shift = logical_shifted LS_And rd rn rm shift LA_None"

definition inst_orr_shifted :: "Reg \<Rightarrow> Reg \<Rightarrow> Reg \<Rightarrow> RegShift \<Rightarrow> inst_result" where
  "inst_orr_shifted rd rn rm shift = logical_shifted LS_Orr rd rn rm shift LA_None"

definition inst_eor_shifted :: "Reg \<Rightarrow> Reg \<Rightarrow> Reg \<Rightarrow> RegShift \<Rightarrow> inst_result" where
  "inst_eor_shifted rd rn rm shift = logical_shifted LS_Eor rd rn rm shift LA_None"

definition inst_ands_shifted :: "Reg \<Rightarrow> Reg \<Rightarrow> Reg \<Rightarrow> RegShift \<Rightarrow> inst_result" where
  "inst_ands_shifted rd rn rm shift = logical_shifted LS_Ands rd rn rm shift LA_None"

definition inst_bic_shifted :: "Reg \<Rightarrow> Reg \<Rightarrow> Reg \<Rightarrow> RegShift \<Rightarrow> inst_result" where
  "inst_bic_shifted rd rn rm shift = logical_shifted LS_Bic rd rn rm shift LA_None"

definition inst_orn_shifted :: "Reg \<Rightarrow> Reg \<Rightarrow> Reg \<Rightarrow> RegShift \<Rightarrow> inst_result" where
  "inst_orn_shifted rd rn rm shift = logical_shifted LS_Orn rd rn rm shift LA_None"

definition inst_eon_shifted :: "Reg \<Rightarrow> Reg \<Rightarrow> Reg \<Rightarrow> RegShift \<Rightarrow> inst_result" where
  "inst_eon_shifted rd rn rm shift = logical_shifted LS_Eon rd rn rm shift LA_None"

definition inst_bics_shifted :: "Reg \<Rightarrow> Reg \<Rightarrow> Reg \<Rightarrow> RegShift \<Rightarrow> inst_result" where
  "inst_bics_shifted rd rn rm shift = logical_shifted LS_Bics rd rn rm shift LA_None"

definition inst_mvn :: "Reg \<Rightarrow> Reg \<Rightarrow> RegShift \<Rightarrow> inst_result" where
  "inst_mvn rd rm shift = logical_shifted LS_Orn rd (zr_like rd) rm shift LA_Mvn"

definition inst_tst_reg :: "Reg \<Rightarrow> Reg \<Rightarrow> RegShift \<Rightarrow> inst_result" where
  "inst_tst_reg rn rm shift = logical_shifted LS_Ands (zr_like rn) rn rm shift LA_Tst"

definition inst_mov_reg :: "Reg \<Rightarrow> Reg \<Rightarrow> inst_result" where
  "inst_mov_reg rd rm = logical_shifted LS_Orr rd (zr_like rd) rm reg_shift_none LA_Mov"

section \<open>Bitfield moves and their aliases\<close>

definition bitfield_raw ::
  "BitfieldOp \<Rightarrow> Reg \<Rightarrow> Reg \<Rightarrow> u8 \<Rightarrow> u8 \<Rightarrow> BitfieldAlias \<Rightarrow> inst_result" where
  "bitfield_raw op rd rn immr imms alias =
     bindR (check_same_width rd rn ''UBFM/SBFM/BFM'') (\<lambda>_.
       let max = (if is64 rd then 63 else 31)
       in if immr > max then Inl (ImmediateOutOfRange ''immr'' (uint immr))
          else if imms > max then Inl (ImmediateOutOfRange ''imms'' (uint imms))
          else if is_sp rd \<or> is_sp rn
          then Inl (InvalidRegisterForForm ''UBFM/SBFM/BFM (no SP operand)'')
          else Inr (Bitfield op rd rn immr imms alias))"

definition inst_ubfm :: "Reg \<Rightarrow> Reg \<Rightarrow> u8 \<Rightarrow> u8 \<Rightarrow> inst_result" where
  "inst_ubfm rd rn immr imms = bitfield_raw Ubfm rd rn immr imms BF_None"

definition inst_sbfm :: "Reg \<Rightarrow> Reg \<Rightarrow> u8 \<Rightarrow> u8 \<Rightarrow> inst_result" where
  "inst_sbfm rd rn immr imms = bitfield_raw Sbfm rd rn immr imms BF_None"

definition inst_bfm :: "Reg \<Rightarrow> Reg \<Rightarrow> u8 \<Rightarrow> u8 \<Rightarrow> inst_result" where
  "inst_bfm rd rn immr imms = bitfield_raw Bfm rd rn immr imms BF_None"

definition inst_lsl_imm :: "Reg \<Rightarrow> Reg \<Rightarrow> u8 \<Rightarrow> inst_result" where
  "inst_lsl_imm rd rn shift =
     (let width = (if is64 rd then 64 else 32 :: u32)
      in if ucast shift \<ge> width
         then Inl (ImmediateOutOfRange ''LSL immediate shift'' (uint shift))
         else let immr = ucast ((width - ucast shift) mod width);
                  imms = ucast (width - 1 - ucast shift)
              in bitfield_raw Ubfm rd rn immr imms BF_Lsl)"

definition inst_lsr_imm :: "Reg \<Rightarrow> Reg \<Rightarrow> u8 \<Rightarrow> inst_result" where
  "inst_lsr_imm rd rn shift =
     (let width = (if is64 rd then 64 else 32 :: u32)
      in if ucast shift \<ge> width
         then Inl (ImmediateOutOfRange ''LSR immediate shift'' (uint shift))
         else bitfield_raw Ubfm rd rn shift (ucast (width - 1)) BF_Lsr)"

definition inst_asr_imm :: "Reg \<Rightarrow> Reg \<Rightarrow> u8 \<Rightarrow> inst_result" where
  "inst_asr_imm rd rn shift =
     (let width = (if is64 rd then 64 else 32 :: u32)
      in if ucast shift \<ge> width
         then Inl (ImmediateOutOfRange ''ASR immediate shift'' (uint shift))
         else bitfield_raw Sbfm rd rn shift (ucast (width - 1)) BF_Asr)"

definition inst_sxtb :: "Reg \<Rightarrow> Reg \<Rightarrow> inst_result" where
  "inst_sxtb rd rn = bitfield_raw Sbfm rd rn 0 7 BF_Sxtb"

definition inst_sxth :: "Reg \<Rightarrow> Reg \<Rightarrow> inst_result" where
  "inst_sxth rd rn = bitfield_raw Sbfm rd rn 0 15 BF_Sxth"

definition inst_sxtw :: "Reg \<Rightarrow> Reg \<Rightarrow> inst_result" where
  "inst_sxtw rd rn =
     (if \<not> is64 rd \<or> is64 rn then Inl (RegisterWidthMismatch ''SXTW (Xd, Wn)'')
      else let rn64 = with64 rn True
           in bitfield_raw Sbfm rd rn64 0 31 BF_Sxtw)"

definition inst_uxtb :: "Reg \<Rightarrow> Reg \<Rightarrow> inst_result" where
  "inst_uxtb rd rn =
     (if is64 rd \<or> is64 rn then Inl (RegisterWidthMismatch ''UXTB is a 32-bit-only alias'')
      else bitfield_raw Ubfm rd rn 0 7 BF_Uxtb)"

definition inst_uxth :: "Reg \<Rightarrow> Reg \<Rightarrow> inst_result" where
  "inst_uxth rd rn =
     (if is64 rd \<or> is64 rn then Inl (RegisterWidthMismatch ''UXTH is a 32-bit-only alias'')
      else bitfield_raw Ubfm rd rn 0 15 BF_Uxth)"

section \<open>Data processing\<close>

definition data_proc_2 :: "DataProc2Op \<Rightarrow> Reg \<Rightarrow> Reg \<Rightarrow> Reg \<Rightarrow> inst_result" where
  "data_proc_2 op rd rn rm =
     bindR (check_same_width rd rn ''data-processing (2 source)'') (\<lambda>_.
       bindR (check_same_width rd rm ''data-processing (2 source)'') (\<lambda>_.
         if is_sp rd \<or> is_sp rn \<or> is_sp rm
         then Inl (InvalidRegisterForForm ''data-processing (2 source), no SP operand'')
         else Inr (DataProc2Source op rd rn rm)))"

definition inst_udiv :: "Reg \<Rightarrow> Reg \<Rightarrow> Reg \<Rightarrow> inst_result" where
  "inst_udiv rd rn rm = data_proc_2 Udiv rd rn rm"

definition inst_sdiv :: "Reg \<Rightarrow> Reg \<Rightarrow> Reg \<Rightarrow> inst_result" where
  "inst_sdiv rd rn rm = data_proc_2 Sdiv rd rn rm"

definition inst_lslv :: "Reg \<Rightarrow> Reg \<Rightarrow> Reg \<Rightarrow> inst_result" where
  "inst_lslv rd rn rm = data_proc_2 Lslv rd rn rm"

definition inst_lsrv :: "Reg \<Rightarrow> Reg \<Rightarrow> Reg \<Rightarrow> inst_result" where
  "inst_lsrv rd rn rm = data_proc_2 Lsrv rd rn rm"

definition inst_asrv :: "Reg \<Rightarrow> Reg \<Rightarrow> Reg \<Rightarrow> inst_result" where
  "inst_asrv rd rn rm = data_proc_2 Asrv rd rn rm"

definition inst_rorv :: "Reg \<Rightarrow> Reg \<Rightarrow> Reg \<Rightarrow> inst_result" where
  "inst_rorv rd rn rm = data_proc_2 Rorv rd rn rm"

definition inst_madd :: "Reg \<Rightarrow> Reg \<Rightarrow> Reg \<Rightarrow> Reg \<Rightarrow> inst_result" where
  "inst_madd rd rn rm ra =
     bindR (check_same_width rd rn ''MADD'') (\<lambda>_.
       bindR (check_same_width rd rm ''MADD'') (\<lambda>_.
         bindR (check_same_width rd ra ''MADD'') (\<lambda>_.
           if list_ex is_sp [rd, rn, rm, ra]
           then Inl (InvalidRegisterForForm ''MADD (no SP operand)'')
           else Inr (DataProc3Source Madd rd rn rm ra False))))"

definition inst_msub :: "Reg \<Rightarrow> Reg \<Rightarrow> Reg \<Rightarrow> Reg \<Rightarrow> inst_result" where
  "inst_msub rd rn rm ra =
     bindR (check_same_width rd rn ''MSUB'') (\<lambda>_.
       bindR (check_same_width rd rm ''MSUB'') (\<lambda>_.
         bindR (check_same_width rd ra ''MSUB'') (\<lambda>_.
           if list_ex is_sp [rd, rn, rm, ra]
           then Inl (InvalidRegisterForForm ''MSUB (no SP operand)'')
           else Inr (DataProc3Source Msub rd rn rm ra False))))"

definition inst_mul :: "Reg \<Rightarrow> Reg \<Rightarrow> Reg \<Rightarrow> inst_result" where
  "inst_mul rd rn rm =
     (let ra = zr_like rd
      in bindR (check_same_width rd rn ''MUL'') (\<lambda>_.
           bindR (check_same_width rd rm ''MUL'') (\<lambda>_.
             Inr (DataProc3Source Madd rd rn rm ra True))))"

definition mulh :: "DataProc3Op \<Rightarrow> Reg \<Rightarrow> Reg \<Rightarrow> Reg \<Rightarrow> inst_result" where
  "mulh op rd rn rm =
     (if \<not> is64 rd \<or> \<not> is64 rn \<or> \<not> is64 rm
      then Inl (RegisterWidthMismatch ''SMULH/UMULH is 64-bit only'')
      else let ra = reg_xzr in Inr (DataProc3Source op rd rn rm ra False))"

definition inst_smulh :: "Reg \<Rightarrow> Reg \<Rightarrow> Reg \<Rightarrow> inst_result" where
  "inst_smulh rd rn rm = mulh Smulh rd rn rm"

definition inst_umulh :: "Reg \<Rightarrow> Reg \<Rightarrow> Reg \<Rightarrow> inst_result" where
  "inst_umulh rd rn rm = mulh Umulh rd rn rm"

definition data_proc_1 :: "DataProc1Op \<Rightarrow> Reg \<Rightarrow> Reg \<Rightarrow> inst_result" where
  "data_proc_1 op rd rn =
     bindR (check_same_width rd rn ''CLZ/RBIT/REV'') (\<lambda>_.
       if is_sp rd \<or> is_sp rn
       then Inl (InvalidRegisterForForm ''CLZ/RBIT/REV (no SP operand)'')
       else Inr (DataProc1Source op rd rn))"

definition inst_clz :: "Reg \<Rightarrow> Reg \<Rightarrow> inst_result" where
  "inst_clz rd rn = data_proc_1 Clz rd rn"

definition inst_rbit :: "Reg \<Rightarrow> Reg \<Rightarrow> inst_result" where
  "inst_rbit rd rn = data_proc_1 Rbit rd rn"

definition inst_rev :: "Reg \<Rightarrow> Reg \<Rightarrow> inst_result" where
  "inst_rev rd rn = data_proc_1 Rev rd rn"

section \<open>Conditional select\<close>

definition cond_select ::
  "CondSelectOp \<Rightarrow> Reg \<Rightarrow> Reg \<Rightarrow> Reg \<Rightarrow> Cond \<Rightarrow> CondSelectAlias \<Rightarrow> inst_result" where
  "cond_select op rd rn rm cond alias =
     bindR (check_same_width rd rn ''CSEL/CSINC/CSINV/CSNEG'') (\<lambda>_.
       bindR (check_same_width rd rm ''CSEL/CSINC/CSINV/CSNEG'') (\<lambda>_.
         if is_sp rd \<or> is_sp rn \<or> is_sp rm
         then Inl (InvalidRegisterForForm ''CSEL/CSINC/CSINV/CSNEG (no SP operand)'')
         else Inr (CondSelect op rd rn rm cond alias)))"

definition require_conditional :: "Cond \<Rightarrow> string \<Rightarrow> (EncodeError, unit) result" where
  "require_conditional cond what =
     (if cond = cond_AL \<or> cond = cond_NV then Inl (InvalidShiftForForm what) else Inr ())"

definition inst_csel :: "Reg \<Rightarrow> Reg \<Rightarrow> Reg \<Rightarrow> Cond \<Rightarrow> inst_result" where
  "inst_csel rd rn rm cond = cond_select Csel rd rn rm cond CS_None"

definition inst_csinc :: "Reg \<Rightarrow> Reg \<Rightarrow> Reg \<Rightarrow> Cond \<Rightarrow> inst_result" where
  "inst_csinc rd rn rm cond = cond_select Csinc rd rn rm cond CS_None"

definition inst_csinv :: "Reg \<Rightarrow> Reg \<Rightarrow> Reg \<Rightarrow> Cond \<Rightarrow> inst_result" where
  "inst_csinv rd rn rm cond = cond_select Csinv rd rn rm cond CS_None"

definition inst_csneg :: "Reg \<Rightarrow> Reg \<Rightarrow> Reg \<Rightarrow> Cond \<Rightarrow> inst_result" where
  "inst_csneg rd rn rm cond = cond_select Csneg rd rn rm cond CS_None"

definition inst_cset :: "Reg \<Rightarrow> Cond \<Rightarrow> inst_result" where
  "inst_cset rd cond =
     bindR (require_conditional cond ''CSET'') (\<lambda>_.
       let z = zr_like rd in cond_select Csinc rd z z (inverted cond) CS_Cset)"

definition inst_csetm :: "Reg \<Rightarrow> Cond \<Rightarrow> inst_result" where
  "inst_csetm rd cond =
     bindR (require_conditional cond ''CSETM'') (\<lambda>_.
       let z = zr_like rd in cond_select Csinv rd z z (inverted cond) CS_Csetm)"

definition inst_cinc :: "Reg \<Rightarrow> Reg \<Rightarrow> Cond \<Rightarrow> inst_result" where
  "inst_cinc rd rn cond =
     bindR (require_conditional cond ''CINC'') (\<lambda>_.
       cond_select Csinc rd rn rn (inverted cond) CS_Cinc)"

definition inst_cinv :: "Reg \<Rightarrow> Reg \<Rightarrow> Cond \<Rightarrow> inst_result" where
  "inst_cinv rd rn cond =
     bindR (require_conditional cond ''CINV'') (\<lambda>_.
       cond_select Csinv rd rn rn (inverted cond) CS_Cinv)"

definition inst_cneg :: "Reg \<Rightarrow> Reg \<Rightarrow> Cond \<Rightarrow> inst_result" where
  "inst_cneg rd rn cond =
     bindR (require_conditional cond ''CNEG'') (\<lambda>_.
       cond_select Csneg rd rn rn (inverted cond) CS_Cneg)"

section \<open>PC-relative addresses and branches\<close>

definition inst_adr :: "Reg \<Rightarrow> AdrOffset \<Rightarrow> inst_result" where
  "inst_adr rd offset =
     (if \<not> is64 rd then Inl (RegisterWidthMismatch ''ADR destination is always 64-bit'')
      else Inr (Adr rd offset))"

definition inst_adrp :: "Reg \<Rightarrow> AdrpOffset \<Rightarrow> inst_result" where
  "inst_adrp rd offset =
     (if \<not> is64 rd then Inl (RegisterWidthMismatch ''ADRP destination is always 64-bit'')
      else Inr (Adrp rd offset))"

definition inst_b :: "BranchOffset \<Rightarrow> Inst" where
  "inst_b offset = Branch False offset"

definition inst_bl :: "BranchOffset \<Rightarrow> Inst" where
  "inst_bl offset = Branch True offset"

definition inst_b_cond :: "Cond \<Rightarrow> BranchOffset \<Rightarrow> Inst" where
  "inst_b_cond cond offset = BranchCond cond offset"

definition inst_cbz :: "Reg \<Rightarrow> BranchOffset \<Rightarrow> Inst" where
  "inst_cbz rt offset = CompareBranch (is64 rt) False rt offset"

definition inst_cbnz :: "Reg \<Rightarrow> BranchOffset \<Rightarrow> Inst" where
  "inst_cbnz rt offset = CompareBranch (is64 rt) True rt offset"

definition test_branch :: "bool \<Rightarrow> Reg \<Rightarrow> u8 \<Rightarrow> BranchOffset \<Rightarrow> inst_result" where
  "test_branch is_nonzero rt bt offset =
     (let max_bit = (if is64 rt then 63 else 31)
      in if bt > max_bit then Inl (ImmediateOutOfRange ''TBZ/TBNZ bit index'' (uint bt))
         else Inr (TestBranch is_nonzero rt bt offset))"

definition inst_tbz :: "Reg \<Rightarrow> u8 \<Rightarrow> BranchOffset \<Rightarrow> inst_result" where
  "inst_tbz rt bt offset = test_branch False rt bt offset"

definition inst_tbnz :: "Reg \<Rightarrow> u8 \<Rightarrow> BranchOffset \<Rightarrow> inst_result" where
  "inst_tbnz rt bt offset = test_branch True rt bt offset"

definition inst_br :: "Reg \<Rightarrow> inst_result" where
  "inst_br rn =
     (if \<not> is64 rn then Inl (RegisterWidthMismatch ''BR target is always 64-bit'')
      else Inr (BranchReg rn))"

definition inst_blr :: "Reg \<Rightarrow> inst_result" where
  "inst_blr rn =
     (if \<not> is64 rn then Inl (RegisterWidthMismatch ''BLR target is always 64-bit'')
      else Inr (BranchLinkReg rn))"

definition inst_ret :: "Reg \<Rightarrow> inst_result" where
  "inst_ret rn =
     (if \<not> is64 rn then Inl (RegisterWidthMismatch ''RET target is always 64-bit'')
      else Inr (Ret rn))"

section \<open>Loads and stores\<close>

fun addr_writeback :: "AddrMode \<Rightarrow> bool" where
  "addr_writeback (PreIndex _) = True"
| "addr_writeback (PostIndex _) = True"
| "addr_writeback _ = False"

definition load_store :: "LdStOp \<Rightarrow> Reg \<Rightarrow> Reg \<Rightarrow> AddrMode \<Rightarrow> inst_result" where
  "load_store op rt rn mode =
     (if is64 rt \<noteq> rt_is64 op
      then Inl (RegisterWidthMismatch ''load/store Rt width vs mnemonic'')
      else if \<not> is_sp rn \<and> is_zr rn
      then Inl (InvalidRegisterForForm
        ''load/store base register (XZR is not a real base; use an explicit address)'')
      else if \<not> is64 rn
      then Inl (RegisterWidthMismatch ''load/store base register is always 64-bit'')
      else if addr_writeback mode \<and> reg_encoding rt = reg_encoding rn
      then Inl (InvalidRegisterForForm ''load/store writeback: Rt and Rn name the same register'')
      else Inr (LoadStoreImm op rt rn mode))"

definition inst_ldr :: "Reg \<Rightarrow> Reg \<Rightarrow> AddrMode \<Rightarrow> inst_result" where
  "inst_ldr rt rn mode = load_store (if is64 rt then LdrX else LdrW) rt rn mode"

definition inst_str :: "Reg \<Rightarrow> Reg \<Rightarrow> AddrMode \<Rightarrow> inst_result" where
  "inst_str rt rn mode = load_store (if is64 rt then StrX else StrW) rt rn mode"

definition inst_ldrb :: "Reg \<Rightarrow> Reg \<Rightarrow> AddrMode \<Rightarrow> inst_result" where
  "inst_ldrb rt rn mode = load_store LdrB rt rn mode"

definition inst_strb :: "Reg \<Rightarrow> Reg \<Rightarrow> AddrMode \<Rightarrow> inst_result" where
  "inst_strb rt rn mode = load_store StrB rt rn mode"

definition inst_ldrh :: "Reg \<Rightarrow> Reg \<Rightarrow> AddrMode \<Rightarrow> inst_result" where
  "inst_ldrh rt rn mode = load_store LdrH rt rn mode"

definition inst_strh :: "Reg \<Rightarrow> Reg \<Rightarrow> AddrMode \<Rightarrow> inst_result" where
  "inst_strh rt rn mode = load_store StrH rt rn mode"

definition inst_ldrsb :: "Reg \<Rightarrow> Reg \<Rightarrow> AddrMode \<Rightarrow> inst_result" where
  "inst_ldrsb rt rn mode = load_store (LdrSb (is64 rt)) rt rn mode"

definition inst_ldrsh :: "Reg \<Rightarrow> Reg \<Rightarrow> AddrMode \<Rightarrow> inst_result" where
  "inst_ldrsh rt rn mode = load_store (LdrSh (is64 rt)) rt rn mode"

definition inst_ldrsw :: "Reg \<Rightarrow> Reg \<Rightarrow> AddrMode \<Rightarrow> inst_result" where
  "inst_ldrsw rt rn mode = load_store LdrSw rt rn mode"

definition load_store_pair ::
  "bool \<Rightarrow> Reg \<Rightarrow> Reg \<Rightarrow> Reg \<Rightarrow> SImm7Scaled \<Rightarrow> PairIndex \<Rightarrow> inst_result" where
  "load_store_pair is_load rt1 rt2 rn imm index =
     bindR (check_same_width rt1 rt2 ''LDP/STP'') (\<lambda>_.
       if \<not> is64 rn
       then Inl (RegisterWidthMismatch ''LDP/STP base register is always 64-bit'')
       else let has_writeback = (index = PI_PreIndex \<or> index = PI_PostIndex)
            in if has_writeback \<and> (reg_encoding rt1 = reg_encoding rn \<or> reg_encoding rt2 = reg_encoding rn)
               then Inl (InvalidRegisterForForm
                 ''LDP/STP writeback: Rt1/Rt2 and Rn name the same register'')
               else if is_load \<and> reg_encoding rt1 = reg_encoding rt2
               then Inl (InvalidRegisterForForm ''LDP Rt1 and Rt2 name the same register'')
               else Inr (LoadStorePair is_load (is64 rt1) rt1 rt2 rn imm index))"

definition inst_ldp :: "Reg \<Rightarrow> Reg \<Rightarrow> Reg \<Rightarrow> SImm7Scaled \<Rightarrow> PairIndex \<Rightarrow> inst_result" where
  "inst_ldp rt1 rt2 rn imm index = load_store_pair True rt1 rt2 rn imm index"

definition inst_stp :: "Reg \<Rightarrow> Reg \<Rightarrow> Reg \<Rightarrow> SImm7Scaled \<Rightarrow> PairIndex \<Rightarrow> inst_result" where
  "inst_stp rt1 rt2 rn imm index = load_store_pair False rt1 rt2 rn imm index"

section \<open>System\<close>

definition inst_nop :: Inst where "inst_nop = SystemInst Nop"

definition inst_brk :: "u16 \<Rightarrow> Inst" where "inst_brk imm16 = SystemInst (Brk imm16)"

definition inst_svc :: "u16 \<Rightarrow> Inst" where "inst_svc imm16 = SystemInst (Svc imm16)"

definition inst_udf :: "u16 \<Rightarrow> Inst" where "inst_udf imm16 = SystemInst (Udf imm16)"

section \<open>Scalar floating point\<close>

definition check_same_fp_width :: "FpReg \<Rightarrow> FpReg \<Rightarrow> string \<Rightarrow> (EncodeError, unit) result" where
  "check_same_fp_width a b what =
     (if is_double a \<noteq> is_double b then Inl (RegisterWidthMismatch what) else Inr ())"

definition inst_fmov_reg :: "FpReg \<Rightarrow> FpReg \<Rightarrow> inst_result" where
  "inst_fmov_reg rd rn =
     bindR (check_same_fp_width rd rn ''FMOV (register)'') (\<lambda>_. Inr (FpDataProc1 Fmov rd rn))"

definition inst_fabs :: "FpReg \<Rightarrow> FpReg \<Rightarrow> inst_result" where
  "inst_fabs rd rn =
     bindR (check_same_fp_width rd rn ''FABS'') (\<lambda>_. Inr (FpDataProc1 Fabs rd rn))"

definition inst_fneg :: "FpReg \<Rightarrow> FpReg \<Rightarrow> inst_result" where
  "inst_fneg rd rn =
     bindR (check_same_fp_width rd rn ''FNEG'') (\<lambda>_. Inr (FpDataProc1 Fneg rd rn))"

definition inst_fsqrt :: "FpReg \<Rightarrow> FpReg \<Rightarrow> inst_result" where
  "inst_fsqrt rd rn =
     bindR (check_same_fp_width rd rn ''FSQRT'') (\<lambda>_. Inr (FpDataProc1 Fsqrt rd rn))"

definition inst_fcvt :: "FpReg \<Rightarrow> FpReg \<Rightarrow> inst_result" where
  "inst_fcvt rd rn =
     (if is_double rd = is_double rn
      then Inl (RegisterWidthMismatch
        ''FCVT requires differing S/D widths (use FMOV for same-width)'')
      else Inr (FpConvert rd rn))"

definition fp_binop :: "FpBinOp \<Rightarrow> FpReg \<Rightarrow> FpReg \<Rightarrow> FpReg \<Rightarrow> inst_result" where
  "fp_binop op rd rn rm =
     bindR (check_same_fp_width rd rn ''FADD/FSUB/FMUL/FDIV'') (\<lambda>_.
       bindR (check_same_fp_width rd rm ''FADD/FSUB/FMUL/FDIV'') (\<lambda>_.
         Inr (FpDataProc2 op rd rn rm)))"

definition inst_fadd :: "FpReg \<Rightarrow> FpReg \<Rightarrow> FpReg \<Rightarrow> inst_result" where
  "inst_fadd rd rn rm = fp_binop Fadd rd rn rm"

definition inst_fsub :: "FpReg \<Rightarrow> FpReg \<Rightarrow> FpReg \<Rightarrow> inst_result" where
  "inst_fsub rd rn rm = fp_binop Fsub rd rn rm"

definition inst_fmul :: "FpReg \<Rightarrow> FpReg \<Rightarrow> FpReg \<Rightarrow> inst_result" where
  "inst_fmul rd rn rm = fp_binop Fmul rd rn rm"

definition inst_fdiv :: "FpReg \<Rightarrow> FpReg \<Rightarrow> FpReg \<Rightarrow> inst_result" where
  "inst_fdiv rd rn rm = fp_binop Fdiv rd rn rm"

definition inst_fmadd :: "FpReg \<Rightarrow> FpReg \<Rightarrow> FpReg \<Rightarrow> FpReg \<Rightarrow> inst_result" where
  "inst_fmadd rd rn rm ra =
     bindR (check_same_fp_width rd rn ''FMADD'') (\<lambda>_.
       bindR (check_same_fp_width rd rm ''FMADD'') (\<lambda>_.
         bindR (check_same_fp_width rd ra ''FMADD'') (\<lambda>_. Inr (FpMadd rd rn rm ra))))"

definition inst_fcmp :: "FpReg \<Rightarrow> FpReg \<Rightarrow> inst_result" where
  "inst_fcmp rn rm = bindR (check_same_fp_width rn rm ''FCMP'') (\<lambda>_. Inr (FpCompare rn rm))"

definition inst_fcsel :: "FpReg \<Rightarrow> FpReg \<Rightarrow> FpReg \<Rightarrow> Cond \<Rightarrow> inst_result" where
  "inst_fcsel rd rn rm cond =
     bindR (check_same_fp_width rd rn ''FCSEL'') (\<lambda>_.
       bindR (check_same_fp_width rd rm ''FCSEL'') (\<lambda>_. Inr (FpCondSelect rd rn rm cond)))"

definition inst_fmov_imm :: "FpReg \<Rightarrow> FpImm8 \<Rightarrow> inst_result" where
  "inst_fmov_imm rd imm =
     (if is_double rd \<noteq> fi_is64 imm
      then Inl (RegisterWidthMismatch ''FMOV immediate width vs destination register'')
      else Inr (FpImmMove rd imm))"

definition inst_fmov_to_gp :: "Reg \<Rightarrow> FpReg \<Rightarrow> inst_result" where
  "inst_fmov_to_gp rd rn =
     (if is64 rd \<noteq> is_double rn
      then Inl (RegisterWidthMismatch ''FMOV Xd/Wd, Dn/Sn width mismatch'')
      else Inr (FpToGp rd rn))"

definition inst_fmov_from_gp :: "FpReg \<Rightarrow> Reg \<Rightarrow> inst_result" where
  "inst_fmov_from_gp rd rn =
     (if is_double rd \<noteq> is64 rn
      then Inl (RegisterWidthMismatch ''FMOV Dd/Sd, Xn/Wn width mismatch'')
      else Inr (GpToFp rd rn))"

definition inst_scvtf :: "FpReg \<Rightarrow> Reg \<Rightarrow> inst_result" where
  "inst_scvtf rd rn = Inr (FpIntConvert Scvtf rn rd)"

definition inst_ucvtf :: "FpReg \<Rightarrow> Reg \<Rightarrow> inst_result" where
  "inst_ucvtf rd rn = Inr (FpIntConvert Ucvtf rn rd)"

definition inst_fcvtzs :: "Reg \<Rightarrow> FpReg \<Rightarrow> inst_result" where
  "inst_fcvtzs rd rn = Inr (FpIntConvert Fcvtzs rd rn)"

definition inst_fcvtzu :: "Reg \<Rightarrow> FpReg \<Rightarrow> inst_result" where
  "inst_fcvtzu rd rn = Inr (FpIntConvert Fcvtzu rd rn)"

definition inst_ldr_fp :: "FpReg \<Rightarrow> Reg \<Rightarrow> AddrMode \<Rightarrow> inst_result" where
  "inst_ldr_fp rt rn mode =
     (if \<not> is64 rn then Inl (RegisterWidthMismatch ''load/store base register is always 64-bit'')
      else Inr (FpLoadStoreImm True rt rn mode))"

definition inst_str_fp :: "FpReg \<Rightarrow> Reg \<Rightarrow> AddrMode \<Rightarrow> inst_result" where
  "inst_str_fp rt rn mode =
     (if \<not> is64 rn then Inl (RegisterWidthMismatch ''load/store base register is always 64-bit'')
      else Inr (FpLoadStoreImm False rt rn mode))"

end
