(* ===== verification/Asm_Encode.thy ===== *)
theory Asm_Encode
  imports Asm_Inst
begin

text \<open>
  \<^verbatim>\<open>encode\<close> of \<^verbatim>\<open>fors-asm/src/encode.rs\<close>: bit packing of a validated instruction into its
  32-bit word. Each arm of the Rust \<^verbatim>\<open>match\<close> is one definition, in the order of the
  source, with the opcode tables as functions; \<open>encode\<close> dispatches to them. The Rust function
  returns \<^verbatim>\<open>Ok\<close> on every arm.
\<close>

definition sf :: "Reg \<Rightarrow> u32" where
  "sf r = of_bool (is64 r)"

section \<open>Data processing, immediate and register\<close>

fun mov_wide_opc :: "MovWideOp \<Rightarrow> u32" where
  "mov_wide_opc Movn = 0b00"
| "mov_wide_opc Movz = 0b10"
| "mov_wide_opc Movk = 0b11"

definition enc_mov_wide :: "MovWideOp \<Rightarrow> Reg \<Rightarrow> u16 \<Rightarrow> u8 \<Rightarrow> u32" where
  "enc_mov_wide op rd imm16 shift =
     (let opc = mov_wide_opc op;
          hw = ucast (shift div 16)
      in push_bit 31 (sf rd) OR push_bit 29 opc OR push_bit 23 0b100101 OR push_bit 21 hw
         OR push_bit 5 (ucast imm16) OR reg_encoding rd)"

definition add_sub_opbit :: "AddSubOp \<Rightarrow> u32" where
  "add_sub_opbit op = of_bool (op = Sub)"

definition enc_add_sub_imm :: "AddSubOp \<Rightarrow> bool \<Rightarrow> Reg \<Rightarrow> Reg \<Rightarrow> Uimm12Lsl \<Rightarrow> u32" where
  "enc_add_sub_imm op set_flags rd rn imm =
     push_bit 31 (sf rd) OR push_bit 30 (add_sub_opbit op) OR push_bit 29 (of_bool set_flags)
     OR push_bit 23 0b100010 OR push_bit 22 (of_bool (shift12 imm)) OR push_bit 10 (uimm12_raw imm)
     OR push_bit 5 (reg_encoding rn) OR reg_encoding rd"

definition enc_add_sub_shifted_reg ::
  "AddSubOp \<Rightarrow> bool \<Rightarrow> Reg \<Rightarrow> Reg \<Rightarrow> Reg \<Rightarrow> RegShift \<Rightarrow> u32" where
  "enc_add_sub_shifted_reg op set_flags rd rn rm shift =
     push_bit 31 (sf rd) OR push_bit 30 (add_sub_opbit op) OR push_bit 29 (of_bool set_flags)
     OR push_bit 24 0b01011 OR push_bit 22 (shift_encoding (sh_kind shift))
     OR push_bit 16 (reg_encoding rm) OR push_bit 10 (shift_amount shift)
     OR push_bit 5 (reg_encoding rn) OR reg_encoding rd"

definition enc_add_sub_extended_reg ::
  "AddSubOp \<Rightarrow> bool \<Rightarrow> Reg \<Rightarrow> Reg \<Rightarrow> Reg \<Rightarrow> RegExtend \<Rightarrow> u32" where
  "enc_add_sub_extended_reg op set_flags rd rn rm ext =
     push_bit 31 (sf rd) OR push_bit 30 (add_sub_opbit op) OR push_bit 29 (of_bool set_flags)
     OR push_bit 24 0b01011 OR push_bit 21 1
     OR push_bit 16 (reg_encoding rm) OR push_bit 13 (extend_encoding (ex_kind ext))
     OR push_bit 10 (extend_amount ext) OR push_bit 5 (reg_encoding rn) OR reg_encoding rd"

fun logical_imm_opc :: "LogicalImmOp \<Rightarrow> u32" where
  "logical_imm_opc LI_And = 0b00"
| "logical_imm_opc LI_Orr = 0b01"
| "logical_imm_opc LI_Eor = 0b10"
| "logical_imm_opc LI_Ands = 0b11"

definition enc_logical_imm :: "LogicalImmOp \<Rightarrow> Reg \<Rightarrow> Reg \<Rightarrow> LogicalImm \<Rightarrow> u32" where
  "enc_logical_imm op rd rn imm =
     push_bit 31 (sf rd) OR push_bit 29 (logical_imm_opc op) OR push_bit 23 0b100100
     OR push_bit 22 (logical_imm_n imm) OR push_bit 16 (logical_imm_immr imm)
     OR push_bit 10 (logical_imm_imms imm) OR push_bit 5 (reg_encoding rn) OR reg_encoding rd"

fun logical_shift_opc :: "LogicalShiftOp \<Rightarrow> u32 \<times> u32" where
  "logical_shift_opc LS_And = (0b00, 0)"
| "logical_shift_opc LS_Bic = (0b00, 1)"
| "logical_shift_opc LS_Orr = (0b01, 0)"
| "logical_shift_opc LS_Orn = (0b01, 1)"
| "logical_shift_opc LS_Eor = (0b10, 0)"
| "logical_shift_opc LS_Eon = (0b10, 1)"
| "logical_shift_opc LS_Ands = (0b11, 0)"
| "logical_shift_opc LS_Bics = (0b11, 1)"

definition enc_logical_shifted_reg ::
  "LogicalShiftOp \<Rightarrow> Reg \<Rightarrow> Reg \<Rightarrow> Reg \<Rightarrow> RegShift \<Rightarrow> u32" where
  "enc_logical_shifted_reg op rd rn rm shift =
     (case logical_shift_opc op of (opc, n) \<Rightarrow>
        push_bit 31 (sf rd) OR push_bit 29 opc OR push_bit 24 0b01010
        OR push_bit 22 (shift_encoding (sh_kind shift)) OR push_bit 21 n
        OR push_bit 16 (reg_encoding rm) OR push_bit 10 (shift_amount shift)
        OR push_bit 5 (reg_encoding rn) OR reg_encoding rd)"

fun bitfield_opc :: "BitfieldOp \<Rightarrow> u32" where
  "bitfield_opc Sbfm = 0b00"
| "bitfield_opc Bfm = 0b01"
| "bitfield_opc Ubfm = 0b10"

definition enc_bitfield :: "BitfieldOp \<Rightarrow> Reg \<Rightarrow> Reg \<Rightarrow> u8 \<Rightarrow> u8 \<Rightarrow> u32" where
  "enc_bitfield op rd rn immr imms =
     (let n = sf rd
      in push_bit 31 (sf rd) OR push_bit 29 (bitfield_opc op) OR push_bit 23 0b100110
         OR push_bit 22 n OR push_bit 16 (ucast immr) OR push_bit 10 (ucast imms)
         OR push_bit 5 (reg_encoding rn) OR reg_encoding rd)"

fun data_proc_2_opcode :: "DataProc2Op \<Rightarrow> u32" where
  "data_proc_2_opcode Udiv = 0b000010"
| "data_proc_2_opcode Sdiv = 0b000011"
| "data_proc_2_opcode Lslv = 0b001000"
| "data_proc_2_opcode Lsrv = 0b001001"
| "data_proc_2_opcode Asrv = 0b001010"
| "data_proc_2_opcode Rorv = 0b001011"

definition enc_data_proc_2 :: "DataProc2Op \<Rightarrow> Reg \<Rightarrow> Reg \<Rightarrow> Reg \<Rightarrow> u32" where
  "enc_data_proc_2 op rd rn rm =
     push_bit 31 (sf rd) OR push_bit 21 0b11010110 OR push_bit 16 (reg_encoding rm)
     OR push_bit 10 (data_proc_2_opcode op) OR push_bit 5 (reg_encoding rn) OR reg_encoding rd"

fun data_proc_3_opcode :: "DataProc3Op \<Rightarrow> u32 \<times> u32" where
  "data_proc_3_opcode Madd = (0b000, 0)"
| "data_proc_3_opcode Msub = (0b000, 1)"
| "data_proc_3_opcode Smulh = (0b010, 0)"
| "data_proc_3_opcode Umulh = (0b110, 0)"

definition enc_data_proc_3 :: "DataProc3Op \<Rightarrow> Reg \<Rightarrow> Reg \<Rightarrow> Reg \<Rightarrow> Reg \<Rightarrow> u32" where
  "enc_data_proc_3 op rd rn rm ra =
     (case data_proc_3_opcode op of (op31, o0) \<Rightarrow>
        push_bit 31 (sf rd) OR push_bit 24 0b11011 OR push_bit 21 op31
        OR push_bit 16 (reg_encoding rm) OR push_bit 15 o0 OR push_bit 10 (reg_encoding ra)
        OR push_bit 5 (reg_encoding rn) OR reg_encoding rd)"

fun data_proc_1_opcode :: "DataProc1Op \<Rightarrow> bool \<Rightarrow> u32" where
  "data_proc_1_opcode Rbit b = 0b000000"
| "data_proc_1_opcode Clz b = 0b000100"
| "data_proc_1_opcode Rev b = (if b then 0b000011 else 0b000010)"

definition enc_data_proc_1 :: "DataProc1Op \<Rightarrow> Reg \<Rightarrow> Reg \<Rightarrow> u32" where
  "enc_data_proc_1 op rd rn =
     push_bit 31 (sf rd) OR push_bit 30 1 OR push_bit 21 0b11010110
     OR push_bit 10 (data_proc_1_opcode op (is64 rd)) OR push_bit 5 (reg_encoding rn)
     OR reg_encoding rd"

fun cond_select_opcode :: "CondSelectOp \<Rightarrow> u32 \<times> u32" where
  "cond_select_opcode Csel = (0, 0b00)"
| "cond_select_opcode Csinc = (0, 0b01)"
| "cond_select_opcode Csinv = (1, 0b00)"
| "cond_select_opcode Csneg = (1, 0b01)"

definition enc_cond_select :: "CondSelectOp \<Rightarrow> Reg \<Rightarrow> Reg \<Rightarrow> Reg \<Rightarrow> Cond \<Rightarrow> u32" where
  "enc_cond_select op rd rn rm cond =
     (case cond_select_opcode op of (opbit, op2) \<Rightarrow>
        push_bit 31 (sf rd) OR push_bit 30 opbit OR push_bit 21 0b11010100
        OR push_bit 16 (reg_encoding rm) OR push_bit 12 (cond_code cond) OR push_bit 10 op2
        OR push_bit 5 (reg_encoding rn) OR reg_encoding rd)"

section \<open>PC-relative addresses and branches\<close>

definition enc_adr :: "Reg \<Rightarrow> AdrOffset \<Rightarrow> u32" where
  "enc_adr rd offset =
     (case adr_encoding offset of (immlo, immhi) \<Rightarrow>
        push_bit 29 immlo OR push_bit 24 0b10000 OR push_bit 5 immhi OR reg_encoding rd)"

definition enc_adrp :: "Reg \<Rightarrow> AdrpOffset \<Rightarrow> u32" where
  "enc_adrp rd offset =
     (case adrp_encoding offset of (immlo, immhi) \<Rightarrow>
        push_bit 31 1 OR push_bit 29 immlo OR push_bit 24 0b10000 OR push_bit 5 immhi
        OR reg_encoding rd)"

definition enc_branch :: "bool \<Rightarrow> BranchOffset \<Rightarrow> u32" where
  "enc_branch link offset =
     push_bit 31 (of_bool link) OR push_bit 26 0b00101 OR branch_offset_encoding offset"

definition enc_branch_cond :: "Cond \<Rightarrow> BranchOffset \<Rightarrow> u32" where
  "enc_branch_cond cond offset =
     push_bit 25 0b0101010 OR push_bit 5 (branch_offset_encoding offset) OR cond_code cond"

definition enc_compare_branch :: "bool \<Rightarrow> bool \<Rightarrow> Reg \<Rightarrow> BranchOffset \<Rightarrow> u32" where
  "enc_compare_branch b is_nonzero rt offset =
     push_bit 31 (of_bool b) OR push_bit 25 0b011010 OR push_bit 24 (of_bool is_nonzero)
     OR push_bit 5 (branch_offset_encoding offset) OR reg_encoding rt"

definition enc_test_branch :: "bool \<Rightarrow> Reg \<Rightarrow> u8 \<Rightarrow> BranchOffset \<Rightarrow> u32" where
  "enc_test_branch is_nonzero rt bt offset =
     (let b5 = ucast (drop_bit 5 bt) AND 1;
          b40 = ucast bt AND 0x1F
      in push_bit 31 b5 OR push_bit 25 0b011011 OR push_bit 24 (of_bool is_nonzero)
         OR push_bit 19 b40 OR push_bit 5 (branch_offset_encoding offset) OR reg_encoding rt)"

definition enc_branch_reg :: "Reg \<Rightarrow> u32" where
  "enc_branch_reg rn = 0xD61F0000 OR push_bit 5 (reg_encoding rn)"

definition enc_branch_link_reg :: "Reg \<Rightarrow> u32" where
  "enc_branch_link_reg rn = 0xD63F0000 OR push_bit 5 (reg_encoding rn)"

definition enc_ret :: "Reg \<Rightarrow> u32" where
  "enc_ret rn = 0xD65F0000 OR push_bit 5 (reg_encoding rn)"

section \<open>Loads and stores\<close>

fun encode_load_store_common :: "u32 \<Rightarrow> u32 \<Rightarrow> u32 \<Rightarrow> u32 \<Rightarrow> Reg \<Rightarrow> AddrMode \<Rightarrow> u32" where
  "encode_load_store_common sz v opc rt rn (UnsignedOffset imm) =
     push_bit 30 sz OR push_bit 27 0b111 OR push_bit 26 v OR push_bit 24 0b01 OR push_bit 22 opc
     OR push_bit 10 (uscaled_encoding imm) OR push_bit 5 (reg_encoding rn) OR rt"
| "encode_load_store_common sz v opc rt rn (Unscaled imm) =
     push_bit 30 sz OR push_bit 27 0b111 OR push_bit 26 v OR push_bit 22 opc
     OR push_bit 12 (simm9_encoding imm) OR push_bit 5 (reg_encoding rn) OR rt"
| "encode_load_store_common sz v opc rt rn (PostIndex imm) =
     push_bit 30 sz OR push_bit 27 0b111 OR push_bit 26 v OR push_bit 22 opc
     OR push_bit 12 (simm9_encoding imm) OR push_bit 10 0b01 OR push_bit 5 (reg_encoding rn) OR rt"
| "encode_load_store_common sz v opc rt rn (PreIndex imm) =
     push_bit 30 sz OR push_bit 27 0b111 OR push_bit 26 v OR push_bit 22 opc
     OR push_bit 12 (simm9_encoding imm) OR push_bit 10 0b11 OR push_bit 5 (reg_encoding rn) OR rt"
| "encode_load_store_common sz v opc rt rn (AM_RegOffset ro) =
     push_bit 30 sz OR push_bit 27 0b111 OR push_bit 26 v OR push_bit 22 opc OR push_bit 21 1
     OR push_bit 16 (reg_encoding (ro_rm ro)) OR push_bit 13 (ldst_option (ro_extend ro))
     OR push_bit 12 (of_bool (ro_shifted ro)) OR push_bit 10 0b10 OR push_bit 5 (reg_encoding rn)
     OR rt"

definition encode_load_store_gp :: "LdStOp \<Rightarrow> Reg \<Rightarrow> Reg \<Rightarrow> AddrMode \<Rightarrow> u32" where
  "encode_load_store_gp op rt rn mode =
     (case size_opc op of (sz, opc) \<Rightarrow>
        encode_load_store_common sz 0 opc (reg_encoding rt) rn mode)"

definition encode_load_store_fp :: "bool \<Rightarrow> FpReg \<Rightarrow> Reg \<Rightarrow> AddrMode \<Rightarrow> u32" where
  "encode_load_store_fp is_load rt rn mode =
     (let sz = (if is_double rt then 0b11 else 0b10);
          opc = (if is_load then 0b01 else 0b00)
      in encode_load_store_common sz 1 opc (fpreg_encoding rt) rn mode)"

fun pair_mode :: "PairIndex \<Rightarrow> u32" where
  "pair_mode PI_PostIndex = 0b01"
| "pair_mode PI_Offset = 0b10"
| "pair_mode PI_PreIndex = 0b11"

definition enc_load_store_pair ::
  "bool \<Rightarrow> bool \<Rightarrow> Reg \<Rightarrow> Reg \<Rightarrow> Reg \<Rightarrow> SImm7Scaled \<Rightarrow> PairIndex \<Rightarrow> u32" where
  "enc_load_store_pair is_load b rt1 rt2 rn imm index =
     (let opc = (if b then 0b10 else 0b00)
      in push_bit 30 opc OR push_bit 27 0b101 OR push_bit 23 (pair_mode index)
         OR push_bit 22 (of_bool is_load) OR push_bit 15 (simm7_encoding imm)
         OR push_bit 10 (reg_encoding rt2) OR push_bit 5 (reg_encoding rn) OR reg_encoding rt1)"

section \<open>System\<close>

fun enc_system :: "SysOp \<Rightarrow> u32" where
  "enc_system Nop = 0xD503201F"
| "enc_system (Brk imm16) = 0xD4200000 OR push_bit 5 (ucast imm16)"
| "enc_system (Svc imm16) = 0xD4000001 OR push_bit 5 (ucast imm16)"
| "enc_system (Udf imm16) = ucast imm16"

section \<open>Scalar floating point\<close>

fun fp_unary_opcode :: "FpUnaryOp \<Rightarrow> u32" where
  "fp_unary_opcode Fmov = 0b000000"
| "fp_unary_opcode Fabs = 0b000001"
| "fp_unary_opcode Fneg = 0b000010"
| "fp_unary_opcode Fsqrt = 0b000011"

definition enc_fp_data_proc_1 :: "FpUnaryOp \<Rightarrow> FpReg \<Rightarrow> FpReg \<Rightarrow> u32" where
  "enc_fp_data_proc_1 op rd rn =
     (let ty = of_bool (is_double rd)
      in push_bit 24 0b11110 OR push_bit 22 ty OR push_bit 21 1 OR push_bit 15 (fp_unary_opcode op)
         OR push_bit 10 0b10000 OR push_bit 5 (fpreg_encoding rn) OR fpreg_encoding rd)"

definition enc_fp_convert :: "FpReg \<Rightarrow> FpReg \<Rightarrow> u32" where
  "enc_fp_convert rd rn =
     (case (if is_double rd then (0, 0b000101) else (1, 0b000100)) of (ty, opcode) \<Rightarrow>
        push_bit 24 0b11110 OR push_bit 22 ty OR push_bit 21 1 OR push_bit 15 opcode
        OR push_bit 10 0b10000 OR push_bit 5 (fpreg_encoding rn) OR fpreg_encoding rd)"

fun fp_bin_opcode :: "FpBinOp \<Rightarrow> u32" where
  "fp_bin_opcode Fmul = 0b0000"
| "fp_bin_opcode Fdiv = 0b0001"
| "fp_bin_opcode Fadd = 0b0010"
| "fp_bin_opcode Fsub = 0b0011"

definition enc_fp_data_proc_2 :: "FpBinOp \<Rightarrow> FpReg \<Rightarrow> FpReg \<Rightarrow> FpReg \<Rightarrow> u32" where
  "enc_fp_data_proc_2 op rd rn rm =
     (let ty = of_bool (is_double rd)
      in push_bit 24 0b11110 OR push_bit 22 ty OR push_bit 21 1 OR push_bit 16 (fpreg_encoding rm)
         OR push_bit 12 (fp_bin_opcode op) OR push_bit 10 0b10 OR push_bit 5 (fpreg_encoding rn)
         OR fpreg_encoding rd)"

definition enc_fp_compare :: "FpReg \<Rightarrow> FpReg \<Rightarrow> u32" where
  "enc_fp_compare rn rm =
     (let ty = of_bool (is_double rn)
      in push_bit 24 0b11110 OR push_bit 22 ty OR push_bit 21 1 OR push_bit 16 (fpreg_encoding rm)
         OR push_bit 10 0b1000 OR push_bit 5 (fpreg_encoding rn))"

definition enc_fp_cond_select :: "FpReg \<Rightarrow> FpReg \<Rightarrow> FpReg \<Rightarrow> Cond \<Rightarrow> u32" where
  "enc_fp_cond_select rd rn rm cond =
     (let ty = of_bool (is_double rd)
      in push_bit 24 0b11110 OR push_bit 22 ty OR push_bit 21 1 OR push_bit 16 (fpreg_encoding rm)
         OR push_bit 12 (cond_code cond) OR push_bit 10 0b11 OR push_bit 5 (fpreg_encoding rn)
         OR fpreg_encoding rd)"

definition enc_fp_imm_move :: "FpReg \<Rightarrow> FpImm8 \<Rightarrow> u32" where
  "enc_fp_imm_move rd imm =
     (let ty = of_bool (is_double rd)
      in push_bit 24 0b11110 OR push_bit 22 ty OR push_bit 21 1 OR push_bit 13 (fpimm_encoding imm)
         OR push_bit 10 0b100 OR fpreg_encoding rd)"

definition enc_fp_to_gp :: "Reg \<Rightarrow> FpReg \<Rightarrow> u32" where
  "enc_fp_to_gp rd rn =
     (let ty = of_bool (is_double rn)
      in push_bit 31 (sf rd) OR push_bit 24 0b11110 OR push_bit 22 ty OR push_bit 21 1
         OR push_bit 16 0b110 OR push_bit 5 (fpreg_encoding rn) OR reg_encoding rd)"

definition enc_gp_to_fp :: "FpReg \<Rightarrow> Reg \<Rightarrow> u32" where
  "enc_gp_to_fp rd rn =
     (let ty = of_bool (is_double rd)
      in push_bit 31 (sf rn) OR push_bit 24 0b11110 OR push_bit 22 ty OR push_bit 21 1
         OR push_bit 16 0b111 OR push_bit 5 (reg_encoding rn) OR fpreg_encoding rd)"

fun fp_int_convert_opcode :: "FpIntConvertOp \<Rightarrow> u32 \<times> u32" where
  "fp_int_convert_opcode Scvtf = (0b00, 0b010)"
| "fp_int_convert_opcode Ucvtf = (0b00, 0b011)"
| "fp_int_convert_opcode Fcvtzs = (0b11, 0b000)"
| "fp_int_convert_opcode Fcvtzu = (0b11, 0b001)"

definition enc_fp_int_convert :: "FpIntConvertOp \<Rightarrow> Reg \<Rightarrow> FpReg \<Rightarrow> u32" where
  "enc_fp_int_convert op gp fp =
     (let ty = of_bool (is_double fp);
          is_int_to_fp = (op = Scvtf \<or> op = Ucvtf)
      in case fp_int_convert_opcode op of (rmode, opcode) \<Rightarrow>
         case (if is_int_to_fp then (reg_encoding gp, fpreg_encoding fp, sf gp)
               else (fpreg_encoding fp, reg_encoding gp, sf gp)) of (rn_enc, rd_enc, sf_bit) \<Rightarrow>
           push_bit 31 sf_bit OR push_bit 24 0b11110 OR push_bit 22 ty OR push_bit 21 1
           OR push_bit 19 rmode OR push_bit 16 opcode OR push_bit 5 rn_enc OR rd_enc)"

definition enc_fp_madd :: "FpReg \<Rightarrow> FpReg \<Rightarrow> FpReg \<Rightarrow> FpReg \<Rightarrow> u32" where
  "enc_fp_madd rd rn rm ra =
     (let ty = of_bool (is_double rd)
      in push_bit 24 0b11111 OR push_bit 22 ty OR push_bit 16 (fpreg_encoding rm)
         OR push_bit 10 (fpreg_encoding ra) OR push_bit 5 (fpreg_encoding rn) OR fpreg_encoding rd)"

section \<open>The encoder\<close>

fun encode :: "Inst \<Rightarrow> (EncodeError, u32) result" where
  "encode (MovWide op rd imm16 shift) = Inr (enc_mov_wide op rd imm16 shift)"
| "encode (AddSubImm op s rd rn imm _) = Inr (enc_add_sub_imm op s rd rn imm)"
| "encode (AddSubShiftedReg op s rd rn rm shift _) = Inr (enc_add_sub_shifted_reg op s rd rn rm shift)"
| "encode (AddSubExtendedReg op s rd rn rm ext _) = Inr (enc_add_sub_extended_reg op s rd rn rm ext)"
| "encode (LogicalImmInst op rd rn imm _) = Inr (enc_logical_imm op rd rn imm)"
| "encode (LogicalShiftedReg op rd rn rm shift _) = Inr (enc_logical_shifted_reg op rd rn rm shift)"
| "encode (Bitfield op rd rn immr imms _) = Inr (enc_bitfield op rd rn immr imms)"
| "encode (DataProc2Source op rd rn rm) = Inr (enc_data_proc_2 op rd rn rm)"
| "encode (DataProc3Source op rd rn rm ra _) = Inr (enc_data_proc_3 op rd rn rm ra)"
| "encode (DataProc1Source op rd rn) = Inr (enc_data_proc_1 op rd rn)"
| "encode (CondSelect op rd rn rm cond _) = Inr (enc_cond_select op rd rn rm cond)"
| "encode (Adr rd offset) = Inr (enc_adr rd offset)"
| "encode (Adrp rd offset) = Inr (enc_adrp rd offset)"
| "encode (Branch link offset) = Inr (enc_branch link offset)"
| "encode (BranchCond cond offset) = Inr (enc_branch_cond cond offset)"
| "encode (CompareBranch b nz rt offset) = Inr (enc_compare_branch b nz rt offset)"
| "encode (TestBranch nz rt bt offset) = Inr (enc_test_branch nz rt bt offset)"
| "encode (BranchReg rn) = Inr (enc_branch_reg rn)"
| "encode (BranchLinkReg rn) = Inr (enc_branch_link_reg rn)"
| "encode (Ret rn) = Inr (enc_ret rn)"
| "encode (LoadStoreImm op rt rn mode) = Inr (encode_load_store_gp op rt rn mode)"
| "encode (FpLoadStoreImm is_load rt rn mode) = Inr (encode_load_store_fp is_load rt rn mode)"
| "encode (LoadStorePair is_load b rt1 rt2 rn imm index) =
     Inr (enc_load_store_pair is_load b rt1 rt2 rn imm index)"
| "encode (SystemInst op) = Inr (enc_system op)"
| "encode (FpDataProc1 op rd rn) = Inr (enc_fp_data_proc_1 op rd rn)"
| "encode (FpConvert rd rn) = Inr (enc_fp_convert rd rn)"
| "encode (FpDataProc2 op rd rn rm) = Inr (enc_fp_data_proc_2 op rd rn rm)"
| "encode (FpCompare rn rm) = Inr (enc_fp_compare rn rm)"
| "encode (FpCondSelect rd rn rm cond) = Inr (enc_fp_cond_select rd rn rm cond)"
| "encode (FpImmMove rd imm) = Inr (enc_fp_imm_move rd imm)"
| "encode (FpToGp rd rn) = Inr (enc_fp_to_gp rd rn)"
| "encode (GpToFp rd rn) = Inr (enc_gp_to_fp rd rn)"
| "encode (FpIntConvert op gp fp) = Inr (enc_fp_int_convert op gp fp)"
| "encode (FpMadd rd rn rm ra) = Inr (enc_fp_madd rd rn rm ra)"

end
