(* ===== verification/Asm_Operand_Laws.thy ===== *)
theory Asm_Operand_Laws
  imports Asm_Operand
begin

text \<open>
  The contract every immediate operand meets. \<open>immediate\<close>: a well-formed operand is placed
  in a field of a fixed width and the field determines the operand. \<open>validated\<close> adds the
  constructor: it accepts a value only as a well-formed operand that stands for exactly that
  value. Both are interpreted for every operand type of the encoder, so that the facts about
  instruction words rest on \<open>simm9.field_high\<close>, \<open>branch26.dec_enc\<close> and their like.
\<close>

locale immediate =
  fixes wf :: "'o \<Rightarrow> bool"
    and enc :: "'o \<Rightarrow> u32"
    and dec :: "u32 \<Rightarrow> 'o"
    and w :: nat
  assumes wf_fits: "wf x \<Longrightarrow> fits w (enc x)"
    and dec_enc: "wf x \<Longrightarrow> dec (enc x) = x"
begin

lemma enc_inj: "wf x \<Longrightarrow> wf y \<Longrightarrow> enc x = enc y \<Longrightarrow> x = y"
  using dec_enc by metis

lemma field_high: "wf x \<Longrightarrow> w \<le> lo \<Longrightarrow> field lo n (enc x) = 0"
  by (rule fits_field_high [OF wf_fits])

lemma field_self: "wf x \<Longrightarrow> w \<le> n \<Longrightarrow> field 0 n (enc x) = enc x"
  by (rule fits_field_self [OF wf_fits])

end

locale validated = immediate wf enc dec w
  for wf :: "'o \<Rightarrow> bool" and enc :: "'o \<Rightarrow> u32" and dec :: "u32 \<Rightarrow> 'o" and w :: nat +
  fixes mk :: "'v \<Rightarrow> 'o \<Rightarrow> bool"
    and val :: "'o \<Rightarrow> 'v"
  assumes mk_wf: "mk v x \<Longrightarrow> wf x"
    and mk_val: "mk v x \<Longrightarrow> val x = v"
begin

lemma encoding_determines_value: "mk v x \<Longrightarrow> mk v' y \<Longrightarrow> enc x = enc y \<Longrightarrow> v = v'"
  using enc_inj mk_val mk_wf by metis

lemma value_recovered: "mk v x \<Longrightarrow> val (dec (enc x)) = v"
  by (simp add: dec_enc mk_wf mk_val)

end

section \<open>Signed fields\<close>

definition dec_signed :: "nat \<Rightarrow> u32 \<Rightarrow> int" where
  "dec_signed n v = signed_take_bit (n - 1) (uint v)"

lemma fits_and_mask: "fits n (x AND mask n)"
  by (auto simp: fits_iff_bit bit_simps)

lemma dec_signed_mask:
  assumes "in_signed n x" and "0 < n" and "n \<le> 32"
  shows "dec_signed n (word_of_int x AND mask n) = x"
proof -
  have "uint ((word_of_int x :: u32) AND mask n) = take_bit n x"
    using assms(3) by (simp add: uint_word_of_int_eq unsigned_take_bit_eq min_absorb1
        flip: take_bit_eq_mask)
  then have "dec_signed n (word_of_int x AND mask n) = signed_take_bit (n - 1) x"
    using assms(2) by (cases n) (simp_all add: dec_signed_def signed_take_bit_take_bit)
  with as_signed_id [OF assms(1)] show ?thesis by (simp add: as_signed_def)
qed

lemma low_masks:
  "(0x1FFFFF :: u32) = mask 21" "(0x1FF :: u32) = mask 9" "(0x7F :: u32) = mask 7"
  by (simp_all add: mask_eq_exp_minus_1)

section \<open>Branch offsets\<close>

definition wf_branch :: "nat \<Rightarrow> BranchOffset \<Rightarrow> bool" where
  "wf_branch bits off \<longleftrightarrow> bo_bits off = bits \<and> in_signed bits (word_off off)"

definition dec_branch :: "nat \<Rightarrow> u32 \<Rightarrow> BranchOffset" where
  "dec_branch bits v = \<lparr>bo_bits = bits, word_off = dec_signed bits v\<rparr>"

lemma branch_encoding_mask: "branch_offset_encoding off = word_of_int (word_off off) AND mask (bo_bits off)"
  by (simp add: branch_offset_encoding_def mask_eq_exp_minus_1)

lemma branch_offset_new_ok:
  assumes "branch_offset_new bytes bits what = Some (Inr off)" and "bits \<le> 32"
  shows "wf_branch bits off \<and> branch_offset_bytes off = bytes"
proof -
  from assms(1) have b: "bits \<noteq> 0" "bytes mod 4 = 0" and r: "in_signed bits (bytes div 4)"
    and off: "off = \<lparr>bo_bits = bits, word_off = as_signed 32 (bytes div 4)\<rparr>"
    by (auto simp: branch_offset_new_def Let_def in_signed_def split: if_splits)
  from r assms(2) have "in_signed 32 (bytes div 4)" by (rule in_signed_mono)
  with r b show ?thesis by (auto simp: off wf_branch_def branch_offset_bytes_def)
qed

lemma branch_immediate:
  assumes "0 < bits" and "bits \<le> 32"
  shows "validated (wf_branch bits) branch_offset_encoding (dec_branch bits) bits
     (\<lambda>bytes off. \<exists>what. branch_offset_new bytes bits what = Some (Inr off)) branch_offset_bytes"
proof
  fix off v
  assume wf: "wf_branch bits off"
  then show "fits bits (branch_offset_encoding off)"
    by (simp add: wf_branch_def branch_encoding_mask fits_and_mask)
  from wf assms show "dec_branch bits (branch_offset_encoding off) = off"
    by (cases off) (simp add: wf_branch_def branch_encoding_mask dec_branch_def dec_signed_mask)
next
  fix off v
  assume "\<exists>what. branch_offset_new v bits what = Some (Inr off)"
  then show "wf_branch bits off" "branch_offset_bytes off = v"
    using branch_offset_new_ok assms(2) by blast+
qed

interpretation branch26: validated "wf_branch 26" branch_offset_encoding "dec_branch 26" 26
  "\<lambda>bytes off. \<exists>what. branch_offset_new bytes 26 what = Some (Inr off)" branch_offset_bytes
  by (rule branch_immediate) simp_all

interpretation branch19: validated "wf_branch 19" branch_offset_encoding "dec_branch 19" 19
  "\<lambda>bytes off. \<exists>what. branch_offset_new bytes 19 what = Some (Inr off)" branch_offset_bytes
  by (rule branch_immediate) simp_all

interpretation branch14: validated "wf_branch 14" branch_offset_encoding "dec_branch 14" 14
  "\<lambda>bytes off. \<exists>what. branch_offset_new bytes 14 what = Some (Inr off)" branch_offset_bytes
  by (rule branch_immediate) simp_all

section \<open>PC-relative offsets\<close>

text \<open>\<^verbatim>\<open>ADR\<close> and \<^verbatim>\<open>ADRP\<close> split a 21-bit field into \<^verbatim>\<open>immlo\<close> and \<^verbatim>\<open>immhi\<close>; \<open>imm21\<close> is the
  field put together again.\<close>

definition imm21 :: "u32 \<times> u32 \<Rightarrow> u32" where
  "imm21 p = push_bit 2 (snd p) OR fst p"

lemma imm21_split: "imm21 (x AND 0b11, drop_bit 2 x) = x"
proof (rule bit_word_eqI)
  have m: "(0b11 :: u32) = mask 2" by (simp add: mask_eq_exp_minus_1)
  fix n
  show "bit (imm21 (x AND 0b11, drop_bit 2 x)) n = bit x n" if "n < LENGTH(32)"
  proof (cases "n < 2")
    case True
    then show ?thesis unfolding m by (simp add: imm21_def bit_simps)
  next
    case False
    then obtain k where "n = 2 + k" by (auto simp: not_less dest: le_Suc_ex)
    with that show ?thesis unfolding m by (auto simp: imm21_def bit_simps)
  qed
qed

lemma imm21_adr: "imm21 (adr_encoding x) = word_of_int (adr_bytes x) AND mask 21"
  unfolding adr_encoding_def Let_def imm21_split low_masks ..

lemma imm21_adrp: "imm21 (adrp_encoding x) = word_of_int (adrp_pages x) AND mask 21"
  unfolding adrp_encoding_def Let_def imm21_split low_masks ..

definition wf_adr :: "AdrOffset \<Rightarrow> bool" where
  "wf_adr off \<longleftrightarrow> in_signed 21 (adr_bytes off)"

definition wf_adrp :: "AdrpOffset \<Rightarrow> bool" where
  "wf_adrp off \<longleftrightarrow> in_signed 21 (adrp_pages off)"

interpretation adr: validated wf_adr "\<lambda>x. imm21 (adr_encoding x)" "\<lambda>v. AdrOffset (dec_signed 21 v)" 21
  "\<lambda>v x. adr_new v = Inr x" adr_bytes
proof
  fix x v
  show "wf_adr x \<Longrightarrow> fits 21 (imm21 (adr_encoding x))"
    by (simp add: imm21_adr fits_and_mask)
  show "wf_adr x \<Longrightarrow> AdrOffset (dec_signed 21 (imm21 (adr_encoding x))) = x"
    by (cases x) (simp add: imm21_adr dec_signed_mask wf_adr_def)
  assume "adr_new v = Inr x"
  then have x: "x = AdrOffset (as_signed 32 v)" and r: "in_signed 21 v"
    by (auto simp: adr_new_def in_signed_def split: if_splits)
  from r have "in_signed 32 v" by (rule in_signed_mono) simp
  with x r show "wf_adr x" "adr_bytes x = v" by (simp_all add: wf_adr_def)
qed

interpretation adrp: validated wf_adrp "\<lambda>x. imm21 (adrp_encoding x)" "\<lambda>v. AdrpOffset (dec_signed 21 v)" 21
  "\<lambda>v x. adrp_new v = Inr x" adrp_pages
proof
  fix x v
  show "wf_adrp x \<Longrightarrow> fits 21 (imm21 (adrp_encoding x))"
    by (simp add: imm21_adrp fits_and_mask)
  show "wf_adrp x \<Longrightarrow> AdrpOffset (dec_signed 21 (imm21 (adrp_encoding x))) = x"
    by (cases x) (simp add: imm21_adrp dec_signed_mask wf_adrp_def)
  assume "adrp_new v = Inr x"
  then have x: "x = AdrpOffset (as_signed 32 v)" and r: "in_signed 21 v"
    by (auto simp: adrp_new_def in_signed_def split: if_splits)
  from r have "in_signed 32 v" by (rule in_signed_mono) simp
  with x r show "wf_adrp x" "adrp_pages x = v" by (simp_all add: wf_adrp_def)
qed

section \<open>Load and store offsets\<close>

definition wf_simm9 :: "Simm9 \<Rightarrow> bool" where
  "wf_simm9 i \<longleftrightarrow> in_signed 9 (simm9_value i)"

interpretation simm9: validated wf_simm9 simm9_encoding "\<lambda>v. Simm9 (dec_signed 9 v)" 9
  "\<lambda>v x. simm9_new v = Inr x" simm9_value
proof
  fix x v
  show "wf_simm9 x \<Longrightarrow> fits 9 (simm9_encoding x)"
    unfolding simm9_encoding_def low_masks by (rule fits_and_mask)
  show "wf_simm9 x \<Longrightarrow> Simm9 (dec_signed 9 (simm9_encoding x)) = x"
    unfolding simm9_encoding_def low_masks by (cases x) (simp add: dec_signed_mask wf_simm9_def)
  assume "simm9_new v = Inr x"
  then have x: "x = Simm9 (as_signed 16 v)" and r: "in_signed 9 v"
    by (auto simp: simm9_new_def in_signed_def split: if_splits)
  from r have "in_signed 16 v" by (rule in_signed_mono) simp
  with x r show "wf_simm9 x" "simm9_value x = v" by (simp_all add: wf_simm9_def)
qed

definition wf_simm7 :: "nat \<Rightarrow> SImm7Scaled \<Rightarrow> bool" where
  "wf_simm7 sz i \<longleftrightarrow> s7_access_size i = sz \<and> in_signed 7 (s7_scaled i)"

lemma simm7_validated:
  "validated (wf_simm7 sz) simm7_encoding (\<lambda>v. \<lparr>s7_scaled = dec_signed 7 v, s7_access_size = sz\<rparr>) 7
     (\<lambda>v x. simm7_new v sz = Some (Inr x)) simm7_bytes"
proof
  fix x v
  show "wf_simm7 sz x \<Longrightarrow> fits 7 (simm7_encoding x)"
    unfolding simm7_encoding_def low_masks by (rule fits_and_mask)
  show "wf_simm7 sz x \<Longrightarrow> \<lparr>s7_scaled = dec_signed 7 (simm7_encoding x), s7_access_size = sz\<rparr> = x"
    unfolding simm7_encoding_def low_masks by (cases x) (simp add: dec_signed_mask wf_simm7_def)
  assume "simm7_new v sz = Some (Inr x)"
  then have x: "x = \<lparr>s7_scaled = as_signed 8 (v div int sz), s7_access_size = sz\<rparr>"
    and r: "in_signed 7 (v div int sz)" and d: "v mod int sz = 0"
    by (auto simp: simm7_new_def Let_def in_signed_def split: if_splits)
  from r have "in_signed 8 (v div int sz)" by (rule in_signed_mono) simp
  with x r d show "wf_simm7 sz x" "simm7_bytes x = v" by (auto simp: wf_simm7_def simm7_bytes_def)
qed

interpretation simm7_4: validated "wf_simm7 4" simm7_encoding
  "\<lambda>v. \<lparr>s7_scaled = dec_signed 7 v, s7_access_size = 4\<rparr>" 7
  "\<lambda>v x. simm7_new v 4 = Some (Inr x)" simm7_bytes
  by (rule simm7_validated)

interpretation simm7_8: validated "wf_simm7 8" simm7_encoding
  "\<lambda>v. \<lparr>s7_scaled = dec_signed 7 v, s7_access_size = 8\<rparr>" 7
  "\<lambda>v x. simm7_new v 8 = Some (Inr x)" simm7_bytes
  by (rule simm7_validated)

definition wf_uscaled :: "nat \<Rightarrow> UScaledImm12 \<Rightarrow> bool" where
  "wf_uscaled sz i \<longleftrightarrow> us_access_size i = sz \<and> us_scaled i \<le> 0xFFF"

definition dec_uscaled :: "nat \<Rightarrow> u32 \<Rightarrow> UScaledImm12" where
  "dec_uscaled sz v = \<lparr>us_scaled = ucast v, us_access_size = sz\<rparr>"

lemma uscaled_validated:
  "validated (wf_uscaled sz) uscaled_encoding (dec_uscaled sz) 12
     (\<lambda>v x. uscaled_new v sz = Some (Inr x)) uscaled_bytes"
proof
  fix x v
  show "wf_uscaled sz x \<Longrightarrow> fits 12 (uscaled_encoding x)"
    unfolding uscaled_encoding_def by (rule fits_of_unat) (simp add: wf_uscaled_def word_le_nat_alt)
  show "wf_uscaled sz x \<Longrightarrow> dec_uscaled sz (uscaled_encoding x) = x"
    by (cases x) (simp add: dec_uscaled_def uscaled_encoding_def wf_uscaled_def)
  assume "uscaled_new v sz = Some (Inr x)"
  then have x: "x = \<lparr>us_scaled = word_of_nat (nat v div sz), us_access_size = sz\<rparr>"
    and v: "0 \<le> v" "int sz dvd v" and r: "nat v div sz \<le> 0xFFF"
    by (auto simp: uscaled_new_def Let_def split: if_splits)
  have u: "unat (word_of_nat (nat v div sz) :: u16) = nat v div sz"
    using r by (simp add: unat_of_nat)
  from x r show "wf_uscaled sz x" by (simp add: wf_uscaled_def word_le_nat_alt u)
  have "uint (word_of_nat (nat v div sz) :: u16) = int (nat v div sz)"
    by (simp only: uint_nat u)
  with x v show "uscaled_bytes x = v"
    by (simp add: uscaled_bytes_def zdiv_int)
qed

interpretation uscaled1: validated "wf_uscaled 1" uscaled_encoding "dec_uscaled 1" 12
  "\<lambda>v x. uscaled_new v 1 = Some (Inr x)" uscaled_bytes by (rule uscaled_validated)

interpretation uscaled2: validated "wf_uscaled 2" uscaled_encoding "dec_uscaled 2" 12
  "\<lambda>v x. uscaled_new v 2 = Some (Inr x)" uscaled_bytes by (rule uscaled_validated)

interpretation uscaled4: validated "wf_uscaled 4" uscaled_encoding "dec_uscaled 4" 12
  "\<lambda>v x. uscaled_new v 4 = Some (Inr x)" uscaled_bytes by (rule uscaled_validated)

interpretation uscaled8: validated "wf_uscaled 8" uscaled_encoding "dec_uscaled 8" 12
  "\<lambda>v x. uscaled_new v 8 = Some (Inr x)" uscaled_bytes by (rule uscaled_validated)

section \<open>Conditions, shifts and extends\<close>

lemma fits_cond_code [fits_rules]: "wf_cond c \<Longrightarrow> fits 4 (cond_code c)"
  unfolding cond_code_def by (rule fits_of_unat) (simp add: wf_cond_def word_le_nat_alt)

lemma ucast_cond_code [simp]: "Cond (ucast (cond_code c)) = c"
  by (cases c) (simp add: cond_code_def)

lemma xor_one_le_15: "w XOR 1 \<le> 15 \<longleftrightarrow> (w :: u8) \<le> 15"
proof -
  have "x \<le> 15 \<longleftrightarrow> drop_bit 4 x = 0" for x :: u8
  proof -
    have "unat (drop_bit 4 x) = unat x div 16"
      by (simp only: unat_drop_bit_eq) (simp add: drop_bit_eq_div)
    then have "drop_bit 4 x = 0 \<longleftrightarrow> unat x < 16"
      by (simp only: unat_eq_0 [symmetric] div_eq_0_iff)
        simp
    then show ?thesis by (auto simp: word_le_nat_alt)
  qed
  from this [of w] this [of "w XOR 1"] show ?thesis by (simp add: drop_bit_xor)
qed

lemma wf_inverted [simp]: "wf_cond (inverted c) = wf_cond c"
  by (cases c) (simp add: wf_cond_def inverted_def xor_one_le_15)

lemma inverted_inverted [simp]: "inverted (inverted c) = c"
  by (cases c) (simp add: inverted_def xor.assoc)

lemma wf_cond_iff: "wf_cond c \<longleftrightarrow> c \<in> set cond_all"
proof -
  have e: "cond_all = map Cond (u8_range 16)" by (simp add: cond_all_def u8_range_def upt_conv_Cons)
  have "set cond_all = Cond ` {w. unat w < 16}" unfolding e by (simp add: set_u8_range)
  then show ?thesis by (cases c) (auto simp: wf_cond_def word_le_nat_alt)
qed

lemma fits_shift_encoding [fits_rules]: "fits 2 (shift_encoding k)"
  by (cases k) (simp_all add: fits_def)

lemma fits_extend_encoding [fits_rules]: "fits 3 (extend_encoding k)"
  by (cases k) (simp_all add: fits_def)

definition dec_shift :: "u32 \<Rightarrow> ShiftKind" where
  "dec_shift v = (if v = 0 then Lsl else if v = 1 then Lsr else if v = 2 then Asr else Ror)"

lemma dec_shift_encoding [simp]: "dec_shift (shift_encoding k) = k"
  by (cases k) (simp_all add: dec_shift_def)

definition dec_extend :: "u32 \<Rightarrow> ExtendKind" where
  "dec_extend v =
     (if v = 0 then Uxtb else if v = 1 then Uxth else if v = 2 then Uxtw else if v = 3 then Uxtx
      else if v = 4 then Sxtb else if v = 5 then Sxth else if v = 6 then Sxtw else Sxtx)"

lemma dec_extend_encoding [simp]: "dec_extend (extend_encoding k) = k"
  by (cases k) (simp_all add: dec_extend_def)

definition wf_shift :: "bool \<Rightarrow> RegShift \<Rightarrow> bool" where
  "wf_shift b s \<longleftrightarrow> sh_amount s \<le> (if b then 63 else 31)"

definition wf_extend :: "RegExtend \<Rightarrow> bool" where
  "wf_extend e \<longleftrightarrow> ex_amount e \<le> 4"

lemma reg_shift_new_ok: "reg_shift_new k a b = Inr s \<Longrightarrow> wf_shift b s"
  by (auto simp: reg_shift_new_def wf_shift_def Let_def not_less split: if_splits)

lemma wf_shift_none [simp]: "wf_shift b reg_shift_none"
  by (simp add: wf_shift_def reg_shift_none_def)

lemma reg_extend_new_ok: "reg_extend_new k a = Inr e \<Longrightarrow> wf_extend e"
  by (auto simp: reg_extend_new_def wf_extend_def not_less split: if_splits)

lemma fits_shift_amount [fits_rules]: "wf_shift b s \<Longrightarrow> fits 6 (shift_amount s)"
  unfolding shift_amount_def
  by (rule fits_of_unat) (auto simp: wf_shift_def word_le_nat_alt split: if_splits)

lemma fits_extend_amount [fits_rules]: "wf_extend e \<Longrightarrow> fits 3 (extend_amount e)"
  unfolding extend_amount_def by (rule fits_of_unat) (simp add: wf_extend_def word_le_nat_alt)

section \<open>ADD/SUB immediates\<close>

definition wf_uimm12 :: "Uimm12Lsl \<Rightarrow> bool" where
  "wf_uimm12 i \<longleftrightarrow> u12_raw i \<le> 0xFFF"

definition uimm12_field :: "Uimm12Lsl \<Rightarrow> u32" where
  "uimm12_field i = push_bit 12 (of_bool (shift12 i)) OR uimm12_raw i"

definition dec_uimm12 :: "u32 \<Rightarrow> Uimm12Lsl" where
  "dec_uimm12 v = \<lparr>u12_raw = ucast (field 0 12 v), shift12 = (field 12 1 v = 1)\<rparr>"

lemma fits_uimm12_raw [fits_rules]: "wf_uimm12 i \<Longrightarrow> fits 12 (uimm12_raw i)"
  unfolding uimm12_raw_def by (rule fits_of_unat) (simp add: wf_uimm12_def word_le_nat_alt)

lemma uimm12_new_shifted:
  assumes "v AND 0xFFF = (0 :: u64)" and "drop_bit 12 v \<le> 0xFFF"
  shows "push_bit 12 (ucast (ucast (drop_bit 12 v) :: u16)) = v"
proof -
  have m: "(0xFFF :: u64) = mask 12" by (simp add: mask_eq_exp_minus_1)
  have low: "\<not> bit v i" if "i < 12" for i
  proof -
    have "bit (v AND mask 12) i = bit (0 :: u64) i" using assms(1) by (simp add: m)
    with that show ?thesis by (auto simp: bit_simps)
  qed
  have "unat (drop_bit 12 v) < 2 ^ LENGTH(16)" using assms(2) by (simp add: word_le_nat_alt)
  then have "(ucast (ucast (drop_bit 12 v) :: u16) :: u64) = drop_bit 12 v"
    by (rule ucast_narrow_widen)
  moreover have "push_bit 12 (drop_bit 12 v) = v"
  proof (rule bit_word_eqI)
    fix n
    show "bit (push_bit 12 (drop_bit 12 v)) n = bit v n" if "n < LENGTH(64)"
      using that low [of n] by (cases "n < 12") (auto simp: bit_simps)
  qed
  ultimately show ?thesis by simp
qed

interpretation uimm12: validated wf_uimm12 uimm12_field dec_uimm12 13
  "\<lambda>v x. uimm12_new v = Inr x" uimm12_value
proof
  fix x v
  assume wf: "wf_uimm12 x"
  have f: "fits 12 (uimm12_raw x)" using wf by (rule fits_uimm12_raw)
  then show "fits 13 (uimm12_field x)"
    by (auto simp: fits_iff_bit uimm12_field_def bit_simps)
  have "field 0 12 (uimm12_field x) = uimm12_raw x"
    by (simp add: uimm12_field_def field_rules fits_field_self [OF f])
  moreover have "field 12 1 (uimm12_field x) = of_bool (shift12 x)"
    by (simp add: uimm12_field_def field_rules fits_field_high [OF f] fits_field_self [OF fits_of_bool])
  ultimately show "dec_uimm12 (uimm12_field x) = x"
    by (cases x) (simp add: dec_uimm12_def uimm12_raw_def)
next
  fix x v
  assume n: "uimm12_new v = Inr x"
  then show "wf_uimm12 x"
    by (auto simp: uimm12_new_def wf_uimm12_def word_le_nat_alt unat_drop_bit_eq unsigned_ucast_eq
        intro: order.trans [OF take_bit_nat_less_eq_self] split: if_splits)
  from n show "uimm12_value x = v"
    by (auto simp: uimm12_new_def uimm12_value_def uimm12_new_shifted word_le_nat_alt
        intro!: ucast_narrow_widen split: if_splits)
qed

section \<open>Logical immediates\<close>

definition reg_bits :: "bool \<Rightarrow> nat" where
  "reg_bits b = (if b then 64 else 32)"

definition wf_logical :: "bool \<Rightarrow> LogicalImm \<Rightarrow> bool" where
  "wf_logical b i \<longleftrightarrow> li_is64 i = b \<and>
     encode_bitmask (li_value i) (reg_bits b) = Some (li_n i, li_immr i, li_imms i)"

definition logical_field :: "LogicalImm \<Rightarrow> u32" where
  "logical_field i = push_bit 12 (logical_imm_n i) OR push_bit 6 (logical_imm_immr i) OR logical_imm_imms i"

definition dec_logical :: "bool \<Rightarrow> u32 \<Rightarrow> LogicalImm" where
  "dec_logical b v =
     (let n = ucast (field 12 1 v); immr = ucast (field 6 6 v); imms = ucast (field 0 6 v)
      in \<lparr>li_n = n, li_immr = immr, li_imms = imms, li_is64 = b,
          li_value = (case decode_bitmask n immr imms (reg_bits b) of Some x \<Rightarrow> x | None \<Rightarrow> 0)\<rparr>)"

lemma reg_bits_cases: "reg_bits b = 32 \<or> reg_bits b = 64"
  by (simp add: reg_bits_def)

lemma wf_logical_triple:
  assumes "wf_logical b i"
  shows "decode_bitmask (li_n i) (li_immr i) (li_imms i) (reg_bits b) = Some (li_value i)"
    and "unat (li_n i) < 2" and "unat (li_immr i) < 64" and "unat (li_imms i) < 64"
proof -
  from assms have e: "encode_bitmask (li_value i) (reg_bits b) = Some (li_n i, li_immr i, li_imms i)"
    by (simp add: wf_logical_def)
  from search_codec.enc_sound [OF bitmask_search_codec [OF reg_bits_cases] e]
  show "decode_bitmask (li_n i) (li_immr i) (li_imms i) (reg_bits b) = Some (li_value i)"
    and "unat (li_n i) < 2" and "unat (li_immr i) < 64" and "unat (li_imms i) < 64"
    by (auto simp: mem_triples)
qed

lemma fits_logical_n [fits_rules]: "wf_logical b i \<Longrightarrow> fits 1 (logical_imm_n i)"
  unfolding logical_imm_n_def by (rule fits_of_unat) (auto dest: wf_logical_triple)

lemma fits_logical_immr [fits_rules]: "wf_logical b i \<Longrightarrow> fits 6 (logical_imm_immr i)"
  unfolding logical_imm_immr_def by (rule fits_of_unat) (auto dest: wf_logical_triple)

lemma fits_logical_imms [fits_rules]: "wf_logical b i \<Longrightarrow> fits 6 (logical_imm_imms i)"
  unfolding logical_imm_imms_def by (rule fits_of_unat) (auto dest: wf_logical_triple)

text \<open>The value a constructor is asked for: a 32-bit immediate ignores the high half.\<close>

definition logical_target :: "bool \<Rightarrow> u64 \<Rightarrow> u64" where
  "logical_target b v = (if b then v else ucast (ucast v :: u32))"

lemma logical_validated:
  "validated (wf_logical b) logical_field (dec_logical b) 13
     (\<lambda>t x. \<exists>v. t = logical_target b v \<and> logical_imm_new v b = Inr x) li_value"
proof
  fix x t
  assume wf: "wf_logical b x"
  note fs = fits_logical_n [OF wf] fits_logical_immr [OF wf] fits_logical_imms [OF wf]
  from fs show "fits 13 (logical_field x)"
    by (auto simp: fits_iff_bit logical_field_def bit_simps)
  have "field 12 1 (logical_field x) = logical_imm_n x" "field 6 6 (logical_field x) = logical_imm_immr x"
    "field 0 6 (logical_field x) = logical_imm_imms x"
    by (simp_all add: logical_field_def field_rules fs [THEN fits_field_self] fs [THEN fits_field_high])
  with wf_logical_triple(1) [OF wf] wf show "dec_logical b (logical_field x) = x"
    by (cases x) (simp add: dec_logical_def Let_def logical_imm_n_def logical_imm_immr_def
        logical_imm_imms_def wf_logical_def)
next
  fix x t
  assume "\<exists>v. t = logical_target b v \<and> logical_imm_new v b = Inr x"
  then show "wf_logical b x" "li_value x = t"
    by (auto simp: logical_imm_new_def logical_target_def wf_logical_def reg_bits_def Let_def
        split: option.splits if_splits)
qed

interpretation logical64: validated "wf_logical True" logical_field "dec_logical True" 13
  "\<lambda>t x. \<exists>v. t = logical_target True v \<and> logical_imm_new v True = Inr x" li_value
  by (rule logical_validated)

interpretation logical32: validated "wf_logical False" logical_field "dec_logical False" 13
  "\<lambda>t x. \<exists>v. t = logical_target False v \<and> logical_imm_new v False = Inr x" li_value
  by (rule logical_validated)

section \<open>Floating-point immediates\<close>

lemma fpimm_search_codec:
  "search_codec (\<lambda>c. Some (fp_expand c b)) (u8_range 256) (\<lambda>_. False) (\<lambda>v. fpimm_search v b)"
  by unfold_locales (simp_all add: fpimm_search_def first_some_find)

interpretation fp64: search_codec "\<lambda>c. Some (fp_expand c True)" "u8_range 256" "\<lambda>_. False"
  "\<lambda>v. fpimm_search v True" by (rule fpimm_search_codec)

interpretation fp32: search_codec "\<lambda>c. Some (fp_expand c False)" "u8_range 256" "\<lambda>_. False"
  "\<lambda>v. fpimm_search v False" by (rule fpimm_search_codec)

definition wf_fpimm :: "bool \<Rightarrow> FpImm8 \<Rightarrow> bool" where
  "wf_fpimm b i \<longleftrightarrow> fi_is64 i = b \<and> fi_bits i = fp_expand (fi_imm8 i) b"

definition dec_fpimm :: "bool \<Rightarrow> u32 \<Rightarrow> FpImm8" where
  "dec_fpimm b v = \<lparr>fi_imm8 = ucast v, fi_is64 = b, fi_bits = fp_expand (ucast v) b\<rparr>"

definition fpimm_target :: "bool \<Rightarrow> u64 \<Rightarrow> u64" where
  "fpimm_target b v = (if b then v else v AND 0xFFFFFFFF)"

lemma fpimm_validated:
  "validated (wf_fpimm b) fpimm_encoding (dec_fpimm b) 8
     (\<lambda>t x. \<exists>v. t = fpimm_target b v \<and> fpimm_from_bits v b = Inr x) fi_bits"
proof
  fix x t
  show "wf_fpimm b x \<Longrightarrow> fits 8 (fpimm_encoding x)"
    unfolding fpimm_encoding_def by (rule fits_of_unat) (simp add: u8_less_256)
  show "wf_fpimm b x \<Longrightarrow> dec_fpimm b (fpimm_encoding x) = x"
    by (cases x) (simp add: dec_fpimm_def fpimm_encoding_def wf_fpimm_def)
  assume "\<exists>v. t = fpimm_target b v \<and> fpimm_from_bits v b = Inr x"
  then obtain v where v: "t = fpimm_target b v" "fpimm_from_bits v b = Inr x" by blast
  then obtain c where "fpimm_search t b = Some c" and x: "x = \<lparr>fi_imm8 = c, fi_is64 = b, fi_bits = t\<rparr>"
    by (cases "fpimm_search t b") (simp_all add: fpimm_from_bits_def fpimm_target_def Let_def)
  with search_codec.enc_sound [OF fpimm_search_codec]
  have "fp_expand c b = t" by blast
  with x show "wf_fpimm b x" "fi_bits x = t" by (simp_all add: wf_fpimm_def)
qed

text \<open>Every byte expands to a different bit pattern: the fields of the byte are bits 63, 61, 53 to
  52 and 51 to 48 of the double, 31, 29, 24 to 23 and 22 to 19 of the single.\<close>

definition fp_compress :: "u64 \<Rightarrow> bool \<Rightarrow> u8" where
  "fp_compress v b =
     (if b then push_bit 7 (ucast (drop_bit 63 v)) OR (ucast (drop_bit 48 v) AND 0x3F)
              OR push_bit 6 (ucast (drop_bit 61 v) AND 1)
      else push_bit 7 (ucast (drop_bit 31 v)) OR (ucast (drop_bit 19 v) AND 0x3F)
              OR push_bit 6 (ucast (drop_bit 29 v) AND 1))"

lemma drop_bit_and_one: "drop_bit n (c :: 'a::len word) AND 1 = of_bool (bit c n)"
  by (simp add: and_one_eq bit_iff_odd_drop_bit mod_2_eq_odd)

lemma fp_compress_expand: "fp_compress (fp_expand c b) b = c"
proof (rule bit_word_eqI)
  fix n
  assume "n < LENGTH(8)"
  then have "n = 0 \<or> n = 1 \<or> n = 2 \<or> n = 3 \<or> n = 4 \<or> n = 5 \<or> n = 6 \<or> n = 7"
    by auto
  then show "bit (fp_compress (fp_expand c b) b) n = bit c n"
    by (elim disjE; cases "bit c 6"; cases "bit c 7"; cases b)
      (simp_all add: fp_compress_def fp_expand_def Let_def drop_bit_and_one bit_simps)
qed

interpretation fpimm64: validated "wf_fpimm True" fpimm_encoding "dec_fpimm True" 8
  "\<lambda>t x. \<exists>v. t = fpimm_target True v \<and> fpimm_from_bits v True = Inr x" fi_bits
  by (rule fpimm_validated)

interpretation fpimm32: validated "wf_fpimm False" fpimm_encoding "dec_fpimm False" 8
  "\<lambda>t x. \<exists>v. t = fpimm_target False v \<and> fpimm_from_bits v False = Inr x" fi_bits
  by (rule fpimm_validated)

end
