(* ===== verification/Asm_Decode.thy ===== *)
theory Asm_Decode
  imports Asm_Encode Asm_Operand_Laws
begin

text \<open>
  A reference decoder for the instruction classes the encoder emits, written from the field
  layout of the A64 instruction set and independently of \<^verbatim>\<open>encode.rs\<close>: the class is
  found from the fixed bits, each register field is read with the meaning encoding 31 has in that
  position, and reserved field values give \<open>None\<close>. It is the specification the encoder is
  compared with.
\<close>

abbreviation flag :: "nat \<Rightarrow> u32 \<Rightarrow> bool" where
  "flag n w \<equiv> field n 1 w = 1"

section \<open>Data processing, immediate\<close>

definition dec_mov_wide :: "u32 \<Rightarrow> Inst option" where
  "dec_mov_wide w =
     (let b = flag 31 w; hw = field 21 2 w; opc = field 29 2 w; mk = (\<lambda>op. Some (MovWide op
        (dec_zr b (field 0 5 w)) (ucast (field 5 16 w)) (ucast hw * 16)))
      in if \<not> b \<and> hw > 1 then None
         else if opc = 0 then mk Movn else if opc = 2 then mk Movz
         else if opc = 3 then mk Movk else None)"

definition dec_add_sub_op :: "u32 \<Rightarrow> AddSubOp" where
  "dec_add_sub_op w = (if flag 30 w then Sub else Add)"

definition dec_add_sub_imm :: "u32 \<Rightarrow> Inst option" where
  "dec_add_sub_imm w =
     (let b = flag 31 w; s = flag 29 w
      in Some (AddSubImm (dec_add_sub_op w) s
           ((if s then dec_zr else dec_sp) b (field 0 5 w)) (dec_sp b (field 5 5 w))
           \<lparr>u12_raw = ucast (field 10 12 w), shift12 = flag 22 w\<rparr> AS_None))"

definition dec_logical_imm_op :: "u32 \<Rightarrow> LogicalImmOp" where
  "dec_logical_imm_op opc =
     (if opc = 0 then LI_And else if opc = 1 then LI_Orr else if opc = 2 then LI_Eor else LI_Ands)"

definition dec_logical_imm :: "u32 \<Rightarrow> Inst option" where
  "dec_logical_imm w =
     (let b = flag 31 w; op = dec_logical_imm_op (field 29 2 w); imm = dec_logical b (field 10 13 w)
      in if decode_bitmask (li_n imm) (li_immr imm) (li_imms imm) (reg_bits b) = None then None
         else Some (LogicalImmInst op ((if op = LI_Ands then dec_zr else dec_sp) b (field 0 5 w))
                (dec_zr b (field 5 5 w)) imm LA_None))"

definition dec_bitfield :: "u32 \<Rightarrow> Inst option" where
  "dec_bitfield w =
     (let b = flag 31 w; opc = field 29 2 w; mk = (\<lambda>op. Some (Bitfield op (dec_zr b (field 0 5 w))
        (dec_zr b (field 5 5 w)) (ucast (field 16 6 w)) (ucast (field 10 6 w)) BF_None))
      in if flag 22 w \<noteq> b \<or> (\<not> b \<and> (flag 21 w \<or> flag 15 w)) then None
         else if opc = 0 then mk Sbfm else if opc = 1 then mk Bfm
         else if opc = 2 then mk Ubfm else None)"

definition dec_adr :: "u32 \<Rightarrow> Inst option" where
  "dec_adr w =
     (let off = dec_signed 21 (imm21 (field 29 2 w, field 5 19 w)); rd = dec_zr True (field 0 5 w)
      in if flag 31 w then Some (Adrp rd (AdrpOffset off)) else Some (Adr rd (AdrOffset off)))"

definition dec_dp_imm :: "u32 \<Rightarrow> Inst option" where
  "dec_dp_imm w =
     (let cls = field 23 3 w
      in if field 24 2 w = 0 then dec_adr w
         else if cls = 2 then dec_add_sub_imm w
         else if cls = 4 then dec_logical_imm w
         else if cls = 5 then dec_mov_wide w
         else if cls = 6 then dec_bitfield w
         else None)"

section \<open>Data processing, register\<close>

definition dec_reg_shift :: "u32 \<Rightarrow> RegShift" where
  "dec_reg_shift w = \<lparr>sh_kind = dec_shift (field 22 2 w), sh_amount = ucast (field 10 6 w)\<rparr>"

definition dec_add_sub_shifted :: "u32 \<Rightarrow> Inst option" where
  "dec_add_sub_shifted w =
     (let b = flag 31 w
      in if field 22 2 w = 3 \<or> (\<not> b \<and> flag 15 w) then None
         else Some (AddSubShiftedReg (dec_add_sub_op w) (flag 29 w) (dec_zr b (field 0 5 w))
                (dec_zr b (field 5 5 w)) (dec_zr b (field 16 5 w)) (dec_reg_shift w) AS_None))"

definition dec_add_sub_extended :: "u32 \<Rightarrow> Inst option" where
  "dec_add_sub_extended w =
     (let b = flag 31 w; s = flag 29 w; k = dec_extend (field 13 3 w)
      in if field 22 2 w \<noteq> 0 \<or> field 10 3 w > 4 then None
         else Some (AddSubExtendedReg (dec_add_sub_op w) s
                ((if s then dec_zr else dec_sp) b (field 0 5 w)) (dec_sp b (field 5 5 w))
                (dec_zr (b \<and> (k = Uxtx \<or> k = Sxtx)) (field 16 5 w))
                \<lparr>ex_kind = k, ex_amount = ucast (field 10 3 w)\<rparr> AS_None))"

definition dec_logical_shift_op :: "u32 \<Rightarrow> u32 \<Rightarrow> LogicalShiftOp" where
  "dec_logical_shift_op opc n =
     (if opc = 0 then (if n = 1 then LS_Bic else LS_And)
      else if opc = 1 then (if n = 1 then LS_Orn else LS_Orr)
      else if opc = 2 then (if n = 1 then LS_Eon else LS_Eor)
      else (if n = 1 then LS_Bics else LS_Ands))"

definition dec_logical_shifted :: "u32 \<Rightarrow> Inst option" where
  "dec_logical_shifted w =
     (let b = flag 31 w
      in if \<not> b \<and> flag 15 w then None
         else Some (LogicalShiftedReg (dec_logical_shift_op (field 29 2 w) (field 21 1 w))
                (dec_zr b (field 0 5 w)) (dec_zr b (field 5 5 w)) (dec_zr b (field 16 5 w))
                (dec_reg_shift w) LA_None))"

definition dec_data_proc_2 :: "u32 \<Rightarrow> Inst option" where
  "dec_data_proc_2 w =
     (let b = flag 31 w; opc = field 10 6 w; mk = (\<lambda>op. Some (DataProc2Source op
        (dec_zr b (field 0 5 w)) (dec_zr b (field 5 5 w)) (dec_zr b (field 16 5 w))))
      in if opc = 2 then mk Udiv else if opc = 3 then mk Sdiv else if opc = 8 then mk Lslv
         else if opc = 9 then mk Lsrv else if opc = 10 then mk Asrv
         else if opc = 11 then mk Rorv else None)"

definition dec_data_proc_1 :: "u32 \<Rightarrow> Inst option" where
  "dec_data_proc_1 w =
     (let b = flag 31 w; opc = field 10 6 w; mk = (\<lambda>op. Some (DataProc1Source op
        (dec_zr b (field 0 5 w)) (dec_zr b (field 5 5 w))))
      in if field 16 5 w \<noteq> 0 then None
         else if opc = 0 then mk Rbit else if opc = 4 then mk Clz
         else if (b \<and> opc = 3) \<or> (\<not> b \<and> opc = 2) then mk Rev else None)"

definition dec_data_proc_3 :: "u32 \<Rightarrow> Inst option" where
  "dec_data_proc_3 w =
     (let b = flag 31 w; op31 = field 21 3 w; o0 = field 15 1 w; ra = dec_zr b (field 10 5 w);
          mk = (\<lambda>op. Some (DataProc3Source op (dec_zr b (field 0 5 w)) (dec_zr b (field 5 5 w))
            (dec_zr b (field 16 5 w)) ra False))
      in if op31 = 0 then (if o0 = 0 then mk Madd else mk Msub)
         else if op31 = 2 \<and> o0 = 0 \<and> b \<and> is_zr ra then mk Smulh
         else if op31 = 6 \<and> o0 = 0 \<and> b \<and> is_zr ra then mk Umulh
         else None)"

definition dec_cond_select :: "u32 \<Rightarrow> Inst option" where
  "dec_cond_select w =
     (let b = flag 31 w; opb = field 30 1 w; op2 = field 10 2 w; mk = (\<lambda>op. Some (CondSelect op
        (dec_zr b (field 0 5 w)) (dec_zr b (field 5 5 w)) (dec_zr b (field 16 5 w))
        (Cond (ucast (field 12 4 w))) CS_None))
      in if opb = 0 \<and> op2 = 0 then mk Csel else if opb = 0 \<and> op2 = 1 then mk Csinc
         else if opb = 1 \<and> op2 = 0 then mk Csinv else if opb = 1 \<and> op2 = 1 then mk Csneg
         else None)"

definition dec_dp_reg :: "u32 \<Rightarrow> Inst option" where
  "dec_dp_reg w =
     (let cls = field 24 5 w
      in if cls = 0b01010 then dec_logical_shifted w
         else if cls = 0b01011 then
           (if flag 21 w then dec_add_sub_extended w else dec_add_sub_shifted w)
         else if cls = 0b11011 then (if field 29 2 w = 0 then dec_data_proc_3 w else None)
         else if cls = 0b11010 \<and> field 21 3 w = 0b110 \<and> field 29 2 w = 0 then dec_data_proc_2 w
         else if cls = 0b11010 \<and> field 21 3 w = 0b110 \<and> field 29 2 w = 2 then dec_data_proc_1 w
         else if cls = 0b11010 \<and> field 21 3 w = 0b100 \<and> \<not> flag 29 w then dec_cond_select w
         else None)"

section \<open>Branches and system\<close>

definition dec_branch_reg :: "u32 \<Rightarrow> Inst option" where
  "dec_branch_reg w =
     (let opc = field 21 4 w; rn = dec_zr True (field 5 5 w)
      in if field 10 11 w \<noteq> 0b11111000000 \<or> field 0 5 w \<noteq> 0 then None
         else if opc = 0 then Some (BranchReg rn) else if opc = 1 then Some (BranchLinkReg rn)
         else if opc = 2 then Some (Ret rn) else None)"

definition dec_exception :: "u32 \<Rightarrow> Inst option" where
  "dec_exception w =
     (if field 21 3 w = 1 \<and> field 0 5 w = 0 then Some (SystemInst (Brk (ucast (field 5 16 w))))
      else if field 21 3 w = 0 \<and> field 0 5 w = 1 then Some (SystemInst (Svc (ucast (field 5 16 w))))
      else None)"

definition dec_test_branch :: "u32 \<Rightarrow> Inst option" where
  "dec_test_branch w =
     Some (TestBranch (flag 24 w) (dec_zr (flag 31 w) (field 0 5 w))
       (push_bit 5 (ucast (field 31 1 w)) OR ucast (field 19 5 w)) (dec_branch 14 (field 5 14 w)))"

definition dec_branches :: "u32 \<Rightarrow> Inst option" where
  "dec_branches w =
     (if field 26 5 w = 0b00101 then Some (Branch (flag 31 w) (dec_branch 26 (field 0 26 w)))
      else if field 25 6 w = 0b011010
      then Some (CompareBranch (flag 31 w) (flag 24 w) (dec_zr (flag 31 w) (field 0 5 w))
             (dec_branch 19 (field 5 19 w)))
      else if field 25 6 w = 0b011011 then dec_test_branch w
      else if field 24 8 w = 0b01010100 then
        (if flag 4 w then None
         else Some (BranchCond (Cond (ucast (field 0 4 w))) (dec_branch 19 (field 5 19 w))))
      else if field 25 7 w = 0b1101011 then dec_branch_reg w
      else if field 24 8 w = 0b11010100 then dec_exception w
      else if w = 0xD503201F then Some (SystemInst Nop)
      else None)"

section \<open>Loads and stores\<close>

definition dec_ldst_op :: "u32 \<Rightarrow> u32 \<Rightarrow> LdStOp option" where
  "dec_ldst_op sz opc =
     (if sz = 0 then Some (if opc = 0 then StrB else if opc = 1 then LdrB else LdrSb (opc = 2))
      else if sz = 1 then Some (if opc = 0 then StrH else if opc = 1 then LdrH else LdrSh (opc = 2))
      else if sz = 2 then (if opc = 0 then Some StrW else if opc = 1 then Some LdrW
                           else if opc = 2 then Some LdrSw else None)
      else if opc = 0 then Some StrX else if opc = 1 then Some LdrX else None)"

definition dec_ldst_extend :: "u32 \<Rightarrow> LdStExtend option" where
  "dec_ldst_extend v =
     (if v = 2 then Some LX_Uxtw else if v = 3 then Some LX_Lsl
      else if v = 6 then Some LX_Sxtw else if v = 7 then Some LX_Sxtx else None)"

definition dec_addr_mode :: "nat \<Rightarrow> u32 \<Rightarrow> AddrMode option" where
  "dec_addr_mode sz w =
     (let s9 = Simm9 (dec_signed 9 (field 12 9 w)); cls = field 10 2 w
      in if field 24 2 w = 1 then Some (UnsignedOffset (dec_uscaled sz (field 10 12 w)))
         else if field 24 2 w \<noteq> 0 then None
         else if flag 21 w then
           (if cls = 2
            then map_option (\<lambda>e. AM_RegOffset \<lparr>ro_rm = dec_zr (rm_is64 e) (field 16 5 w),
                   ro_extend = e, ro_shifted = flag 12 w\<rparr>) (dec_ldst_extend (field 13 3 w))
            else None)
         else if cls = 0 then Some (Unscaled s9)
         else if cls = 1 then Some (PostIndex s9)
         else if cls = 3 then Some (PreIndex s9)
         else None)"

definition dec_load_store :: "u32 \<Rightarrow> Inst option" where
  "dec_load_store w =
     (let sz = field 30 2 w; opc = field 22 2 w; rn = dec_sp True (field 5 5 w); rt = field 0 5 w
      in if flag 26 w then
           (if sz \<ge> 2 \<and> opc \<le> 1
            then map_option (FpLoadStoreImm (opc = 1) (dec_fp (sz = 3) rt) rn)
                   (dec_addr_mode (if sz = 3 then 8 else 4) w)
            else None)
         else (case dec_ldst_op sz opc of None \<Rightarrow> None
               | Some op \<Rightarrow> map_option (LoadStoreImm op (dec_zr (rt_is64 op) rt) rn)
                              (dec_addr_mode (access_size op) w)))"

definition dec_load_store_pair :: "u32 \<Rightarrow> Inst option" where
  "dec_load_store_pair w =
     (let opc = field 30 2 w; b = (opc = 2); cls = field 23 3 w;
          mk = (\<lambda>ix. Some (LoadStorePair (flag 22 w) b (dec_zr b (field 0 5 w))
            (dec_zr b (field 10 5 w)) (dec_sp True (field 5 5 w))
            \<lparr>s7_scaled = dec_signed 7 (field 15 7 w), s7_access_size = (if b then 8 else 4)\<rparr> ix))
      in if (opc \<noteq> 0 \<and> opc \<noteq> 2) \<or> flag 26 w then None
         else if cls = 1 then mk PI_PostIndex else if cls = 2 then mk PI_Offset
         else if cls = 3 then mk PI_PreIndex else None)"

definition dec_loads_stores :: "u32 \<Rightarrow> Inst option" where
  "dec_loads_stores w =
     (if field 27 3 w = 0b111 then dec_load_store w
      else if field 27 3 w = 0b101 then dec_load_store_pair w
      else None)"

section \<open>Scalar floating point\<close>

definition dec_fp_1 :: "bool \<Rightarrow> u32 \<Rightarrow> Inst option" where
  "dec_fp_1 d w =
     (let opc = field 15 6 w; mk = (\<lambda>op. Some (FpDataProc1 op (dec_fp d (field 0 5 w)) (dec_fp d (field 5 5 w))))
      in if opc = 0 then mk Fmov else if opc = 1 then mk Fabs else if opc = 2 then mk Fneg
         else if opc = 3 then mk Fsqrt
         else if (d \<and> opc = 4) \<or> (\<not> d \<and> opc = 5)
         then Some (FpConvert (dec_fp (\<not> d) (field 0 5 w)) (dec_fp d (field 5 5 w)))
         else None)"

definition dec_fp_2 :: "bool \<Rightarrow> u32 \<Rightarrow> Inst option" where
  "dec_fp_2 d w =
     (let opc = field 12 4 w; mk = (\<lambda>op. Some (FpDataProc2 op (dec_fp d (field 0 5 w))
        (dec_fp d (field 5 5 w)) (dec_fp d (field 16 5 w))))
      in if opc = 0 then mk Fmul else if opc = 1 then mk Fdiv else if opc = 2 then mk Fadd
         else if opc = 3 then mk Fsub else None)"

definition dec_fp_int :: "bool \<Rightarrow> u32 \<Rightarrow> Inst option" where
  "dec_fp_int d w =
     (let b = flag 31 w; rmode = field 19 2 w; opc = field 16 3 w;
          to_fp = (\<lambda>op. Some (FpIntConvert op (dec_zr b (field 5 5 w)) (dec_fp d (field 0 5 w))));
          to_gp = (\<lambda>op. Some (FpIntConvert op (dec_zr b (field 0 5 w)) (dec_fp d (field 5 5 w))))
      in if rmode = 0 \<and> opc = 2 then to_fp Scvtf else if rmode = 0 \<and> opc = 3 then to_fp Ucvtf
         else if rmode = 3 \<and> opc = 0 then to_gp Fcvtzs else if rmode = 3 \<and> opc = 1 then to_gp Fcvtzu
         else if rmode = 0 \<and> opc = 6 \<and> b = d
         then Some (FpToGp (dec_zr b (field 0 5 w)) (dec_fp d (field 5 5 w)))
         else if rmode = 0 \<and> opc = 7 \<and> b = d
         then Some (GpToFp (dec_fp d (field 0 5 w)) (dec_zr b (field 5 5 w)))
         else None)"

definition dec_fp_scalar :: "bool \<Rightarrow> u32 \<Rightarrow> Inst option" where
  "dec_fp_scalar d w =
     (if flag 31 w \<and> field 10 6 w \<noteq> 0 then None
      else if field 10 2 w = 2 then dec_fp_2 d w
      else if field 10 2 w = 3
      then Some (FpCondSelect (dec_fp d (field 0 5 w)) (dec_fp d (field 5 5 w)) (dec_fp d (field 16 5 w))
             (Cond (ucast (field 12 4 w))))
      else if field 10 3 w = 4 then
        (if field 5 5 w = 0
         then Some (FpImmMove (dec_fp d (field 0 5 w)) (dec_fpimm d (field 13 8 w))) else None)
      else if field 10 6 w = 8 then
        (if field 0 5 w = 0
         then Some (FpCompare (dec_fp d (field 5 5 w)) (dec_fp d (field 16 5 w))) else None)
      else if field 10 5 w = 16 then dec_fp_1 d w
      else if field 10 6 w = 0 then dec_fp_int d w
      else None)"

definition dec_fp_all :: "u32 \<Rightarrow> Inst option" where
  "dec_fp_all w =
     (let d = flag 22 w
      in if flag 23 w \<or> field 29 2 w \<noteq> 0 then None
         else if flag 24 w then
           (if flag 21 w \<or> flag 15 w \<or> flag 31 w then None
            else Some (FpMadd (dec_fp d (field 0 5 w)) (dec_fp d (field 5 5 w))
                   (dec_fp d (field 16 5 w)) (dec_fp d (field 10 5 w))))
         else if flag 21 w then dec_fp_scalar d w
         else None)"

section \<open>The decoder\<close>

definition decode :: "u32 \<Rightarrow> Inst option" where
  "decode w =
     (let op0 = field 25 4 w
      in if field 26 3 w = 0b100 then dec_dp_imm w
         else if field 26 3 w = 0b101 then dec_branches w
         else if op0 = 0b0101 \<or> op0 = 0b1101 then dec_dp_reg w
         else if op0 = 0b1111 then dec_fp_all w
         else if op0 = 0b0100 \<or> op0 = 0b0110 \<or> op0 = 0b1100 \<or> op0 = 0b1110 then dec_loads_stores w
         else if field 16 16 w = 0 then Some (SystemInst (Udf (ucast w)))
         else None)"

end
