(* ===== verification/Asm_Legal.thy ===== *)
theory Asm_Legal
  imports Asm_Inst Asm_Operand_Laws
begin

text \<open>
  What the instruction constructors establish and what they leave to their caller.
  \<open>inst_ok\<close> is the type invariant of \<^verbatim>\<open>Inst\<close>: well-formed operands and every cross-operand check
  of \<^verbatim>\<open>inst.rs\<close> and \<^verbatim>\<open>fp.rs\<close>; every public constructor establishes it (\<open>constructed_ok\<close>).
  \<open>arch_legal\<close> collects the conditions the architecture imposes and no constructor checks: an
  operand type validated for another instruction class, and encoding 31 used with the meaning it
  does not have in that field. \<open>canonical\<close> forgets what the instruction word does not hold: the
  alias, and the width of a \<^verbatim>\<open>TBZ\<close> register, which follows from the bit number.
\<close>

section \<open>The invariant of constructed instructions\<close>

definition regs_ok :: "Reg list \<Rightarrow> bool" where
  "regs_ok rs \<longleftrightarrow> list_all wf_reg rs"

definition no_sp :: "Reg list \<Rightarrow> bool" where
  "no_sp rs \<longleftrightarrow> list_all (\<lambda>r. \<not> is_sp r) rs"

definition same_width :: "Reg list \<Rightarrow> bool" where
  "same_width rs \<longleftrightarrow> list_all (\<lambda>r. is64 r = is64 (hd rs)) rs"

definition fps_ok :: "FpReg list \<Rightarrow> bool" where
  "fps_ok rs \<longleftrightarrow> list_all wf_fpreg rs \<and> list_all (\<lambda>r. is_double r = is_double (hd rs)) rs"

definition branch_ok :: "BranchOffset \<Rightarrow> bool" where
  "branch_ok off \<longleftrightarrow> 0 < bo_bits off \<and> bo_bits off < 64 \<and> wf_branch (bo_bits off) off"

fun mode_ok :: "AddrMode \<Rightarrow> bool" where
  "mode_ok (UnsignedOffset i) = wf_uscaled (us_access_size i) i"
| "mode_ok (Unscaled i) = wf_simm9 i"
| "mode_ok (PreIndex i) = wf_simm9 i"
| "mode_ok (PostIndex i) = wf_simm9 i"
| "mode_ok (AM_RegOffset ro) = (wf_reg (ro_rm ro) \<and> is64 (ro_rm ro) = rm_is64 (ro_extend ro))"

definition shift_max :: "Reg \<Rightarrow> u8" where
  "shift_max r = (if is64 r then 63 else 31)"

fun inst_ok :: "Inst \<Rightarrow> bool" where
  "inst_ok (MovWide op rd imm16 shift) =
     (regs_ok [rd] \<and> shift mod 16 = 0 \<and> shift \<le> (if is64 rd then 48 else 16))"
| "inst_ok (AddSubImm op s rd rn imm _) =
     (regs_ok [rd, rn] \<and> same_width [rd, rn] \<and> wf_uimm12 imm \<and> \<not> is_zr rn
      \<and> (if s then \<not> is_sp rd else \<not> is_zr rd))"
| "inst_ok (AddSubShiftedReg op s rd rn rm shift _) =
     (regs_ok [rd, rn, rm] \<and> same_width [rd, rn, rm] \<and> no_sp [rd, rn, rm]
      \<and> wf_shift True shift \<and> sh_kind shift \<noteq> Ror)"
| "inst_ok (AddSubExtendedReg op s rd rn rm ext _) =
     (regs_ok [rd, rn, rm] \<and> same_width [rd, rn] \<and> no_sp [rm] \<and> wf_extend ext
      \<and> is64 rm = (ex_kind ext = Uxtx \<or> ex_kind ext = Sxtx) \<and> (is64 rm \<longrightarrow> is64 rd))"
| "inst_ok (LogicalImmInst op rd rn imm _) =
     (regs_ok [rd, rn] \<and> same_width [rd, rn] \<and> no_sp [rn] \<and> wf_logical (is64 rd) imm
      \<and> (op = LI_Ands \<longrightarrow> \<not> is_sp rd))"
| "inst_ok (LogicalShiftedReg op rd rn rm shift _) =
     (regs_ok [rd, rn, rm] \<and> same_width [rd, rn, rm] \<and> no_sp [rd, rn, rm] \<and> wf_shift True shift)"
| "inst_ok (Bitfield op rd rn immr imms _) =
     (regs_ok [rd, rn] \<and> same_width [rd, rn] \<and> no_sp [rd, rn]
      \<and> immr \<le> shift_max rd \<and> imms \<le> shift_max rd)"
| "inst_ok (DataProc2Source op rd rn rm) =
     (regs_ok [rd, rn, rm] \<and> same_width [rd, rn, rm] \<and> no_sp [rd, rn, rm])"
| "inst_ok (DataProc3Source op rd rn rm ra _) =
     (regs_ok [rd, rn, rm, ra] \<and> same_width [rd, rn, rm, ra] \<and> no_sp [ra]
      \<and> (op = Smulh \<or> op = Umulh \<longrightarrow> is64 rd \<and> ra = reg_xzr))"
| "inst_ok (DataProc1Source op rd rn) =
     (regs_ok [rd, rn] \<and> same_width [rd, rn] \<and> no_sp [rd, rn])"
| "inst_ok (CondSelect op rd rn rm cond _) =
     (regs_ok [rd, rn, rm] \<and> same_width [rd, rn, rm] \<and> no_sp [rd, rn, rm] \<and> wf_cond cond)"
| "inst_ok (Adr rd offset) = (regs_ok [rd] \<and> is64 rd \<and> wf_adr offset)"
| "inst_ok (Adrp rd offset) = (regs_ok [rd] \<and> is64 rd \<and> wf_adrp offset)"
| "inst_ok (Branch link offset) = branch_ok offset"
| "inst_ok (BranchCond cond offset) = (wf_cond cond \<and> branch_ok offset)"
| "inst_ok (CompareBranch b nz rt offset) = (regs_ok [rt] \<and> b = is64 rt \<and> branch_ok offset)"
| "inst_ok (TestBranch nz rt bt offset) = (regs_ok [rt] \<and> bt \<le> shift_max rt \<and> branch_ok offset)"
| "inst_ok (BranchReg rn) = (regs_ok [rn] \<and> is64 rn)"
| "inst_ok (BranchLinkReg rn) = (regs_ok [rn] \<and> is64 rn)"
| "inst_ok (Ret rn) = (regs_ok [rn] \<and> is64 rn)"
| "inst_ok (LoadStoreImm op rt rn mode) =
     (regs_ok [rt, rn] \<and> is64 rt = rt_is64 op \<and> \<not> is_zr rn \<and> is64 rn \<and> mode_ok mode
      \<and> \<not> (addr_writeback mode \<and> reg_encoding rt = reg_encoding rn))"
| "inst_ok (LoadStorePair is_load b rt1 rt2 rn imm index) =
     (regs_ok [rt1, rt2, rn] \<and> same_width [rt1, rt2] \<and> b = is64 rt1 \<and> is64 rn
      \<and> wf_simm7 (s7_access_size imm) imm
      \<and> (index \<noteq> PI_Offset \<longrightarrow>
           reg_encoding rt1 \<noteq> reg_encoding rn \<and> reg_encoding rt2 \<noteq> reg_encoding rn)
      \<and> (is_load \<longrightarrow> reg_encoding rt1 \<noteq> reg_encoding rt2))"
| "inst_ok (FpLoadStoreImm is_load rt rn mode) =
     (fps_ok [rt] \<and> regs_ok [rn] \<and> is64 rn \<and> mode_ok mode)"
| "inst_ok (SystemInst op) = True"
| "inst_ok (FpDataProc1 op rd rn) = fps_ok [rd, rn]"
| "inst_ok (FpConvert rd rn) = (fps_ok [rd] \<and> fps_ok [rn] \<and> is_double rd \<noteq> is_double rn)"
| "inst_ok (FpDataProc2 op rd rn rm) = fps_ok [rd, rn, rm]"
| "inst_ok (FpCompare rn rm) = fps_ok [rn, rm]"
| "inst_ok (FpCondSelect rd rn rm cond) = (fps_ok [rd, rn, rm] \<and> wf_cond cond)"
| "inst_ok (FpImmMove rd imm) = (fps_ok [rd] \<and> wf_fpimm (is_double rd) imm)"
| "inst_ok (FpToGp rd rn) = (regs_ok [rd] \<and> fps_ok [rn] \<and> is64 rd = is_double rn)"
| "inst_ok (GpToFp rd rn) = (fps_ok [rd] \<and> regs_ok [rn] \<and> is64 rn = is_double rd)"
| "inst_ok (FpIntConvert op gp fp) = (regs_ok [gp] \<and> fps_ok [fp])"
| "inst_ok (FpMadd rd rn rm ra) = fps_ok [rd, rn, rm, ra]"

section \<open>What the constructors leave to the caller\<close>

fun mode_legal :: "nat \<Rightarrow> AddrMode \<Rightarrow> bool" where
  "mode_legal sz (UnsignedOffset i) = (us_access_size i = sz)"
| "mode_legal sz (AM_RegOffset ro) = (\<not> is_sp (ro_rm ro))"
| "mode_legal sz _ = True"

fun arch_legal :: "Inst \<Rightarrow> bool" where
  "arch_legal (MovWide op rd imm16 shift) = (\<not> is_sp rd)"
| "arch_legal (AddSubShiftedReg op s rd rn rm shift _) = wf_shift (is64 rd) shift"
| "arch_legal (AddSubExtendedReg op s rd rn rm ext _) =
     (\<not> is_zr rn \<and> (if s then \<not> is_sp rd else \<not> is_zr rd))"
| "arch_legal (LogicalImmInst op rd rn imm _) = (op \<noteq> LI_Ands \<longrightarrow> \<not> is_zr rd)"
| "arch_legal (LogicalShiftedReg op rd rn rm shift _) = wf_shift (is64 rd) shift"
| "arch_legal (DataProc3Source op rd rn rm ra _) = no_sp [rd, rn, rm]"
| "arch_legal (Adr rd offset) = (\<not> is_sp rd)"
| "arch_legal (Adrp rd offset) = (\<not> is_sp rd)"
| "arch_legal (Branch link offset) = (bo_bits offset = 26)"
| "arch_legal (BranchCond cond offset) = (bo_bits offset = 19)"
| "arch_legal (CompareBranch b nz rt offset) = (\<not> is_sp rt \<and> bo_bits offset = 19)"
| "arch_legal (TestBranch nz rt bt offset) = (\<not> is_sp rt \<and> bo_bits offset = 14)"
| "arch_legal (BranchReg rn) = (\<not> is_sp rn)"
| "arch_legal (BranchLinkReg rn) = (\<not> is_sp rn)"
| "arch_legal (Ret rn) = (\<not> is_sp rn)"
| "arch_legal (LoadStoreImm op rt rn mode) = (\<not> is_sp rt \<and> mode_legal (access_size op) mode)"
| "arch_legal (LoadStorePair is_load b rt1 rt2 rn imm index) =
     (no_sp [rt1, rt2] \<and> \<not> is_zr rn \<and> s7_access_size imm = (if b then 8 else 4))"
| "arch_legal (FpLoadStoreImm is_load rt rn mode) =
     (\<not> is_zr rn \<and> mode_legal (if is_double rt then 8 else 4) mode)"
| "arch_legal (FpToGp rd rn) = (\<not> is_sp rd)"
| "arch_legal (GpToFp rd rn) = (\<not> is_sp rn)"
| "arch_legal (FpIntConvert op gp fp) = (\<not> is_sp gp)"
| "arch_legal _ = True"

fun canonical :: "Inst \<Rightarrow> Inst" where
  "canonical (AddSubImm op s rd rn imm _) = AddSubImm op s rd rn imm AS_None"
| "canonical (AddSubShiftedReg op s rd rn rm shift _) = AddSubShiftedReg op s rd rn rm shift AS_None"
| "canonical (AddSubExtendedReg op s rd rn rm ext _) = AddSubExtendedReg op s rd rn rm ext AS_None"
| "canonical (LogicalImmInst op rd rn imm _) = LogicalImmInst op rd rn imm LA_None"
| "canonical (LogicalShiftedReg op rd rn rm shift _) = LogicalShiftedReg op rd rn rm shift LA_None"
| "canonical (Bitfield op rd rn immr imms _) = Bitfield op rd rn immr imms BF_None"
| "canonical (DataProc3Source op rd rn rm ra _) = DataProc3Source op rd rn rm ra False"
| "canonical (CondSelect op rd rn rm cond _) = CondSelect op rd rn rm cond CS_None"
| "canonical (TestBranch nz rt bt offset) = TestBranch nz (with64 rt (bt \<ge> 32)) bt offset"
| "canonical i = i"

end
