(* ===== verification/Asm_Correct.thy ===== *)
theory Asm_Correct
  imports Asm_Decode Asm_Legal
begin

text \<open>
  The encoder against the reference decoder, one lemma per instruction class: on a well-formed
  and legal instruction the word \<^verbatim>\<open>encode\<close> produces decodes to that instruction. The proofs
  evaluate the fields of the packed word with \<open>field_rules\<close> and the operand widths in \<open>fits_rules\<close>.
\<close>

section \<open>Widths of the packed operands\<close>

lemma fits_sf [fits_rules]: "fits 1 (sf r)"
  by (simp add: sf_def fits_def)

lemma fits_ucast_u16 [fits_rules]: "fits 16 (ucast (v :: u16))"
  by (rule fits_of_unat) (use unsigned_less [of v] in simp)

lemma fits_add_sub_opbit [fits_rules]: "fits 1 (add_sub_opbit op)"
  by (simp add: add_sub_opbit_def fits_def)

lemma fits_u8_6 [fits_rules]: "x \<le> 63 \<Longrightarrow> fits 6 (ucast (x :: u8))"
  by (rule fits_of_unat) (simp add: word_le_nat_alt)

lemma fits_u8_5 [fits_rules]: "x \<le> 31 \<Longrightarrow> fits 5 (ucast (x :: u8))"
  by (rule ucast_u8_fits)

lemma fits_and_1 [fits_rules]: "fits 1 (x AND 1)"
  by (auto simp: fits_iff_bit bit_simps)

lemma fits_and_31 [fits_rules]: "fits 5 (x AND 0x1F)"
  using fits_and_mask [of 5 x] by (simp add: mask_eq_exp_minus_1)

lemma fits_ldst_option [fits_rules]: "fits 3 (ldst_option e)"
  by (cases e) (simp_all add: fits_def)

lemma fits_fpimm_encoding [fits_rules]: "fits 8 (fpimm_encoding i)"
  unfolding fpimm_encoding_def by (rule fits_of_unat) (simp add: u8_less_256)

lemma fits_branch [fits_rules]: "wf_branch n off \<Longrightarrow> fits n (branch_offset_encoding off)"
  by (simp add: wf_branch_def branch_encoding_mask fits_and_mask)

lemmas fits_imms [fits_rules] = simm9.wf_fits
lemmas fits_uscaled [fits_rules] = validated.axioms(1) [OF uscaled_validated, THEN immediate.wf_fits]
lemmas fits_simm7 [fits_rules] = validated.axioms(1) [OF simm7_validated, THEN immediate.wf_fits]

lemma fits_adr [fits_rules]:
  "fits 2 (fst (adr_encoding off))" "fits 19 (snd (adr_encoding off))"
  "fits 2 (fst (adrp_encoding off'))" "fits 19 (snd (adrp_encoding off'))"
proof -
  have m: "(0b11 :: u32) = mask 2" by (simp add: mask_eq_exp_minus_1)
  show "fits 2 (fst (adr_encoding off))" "fits 2 (fst (adrp_encoding off'))"
    unfolding adr_encoding_def adrp_encoding_def m Let_def by (simp_all add: fits_and_mask)
  have "fits 19 (drop_bit 2 (x AND 0x1FFFFF))" for x :: u32
    unfolding low_masks by (auto simp: fits_iff_bit bit_simps)
  then show "fits 19 (snd (adr_encoding off))" "fits 19 (snd (adrp_encoding off'))"
    unfolding adr_encoding_def adrp_encoding_def Let_def by simp_all
qed

lemmas fields =
  field_rules fits_rules [THEN fits_field_high] fits_rules [THEN fits_field_self]

section \<open>Operands rebuilt from their fields\<close>

lemma uimm12_eta [simp]: "\<lparr>u12_raw = ucast (uimm12_raw i), shift12 = shift12 i\<rparr> = i"
  by (simp add: uimm12_raw_def)

lemma shift_eta [simp]: "\<lparr>sh_kind = sh_kind s, sh_amount = ucast (shift_amount s)\<rparr> = s"
  by (simp add: shift_amount_def)

lemma shift_amount_high: "wf_shift b s \<Longrightarrow> b \<or> field 5 1 (shift_amount s) = 0"
  by (cases b) (simp_all add: shift_amount_def wf_shift_def ucast_u8_fits [THEN fits_field_high])

lemma extend_eta [simp]: "\<lparr>ex_kind = ex_kind e, ex_amount = ucast (extend_amount e)\<rparr> = e"
  by (simp add: extend_amount_def)

lemma extend_amount_le [simp]: "wf_extend e \<Longrightarrow> extend_amount e \<le> 4"
  by (simp add: extend_amount_def wf_extend_def word_le_nat_alt)

lemma sf_eq_1 [simp]: "sf r = 1 \<longleftrightarrow> is64 r"
  by (simp add: sf_def)

lemma add_sub_opbit_simps [simp]: "add_sub_opbit Sub = 1" "add_sub_opbit Add = 0"
  by (simp_all add: add_sub_opbit_def)

lemma shift_encoding_eq_3 [simp]: "shift_encoding k = 3 \<longleftrightarrow> k = Ror"
  by (cases k) simp_all

lemma dec_zr_with64: "wf_reg r \<Longrightarrow> \<not> is_sp r \<Longrightarrow> dec_zr b (reg_encoding r) = with64 r b"
  by (auto simp: dec_zr_def with64_def reg_encoding_def wf_reg_def is_sp_def)

lemma field_field: "lo + n \<le> m \<Longrightarrow> field lo n (field k m w) = field (k + lo) n w"
  by (rule bit_word_eqI) (auto simp: bit_simps add.assoc)

lemmas list_conds = regs_ok_def no_sp_def same_width_def fps_ok_def shift_max_def

section \<open>Data processing, immediate\<close>

lemmas dp_imm = decode_def dec_dp_imm_def Let_def

lemma decode_add_sub_imm:
  assumes "inst_ok (AddSubImm op s rd rn imm a)"
  shows "decode (enc_add_sub_imm op s rd rn imm) = Some (AddSubImm op s rd rn imm AS_None)"
  unfolding enc_add_sub_imm_def using assms
  by (cases op; cases s)
    (simp_all add: fields dp_imm dec_add_sub_imm_def dec_add_sub_op_def list_conds)

lemma multiple_16_cases:
  assumes "(x :: u8) mod 16 = 0" and "x \<le> 48"
  shows "x = 0 \<or> x = 16 \<or> x = 32 \<or> x = 48"
proof -
  from assms have "unat x mod 16 = 0" "unat x \<le> 48"
    by (simp_all add: word_le_nat_alt word_unat_eq_iff unat_mod)
  then have "unat x = 0 \<or> unat x = 16 \<or> unat x = 32 \<or> unat x = 48" by presburger
  then show ?thesis by (simp add: word_unat_eq_iff)
qed

lemma decode_mov_wide:
  assumes "inst_ok (MovWide op rd imm16 shift)" "arch_legal (MovWide op rd imm16 shift)"
  shows "decode (enc_mov_wide op rd imm16 shift) = Some (MovWide op rd imm16 shift)"
proof -
  have "shift \<le> 48" using assms(1) by (auto intro: order_trans split: if_splits)
  then have "shift = 0 \<or> shift = 16 \<or> shift = 32 \<or> shift = 48"
    using assms(1) multiple_16_cases by simp
  then show ?thesis unfolding enc_mov_wide_def using assms
    by (elim disjE; cases op)
      (simp_all add: fields dp_imm dec_mov_wide_def list_conds split: if_splits)
qed

lemma dec_logical_cong:
  assumes "field 12 1 v = field 12 1 v'" "field 6 6 v = field 6 6 v'" "field 0 6 v = field 0 6 v'"
  shows "dec_logical b v = dec_logical b v'"
  unfolding dec_logical_def assms ..

lemma decode_logical_imm:
  assumes "inst_ok (LogicalImmInst op rd rn imm a)" "arch_legal (LogicalImmInst op rd rn imm a)"
  shows "decode (enc_logical_imm op rd rn imm) = Some (LogicalImmInst op rd rn imm LA_None)"
proof -
  have wf: "wf_logical (is64 rd) imm" "wf_reg rd" "wf_reg rn" using assms(1) by (simp_all add: list_conds)
  let ?w = "enc_logical_imm op rd rn imm"
  have "dec_logical (is64 rd) (field 10 13 ?w) = dec_logical (is64 rd) (logical_field imm)"
    using wf by (intro dec_logical_cong; cases op)
      (simp_all add: enc_logical_imm_def logical_field_def field_field fields)
  also have "\<dots> = imm"
    using immediate.dec_enc [OF validated.axioms(1) [OF logical_validated] wf(1)] .
  finally have imm: "dec_logical (is64 rd) (field 10 13 ?w) = imm" .
  have "field 26 3 ?w = 4" "field 24 2 ?w = 2" "field 23 3 ?w = 4" "field 31 1 ?w = sf rd" "field 0 5 ?w = reg_encoding rd"
    "field 5 5 ?w = reg_encoding rn" "field 29 2 ?w = logical_imm_opc op"
    using wf by (cases op; simp add: enc_logical_imm_def fields)+
  with imm show ?thesis using assms wf_logical_triple(1) [OF wf(1)]
    by (cases op) (simp_all add: dp_imm dec_logical_imm_def dec_logical_imm_op_def list_conds)
qed

lemma decode_bitfield:
  assumes "inst_ok (Bitfield op rd rn immr imms a)"
  shows "decode (enc_bitfield op rd rn immr imms) = Some (Bitfield op rd rn immr imms BF_None)"
  unfolding enc_bitfield_def using assms
  by (cases op; cases "is64 rd") (simp_all add: fields dp_imm dec_bitfield_def list_conds)

lemma decode_adr:
  assumes "inst_ok (Adr rd offset)" "arch_legal (Adr rd offset)"
  shows "decode (enc_adr rd offset) = Some (Adr rd offset)"
  using assms adr.dec_enc [of offset]
  by (simp add: enc_adr_def split_beta fields dp_imm dec_adr_def list_conds)

lemma decode_adrp:
  assumes "inst_ok (Adrp rd offset)" "arch_legal (Adrp rd offset)"
  shows "decode (enc_adrp rd offset) = Some (Adrp rd offset)"
  using assms adrp.dec_enc [of offset]
  by (simp add: enc_adrp_def split_beta fields dp_imm dec_adr_def list_conds)

section \<open>Data processing, register\<close>

lemmas dp_reg = decode_def dec_dp_reg_def Let_def

lemma decode_add_sub_shifted:
  assumes "inst_ok (AddSubShiftedReg op s rd rn rm shift a)"
    "arch_legal (AddSubShiftedReg op s rd rn rm shift a)"
  shows "decode (enc_add_sub_shifted_reg op s rd rn rm shift) =
    Some (AddSubShiftedReg op s rd rn rm shift AS_None)"
  unfolding enc_add_sub_shifted_reg_def using assms shift_amount_high [of "is64 rd" shift]
  by (cases op) (auto simp: fields dp_reg dec_add_sub_shifted_def
      dec_add_sub_op_def dec_reg_shift_def list_conds)

lemma decode_add_sub_extended:
  assumes "inst_ok (AddSubExtendedReg op s rd rn rm ext a)"
    "arch_legal (AddSubExtendedReg op s rd rn rm ext a)"
  shows "decode (enc_add_sub_extended_reg op s rd rn rm ext) =
    Some (AddSubExtendedReg op s rd rn rm ext AS_None)"
  unfolding enc_add_sub_extended_reg_def using assms
  by (cases op; cases s; cases "is64 rm") (simp_all add: fields dp_reg dec_add_sub_extended_def
      dec_add_sub_op_def not_less list_conds)

lemma decode_logical_shifted:
  assumes "inst_ok (LogicalShiftedReg op rd rn rm shift a)"
    "arch_legal (LogicalShiftedReg op rd rn rm shift a)"
  shows "decode (enc_logical_shifted_reg op rd rn rm shift) =
    Some (LogicalShiftedReg op rd rn rm shift LA_None)"
  unfolding enc_logical_shifted_reg_def using assms shift_amount_high [of "is64 rd" shift]
  by (cases op) (auto simp: fields dp_reg dec_logical_shifted_def
      dec_logical_shift_op_def dec_reg_shift_def list_conds)

lemma decode_data_proc_2:
  assumes "inst_ok (DataProc2Source op rd rn rm)"
  shows "decode (enc_data_proc_2 op rd rn rm) = Some (DataProc2Source op rd rn rm)"
  unfolding enc_data_proc_2_def using assms
  by (cases op) (simp_all add: fields dp_reg dec_data_proc_2_def list_conds)

lemma decode_data_proc_3:
  assumes "inst_ok (DataProc3Source op rd rn rm ra a)" "arch_legal (DataProc3Source op rd rn rm ra a)"
  shows "decode (enc_data_proc_3 op rd rn rm ra) = Some (DataProc3Source op rd rn rm ra False)"
  unfolding enc_data_proc_3_def using assms
  by (cases op) (simp_all add: fields dp_reg dec_data_proc_3_def list_conds)

lemma decode_data_proc_1:
  assumes "inst_ok (DataProc1Source op rd rn)"
  shows "decode (enc_data_proc_1 op rd rn) = Some (DataProc1Source op rd rn)"
  unfolding enc_data_proc_1_def using assms
  by (cases op; cases "is64 rd") (simp_all add: fields dp_reg dec_data_proc_1_def list_conds)

lemma decode_cond_select:
  assumes "inst_ok (CondSelect op rd rn rm cond a)"
  shows "decode (enc_cond_select op rd rn rm cond) = Some (CondSelect op rd rn rm cond CS_None)"
  unfolding enc_cond_select_def using assms
  by (cases op) (simp_all add: fields dp_reg dec_cond_select_def list_conds)

section \<open>Branches and system\<close>

lemmas branches = decode_def dec_branches_def Let_def

lemma branch_okD: "branch_ok off \<Longrightarrow> bo_bits off = n \<Longrightarrow> wf_branch n off"
  by (auto simp: branch_ok_def)

lemma dec_branch_encoding [simp]:
  "wf_branch n off \<Longrightarrow> 0 < n \<Longrightarrow> n \<le> 32 \<Longrightarrow> dec_branch n (branch_offset_encoding off) = off"
  using immediate.dec_enc [OF validated.axioms(1) [OF branch_immediate]] by blast

lemma decode_branch:
  assumes "inst_ok (Branch link off)" "arch_legal (Branch link off)"
  shows "decode (enc_branch link off) = Some (Branch link off)"
  unfolding enc_branch_def using assms branch_okD [of off 26]
  by (simp add: fields branches)

lemma decode_branch_cond:
  assumes "inst_ok (BranchCond cond off)" "arch_legal (BranchCond cond off)"
  shows "decode (enc_branch_cond cond off) = Some (BranchCond cond off)"
  unfolding enc_branch_cond_def using assms branch_okD [of off 19]
  by (simp add: fields branches)

lemma decode_compare_branch:
  assumes "inst_ok (CompareBranch b nz rt off)" "arch_legal (CompareBranch b nz rt off)"
  shows "decode (enc_compare_branch b nz rt off) = Some (CompareBranch b nz rt off)"
  unfolding enc_compare_branch_def using assms branch_okD [of off 19]
  by (simp add: fields branches list_conds)

lemma test_bit_split:
  assumes "(bt :: u8) \<le> 63"
  shows "push_bit 5 (ucast (ucast (drop_bit 5 bt) AND (1 :: u32))) OR ucast (ucast bt AND (0x1F :: u32)) = bt"
proof (rule bit_word_eqI)
  fix n assume "n < LENGTH(8)"
  have m: "(0x1F :: u32) = mask 5" by (simp add: mask_eq_exp_minus_1)
  have "fits 6 (ucast bt)" using assms by (rule fits_u8_6)
  then have high: "bit bt i \<Longrightarrow> i < 6" for i
    using bit_imp_le_length [of bt i] by (auto simp: fits_iff_bit bit_simps)
  show "bit (push_bit 5 (ucast (ucast (drop_bit 5 bt) AND (1 :: u32))) OR ucast (ucast bt AND (0x1F :: u32)) :: u8) n
    = bit bt n"
    using high [of n] \<open>n < LENGTH(8)\<close> unfolding m
    by (cases "n = 5") (auto simp: bit_simps)
qed

lemma test_bit_high:
  assumes "(bt :: u8) \<le> 63"
  shows "ucast (drop_bit 5 bt) AND 1 = (1 :: u32) \<longleftrightarrow> bt \<ge> 32"
proof -
  have "ucast (drop_bit 5 bt) AND 1 = (1 :: u32) \<longleftrightarrow> bit (ucast (drop_bit 5 bt) :: u32) 0"
    by (simp add: and_one_eq bit_0 odd_iff_mod_2_eq_one)
  also have "\<dots> \<longleftrightarrow> bit (unat bt) 5"
    by (simp add: bit_simps)
  also have "\<dots> \<longleftrightarrow> unat bt \<ge> 32"
  proof -
    have "unat bt \<le> 63" using assms by (simp add: word_le_nat_alt)
    then have "odd (unat bt div 32) \<longleftrightarrow> unat bt \<ge> 32" by presburger
    then show ?thesis by (simp add: bit_iff_odd)
  qed
  finally show ?thesis by (simp add: word_le_nat_alt)
qed

lemma decode_test_branch:
  assumes "inst_ok (TestBranch nz rt bt off)" "arch_legal (TestBranch nz rt bt off)"
  shows "decode (enc_test_branch nz rt bt off) = Some (TestBranch nz (with64 rt (bt \<ge> 32)) bt off)"
proof -
  have "bt \<le> 63" using assms(1) by (auto simp: list_conds intro: order_trans split: if_splits)
  note split = test_bit_split [OF this] test_bit_high [OF this]
  define b5 b40 :: u32 where b: "b5 = ucast (drop_bit 5 bt) AND 1" "b40 = ucast bt AND 0x1F"
  define w where "w = enc_test_branch nz rt bt off"
  note fs = fits_and_1 [of "ucast (drop_bit 5 bt)", folded b] fits_and_31 [of "ucast bt", folded b]
  have "wf_branch 14 off" "wf_reg rt" using assms branch_okD [of off 14] by (simp_all add: list_conds)
  then have "field 26 3 w = 5" "field 26 5 w = 0b01101" "field 25 6 w = 0b011011" "field 31 1 w = b5"
    "field 24 1 w = of_bool nz" "field 19 5 w = b40" "field 5 14 w = branch_offset_encoding off"
    "field 0 5 w = reg_encoding rt"
    unfolding w_def enc_test_branch_def Let_def b [symmetric]
    by (simp_all add: fields fs [THEN fits_field_high] fs [THEN fits_field_self])
  then show ?thesis unfolding w_def [symmetric] using assms branch_okD [of off 14]
    by (simp add: branches dec_test_branch_def list_conds dec_zr_with64 split [folded b])
qed

lemma decode_branch_reg:
  assumes "inst_ok (BranchReg rn)" "\<not> is_sp rn"
  shows "decode (enc_branch_reg rn) = Some (BranchReg rn)"
    and "decode (enc_branch_link_reg rn) = Some (BranchLinkReg rn)"
    and "decode (enc_ret rn) = Some (Ret rn)"
  using assms by (simp_all add: enc_branch_reg_def enc_branch_link_reg_def enc_ret_def fields branches
      dec_branch_reg_def list_conds)

lemma decode_system: "decode (enc_system op) = Some (SystemInst op)"
  by (cases op) (simp_all add: fields branches dec_exception_def)

section \<open>Loads and stores\<close>

lemma common_fields:
  assumes "fits 2 sz" "v = 0 \<or> v = 1" "fits 2 opc" "fits 5 rt" "wf_reg rn" "mode_ok mode"
  defines "w \<equiv> encode_load_store_common sz v opc rt rn mode"
  shows "field 26 3 w = (if v = 1 then 7 else 6)" "field 25 4 w = (if v = 1 then 14 else 12)"
    "field 27 3 w = 0b111" "field 30 2 w = sz" "field 26 1 w = v" "field 22 2 w = opc"
    "field 5 5 w = reg_encoding rn" "field 0 5 w = rt"
  using assms(1-6) unfolding w_def
  by (cases mode; auto simp: fields assms(1,3,4) [THEN fits_field_high] assms(1,3,4) [THEN fits_field_self])+

lemma dec_ldst_extend_option [simp]: "dec_ldst_extend (ldst_option e) = Some e"
  by (cases e) (simp_all add: dec_ldst_extend_def)

lemma dec_uscaled_encoding [simp]: "wf_uscaled n i \<Longrightarrow> dec_uscaled n (uscaled_encoding i) = i"
  by (rule immediate.dec_enc [OF validated.axioms(1) [OF uscaled_validated]])

lemma decode_addr_mode:
  assumes "fits 2 sz" "v = 0 \<or> v = 1" "fits 2 opc" "fits 5 rt" "wf_reg rn" "mode_ok mode"
    "mode_legal n mode"
  shows "dec_addr_mode n (encode_load_store_common sz v opc rt rn mode) = Some mode"
  using assms
  by (cases mode) (auto simp: fields assms(1,3,4) [THEN fits_field_high]
      assms(1,3,4) [THEN fits_field_self] dec_addr_mode_def Let_def simm9.dec_enc)

lemma decode_common:
  assumes "fits 2 sz" "v = 0 \<or> v = 1" "fits 2 opc" "fits 5 rt" "wf_reg rn" "mode_ok mode"
  defines "w \<equiv> encode_load_store_common sz v opc rt rn mode"
  shows "decode w = dec_load_store w"
  using common_fields [OF assms(1-6), folded w_def] assms(2)
  by (auto simp: decode_def Let_def dec_loads_stores_def)

lemma decode_load_store_gp:
  assumes "inst_ok (LoadStoreImm op rt rn mode)" "arch_legal (LoadStoreImm op rt rn mode)"
  shows "decode (encode_load_store_gp op rt rn mode) = Some (LoadStoreImm op rt rn mode)"
proof -
  obtain sz opc where so: "size_opc op = (sz, opc)" by fastforce
  have dec: "dec_ldst_op sz opc = Some op"
    using so by (cases op rule: size_opc.cases) (auto simp: dec_ldst_op_def)
  have "fits 2 sz" "fits 2 opc"
    using so by (cases op rule: size_opc.cases; auto simp: fits_def)+
  then have f: "fits 2 sz" "0 = (0 :: u32) \<or> 0 = (1 :: u32)" "fits 2 opc"
    "fits 5 (reg_encoding rt)" "wf_reg rn" "mode_ok mode"
    using assms by (simp_all add: list_conds fits_reg_encoding)
  show ?thesis
    using assms decode_common [OF f] common_fields [OF f] decode_addr_mode [OF f]
    by (simp add: encode_load_store_gp_def so dec_load_store_def Let_def dec list_conds)
qed

lemma decode_load_store_fp:
  assumes "inst_ok (FpLoadStoreImm is_load rt rn mode)" "arch_legal (FpLoadStoreImm is_load rt rn mode)"
  shows "decode (encode_load_store_fp is_load rt rn mode) = Some (FpLoadStoreImm is_load rt rn mode)"
proof -
  define sz opc :: u32 where so: "sz = (if is_double rt then 0b11 else 0b10)"
    "opc = (if is_load then 0b01 else 0b00)"
  then have "fits 2 sz" "fits 2 opc" by (simp_all add: fits_def)
  then have f: "fits 2 sz" "1 = (0 :: u32) \<or> 1 = (1 :: u32)" "fits 2 opc"
    "fits 5 (fpreg_encoding rt)" "wf_reg rn" "mode_ok mode"
    using assms by (simp_all add: list_conds fits_fpreg_encoding)
  show ?thesis
    using assms decode_common [OF f] common_fields [OF f] decode_addr_mode [OF f]
    by (cases "is_double rt"; cases is_load)
      (simp_all add: encode_load_store_fp_def so dec_load_store_def Let_def list_conds)
qed

lemma decode_load_store_pair:
  assumes "inst_ok (LoadStorePair is_load b rt1 rt2 rn imm index)"
    "arch_legal (LoadStorePair is_load b rt1 rt2 rn imm index)"
  shows "decode (enc_load_store_pair is_load b rt1 rt2 rn imm index) =
    Some (LoadStorePair is_load b rt1 rt2 rn imm index)"
  unfolding enc_load_store_pair_def using assms simm7_4.dec_enc [of imm] simm7_8.dec_enc [of imm]
  by (cases index; cases b) (simp_all add: fields decode_def Let_def dec_loads_stores_def
      dec_load_store_pair_def list_conds)

section \<open>Scalar floating point\<close>

lemmas fp = decode_def dec_fp_all_def dec_fp_scalar_def Let_def

lemma decode_fp_data_proc_1:
  assumes "inst_ok (FpDataProc1 op rd rn)"
  shows "decode (enc_fp_data_proc_1 op rd rn) = Some (FpDataProc1 op rd rn)"
  unfolding enc_fp_data_proc_1_def using assms
  by (cases op) (simp_all add: fields fp dec_fp_1_def list_conds)

lemma decode_fp_convert:
  assumes "inst_ok (FpConvert rd rn)"
  shows "decode (enc_fp_convert rd rn) = Some (FpConvert rd rn)"
  unfolding enc_fp_convert_def using assms
  by (cases "is_double rd") (simp_all add: fields fp dec_fp_1_def list_conds)

lemma decode_fp_data_proc_2:
  assumes "inst_ok (FpDataProc2 op rd rn rm)"
  shows "decode (enc_fp_data_proc_2 op rd rn rm) = Some (FpDataProc2 op rd rn rm)"
  unfolding enc_fp_data_proc_2_def using assms
  by (cases op) (simp_all add: fields fp dec_fp_2_def list_conds)

lemma decode_fp_compare:
  assumes "inst_ok (FpCompare rn rm)"
  shows "decode (enc_fp_compare rn rm) = Some (FpCompare rn rm)"
  unfolding enc_fp_compare_def using assms by (simp add: fields fp list_conds)

lemma decode_fp_cond_select:
  assumes "inst_ok (FpCondSelect rd rn rm cond)"
  shows "decode (enc_fp_cond_select rd rn rm cond) = Some (FpCondSelect rd rn rm cond)"
  unfolding enc_fp_cond_select_def using assms by (simp add: fields fp list_conds)

lemma decode_fp_imm_move:
  assumes "inst_ok (FpImmMove rd imm)"
  shows "decode (enc_fp_imm_move rd imm) = Some (FpImmMove rd imm)"
  unfolding enc_fp_imm_move_def using assms fpimm64.dec_enc [of imm] fpimm32.dec_enc [of imm]
  by (cases "is_double rd") (simp_all add: fields fp list_conds)

lemma decode_fp_gp:
  assumes "inst_ok (FpToGp r f)" "\<not> is_sp r"
  shows "decode (enc_fp_to_gp r f) = Some (FpToGp r f)" "decode (enc_gp_to_fp f r) = Some (GpToFp f r)"
  using assms by (simp_all add: enc_fp_to_gp_def enc_gp_to_fp_def fields fp dec_fp_int_def list_conds)

lemma decode_fp_int_convert:
  assumes "inst_ok (FpIntConvert op r f)" "arch_legal (FpIntConvert op r f)"
  shows "decode (enc_fp_int_convert op r f) = Some (FpIntConvert op r f)"
  unfolding enc_fp_int_convert_def using assms
  by (cases op) (simp_all add: fields fp dec_fp_int_def list_conds)

lemma decode_fp_madd:
  assumes "inst_ok (FpMadd rd rn rm ra)"
  shows "decode (enc_fp_madd rd rn rm ra) = Some (FpMadd rd rn rm ra)"
  unfolding enc_fp_madd_def using assms by (simp add: fields fp list_conds)

end
