(* ===== verification/Asm_Built.thy ===== *)
theory Asm_Built
  imports Asm_Legal
begin

text \<open>
  The instructions a client of \<^verbatim>\<open>fors-asm\<close> can build: \<open>built i\<close> has one rule per public
  constructor of \<^verbatim>\<open>inst.rs\<close> and \<^verbatim>\<open>fp.rs\<close>, with operands that are themselves well formed (as
  the constructors of \<^verbatim>\<open>reg.rs\<close> and \<^verbatim>\<open>operand.rs\<close> make them). Every such instruction satisfies
  the invariant \<open>inst_ok\<close>.
\<close>

inductive built :: "Inst \<Rightarrow> bool" where
  built_movz: "inst_movz rd imm16 shift = Inr i \<Longrightarrow> wf_reg rd \<Longrightarrow>
    built i"
| built_movn: "inst_movn rd imm16 shift = Inr i \<Longrightarrow> wf_reg rd \<Longrightarrow>
    built i"
| built_movk: "inst_movk rd imm16 shift = Inr i \<Longrightarrow> wf_reg rd \<Longrightarrow>
    built i"
| built_add_imm: "inst_add_imm rd rn imm = Inr i \<Longrightarrow> wf_reg rd \<Longrightarrow>
    wf_reg rn \<Longrightarrow> wf_uimm12 imm \<Longrightarrow> built i"
| built_adds_imm: "inst_adds_imm rd rn imm = Inr i \<Longrightarrow> wf_reg rd \<Longrightarrow>
    wf_reg rn \<Longrightarrow> wf_uimm12 imm \<Longrightarrow> built i"
| built_sub_imm: "inst_sub_imm rd rn imm = Inr i \<Longrightarrow> wf_reg rd \<Longrightarrow>
    wf_reg rn \<Longrightarrow> wf_uimm12 imm \<Longrightarrow> built i"
| built_subs_imm: "inst_subs_imm rd rn imm = Inr i \<Longrightarrow> wf_reg rd \<Longrightarrow>
    wf_reg rn \<Longrightarrow> wf_uimm12 imm \<Longrightarrow> built i"
| built_cmp_imm: "inst_cmp_imm rn imm = Inr i \<Longrightarrow> wf_reg rn \<Longrightarrow>
    wf_uimm12 imm \<Longrightarrow> built i"
| built_cmn_imm: "inst_cmn_imm rn imm = Inr i \<Longrightarrow> wf_reg rn \<Longrightarrow>
    wf_uimm12 imm \<Longrightarrow> built i"
| built_add_shifted: "inst_add_shifted rd rn rm shift = Inr i \<Longrightarrow>
    wf_reg rd \<Longrightarrow> wf_reg rn \<Longrightarrow> wf_reg rm \<Longrightarrow>
    wf_shift True shift \<Longrightarrow> built i"
| built_adds_shifted: "inst_adds_shifted rd rn rm shift = Inr i \<Longrightarrow>
    wf_reg rd \<Longrightarrow> wf_reg rn \<Longrightarrow> wf_reg rm \<Longrightarrow>
    wf_shift True shift \<Longrightarrow> built i"
| built_sub_shifted: "inst_sub_shifted rd rn rm shift = Inr i \<Longrightarrow>
    wf_reg rd \<Longrightarrow> wf_reg rn \<Longrightarrow> wf_reg rm \<Longrightarrow>
    wf_shift True shift \<Longrightarrow> built i"
| built_subs_shifted: "inst_subs_shifted rd rn rm shift = Inr i \<Longrightarrow>
    wf_reg rd \<Longrightarrow> wf_reg rn \<Longrightarrow> wf_reg rm \<Longrightarrow>
    wf_shift True shift \<Longrightarrow> built i"
| built_cmp_shifted: "inst_cmp_shifted rn rm shift = Inr i \<Longrightarrow>
    wf_reg rn \<Longrightarrow> wf_reg rm \<Longrightarrow> wf_shift True shift \<Longrightarrow>
    built i"
| built_cmn_shifted: "inst_cmn_shifted rn rm shift = Inr i \<Longrightarrow>
    wf_reg rn \<Longrightarrow> wf_reg rm \<Longrightarrow> wf_shift True shift \<Longrightarrow>
    built i"
| built_neg: "inst_neg rd rm shift = Inr i \<Longrightarrow> wf_reg rd \<Longrightarrow>
    wf_reg rm \<Longrightarrow> wf_shift True shift \<Longrightarrow> built i"
| built_negs: "inst_negs rd rm shift = Inr i \<Longrightarrow> wf_reg rd \<Longrightarrow>
    wf_reg rm \<Longrightarrow> wf_shift True shift \<Longrightarrow> built i"
| built_add_extended: "inst_add_extended rd rn rm ext = Inr i \<Longrightarrow>
    wf_reg rd \<Longrightarrow> wf_reg rn \<Longrightarrow> wf_reg rm \<Longrightarrow>
    wf_extend ext \<Longrightarrow> built i"
| built_adds_extended: "inst_adds_extended rd rn rm ext = Inr i \<Longrightarrow>
    wf_reg rd \<Longrightarrow> wf_reg rn \<Longrightarrow> wf_reg rm \<Longrightarrow>
    wf_extend ext \<Longrightarrow> built i"
| built_sub_extended: "inst_sub_extended rd rn rm ext = Inr i \<Longrightarrow>
    wf_reg rd \<Longrightarrow> wf_reg rn \<Longrightarrow> wf_reg rm \<Longrightarrow>
    wf_extend ext \<Longrightarrow> built i"
| built_subs_extended: "inst_subs_extended rd rn rm ext = Inr i \<Longrightarrow>
    wf_reg rd \<Longrightarrow> wf_reg rn \<Longrightarrow> wf_reg rm \<Longrightarrow>
    wf_extend ext \<Longrightarrow> built i"
| built_cmp_extended: "inst_cmp_extended rn rm ext = Inr i \<Longrightarrow>
    wf_reg rn \<Longrightarrow> wf_reg rm \<Longrightarrow> wf_extend ext \<Longrightarrow> built i"
| built_cmn_extended: "inst_cmn_extended rn rm ext = Inr i \<Longrightarrow>
    wf_reg rn \<Longrightarrow> wf_reg rm \<Longrightarrow> wf_extend ext \<Longrightarrow> built i"
| built_mov_sp: "inst_mov_sp rd rn = Inr i \<Longrightarrow> wf_reg rd \<Longrightarrow>
    wf_reg rn \<Longrightarrow> built i"
| built_and_imm: "inst_and_imm rd rn imm = Inr i \<Longrightarrow> wf_reg rd \<Longrightarrow>
    wf_reg rn \<Longrightarrow> wf_logical (li_is64 imm) imm \<Longrightarrow> built i"
| built_orr_imm: "inst_orr_imm rd rn imm = Inr i \<Longrightarrow> wf_reg rd \<Longrightarrow>
    wf_reg rn \<Longrightarrow> wf_logical (li_is64 imm) imm \<Longrightarrow> built i"
| built_eor_imm: "inst_eor_imm rd rn imm = Inr i \<Longrightarrow> wf_reg rd \<Longrightarrow>
    wf_reg rn \<Longrightarrow> wf_logical (li_is64 imm) imm \<Longrightarrow> built i"
| built_ands_imm: "inst_ands_imm rd rn imm = Inr i \<Longrightarrow> wf_reg rd \<Longrightarrow>
    wf_reg rn \<Longrightarrow> wf_logical (li_is64 imm) imm \<Longrightarrow> built i"
| built_tst_imm: "inst_tst_imm rn imm = Inr i \<Longrightarrow> wf_reg rn \<Longrightarrow>
    wf_logical (li_is64 imm) imm \<Longrightarrow> built i"
| built_and_shifted: "inst_and_shifted rd rn rm shift = Inr i \<Longrightarrow>
    wf_reg rd \<Longrightarrow> wf_reg rn \<Longrightarrow> wf_reg rm \<Longrightarrow>
    wf_shift True shift \<Longrightarrow> built i"
| built_orr_shifted: "inst_orr_shifted rd rn rm shift = Inr i \<Longrightarrow>
    wf_reg rd \<Longrightarrow> wf_reg rn \<Longrightarrow> wf_reg rm \<Longrightarrow>
    wf_shift True shift \<Longrightarrow> built i"
| built_eor_shifted: "inst_eor_shifted rd rn rm shift = Inr i \<Longrightarrow>
    wf_reg rd \<Longrightarrow> wf_reg rn \<Longrightarrow> wf_reg rm \<Longrightarrow>
    wf_shift True shift \<Longrightarrow> built i"
| built_ands_shifted: "inst_ands_shifted rd rn rm shift = Inr i \<Longrightarrow>
    wf_reg rd \<Longrightarrow> wf_reg rn \<Longrightarrow> wf_reg rm \<Longrightarrow>
    wf_shift True shift \<Longrightarrow> built i"
| built_bic_shifted: "inst_bic_shifted rd rn rm shift = Inr i \<Longrightarrow>
    wf_reg rd \<Longrightarrow> wf_reg rn \<Longrightarrow> wf_reg rm \<Longrightarrow>
    wf_shift True shift \<Longrightarrow> built i"
| built_orn_shifted: "inst_orn_shifted rd rn rm shift = Inr i \<Longrightarrow>
    wf_reg rd \<Longrightarrow> wf_reg rn \<Longrightarrow> wf_reg rm \<Longrightarrow>
    wf_shift True shift \<Longrightarrow> built i"
| built_eon_shifted: "inst_eon_shifted rd rn rm shift = Inr i \<Longrightarrow>
    wf_reg rd \<Longrightarrow> wf_reg rn \<Longrightarrow> wf_reg rm \<Longrightarrow>
    wf_shift True shift \<Longrightarrow> built i"
| built_bics_shifted: "inst_bics_shifted rd rn rm shift = Inr i \<Longrightarrow>
    wf_reg rd \<Longrightarrow> wf_reg rn \<Longrightarrow> wf_reg rm \<Longrightarrow>
    wf_shift True shift \<Longrightarrow> built i"
| built_mvn: "inst_mvn rd rm shift = Inr i \<Longrightarrow> wf_reg rd \<Longrightarrow>
    wf_reg rm \<Longrightarrow> wf_shift True shift \<Longrightarrow> built i"
| built_tst_reg: "inst_tst_reg rn rm shift = Inr i \<Longrightarrow> wf_reg rn \<Longrightarrow>
    wf_reg rm \<Longrightarrow> wf_shift True shift \<Longrightarrow> built i"
| built_mov_reg: "inst_mov_reg rd rm = Inr i \<Longrightarrow> wf_reg rd \<Longrightarrow>
    wf_reg rm \<Longrightarrow> built i"
| built_ubfm: "inst_ubfm rd rn immr imms = Inr i \<Longrightarrow> wf_reg rd \<Longrightarrow>
    wf_reg rn \<Longrightarrow> built i"
| built_sbfm: "inst_sbfm rd rn immr imms = Inr i \<Longrightarrow> wf_reg rd \<Longrightarrow>
    wf_reg rn \<Longrightarrow> built i"
| built_bfm: "inst_bfm rd rn immr imms = Inr i \<Longrightarrow> wf_reg rd \<Longrightarrow>
    wf_reg rn \<Longrightarrow> built i"
| built_lsl_imm: "inst_lsl_imm rd rn shift = Inr i \<Longrightarrow> wf_reg rd \<Longrightarrow>
    wf_reg rn \<Longrightarrow> built i"
| built_lsr_imm: "inst_lsr_imm rd rn shift = Inr i \<Longrightarrow> wf_reg rd \<Longrightarrow>
    wf_reg rn \<Longrightarrow> built i"
| built_asr_imm: "inst_asr_imm rd rn shift = Inr i \<Longrightarrow> wf_reg rd \<Longrightarrow>
    wf_reg rn \<Longrightarrow> built i"
| built_sxtb: "inst_sxtb rd rn = Inr i \<Longrightarrow> wf_reg rd \<Longrightarrow>
    wf_reg rn \<Longrightarrow> built i"
| built_sxth: "inst_sxth rd rn = Inr i \<Longrightarrow> wf_reg rd \<Longrightarrow>
    wf_reg rn \<Longrightarrow> built i"
| built_sxtw: "inst_sxtw rd rn = Inr i \<Longrightarrow> wf_reg rd \<Longrightarrow>
    wf_reg rn \<Longrightarrow> built i"
| built_uxtb: "inst_uxtb rd rn = Inr i \<Longrightarrow> wf_reg rd \<Longrightarrow>
    wf_reg rn \<Longrightarrow> built i"
| built_uxth: "inst_uxth rd rn = Inr i \<Longrightarrow> wf_reg rd \<Longrightarrow>
    wf_reg rn \<Longrightarrow> built i"
| built_udiv: "inst_udiv rd rn rm = Inr i \<Longrightarrow> wf_reg rd \<Longrightarrow>
    wf_reg rn \<Longrightarrow> wf_reg rm \<Longrightarrow> built i"
| built_sdiv: "inst_sdiv rd rn rm = Inr i \<Longrightarrow> wf_reg rd \<Longrightarrow>
    wf_reg rn \<Longrightarrow> wf_reg rm \<Longrightarrow> built i"
| built_lslv: "inst_lslv rd rn rm = Inr i \<Longrightarrow> wf_reg rd \<Longrightarrow>
    wf_reg rn \<Longrightarrow> wf_reg rm \<Longrightarrow> built i"
| built_lsrv: "inst_lsrv rd rn rm = Inr i \<Longrightarrow> wf_reg rd \<Longrightarrow>
    wf_reg rn \<Longrightarrow> wf_reg rm \<Longrightarrow> built i"
| built_asrv: "inst_asrv rd rn rm = Inr i \<Longrightarrow> wf_reg rd \<Longrightarrow>
    wf_reg rn \<Longrightarrow> wf_reg rm \<Longrightarrow> built i"
| built_rorv: "inst_rorv rd rn rm = Inr i \<Longrightarrow> wf_reg rd \<Longrightarrow>
    wf_reg rn \<Longrightarrow> wf_reg rm \<Longrightarrow> built i"
| built_madd: "inst_madd rd rn rm ra = Inr i \<Longrightarrow> wf_reg rd \<Longrightarrow>
    wf_reg rn \<Longrightarrow> wf_reg rm \<Longrightarrow> wf_reg ra \<Longrightarrow> built i"
| built_msub: "inst_msub rd rn rm ra = Inr i \<Longrightarrow> wf_reg rd \<Longrightarrow>
    wf_reg rn \<Longrightarrow> wf_reg rm \<Longrightarrow> wf_reg ra \<Longrightarrow> built i"
| built_mul: "inst_mul rd rn rm = Inr i \<Longrightarrow> wf_reg rd \<Longrightarrow>
    wf_reg rn \<Longrightarrow> wf_reg rm \<Longrightarrow> built i"
| built_smulh: "inst_smulh rd rn rm = Inr i \<Longrightarrow> wf_reg rd \<Longrightarrow>
    wf_reg rn \<Longrightarrow> wf_reg rm \<Longrightarrow> built i"
| built_umulh: "inst_umulh rd rn rm = Inr i \<Longrightarrow> wf_reg rd \<Longrightarrow>
    wf_reg rn \<Longrightarrow> wf_reg rm \<Longrightarrow> built i"
| built_clz: "inst_clz rd rn = Inr i \<Longrightarrow> wf_reg rd \<Longrightarrow>
    wf_reg rn \<Longrightarrow> built i"
| built_rbit: "inst_rbit rd rn = Inr i \<Longrightarrow> wf_reg rd \<Longrightarrow>
    wf_reg rn \<Longrightarrow> built i"
| built_rev: "inst_rev rd rn = Inr i \<Longrightarrow> wf_reg rd \<Longrightarrow>
    wf_reg rn \<Longrightarrow> built i"
| built_csel: "inst_csel rd rn rm cond = Inr i \<Longrightarrow> wf_reg rd \<Longrightarrow>
    wf_reg rn \<Longrightarrow> wf_reg rm \<Longrightarrow> wf_cond cond \<Longrightarrow> built i"
| built_csinc: "inst_csinc rd rn rm cond = Inr i \<Longrightarrow> wf_reg rd \<Longrightarrow>
    wf_reg rn \<Longrightarrow> wf_reg rm \<Longrightarrow> wf_cond cond \<Longrightarrow> built i"
| built_csinv: "inst_csinv rd rn rm cond = Inr i \<Longrightarrow> wf_reg rd \<Longrightarrow>
    wf_reg rn \<Longrightarrow> wf_reg rm \<Longrightarrow> wf_cond cond \<Longrightarrow> built i"
| built_csneg: "inst_csneg rd rn rm cond = Inr i \<Longrightarrow> wf_reg rd \<Longrightarrow>
    wf_reg rn \<Longrightarrow> wf_reg rm \<Longrightarrow> wf_cond cond \<Longrightarrow> built i"
| built_cset: "inst_cset rd cond = Inr i \<Longrightarrow> wf_reg rd \<Longrightarrow>
    wf_cond cond \<Longrightarrow> built i"
| built_csetm: "inst_csetm rd cond = Inr i \<Longrightarrow> wf_reg rd \<Longrightarrow>
    wf_cond cond \<Longrightarrow> built i"
| built_cinc: "inst_cinc rd rn cond = Inr i \<Longrightarrow> wf_reg rd \<Longrightarrow>
    wf_reg rn \<Longrightarrow> wf_cond cond \<Longrightarrow> built i"
| built_cinv: "inst_cinv rd rn cond = Inr i \<Longrightarrow> wf_reg rd \<Longrightarrow>
    wf_reg rn \<Longrightarrow> wf_cond cond \<Longrightarrow> built i"
| built_cneg: "inst_cneg rd rn cond = Inr i \<Longrightarrow> wf_reg rd \<Longrightarrow>
    wf_reg rn \<Longrightarrow> wf_cond cond \<Longrightarrow> built i"
| built_adr: "inst_adr rd offset = Inr i \<Longrightarrow> wf_reg rd \<Longrightarrow>
    wf_adr offset \<Longrightarrow> built i"
| built_adrp: "inst_adrp rd offset = Inr i \<Longrightarrow> wf_reg rd \<Longrightarrow>
    wf_adrp offset \<Longrightarrow> built i"
| built_b: "branch_ok offset \<Longrightarrow> built (inst_b offset)"
| built_bl: "branch_ok offset \<Longrightarrow> built (inst_bl offset)"
| built_b_cond: "wf_cond cond \<Longrightarrow> branch_ok offset \<Longrightarrow>
    built (inst_b_cond cond offset)"
| built_cbz: "wf_reg rt \<Longrightarrow> branch_ok offset \<Longrightarrow>
    built (inst_cbz rt offset)"
| built_cbnz: "wf_reg rt \<Longrightarrow> branch_ok offset \<Longrightarrow>
    built (inst_cbnz rt offset)"
| built_tbz: "inst_tbz rt bt offset = Inr i \<Longrightarrow> wf_reg rt \<Longrightarrow>
    branch_ok offset \<Longrightarrow> built i"
| built_tbnz: "inst_tbnz rt bt offset = Inr i \<Longrightarrow> wf_reg rt \<Longrightarrow>
    branch_ok offset \<Longrightarrow> built i"
| built_br: "inst_br rn = Inr i \<Longrightarrow> wf_reg rn \<Longrightarrow> built i"
| built_blr: "inst_blr rn = Inr i \<Longrightarrow> wf_reg rn \<Longrightarrow> built i"
| built_ret: "inst_ret rn = Inr i \<Longrightarrow> wf_reg rn \<Longrightarrow> built i"
| built_ldr: "inst_ldr rt rn mode = Inr i \<Longrightarrow> wf_reg rt \<Longrightarrow>
    wf_reg rn \<Longrightarrow> mode_ok mode \<Longrightarrow> built i"
| built_str: "inst_str rt rn mode = Inr i \<Longrightarrow> wf_reg rt \<Longrightarrow>
    wf_reg rn \<Longrightarrow> mode_ok mode \<Longrightarrow> built i"
| built_ldrb: "inst_ldrb rt rn mode = Inr i \<Longrightarrow> wf_reg rt \<Longrightarrow>
    wf_reg rn \<Longrightarrow> mode_ok mode \<Longrightarrow> built i"
| built_strb: "inst_strb rt rn mode = Inr i \<Longrightarrow> wf_reg rt \<Longrightarrow>
    wf_reg rn \<Longrightarrow> mode_ok mode \<Longrightarrow> built i"
| built_ldrh: "inst_ldrh rt rn mode = Inr i \<Longrightarrow> wf_reg rt \<Longrightarrow>
    wf_reg rn \<Longrightarrow> mode_ok mode \<Longrightarrow> built i"
| built_strh: "inst_strh rt rn mode = Inr i \<Longrightarrow> wf_reg rt \<Longrightarrow>
    wf_reg rn \<Longrightarrow> mode_ok mode \<Longrightarrow> built i"
| built_ldrsb: "inst_ldrsb rt rn mode = Inr i \<Longrightarrow> wf_reg rt \<Longrightarrow>
    wf_reg rn \<Longrightarrow> mode_ok mode \<Longrightarrow> built i"
| built_ldrsh: "inst_ldrsh rt rn mode = Inr i \<Longrightarrow> wf_reg rt \<Longrightarrow>
    wf_reg rn \<Longrightarrow> mode_ok mode \<Longrightarrow> built i"
| built_ldrsw: "inst_ldrsw rt rn mode = Inr i \<Longrightarrow> wf_reg rt \<Longrightarrow>
    wf_reg rn \<Longrightarrow> mode_ok mode \<Longrightarrow> built i"
| built_ldp: "inst_ldp rt1 rt2 rn imm index = Inr i \<Longrightarrow> wf_reg rt1 \<Longrightarrow>
    wf_reg rt2 \<Longrightarrow> wf_reg rn \<Longrightarrow>
    wf_simm7 (s7_access_size imm) imm \<Longrightarrow> built i"
| built_stp: "inst_stp rt1 rt2 rn imm index = Inr i \<Longrightarrow> wf_reg rt1 \<Longrightarrow>
    wf_reg rt2 \<Longrightarrow> wf_reg rn \<Longrightarrow>
    wf_simm7 (s7_access_size imm) imm \<Longrightarrow> built i"
| built_nop: "built inst_nop"
| built_brk: "built (inst_brk imm16)"
| built_svc: "built (inst_svc imm16)"
| built_udf: "built (inst_udf imm16)"
| built_fmov_reg: "inst_fmov_reg rd rn = Inr i \<Longrightarrow> wf_fpreg rd \<Longrightarrow>
    wf_fpreg rn \<Longrightarrow> built i"
| built_fabs: "inst_fabs rd rn = Inr i \<Longrightarrow> wf_fpreg rd \<Longrightarrow>
    wf_fpreg rn \<Longrightarrow> built i"
| built_fneg: "inst_fneg rd rn = Inr i \<Longrightarrow> wf_fpreg rd \<Longrightarrow>
    wf_fpreg rn \<Longrightarrow> built i"
| built_fsqrt: "inst_fsqrt rd rn = Inr i \<Longrightarrow> wf_fpreg rd \<Longrightarrow>
    wf_fpreg rn \<Longrightarrow> built i"
| built_fcvt: "inst_fcvt rd rn = Inr i \<Longrightarrow> wf_fpreg rd \<Longrightarrow>
    wf_fpreg rn \<Longrightarrow> built i"
| built_fadd: "inst_fadd rd rn rm = Inr i \<Longrightarrow> wf_fpreg rd \<Longrightarrow>
    wf_fpreg rn \<Longrightarrow> wf_fpreg rm \<Longrightarrow> built i"
| built_fsub: "inst_fsub rd rn rm = Inr i \<Longrightarrow> wf_fpreg rd \<Longrightarrow>
    wf_fpreg rn \<Longrightarrow> wf_fpreg rm \<Longrightarrow> built i"
| built_fmul: "inst_fmul rd rn rm = Inr i \<Longrightarrow> wf_fpreg rd \<Longrightarrow>
    wf_fpreg rn \<Longrightarrow> wf_fpreg rm \<Longrightarrow> built i"
| built_fdiv: "inst_fdiv rd rn rm = Inr i \<Longrightarrow> wf_fpreg rd \<Longrightarrow>
    wf_fpreg rn \<Longrightarrow> wf_fpreg rm \<Longrightarrow> built i"
| built_fmadd: "inst_fmadd rd rn rm ra = Inr i \<Longrightarrow> wf_fpreg rd \<Longrightarrow>
    wf_fpreg rn \<Longrightarrow> wf_fpreg rm \<Longrightarrow> wf_fpreg ra \<Longrightarrow>
    built i"
| built_fcmp: "inst_fcmp rn rm = Inr i \<Longrightarrow> wf_fpreg rn \<Longrightarrow>
    wf_fpreg rm \<Longrightarrow> built i"
| built_fcsel: "inst_fcsel rd rn rm cond = Inr i \<Longrightarrow> wf_fpreg rd \<Longrightarrow>
    wf_fpreg rn \<Longrightarrow> wf_fpreg rm \<Longrightarrow> wf_cond cond \<Longrightarrow>
    built i"
| built_fmov_imm: "inst_fmov_imm rd imm = Inr i \<Longrightarrow> wf_fpreg rd \<Longrightarrow>
    wf_fpimm (fi_is64 imm) imm \<Longrightarrow> built i"
| built_fmov_to_gp: "inst_fmov_to_gp rd rn = Inr i \<Longrightarrow> wf_reg rd \<Longrightarrow>
    wf_fpreg rn \<Longrightarrow> built i"
| built_fmov_from_gp: "inst_fmov_from_gp rd rn = Inr i \<Longrightarrow>
    wf_fpreg rd \<Longrightarrow> wf_reg rn \<Longrightarrow> built i"
| built_scvtf: "inst_scvtf rd rn = Inr i \<Longrightarrow> wf_fpreg rd \<Longrightarrow>
    wf_reg rn \<Longrightarrow> built i"
| built_ucvtf: "inst_ucvtf rd rn = Inr i \<Longrightarrow> wf_fpreg rd \<Longrightarrow>
    wf_reg rn \<Longrightarrow> built i"
| built_fcvtzs: "inst_fcvtzs rd rn = Inr i \<Longrightarrow> wf_reg rd \<Longrightarrow>
    wf_fpreg rn \<Longrightarrow> built i"
| built_fcvtzu: "inst_fcvtzu rd rn = Inr i \<Longrightarrow> wf_reg rd \<Longrightarrow>
    wf_fpreg rn \<Longrightarrow> built i"
| built_ldr_fp: "inst_ldr_fp rt rn mode = Inr i \<Longrightarrow> wf_fpreg rt \<Longrightarrow>
    wf_reg rn \<Longrightarrow> mode_ok mode \<Longrightarrow> built i"
| built_str_fp: "inst_str_fp rt rn mode = Inr i \<Longrightarrow> wf_fpreg rt \<Longrightarrow>
    wf_reg rn \<Longrightarrow> mode_ok mode \<Longrightarrow> built i"

lemmas inst_defs = inst_movz_def inst_movn_def inst_movk_def inst_add_imm_def inst_adds_imm_def
  inst_sub_imm_def inst_subs_imm_def inst_cmp_imm_def inst_cmn_imm_def inst_add_shifted_def
  inst_adds_shifted_def inst_sub_shifted_def inst_subs_shifted_def inst_cmp_shifted_def
  inst_cmn_shifted_def inst_neg_def inst_negs_def inst_add_extended_def inst_adds_extended_def
  inst_sub_extended_def inst_subs_extended_def inst_cmp_extended_def inst_cmn_extended_def
  inst_mov_sp_def inst_and_imm_def inst_orr_imm_def inst_eor_imm_def inst_ands_imm_def
  inst_tst_imm_def inst_and_shifted_def inst_orr_shifted_def inst_eor_shifted_def
  inst_ands_shifted_def inst_bic_shifted_def inst_orn_shifted_def inst_eon_shifted_def
  inst_bics_shifted_def inst_mvn_def inst_tst_reg_def inst_mov_reg_def inst_ubfm_def
  inst_sbfm_def inst_bfm_def inst_lsl_imm_def inst_lsr_imm_def inst_asr_imm_def inst_sxtb_def
  inst_sxth_def inst_sxtw_def inst_uxtb_def inst_uxth_def inst_udiv_def inst_sdiv_def
  inst_lslv_def inst_lsrv_def inst_asrv_def inst_rorv_def inst_madd_def inst_msub_def
  inst_mul_def inst_smulh_def inst_umulh_def inst_clz_def inst_rbit_def inst_rev_def
  inst_csel_def inst_csinc_def inst_csinv_def inst_csneg_def inst_cset_def inst_csetm_def
  inst_cinc_def inst_cinv_def inst_cneg_def inst_adr_def inst_adrp_def inst_b_def inst_bl_def
  inst_b_cond_def inst_cbz_def inst_cbnz_def inst_tbz_def inst_tbnz_def inst_br_def inst_blr_def
  inst_ret_def inst_ldr_def inst_str_def inst_ldrb_def inst_strb_def inst_ldrh_def inst_strh_def
  inst_ldrsb_def inst_ldrsh_def inst_ldrsw_def inst_ldp_def inst_stp_def inst_nop_def
  inst_brk_def inst_svc_def inst_udf_def inst_fmov_reg_def inst_fabs_def inst_fneg_def
  inst_fsqrt_def inst_fcvt_def inst_fadd_def inst_fsub_def inst_fmul_def inst_fdiv_def
  inst_fmadd_def inst_fcmp_def inst_fcsel_def inst_fmov_imm_def inst_fmov_to_gp_def
  inst_fmov_from_gp_def inst_scvtf_def inst_ucvtf_def inst_fcvtzs_def inst_fcvtzu_def
  inst_ldr_fp_def inst_str_fp_def

section \<open>The shared constructor bodies establish the invariant\<close>

lemmas lists = regs_ok_def no_sp_def same_width_def fps_ok_def shift_max_def

lemma check_same_width_ok [simp]: "check_same_width a b what = Inr u \<longleftrightarrow> is64 a = is64 b"
  by (simp add: check_same_width_def)

lemma check_same_fp_width_ok [simp]:
  "check_same_fp_width a b what = Inr u \<longleftrightarrow> is_double a = is_double b"
  by (simp add: check_same_fp_width_def)

lemma zr_like_simps [simp]:
  "wf_reg (zr_like r)" "is64 (zr_like r) = is64 r" "\<not> is_sp (zr_like r)" "is_zr (zr_like r)"
  by (simp_all add: zr_like_def)

lemma mov_wide_ok: "mov_wide op rd imm16 shift = Inr i \<Longrightarrow> wf_reg rd \<Longrightarrow> inst_ok i"
  by (cases "is64 rd"; simp add: mov_wide_def Let_def lists not_less; elim conjE; hypsubst; simp add: lists)

lemma add_sub_imm_common_ok:
  "add_sub_imm_common s rd rn what = Inr u \<Longrightarrow> wf_reg rd \<Longrightarrow> wf_reg rn \<Longrightarrow> wf_uimm12 imm \<Longrightarrow>
   inst_ok (AddSubImm op s rd rn imm a)"
  by (auto simp: add_sub_imm_common_def lists split: if_splits)

lemma add_sub_shifted_ok:
  "add_sub_shifted op s rd rn rm shift a = Inr i \<Longrightarrow> wf_reg rd \<Longrightarrow> wf_reg rn \<Longrightarrow> wf_reg rm \<Longrightarrow>
   wf_shift True shift \<Longrightarrow> inst_ok i"
  by (auto simp: add_sub_shifted_def lists)

lemma add_sub_extended_ok:
  "add_sub_extended op s rd rn rm ext a = Inr i \<Longrightarrow> wf_reg rd \<Longrightarrow> wf_reg rn \<Longrightarrow> wf_reg rm \<Longrightarrow>
   wf_extend ext \<Longrightarrow> inst_ok i"
  by (auto simp: add_sub_extended_def lists Let_def)

lemma logical_imm_ok:
  "logical_imm op rd rn imm a = Inr i \<Longrightarrow> wf_reg rd \<Longrightarrow> wf_reg rn \<Longrightarrow>
   wf_logical (li_is64 imm) imm \<Longrightarrow> inst_ok i"
  by (auto simp: logical_imm_def lists)

lemma logical_shifted_ok:
  "logical_shifted op rd rn rm shift a = Inr i \<Longrightarrow> wf_reg rd \<Longrightarrow> wf_reg rn \<Longrightarrow> wf_reg rm \<Longrightarrow>
   wf_shift True shift \<Longrightarrow> inst_ok i"
  by (auto simp: logical_shifted_def lists)

lemma bitfield_raw_ok:
  "bitfield_raw op rd rn immr imms a = Inr i \<Longrightarrow> wf_reg rd \<Longrightarrow> wf_reg rn \<Longrightarrow> inst_ok i"
  by (auto simp: bitfield_raw_def lists Let_def not_less)

lemma data_proc_2_ok:
  "data_proc_2 op rd rn rm = Inr i \<Longrightarrow> wf_reg rd \<Longrightarrow> wf_reg rn \<Longrightarrow> wf_reg rm \<Longrightarrow> inst_ok i"
  by (auto simp: data_proc_2_def lists)

lemma mulh_ok:
  "mulh op rd rn rm = Inr i \<Longrightarrow> wf_reg rd \<Longrightarrow> wf_reg rn \<Longrightarrow> wf_reg rm \<Longrightarrow> inst_ok i"
  by (auto simp: mulh_def lists)

lemma data_proc_1_ok: "data_proc_1 op rd rn = Inr i \<Longrightarrow> wf_reg rd \<Longrightarrow> wf_reg rn \<Longrightarrow> inst_ok i"
  by (auto simp: data_proc_1_def lists)

lemma cond_select_ok:
  "cond_select op rd rn rm c a = Inr i \<Longrightarrow> wf_reg rd \<Longrightarrow> wf_reg rn \<Longrightarrow> wf_reg rm \<Longrightarrow> wf_cond c \<Longrightarrow> inst_ok i"
  by (auto simp: cond_select_def lists)

lemma test_branch_ok:
  "test_branch nz rt bt off = Inr i \<Longrightarrow> wf_reg rt \<Longrightarrow> branch_ok off \<Longrightarrow> inst_ok i"
  by (auto simp: test_branch_def lists Let_def not_less)

lemma load_store_ok:
  "load_store op rt rn mode = Inr i \<Longrightarrow> wf_reg rt \<Longrightarrow> wf_reg rn \<Longrightarrow> mode_ok mode \<Longrightarrow> inst_ok i"
  by (auto simp: load_store_def lists is_sp_def is_zr_def)

lemma load_store_pair_ok:
  "load_store_pair l rt1 rt2 rn imm ix = Inr i \<Longrightarrow> wf_reg rt1 \<Longrightarrow> wf_reg rt2 \<Longrightarrow> wf_reg rn \<Longrightarrow>
   wf_simm7 (s7_access_size imm) imm \<Longrightarrow> inst_ok i"
  by (cases ix) (auto simp: load_store_pair_def lists Let_def)

lemma fp_binop_ok:
  "fp_binop op rd rn rm = Inr i \<Longrightarrow> wf_fpreg rd \<Longrightarrow> wf_fpreg rn \<Longrightarrow> wf_fpreg rm \<Longrightarrow> inst_ok i"
  by (auto simp: fp_binop_def lists)

lemmas ctor_ok = mov_wide_ok add_sub_imm_common_ok add_sub_shifted_ok add_sub_extended_ok
  logical_imm_ok logical_shifted_ok bitfield_raw_ok data_proc_2_ok mulh_ok data_proc_1_ok
  cond_select_ok test_branch_ok load_store_ok load_store_pair_ok fp_binop_ok

lemma wf_uimm12_0: "wf_uimm12 \<lparr>u12_raw = 0, shift12 = False\<rparr>"
  by (simp add: wf_uimm12_def)

lemma built_inst_ok: "built i \<Longrightarrow> inst_ok i"
  by (induction rule: built.induct)
    (auto simp: inst_defs Let_def lists uimm12_new_0 wf_uimm12_0 simp del: inst_ok.simps(2)
      intro: add_sub_imm_common_ok [OF _ _ _ wf_uimm12_0] dest: ctor_ok split: if_splits)

end
