(* ===== verification/Asm_Theorems.thy ===== *)
theory Asm_Theorems
  imports Asm_Correct Asm_Built
begin

text \<open>
  The properties of the AArch64 encoder: every instruction a client can build satisfies the
  invariant, its word decodes to it, the operand types hold exactly the values they were built
  from, the shift and condition aliases mean what their names say, and the places where the
  constructors accept an operand the instruction word cannot hold.
\<close>

section \<open>Encoding and decoding\<close>

lemma encode_total: "\<exists>w. encode i = Inr w"
  by (cases i) simp_all

lemmas decode_rules = decode_mov_wide decode_add_sub_imm decode_add_sub_shifted
  decode_add_sub_extended decode_logical_imm decode_logical_shifted decode_bitfield
  decode_data_proc_2 decode_data_proc_3 decode_data_proc_1 decode_cond_select decode_adr decode_adrp
  decode_branch decode_branch_cond decode_compare_branch decode_test_branch decode_system
  decode_load_store_gp decode_load_store_fp decode_load_store_pair decode_fp_data_proc_1
  decode_fp_convert decode_fp_data_proc_2 decode_fp_compare decode_fp_cond_select decode_fp_imm_move
  decode_fp_int_convert decode_fp_madd

lemma decode_encode:
  assumes "inst_ok i" and "arch_legal i" and "encode i = Inr w"
  shows "decode w = Some (canonical i)"
proof (cases "\<exists>r f. i \<in> {BranchReg r, BranchLinkReg r, Ret r, FpToGp r f, GpToFp f r}")
  case True
  then show ?thesis using assms by (auto simp: decode_branch_reg decode_fp_gp)
next
  case False
  then show ?thesis using assms
    by (cases i) (auto simp del: inst_ok.simps arch_legal.simps intro: decode_rules)
qed

text \<open>C12: \<^verbatim>\<open>encode\<close> succeeds on every well-formed instruction that obeys the operand rules of
  its class, and the reference decoder reads the same instruction back from the word: the class,
  every register with its width and its meaning of encoding 31, every immediate and condition.
  Only the alias spelling and the redundant width of a \<^verbatim>\<open>TBZ\<close> register are not in the word.\<close>

theorem encode_decodes_back:
  assumes "inst_ok i" and "arch_legal i"
  shows "\<exists>w. encode i = Inr w \<and> decode w = Some (canonical i)"
  using decode_encode [OF assms] encode_total [of i] by blast

theorem encode_decodes_back_witness:
  "\<exists>w. encode (LoadStoreImm LdrX (dec_zr True 3) reg_sp (PreIndex (Simm9 (- 16)))) = Inr w
     \<and> decode w = Some (LoadStoreImm LdrX (dec_zr True 3) reg_sp (PreIndex (Simm9 (- 16))))"
  using encode_decodes_back [of "LoadStoreImm LdrX (dec_zr True 3) reg_sp (PreIndex (Simm9 (- 16)))"]
  by (simp add: regs_ok_def wf_reg_def dec_zr_def reg_sp_def is_zr_def is_sp_def wf_simm9_def
      in_signed_def reg_encoding_def)

text \<open>C17: No two different instructions share a word: two instructions built by the public
  constructors with legal operands and encoded to the same 32-bit word are the same instruction
  up to the alias spelling (and the width of a \<^verbatim>\<open>TBZ\<close> register).\<close>

theorem encode_injective:
  assumes "built i" "arch_legal i" "built j" "arch_legal j" and "encode i = encode j"
  shows "canonical i = canonical j"
proof -
  obtain w where w: "encode i = Inr w" using encode_total by blast
  with assms have "decode w = Some (canonical i)" "decode w = Some (canonical j)"
    by (auto intro: decode_encode built_inst_ok)
  then show ?thesis by simp
qed

theorem encode_injective_witness:
  "\<exists>i j. inst_cmp_imm (dec_zr True 1) \<lparr>u12_raw = 5, shift12 = False\<rparr> = Inr i
     \<and> inst_subs_imm reg_xzr (dec_zr True 1) \<lparr>u12_raw = 5, shift12 = False\<rparr> = Inr j
     \<and> i \<noteq> j \<and> canonical i = canonical j"
proof -
  let ?imm = "\<lparr>u12_raw = 5, shift12 = False\<rparr>"
  let ?i = "AddSubImm Sub True reg_xzr (dec_zr True 1) ?imm AS_Cmp"
  let ?j = "AddSubImm Sub True reg_xzr (dec_zr True 1) ?imm AS_None"
  have e: "inst_cmp_imm (dec_zr True 1) ?imm = Inr ?i" "inst_subs_imm reg_xzr (dec_zr True 1) ?imm = Inr ?j"
    by (simp_all add: inst_cmp_imm_def inst_subs_imm_def add_sub_imm_common_def zr_like_def dec_zr_def
        reg_xzr_def is_zr_def is_sp_def check_same_width_def Let_def)
  have "wf_reg (dec_zr True 1)" "wf_reg reg_xzr" "wf_uimm12 ?imm"
    by (simp_all add: wf_reg_def dec_zr_def reg_xzr_def wf_uimm12_def)
  then have "built ?i" "built ?j" using e by (blast intro: built_cmp_imm built_subs_imm)+
  moreover have "encode ?i = encode ?j" by simp
  ultimately have "canonical ?i = canonical ?j" by (intro encode_injective) simp_all
  with e show ?thesis by auto
qed

text \<open>C14: Every public constructor of \<^verbatim>\<open>inst.rs\<close> and \<^verbatim>\<open>fp.rs\<close>, given operands the operand
  types accept, returns an error or an instruction that satisfies the invariant: operands well
  formed, register widths in agreement, no stack pointer where the constructor refuses it, shift
  and bit numbers below the register width, no write-back into a transferred register.\<close>

theorem constructors_establish_inst_ok:
  assumes "built i"
  shows "inst_ok i"
  using assms by (rule built_inst_ok)

theorem constructors_establish_inst_ok_witness:
  "inst_ok (Bitfield Sbfm (dec_zr True 1) (dec_zr True 2) 0 31 BF_Sxtw)"
proof -
  have "inst_sxtw (dec_zr True 1) (dec_zr False 2) =
    Inr (Bitfield Sbfm (dec_zr True 1) (dec_zr True 2) 0 31 BF_Sxtw)"
    by (simp add: inst_sxtw_def dec_zr_def with64_def bitfield_raw_def check_same_width_def is_sp_def Let_def)
  then have "built (Bitfield Sbfm (dec_zr True 1) (dec_zr True 2) 0 31 BF_Sxtw)"
    by (rule built_sxtw) (simp_all add: wf_reg_def dec_zr_def)
  then show ?thesis by (rule constructors_establish_inst_ok)
qed

section \<open>Operands\<close>




lemma simm9_accepts: "(\<exists>i. simm9_new v = Inr i) \<longleftrightarrow> - 256 \<le> v \<and> v < 256"
  by (simp add: simm9_new_def)

lemma uscaled_accepts:
  assumes "0 < sz"
  shows "(\<exists>i. uscaled_new v sz = Some (Inr i)) \<longleftrightarrow> 0 \<le> v \<and> int sz dvd v \<and> v div int sz \<le> 4095"
proof -
  have "nat v div sz \<le> 4095 \<longleftrightarrow> v div int sz \<le> 4095" if "0 \<le> v"
  proof -
    have "v div int sz = int (nat v div sz)" using that by (simp add: zdiv_int)
    then show ?thesis by linarith
  qed
  then show ?thesis using assms by (auto simp: uscaled_new_def Let_def not_less)
qed

lemma simm7_accepts:
  assumes "0 < sz"
  shows "(\<exists>i. simm7_new v sz = Some (Inr i)) \<longleftrightarrow>
    int sz dvd v \<and> - 64 \<le> v div int sz \<and> v div int sz < 64"
  using assms by (auto simp: simm7_new_def Let_def)

text \<open>The load/store offsets keep their value: an unscaled offset, an unsigned offset scaled by
  the access size and a pair offset are accepted exactly in their architectural range (and scaled
  ones only when they are a multiple of the access size), and the encoded field determines the
  byte offset the caller asked for.\<close>

theorem load_store_offsets_exact:
  assumes "0 < sz"
  shows "((\<exists>i. simm9_new v = Inr i \<and> dec_signed 9 (simm9_encoding i) = v) \<longleftrightarrow> - 256 \<le> v \<and> v < 256)
    \<and> ((\<exists>i. uscaled_new v sz = Some (Inr i) \<and> uscaled_bytes (dec_uscaled sz (uscaled_encoding i)) = v)
         \<longleftrightarrow> 0 \<le> v \<and> int sz dvd v \<and> v div int sz \<le> 4095)
    \<and> ((\<exists>i. simm7_new v sz = Some (Inr i) \<and> dec_signed 7 (simm7_encoding i) * int sz = v)
         \<longleftrightarrow> int sz dvd v \<and> - 64 \<le> v div int sz \<and> v div int sz < 64)"
proof (intro conjI)
  show "(\<exists>i. simm9_new v = Inr i \<and> dec_signed 9 (simm9_encoding i) = v) \<longleftrightarrow> - 256 \<le> v \<and> v < 256"
    using simm9_accepts [of v] simm9.value_recovered [of v] by auto
  show "(\<exists>i. uscaled_new v sz = Some (Inr i) \<and> uscaled_bytes (dec_uscaled sz (uscaled_encoding i)) = v)
         \<longleftrightarrow> 0 \<le> v \<and> int sz dvd v \<and> v div int sz \<le> 4095"
    using uscaled_accepts [OF assms, of v] validated.value_recovered [OF uscaled_validated] by blast
  show "(\<exists>i. simm7_new v sz = Some (Inr i) \<and> dec_signed 7 (simm7_encoding i) * int sz = v)
         \<longleftrightarrow> int sz dvd v \<and> - 64 \<le> v div int sz \<and> v div int sz < 64"
    using simm7_accepts [OF assms, of v] validated.value_recovered [OF simm7_validated, of v sz]
    by (auto simp: simm7_bytes_def)
qed

theorem load_store_offsets_exact_witness:
  "\<exists>i. simm7_new (- 16) 8 = Some (Inr i) \<and> dec_signed 7 (simm7_encoding i) * 8 = - 16"
  using load_store_offsets_exact [of 8 "- 16"] by simp

lemma fpimm_target_expand: "fpimm_target b (fp_expand c b) = fp_expand c b"
proof (cases b)
  case False
  have m: "(0xFFFFFFFF :: u64) = mask 32" by (simp add: mask_eq_exp_minus_1)
  have m5: "(31 :: int) = mask 5" by (simp add: mask_eq_exp_minus_1)
  have five: "bit (31 :: int) k \<Longrightarrow> k < 5" for k unfolding m5 by (simp add: bit_mask_iff)
  have "fp_expand c False AND mask 32 = fp_expand c False"
    by (rule bit_word_eqI)
      (auto simp: fp_expand_def Let_def drop_bit_and_one bit_simps split: if_splits dest: five)
  with False show ?thesis by (simp add: fpimm_target_def m)
qed (simp add: fpimm_target_def)

text \<open>The eight-bit floating-point immediates: every one of the 256 byte values is found again
  from the bit pattern it expands to, and a pattern that is accepted is the expansion of the byte
  that is encoded. So the search accepts exactly the representable patterns and its answer is
  unique.\<close>

theorem fp_immediate_exact:
  "fpimm_from_bits (fp_expand c b) b = Inr \<lparr>fi_imm8 = c, fi_is64 = b, fi_bits = fp_expand c b\<rparr>
   \<and> (\<forall>v i. fpimm_from_bits v b = Inr i \<longrightarrow> fp_expand (fi_imm8 i) b = fpimm_target b v)"
proof
  have "\<exists>c'. fpimm_search (fp_expand c b) b = Some c' \<and> fp_expand c' b = fp_expand c b"
    using search_codec.enc_complete [OF fpimm_search_codec, of c b "fp_expand c b"]
    by (simp add: set_u8_range u8_less_256)
  then have "fpimm_search (fp_expand c b) b = Some c" using fp_compress_expand by metis
  then show "fpimm_from_bits (fp_expand c b) b = Inr \<lparr>fi_imm8 = c, fi_is64 = b, fi_bits = fp_expand c b\<rparr>"
    using fpimm_target_expand [of b c] by (simp add: fpimm_from_bits_def fpimm_target_def)
  show "\<forall>v i. fpimm_from_bits v b = Inr i \<longrightarrow> fp_expand (fi_imm8 i) b = fpimm_target b v"
    using validated.mk_wf [OF fpimm_validated] validated.mk_val [OF fpimm_validated]
    by (metis wf_fpimm_def)
qed

theorem fp_immediate_exact_witness:
  "fpimm_from_bits 0x3FF0000000000000 True =
     Inr \<lparr>fi_imm8 = 0x70, fi_is64 = True, fi_bits = 0x3FF0000000000000\<rparr>"
proof -
  have "fp_expand 0x70 True = 0x3FF0000000000000" by code_simp
  with fp_immediate_exact [of "0x70" True] show ?thesis by simp
qed

end
