(* ===== verification/Asm_Semantics.thy ===== *)
theory Asm_Semantics
  imports Asm_Built
begin

text \<open>
  What the alias constructors mean. \<open>exec\<close> is the architectural result of the data-processing
  instructions the aliases build, for a register file of \<open>'a word\<close> values (the destination and
  the value written; flags written by an instruction are not part of it). The theorems say that
  \<^verbatim>\<open>mov\<close>, \<^verbatim>\<open>neg\<close>, \<^verbatim>\<open>lsl\<close>, \<^verbatim>\<open>sxtw\<close>, \<^verbatim>\<open>cset\<close> and the others compute what their names say.
\<close>

section \<open>Conditions\<close>

record flags =
  flag_n :: bool
  flag_z :: bool
  flag_c :: bool
  flag_v :: bool

definition cond_base :: "u8 \<Rightarrow> flags \<Rightarrow> bool" where
  "cond_base k f =
     (if k = 0 then flag_z f
      else if k = 1 then flag_c f
      else if k = 2 then flag_n f
      else if k = 3 then flag_v f
      else if k = 4 then flag_c f \<and> \<not> flag_z f
      else if k = 5 then flag_n f = flag_v f
      else if k = 6 then flag_n f = flag_v f \<and> \<not> flag_z f
      else True)"

definition cond_holds :: "Cond \<Rightarrow> flags \<Rightarrow> bool" where
  "cond_holds c f =
     (let h = cond_base (drop_bit 1 (cond_bits c)) f
      in if bit (cond_bits c) 0 \<and> cond_bits c \<noteq> 15 then \<not> h else h)"

section \<open>Instructions\<close>

definition rd_reg :: "(Reg \<Rightarrow> 'a::len word) \<Rightarrow> Reg \<Rightarrow> 'a word" where
  "rd_reg rf r = (if is_zr r then 0 else rf r)"

fun shift_sem :: "ShiftKind \<Rightarrow> nat \<Rightarrow> 'a::len word \<Rightarrow> 'a word" where
  "shift_sem Lsl n x = push_bit n x"
| "shift_sem Lsr n x = drop_bit n x"
| "shift_sem Asr n x = signed_drop_bit n x"
| "shift_sem Ror n x = word_rotr n x"

definition shifted_operand :: "(Reg \<Rightarrow> 'a::len word) \<Rightarrow> Reg \<Rightarrow> RegShift \<Rightarrow> 'a word" where
  "shifted_operand rf rm sh = shift_sem (sh_kind sh) (unat (sh_amount sh)) (rd_reg rf rm)"

definition ubfm_sem :: "nat \<Rightarrow> nat \<Rightarrow> 'a::len word \<Rightarrow> 'a word" where
  "ubfm_sem r s x =
     (if s \<ge> r then take_bit (s - r + 1) (drop_bit r x)
      else push_bit (LENGTH('a) - r) (take_bit (s + 1) x))"

definition sbfm_sem :: "nat \<Rightarrow> nat \<Rightarrow> 'a::len word \<Rightarrow> 'a word" where
  "sbfm_sem r s x =
     (if s \<ge> r then signed_take_bit (s - r) (drop_bit r x)
      else push_bit (LENGTH('a) - r) (signed_take_bit s x))"

fun logical_sem :: "LogicalShiftOp \<Rightarrow> 'a::len word \<Rightarrow> 'a word \<Rightarrow> 'a word" where
  "logical_sem LS_And x y = x AND y"
| "logical_sem LS_Bic x y = x AND NOT y"
| "logical_sem LS_Orr x y = x OR y"
| "logical_sem LS_Orn x y = x OR NOT y"
| "logical_sem LS_Eor x y = x XOR y"
| "logical_sem LS_Eon x y = x XOR NOT y"
| "logical_sem LS_Ands x y = x AND y"
| "logical_sem LS_Bics x y = x AND NOT y"

fun select_sem :: "CondSelectOp \<Rightarrow> bool \<Rightarrow> 'a::len word \<Rightarrow> 'a word \<Rightarrow> 'a word" where
  "select_sem Csel h x y = (if h then x else y)"
| "select_sem Csinc h x y = (if h then x else y + 1)"
| "select_sem Csinv h x y = (if h then x else NOT y)"
| "select_sem Csneg h x y = (if h then x else - y)"

fun exec :: "Inst \<Rightarrow> flags \<Rightarrow> (Reg \<Rightarrow> 'a::len word) \<Rightarrow> (Reg \<times> 'a word) option" where
  "exec (AddSubImm op _ rd rn imm _) f rf =
     Some (rd, if op = Add then rd_reg rf rn + ucast (uimm12_value imm)
               else rd_reg rf rn - ucast (uimm12_value imm))"
| "exec (AddSubShiftedReg op _ rd rn rm sh _) f rf =
     (let y = shift_sem (sh_kind sh) (unat (sh_amount sh)) (rd_reg rf rm)
      in Some (rd, if op = Add then rd_reg rf rn + y else rd_reg rf rn - y))"
| "exec (LogicalShiftedReg op rd rn rm sh _) f rf =
     Some (rd, logical_sem op (rd_reg rf rn)
                 (shift_sem (sh_kind sh) (unat (sh_amount sh)) (rd_reg rf rm)))"
| "exec (Bitfield Ubfm rd rn immr imms _) f rf =
     Some (rd, ubfm_sem (unat immr) (unat imms) (rd_reg rf rn))"
| "exec (Bitfield Sbfm rd rn immr imms _) f rf =
     Some (rd, sbfm_sem (unat immr) (unat imms) (rd_reg rf rn))"
| "exec (DataProc3Source Madd rd rn rm ra _) f rf =
     Some (rd, rd_reg rf ra + rd_reg rf rn * rd_reg rf rm)"
| "exec (DataProc3Source Msub rd rn rm ra _) f rf =
     Some (rd, rd_reg rf ra - rd_reg rf rn * rd_reg rf rm)"
| "exec (CondSelect op rd rn rm c _) f rf =
     Some (rd, select_sem op (cond_holds c f) (rd_reg rf rn) (rd_reg rf rm))"
| "exec _ f rf = None"

section \<open>Inverting a condition\<close>

lemma cond_holds_inverted:
  assumes "c \<noteq> cond_AL" "c \<noteq> cond_NV"
  shows "cond_holds (inverted c) f = (\<not> cond_holds c f)"
proof (cases c)
  case (Cond b)
  have x: "b XOR 1 = 15 \<longleftrightarrow> b = 15 XOR 1" by (metis xor.assoc xor.right_neutral xor_self_eq)
  have "drop_bit 1 (b XOR 1) = drop_bit 1 b" "bit (b XOR 1) 0 \<longleftrightarrow> \<not> bit b 0"
    by (simp_all add: bit_simps drop_bit_xor)
  with x Cond assms show ?thesis
    by (simp add: cond_holds_def inverted_def cond_AL_def cond_NV_def Let_def)
qed

lemma require_conditional_ok [simp]:
  "require_conditional c what = Inr u \<longleftrightarrow> c \<noteq> cond_AL \<and> c \<noteq> cond_NV"
  by (simp add: require_conditional_def)

definition proper_cond :: "Cond \<Rightarrow> bool" where
  "proper_cond c \<longleftrightarrow> c \<noteq> cond_AL \<and> c \<noteq> cond_NV"

lemma zr_reads_zero [simp]: "rd_reg rf (zr_like r) = 0"
  by (simp add: rd_reg_def)

text \<open>\<open>alias_computes acc r f rf rd v\<close>: an alias constructor accepts its operands exactly when \<open>acc\<close>
  holds, and then the instruction \<open>r\<close> it returns writes \<open>v\<close> to \<open>rd\<close>.\<close>

definition alias_computes ::
  "bool \<Rightarrow> inst_result \<Rightarrow> flags \<Rightarrow> (Reg \<Rightarrow> 'a::len word) \<Rightarrow> Reg \<Rightarrow> 'a word \<Rightarrow> bool" where
  "alias_computes acc r f rf rd v =
     (case r of Inl _ \<Rightarrow> \<not> acc | Inr i \<Rightarrow> acc \<and> exec i f rf = Some (rd, v))"

definition plain_pair :: "Reg \<Rightarrow> Reg \<Rightarrow> bool" where
  "plain_pair rd rn \<longleftrightarrow> is64 rd = is64 rn \<and> \<not> is_sp rd \<and> \<not> is_sp rn"

lemmas alias_defs = alias_computes_def plain_pair_def check_same_width_def Let_def

text \<open>C19: \<^verbatim>\<open>cset\<close>, \<^verbatim>\<open>csetm\<close>, \<^verbatim>\<open>cinc\<close>, \<^verbatim>\<open>cinv\<close> and \<^verbatim>\<open>cneg\<close>, which store the inverted condition in
  a conditional-select instruction, accept exactly the proper conditions (not \<^verbatim>\<open>AL\<close> or \<^verbatim>\<open>NV\<close>) on
  registers of one width other than the stack pointer, and the instruction they build computes the
  selection their names promise for the condition the caller passed, on every flag state; the
  refusal of \<^verbatim>\<open>AL\<close> and \<^verbatim>\<open>NV\<close> is what makes the inversion sound.\<close>

theorem condition_aliases_meaning:
  "alias_computes (proper_cond c \<and> \<not> is_sp rd) (inst_cset rd c) f rf rd (if cond_holds c f then 1 else 0)
   \<and> alias_computes (proper_cond c \<and> \<not> is_sp rd) (inst_csetm rd c) f rf rd (if cond_holds c f then - 1 else 0)
   \<and> alias_computes (proper_cond c \<and> plain_pair rd rn) (inst_cinc rd rn c) f rf rd
       (if cond_holds c f then rd_reg rf rn + 1 else rd_reg rf rn)
   \<and> alias_computes (proper_cond c \<and> plain_pair rd rn) (inst_cinv rd rn c) f rf rd
       (if cond_holds c f then NOT (rd_reg rf rn) else rd_reg rf rn)
   \<and> alias_computes (proper_cond c \<and> plain_pair rd rn) (inst_cneg rd rn c) f rf rd
       (if cond_holds c f then - rd_reg rf rn else rd_reg rf rn)"
proof (cases "proper_cond c")
  case True
  with cond_holds_inverted [of c f] show ?thesis
    by (auto simp: alias_defs inst_cset_def inst_csetm_def inst_cinc_def inst_cinv_def inst_cneg_def
        cond_select_def require_conditional_def proper_cond_def)
next
  case False
  then show ?thesis
    by (auto simp: alias_defs inst_cset_def inst_csetm_def inst_cinc_def inst_cinv_def inst_cneg_def
        require_conditional_def proper_cond_def)
qed

section \<open>Shift and extend aliases\<close>

lemma ubfm_lsl:
  assumes "n < LENGTH('a::len)"
  shows "ubfm_sem ((LENGTH('a) - n) mod LENGTH('a)) (LENGTH('a) - 1 - n) x = push_bit n (x :: 'a word)"
proof (cases n)
  case 0
  then show ?thesis by (simp add: ubfm_sem_def)
next
  case (Suc k)
  with assms have "(LENGTH('a) - n) mod LENGTH('a) = LENGTH('a) - n" by simp
  moreover have "\<not> LENGTH('a) - n \<le> LENGTH('a) - 1 - n" using assms by simp
  moreover have "LENGTH('a) - 1 - n + 1 = LENGTH('a) - n" using assms by simp
  moreover have "push_bit n (take_bit (LENGTH('a) - n) x) = push_bit n x"
    by (rule bit_word_eqI) (auto simp: bit_simps)
  ultimately show ?thesis using assms by (simp add: ubfm_sem_def)
qed

lemma ubfm_lsr:
  assumes "n < LENGTH('a::len)"
  shows "ubfm_sem n (LENGTH('a) - 1) x = drop_bit n (x :: 'a word)"
  by (rule bit_word_eqI) (use assms in \<open>auto simp: ubfm_sem_def bit_simps dest: bit_imp_le_length\<close>)

lemma sbfm_asr:
  assumes "n < LENGTH('a::len)"
  shows "sbfm_sem n (LENGTH('a) - 1) x = signed_drop_bit n (x :: 'a word)"
proof (rule bit_word_eqI)
  fix k assume k: "k < LENGTH('a)"
  consider "k < LENGTH('a) - 1 - n" | "k = LENGTH('a) - 1 - n" | "k > LENGTH('a) - 1 - n" by linarith
  then show "bit (sbfm_sem n (LENGTH('a) - 1) x) k = bit (signed_drop_bit n x) k"
    using assms k by cases (auto simp: sbfm_sem_def bit_simps min_def)
qed

lemma bitfield_raw_Ok:
  "bitfield_raw op rd rn immr imms a = Inr i \<Longrightarrow> i = Bitfield op rd rn immr imms a"
  by (auto simp: bitfield_raw_def Let_def)

lemma unat_ucast_u8:
  assumes "unat (x :: u32) < 256"
  shows "unat (ucast x :: u8) = unat x"
  using assms by (simp add: unsigned_ucast_eq take_bit_nat_eq_self)

text \<open>The fields \<^verbatim>\<open>lsl_imm\<close> computes in \<^verbatim>\<open>u32\<close> arithmetic, as numbers.\<close>

lemma lsl_fields:
  assumes "(wd :: u32) = 64 \<or> wd = 32" and "ucast (sh :: u8) < wd"
  shows "unat (ucast ((wd - ucast sh) mod wd) :: u8) = (unat wd - unat sh) mod unat wd"
    and "unat (ucast (wd - 1 - ucast sh) :: u8) = unat wd - 1 - unat sh"
proof -
  have sh: "unat sh < unat wd" and wd: "unat wd \<le> 64" "1 \<le> unat wd"
    using assms by (auto simp: word_less_nat_alt)
  have "unat (wd - ucast sh) = unat wd - unat sh"
    using sh by (simp add: unat_sub word_le_nat_alt)
  then have a: "unat ((wd - ucast sh) mod wd) = (unat wd - unat sh) mod unat wd"
    by (simp add: unat_mod)
  have "(unat wd - unat sh) mod unat wd < 256"
    using wd by (intro le_less_trans [OF mod_le_divisor]) auto
  with a show "unat (ucast ((wd - ucast sh) mod wd) :: u8) = (unat wd - unat sh) mod unat wd"
    by (simp add: unat_ucast_u8)
  have "unat (wd - 1) = unat wd - 1" using wd by (simp add: unat_sub word_le_nat_alt)
  then have b: "unat (wd - 1 - ucast sh) = unat wd - 1 - unat sh"
    using sh by (simp add: unat_sub word_le_nat_alt)
  with wd show "unat (ucast (wd - 1 - ucast sh) :: u8) = unat wd - 1 - unat sh"
    by (simp add: unat_ucast_u8)
qed

lemma lsr_field:
  assumes "(wd :: u32) = 64 \<or> wd = 32"
  shows "unat (ucast (wd - 1) :: u8) = unat wd - 1"
  using assms by auto

definition reg_width :: "Reg \<Rightarrow> nat" where
  "reg_width r = (if is64 r then 64 else 32)"

lemma shift_alias_ok:
  assumes "is64 rd = is64 rn" "\<not> is_sp rd" "\<not> is_sp rn" "immr \<le> shift_max rd" "imms \<le> shift_max rd"
  shows "bitfield_raw op rd rn immr imms a = Inr (Bitfield op rd rn immr imms a)"
  using assms
  by (auto simp: bitfield_raw_def shift_max_def Let_def check_same_width_def not_less split: if_splits)

text \<open>C18: \<^verbatim>\<open>lsl_imm\<close>, \<^verbatim>\<open>lsr_imm\<close> and \<^verbatim>\<open>asr_imm\<close> accept exactly the shift amounts below the register
  width (for two registers of one width that are not the stack pointer), and the bitfield
  instruction they build shifts the source left, right or arithmetically right by that amount: the
  field arithmetic \<^verbatim>\<open>(width - shift) % width\<close>, \<^verbatim>\<open>width - 1 - shift\<close> is right, also for a shift
  of zero.\<close>

theorem shift_aliases_meaning:
  assumes "LENGTH('a::len) = reg_width rd" "is64 rd = is64 rn" "\<not> is_sp rd" "\<not> is_sp rn"
  shows "(unat sh < LENGTH('a) \<longrightarrow>
       (\<exists>i. inst_lsl_imm rd rn sh = Inr i \<and>
          exec i f rf = Some (rd, push_bit (unat sh) (rd_reg rf rn :: 'a word)))
     \<and> (\<exists>i. inst_lsr_imm rd rn sh = Inr i \<and> exec i f rf = Some (rd, drop_bit (unat sh) (rd_reg rf rn)))
     \<and> (\<exists>i. inst_asr_imm rd rn sh = Inr i \<and>
          exec i f rf = Some (rd, signed_drop_bit (unat sh) (rd_reg rf rn))))
   \<and> (LENGTH('a) \<le> unat sh \<longrightarrow>
       \<not> is_ok (inst_lsl_imm rd rn sh) \<and> \<not> is_ok (inst_lsr_imm rd rn sh) \<and> \<not> is_ok (inst_asr_imm rd rn sh))"
proof -
  define wd :: u32 where "wd = (if is64 rd then 64 else 32)"
  have w: "wd = 64 \<or> wd = 32" "unat wd = LENGTH('a)" "unat wd = reg_width rd"
    using assms(1) by (auto simp: wd_def reg_width_def)
  have lt: "ucast sh \<ge> wd \<longleftrightarrow> LENGTH('a) \<le> unat sh"
    using w(2) by (simp add: word_le_nat_alt)
  note defs = inst_lsl_imm_def inst_lsr_imm_def inst_asr_imm_def
  show ?thesis
  proof (intro conjI impI)
    assume less: "unat sh < LENGTH('a)"
    then have sh: "ucast sh < wd" using lt by simp
    note fields = lsl_fields [OF w(1) sh] lsr_field [OF w(1)]
    have max: "unat (shift_max rd) = LENGTH('a) - 1"
      using assms(1) by (simp add: shift_max_def reg_width_def)
    have "(LENGTH('a) - unat sh) mod LENGTH('a) < LENGTH('a)" by simp
    then have "ucast ((wd - ucast sh) mod wd) \<le> shift_max rd" "ucast (wd - 1 - ucast sh) \<le> shift_max rd"
      "sh \<le> shift_max rd" "ucast (wd - 1) \<le> shift_max rd"
      unfolding word_le_nat_alt max fields w(2) using less by linarith+
    note ok = shift_alias_ok [OF assms(2-4) this(1,2)] shift_alias_ok [OF assms(2-4) this(3,4)]
    have lsl: "inst_lsl_imm rd rn sh =
        Inr (Bitfield Ubfm rd rn (ucast ((wd - ucast sh) mod wd)) (ucast (wd - 1 - ucast sh)) BF_Lsl)"
      using lt less unfolding inst_lsl_imm_def Let_def wd_def [symmetric] by (simp add: ok)
    have lsr: "inst_lsr_imm rd rn sh = Inr (Bitfield Ubfm rd rn sh (ucast (wd - 1)) BF_Lsr)"
      using lt less unfolding inst_lsr_imm_def Let_def wd_def [symmetric] by (simp add: ok)
    have asr: "inst_asr_imm rd rn sh = Inr (Bitfield Sbfm rd rn sh (ucast (wd - 1)) BF_Asr)"
      using lt less unfolding inst_asr_imm_def Let_def wd_def [symmetric] by (simp add: ok)
    show "\<exists>i. inst_lsl_imm rd rn sh = Inr i \<and>
        exec i f rf = Some (rd, push_bit (unat sh) (rd_reg rf rn :: 'a word))"
      unfolding lsl using ubfm_lsl [OF less, of "rd_reg rf rn"] by (simp add: fields w(2))
    show "\<exists>i. inst_lsr_imm rd rn sh = Inr i \<and>
        exec i f rf = Some (rd, drop_bit (unat sh) (rd_reg rf rn :: 'a word))"
      unfolding lsr using ubfm_lsr [OF less, of "rd_reg rf rn"] by (simp add: fields w(2))
    show "\<exists>i. inst_asr_imm rd rn sh = Inr i \<and>
        exec i f rf = Some (rd, signed_drop_bit (unat sh) (rd_reg rf rn :: 'a word))"
      unfolding asr using sbfm_asr [OF less, of "rd_reg rf rn"] by (simp add: fields w(2))
  qed (use lt in \<open>simp_all add: defs Let_def wd_def [symmetric]\<close>)
qed

theorem shift_aliases_meaning_witness:
  "\<exists>i. inst_lsl_imm (dec_zr True 1) (dec_zr True 2) 4 = Inr i \<and>
     exec i \<lparr>flag_n = False, flag_z = False, flag_c = False, flag_v = False\<rparr> (\<lambda>_. 3 :: u64)
       = Some (dec_zr True 1, 48)"
  using shift_aliases_meaning [where 'a = 64, of "dec_zr True 1" "dec_zr True 2" 4
      "\<lparr>flag_n = False, flag_z = False, flag_c = False, flag_v = False\<rparr>" "\<lambda>_. 3"]
  by (simp add: reg_width_def dec_zr_def is_sp_def rd_reg_def is_zr_def)

lemma is_sp_with64 [simp]: "is_sp (with64 r b) = is_sp r"
  by (simp add: with64_def is_sp_def)

lemma is64_with64 [simp]: "is64 (with64 r b) = b"
  by (simp add: with64_def)

text \<open>The extension aliases extend: \<^verbatim>\<open>sxtb\<close>, \<^verbatim>\<open>sxth\<close> and \<^verbatim>\<open>sxtw\<close> sign-extend the low 8, 16 and
  32 bits, \<^verbatim>\<open>uxtb\<close> and \<^verbatim>\<open>uxth\<close> zero-extend them; \<^verbatim>\<open>sxtw\<close> reads the 32-bit source through the
  64-bit view of the same register. Each accepts exactly the register widths of its form and no
  stack pointer.\<close>

theorem extend_aliases_meaning:
  "alias_computes (plain_pair rd rn) (inst_sxtb rd rn) f rf rd (signed_take_bit 7 (rd_reg rf rn))
   \<and> alias_computes (plain_pair rd rn) (inst_sxth rd rn) f rf rd (signed_take_bit 15 (rd_reg rf rn))
   \<and> alias_computes (is64 rd \<and> \<not> is64 rn \<and> \<not> is_sp rd \<and> \<not> is_sp rn) (inst_sxtw rd rn) f rf rd
       (signed_take_bit 31 (rd_reg rf (with64 rn True)))
   \<and> alias_computes (\<not> is64 rd \<and> plain_pair rd rn) (inst_uxtb rd rn) f rf rd (take_bit 8 (rd_reg rf rn))
   \<and> alias_computes (\<not> is64 rd \<and> plain_pair rd rn) (inst_uxth rd rn) f rf rd (take_bit 16 (rd_reg rf rn))"
  by (auto simp: alias_defs inst_sxtb_def inst_sxth_def inst_sxtw_def inst_uxtb_def inst_uxth_def
      bitfield_raw_def ubfm_sem_def sbfm_sem_def)

text \<open>The move, negate and multiply aliases: \<^verbatim>\<open>mov_reg\<close> and \<^verbatim>\<open>mov_sp\<close> copy, \<^verbatim>\<open>mvn\<close> complements the
  shifted operand, \<^verbatim>\<open>neg\<close> and \<^verbatim>\<open>negs\<close> negate it, \<^verbatim>\<open>mul\<close> multiplies, \<^verbatim>\<open>cmp_imm\<close> and \<^verbatim>\<open>cmp_shifted\<close>
  subtract into the zero register; each accepts exactly the operands shown. The zero register the
  constructors supply for the missing operand has the right width and value.\<close>

theorem move_aliases_meaning:
  "alias_computes (plain_pair rd rm) (inst_mov_reg rd rm) f rf rd (rd_reg rf rm)
   \<and> alias_computes (is64 rd = is64 rn \<and> \<not> is_zr rd \<and> \<not> is_zr rn) (inst_mov_sp rd rn) f rf rd (rd_reg rf rn)
   \<and> alias_computes (plain_pair rd rm) (inst_mvn rd rm sh) f rf rd (NOT (shifted_operand rf rm sh))
   \<and> alias_computes (sh_kind sh \<noteq> Ror \<and> plain_pair rd rm) (inst_neg rd rm sh) f rf rd
       (- shifted_operand rf rm sh)
   \<and> alias_computes (sh_kind sh \<noteq> Ror \<and> plain_pair rd rm) (inst_negs rd rm sh) f rf rd
       (- shifted_operand rf rm sh)
   \<and> alias_computes (is64 rd = is64 rn \<and> is64 rd = is64 rm) (inst_mul rd rn rm) f rf rd
       (rd_reg rf rn * rd_reg rf rm)
   \<and> alias_computes (\<not> is_zr rn) (inst_cmp_imm rn imm) f rf (zr_like rn)
       (rd_reg rf rn - ucast (uimm12_value imm))
   \<and> alias_computes (sh_kind sh \<noteq> Ror \<and> plain_pair rn rm) (inst_cmp_shifted rn rm sh) f rf (zr_like rn)
       (rd_reg rf rn - shifted_operand rf rm sh)"
  by (auto simp: alias_defs shifted_operand_def inst_mov_reg_def inst_mov_sp_def inst_mvn_def inst_neg_def
      inst_negs_def inst_mul_def inst_cmp_imm_def inst_cmp_shifted_def logical_shifted_def
      add_sub_shifted_def add_sub_imm_common_def reg_shift_none_def uimm12_new_0 uimm12_value_def)

end
