(* ===== verification/Asm_Gaps.thy ===== *)
theory Asm_Gaps
  imports Asm_Correct Asm_Built
begin

text \<open>
  Which misuses the constructors refuse, and which they let through. The first group shows the
  refusals the source documents; the second group exhibits accepted instructions outside
  \<open>arch_legal\<close> whose word means something else than the instruction that was built.
\<close>

section \<open>Refused misuses\<close>

text \<open>The immediate forms of \<^verbatim>\<open>ADD\<close> and \<^verbatim>\<open>SUB\<close> accept exactly the registers the word can
  name: equal widths, no zero register as source, no zero register as destination of the plain
  form and no stack pointer as destination of the flag-setting form. Every other choice is an
  error, never a word that means another register.\<close>

theorem add_sub_imm_accepts_exactly:
  "(is_ok (inst_add_imm rd rn imm) \<longleftrightarrow> is64 rd = is64 rn \<and> \<not> is_zr rn \<and> \<not> is_zr rd)
   \<and> (is_ok (inst_sub_imm rd rn imm) \<longleftrightarrow> is64 rd = is64 rn \<and> \<not> is_zr rn \<and> \<not> is_zr rd)
   \<and> (is_ok (inst_adds_imm rd rn imm) \<longleftrightarrow> is64 rd = is64 rn \<and> \<not> is_zr rn \<and> \<not> is_sp rd)
   \<and> (is_ok (inst_subs_imm rd rn imm) \<longleftrightarrow> is64 rd = is64 rn \<and> \<not> is_zr rn \<and> \<not> is_sp rd)
   \<and> (is_ok (inst_cmp_imm rn imm) \<longleftrightarrow> \<not> is_zr rn)
   \<and> (is_ok (inst_mov_sp rd rn) \<longleftrightarrow> is64 rd = is64 rn \<and> \<not> is_zr rn \<and> \<not> is_zr rd)"
  by (auto simp: is_ok_iff inst_add_imm_def inst_sub_imm_def inst_adds_imm_def inst_subs_imm_def
      inst_cmp_imm_def inst_mov_sp_def add_sub_imm_common_def uimm12_new_0 Let_def)

text \<open>C25: A pre- or post-indexed load or store is refused when the transferred register is the
  base register, by number and whatever the widths; a pair transfer is refused in the same case,
  and a pair load also when it names one register twice.\<close>

theorem writeback_conflict_refused:
  assumes "reg_encoding rt = reg_encoding rn"
  shows "(addr_writeback mode \<longrightarrow> \<not> is_ok (load_store op rt rn mode))
   \<and> (ix \<noteq> PI_Offset \<longrightarrow> \<not> is_ok (load_store_pair l rt rt2 rn imm ix)
                           \<and> \<not> is_ok (load_store_pair l rt1 rt rn imm ix))
   \<and> \<not> is_ok (inst_ldp rt rn base imm ix)"
  using assms
  by (cases ix) (auto simp: is_ok_iff load_store_def load_store_pair_def inst_ldp_def Let_def)

theorem writeback_conflict_refused_witness:
  "\<not> is_ok (load_store LdrW (dec_zr False 1) (dec_zr True 1) (PostIndex (Simm9 4)))"
  using writeback_conflict_refused [of "dec_zr False 1" "dec_zr True 1" "PostIndex (Simm9 4)" LdrW]
  by (simp add: reg_encoding_def dec_zr_def)

section \<open>Accepted misuses\<close>

text \<open>C26: \<^verbatim>\<open>mul\<close>, \<^verbatim>\<open>smulh\<close> and \<^verbatim>\<open>umulh\<close> do not refuse the stack pointer, unlike \<^verbatim>\<open>madd\<close> and
  \<^verbatim>\<open>msub\<close>: an instruction built with it has the word of the instruction with the zero register.\<close>

theorem multiply_accepts_sp:
  assumes "is64 rd" and "is64 rm"
  shows "(\<exists>i j. inst_mul rd reg_sp rm = Inr i \<and> inst_mul rd reg_xzr rm = Inr j \<and> i \<noteq> j \<and> encode i = encode j)
   \<and> (\<exists>i j. inst_smulh rd reg_sp rm = Inr i \<and> inst_smulh rd reg_xzr rm = Inr j \<and> i \<noteq> j \<and> encode i = encode j)
   \<and> \<not> is_ok (inst_madd rd reg_sp rm ra)"
proof -
  have ne: "reg_sp \<noteq> reg_xzr" by (simp add: reg_sp_def reg_xzr_def)
  have eq: "reg_encoding reg_sp = reg_encoding reg_xzr"
    by (simp add: reg_encoding_def reg_sp_def reg_xzr_def)
  show ?thesis using assms ne eq
    by (auto simp: inst_mul_def inst_smulh_def inst_madd_def mulh_def Let_def is_ok_iff enc_data_proc_3_def)
qed

theorem multiply_accepts_sp_witness:
  "\<exists>i j. inst_mul reg_xzr reg_sp reg_xzr = Inr i \<and> inst_mul reg_xzr reg_xzr reg_xzr = Inr j
     \<and> i \<noteq> j \<and> encode i = encode j"
  using multiply_accepts_sp [of reg_xzr reg_xzr] by simp

text \<open>The access size of an unsigned offset is not compared with the access size of the
  instruction: a byte load built with an offset of 8 that was scaled for doublewords has the word
  of a byte load at offset 1.\<close>

theorem scaled_offset_not_checked:
  "\<exists>off i w off'. uscaled_new 8 8 = Some (Inr off) \<and> uscaled_bytes off = 8 \<and>
     inst_ldrb (dec_zr False 0) (dec_zr True 1) (UnsignedOffset off) = Inr i \<and> encode i = Inr w \<and>
     decode w = Some (LoadStoreImm LdrB (dec_zr False 0) (dec_sp True 1) (UnsignedOffset off')) \<and>
     uscaled_bytes off' = 1"
proof -
  let ?off = "\<lparr>us_scaled = 1, us_access_size = 8\<rparr>" and ?off' = "\<lparr>us_scaled = 1, us_access_size = 1\<rparr>"
  have "uscaled_new 8 8 = Some (Inr ?off)" by (simp add: uscaled_new_def)
  moreover have "inst_ldrb (dec_zr False 0) (dec_zr True 1) (UnsignedOffset ?off)
      = Inr (LoadStoreImm LdrB (dec_zr False 0) (dec_zr True 1) (UnsignedOffset ?off))"
    by (simp add: inst_ldrb_def load_store_def dec_zr_def is_zr_def)
  moreover have "encode (LoadStoreImm LdrB (dec_zr False 0) (dec_zr True 1) (UnsignedOffset ?off))
      = encode (LoadStoreImm LdrB (dec_zr False 0) (dec_sp True 1) (UnsignedOffset ?off'))"
    by (simp add: encode_load_store_gp_def uscaled_encoding_def reg_encoding_def dec_zr_def dec_sp_def)
  moreover have "decode (encode_load_store_gp LdrB (dec_zr False 0) (dec_sp True 1) (UnsignedOffset ?off'))
      = Some (LoadStoreImm LdrB (dec_zr False 0) (dec_sp True 1) (UnsignedOffset ?off'))"
    by (rule decode_load_store_gp)
      (simp_all add: regs_ok_def wf_reg_def dec_zr_def dec_sp_def is_zr_def is_sp_def wf_uscaled_def)
  ultimately show ?thesis
    by (intro exI [of _ ?off] exI [of _ ?off'] exI) (auto simp: uscaled_bytes_def)
qed

text \<open>The width a branch offset was validated for is not compared with the field it is put in:
  a conditional branch accepts an offset validated for the 26-bit field of \<^verbatim>\<open>B\<close>, and the word it
  gets is not a conditional branch (the offset spills into the opcode bits); and a shift amount
  validated for 64-bit registers is accepted on 32-bit registers, where the word is reserved.\<close>

theorem operand_width_not_checked:
  "(\<exists>off w. branch_offset_new 0x200000 26 what = Some (Inr off) \<and>
      encode (inst_b_cond (Cond 0) off) = Inr w \<and> decode w = None)
   \<and> (\<exists>sh i w. reg_shift_new Lsl 40 True = Inr sh \<and>
      inst_add_shifted (dec_zr False 0) (dec_zr False 1) (dec_zr False 2) sh = Inr i \<and>
      encode i = Inr w \<and> decode w = None)"
proof -
  have "branch_offset_new 0x200000 26 what = Some (Inr \<lparr>bo_bits = 26, word_off = 0x80000\<rparr>)"
    by (simp add: branch_offset_new_def as_signed_def)
  moreover have "decode (enc_branch_cond (Cond 0) \<lparr>bo_bits = 26, word_off = 0x80000\<rparr>) = None"
    by code_simp
  moreover have "reg_shift_new Lsl 40 True = Inr \<lparr>sh_kind = Lsl, sh_amount = 40\<rparr>"
    by (simp add: reg_shift_new_def)
  moreover have "inst_add_shifted (dec_zr False 0) (dec_zr False 1) (dec_zr False 2)
      \<lparr>sh_kind = Lsl, sh_amount = 40\<rparr> = Inr (AddSubShiftedReg Add False (dec_zr False 0) (dec_zr False 1)
        (dec_zr False 2) \<lparr>sh_kind = Lsl, sh_amount = 40\<rparr> AS_None)"
    by (simp add: inst_add_shifted_def add_sub_shifted_def check_same_width_def dec_zr_def is_sp_def)
  moreover have "decode (enc_add_sub_shifted_reg Add False (dec_zr False 0) (dec_zr False 1)
        (dec_zr False 2) \<lparr>sh_kind = Lsl, sh_amount = 40\<rparr>) = None"
    by code_simp
  ultimately show ?thesis by (auto simp: inst_b_cond_def)
qed

end
