(* ===== verification/Arith_Int.thy ===== *)
theory Arith_Int
  imports Prelude "HOL-Library.Signed_Division"
begin

text \<open>
  Integer semantics of the reference interpreter (\<^verbatim>\<open>fors-interp/src/arith.rs\<close>): trapping,
  wrapping and saturating operations on the eight fixed-width integer types. A value lives in a
  64-bit slot (\<open>u64\<close>); every operation computes in 128-bit host width, checks or clamps against the
  type's bounds and narrows. \<^verbatim>\<open>i128\<close> values are \<open>int\<close>s with the range written out in the checked and
  saturating operations; \<^verbatim>\<open>u128\<close> values are words. Rust's \<^verbatim>\<open>/\<close> and \<^verbatim>\<open>%\<close> on signed operands are
  \<open>sdiv\<close> and \<open>smod\<close>.
\<close>

section \<open>Types\<close>

datatype PrimKind =
    Prim_I8 | Prim_I16 | Prim_I32 | Prim_I64 | Prim_Isize
  | Prim_U8 | Prim_U16 | Prim_U32 | Prim_U64 | Prim_Usize
  | Prim_F32 | Prim_F64 | Prim_Bool | Prim_Str | Prim_RawPtr

datatype TrapKind =
    Bounds | Overflow | DivZero | Shift | CheckedConversion | ArenaGeneration | Contract | EmptyReduce

datatype ArithMode = Trap | Wrap | Sat | Unchecked

datatype CmpPred = Cmp_Eq | Cmp_Ne | Cmp_Lt | Cmp_Le | Cmp_Gt | Cmp_Ge

datatype IntKind = I8 | I16 | I32 | I64 | U8 | U16 | U32 | U64

fun int_kind_from_prim :: "PrimKind \<Rightarrow> IntKind option" where
  "int_kind_from_prim Prim_I8 = Some I8"
| "int_kind_from_prim Prim_I16 = Some I16"
| "int_kind_from_prim Prim_I32 = Some I32"
| "int_kind_from_prim Prim_I64 = Some I64"
| "int_kind_from_prim Prim_Isize = Some I64"
| "int_kind_from_prim Prim_U8 = Some U8"
| "int_kind_from_prim Prim_U16 = Some U16"
| "int_kind_from_prim Prim_U32 = Some U32"
| "int_kind_from_prim Prim_U64 = Some U64"
| "int_kind_from_prim Prim_Usize = Some U64"
| "int_kind_from_prim _ = None"

fun kwidth :: "IntKind \<Rightarrow> nat" where
  "kwidth I8 = 8" | "kwidth U8 = 8"
| "kwidth I16 = 16" | "kwidth U16 = 16"
| "kwidth I32 = 32" | "kwidth U32 = 32"
| "kwidth I64 = 64" | "kwidth U64 = 64"

fun ksigned :: "IntKind \<Rightarrow> bool" where
  "ksigned I8 = True" | "ksigned I16 = True" | "ksigned I32 = True" | "ksigned I64 = True"
| "ksigned U8 = False" | "ksigned U16 = False" | "ksigned U32 = False" | "ksigned U64 = False"

definition bounds :: "IntKind \<Rightarrow> int \<times> int" where
  "bounds k = (let w = kwidth k
     in if ksigned k then (- (2 ^ (w - 1)), 2 ^ (w - 1) - 1) else (0, 2 ^ w - 1))"

definition kas_signed :: "IntKind \<Rightarrow> u64 \<Rightarrow> int" where
  "kas_signed k bits = (let w = kwidth k
     in if w = 64 then sint bits
        else let v = bits AND (push_bit w 1 - 1)
             in drop_bit (64 - w) (sint (push_bit (64 - w) v)))"

definition kas_unsigned :: "IntKind \<Rightarrow> u64 \<Rightarrow> u128" where
  "kas_unsigned k bits = (let w = kwidth k
     in if w = 64 then ucast bits else ucast (bits AND (push_bit w 1 - 1)))"

definition narrow :: "IntKind \<Rightarrow> u128 \<Rightarrow> u64" where
  "narrow k masked = (let w = kwidth k
     in if w = 64 then ucast masked else ucast (masked AND (push_bit w 1 - 1)))"

text \<open>The tail \<^verbatim>\<open>if w == 64 { r as u64 } else { (r as u64) & ((1u64 << w) - 1) }\<close> of the signed
  operations.\<close>

definition slot_of :: "IntKind \<Rightarrow> int \<Rightarrow> u64" where
  "slot_of k r = (let w = kwidth k
     in if w = 64 then word_of_int r else word_of_int r AND (push_bit w 1 - 1))"

definition mask128 :: "nat \<Rightarrow> u128" where
  "mask128 w = (if w = 128 then - 1 else push_bit w 1 - 1)"

section \<open>Host operations\<close>

definition i128_checked :: "int \<Rightarrow> int option" where
  "i128_checked r = (if in_signed 128 r then Some r else None)"

definition i128_saturate :: "int \<Rightarrow> int" where
  "i128_saturate r = max (- (2 ^ 127)) (min (2 ^ 127 - 1) r)"

definition u128_checked :: "int \<Rightarrow> u128 option" where
  "u128_checked r = (if 0 \<le> r \<and> r < 2 ^ 128 then Some (word_of_int r) else None)"

definition u128_saturate :: "int \<Rightarrow> u128" where
  "u128_saturate r = word_of_int (max 0 (min (2 ^ 128 - 1) r))"

definition i128_checked_add :: "int \<Rightarrow> int \<Rightarrow> int option" where
  "i128_checked_add x y = i128_checked (x + y)"
definition i128_checked_sub :: "int \<Rightarrow> int \<Rightarrow> int option" where
  "i128_checked_sub x y = i128_checked (x - y)"
definition i128_checked_mul :: "int \<Rightarrow> int \<Rightarrow> int option" where
  "i128_checked_mul x y = i128_checked (x * y)"
definition u128_checked_add :: "u128 \<Rightarrow> u128 \<Rightarrow> u128 option" where
  "u128_checked_add x y = u128_checked (uint x + uint y)"
definition u128_checked_sub :: "u128 \<Rightarrow> u128 \<Rightarrow> u128 option" where
  "u128_checked_sub x y = u128_checked (uint x - uint y)"
definition u128_checked_mul :: "u128 \<Rightarrow> u128 \<Rightarrow> u128 option" where
  "u128_checked_mul x y = u128_checked (uint x * uint y)"

section \<open>Trapping operations\<close>

definition ok_or :: "'a option \<Rightarrow> 'e \<Rightarrow> ('e, 'a) result" where
  "ok_or m e = (case m of Some x \<Rightarrow> Inr x | None \<Rightarrow> Inl e)"

definition trap_binop ::
  "(int \<Rightarrow> int \<Rightarrow> int option) \<Rightarrow> (u128 \<Rightarrow> u128 \<Rightarrow> u128 option) \<Rightarrow> u64 \<Rightarrow> u64 \<Rightarrow> IntKind \<Rightarrow>
   (TrapKind, u64) result" where
  "trap_binop op uop a b k =
     (if ksigned k
      then let (lo, hi) = bounds k
           in bindR (ok_or (op (kas_signed k a) (kas_signed k b)) Overflow) (\<lambda>r.
                if r < lo \<or> r > hi then Inl Overflow else Inr (slot_of k r))
      else let (_, hi) = bounds k
           in bindR (ok_or (uop (kas_unsigned k a) (kas_unsigned k b)) Overflow) (\<lambda>r.
                if r > word_of_int hi then Inl Overflow else Inr (narrow k r)))"

definition trap_add :: "u64 \<Rightarrow> u64 \<Rightarrow> IntKind \<Rightarrow> (TrapKind, u64) result" where
  "trap_add a b k = trap_binop i128_checked_add u128_checked_add a b k"

definition trap_sub :: "u64 \<Rightarrow> u64 \<Rightarrow> IntKind \<Rightarrow> (TrapKind, u64) result" where
  "trap_sub a b k = trap_binop i128_checked_sub u128_checked_sub a b k"

definition trap_mul :: "u64 \<Rightarrow> u64 \<Rightarrow> IntKind \<Rightarrow> (TrapKind, u64) result" where
  "trap_mul a b k = trap_binop i128_checked_mul u128_checked_mul a b k"

definition trap_div :: "u64 \<Rightarrow> u64 \<Rightarrow> IntKind \<Rightarrow> (TrapKind, u64) result" where
  "trap_div a b k =
     (if ksigned k
      then let x = kas_signed k a; y = kas_signed k b
           in if y = 0 then Inl DivZero
              else let (lo, _) = bounds k
                   in if x = lo \<and> y = - 1 then Inl Overflow
                      else Inr (slot_of k (x sdiv y))
      else let x = kas_unsigned k a; y = kas_unsigned k b
           in if y = 0 then Inl DivZero else Inr (narrow k (x div y)))"

definition trap_rem :: "u64 \<Rightarrow> u64 \<Rightarrow> IntKind \<Rightarrow> (TrapKind, u64) result" where
  "trap_rem a b k =
     (if ksigned k
      then let x = kas_signed k a; y = kas_signed k b
           in if y = 0 then Inl DivZero
              else let (lo, _) = bounds k
                   in if x = lo \<and> y = - 1 then Inl Overflow
                      else Inr (slot_of k (x smod y))
      else let x = kas_unsigned k a; y = kas_unsigned k b
           in if y = 0 then Inl DivZero else Inr (narrow k (x mod y)))"

definition trap_shl :: "u64 \<Rightarrow> u64 \<Rightarrow> IntKind \<Rightarrow> (TrapKind, u64) result" where
  "trap_shl a count k = (let w = kwidth k
     in if count \<ge> word_of_nat w then Inl Shift
        else let v = kas_unsigned k a
             in Inr (narrow k (push_bit (unat count) v AND mask128 w)))"

definition trap_shr :: "u64 \<Rightarrow> u64 \<Rightarrow> IntKind \<Rightarrow> (TrapKind, u64) result" where
  "trap_shr a count k = (let w = kwidth k
     in if count \<ge> word_of_nat w then Inl Shift
        else if ksigned k
        then let x = kas_signed k a
             in Inr (narrow k (word_of_int (drop_bit (unat count) x) AND mask128 w))
        else Inr (narrow k (drop_bit (unat count) (kas_unsigned k a))))"

definition trap_neg :: "u64 \<Rightarrow> IntKind \<Rightarrow> (TrapKind, u64) result" where
  "trap_neg a k =
     (if ksigned k
      then let (lo, hi) = bounds k; x = kas_signed k a
           in if x = lo then Inl Overflow else Inr (slot_of k (- x))
      else let w = kwidth k in Inr (narrow k ((0 - kas_unsigned k a) AND mask128 w)))"

section \<open>Wrapping operations\<close>

definition wrap_binop :: "(u128 \<Rightarrow> u128 \<Rightarrow> u128) \<Rightarrow> u64 \<Rightarrow> u64 \<Rightarrow> IntKind \<Rightarrow> u64" where
  "wrap_binop op a b k = (let w = kwidth k
     in narrow k (op (kas_unsigned k a AND mask128 w) (kas_unsigned k b AND mask128 w) AND mask128 w))"

definition wrap_add :: "u64 \<Rightarrow> u64 \<Rightarrow> IntKind \<Rightarrow> u64" where
  "wrap_add a b k = wrap_binop (+) a b k"

definition wrap_sub :: "u64 \<Rightarrow> u64 \<Rightarrow> IntKind \<Rightarrow> u64" where
  "wrap_sub a b k = wrap_binop (-) a b k"

definition wrap_mul :: "u64 \<Rightarrow> u64 \<Rightarrow> IntKind \<Rightarrow> u64" where
  "wrap_mul a b k = wrap_binop (*) a b k"

definition wrap_div :: "u64 \<Rightarrow> u64 \<Rightarrow> IntKind \<Rightarrow> (TrapKind, u64) result" where
  "wrap_div a b k =
     (if ksigned k
      then let x = kas_signed k a; y = kas_signed k b
           in if y = 0 then Inl DivZero
              else let (lo, _) = bounds k
                   in if x = lo \<and> y = - 1
                      then Inr (narrow k (word_of_int lo AND mask128 (kwidth k)))
                      else Inr (slot_of k (x sdiv y))
      else trap_div a b k)"

definition wrap_rem :: "u64 \<Rightarrow> u64 \<Rightarrow> IntKind \<Rightarrow> (TrapKind, u64) result" where
  "wrap_rem a b k =
     (if ksigned k
      then let x = kas_signed k a; y = kas_signed k b
           in if y = 0 then Inl DivZero
              else let (lo, _) = bounds k
                   in if x = lo \<and> y = - 1 then Inr 0 else Inr (slot_of k (x smod y))
      else trap_rem a b k)"

definition wrap_shl :: "u64 \<Rightarrow> u64 \<Rightarrow> IntKind \<Rightarrow> (TrapKind, u64) result" where
  "wrap_shl a count k = trap_shl a count k"

definition wrap_shr :: "u64 \<Rightarrow> u64 \<Rightarrow> IntKind \<Rightarrow> (TrapKind, u64) result" where
  "wrap_shr a count k = trap_shr a count k"

text \<open>\<^verbatim>\<open>0i128.wrapping_sub(x) as u128\<close> is the residue of \<open>- x\<close> modulo \<open>2 ^ 128\<close>.\<close>

definition wrap_neg :: "u64 \<Rightarrow> IntKind \<Rightarrow> u64" where
  "wrap_neg a k =
     (if ksigned k
      then let w = kwidth k in narrow k (word_of_int (0 - kas_signed k a) AND mask128 w)
      else case trap_neg a k of Inr r \<Rightarrow> r | Inl _ \<Rightarrow> 0)"

section \<open>Saturating operations\<close>

definition sat_clamp :: "int \<Rightarrow> IntKind \<Rightarrow> u64" where
  "sat_clamp v k = (let (lo, hi) = bounds k; c = max lo (min hi v) in slot_of k c)"

definition sat_add :: "u64 \<Rightarrow> u64 \<Rightarrow> IntKind \<Rightarrow> u64" where
  "sat_add a b k =
     (if ksigned k then sat_clamp (i128_saturate (kas_signed k a + kas_signed k b)) k
      else let m = mask128 (kwidth k)
           in narrow k (min (u128_saturate (uint (kas_unsigned k a) + uint (kas_unsigned k b))) m))"

definition sat_sub :: "u64 \<Rightarrow> u64 \<Rightarrow> IntKind \<Rightarrow> u64" where
  "sat_sub a b k =
     (if ksigned k then sat_clamp (i128_saturate (kas_signed k a - kas_signed k b)) k
      else narrow k (u128_saturate (uint (kas_unsigned k a) - uint (kas_unsigned k b))))"

definition sat_mul :: "u64 \<Rightarrow> u64 \<Rightarrow> IntKind \<Rightarrow> u64" where
  "sat_mul a b k =
     (if ksigned k then sat_clamp (i128_saturate (kas_signed k a * kas_signed k b)) k
      else let m = mask128 (kwidth k)
           in narrow k (min (u128_saturate (uint (kas_unsigned k a) * uint (kas_unsigned k b))) m))"

definition sat_div :: "u64 \<Rightarrow> u64 \<Rightarrow> IntKind \<Rightarrow> (TrapKind, u64) result" where
  "sat_div a b k =
     (if ksigned k
      then let x = kas_signed k a; y = kas_signed k b
           in if y = 0 then Inl DivZero
              else let (lo, hi) = bounds k
                   in if x = lo \<and> y = - 1 then Inr (sat_clamp (hi + 1) k)
                      else Inr (sat_clamp (x sdiv y) k)
      else trap_div a b k)"

definition sat_rem :: "u64 \<Rightarrow> u64 \<Rightarrow> IntKind \<Rightarrow> (TrapKind, u64) result" where
  "sat_rem a b k =
     (if ksigned k
      then let x = kas_signed k a; y = kas_signed k b
           in if y = 0 then Inl DivZero
              else let (lo, _) = bounds k
                   in if x = lo \<and> y = - 1 then Inr 0 else Inr (sat_clamp (x smod y) k)
      else trap_rem a b k)"

text \<open>The left shift of an \<^verbatim>\<open>i128\<close> or \<^verbatim>\<open>u128\<close> drops the bits above 128.\<close>

definition sat_shl :: "u64 \<Rightarrow> u64 \<Rightarrow> IntKind \<Rightarrow> (TrapKind, u64) result" where
  "sat_shl a count k = (let w = kwidth k
     in if count \<ge> word_of_nat w then Inl Shift
        else if ksigned k
        then Inr (sat_clamp (as_signed 128 (push_bit (unat count) (kas_signed k a))) k)
        else let (_, hi) = bounds k; v = push_bit (unat count) (kas_unsigned k a)
             in Inr (narrow k (min v (word_of_int hi))))"

definition sat_shr :: "u64 \<Rightarrow> u64 \<Rightarrow> IntKind \<Rightarrow> (TrapKind, u64) result" where
  "sat_shr a count k = trap_shr a count k"

definition sat_neg :: "u64 \<Rightarrow> IntKind \<Rightarrow> u64" where
  "sat_neg a k = (if ksigned k then sat_clamp (0 - kas_signed k a) k else wrap_neg a k)"

section \<open>Dispatch\<close>

definition int_binop :: "string \<Rightarrow> ArithMode \<Rightarrow> u64 \<Rightarrow> u64 \<Rightarrow> IntKind \<Rightarrow> (TrapKind, u64) result" where
  "int_binop op mode a b k =
     (if op = ''add'' then
        (case mode of Trap \<Rightarrow> trap_add a b k | Wrap \<Rightarrow> Inr (wrap_add a b k)
         | Unchecked \<Rightarrow> Inr (wrap_add a b k) | Sat \<Rightarrow> Inr (sat_add a b k))
      else if op = ''sub'' then
        (case mode of Trap \<Rightarrow> trap_sub a b k | Wrap \<Rightarrow> Inr (wrap_sub a b k)
         | Unchecked \<Rightarrow> Inr (wrap_sub a b k) | Sat \<Rightarrow> Inr (sat_sub a b k))
      else if op = ''mul'' then
        (case mode of Trap \<Rightarrow> trap_mul a b k | Wrap \<Rightarrow> Inr (wrap_mul a b k)
         | Unchecked \<Rightarrow> Inr (wrap_mul a b k) | Sat \<Rightarrow> Inr (sat_mul a b k))
      else if op = ''div'' then
        (case mode of Trap \<Rightarrow> trap_div a b k | Wrap \<Rightarrow> wrap_div a b k
         | Unchecked \<Rightarrow> wrap_div a b k | Sat \<Rightarrow> sat_div a b k)
      else if op = ''rem'' then
        (case mode of Trap \<Rightarrow> trap_rem a b k | Wrap \<Rightarrow> wrap_rem a b k
         | Unchecked \<Rightarrow> wrap_rem a b k | Sat \<Rightarrow> sat_rem a b k)
      else if op = ''shl'' then
        (case mode of Sat \<Rightarrow> sat_shl a b k | _ \<Rightarrow> trap_shl a b k)
      else if op = ''shr'' then trap_shr a b k
      else Inl Overflow)"

definition int_neg :: "ArithMode \<Rightarrow> u64 \<Rightarrow> IntKind \<Rightarrow> (TrapKind, u64) result" where
  "int_neg mode a k =
     (case mode of Trap \<Rightarrow> trap_neg a k
      | Wrap \<Rightarrow> Inr (wrap_neg a k) | Unchecked \<Rightarrow> Inr (wrap_neg a k)
      | Sat \<Rightarrow> Inr (sat_neg a k))"

definition icmp :: "u64 \<Rightarrow> u64 \<Rightarrow> IntKind \<Rightarrow> CmpPred \<Rightarrow> bool" where
  "icmp a b k pred =
     (if ksigned k
      then let x = kas_signed k a; y = kas_signed k b
           in case pred of Cmp_Eq \<Rightarrow> x = y | Cmp_Ne \<Rightarrow> x \<noteq> y | Cmp_Lt \<Rightarrow> x < y
              | Cmp_Le \<Rightarrow> x \<le> y | Cmp_Gt \<Rightarrow> x > y | Cmp_Ge \<Rightarrow> x \<ge> y
      else let x = kas_unsigned k a; y = kas_unsigned k b
           in case pred of Cmp_Eq \<Rightarrow> x = y | Cmp_Ne \<Rightarrow> x \<noteq> y | Cmp_Lt \<Rightarrow> x < y
              | Cmp_Le \<Rightarrow> x \<le> y | Cmp_Gt \<Rightarrow> x > y | Cmp_Ge \<Rightarrow> x \<ge> y)"

section \<open>Conversions between integer types\<close>

text \<open>The arms of \<^verbatim>\<open>conv_checked\<close>, \<^verbatim>\<open>conv_wrap\<close> and \<^verbatim>\<open>conv_sat\<close> whose source and target are both
  integers.\<close>

definition kvalue :: "IntKind \<Rightarrow> u64 \<Rightarrow> int" where
  "kvalue k bits = (if ksigned k then kas_signed k bits else uint (kas_unsigned k bits))"

definition conv_checked_int :: "u64 \<Rightarrow> IntKind \<Rightarrow> IntKind \<Rightarrow> (TrapKind, u64) result" where
  "conv_checked_int src fk tk =
     (let v = (if ksigned fk then kas_signed fk src else as_signed 128 (uint (kas_unsigned fk src)));
          (lo, hi) = bounds tk
      in if v < lo \<or> v > hi then Inl CheckedConversion else Inr (slot_of tk v))"

definition conv_wrap_int :: "u64 \<Rightarrow> IntKind \<Rightarrow> IntKind \<Rightarrow> u64" where
  "conv_wrap_int src fk tk =
     (let w = kwidth tk;
          v = (if ksigned fk then word_of_int (kas_signed fk src) else kas_unsigned fk src)
      in narrow tk (v AND mask128 w))"

definition conv_sat_int :: "u64 \<Rightarrow> IntKind \<Rightarrow> IntKind \<Rightarrow> u64" where
  "conv_sat_int src fk tk =
     (let v = (if ksigned fk then kas_signed fk src else as_signed 128 (uint (kas_unsigned fk src)))
      in sat_clamp v tk)"

end
