(* ===== verification/Arith_Laws.thy ===== *)
theory Arith_Laws
  imports Arith_Int
begin

text \<open>
  The integer operations against unbounded arithmetic. \<open>kvalue\<close> is the number a slot stands for
  at a type, \<open>repr\<close> the slot of a number (its residue modulo \<open>2 ^ width\<close>), \<open>kclamp\<close> the nearest
  number of the type. The locales \<open>exact_op\<close> and \<open>ring_op\<close> prove once what the trapping,
  saturating and wrapping schemes compute from a host operation; they are interpreted for addition,
  subtraction and multiplication.
\<close>

section \<open>Slots and numbers\<close>

definition repr :: "IntKind \<Rightarrow> int \<Rightarrow> u64" where
  "repr k r = word_of_int (take_bit (kwidth k) r)"

definition klo :: "IntKind \<Rightarrow> int" where "klo k = fst (bounds k)"
definition khi :: "IntKind \<Rightarrow> int" where "khi k = snd (bounds k)"

definition in_kind :: "IntKind \<Rightarrow> int \<Rightarrow> bool" where
  "in_kind k r \<longleftrightarrow> klo k \<le> r \<and> r \<le> khi k"

definition kclamp :: "IntKind \<Rightarrow> int \<Rightarrow> int" where
  "kclamp k r = max (klo k) (min (khi k) r)"

lemma bounds_pair: "bounds k = (klo k, khi k)"
  by (simp add: klo_def khi_def)

lemma kwidth_bounds [simp]: "0 < kwidth k" "kwidth k \<le> 64"
  by (cases k; simp)+

lemma kwidth_min_128 [simp]: "kwidth k \<le> 128" "min (kwidth k) 128 = kwidth k" "min 128 (kwidth k) = kwidth k"
  using kwidth_bounds(2) [of k] by linarith+

lemma word_mask_and: "x AND (push_bit n 1 - 1) = take_bit n (x :: 'a::len word)"
  by (simp add: take_bit_eq_mask mask_eq_exp_minus_1)

lemma mask128_and: "x AND mask128 (kwidth k) = take_bit (kwidth k) x"
proof -
  have "kwidth k \<noteq> 128" using kwidth_bounds(2) [of k] by linarith
  then show ?thesis by (simp add: mask128_def take_bit_eq_mask mask_eq_exp_minus_1)
qed

lemma uint_repr [simp]: "uint (repr k r) = take_bit (kwidth k) r"
  by (simp add: repr_def uint_word_of_int_eq min_absorb2)

lemma slot_of_repr: "slot_of k r = repr k r"
  unfolding slot_of_def Let_def word_mask_and word_uint_eq_iff uint_repr
  by (simp add: uint_word_of_int_eq unsigned_take_bit_eq min_def)

lemma narrow_repr: "narrow k m = repr k (uint m)"
  unfolding narrow_def Let_def word_mask_and word_uint_eq_iff uint_repr
  by (simp add: unsigned_ucast_eq unsigned_take_bit_eq min_def)

lemma uint_u64_lt: "uint (a :: u64) < 2 ^ 64"
  using uint_lt2p [of a] by simp

lemma uint_kas_unsigned: "uint (kas_unsigned k a) = take_bit (kwidth k) (uint a)"
  unfolding kas_unsigned_def Let_def word_mask_and
  using uint_u64_lt [of a] by (simp add: unsigned_take_bit_eq take_bit_int_eq_self)

lemma kas_signed_eq: "kas_signed k a = signed_take_bit (kwidth k - 1) (uint a)"
proof (rule bit_eqI)
  fix n
  show "bit (kas_signed k a) n = bit (signed_take_bit (kwidth k - 1) (uint a)) n"
    unfolding kas_signed_def Let_def word_mask_and
    by (cases k) (auto simp: sint_uint bit_simps min_def)
qed

lemma kvalue_eq:
  "kvalue k a = (if ksigned k then signed_take_bit (kwidth k - 1) (uint a) else take_bit (kwidth k) (uint a))"
  by (simp add: kvalue_def kas_signed_eq uint_kas_unsigned)

lemma klo_khi:
  "ksigned k \<Longrightarrow> klo k = - (2 ^ (kwidth k - 1))" "ksigned k \<Longrightarrow> khi k = 2 ^ (kwidth k - 1) - 1"
  "\<not> ksigned k \<Longrightarrow> klo k = 0" "\<not> ksigned k \<Longrightarrow> khi k = 2 ^ kwidth k - 1"
  by (simp_all add: klo_def khi_def bounds_def Let_def)

lemma take_bit_signed_take_bit_w:
  "0 < w \<Longrightarrow> take_bit w (signed_take_bit (w - Suc 0) x) = take_bit w (x :: int)"
  by (cases w) (simp_all add: take_bit_signed_take_bit)

lemma signed_take_bit_take_bit_w:
  "0 < w \<Longrightarrow> signed_take_bit (w - Suc 0) (take_bit w x) = signed_take_bit (w - Suc 0) (x :: int)"
  by (cases w) (simp_all add: signed_take_bit_take_bit)

lemma take_bit_kvalue [simp]: "take_bit (kwidth k) (kvalue k a) = take_bit (kwidth k) (uint a)"
  by (simp add: kvalue_eq take_bit_signed_take_bit_w)

lemma repr_cong: "take_bit (kwidth k) r = take_bit (kwidth k) s \<Longrightarrow> repr k r = repr k s"
  by (simp add: repr_def)

text \<open>The value of a slot is in the type, and a number of the type is the value of its slot.\<close>

lemma kvalue_in_kind [simp]: "in_kind k (kvalue k a)"
proof (cases "ksigned k")
  case True
  have "- (2 ^ (kwidth k - 1)) \<le> signed_take_bit (kwidth k - 1) (uint a)"
    "signed_take_bit (kwidth k - 1) (uint a) < 2 ^ (kwidth k - 1)"
    by (rule signed_take_bit_int_greater_eq_minus_exp signed_take_bit_int_less_exp)+
  with True show ?thesis by (simp add: in_kind_def klo_khi kvalue_eq)
next
  case False
  then show ?thesis by (simp add: in_kind_def klo_khi kvalue_eq)
qed

lemma kvalue_repr [simp]: "in_kind k r \<Longrightarrow> kvalue k (repr k r) = r"
proof (cases "ksigned k")
  case True
  moreover assume "in_kind k r"
  ultimately have "signed_take_bit (kwidth k - 1) r = r"
    by (intro signed_take_bit_int_eq_self) (simp_all add: in_kind_def klo_khi)
  with True show ?thesis by (simp add: kvalue_eq signed_take_bit_take_bit_w)
next
  case False
  moreover assume "in_kind k r"
  ultimately have "take_bit (kwidth k) r = r"
    by (intro take_bit_int_eq_self) (simp_all add: in_kind_def klo_khi)
  with False show ?thesis by (simp add: kvalue_eq)
qed

lemma kclamp_in_kind [simp]: "in_kind k (kclamp k r)"
proof -
  have "klo k \<le> khi k" using kvalue_in_kind [of k 0] by (simp add: in_kind_def)
  then show ?thesis by (simp add: in_kind_def kclamp_def)
qed

lemma kclamp_id [simp]: "in_kind k r \<Longrightarrow> kclamp k r = r"
  by (simp add: in_kind_def kclamp_def)

text \<open>Every operand is far from the limits of the 128-bit host types.\<close>

lemma in_kind_64: "in_kind k r \<Longrightarrow> - (2 ^ 63) \<le> r \<and> r < 2 ^ 64"
  by (cases k) (auto simp: in_kind_def klo_def khi_def bounds_def)

lemma signed_in_kind_64: "ksigned k \<Longrightarrow> in_kind k r \<Longrightarrow> - (2 ^ 63) \<le> r \<and> r < 2 ^ 63"
  by (cases k) (auto simp: in_kind_def klo_def khi_def bounds_def)

section \<open>The schemes\<close>

text \<open>\<open>exact_op\<close>: a pair of checked host operations that compute \<open>f\<close> exactly when it fits the host
  width. Trapping and saturating arithmetic over it follow \<open>f\<close>.\<close>

locale exact_op =
  fixes f :: "int \<Rightarrow> int \<Rightarrow> int"
    and op :: "int \<Rightarrow> int \<Rightarrow> int option"
    and uop :: "u128 \<Rightarrow> u128 \<Rightarrow> u128 option"
  assumes op_checked: "op x y = i128_checked (f x y)"
    and uop_checked: "uop p q = u128_checked (f (uint p) (uint q))"
    and signed_room: "- (2 ^ 63) \<le> x \<Longrightarrow> x < 2 ^ 63 \<Longrightarrow> - (2 ^ 63) \<le> y \<Longrightarrow> y < 2 ^ 63 \<Longrightarrow>
      in_signed 128 (f x y)"
begin

lemma trap_signed:
  assumes "ksigned k"
  shows "trap_binop op uop a b k =
    (if in_kind k (f (kvalue k a) (kvalue k b)) then Inr (repr k (f (kvalue k a) (kvalue k b)))
     else Inl Overflow)"
proof -
  let ?x = "kas_signed k a" and ?y = "kas_signed k b"
  have v: "kvalue k a = ?x" "kvalue k b = ?y" using assms by (simp_all add: kvalue_def)
  have "- (2 ^ 63) \<le> ?x" "?x < 2 ^ 63" "- (2 ^ 63) \<le> ?y" "?y < 2 ^ 63"
    using signed_in_kind_64 [OF assms kvalue_in_kind] v by metis+
  then have "in_signed 128 (f ?x ?y)" by (rule signed_room)
  then show ?thesis using assms
    by (simp add: trap_binop_def bounds_pair v op_checked i128_checked_def ok_or_def slot_of_repr
        in_kind_def not_less Let_def)
qed

lemma trap_unsigned:
  assumes "\<not> ksigned k"
  shows "trap_binop op uop a b k =
    (if in_kind k (f (kvalue k a) (kvalue k b)) then Inr (repr k (f (kvalue k a) (kvalue k b)))
     else Inl Overflow)"
proof -
  let ?r = "f (kvalue k a) (kvalue k b)"
  have v: "kvalue k a = uint (kas_unsigned k a)" "kvalue k b = uint (kas_unsigned k b)"
    using assms by (simp_all add: kvalue_def)
  have hi: "0 \<le> khi k" "khi k < 2 ^ 128" "klo k = 0"
    using assms by (cases k; simp add: klo_def khi_def bounds_def)+
  have cmp: "(word_of_int ?r :: u128) > word_of_int (khi k) \<longleftrightarrow> ?r > khi k" if "0 \<le> ?r" "?r < 2 ^ 128"
    using that hi by (simp add: word_less_def uint_word_of_int_eq take_bit_int_eq_self)
  show ?thesis
  proof (cases "0 \<le> ?r \<and> ?r < 2 ^ 128")
    case True
    then have "uint (word_of_int ?r :: u128) = ?r"
      by (simp add: uint_word_of_int_eq take_bit_int_eq_self)
    with True cmp hi assms show ?thesis
      by (simp add: trap_binop_def bounds_pair uop_checked u128_checked_def ok_or_def narrow_repr
          in_kind_def not_less Let_def flip: v)
  next
    case False
    then have "\<not> in_kind k ?r" using hi by (auto simp: in_kind_def)
    with False assms show ?thesis
      by (simp add: trap_binop_def bounds_pair uop_checked u128_checked_def ok_or_def Let_def flip: v)
  qed
qed

lemma trap: "trap_binop op uop a b k =
  (if in_kind k (f (kvalue k a) (kvalue k b)) then Inr (repr k (f (kvalue k a) (kvalue k b)))
   else Inl Overflow)"
  using trap_signed trap_unsigned by blast

end

text \<open>\<open>ring_op\<close>: a host operation on 128-bit words that computes \<open>f\<close> modulo \<open>2 ^ 128\<close>, where \<open>f\<close>
  respects residues. Wrapping arithmetic over it is \<open>f\<close> modulo the width of the type.\<close>

locale ring_op =
  fixes f :: "int \<Rightarrow> int \<Rightarrow> int"
    and wop :: "u128 \<Rightarrow> u128 \<Rightarrow> u128"
  assumes wop_mod: "uint (wop p q) = take_bit 128 (f (uint p) (uint q))"
    and residues: "take_bit n x = take_bit n x' \<Longrightarrow> take_bit n y = take_bit n y' \<Longrightarrow>
      take_bit n (f x y) = take_bit n (f x' y')"
begin

lemma wrap: "wrap_binop wop a b k = repr k (f (kvalue k a) (kvalue k b))"
proof -
  let ?w = "kwidth k"
  have w: "min ?w 128 = ?w" using kwidth_bounds(2) [of k] by linarith
  have "wrap_binop wop a b k = repr k (f (take_bit ?w (uint a)) (take_bit ?w (uint b)))"
    by (rule repr_cong [THEN trans [rotated]], unfold wrap_binop_def Let_def mask128_and narrow_repr)
      (simp_all add: unsigned_take_bit_eq wop_mod uint_kas_unsigned w repr_def)
  also have "\<dots> = repr k (f (kvalue k a) (kvalue k b))"
    by (rule repr_cong, rule residues) simp_all
  finally show ?thesis .
qed

end

section \<open>Interpretations\<close>

lemma abs_le_mult:
  assumes "- (2 ^ 63) \<le> (x :: int)" "x < 2 ^ 63" "- (2 ^ 63) \<le> y" "y < 2 ^ 63"
  shows "\<bar>x * y\<bar> \<le> 2 ^ 126"
proof -
  have "\<bar>x\<bar> \<le> 2 ^ 63" "\<bar>y\<bar> \<le> 2 ^ 63" using assms by linarith+
  then have "\<bar>x\<bar> * \<bar>y\<bar> \<le> 2 ^ 63 * 2 ^ 63" by (intro mult_mono) auto
  then show ?thesis by (simp add: abs_mult)
qed

interpretation add: exact_op "(+)" i128_checked_add u128_checked_add
  by unfold_locales (auto simp: i128_checked_add_def u128_checked_add_def in_signed_def)

interpretation sub: exact_op "(-)" i128_checked_sub u128_checked_sub
  by unfold_locales (auto simp: i128_checked_sub_def u128_checked_sub_def in_signed_def)

interpretation mul: exact_op "(*)" i128_checked_mul u128_checked_mul
proof unfold_locales
  fix x y :: int
  assume "- (2 ^ 63) \<le> x" "x < 2 ^ 63" "- (2 ^ 63) \<le> y" "y < 2 ^ 63"
  from abs_le_mult [OF this] show "in_signed 128 (x * y)" by (auto simp: in_signed_def abs_le_iff)
qed (simp_all add: i128_checked_mul_def u128_checked_mul_def)

interpretation wadd: ring_op "(+)" "(+)"
  by unfold_locales (auto simp: uint_word_ariths take_bit_eq_mod intro: mod_add_cong)

interpretation wsub: ring_op "(-)" "(-)"
  by unfold_locales (auto simp: uint_word_ariths take_bit_eq_mod intro: mod_diff_cong)

interpretation wmul: ring_op "(*)" "(*)"
  by unfold_locales (auto simp: uint_word_ariths take_bit_eq_mod intro: mod_mult_cong)

section \<open>Saturation\<close>

lemma sat_clamp_eq: "sat_clamp v k = repr k (kclamp k v)"
  by (simp add: sat_clamp_def bounds_pair kclamp_def slot_of_repr Let_def)

lemma i128_saturate_id: "in_signed 128 r \<Longrightarrow> i128_saturate r = r"
  by (simp add: i128_saturate_def in_signed_def)

lemma sat_signed:
  assumes "ksigned k" and "in_signed 128 (f (kvalue k a) (kvalue k b))"
  shows "sat_clamp (i128_saturate (f (kas_signed k a) (kas_signed k b))) k
    = repr k (kclamp k (f (kvalue k a) (kvalue k b)))"
  using assms by (simp add: kvalue_def i128_saturate_id sat_clamp_eq)

lemma uint_mask128: "uint (mask128 (kwidth k)) = 2 ^ kwidth k - 1"
  by (cases k) (simp_all add: mask128_def)

lemma uint_u128_saturate: "uint (u128_saturate r) = max 0 (min (2 ^ 128 - 1) r)"
  by (simp add: u128_saturate_def uint_word_of_int_eq take_bit_int_eq_self)

lemma uint_min: "uint (min x y) = min (uint x) (uint y)"
  by (simp add: min_def word_le_def)

lemma sat_unsigned:
  assumes "\<not> ksigned k" and "r < 2 ^ 128"
  shows "narrow k (min (u128_saturate r) (mask128 (kwidth k))) = repr k (kclamp k r)"
proof -
  have "(2 :: int) ^ kwidth k \<le> 2 ^ 64" by (rule power_increasing) simp_all
  then have "min (max 0 (min (2 ^ 128 - 1) r)) (2 ^ kwidth k - 1) = max 0 (min (2 ^ kwidth k - 1) r)"
    using assms(2) zero_less_power [of "2 :: int" "kwidth k"] by (simp add: min_def max_def, linarith)
  with assms(1) show ?thesis
    by (simp add: narrow_repr uint_min uint_mask128 uint_u128_saturate kclamp_def klo_khi)
qed

lemma unsigned_range: "\<not> ksigned k \<Longrightarrow> 0 \<le> kvalue k a \<and> kvalue k a < 2 ^ 64"
  using kvalue_in_kind [of k a] in_kind_64 [of k "kvalue k a"] by (simp add: in_kind_def klo_khi)

lemma sat_add_eq: "sat_add a b k = repr k (kclamp k (kvalue k a + kvalue k b))"
proof (cases "ksigned k")
  case True
  then have "in_signed 128 (kvalue k a + kvalue k b)"
    using signed_in_kind_64 [OF True kvalue_in_kind] by (intro add.signed_room) blast+
  with True show ?thesis by (simp add: sat_add_def sat_signed)
next
  case False
  then have "kvalue k a + kvalue k b < 2 ^ 128"
    using unsigned_range [OF False, of a] unsigned_range [OF False, of b] by simp
  from sat_unsigned [OF False this] False show ?thesis by (simp add: sat_add_def kvalue_def)
qed

lemma sat_mul_eq: "sat_mul a b k = repr k (kclamp k (kvalue k a * kvalue k b))"
proof (cases "ksigned k")
  case True
  then have "in_signed 128 (kvalue k a * kvalue k b)"
    using signed_in_kind_64 [OF True kvalue_in_kind] by (intro mul.signed_room) blast+
  with True show ?thesis by (simp add: sat_mul_def sat_signed)
next
  case False
  then have "kvalue k a * kvalue k b < 2 ^ 64 * 2 ^ 64"
    using unsigned_range [OF False] by (intro mult_strict_mono) auto
  then have "kvalue k a * kvalue k b < 2 ^ 128" by simp
  from sat_unsigned [OF False this] False show ?thesis by (simp add: sat_mul_def kvalue_def)
qed

lemma sat_sub_eq: "sat_sub a b k = repr k (kclamp k (kvalue k a - kvalue k b))"
proof (cases "ksigned k")
  case True
  then have "in_signed 128 (kvalue k a - kvalue k b)"
    using signed_in_kind_64 [OF True kvalue_in_kind] by (intro sub.signed_room) blast+
  with True show ?thesis by (simp add: sat_sub_def sat_signed)
next
  case False
  have "kvalue k a - kvalue k b \<le> khi k" "kvalue k a - kvalue k b < 2 ^ 128 - 1"
    using unsigned_range [OF False, of a] unsigned_range [OF False, of b] kvalue_in_kind [of k a]
    unfolding in_kind_def by simp_all
  with False show ?thesis
    by (simp add: sat_sub_def narrow_repr uint_u128_saturate kclamp_def klo_khi(3) kvalue_def
        min_def max_def)
qed

section \<open>Division and remainder\<close>

text \<open>The only quotient outside a signed type is \<open>MIN / - 1\<close>.\<close>

lemma sdiv_in_kind:
  assumes "ksigned k" "in_kind k x" "y \<noteq> 0"
  shows "in_kind k (x sdiv y) \<longleftrightarrow> \<not> (x = klo k \<and> y = - 1)"
proof -
  let ?M = "2 ^ (kwidth k - 1) :: int"
  have x: "- ?M \<le> x" "x < ?M" using assms by (auto simp: in_kind_def klo_khi)
  have q: "- \<bar>x\<bar> \<le> x sdiv y" "x sdiv y \<le> \<bar>x\<bar>" using sdiv_int_range [of x y] by auto
  have "x sdiv y = ?M \<longleftrightarrow> x = - ?M \<and> y = - 1"
  proof
    assume e: "x sdiv y = ?M"
    with q x have x': "x = - ?M" by linarith
    with e have "x sdiv y = - x" "x \<noteq> 0" by simp_all
    with x' show "x = - ?M \<and> y = - 1" using int_sdiv_negated_is_minus1 by blast
  qed simp
  moreover have "in_kind k (x sdiv y) \<longleftrightarrow> x sdiv y \<noteq> ?M"
    using q x assms(1) by (auto simp: in_kind_def klo_khi)
  ultimately show ?thesis using assms(1) by (simp add: klo_khi)
qed

lemma smod_in_kind:
  assumes "in_kind k x" "in_kind k y" "y \<noteq> 0"
  shows "in_kind k (x smod y)"
proof (cases "ksigned k")
  case True
  then show ?thesis using smod_int_range [OF assms(3), of x] assms(2)
    by (auto simp: in_kind_def klo_khi abs_if split: if_splits)
next
  case False
  with assms have "0 \<le> x" "0 < y" "y \<le> khi k" by (auto simp: in_kind_def klo_khi(3))
  with False show ?thesis using smod_int_compares(1,2) [of x y] by (simp add: in_kind_def klo_khi(3))
qed

lemma unsigned_sdiv:
  assumes "0 \<le> (x :: int)" "0 \<le> y"
  shows "x sdiv y = x div y" "x smod y = x mod y"
  using assms by (auto simp: signed_divide_int_def signed_modulo_int_def sgn_if)

lemma unsigned_sdiv_in_kind:
  assumes "\<not> ksigned k" "in_kind k x" "in_kind k y"
  shows "in_kind k (x sdiv y)"
proof -
  have x: "0 \<le> x" "0 \<le> y" "x \<le> khi k" using assms by (auto simp: in_kind_def klo_khi(3))
  have "0 \<le> x div y" using x by (cases "y = 0") (simp_all add: pos_imp_zdiv_nonneg_iff)
  moreover have "x div y \<le> x" using sdiv_int_range [of x y] x by (simp add: unsigned_sdiv)
  ultimately show ?thesis using x assms(1) by (simp add: unsigned_sdiv in_kind_def klo_khi(3))
qed

lemma unsigned_kas_zero: "\<not> ksigned k \<Longrightarrow> kas_unsigned k b = 0 \<longleftrightarrow> kvalue k b = 0"
  by (simp add: kvalue_def uint_0_iff)

lemma trap_div_eq: "trap_div a b k =
  (if kvalue k b = 0 then Inl DivZero
   else if in_kind k (kvalue k a sdiv kvalue k b) then Inr (repr k (kvalue k a sdiv kvalue k b))
   else Inl Overflow)"
proof (cases "ksigned k")
  case True
  then show ?thesis
    using sdiv_in_kind [OF True kvalue_in_kind [of k a], of "kvalue k b"]
    by (auto simp: trap_div_def bounds_pair slot_of_repr Let_def kvalue_def)
next
  case False
  then show ?thesis
    using unsigned_sdiv_in_kind [OF False kvalue_in_kind [of k a] kvalue_in_kind [of k b]]
      unsigned_range [OF False]
    by (simp add: trap_div_def unsigned_kas_zero Let_def narrow_repr uint_div unsigned_sdiv kvalue_def)
qed

lemma trap_rem_eq: "trap_rem a b k =
  (if kvalue k b = 0 then Inl DivZero
   else if in_kind k (kvalue k a sdiv kvalue k b) then Inr (repr k (kvalue k a smod kvalue k b))
   else Inl Overflow)"
proof (cases "ksigned k")
  case True
  then show ?thesis
    using sdiv_in_kind [OF True kvalue_in_kind [of k a], of "kvalue k b"]
    by (auto simp: trap_rem_def bounds_pair slot_of_repr Let_def kvalue_def)
next
  case False
  then show ?thesis
    using unsigned_sdiv_in_kind [OF False kvalue_in_kind [of k a] kvalue_in_kind [of k b]]
      unsigned_range [OF False]
    by (simp add: trap_rem_def unsigned_kas_zero Let_def narrow_repr uint_mod unsigned_sdiv kvalue_def)
qed

lemma repr_minus_lo: "ksigned k \<Longrightarrow> repr k (- klo k) = repr k (klo k)"
  by (rule repr_cong) (cases k; simp add: klo_def bounds_def take_bit_eq_mod)

lemma wrap_div_eq: "wrap_div a b k =
  (if kvalue k b = 0 then Inl DivZero else Inr (repr k (kvalue k a sdiv kvalue k b)))"
proof (cases "ksigned k")
  case True
  have "take_bit (kwidth k) (klo k) = take_bit (kwidth k) (uint (take_bit (kwidth k) (word_of_int (klo k)) :: u128))"
    by (simp add: unsigned_take_bit_eq uint_word_of_int_eq)
  with True repr_minus_lo [OF True] show ?thesis
    by (auto simp: wrap_div_def bounds_pair slot_of_repr Let_def kvalue_def mask128_and narrow_repr
        intro: repr_cong)
next
  case False
  then show ?thesis using unsigned_sdiv_in_kind [OF False] by (simp add: wrap_div_def trap_div_eq)
qed

lemma smod_one [simp]: "(x :: int) smod 1 = 0"
  by (simp add: signed_modulo_int_def)

lemma wrap_rem_eq: "wrap_rem a b k =
  (if kvalue k b = 0 then Inl DivZero else Inr (repr k (kvalue k a smod kvalue k b)))"
proof (cases "ksigned k")
  case True
  then show ?thesis
    by (auto simp: wrap_rem_def bounds_pair slot_of_repr Let_def kvalue_def repr_def)
next
  case False
  then show ?thesis using unsigned_sdiv_in_kind [OF False] by (simp add: wrap_rem_def trap_rem_eq)
qed

lemma sat_div_eq: "sat_div a b k =
  (if kvalue k b = 0 then Inl DivZero else Inr (repr k (kclamp k (kvalue k a sdiv kvalue k b))))"
proof (cases "ksigned k")
  case True
  then have "- klo k = khi k + 1" by (simp add: klo_khi)
  with True show ?thesis
    by (auto simp: sat_div_def bounds_pair sat_clamp_eq Let_def kvalue_def)
next
  case False
  then show ?thesis using unsigned_sdiv_in_kind [OF False] by (simp add: sat_div_def trap_div_eq)
qed

lemma sat_rem_eq: "sat_rem a b k =
  (if kvalue k b = 0 then Inl DivZero else Inr (repr k (kvalue k a smod kvalue k b)))"
proof (cases "ksigned k")
  case True
  moreover have "kclamp k (kvalue k a smod kvalue k b) = kvalue k a smod kvalue k b" if "kvalue k b \<noteq> 0"
    using smod_in_kind [OF kvalue_in_kind kvalue_in_kind that] by simp
  ultimately show ?thesis
    by (auto simp: sat_rem_def bounds_pair sat_clamp_eq Let_def kvalue_def repr_def)
next
  case False
  then show ?thesis using unsigned_sdiv_in_kind [OF False] by (simp add: sat_rem_def trap_rem_eq)
qed

section \<open>Shifts and negation\<close>

lemma count_ge: "count \<ge> word_of_nat (kwidth k) \<longleftrightarrow> kwidth k \<le> unat (count :: u64)"
  by (cases k) (simp_all add: word_le_nat_alt)

lemma take_bit_mult_cong: "take_bit n x = take_bit n y \<Longrightarrow> take_bit n (x * c) = take_bit n (y * (c :: int))"
  by (rule wmul.residues) simp_all

lemma uint_push_bit_u128: "uint (push_bit n (x :: u128)) = take_bit 128 (uint x * 2 ^ n)"
  unfolding unsigned_push_bit_eq by (simp add: push_bit_eq_mult)

lemma uint_drop_bit_u128: "uint (drop_bit n (x :: u128)) = uint x div 2 ^ n"
  unfolding unsigned_drop_bit_eq using uint_lt2p [of x]
  by (simp add: drop_bit_eq_div take_bit_int_eq_self)

lemma uint_minus_u128: "uint (- (x :: u128)) = take_bit 128 (- uint x)"
  by (simp add: uint_word_ariths take_bit_eq_mod)

lemma uint_word_of_int_u128: "uint (word_of_int r :: u128) = take_bit 128 r"
  by (simp only: uint_word_of_int_eq) simp

lemma trap_shl_eq: "trap_shl a count k =
  (if kwidth k \<le> unat count then Inl Shift else Inr (repr k (kvalue k a * 2 ^ unat count)))"
proof -
  let ?c = "unat count"
  have "repr k (uint (take_bit (kwidth k) (push_bit ?c (kas_unsigned k a)))) = repr k (kvalue k a * 2 ^ ?c)"
  proof (rule repr_cong)
    have "uint (push_bit ?c (kas_unsigned k a)) = take_bit 128 (take_bit (kwidth k) (uint a) * 2 ^ ?c)"
      by (simp only: uint_push_bit_u128 uint_kas_unsigned)
    then show "take_bit (kwidth k) (uint (take_bit (kwidth k) (push_bit ?c (kas_unsigned k a))))
        = take_bit (kwidth k) (kvalue k a * 2 ^ ?c)"
      by (simp add: unsigned_take_bit_eq) (rule take_bit_mult_cong, simp)
  qed
  then show ?thesis by (simp add: trap_shl_def count_ge Let_def mask128_and narrow_repr)
qed

lemma trap_shr_eq: "trap_shr a count k =
  (if kwidth k \<le> unat count then Inl Shift else Inr (repr k (kvalue k a div 2 ^ unat count)))"
proof (cases "ksigned k")
  case True
  then show ?thesis
    by (simp add: trap_shr_def count_ge Let_def mask128_and narrow_repr unsigned_take_bit_eq
        uint_word_of_int_eq drop_bit_eq_div kvalue_def repr_def)
next
  case False
  then show ?thesis
    by (simp add: trap_shr_def count_ge Let_def narrow_repr uint_drop_bit_u128 kvalue_def)
qed

lemma sat_shl_eq: "sat_shl a count k =
  (if kwidth k \<le> unat count then Inl Shift
   else Inr (repr k (kclamp k (kvalue k a * 2 ^ unat count))))"
proof (cases "kwidth k \<le> unat count")
  case False
  then have c: "unat count < 64" using kwidth_bounds(2) [of k] by linarith
  then have p: "(2 :: int) ^ unat count \<le> 2 ^ 63" by (intro power_increasing) auto
  show ?thesis
  proof (cases "ksigned k")
    case True
    let ?x = "kvalue k a"
    have "- (2 ^ 63) \<le> ?x" "?x < 2 ^ 63" using signed_in_kind_64 [OF True kvalue_in_kind] by auto
    then have "\<bar>?x\<bar> \<le> 2 ^ 63" by linarith
    with p have "\<bar>?x\<bar> * 2 ^ unat count \<le> 2 ^ 63 * 2 ^ 63" by (intro mult_mono) auto
    then have "\<bar>?x * 2 ^ unat count\<bar> \<le> 2 ^ 126" by (simp add: abs_mult)
    then have "in_signed 128 (?x * 2 ^ unat count)" by (auto simp: in_signed_def abs_le_iff)
    with True False show ?thesis
      by (simp add: sat_shl_def count_ge Let_def sat_clamp_eq push_bit_eq_mult kvalue_def)
  next
    case unsigned: False
    let ?x = "kvalue k a"
    have x: "0 \<le> ?x" "?x < 2 ^ 64" using unsigned_range [OF unsigned] by auto
    then have "?x * 2 ^ unat count < 2 ^ 64 * 2 ^ 64"
      using p by (intro mult_strict_mono) auto
    then have r: "uint (push_bit (unat count) (kas_unsigned k a)) = ?x * 2 ^ unat count"
      using x unsigned by (simp add: uint_push_bit_u128 kvalue_def take_bit_int_eq_self)
    have "uint (word_of_int (khi k) :: u128) = khi k" "0 \<le> khi k"
      using unsigned by (cases k; simp add: khi_def bounds_def)+
    with r x unsigned False show ?thesis
      by (simp add: sat_shl_def count_ge Let_def bounds_pair narrow_repr uint_min kclamp_def
          klo_khi(3) min.commute max_absorb2)
  qed
qed (simp add: sat_shl_def count_ge Let_def)

lemma trap_neg_eq: "trap_neg a k =
  (if ksigned k \<and> \<not> in_kind k (- kvalue k a) then Inl Overflow else Inr (repr k (- kvalue k a)))"
proof (cases "ksigned k")
  case True
  have "in_kind k (- kvalue k a) \<longleftrightarrow> kvalue k a \<noteq> klo k"
    using kvalue_in_kind [of k a] True by (auto simp: in_kind_def klo_khi)
  with True show ?thesis
    by (simp add: trap_neg_def bounds_pair slot_of_repr Let_def kvalue_def)
next
  case False
  have "take_bit (kwidth k) (uint (- kas_unsigned k a)) = take_bit (kwidth k) (- kvalue k a)"
    using False by (simp add: uint_minus_u128 kvalue_def)
  with False show ?thesis
    by (simp add: trap_neg_def Let_def mask128_and narrow_repr unsigned_take_bit_eq repr_def)
qed

lemma wrap_neg_eq: "wrap_neg a k = repr k (- kvalue k a)"
proof (cases "ksigned k")
  case True
  have "take_bit (kwidth k) (uint (word_of_int (0 - kas_signed k a) :: u128))
      = take_bit (kwidth k) (- kas_signed k a)"
    unfolding uint_word_of_int_u128 by simp
  with True show ?thesis
    unfolding wrap_neg_def Let_def mask128_and narrow_repr unsigned_take_bit_eq
    by (simp add: kvalue_def repr_def)
qed (simp add: wrap_neg_def trap_neg_eq)

lemma sat_neg_eq: "sat_neg a k = repr k (if ksigned k then kclamp k (- kvalue k a) else - kvalue k a)"
  by (simp add: sat_neg_def wrap_neg_eq sat_clamp_eq kvalue_def)

end
