(* ===== verification/Arith_Theorems.thy ===== *)
theory Arith_Theorems
  imports Arith_Laws
begin

text \<open>
  The properties of the interpreter's integer arithmetic: one specification over unbounded
  integers, \<open>spec_binop\<close>, and the refinement of every operation and mode to it; the values the
  trapping mode returns; comparisons; conversions.
\<close>

section \<open>Specification\<close>

text \<open>\<open>fit\<close> says what a mode does with a mathematical result: trap when it is not in the type,
  clamp it, or keep it (the slot holds its residue).\<close>

definition fit :: "ArithMode \<Rightarrow> IntKind \<Rightarrow> int \<Rightarrow> (TrapKind, int) result" where
  "fit mode k r =
     (case mode of Trap \<Rightarrow> if in_kind k r then Inr r else Inl Overflow
      | Sat \<Rightarrow> Inr (kclamp k r) | Wrap \<Rightarrow> Inr r | Unchecked \<Rightarrow> Inr r)"

definition spec_binop ::
  "string \<Rightarrow> ArithMode \<Rightarrow> IntKind \<Rightarrow> int \<Rightarrow> int \<Rightarrow> nat \<Rightarrow> (TrapKind, int) result" where
  "spec_binop op mode k x y count =
     (if op = ''add'' then fit mode k (x + y)
      else if op = ''sub'' then fit mode k (x - y)
      else if op = ''mul'' then fit mode k (x * y)
      else if op = ''div'' then if y = 0 then Inl DivZero else fit mode k (x sdiv y)
      else if op = ''rem'' then
        if y = 0 then Inl DivZero
        else if mode = Trap \<and> \<not> in_kind k (x sdiv y) then Inl Overflow
        else Inr (x smod y)
      else if op = ''shl'' then
        if kwidth k \<le> count then Inl Shift
        else Inr (if mode = Sat then kclamp k (x * 2 ^ count) else x * 2 ^ count)
      else if op = ''shr'' then
        if kwidth k \<le> count then Inl Shift else Inr (x div 2 ^ count)
      else Inl Overflow)"

lemmas trap_eqs = add.trap [folded trap_add_def] sub.trap [folded trap_sub_def]
  mul.trap [folded trap_mul_def]

lemmas wrap_eqs = wadd.wrap [folded wrap_add_def] wsub.wrap [folded wrap_sub_def]
  wmul.wrap [folded wrap_mul_def]

lemmas sat_eqs = sat_add_eq sat_sub_eq sat_mul_eq

lemmas other_eqs = trap_div_eq trap_rem_eq wrap_div_eq wrap_rem_eq sat_div_eq sat_rem_eq
  trap_shl_eq trap_shr_eq sat_shl_eq

lemma int_binop_spec:
  "int_binop op mode a b k =
     bindR (spec_binop op mode k (kvalue k a) (kvalue k b) (unat b)) (\<lambda>r. Inr (repr k r))"
  by (cases mode)
    (auto simp: int_binop_def spec_binop_def fit_def trap_eqs wrap_eqs sat_eqs other_eqs)

text \<open>C13: Every integer operation in every mode computes what the language says over unbounded
  integers: the trapping mode traps \<^verbatim>\<open>overflow\<close> exactly when the result is not in the type, the
  wrapping and unchecked modes keep its residue, the saturating mode its nearest bound; a zero
  divisor and a shift count of at least the width trap in every mode; division truncates towards
  zero, the right shift rounds down, the remainder has the sign of the dividend. The 128-bit host
  arithmetic, the narrowing and the \<^verbatim>\<open>MIN / -1\<close> cases never show.\<close>

theorem int_binop_refines_spec:
  "int_binop op mode a b k =
     (case spec_binop op mode k (kvalue k a) (kvalue k b) (unat b) of
        Inl t \<Rightarrow> Inl t | Inr r \<Rightarrow> Inr (repr k r))"
  unfolding int_binop_spec by (cases "spec_binop op mode k (kvalue k a) (kvalue k b) (unat b)") auto



text \<open>The trapping mode is total on representable results: when the mathematical result of an
  addition, subtraction or multiplication is in the type the operation returns it, and otherwise it
  traps \<^verbatim>\<open>overflow\<close> and nothing else.\<close>

theorem trap_complete:
  "(is_ok (trap_add a b k) \<longleftrightarrow> in_kind k (kvalue k a + kvalue k b))
   \<and> (is_ok (trap_sub a b k) \<longleftrightarrow> in_kind k (kvalue k a - kvalue k b))
   \<and> (is_ok (trap_mul a b k) \<longleftrightarrow> in_kind k (kvalue k a * kvalue k b))
   \<and> (trap_add a b k = Inl t \<or> trap_sub a b k = Inl t \<or> trap_mul a b k = Inl t \<longrightarrow> t = Overflow)"
  by (auto simp: trap_eqs)

theorem trap_complete_witness:
  "trap_mul 0x8000000000000001 0xFFFFFFFFFFFFFFFF U64 = Inl Overflow
   \<and> \<not> in_kind U64 (kvalue U64 0x8000000000000001 * kvalue U64 0xFFFFFFFFFFFFFFFF)"
proof -
  have e: "trap_mul 0x8000000000000001 0xFFFFFFFFFFFFFFFF U64 = Inl Overflow" by code_simp
  with trap_complete [of "0x8000000000000001" "0xFFFFFFFFFFFFFFFF" U64 Overflow] show ?thesis by simp
qed

section \<open>The slot invariant\<close>

text \<open>C21: A slot always carries the low bits of its type and nothing above them: whatever the operand
  slots hold, every operation in every mode returns a slot whose bits above the width of the type
  are zero.\<close>

theorem int_binop_slot_canonical:
  assumes "int_binop op mode a b k = Inr r"
  shows "uint r < 2 ^ kwidth k"
proof -
  from assms obtain x where "r = repr k x" unfolding int_binop_spec by auto
  then show ?thesis by (simp add: take_bit_int_less_exp)
qed

theorem int_binop_slot_canonical_witness:
  "int_binop ''sub'' Wrap 1 2 I16 = Inr 0xFFFF \<and> uint (0xFFFF :: u64) < 2 ^ kwidth I16"
proof -
  have e: "int_binop ''sub'' Wrap 1 2 I16 = Inr 0xFFFF" by code_simp
  with int_binop_slot_canonical [OF e] show ?thesis by simp
qed

section \<open>Negation and comparison\<close>

lemma int_neg_eq:
  "int_neg mode a k = (if ksigned k then bindR (fit mode k (- kvalue k a)) (\<lambda>r. Inr (repr k r)) else Inr (repr k (- kvalue k a)))"
  by (cases mode) (auto simp: int_neg_def fit_def trap_neg_eq wrap_neg_eq sat_neg_eq)

fun compare :: "CmpPred \<Rightarrow> int \<Rightarrow> int \<Rightarrow> bool" where
  "compare Cmp_Eq x y = (x = y)" | "compare Cmp_Ne x y = (x \<noteq> y)" | "compare Cmp_Lt x y = (x < y)"
| "compare Cmp_Le x y = (x \<le> y)" | "compare Cmp_Gt x y = (x > y)" | "compare Cmp_Ge x y = (x \<ge> y)"

lemma icmp_eq: "icmp a b k pred = compare pred (kvalue k a) (kvalue k b)"
  by (cases pred) (auto simp: icmp_def kvalue_def Let_def word_less_def word_le_def word_uint_eq_iff)

text \<open>C23: Negation of a signed value follows the mode like every other operation (\<^verbatim>\<open>MIN\<close> traps,
  wraps or saturates); on an unsigned type all modes return the two's complement, so no mode
  reports that a nonzero value has no unsigned negative.\<close>

theorem int_neg_spec:
  "int_neg mode a k =
     (if ksigned k
      then (case fit mode k (- kvalue k a) of Inl t \<Rightarrow> Inl t | Inr r \<Rightarrow> Inr (repr k r))
      else Inr (repr k (- kvalue k a)))"
  by (auto simp: int_neg_eq fit_def split: sum.splits)

text \<open>Comparison of two slots is comparison of the numbers they stand for, for all six
  predicates and both signednesses.\<close>

theorem icmp_compares_values:
  "icmp a b k pred =
     (case pred of Cmp_Eq \<Rightarrow> kvalue k a = kvalue k b | Cmp_Ne \<Rightarrow> kvalue k a \<noteq> kvalue k b
      | Cmp_Lt \<Rightarrow> kvalue k a < kvalue k b | Cmp_Le \<Rightarrow> kvalue k a \<le> kvalue k b
      | Cmp_Gt \<Rightarrow> kvalue k a > kvalue k b | Cmp_Ge \<Rightarrow> kvalue k a \<ge> kvalue k b)"
  by (cases pred) (simp_all add: icmp_eq)

section \<open>Conversions\<close>

lemma conv_source:
  "(if ksigned fk then kas_signed fk src else as_signed 128 (uint (kas_unsigned fk src))) = kvalue fk src"
proof (cases "ksigned fk")
  case False
  have "in_signed 128 (kvalue fk src)" using unsigned_range [OF False, of src] by (simp add: in_signed_def)
  with False show ?thesis by (simp add: kvalue_def)
qed (simp add: kvalue_def)

lemma conv_checked_eq: "conv_checked_int src fk tk =
     (if in_kind tk (kvalue fk src) then Inr (repr tk (kvalue fk src)) else Inl CheckedConversion)"
  by (simp add: conv_checked_int_def conv_source bounds_pair slot_of_repr in_kind_def not_less Let_def)

lemma conv_sat_eq: "conv_sat_int src fk tk = repr tk (kclamp tk (kvalue fk src))"
  by (simp add: conv_sat_int_def conv_source sat_clamp_eq Let_def)

lemma conv_wrap_eq: "conv_wrap_int src fk tk = repr tk (kvalue fk src)"
proof -
  have "take_bit 128 (kvalue fk src) = uint (if ksigned fk then word_of_int (kas_signed fk src)
      else kas_unsigned fk src :: u128)"
    using unsigned_range [of fk src]
    by (auto simp: kvalue_def uint_word_of_int_u128 intro: take_bit_int_eq_self)
  then have "take_bit (kwidth tk) (uint (if ksigned fk then word_of_int (kas_signed fk src)
      else kas_unsigned fk src :: u128)) = take_bit (kwidth tk) (kvalue fk src)"
    by (metis take_bit_take_bit kwidth_min_128(2))
  then show ?thesis
    unfolding conv_wrap_int_def Let_def mask128_and narrow_repr unsigned_take_bit_eq
    by (simp add: repr_def)
qed

text \<open>C22: Conversion between integer types: the checked form returns the same number or traps
  \<^verbatim>\<open>checked-conversion\<close> exactly when it is not in the target type, the wrapping form returns its
  residue (sign-extending a signed source first), the saturating form its nearest bound.\<close>

theorem int_conversions:
  "conv_checked_int src fk tk =
     (if in_kind tk (kvalue fk src) then Inr (repr tk (kvalue fk src)) else Inl CheckedConversion)
   \<and> conv_wrap_int src fk tk = repr tk (kvalue fk src)
   \<and> conv_sat_int src fk tk = repr tk (kclamp tk (kvalue fk src))"
  by (simp add: conv_checked_eq conv_wrap_eq conv_sat_eq)

text \<open>Converting a value to another integer type and back with the checked form gives the value
  back: the slot of a number of the source type is recovered exactly.\<close>

theorem checked_conversion_roundtrip:
  assumes "conv_checked_int src fk tk = Inr r" and "src = repr fk (kvalue fk src)"
  shows "conv_checked_int r tk fk = Inr src"
proof -
  from assms(1) have "in_kind tk (kvalue fk src)" "r = repr tk (kvalue fk src)"
    by (auto simp: conv_checked_eq split: if_splits)
  with assms(2) show ?thesis by (simp add: conv_checked_eq)
qed

theorem checked_conversion_roundtrip_witness:
  "conv_checked_int 0xFF I8 I64 = Inr 0xFFFFFFFFFFFFFFFF
   \<and> conv_checked_int 0xFFFFFFFFFFFFFFFF I64 I8 = Inr 0xFF"
proof -
  have e: "conv_checked_int 0xFF I8 I64 = Inr 0xFFFFFFFFFFFFFFFF" "0xFF = repr I8 (kvalue I8 0xFF)"
    by code_simp+
  with checked_conversion_roundtrip [OF e] show ?thesis by simp
qed

end
