(* ===== verification/Arith_Float.thy ===== *)
theory Arith_Float
  imports Prelude
begin

text \<open>
  The software float remainder of the interpreter (\<^verbatim>\<open>frem_f64\<close>, \<^verbatim>\<open>frem_f32\<close> of
  \<^verbatim>\<open>fors-interp/src/arith.rs\<close>). A float is its bit pattern (\<^verbatim>\<open>to_bits\<close>): a \<open>u64\<close> for \<^verbatim>\<open>f64\<close>, a
  \<open>u32\<close> for \<^verbatim>\<open>f32\<close>; the classification predicates of the standard library are read off the pattern.
  \<open>fmag\<close> is the magnitude of a finite pattern as a natural number, in units of the least subnormal,
  so that the exact remainder is a remainder of natural numbers. The locale \<open>float_format\<close> states
  what the packing routine needs of a format; it is interpreted on \<^verbatim>\<open>f64\<close> and \<^verbatim>\<open>f32\<close>.
\<close>

section \<open>The code\<close>

definition CANONICAL_F64_NAN :: u64 where "CANONICAL_F64_NAN = 0x7FF8000000000000"
definition CANONICAL_F32_NAN :: u32 where "CANONICAL_F32_NAN = 0x7FC00000"

definition f64_is_nan :: "u64 \<Rightarrow> bool" where
  "f64_is_nan v \<longleftrightarrow> take_bit 11 (drop_bit 52 v) = 0x7FF \<and> take_bit 52 v \<noteq> 0"
definition f64_is_infinite :: "u64 \<Rightarrow> bool" where
  "f64_is_infinite v \<longleftrightarrow> take_bit 11 (drop_bit 52 v) = 0x7FF \<and> take_bit 52 v = 0"
definition f64_is_zero :: "u64 \<Rightarrow> bool" where
  "f64_is_zero v \<longleftrightarrow> take_bit 63 v = 0"
definition f32_is_nan :: "u32 \<Rightarrow> bool" where
  "f32_is_nan v \<longleftrightarrow> take_bit 8 (drop_bit 23 v) = 0xFF \<and> take_bit 23 v \<noteq> 0"
definition f32_is_infinite :: "u32 \<Rightarrow> bool" where
  "f32_is_infinite v \<longleftrightarrow> take_bit 8 (drop_bit 23 v) = 0xFF \<and> take_bit 23 v = 0"
definition f32_is_zero :: "u32 \<Rightarrow> bool" where
  "f32_is_zero v \<longleftrightarrow> take_bit 31 v = 0"

definition decompose_f64 :: "u64 \<Rightarrow> u64 \<times> int" where
  "decompose_f64 bits =
     (let field = uint (drop_bit 52 bits AND 0x7FF);
          man = bits AND 0xFFFFFFFFFFFFF
      in if field = 0 then (man, - 1074)
         else (man OR 0x10000000000000, field - 1023 - 52))"

definition decompose_f32 :: "u32 \<Rightarrow> u64 \<times> int" where
  "decompose_f32 bits =
     (let field = uint (drop_bit 23 bits AND 0xFF);
          man = ucast (bits AND 0x7FFFFF) :: u64
      in if field = 0 then (man, - 149)
         else (man OR 0x800000, field - 127 - 23))"

function powmod_loop :: "int \<Rightarrow> u128 \<Rightarrow> u128 \<Rightarrow> u128 \<Rightarrow> u128" where
  "powmod_loop e acc base m =
     (if e > 0
      then powmod_loop (drop_bit 1 e) (if e AND 1 = 1 then (acc * base) mod m else acc)
             ((base * base) mod m) m
      else acc)"
  by pat_completeness auto
termination
  by (relation "measure (\<lambda>(e, _). nat e)") (auto simp: drop_bit_Suc)

declare powmod_loop.simps [simp del]

definition powmod :: "int \<Rightarrow> u128 \<Rightarrow> u128" where
  "powmod e m = powmod_loop e (1 mod m) (2 mod m) m"

text \<open>The first half of \<^verbatim>\<open>frem_soft\<close>: the remainder as \<open>(units, exp)\<close>.\<close>

definition frem_units :: "u64 \<times> int \<Rightarrow> u64 \<times> int \<Rightarrow> u64 \<times> int" where
  "frem_units a b =
     (let (ma, ea) = a; (mb, eb) = b
      in if ea \<ge> eb
         then let m = ucast mb :: u128;
                  r = ucast (((ucast ma mod m) * powmod (ea - eb) m) mod m)
              in (r, eb)
         else if eb - ea \<ge> 64 \<or> push_bit (nat (eb - ea)) (ucast mb :: u128) > ucast ma
         then (ma, ea)
         else let divisor = ucast (push_bit (nat (eb - ea)) (ucast mb :: u128)) :: u64
              in (ma mod divisor, ea))"

definition lead :: "u64 \<Rightarrow> nat" where
  "lead x = 63 - leading_zeros x"

text \<open>The second half of \<^verbatim>\<open>frem_soft\<close>: \<open>units * 2 ^ exp\<close> as a bit pattern.\<close>

definition frem_pack :: "u64 \<times> int \<Rightarrow> bool \<Rightarrow> nat \<Rightarrow> nat \<Rightarrow> int \<Rightarrow> int \<Rightarrow> u64" where
  "frem_pack ue neg man_bits exp_bits bias emin =
     (let (units, exp) = ue;
          sign = push_bit (man_bits + exp_bits) (of_bool neg)
      in if units = 0 then sign
         else let exp_true = exp + int (lead units)
              in if exp_true \<ge> emin
                 then let field = word_of_int (exp_true + bias);
                          mant = push_bit (man_bits - lead units) (units XOR push_bit (lead units) 1)
                      in sign OR push_bit man_bits field OR mant
                 else let shift = nat (exp - emin + int man_bits)
                      in sign OR push_bit shift units)"

definition frem_soft ::
  "u64 \<times> int \<Rightarrow> u64 \<times> int \<Rightarrow> bool \<Rightarrow> nat \<Rightarrow> nat \<Rightarrow> int \<Rightarrow> int \<Rightarrow> u64" where
  "frem_soft a b neg man_bits exp_bits bias emin =
     frem_pack (frem_units a b) neg man_bits exp_bits bias emin"

definition frem_f64 :: "u64 \<Rightarrow> u64 \<Rightarrow> u64" where
  "frem_f64 a b =
     (if f64_is_nan a \<or> f64_is_nan b then CANONICAL_F64_NAN
      else if f64_is_zero b then CANONICAL_F64_NAN
      else if f64_is_infinite a then CANONICAL_F64_NAN
      else if f64_is_infinite b then a
      else if f64_is_zero a then a
      else frem_soft (decompose_f64 a) (decompose_f64 b) (bit a 63) 52 11 1023 (- 1022))"

definition frem_f32 :: "u32 \<Rightarrow> u32 \<Rightarrow> u64" where
  "frem_f32 a b =
     (if f32_is_nan a \<or> f32_is_nan b then ucast CANONICAL_F32_NAN
      else if f32_is_zero b then ucast CANONICAL_F32_NAN
      else if f32_is_infinite a then ucast CANONICAL_F32_NAN
      else if f32_is_infinite b then ucast a
      else if f32_is_zero a then ucast a
      else frem_soft (decompose_f32 a) (decompose_f32 b) (bit a 31) 23 8 127 (- 126))"

section \<open>The magnitude of a bit pattern\<close>

text \<open>The magnitude of a finite pattern with \<open>p\<close> mantissa and \<open>w\<close> exponent bits, in units of the least
  subnormal \<open>2 ^ (emin - p)\<close>.\<close>

definition fmag :: "nat \<Rightarrow> nat \<Rightarrow> u64 \<Rightarrow> nat" where
  "fmag p w v =
     (let f = unat (take_bit w (drop_bit p v)); m = unat (take_bit p v)
      in if f = 0 then m else (m + 2 ^ p) * 2 ^ (f - 1))"

definition ffinite :: "nat \<Rightarrow> nat \<Rightarrow> u64 \<Rightarrow> bool" where
  "ffinite p w v \<longleftrightarrow> unat (take_bit w (drop_bit p v)) < 2 ^ w - 1"

text \<open>\<open>scaled z (m, e)\<close>: the number \<open>m * 2 ^ e\<close> in units of \<open>2 ^ z\<close>.\<close>

definition scaled :: "int \<Rightarrow> u64 \<times> int \<Rightarrow> nat" where
  "scaled z me = unat (fst me) * 2 ^ nat (snd me - z)"

section \<open>Modular exponentiation\<close>

lemma powmod_loop_eq:
  assumes "0 < unat m" "unat m < 2 ^ 64" "unat acc < unat m" "unat base < unat m"
  shows "unat (powmod_loop e acc base m) = unat acc * unat base ^ nat e mod unat m"
  using assms
proof (induction e acc base m rule: powmod_loop.induct)
  case (1 e acc base m)
  have prod: "unat (x * y :: u128) = unat x * unat y" if "unat x < 2 ^ 64" "unat y < 2 ^ 64" for x y
  proof -
    have "unat x * unat y < 2 ^ 64 * 2 ^ 64" using that by (intro mult_strict_mono) auto
    then show ?thesis by (subst unat_mult_lem [THEN iffD1]) simp_all
  qed
  show ?case
  proof (cases "e > 0")
    case False
    then show ?thesis using "1.prems" by (simp add: powmod_loop.simps [of e])
  next
    case True
    define b' where "b' = (base * base) mod m"
    define a' where "a' = (if e AND 1 = 1 then (acc * base) mod m else acc)"
    have ub: "unat b' = unat base * unat base mod unat m"
      using "1.prems" by (simp add: b'_def unat_mod_distrib prod)
    have ua: "unat a' = (if odd e then unat acc * unat base mod unat m else unat acc)"
      using "1.prems" by (simp add: a'_def unat_mod_distrib prod and_one_eq odd_iff_mod_2_eq_one)
    have step: "powmod_loop e acc base m = powmod_loop (drop_bit 1 e) a' b' m"
      using True by (simp add: powmod_loop.simps [of e] a'_def b'_def)
    have "unat a' < unat m" "unat b' < unat m" using "1.prems" ua ub by simp_all
    then have ih: "unat (powmod_loop (drop_bit 1 e) a' b' m)
        = unat a' * unat b' ^ nat (drop_bit 1 e) mod unat m"
      using "1.IH" [OF True] "1.prems" by (simp add: a'_def b'_def)
    have e: "nat e = 2 * nat (drop_bit 1 e) + (if odd e then 1 else 0)"
      using True by (simp add: drop_bit_Suc nat_div_distrib) (metis even_nat_iff less_imp_le odd_two_times_div_two_succ Suc_eq_plus1 dvd_mult_div_cancel)
    let ?k = "nat (drop_bit 1 e)" and ?M = "unat m" and ?o = "if odd e then 1 else 0 :: nat"
    have sq: "unat base ^ (2 * ?k) = (unat base * unat base) ^ ?k"
      unfolding power_mult power2_eq_square ..
    have "unat acc * unat base ^ nat e mod ?M
        = (unat acc * unat base ^ ?o) * (unat base * unat base) ^ ?k mod ?M"
      unfolding e power_add sq by (simp only: mult_ac)
    also have "\<dots> = (unat acc * unat base ^ ?o mod ?M) * ((unat base * unat base mod ?M) ^ ?k mod ?M) mod ?M"
      unfolding mod_mult_eq power_mod ..
    also have "\<dots> = unat a' * unat b' ^ ?k mod ?M"
      using "1.prems"(3) unfolding ua ub by (simp add: mod_mult_right_eq)
    finally show ?thesis using step ih by simp
  qed
qed

lemma powmod_eq:
  assumes "0 < unat m" "unat m < 2 ^ 64"
  shows "unat (powmod e m) = 2 ^ nat e mod unat m"
proof (cases "unat m = 1")
  case True
  then have "m = 1" by (simp add: word_unat_eq_iff)
  with powmod_loop_eq [of 1 0 0 e] show ?thesis by (simp add: powmod_def)
next
  case False
  then have "m \<noteq> 1" "1 < unat m" using assms by auto
  then have "unat (1 mod m) = 1" by (simp add: unat_mod_distrib del: mod_word_one)
  then have "1 mod m = 1" by (simp add: word_unat_eq_iff)
  then have "powmod e m = powmod_loop e 1 (2 mod m) m" by (simp only: powmod_def)
  with powmod_loop_eq [OF assms, of 1 "2 mod m" e] \<open>1 < unat m\<close> show ?thesis
    by (simp add: unat_mod_distrib power_mod)
qed

section \<open>The remainder before packing\<close>

lemma scaled_shift:
  assumes "z \<le> y" "y \<le> e"
  shows "unat m * 2 ^ nat (e - z) = (unat m * 2 ^ nat (e - y)) * 2 ^ nat (y - z)"
proof -
  have "nat (e - z) = nat (e - y) + nat (y - z)" using assms by linarith
  then show ?thesis by (simp add: power_add)
qed

text \<open>The remainder has the scaled value of the dividend modulo that of the divisor, is at most the
  coarser operand and keeps the mantissa width and the exponent range of the operands.\<close>

lemma frem_units_exact:
  assumes m: "unat ma < 2 ^ n" "0 < unat mb" "unat mb < 2 ^ n" "n \<le> 63" and z: "z \<le> ea" "z \<le> eb"
  defines "r \<equiv> frem_units (ma, ea) (mb, eb)"
  shows "scaled z r = scaled z (ma, ea) mod scaled z (mb, eb)"
    and "unat (fst r) < 2 ^ n" and "snd r \<in> {ea, eb}"
proof -
  have n64: "(2::nat) ^ n \<le> 2 ^ 63" "(2::nat) ^ n < 2 ^ 64"
    using m(4) by (intro power_increasing power_strict_increasing; simp)+
  consider (ge) "eb \<le> ea"
    | (small) "ea < eb" "eb - ea \<ge> 64 \<or> push_bit (nat (eb - ea)) (ucast mb :: u128) > ucast ma"
    | (big) "ea < eb" "eb - ea < 64" "\<not> push_bit (nat (eb - ea)) (ucast mb :: u128) > ucast ma"
    by linarith
  then have "scaled z r = scaled z (ma, ea) mod scaled z (mb, eb) \<and> unat (fst r) < 2 ^ n \<and> snd r \<in> {ea, eb}"
  proof cases
    case ge
    let ?m = "ucast mb :: u128"
    define q where "q = ((ucast ma mod ?m) * powmod (ea - eb) ?m) mod ?m"
    have mu: "0 < unat ?m" "unat ?m < 2 ^ 64" "unat ?m = unat mb" using m n64 by simp_all
    have x: "unat (ucast ma mod ?m) = unat ma mod unat mb" by (simp add: unat_mod_distrib)
    have p: "unat (powmod (ea - eb) ?m) = 2 ^ nat (ea - eb) mod unat mb"
      using powmod_eq [OF mu(1,2)] mu(3) by simp
    have "unat ma mod unat mb < 2 ^ 64" "2 ^ nat (ea - eb) mod unat mb < (2 ^ 64 :: nat)"
      using mod_less_divisor [OF m(2)] mu(2,3) by (metis order_less_trans)+
    then have "unat (ucast ma mod ?m) * unat (powmod (ea - eb) ?m) < 2 ^ 64 * 2 ^ 64"
      unfolding x p by (intro mult_strict_mono) auto
    then have "unat ((ucast ma mod ?m) * powmod (ea - eb) ?m)
        = (unat ma mod unat mb) * (2 ^ nat (ea - eb) mod unat mb)"
      by (subst unat_mult_lem [THEN iffD1]) (simp_all add: x p)
    then have q: "unat q = unat ma * 2 ^ nat (ea - eb) mod unat mb"
      by (simp add: q_def unat_mod_distrib mod_mult_eq)
    then have ql: "unat q < unat mb" using m(2) by simp
    then have "unat q < 2 ^ 64" using m(3) n64 by simp
    then have uq: "unat (ucast q :: u64) = unat q"
      by (simp add: unsigned_ucast_eq take_bit_nat_eq_self)
    have r: "r = (ucast q, eb)" using ge by (simp add: r_def frem_units_def q_def Let_def)
    have "scaled z r = (unat ma * 2 ^ nat (ea - eb) mod unat mb) * 2 ^ nat (eb - z)"
      by (simp add: r scaled_def uq q)
    also have "\<dots> = scaled z (ma, ea) mod scaled z (mb, eb)"
      unfolding scaled_def fst_conv snd_conv scaled_shift [OF z(2) ge, of ma] by (rule mod_mult_mult2 [symmetric])
    finally show ?thesis using ql m(3) by (simp add: r uq)
  next
    case small
    have r: "r = (ma, ea)" using small by (auto simp: r_def frem_units_def Let_def)
    have "unat ma < unat mb * 2 ^ nat (eb - ea)"
    proof (cases "eb - ea \<ge> 64")
      case True
      have "(2::nat) ^ 64 \<le> 2 ^ nat (eb - ea)" using True by (intro power_increasing) auto
      then have "unat ma < 2 ^ nat (eb - ea)" using m(1) n64 by linarith
      also have "\<dots> \<le> unat mb * 2 ^ nat (eb - ea)" using m(2) by simp
      finally show ?thesis .
    next
      case False
      then have "unat ma < unat (push_bit (nat (eb - ea)) (ucast mb :: u128))"
        using small by (simp add: word_less_nat_alt)
      also have "\<dots> \<le> unat mb * 2 ^ nat (eb - ea)"
        unfolding unsigned_push_bit_eq by (simp add: push_bit_eq_mult take_bit_eq_mod)
      finally show ?thesis .
    qed
    then have "scaled z (ma, ea) < scaled z (mb, eb)"
      unfolding scaled_def fst_conv snd_conv scaled_shift [OF z(1) less_imp_le [OF small(1)], of mb] by simp
    then show ?thesis using m(1) by (simp add: r)
  next
    case big
    let ?d = "push_bit (nat (eb - ea)) (ucast mb :: u128)"
    have "(2::nat) ^ nat (eb - ea) \<le> 2 ^ 63" using big by (intro power_increasing) auto
    then have "unat mb * 2 ^ nat (eb - ea) \<le> 2 ^ 63 * 2 ^ 63"
      using m(3) n64 by (intro mult_mono) linarith+
    then have d: "unat ?d = unat mb * 2 ^ nat (eb - ea)" by (subst unat_push_bit) simp_all
    have "unat ?d \<le> unat ma" using big by (simp add: word_less_nat_alt)
    then have "unat ?d < 2 ^ 64" using m(1) n64 by linarith
    then have u: "unat (ucast ?d :: u64) = unat mb * 2 ^ nat (eb - ea)"
      using d by (simp add: unsigned_ucast_eq take_bit_nat_eq_self)
    have r: "r = (ma mod ucast ?d, ea)" using big by (auto simp: r_def frem_units_def Let_def)
    have "scaled z r = (unat ma mod (unat mb * 2 ^ nat (eb - ea))) * 2 ^ nat (ea - z)"
      by (simp add: r scaled_def unat_mod_distrib u)
    also have "\<dots> = scaled z (ma, ea) mod scaled z (mb, eb)"
      unfolding scaled_def fst_conv snd_conv scaled_shift [OF z(1) less_imp_le [OF big(1)], of mb]
      by (rule mod_mult_mult2 [symmetric])
    finally have "scaled z r = scaled z (ma, ea) mod scaled z (mb, eb)" .
    moreover have "unat ma mod (unat mb * 2 ^ nat (eb - ea)) < 2 ^ n"
      using m(1) by (meson mod_less_eq_dividend order_le_less_trans)
    ultimately show ?thesis by (simp add: r unat_mod_distrib u)
  qed
  then show "scaled z r = scaled z (ma, ea) mod scaled z (mb, eb)" "unat (fst r) < 2 ^ n" "snd r \<in> {ea, eb}"
    by blast+
qed

section \<open>Packing\<close>

lemma pack_fields:
  fixes F M :: u64 and neg :: bool
  assumes "p + w < 64" and M: "unat M < 2 ^ p" and F: "unat F < 2 ^ w"
  defines "v \<equiv> push_bit (p + w) (of_bool neg) OR push_bit p F OR M"
  shows "take_bit p v = M" "take_bit w (drop_bit p v) = F" "bit v (p + w) = neg"
proof -
  have "take_bit p M = M" "take_bit w F = F"
    using M F by (simp_all add: word_unat_eq_iff unsigned_take_bit_eq take_bit_nat_eq_self)
  then have m: "bit M i \<Longrightarrow> i < p" and f: "bit F i \<Longrightarrow> i < w" for i
    by (metis bit_take_bit_iff)+
  show "take_bit p v = M"
    by (rule bit_word_eqI) (use assms(1) in \<open>auto simp: v_def bit_simps dest: m f\<close>)
  show "take_bit w (drop_bit p v) = F"
    by (rule bit_word_eqI) (use assms(1) in \<open>auto simp: v_def bit_simps dest: m f\<close>)
  show "bit v (p + w) = neg"
    using m [of "p + w"] f [of w] assms(1) by (auto simp: v_def bit_simps)
qed

locale float_format =
  fixes p w :: nat and bias emin :: int
  assumes man: "0 < p" "p \<le> 52" and width: "p + w < 64"
    and emin: "emin = 1 - bias" and bias: "2 * bias + 2 = 2 ^ w" "0 < bias"
begin

lemma pack_zero: "frem_pack (0, e) neg p w bias emin = push_bit (p + w) (of_bool neg)"
  by (simp add: frem_pack_def)

lemma fmag_sign_only:
  assumes "v = push_bit (p + w) (of_bool neg)"
  shows "fmag p w v = 0" "ffinite p w v" "bit v (p + w) = neg"
proof -
  have v: "v = push_bit (p + w) (of_bool neg) OR push_bit p 0 OR 0" using assms by simp
  have "(2::nat) ^ 1 \<le> 2 ^ w" using bias by (cases w) auto
  then show "fmag p w v = 0" "ffinite p w v" "bit v (p + w) = neg"
    using pack_fields [OF width, of 0 0 neg, folded v] by (simp_all add: fmag_def ffinite_def)
qed

text \<open>Every nonzero \<open>units * 2 ^ exp\<close> in the range of the format is packed without loss.\<close>

lemma pack_exact:
  fixes neg :: bool
  assumes u: "u \<noteq> 0" "unat u < 2 ^ Suc p" and e: "emin - int p \<le> e" "e + int p \<le> bias"
  defines "v \<equiv> frem_pack (u, e) neg p w bias emin"
  shows "fmag p w v = scaled (emin - int p) (u, e)" "ffinite p w v" "bit v (p + w) = neg"
proof -
  let ?l = "lead u"
  have l: "?l < 64" "bit u ?l" "\<And>j. bit u j \<Longrightarrow> j \<le> ?l" "2 ^ ?l \<le> unat u" "unat u < 2 ^ Suc ?l"
    using leading_zeros_top [OF u(1)] leading_bit_bounds [OF u(1)] by (simp_all add: lead_def)
  have "(2::nat) ^ ?l < 2 ^ Suc p" using l(4) u(2) by linarith
  then have "?l < Suc p" by (rule power_less_imp_less_exp [rotated]) simp
  then have lp: "?l \<le> p" by simp
  have "fmag p w v = scaled (emin - int p) (u, e) \<and> ffinite p w v \<and> bit v (p + w) = neg"
  proof (cases "e + int ?l \<ge> emin")
    case True
    define F :: u64 where "F = word_of_int (e + int ?l + bias)"
    define M where "M = push_bit (p - ?l) (u XOR push_bit ?l 1)"
    have v: "v = push_bit (p + w) (of_bool neg) OR push_bit p F OR M"
      using True u(1) by (simp add: v_def frem_pack_def F_def M_def Let_def)
    have fr: "1 \<le> e + int ?l + bias" "e + int ?l + bias < 2 ^ w - 1"
      using True emin e(2) lp bias(1) by linarith+
    have "w \<le> 64" using width by linarith
    then have "(2::int) ^ w \<le> 2 ^ 64" by (rule power_increasing) simp
    then have "uint F = e + int ?l + bias"
      unfolding F_def uint_word_of_int_eq using fr by (intro take_bit_int_eq_self) simp_all
    then have uF: "unat F = nat (e + int ?l + bias)" by (metis nat_uint_eq)
    have Fw: "unat F < 2 ^ w - 1" "0 < unat F"
      using fr unfolding uF by (simp_all add: nat_less_iff of_nat_diff zless_nat_eq_int_zless)
    have x: "unat (u XOR push_bit ?l 1) = unat u - 2 ^ ?l"
    proof -
      have "u = push_bit ?l 1 OR (u XOR push_bit ?l 1)"
        by (rule bit_word_eqI) (use l(1,2) in \<open>auto simp: bit_simps simp del: push_bit_of_1\<close>)
      moreover have "push_bit ?l 1 AND (u XOR push_bit ?l 1) = 0"
        by (rule bit_word_eqI) (use l(1,2) in \<open>auto simp: bit_simps simp del: push_bit_of_1\<close>)
      ultimately have "u = push_bit ?l 1 + (u XOR push_bit ?l 1)" by (metis disjunctive_add_eq_or)
      then have "u XOR push_bit ?l 1 = u - push_bit ?l 1" by (metis add_diff_cancel_left')
      moreover have one: "unat (push_bit ?l 1 :: u64) = 2 ^ ?l"
        using power_strict_increasing [OF l(1), of "2 :: nat"] by (subst unat_push_bit) simp_all
      moreover have "push_bit ?l 1 \<le> u" unfolding word_le_nat_alt one by (rule l(4))
      ultimately show ?thesis by (simp add: unat_sub)
    qed
    have lt: "(unat u - 2 ^ ?l) * 2 ^ (p - ?l) < 2 ^ p"
    proof -
      have "(unat u - 2 ^ ?l) * 2 ^ (p - ?l) < 2 ^ ?l * 2 ^ (p - ?l)"
        using l(4,5) by simp
      also have "\<dots> = 2 ^ p" using lp by (simp flip: power_add)
      finally show ?thesis .
    qed
    have p64: "(2::nat) ^ p < 2 ^ 64" using man(2) by (intro power_strict_increasing) auto
    have M: "unat M = (unat u - 2 ^ ?l) * 2 ^ (p - ?l)"
      using order_less_trans [OF lt p64]
      unfolding M_def by (subst unat_push_bit, unfold x) simp_all
    have "unat F < 2 ^ w" using Fw by linarith
    note flds = pack_fields [OF width lt [folded M] this, of neg, folded v]
    have sum: "unat M + 2 ^ p = unat u * 2 ^ (p - ?l)"
    proof -
      have "2 ^ p = 2 ^ ?l * (2 ^ (p - ?l) :: nat)" using lp by (simp flip: power_add)
      then show ?thesis using l(4) unfolding M by (simp add: diff_mult_distrib)
    qed
    have "p - ?l + (unat F - 1) = nat (e - (emin - int p))"
      using lp fr emin unfolding uF by linarith
    then have "fmag p w v = unat u * 2 ^ nat (e - (emin - int p))"
      using Fw(2) by (simp add: fmag_def flds sum mult.assoc flip: power_add)
    then show ?thesis using Fw flds by (simp add: scaled_def ffinite_def)
  next
    case False
    define s where "s = nat (e - (emin - int p))"
    have sh: "nat (e - emin + int p) = s" by (simp add: s_def algebra_simps)
    have "int ?l + int s < int p" using False e(1) by (simp add: s_def)
    then have "Suc ?l + s \<le> p" by linarith
    then have "(2::nat) ^ (Suc ?l + s) \<le> 2 ^ p" by (rule power_increasing) simp
    then have lt: "unat u * 2 ^ s < 2 ^ p"
      using l(5) by (metis mult_less_cancel2 order_less_le_trans power_add zero_less_numeral zero_less_power)
    have "(2::nat) ^ p < 2 ^ 64" using man(2) by (intro power_strict_increasing) auto
    with lt have M: "unat (push_bit s u) = unat u * 2 ^ s" by (intro unat_push_bit) simp
    have v: "v = push_bit (p + w) (of_bool neg) OR push_bit p 0 OR push_bit s u"
      using False u(1) by (simp add: v_def frem_pack_def sh Let_def)
    have "(2::nat) ^ 1 \<le> 2 ^ w" using bias by (cases w) auto
    then show ?thesis
      using pack_fields [OF width lt [folded M], of 0 neg, folded v]
      by (simp add: fmag_def ffinite_def M scaled_def flip: s_def)
  qed
  then show "fmag p w v = scaled (emin - int p) (u, e)" "ffinite p w v" "bit v (p + w) = neg" by blast+
qed

text \<open>The whole routine, on operands in the range of the format.\<close>

lemma soft_exact:
  fixes neg :: bool
  assumes "unat ma < 2 ^ Suc p" "0 < unat mb" "unat mb < 2 ^ Suc p"
    and "emin - int p \<le> ea" "ea + int p \<le> bias" "emin - int p \<le> eb" "eb + int p \<le> bias"
  defines "v \<equiv> frem_soft (ma, ea) (mb, eb) neg p w bias emin"
  shows "fmag p w v = scaled (emin - int p) (ma, ea) mod scaled (emin - int p) (mb, eb)
    \<and> ffinite p w v \<and> bit v (p + w) = neg"
proof -
  obtain u e where r: "frem_units (ma, ea) (mb, eb) = (u, e)" by fastforce
  have "Suc p \<le> 63" using man(2) by simp
  note x = frem_units_exact [OF assms(1-3) this assms(4,6), unfolded r]
  have v: "v = frem_pack (u, e) neg p w bias emin" by (simp add: v_def frem_soft_def r)
  show ?thesis
  proof (cases "u = 0")
    case True
    with fmag_sign_only [OF v [unfolded True pack_zero]] x(1) show ?thesis by (simp add: scaled_def)
  next
    case False
    have "emin - int p \<le> e" "e + int p \<le> bias" using x(3) assms by auto
    with pack_exact [of u e neg] False x show ?thesis unfolding v by simp
  qed
qed

end

interpretation f64: float_format 52 11 1023 "- 1022"
  by unfold_locales simp_all

interpretation f32: float_format 23 8 127 "- 126"
  by unfold_locales simp_all

section \<open>Decomposing the operands\<close>

lemma unat_or_hidden_bit:
  assumes "unat (m :: u64) < 2 ^ p" "p < 64"
  shows "unat (m OR push_bit p 1) = unat m + 2 ^ p"
proof -
  have "take_bit p m = m"
    using assms(1) by (simp add: word_unat_eq_iff unsigned_take_bit_eq take_bit_nat_eq_self)
  then have "bit m i \<Longrightarrow> i < p" for i by (metis bit_take_bit_iff)
  then have "m AND push_bit p 1 = 0"
    by (intro bit_word_eqI) (auto simp: bit_simps simp del: push_bit_of_1)
  then have e: "m OR push_bit p 1 = m + push_bit p 1" by (metis disjunctive_add_eq_or)
  have one: "unat (push_bit p 1 :: u64) = 2 ^ p"
    using power_strict_increasing [OF assms(2), of "2 :: nat"] by (subst unat_push_bit) simp_all
  have "(2 :: nat) ^ Suc p \<le> 2 ^ 64" using assms(2) by (intro power_increasing) simp_all
  then have "unat m + unat (push_bit p 1 :: u64) < 2 ^ LENGTH(64)" unfolding one using assms(1) by simp
  then show ?thesis unfolding e one [symmetric] by (rule unat_add_lem [THEN iffD1])
qed

lemma fmag_zero_iff:
  "p + w = 63 \<Longrightarrow> fmag p w v = 0 \<longleftrightarrow> take_bit 63 v = 0"
  "p + w = 31 \<Longrightarrow> fmag p w v = 0 \<longleftrightarrow> take_bit 31 v = 0"
proof -
  have *: "fmag p w v = 0 \<longleftrightarrow> take_bit (p + w) v = 0"
  proof -
    have "take_bit (p + w) v = push_bit p (take_bit w (drop_bit p v)) OR take_bit p v"
      by (rule bit_word_eqI) (auto simp: bit_simps)
    moreover have "push_bit p (take_bit w (drop_bit p v)) = 0 \<longleftrightarrow> take_bit w (drop_bit p v) = 0"
    proof
      assume h: "push_bit p (take_bit w (drop_bit p v)) = 0"
      have "drop_bit p (push_bit p (take_bit w (drop_bit p v))) = take_bit w (drop_bit p v)"
        by (rule bit_word_eqI) (auto simp: bit_simps dest: bit_imp_le_length)
      with h show "take_bit w (drop_bit p v) = 0" by simp
    qed simp
    ultimately show ?thesis by (auto simp: fmag_def Let_def or_eq_0_iff unat_eq_0)
  qed
  show "p + w = 63 \<Longrightarrow> fmag p w v = 0 \<longleftrightarrow> take_bit 63 v = 0" using * by simp
  show "p + w = 31 \<Longrightarrow> fmag p w v = 0 \<longleftrightarrow> take_bit 31 v = 0" using * by simp
qed

lemma decompose_generic:
  fixes v :: u64 and p w :: nat
  defines "f \<equiv> take_bit w (drop_bit p v)" and "m \<equiv> take_bit p v"
  assumes d: "d = (if f = 0 then (m, z) else (m OR push_bit p 1, uint f + z - 1))"
    and "p \<le> 52" "ffinite p w v"
  shows "scaled z d = fmag p w v" "z \<le> snd d" "snd d \<le> z + 2 ^ w - 3 \<or> snd d = z" "unat (fst d) < 2 ^ Suc p"
proof -
  have m: "unat m < 2 ^ p" by (simp add: m_def unsigned_take_bit_eq)
  have u: "unat (m OR push_bit p 1) = unat m + 2 ^ p" using m assms(4) by (intro unat_or_hidden_bit) auto
  have f: "f \<noteq> 0 \<Longrightarrow> 0 < unat f" by (simp add: unat_gt_0)
  have fin: "unat f < 2 ^ w - 1" using assms(5) by (simp add: ffinite_def f_def)
  then have "int (unat f) < int (2 ^ w - 1)" by (simp only: of_nat_less_iff)
  also have "\<dots> = 2 ^ w - 1" by (simp add: of_nat_diff)
  finally have fi: "uint f < 2 ^ w - 1" by simp
  have uf: "uint f = int (unat f)" by simp
  have n: "nat (uint f - 1) = unat f - 1" if "f \<noteq> 0"
    using f [OF that] unfolding uf by linarith
  show "scaled z d = fmag p w v"
    using f by (auto simp: d scaled_def fmag_def Let_def u n f_def [symmetric] m_def [symmetric]
        simp del: push_bit_of_1)
  have "f \<noteq> 0 \<Longrightarrow> z \<le> uint f + z - 1" using f unfolding uf by linarith
  then show "z \<le> snd d" by (simp add: d)
  show "snd d \<le> z + 2 ^ w - 3 \<or> snd d = z" using fi by (auto simp: d)
  show "unat (fst d) < 2 ^ Suc p" using m by (auto simp: d u simp del: push_bit_of_1)
qed

lemma and_mask_word: "x AND mask n = take_bit n (x :: 'a::len word)"
  by (simp add: take_bit_eq_mask)

lemma ucast_zero_up: "ucast (x :: u32) = (0 :: u64) \<longleftrightarrow> x = 0"
  using unat_ucast_up [of x, where 'b = 64] by (simp add: word_unat_eq_iff)

lemma decompose_f64_eq:
  "decompose_f64 v = (let f = take_bit 11 (drop_bit 52 v); m = take_bit 52 v
     in if f = 0 then (m, - 1074) else (m OR push_bit 52 1, uint f + - 1074 - 1))"
proof -
  have "(0x7FF :: u64) = mask 11" "(0xFFFFFFFFFFFFF :: u64) = mask 52" by (simp_all add: mask_eq_exp_minus_1)
  then show ?thesis unfolding decompose_f64_def and_mask_word [symmetric] by (simp add: uint_0_iff Let_def)
qed

lemma decompose_f32_eq:
  "decompose_f32 v = (let f = take_bit 8 (drop_bit 23 (ucast v :: u64)); m = take_bit 23 (ucast v)
     in if f = 0 then (m, - 149) else (m OR push_bit 23 1, uint f + - 149 - 1))"
proof -
  have "(0xFF :: u32) = mask 8" "(0x7FFFFF :: u32) = mask 23" by (simp_all add: mask_eq_exp_minus_1)
  moreover have "take_bit 8 (drop_bit 23 (ucast v :: u64)) = ucast (take_bit 8 (drop_bit 23 v))"
    "take_bit 23 (ucast v :: u64) = ucast (take_bit 23 v)"
    by (rule bit_word_eqI, auto simp: bit_simps)+
  ultimately show ?thesis unfolding decompose_f32_def
    by (simp add: and_mask_word [symmetric] uint_0_iff ucast_zero_up Let_def)
qed

lemma ffinite_f64: "ffinite 52 11 v \<longleftrightarrow> \<not> f64_is_nan v \<and> \<not> f64_is_infinite v"
proof -
  have "unat (take_bit 11 (drop_bit 52 v)) < 2 ^ 11" unfolding unsigned_take_bit_eq by (rule take_bit_nat_less_exp)
  then have "unat (take_bit 11 (drop_bit 52 v)) < 2 ^ 11 - 1 \<longleftrightarrow> take_bit 11 (drop_bit 52 v) \<noteq> 0x7FF"
    by (auto simp: word_unat_eq_iff)
  then show ?thesis by (auto simp: ffinite_def f64_is_nan_def f64_is_infinite_def)
qed

lemma ffinite_f32: "ffinite 23 8 (ucast v) \<longleftrightarrow> \<not> f32_is_nan v \<and> \<not> f32_is_infinite v"
proof -
  have e: "take_bit 8 (drop_bit 23 (ucast v :: u64)) = ucast (take_bit 8 (drop_bit 23 v))"
    by (rule bit_word_eqI, auto simp: bit_simps)
  have "unat (take_bit 8 (drop_bit 23 v)) < 2 ^ 8" unfolding unsigned_take_bit_eq by (rule take_bit_nat_less_exp)
  then have "unat (take_bit 8 (drop_bit 23 (ucast v :: u64))) < 2 ^ 8 - 1 \<longleftrightarrow> take_bit 8 (drop_bit 23 v) \<noteq> 0xFF"
    unfolding e by (auto simp: word_unat_eq_iff)
  then show ?thesis by (auto simp: ffinite_def f32_is_nan_def f32_is_infinite_def)
qed

lemma f64_zero: "f64_is_zero v \<longleftrightarrow> fmag 52 11 v = 0"
  by (simp add: f64_is_zero_def fmag_zero_iff)

lemma f32_zero: "f32_is_zero v \<longleftrightarrow> fmag 23 8 (ucast v) = 0"
proof -
  have "take_bit 31 (ucast v :: u64) = ucast (take_bit 31 v)" by (rule bit_word_eqI) (auto simp: bit_simps)
  then show ?thesis by (simp add: f32_is_zero_def fmag_zero_iff ucast_zero_up)
qed

lemmas decompose_f64_bounds =
  decompose_generic [OF decompose_f64_eq [unfolded Let_def], simplified]

lemmas decompose_f32_bounds =
  decompose_generic [OF decompose_f32_eq [unfolded Let_def], simplified]

section \<open>Properties\<close>

text \<open>C37: The \<^verbatim>\<open>f64\<close> remainder is exact: for finite operands and a nonzero divisor the magnitude of
  the result, as a whole number of least subnormals, is the magnitude of the dividend modulo that
  of the divisor, the result is finite and has the sign of the dividend. The exponent gap of up to
  2100 bits, the 128-bit modular exponentiation and the subnormal packing lose nothing.\<close>

theorem frem_f64_exact:
  assumes "ffinite 52 11 a" "ffinite 52 11 b" "fmag 52 11 b \<noteq> 0"
  shows "fmag 52 11 (frem_f64 a b) = fmag 52 11 a mod fmag 52 11 b
    \<and> ffinite 52 11 (frem_f64 a b) \<and> bit (frem_f64 a b) 63 = bit a 63"
proof (cases "fmag 52 11 a = 0")
  case True
  with assms show ?thesis by (simp add: frem_f64_def ffinite_f64 f64_zero)
next
  case False
  obtain ma ea mb eb where d: "decompose_f64 a = (ma, ea)" "decompose_f64 b = (mb, eb)" by fastforce
  note A = decompose_f64_bounds [OF assms(1), unfolded d, simplified]
    and B = decompose_f64_bounds [OF assms(2), unfolded d, simplified]
  have "mb \<noteq> 0" using B(1) assms(3) by (auto simp: scaled_def)
  then have "0 < unat mb" by (simp add: unat_gt_0)
  with f64.soft_exact [of ma mb ea eb "bit a 63"] A B
  have "fmag 52 11 (frem_soft (ma, ea) (mb, eb) (bit a 63) 52 11 1023 (- 1022)) =
      fmag 52 11 a mod fmag 52 11 b
    \<and> ffinite 52 11 (frem_soft (ma, ea) (mb, eb) (bit a 63) 52 11 1023 (- 1022))
    \<and> bit (frem_soft (ma, ea) (mb, eb) (bit a 63) 52 11 1023 (- 1022)) 63 = bit a 63" by auto
  with False assms show ?thesis by (simp add: frem_f64_def ffinite_f64 f64_zero d)
qed

theorem frem_f64_exact_witness:
  "fmag 52 11 (frem_f64 0x8030000000000001 0x0010000000000003) = 2 ^ 52 - 5
   \<and> bit (frem_f64 0x8030000000000001 0x0010000000000003) 63"
  using frem_f64_exact [of "0x8030000000000001" "0x0010000000000003"]
  by (simp add: fmag_def ffinite_def)

text \<open>C38: The \<^verbatim>\<open>f32\<close> remainder is exact in the same sense, by the same routine at 24-bit mantissas.\<close>

theorem frem_f32_exact:
  assumes "ffinite 23 8 (ucast a)" "ffinite 23 8 (ucast b)" "fmag 23 8 (ucast b) \<noteq> 0"
  shows "fmag 23 8 (frem_f32 a b) = fmag 23 8 (ucast a) mod fmag 23 8 (ucast b)
    \<and> ffinite 23 8 (frem_f32 a b) \<and> bit (frem_f32 a b) 31 = bit a 31"
proof (cases "fmag 23 8 (ucast a) = 0")
  case True
  with assms show ?thesis by (simp add: frem_f32_def ffinite_f32 f32_zero bit_simps)
next
  case False
  obtain ma ea mb eb where d: "decompose_f32 a = (ma, ea)" "decompose_f32 b = (mb, eb)" by fastforce
  note A = decompose_f32_bounds [OF assms(1), unfolded d, simplified]
    and B = decompose_f32_bounds [OF assms(2), unfolded d, simplified]
  have "mb \<noteq> 0" using B(1) assms(3) by (auto simp: scaled_def)
  then have "0 < unat mb" by (simp add: unat_gt_0)
  with f32.soft_exact [of ma mb ea eb "bit a 31"] A B
  have "fmag 23 8 (frem_soft (ma, ea) (mb, eb) (bit a 31) 23 8 127 (- 126)) =
      fmag 23 8 (ucast a) mod fmag 23 8 (ucast b)
    \<and> ffinite 23 8 (frem_soft (ma, ea) (mb, eb) (bit a 31) 23 8 127 (- 126))
    \<and> bit (frem_soft (ma, ea) (mb, eb) (bit a 31) 23 8 127 (- 126)) 31 = bit a 31" by auto
  with False assms show ?thesis by (simp add: frem_f32_def ffinite_f32 f32_zero d)
qed

theorem frem_f32_exact_witness:
  "fmag 23 8 (frem_f32 0x01800001 0x00800003) = 2 ^ 23 - 5"
  using frem_f32_exact [of "0x01800001" "0x00800003"]
  by (simp add: fmag_def ffinite_def)

end
