(* ===== verification/Layout_Rule.thy ===== *)
theory Layout_Rule
  imports Prelude
begin

text \<open>
  Type layout (\<^verbatim>\<open>crates/fors-layout/src\<close>): \<^verbatim>\<open>target.rs\<close>, \<^verbatim>\<open>ty.rs\<close>, \<^verbatim>\<open>layout.rs\<close>, \<^verbatim>\<open>mono.rs\<close>. A \<^verbatim>\<open>usize\<close> is a
  natural number of at most \<open>usize_MAX\<close> (64-bit host), with the saturation and the overflow checks
  of the source written out. The loops over fields and variants are the recursive functions
  \<open>struct_loop\<close> and \<open>enum_loop\<close>, mutually recursive with \<open>layout_of\<close> as in the source.
\<close>

section \<open>Targets and type shapes\<close>

record Target =
  ptr_bits :: nat

definition target_new :: "nat \<Rightarrow> Target option" where
  "target_new b = (if b = 32 \<or> b = 64 then Some \<lparr>ptr_bits = b\<rparr> else None)"

definition AARCH64_APPLE_DARWIN :: Target where "AARCH64_APPLE_DARWIN = \<lparr>ptr_bits = 64\<rparr>"
definition X86_64_UNKNOWN :: Target where "X86_64_UNKNOWN = \<lparr>ptr_bits = 64\<rparr>"

definition ptr_bytes :: "Target \<Rightarrow> nat" where
  "ptr_bytes t = ptr_bits t div 8"

datatype Ty =
    Ty_Unit | Ty_Never | Ty_Bool
  | Ty_I8 | Ty_I16 | Ty_I32 | Ty_I64 | Ty_U8 | Ty_U16 | Ty_U32 | Ty_U64
  | Ty_Isize | Ty_Usize | Ty_F32 | Ty_F64 | Ty_Ptr | Ty_SliceView
  | Ty_Array Ty nat
  | Ty_Tuple "Ty list"
  | Ty_Struct "Ty list"
  | Ty_Enum "Variant list"
and Variant = Variant (payload: "Ty option")

definition variant_unit :: Variant where "variant_unit = Variant None"
definition variant_of :: "Ty \<Rightarrow> Variant" where "variant_of ty = Variant (Some ty)"

fun is_scalar :: "Ty \<Rightarrow> bool" where
  "is_scalar ty = (ty \<in> {Ty_Bool, Ty_I8, Ty_I16, Ty_I32, Ty_I64, Ty_U8, Ty_U16, Ty_U32, Ty_U64,
     Ty_Isize, Ty_Usize, Ty_F32, Ty_F64, Ty_Ptr})"

section \<open>The layout rule\<close>

definition usize_MAX :: nat where "usize_MAX = 2 ^ 64 - 1"
definition MEM_MAX_ALIGN :: nat where "MEM_MAX_ALIGN = 16"

record Layout =
  lsize :: nat
  lalign :: nat

datatype LayoutError = TooLarge | UnsupportedAlign

definition is_power_of_two :: "nat \<Rightarrow> bool" where
  "is_power_of_two n \<longleftrightarrow> n \<noteq> 0 \<and> n AND (n - 1) = 0"

definition layout_array :: "Layout \<Rightarrow> nat \<Rightarrow> (LayoutError, Layout) result" where
  "layout_array l n =
     (if lsize l * n \<le> usize_MAX then Inr \<lparr>lsize = lsize l * n, lalign = lalign l\<rparr> else Inl TooLarge)"

definition validate_align :: "nat \<Rightarrow> (LayoutError, unit) result" where
  "validate_align align =
     (if is_power_of_two align \<and> align \<le> MEM_MAX_ALIGN then Inr () else Inl UnsupportedAlign)"

text \<open>\<^verbatim>\<open>s & !mask\<close> on a 64-bit value clears the low bits.\<close>

definition align_up :: "nat \<Rightarrow> nat \<Rightarrow> nat" where
  "align_up off align =
     (let mask = align - 1
      in if off + mask \<le> usize_MAX then unat ((word_of_nat (off + mask) :: u64) AND NOT (word_of_nat mask))
         else usize_MAX)"

definition lsat_add :: "nat \<Rightarrow> nat \<Rightarrow> nat" where
  "lsat_add a b = min usize_MAX (a + b)"

definition discriminant_size :: "nat \<Rightarrow> nat" where
  "discriminant_size variant_count =
     (if variant_count \<le> 1 then 0
      else if variant_count \<le> 256 then 1
      else if variant_count \<le> 65536 then 2
      else if variant_count \<le> 2 ^ 32 - 1 + 1 then 4
      else 8)"

record StructLayout =
  sl_layout :: Layout
  offsets :: "nat list"

record EnumLayout =
  el_layout :: Layout
  el_discriminant_size :: nat
  payload_offset :: nat

text \<open>The end of \<^verbatim>\<open>struct_layout_of\<close> and of \<^verbatim>\<open>enum_layout_of\<close>, from the values of the loop variables.\<close>

definition struct_finish :: "nat \<times> nat \<times> nat list \<Rightarrow> StructLayout" where
  "struct_finish r = (case r of (off, max_align, offs) \<Rightarrow>
     \<lparr>sl_layout = \<lparr>lsize = align_up off max_align, lalign = max_align\<rparr>, offsets = offs\<rparr>)"

definition enum_finish :: "nat \<Rightarrow> nat \<times> nat \<Rightarrow> EnumLayout" where
  "enum_finish n r = (case r of (payload_size, payload_align) \<Rightarrow>
     let disc = discriminant_size n;
         disc_align = max disc 1;
         align = max disc_align payload_align;
         po = align_up disc payload_align
     in \<lparr>el_layout = \<lparr>lsize = align_up (lsat_add po payload_size) align, lalign = align\<rparr>,
         el_discriminant_size = disc, payload_offset = po\<rparr>)"

lemma payload_size: "payload v = Some ty \<Longrightarrow> size ty < size v"
  by (cases v) auto

function layout_of :: "Ty \<Rightarrow> Target \<Rightarrow> Layout"
  and struct_loop :: "Ty list \<Rightarrow> Target \<Rightarrow> nat \<Rightarrow> nat \<Rightarrow> nat list \<Rightarrow> nat \<times> nat \<times> nat list"
  and enum_loop :: "Variant list \<Rightarrow> Target \<Rightarrow> nat \<Rightarrow> nat \<Rightarrow> nat \<times> nat" where
  "layout_of ty t =
     (case ty of
        Ty_Unit \<Rightarrow> \<lparr>lsize = 0, lalign = 1\<rparr> | Ty_Never \<Rightarrow> \<lparr>lsize = 0, lalign = 1\<rparr>
      | Ty_Bool \<Rightarrow> \<lparr>lsize = 1, lalign = 1\<rparr> | Ty_I8 \<Rightarrow> \<lparr>lsize = 1, lalign = 1\<rparr> | Ty_U8 \<Rightarrow> \<lparr>lsize = 1, lalign = 1\<rparr>
      | Ty_I16 \<Rightarrow> \<lparr>lsize = 2, lalign = 2\<rparr> | Ty_U16 \<Rightarrow> \<lparr>lsize = 2, lalign = 2\<rparr>
      | Ty_I32 \<Rightarrow> \<lparr>lsize = 4, lalign = 4\<rparr> | Ty_U32 \<Rightarrow> \<lparr>lsize = 4, lalign = 4\<rparr> | Ty_F32 \<Rightarrow> \<lparr>lsize = 4, lalign = 4\<rparr>
      | Ty_I64 \<Rightarrow> \<lparr>lsize = 8, lalign = 8\<rparr> | Ty_U64 \<Rightarrow> \<lparr>lsize = 8, lalign = 8\<rparr> | Ty_F64 \<Rightarrow> \<lparr>lsize = 8, lalign = 8\<rparr>
      | Ty_Isize \<Rightarrow> (let w = ptr_bytes t in \<lparr>lsize = w, lalign = w\<rparr>)
      | Ty_Usize \<Rightarrow> (let w = ptr_bytes t in \<lparr>lsize = w, lalign = w\<rparr>)
      | Ty_Ptr \<Rightarrow> (let w = ptr_bytes t in \<lparr>lsize = w, lalign = w\<rparr>)
      | Ty_SliceView \<Rightarrow> (let w = ptr_bytes t in \<lparr>lsize = lsat_add w w, lalign = w\<rparr>)
      | Ty_Array elem len \<Rightarrow> (let e = layout_of elem t
          in \<lparr>lsize = min usize_MAX (lsize e * len), lalign = lalign e\<rparr>)
      | Ty_Tuple fls \<Rightarrow> sl_layout (struct_finish (struct_loop fls t 0 1 []))
      | Ty_Struct fls \<Rightarrow> sl_layout (struct_finish (struct_loop fls t 0 1 []))
      | Ty_Enum variants \<Rightarrow> el_layout (enum_finish (length variants) (enum_loop variants t 0 1)))"
| "struct_loop fls t off max_align offs =
     (case fls of [] \<Rightarrow> (off, max_align, offs)
      | f # fs \<Rightarrow>
          let l = layout_of f t;
              off = align_up off (lalign l)
          in struct_loop fs t (lsat_add off (lsize l)) (max max_align (lalign l)) (offs @ [off]))"
| "enum_loop variants t payload_size payload_align =
     (case variants of [] \<Rightarrow> (payload_size, payload_align)
      | v # vs \<Rightarrow>
          (case payload v of
             None \<Rightarrow> enum_loop vs t payload_size payload_align
           | Some p \<Rightarrow> let l = layout_of p t
               in enum_loop vs t (max payload_size (lsize l)) (max payload_align (lalign l))))"
  by pat_completeness auto
termination
  by (relation "measure (\<lambda>x. case x of Inl (ty, _) \<Rightarrow> size ty
      | Inr (Inl (fs, _)) \<Rightarrow> size_list size fs | Inr (Inr (vs, _)) \<Rightarrow> size_list size vs)")
    (auto dest: payload_size)

declare layout_of.simps [simp del] struct_loop.simps [simp del] enum_loop.simps [simp del]

definition struct_layout_of :: "Ty list \<Rightarrow> Target \<Rightarrow> StructLayout" where
  "struct_layout_of fls t = struct_finish (struct_loop fls t 0 1 [])"

definition enum_layout_of :: "Variant list \<Rightarrow> Target \<Rightarrow> EnumLayout" where
  "enum_layout_of variants t = enum_finish (length variants) (enum_loop variants t 0 1)"

definition size_of :: "Ty \<Rightarrow> Target \<Rightarrow> nat" where "size_of ty t = lsize (layout_of ty t)"
definition align_of :: "Ty \<Rightarrow> Target \<Rightarrow> nat" where "align_of ty t = lalign (layout_of ty t)"

section \<open>Discriminants\<close>

definition u32_to_le_bytes :: "u32 \<Rightarrow> u8 list" where
  "u32_to_le_bytes v = map (\<lambda>i. ucast (drop_bit (8 * i) v)) [0..<4]"

definition u32_from_le_bytes :: "u8 list \<Rightarrow> u32" where
  "u32_from_le_bytes bs = foldr (\<lambda>b acc. ucast b OR push_bit 8 acc) bs 0"

text \<open>The outer option is \<open>None\<close> when the slice \<^verbatim>\<open>bytes[..n]\<close> is out of range and the code panics.\<close>

definition encode_discriminant :: "u32 \<Rightarrow> nat \<Rightarrow> u8 list option option" where
  "encode_discriminant discriminant variant_count =
     (let n = discriminant_size variant_count
      in if variant_count = 0 \<or> unat discriminant \<ge> variant_count then Some None
         else let bytes = u32_to_le_bytes discriminant
              in if n \<le> length bytes then Some (Some (take n bytes)) else None)"

definition decode_discriminant :: "u8 list \<Rightarrow> nat \<Rightarrow> u32 option" where
  "decode_discriminant bytes variant_count =
     (let n = discriminant_size variant_count
      in if length bytes \<noteq> n \<or> variant_count = 0 \<or> n > 4 then None
         else let buf = bytes @ replicate (4 - n) 0;
                  v = u32_from_le_bytes buf
              in if unat v < variant_count then Some v else None)"

section \<open>Monomorphization by size\<close>

definition MONOMORPHIZE_SIZE_MAX :: nat where "MONOMORPHIZE_SIZE_MAX = 16"

definition is_scalar_le16 :: "Ty \<Rightarrow> Target \<Rightarrow> bool" where
  "is_scalar_le16 ty t \<longleftrightarrow> is_scalar ty \<and> size_of ty t \<le> MONOMORPHIZE_SIZE_MAX"

definition shape_monomorphized :: "bool \<Rightarrow> nat \<Rightarrow> bool" where
  "shape_monomorphized scalar size_bytes \<longleftrightarrow> scalar \<or> size_bytes \<le> MONOMORPHIZE_SIZE_MAX"

end
