(* ===== verification/Layout_Laws.thy ===== *)
theory Layout_Laws
  imports Layout_Rule
begin

text \<open>
  The layout rule against its specification: \<open>ideal\<close> computes size and alignment in unbounded natural
  numbers, with fields at the least aligned offset after the previous field. The code computes the
  ideal values, cut off at \<open>usize_MAX\<close>; fields do not overlap, are aligned and lie inside the type;
  discriminants round-trip.
\<close>

section \<open>Specification\<close>

definition round_up :: "nat \<Rightarrow> nat \<Rightarrow> nat" where
  "round_up off a = (off + (a - 1)) div a * a"

text \<open>Offsets, end and alignment of a sequence of members given by size and alignment.\<close>

fun place_from :: "nat \<Rightarrow> (nat \<times> nat) list \<Rightarrow> nat list" where
  "place_from off [] = []"
| "place_from off ((s, a) # ls) = round_up off a # place_from (round_up off a + s) ls"

fun end_from :: "nat \<Rightarrow> (nat \<times> nat) list \<Rightarrow> nat" where
  "end_from off [] = off"
| "end_from off ((s, a) # ls) = end_from (round_up off a + s) ls"

definition max_from :: "nat \<Rightarrow> nat list \<Rightarrow> nat" where
  "max_from = foldl max"

definition struct_ideal :: "(nat \<times> nat) list \<Rightarrow> nat \<times> nat" where
  "struct_ideal ls = (let a = max_from 1 (map snd ls) in (round_up (end_from 0 ls) a, a))"

definition enum_ideal :: "nat \<Rightarrow> (nat \<times> nat) list \<Rightarrow> nat \<times> nat" where
  "enum_ideal n ls =
     (let d = discriminant_size n;
          pa = max_from 1 (map snd ls);
          a = max (max d 1) pa
      in (round_up (round_up d pa + max_from 0 (map fst ls)) a, a))"

fun payloads :: "Variant list \<Rightarrow> Ty list" where
  "payloads [] = []"
| "payloads (v # vs) = (case payload v of None \<Rightarrow> payloads vs | Some p \<Rightarrow> p # payloads vs)"

lemma payloads_size: "p \<in> set (payloads vs) \<Longrightarrow> size p < Suc (size_list size vs)"
  by (induction vs) (auto dest: payload_size split: option.splits)

function ideal :: "nat \<Rightarrow> Ty \<Rightarrow> nat \<times> nat" where
  "ideal w ty =
     (case ty of
        Ty_Unit \<Rightarrow> (0, 1) | Ty_Never \<Rightarrow> (0, 1) | Ty_Bool \<Rightarrow> (1, 1) | Ty_I8 \<Rightarrow> (1, 1) | Ty_U8 \<Rightarrow> (1, 1)
      | Ty_I16 \<Rightarrow> (2, 2) | Ty_U16 \<Rightarrow> (2, 2) | Ty_I32 \<Rightarrow> (4, 4) | Ty_U32 \<Rightarrow> (4, 4) | Ty_F32 \<Rightarrow> (4, 4)
      | Ty_I64 \<Rightarrow> (8, 8) | Ty_U64 \<Rightarrow> (8, 8) | Ty_F64 \<Rightarrow> (8, 8)
      | Ty_Isize \<Rightarrow> (w, w) | Ty_Usize \<Rightarrow> (w, w) | Ty_Ptr \<Rightarrow> (w, w) | Ty_SliceView \<Rightarrow> (2 * w, w)
      | Ty_Array elem len \<Rightarrow> (fst (ideal w elem) * len, snd (ideal w elem))
      | Ty_Tuple fls \<Rightarrow> struct_ideal (map (ideal w) fls)
      | Ty_Struct fls \<Rightarrow> struct_ideal (map (ideal w) fls)
      | Ty_Enum vs \<Rightarrow> enum_ideal (length vs) (map (ideal w) (payloads vs)))"
  by pat_completeness auto
termination
  by (relation "measure (\<lambda>(_, ty). size ty)")
    (auto dest: payloads_size simp: less_Suc_eq_le intro: size_list_estimation')

declare ideal.simps [simp del]

lemmas ideal_eqs =
  ideal.simps [where ty = Ty_Unit, simplified] ideal.simps [where ty = Ty_Never, simplified]
  ideal.simps [where ty = Ty_Bool, simplified] ideal.simps [where ty = Ty_I8, simplified]
  ideal.simps [where ty = Ty_I16, simplified] ideal.simps [where ty = Ty_I32, simplified]
  ideal.simps [where ty = Ty_I64, simplified] ideal.simps [where ty = Ty_U8, simplified]
  ideal.simps [where ty = Ty_U16, simplified] ideal.simps [where ty = Ty_U32, simplified]
  ideal.simps [where ty = Ty_U64, simplified] ideal.simps [where ty = Ty_Isize, simplified]
  ideal.simps [where ty = Ty_Usize, simplified] ideal.simps [where ty = Ty_F32, simplified]
  ideal.simps [where ty = Ty_F64, simplified] ideal.simps [where ty = Ty_Ptr, simplified]
  ideal.simps [where ty = Ty_SliceView, simplified] ideal.simps [where ty = "Ty_Array e n" for e n, simplified]
  ideal.simps [where ty = "Ty_Tuple fls" for fls, simplified]
  ideal.simps [where ty = "Ty_Struct fls" for fls, simplified]
  ideal.simps [where ty = "Ty_Enum vs" for vs, simplified]

lemmas layout_eqs =
  layout_of.simps [where ty = Ty_Unit, simplified] layout_of.simps [where ty = Ty_Never, simplified]
  layout_of.simps [where ty = Ty_Bool, simplified] layout_of.simps [where ty = Ty_I8, simplified]
  layout_of.simps [where ty = Ty_I16, simplified] layout_of.simps [where ty = Ty_I32, simplified]
  layout_of.simps [where ty = Ty_I64, simplified] layout_of.simps [where ty = Ty_U8, simplified]
  layout_of.simps [where ty = Ty_U16, simplified] layout_of.simps [where ty = Ty_U32, simplified]
  layout_of.simps [where ty = Ty_U64, simplified] layout_of.simps [where ty = Ty_Isize, simplified]
  layout_of.simps [where ty = Ty_Usize, simplified] layout_of.simps [where ty = Ty_F32, simplified]
  layout_of.simps [where ty = Ty_F64, simplified] layout_of.simps [where ty = Ty_Ptr, simplified]
  layout_of.simps [where ty = Ty_SliceView, simplified]
  layout_of.simps [where ty = "Ty_Array e n" for e n, simplified]
  layout_of.simps [where ty = "Ty_Tuple fls" for fls, simplified]
  layout_of.simps [where ty = "Ty_Struct fls" for fls, simplified]
  layout_of.simps [where ty = "Ty_Enum vs" for vs, simplified]

lemmas loop_eqs =
  struct_loop.simps [where fls = "[]", simplified] struct_loop.simps [where fls = "f # fs" for f fs, simplified]
  enum_loop.simps [where variants = "[]", simplified] enum_loop.simps [where variants = "v # vs" for v vs, simplified]

section \<open>Rounding\<close>

definition legal_align :: "nat \<Rightarrow> bool" where
  "legal_align a \<longleftrightarrow> a \<in> {1, 2, 4, 8}"

lemma legal_align_pow: "legal_align a \<longleftrightarrow> (\<exists>k\<le>3. a = 2 ^ k)"
proof
  assume "legal_align a"
  then have "a = 2 ^ 0 \<or> a = 2 ^ 1 \<or> a = 2 ^ 2 \<or> a = 2 ^ (3::nat)" by (auto simp: legal_align_def)
  then show "\<exists>k\<le>3. a = 2 ^ k" by (metis le_numeral_extra(3) numeral_le_iff one_le_numeral order.refl semiring_norm(69,72) zero_le)
next
  assume "\<exists>k\<le>3. a = 2 ^ k"
  then obtain k where "k \<le> 3" "a = 2 ^ k" by blast
  then show "legal_align a" by (auto simp: legal_align_def le_Suc_eq numeral_eq_Suc)
qed

lemma legal_align_max: "legal_align a \<Longrightarrow> legal_align b \<Longrightarrow> legal_align (max a b)"
  by (auto simp: legal_align_def max_def)

lemma legal_align_dvd: "legal_align a \<Longrightarrow> legal_align b \<Longrightarrow> a \<le> b \<Longrightarrow> a dvd b"
  by (auto simp: legal_align_def)

lemma legal_align_pos: "legal_align a \<Longrightarrow> 0 < a"
  by (auto simp: legal_align_def)

lemma round_up_props:
  assumes "0 < a"
  shows "a dvd round_up off a" "off \<le> round_up off a" "round_up off a < off + a"
    "a dvd c \<Longrightarrow> off \<le> c \<Longrightarrow> round_up off a \<le> c"
proof -
  let ?n = "off + (a - 1)"
  have m: "?n div a * a + ?n mod a = ?n" "?n mod a < a" using assms by simp_all
  show "a dvd round_up off a" by (simp add: round_up_def)
  show "off \<le> round_up off a" "round_up off a < off + a"
    using m assms unfolding round_up_def by linarith+
  assume "a dvd c" "off \<le> c"
  then obtain k where k: "c = a * k" by blast
  with \<open>off \<le> c\<close> assms have "?n < a * k + a" by linarith
  then have "?n < Suc k * a" by (simp add: algebra_simps)
  then have "?n div a < Suc k" by (rule less_mult_imp_div_less)
  then have "?n div a * a \<le> k * a" by (intro mult_le_mono1) simp
  then show "round_up off a \<le> c" unfolding round_up_def k by (simp only: mult.commute)
qed

lemma align_up_eq:
  assumes "legal_align a" "off \<le> usize_MAX"
  shows "align_up off a = min usize_MAX (round_up off a)"
proof -
  obtain k where k: "k \<le> 3" "a = 2 ^ k" using assms(1) legal_align_pow by blast
  let ?n = "off + (a - 1)"
  have a: "0 < a" by (simp add: k)
  show ?thesis
  proof (cases "?n \<le> usize_MAX")
    case True
    then have n: "?n < 2 ^ 64" by (simp add: usize_MAX_def)
    have "word_of_nat (a - 1) = (mask k :: u64)"
      by (simp add: k mask_eq_exp_minus_1 of_nat_diff)
    then have "(word_of_nat ?n :: u64) AND NOT (word_of_nat (a - 1)) = push_bit k (drop_bit k (word_of_nat ?n))"
      by (simp only:) (rule bit_word_eqI, auto simp: bit_simps)
    also have "unat \<dots> = push_bit k (drop_bit k ?n)"
    proof -
      have "unat (word_of_nat ?n :: u64) = ?n"
        unfolding unsigned_of_nat using n by (simp only: of_nat_id) (intro take_bit_nat_eq_self, simp)
      then have d: "unat (drop_bit k (word_of_nat ?n :: u64)) = drop_bit k ?n"
        unfolding unsigned_drop_bit_eq using n by (simp only:) (simp add: take_bit_nat_eq_self)
      have "drop_bit k ?n * 2 ^ k \<le> ?n" by (simp add: drop_bit_eq_div)
      then have "drop_bit k ?n * 2 ^ k < 2 ^ 64" using n by linarith
      then show ?thesis by (subst unat_push_bit) (simp_all only: d push_bit_eq_mult len_of_numeral_defs, simp_all)
    qed
    also have "\<dots> = round_up off a" by (simp add: round_up_def k push_bit_eq_mult drop_bit_eq_div)
    moreover have "round_up off a \<le> ?n" unfolding round_up_def by simp
    ultimately show ?thesis using True by (simp add: align_up_def Let_def)
  next
    case False
    have "a dvd 2 ^ 64" unfolding k(2) by (rule le_imp_power_dvd) (use k(1) in simp)
    have "2 ^ 64 \<le> round_up off a"
    proof (rule ccontr)
      assume "\<not> 2 ^ 64 \<le> round_up off a"
      then obtain m where m: "round_up off a + a \<le> 2 ^ 64"
        using dvd_diff_nat \<open>a dvd 2 ^ 64\<close> round_up_props(1) [OF a, of off]
        by (metis add.commute dvd_imp_le le_diff_conv2 less_imp_le not_le zero_less_diff)
      with False round_up_props(2) [OF a, of off] a show False by (simp add: usize_MAX_def)
    qed
    with False show ?thesis by (simp add: align_up_def usize_MAX_def Let_def)
  qed
qed

section \<open>The code computes the ideal layout, cut off\<close>

definition sat :: "nat \<Rightarrow> nat" where "sat n = min usize_MAX n"

lemma sat_le [simp]: "sat n \<le> usize_MAX"
  by (simp add: sat_def)

lemma sat_id [simp]: "n \<le> usize_MAX \<Longrightarrow> sat n = n"
  by (simp add: sat_def)

lemma sat_add_sat: "lsat_add (sat a) (sat b) = sat (a + b)"
  by (auto simp: lsat_add_def sat_def)

lemma sat_max: "max (sat a) (sat b) = sat (max a b)"
  by (auto simp: sat_def)

lemma sat_mult: "min usize_MAX (sat a * n) = sat (a * n)"
proof (cases "n = 0 \<or> a \<le> usize_MAX")
  case False
  then have "usize_MAX \<le> usize_MAX * n" "a \<le> a * n" "usize_MAX < a" by simp_all
  then have "usize_MAX \<le> usize_MAX * n" "usize_MAX \<le> a * n" "usize_MAX \<le> a" by linarith+
  then show ?thesis unfolding sat_def by (simp only: min_absorb1)
qed (auto simp: sat_def)

lemma align_up_sat: "legal_align a \<Longrightarrow> align_up (sat o') a = sat (round_up o' a)"
proof (cases "o' \<le> usize_MAX")
  case True
  then show "legal_align a \<Longrightarrow> align_up (sat o') a = sat (round_up o' a)"
    by (simp add: align_up_eq sat_def)
next
  case False
  assume a: "legal_align a"
  note r = round_up_props(2) [OF legal_align_pos [OF a]]
  have "usize_MAX \<le> round_up usize_MAX a" "usize_MAX \<le> round_up o' a"
    using r [of usize_MAX] r [of o'] False by simp_all
  with False show "align_up (sat o') a = sat (round_up o' a)"
    by (simp add: sat_def align_up_eq [OF a])
qed

lemma legal_max_from:
  "legal_align a \<Longrightarrow> list_all legal_align as \<Longrightarrow> legal_align (max_from a as)"
  by (induction as arbitrary: a) (simp_all add: max_from_def legal_align_max)

lemma max_from_sat: "max_from (sat a) (map (sat \<circ> f) xs) = sat (max_from a (map f xs))"
  by (induction xs arbitrary: a) (simp_all add: max_from_def sat_max)

lemma max_from_Cons [simp]: "max_from a (x # xs) = max_from (max a x) xs" "max_from a [] = a"
  by (simp_all add: max_from_def)

definition wf_target :: "Target \<Rightarrow> bool" where
  "wf_target t \<longleftrightarrow> ptr_bits t = 32 \<or> ptr_bits t = 64"

lemma legal_disc: "legal_align (max (discriminant_size n) 1)"
  by (simp add: discriminant_size_def legal_align_def)

lemma enum_finish_eq:
  fixes n :: nat
  assumes "legal_align pa"
  defines "d \<equiv> discriminant_size n"
  shows "enum_finish n (sat ps, pa) =
    \<lparr>el_layout = \<lparr>lsize = sat (round_up (round_up d pa + ps) (max (max d 1) pa)), lalign = max (max d 1) pa\<rparr>,
     el_discriminant_size = d, payload_offset = sat (round_up d pa)\<rparr>"
proof -
  have "sat d = d" by (simp add: d_def discriminant_size_def usize_MAX_def sat_def)
  then have "align_up d pa = sat (round_up d pa)" using align_up_sat [OF assms(1), of d] by simp
  with legal_align_max [OF legal_disc assms(1), of n] show ?thesis
    by (simp add: enum_finish_def Let_def sat_add_sat align_up_sat flip: d_def)
qed

lemma layout_refines:
  assumes "wf_target t"
  defines "w \<equiv> ptr_bytes t"
  shows "layout_of ty t = \<lparr>lsize = sat (fst (ideal w ty)), lalign = snd (ideal w ty)\<rparr> \<and>
      legal_align (snd (ideal w ty))"
    and "struct_loop fls t (sat o') ma offs =
      (sat (end_from o' (map (ideal w) fls)), max_from ma (map (snd \<circ> ideal w) fls),
       offs @ map sat (place_from o' (map (ideal w) fls)))
      \<and> list_all (legal_align \<circ> snd) (map (ideal w) fls)"
    and "enum_loop vs t (sat s) pa =
      (sat (max_from s (map (fst \<circ> ideal w) (payloads vs))), max_from pa (map (snd \<circ> ideal w) (payloads vs)))
      \<and> list_all (legal_align \<circ> snd) (map (ideal w) (payloads vs))"
proof -
  have pw: "ptr_bytes t = w" by (simp add: w_def)
  have w: "w = 4 \<or> w = 8" using assms(1) by (auto simp: w_def wf_target_def ptr_bytes_def)
  have "(t = t' \<longrightarrow> layout_of ty t' = \<lparr>lsize = sat (fst (ideal w ty)), lalign = snd (ideal w ty)\<rparr> \<and>
      legal_align (snd (ideal w ty)))"
    and "(\<forall>o'. t = t' \<and> off = sat o' \<longrightarrow> struct_loop fls t' off ma offs =
      (sat (end_from o' (map (ideal w) fls)), max_from ma (map (snd \<circ> ideal w) fls),
       offs @ map sat (place_from o' (map (ideal w) fls)))
      \<and> list_all (legal_align \<circ> snd) (map (ideal w) fls))"
    and "(\<forall>s. t = t' \<and> ps = sat s \<longrightarrow> enum_loop vs t' ps pa =
      (sat (max_from s (map (fst \<circ> ideal w) (payloads vs))), max_from pa (map (snd \<circ> ideal w) (payloads vs)))
      \<and> list_all (legal_align \<circ> snd) (map (ideal w) (payloads vs)))" for t' off ps
  proof (induction ty t' and fls t' off ma offs and vs t' ps pa
      rule: layout_of_struct_loop_enum_loop.induct)
    case (1 ty t')
    have u: "x \<le> 16 \<Longrightarrow> sat x = x" for x by (simp add: sat_def usize_MAX_def)
    have struct: ?case if "t = t' \<longrightarrow> struct_loop fls t' 0 1 [] =
          (sat (end_from 0 (map (ideal w) fls)), max_from 1 (map (snd \<circ> ideal w) fls),
           map sat (place_from 0 (map (ideal w) fls))) \<and> list_all (legal_align \<circ> snd) (map (ideal w) fls)"
        "ty = Ty_Tuple fls \<or> ty = Ty_Struct fls" for fls
      using that legal_max_from [of 1 "map (snd \<circ> ideal w) fls"]
      by (auto simp: layout_eqs ideal_eqs struct_finish_def struct_ideal_def Let_def align_up_sat
          legal_align_def list.pred_map comp_def)
    show ?case
    proof (cases ty)
      case (Ty_Array elem len)
      with 1(1) [OF Ty_Array] show ?thesis by (simp add: layout_eqs ideal_eqs sat_mult)
    next
      case (Ty_Tuple fls)
      with 1(2) [OF Ty_Tuple, rule_format, of 0] show ?thesis by (intro struct [of fls]) simp_all
    next
      case (Ty_Struct fls)
      with 1(3) [OF Ty_Struct, rule_format, of 0] show ?thesis by (intro struct [of fls]) simp_all
    next
      case (Ty_Enum vs)
      let ?ls = "map (ideal w) (payloads vs)"
      show ?thesis
      proof
        assume t: "t = t'"
        have ih: "enum_loop vs t' 0 1 = (sat (max_from 0 (map fst ?ls)), max_from 1 (map snd ?ls))"
          "list_all (legal_align \<circ> snd) ?ls"
          using 1(4) [OF Ty_Enum, rule_format, of 0] t by simp_all
        have pa: "legal_align (max_from 1 (map snd ?ls))"
          using ih(2) by (intro legal_max_from) (simp_all add: legal_align_def list.pred_map comp_assoc)
        note al = legal_align_max [OF legal_disc [of "length vs"] pa]
        show "layout_of ty t' = \<lparr>lsize = sat (fst (ideal w ty)), lalign = snd (ideal w ty)\<rparr> \<and>
            legal_align (snd (ideal w ty))"
          using al enum_finish_eq [OF pa] ih(1) by (simp add: Ty_Enum layout_eqs ideal_eqs enum_ideal_def Let_def)
      qed
    qed (use w pw in \<open>auto simp: layout_eqs ideal_eqs legal_align_def u lsat_add_def usize_MAX_def Let_def\<close>)
  next
    case (2 fls t' off ma offs)
    show ?case
    proof (cases fls)
      case Nil
      then show ?thesis by (simp add: loop_eqs)
    next
      case (Cons f fs)
      show ?thesis
      proof (intro allI impI)
        fix o' assume a: "t = t' \<and> off = sat o'"
        obtain s al where i: "ideal w f = (s, al)" by fastforce
        have l: "layout_of f t' = \<lparr>lsize = sat s, lalign = al\<rparr>" "legal_align al"
          using 2(1) [OF Cons] a i by simp_all
        have o2: "align_up (sat o') al = sat (round_up o' al)"
          using l(2) by (rule align_up_sat)
        show "struct_loop fls t' off ma offs =
            (sat (end_from o' (map (ideal w) fls)), max_from ma (map (snd \<circ> ideal w) fls),
             offs @ map sat (place_from o' (map (ideal w) fls)))
            \<and> list_all (legal_align \<circ> snd) (map (ideal w) fls)"
          using 2(2) [OF Cons refl refl, rule_format, of "round_up o' al + s"] a l i
          by (simp add: Cons loop_eqs o2 sat_add_sat Let_def)
      qed
    qed
  next
    case (3 vs t' ps pa)
    show ?case
    proof (cases vs)
      case Nil
      then show ?thesis by (simp add: loop_eqs)
    next
      case (Cons v rest)
      show ?thesis
      proof (cases "payload v")
        case None
        with 3(1) [OF Cons None] show ?thesis by (simp add: Cons loop_eqs)
      next
        case (Some p)
        with 3(2) [OF Cons Some] 3(3) [OF Cons Some refl] show ?thesis
          by (auto simp: Cons loop_eqs Let_def sat_max)
      qed
    qed
  qed
  then show "layout_of ty t = \<lparr>lsize = sat (fst (ideal w ty)), lalign = snd (ideal w ty)\<rparr> \<and>
      legal_align (snd (ideal w ty))"
    and "struct_loop fls t (sat o') ma offs =
      (sat (end_from o' (map (ideal w) fls)), max_from ma (map (snd \<circ> ideal w) fls),
       offs @ map sat (place_from o' (map (ideal w) fls)))
      \<and> list_all (legal_align \<circ> snd) (map (ideal w) fls)"
    and "enum_loop vs t (sat s) pa =
      (sat (max_from s (map (fst \<circ> ideal w) (payloads vs))), max_from pa (map (snd \<circ> ideal w) (payloads vs)))
      \<and> list_all (legal_align \<circ> snd) (map (ideal w) (payloads vs))"
    by blast+
qed

lemma struct_layout_eq:
  fixes fls :: "Ty list"
  assumes "wf_target t"
  defines "ls \<equiv> map (ideal (ptr_bytes t)) fls"
  shows "struct_layout_of fls t =
      \<lparr>sl_layout = \<lparr>lsize = sat (fst (struct_ideal ls)), lalign = snd (struct_ideal ls)\<rparr>,
       offsets = map sat (place_from 0 ls)\<rparr>"
    and "list_all (legal_align \<circ> snd) ls" "legal_align (snd (struct_ideal ls))"
proof -
  note r = layout_refines(2) [OF assms(1), of fls 0 1 "[]", folded ls_def, simplified]
  then show l: "list_all (legal_align \<circ> snd) ls" by (simp add: comp_def)
  then have "legal_align (max_from 1 (map snd ls))"
    by (intro legal_max_from) (simp_all add: legal_align_def list.pred_map comp_def)
  then show "legal_align (snd (struct_ideal ls))"
    and "struct_layout_of fls t =
      \<lparr>sl_layout = \<lparr>lsize = sat (fst (struct_ideal ls)), lalign = snd (struct_ideal ls)\<rparr>,
       offsets = map sat (place_from 0 ls)\<rparr>"
    using r by (simp_all add: struct_layout_of_def struct_finish_def struct_ideal_def align_up_sat ls_def
        Let_def comp_def)
qed

section \<open>Placement\<close>

lemma place_length [simp]: "length (place_from off ls) = length ls"
  by (induction off ls rule: place_from.induct) auto

lemma end_from_ge: "list_all (legal_align \<circ> snd) ls \<Longrightarrow> off \<le> end_from off ls"
proof (induction off ls rule: end_from.induct)
  case (2 off s a ls)
  then have "round_up off a + s \<le> end_from (round_up off a + s) ls" "off \<le> round_up off a"
    using round_up_props(2) [OF legal_align_pos] by auto
  then show ?case by simp
qed simp

text \<open>Members lie between the start and the end, in order, each at its alignment.\<close>

lemma place_from_props:
  assumes "list_all (legal_align \<circ> snd) ls" "i < length ls"
  shows "off \<le> place_from off ls ! i" "snd (ls ! i) dvd place_from off ls ! i"
    "place_from off ls ! i + fst (ls ! i) \<le> end_from off ls"
    "\<And>j. i < j \<Longrightarrow> j < length ls \<Longrightarrow> place_from off ls ! i + fst (ls ! i) \<le> place_from off ls ! j"
proof -
  have "off \<le> place_from off ls ! i \<and> snd (ls ! i) dvd place_from off ls ! i
    \<and> place_from off ls ! i + fst (ls ! i) \<le> end_from off ls
    \<and> (\<forall>j. i < j \<longrightarrow> j < length ls \<longrightarrow> place_from off ls ! i + fst (ls ! i) \<le> place_from off ls ! j)"
    using assms
  proof (induction off ls arbitrary: i rule: place_from.induct)
    case (2 off s a ls)
    let ?o = "round_up off a"
    have l: "list_all (legal_align \<circ> snd) ls" "legal_align a" using 2(2) by (auto simp: comp_def)
    note ru = round_up_props [OF legal_align_pos [OF l(2)]]
    have ge: "?o + s \<le> place_from (?o + s) ls ! k" if "k < length ls" for k
      using 2(1) [OF l(1) that] by simp
    show ?case
    proof (cases i)
      case 0
      then show ?thesis using ru [of off] end_from_ge [OF l(1)] ge by (auto simp: nth_Cons')
    next
      case (Suc k)
      with 2(3) have k: "k < length ls" by simp
      show ?thesis
      proof (intro conjI allI impI)
        fix j assume "i < j" "j < length ((s, a) # ls)"
        then obtain j' where "j = Suc j'" "k < j'" "j' < length ls" using Suc by (cases j) auto
        with 2(1) [OF l(1) k] Suc show "place_from off ((s, a) # ls) ! i + fst (((s, a) # ls) ! i)
            \<le> place_from off ((s, a) # ls) ! j" by simp
      qed (use 2(1) [OF l(1) k] ru(2) [of off] Suc in auto)
    qed
  qed simp
  then show "off \<le> place_from off ls ! i" "snd (ls ! i) dvd place_from off ls ! i"
    "place_from off ls ! i + fst (ls ! i) \<le> end_from off ls"
    "\<And>j. i < j \<Longrightarrow> j < length ls \<Longrightarrow> place_from off ls ! i + fst (ls ! i) \<le> place_from off ls ! j" by blast+
qed

lemma max_from_ge: "a \<le> max_from a xs"
  by (induction xs arbitrary: a) (auto intro: order_trans [OF max.cobounded1])

lemma max_from_mem: "x \<in> set xs \<Longrightarrow> x \<le> max_from a xs"
  by (induction xs arbitrary: a) (auto intro: order_trans [OF max.cobounded2 max_from_ge])

end
