(* ===== verification/Layout_Theorems.thy ===== *)
theory Layout_Theorems
  imports Layout_Laws
begin

text \<open>
  The properties of the layout rule: the code computes the ideal layout cut off at the largest
  \<^verbatim>\<open>usize\<close>, every type has a legal alignment that divides its size, fields and payloads are aligned and
  disjoint, and discriminants round-trip.
\<close>

lemma wf_target_bytes: "wf_target t \<Longrightarrow> ptr_bytes t = 4 \<or> ptr_bytes t = 8"
  by (auto simp: wf_target_def ptr_bytes_def)

lemma layout_ideal:
  assumes "wf_target t"
  shows "size_of ty t = sat (fst (ideal (ptr_bytes t) ty))" "align_of ty t = snd (ideal (ptr_bytes t) ty)"
    "legal_align (snd (ideal (ptr_bytes t) ty))"
  using layout_refines(1) [OF assms, of ty] by (simp_all add: size_of_def align_of_def)

lemma payloads_legal:
  assumes "wf_target t"
  defines "w \<equiv> ptr_bytes t"
  shows "legal_align (max_from 1 (map (snd \<circ> ideal w) (payloads vs)))"
  using layout_refines(3) [OF assms(1), of vs 0 1, folded w_def]
  by (intro legal_max_from) (simp_all add: legal_align_def list.pred_map comp_def)

lemma enum_layout_eq:
  fixes vs :: "Variant list"
  assumes "wf_target t"
  defines "w \<equiv> ptr_bytes t" and "d \<equiv> discriminant_size (length vs)"
  defines "pa \<equiv> max_from 1 (map (snd \<circ> ideal w) (payloads vs))"
    and "ps \<equiv> max_from 0 (map (fst \<circ> ideal w) (payloads vs))"
  shows "enum_layout_of vs t =
    \<lparr>el_layout = \<lparr>lsize = sat (round_up (round_up d pa + ps) (max (max d 1) pa)), lalign = max (max d 1) pa\<rparr>,
     el_discriminant_size = d, payload_offset = sat (round_up d pa)\<rparr>"
  using layout_refines(3) [OF assms(1), of vs 0 1, folded w_def]
    enum_finish_eq [OF payloads_legal [OF assms(1), of vs, folded w_def], of "length vs" ps]
  by (simp add: enum_layout_of_def pa_def ps_def d_def)

text \<open>C31: The layout of every type is the ideal one, computed without overflow in unbounded natural
  numbers (members at the least aligned offset after the previous one, in declaration order; enum
  payload after the smallest tag; size padded to the alignment), with sizes and offsets above the
  largest \<^verbatim>\<open>usize\<close> replaced by it: no intermediate overflow changes a layout that fits.\<close>

theorem layout_refines_ideal:
  assumes "wf_target t"
  defines "w \<equiv> ptr_bytes t"
  shows "layout_of ty t = \<lparr>lsize = sat (fst (ideal w ty)), lalign = snd (ideal w ty)\<rparr>
    \<and> offsets (struct_layout_of fls t) = map sat (place_from 0 (map (ideal w) fls))
    \<and> payload_offset (enum_layout_of vs t) =
        sat (round_up (discriminant_size (length vs)) (max_from 1 (map (snd \<circ> ideal w) (payloads vs))))"
  using layout_refines(1) [OF assms(1), of ty] struct_layout_eq(1) [OF assms(1), of fls]
    enum_layout_eq [OF assms(1), of vs]
  by (simp add: w_def)

theorem layout_refines_ideal_witness:
  "layout_of (Ty_Struct [Ty_U8, Ty_U32, Ty_U16]) AARCH64_APPLE_DARWIN = \<lparr>lsize = 12, lalign = 4\<rparr>
   \<and> offsets (struct_layout_of [Ty_U8, Ty_U32, Ty_U16] AARCH64_APPLE_DARWIN) = [0, 4, 8]"
  using layout_refines_ideal [of AARCH64_APPLE_DARWIN "Ty_Struct [Ty_U8, Ty_U32, Ty_U16]" "[Ty_U8, Ty_U32, Ty_U16]"]
  by (simp add: wf_target_def AARCH64_APPLE_DARWIN_def ideal_eqs struct_ideal_def round_up_def sat_def
      usize_MAX_def Let_def)

section \<open>Alignment\<close>

lemma ideal_dvd:
  assumes "wf_target t"
  shows "snd (ideal (ptr_bytes t) ty) dvd fst (ideal (ptr_bytes t) ty)"
proof (induction ty rule: measure_induct_rule [of size])
  case (less ty)
  have struct: "legal_align (snd (struct_ideal (map (ideal (ptr_bytes t)) fls)))" for fls
    by (rule struct_layout_eq(3) [OF assms])
  show ?case
  proof (cases ty)
    case (Ty_Tuple fls)
    with struct [of fls] show ?thesis
      by (simp add: ideal_eqs struct_ideal_def Let_def round_up_props(1) legal_align_pos)
  next
    case (Ty_Struct fls)
    with struct [of fls] show ?thesis
      by (simp add: ideal_eqs struct_ideal_def Let_def round_up_props(1) legal_align_pos)
  next
    case (Ty_Enum vs)
    then show ?thesis by (simp add: ideal_eqs enum_ideal_def Let_def round_up_props(1))
  qed (use less in \<open>simp_all add: ideal_eqs\<close>)
qed

lemma legal_validates: "legal_align a \<Longrightarrow> validate_align a = Inr ()"
  by (auto simp: legal_align_def validate_align_def is_power_of_two_def MEM_MAX_ALIGN_def)

text \<open>C32: Every type has an alignment that \<^verbatim>\<open>validate_align\<close> accepts (a power of two, at most
  \<^verbatim>\<open>MEM_MAX_ALIGN\<close>), and its size is a multiple of it, so the elements of an array stay aligned;
  only a size cut off at the largest \<^verbatim>\<open>usize\<close> is not. \<^verbatim>\<open>Layout::array\<close> agrees with the layout of the
  array type and refuses exactly the sizes that \<^verbatim>\<open>layout_of\<close> would cut off.\<close>

theorem layout_invariant:
  assumes "wf_target t"
  shows "validate_align (align_of ty t) = Inr () \<and> align_of ty t \<le> 8
    \<and> (size_of ty t \<noteq> usize_MAX \<longrightarrow> align_of ty t dvd size_of ty t)
    \<and> layout_array (layout_of ty t) n =
        (if size_of ty t * n \<le> usize_MAX then Inr (layout_of (Ty_Array ty n) t) else Inl TooLarge)"
proof -
  note l = layout_ideal [OF assms, of ty]
  have "align_of ty t \<le> 8" using l(2,3) by (auto simp: legal_align_def)
  moreover have "align_of ty t dvd size_of ty t" if "size_of ty t \<noteq> usize_MAX"
    using that ideal_dvd [OF assms, of ty] l(1,2) by (auto simp: sat_def min_def split: if_splits)
  ultimately show ?thesis
    using l legal_validates by (simp add: layout_array_def size_of_def layout_eqs Let_def)
qed

theorem layout_invariant_witness:
  "validate_align (align_of Ty_Usize X86_64_UNKNOWN) = Inr ()"
  using layout_invariant [of X86_64_UNKNOWN Ty_Usize 0] by (simp add: wf_target_def X86_64_UNKNOWN_def)

section \<open>Fields and payloads\<close>

text \<open>C33: The fields of a struct or tuple whose size is not cut off: each starts at a multiple of its
  alignment, no two overlap, they are in declaration order, and the last ends within the size; the
  alignment of the struct is a multiple of that of every field.\<close>

theorem struct_fields_disjoint:
  assumes t: "wf_target t" and small: "lsize (sl_layout (struct_layout_of fls t)) \<noteq> usize_MAX"
    and i: "i < length fls"
  defines "offs \<equiv> offsets (struct_layout_of fls t)"
  shows "length offs = length fls
    \<and> align_of (fls ! i) t dvd offs ! i
    \<and> offs ! i + size_of (fls ! i) t \<le> lsize (sl_layout (struct_layout_of fls t))
    \<and> align_of (fls ! i) t dvd lalign (sl_layout (struct_layout_of fls t))
    \<and> (\<forall>j<length fls. i < j \<longrightarrow> offs ! i + size_of (fls ! i) t \<le> offs ! j)"
proof -
  let ?ls = "map (ideal (ptr_bytes t)) fls"
  note e = struct_layout_eq [OF t, of fls]
  let ?a = "snd (struct_ideal ?ls)" and ?n = "fst (struct_ideal ?ls)"
  have n: "?n = round_up (end_from 0 ?ls) ?a" by (simp add: struct_ideal_def Let_def)
  have "?n \<le> usize_MAX" using small e(1) by (simp add: sat_def min_def split: if_splits)
  moreover have "end_from 0 ?ls \<le> ?n" unfolding n by (rule round_up_props(2) [OF legal_align_pos [OF e(3)]])
  ultimately have en: "end_from 0 ?ls \<le> usize_MAX" "sat ?n = ?n" by simp_all
  have pl: "place_from 0 ?ls ! k + fst (?ls ! k) \<le> end_from 0 ?ls" if "k < length fls" for k
    using place_from_props(3) [OF e(2), of k 0] that by simp
  have sz: "size_of (fls ! k) t = fst (?ls ! k)" "offs ! k = place_from 0 ?ls ! k" if "k < length fls" for k
    using pl [OF that] en that by (simp_all add: layout_ideal(1) [OF t] offs_def e(1))
  have "snd (?ls ! i) \<le> ?a"
    using i by (auto simp: struct_ideal_def Let_def intro!: max_from_mem)
  then have "snd (?ls ! i) dvd ?a"
    using legal_align_dvd [OF layout_ideal(3) [OF t] e(3)] i by simp
  moreover have "\<forall>j<length fls. i < j \<longrightarrow> place_from 0 ?ls ! i + fst (?ls ! i) \<le> place_from 0 ?ls ! j"
    using place_from_props(4) [OF e(2), of i _ 0] i by simp
  ultimately show ?thesis
    using place_from_props(2,3) [OF e(2), of i 0] i sz pl [OF i] \<open>end_from 0 ?ls \<le> ?n\<close> en(2)
    by (auto simp: layout_ideal(2) [OF t] offs_def e(1))
qed

theorem struct_fields_disjoint_witness:
  "offsets (struct_layout_of [Ty_U8, Ty_U64] AARCH64_APPLE_DARWIN) ! 0 + size_of Ty_U8 AARCH64_APPLE_DARWIN
   \<le> offsets (struct_layout_of [Ty_U8, Ty_U64] AARCH64_APPLE_DARWIN) ! 1"
proof -
  have t: "wf_target AARCH64_APPLE_DARWIN" by (simp add: wf_target_def AARCH64_APPLE_DARWIN_def)
  have "lsize (sl_layout (struct_layout_of [Ty_U8, Ty_U64] AARCH64_APPLE_DARWIN)) \<noteq> usize_MAX"
    by (simp add: struct_layout_eq(1) [OF t] ideal_eqs struct_ideal_def round_up_def sat_def usize_MAX_def Let_def)
  from struct_fields_disjoint [OF t this, of 0] show ?thesis by simp
qed

lemma payload_mem:
  assumes "p \<in> set (payloads vs)"
  shows "snd (ideal w p) \<le> max_from 1 (map (snd \<circ> ideal w) (payloads vs))"
    "fst (ideal w p) \<le> max_from 0 (map (fst \<circ> ideal w) (payloads vs))"
  using assms by (auto intro!: max_from_mem)

text \<open>C34: The payload of an enum whose size is not cut off: it starts after the tag at a multiple of the
  alignment of every variant's payload, every payload ends within the size of the enum, and the
  alignment of the enum is a multiple of that of the tag and of every payload; an enum of at most
  one variant has no tag and its payload at offset 0.\<close>

theorem enum_payload_placed:
  assumes t: "wf_target t" and small: "lsize (el_layout (enum_layout_of vs t)) \<noteq> usize_MAX"
    and p: "Some p \<in> payload ` set vs"
  defines "el \<equiv> enum_layout_of vs t"
  shows "el_discriminant_size el \<le> payload_offset el
    \<and> align_of p t dvd payload_offset el
    \<and> payload_offset el + size_of p t \<le> lsize (el_layout el)
    \<and> align_of p t dvd lalign (el_layout el)
    \<and> el_discriminant_size el \<le> lalign (el_layout el)
    \<and> (length vs \<le> 1 \<longrightarrow> payload_offset el = 0)"
proof -
  have mem: "p \<in> set (payloads vs)" using p by (induction vs) (auto split: option.splits)
  let ?w = "ptr_bytes t" and ?d = "discriminant_size (length vs)"
  let ?pa = "max_from 1 (map (snd \<circ> ideal ?w) (payloads vs))"
    and ?ps = "max_from 0 (map (fst \<circ> ideal ?w) (payloads vs))"
  let ?a = "max (max ?d 1) ?pa" and ?o = "round_up ?d ?pa"
  note e = enum_layout_eq [OF t, of vs, folded el_def]
  have la: "legal_align ?pa" "legal_align ?a"
    using payloads_legal [OF t] legal_align_max [OF legal_disc payloads_legal [OF t]] by auto
  have "round_up (?o + ?ps) ?a \<le> usize_MAX"
    using small e by (simp add: el_def sat_def min_def split: if_splits)
  moreover have "?o + ?ps \<le> round_up (?o + ?ps) ?a" by (rule round_up_props(2) [OF legal_align_pos [OF la(2)]])
  ultimately have en: "sat (round_up (?o + ?ps) ?a) = round_up (?o + ?ps) ?a" "sat ?o = ?o"
    "?o + ?ps \<le> sat (round_up (?o + ?ps) ?a)" "fst (ideal ?w p) \<le> usize_MAX"
    using payload_mem(2) [OF mem, of ?w] by simp_all
  note li = layout_ideal [OF t, of p]
  have dv: "snd (ideal ?w p) dvd ?pa" "snd (ideal ?w p) dvd ?a"
    using legal_align_dvd [OF li(3) la(1)] legal_align_dvd [OF li(3) la(2)] payload_mem(1) [OF mem, of ?w]
    by auto
  have o: "?pa dvd ?o" "?d \<le> ?o" by (rule round_up_props(1,2) [OF legal_align_pos [OF la(1)]])+
  have z: "length vs \<le> 1 \<longrightarrow> ?o = 0"
    using round_up_props(4) [OF legal_align_pos [OF la(1)], of 0 0] by (auto simp: discriminant_size_def)
  show ?thesis
    using en dv o z li payload_mem(2) [OF mem, of ?w] by (auto simp: e intro: dvd_trans)
qed

theorem enum_payload_placed_witness:
  "align_of Ty_U32 AARCH64_APPLE_DARWIN dvd
     payload_offset (enum_layout_of [Variant None, Variant (Some Ty_U32)] AARCH64_APPLE_DARWIN)"
proof -
  have t: "wf_target AARCH64_APPLE_DARWIN" by (simp add: wf_target_def AARCH64_APPLE_DARWIN_def)
  have "lsize (el_layout (enum_layout_of [Variant None, Variant (Some Ty_U32)] AARCH64_APPLE_DARWIN)) \<noteq> usize_MAX"
    by (simp add: enum_layout_eq [OF t] ideal_eqs discriminant_size_def round_up_def sat_def usize_MAX_def)
  from enum_payload_placed [OF t this, of Ty_U32] show ?thesis by simp
qed

section \<open>Discriminants\<close>

lemma bit_from_le_bytes:
  "bit (u32_from_le_bytes bs) i \<longleftrightarrow> i < 32 \<and> i div 8 < length bs \<and> bit (bs ! (i div 8)) (i mod 8)"
proof (induction bs arbitrary: i)
  case (Cons b bs)
  have "i div 8 = Suc ((i - 8) div 8)" "i mod 8 = (i - 8) mod 8" if "8 \<le> i"
    using that by (simp_all add: le_div_geq le_mod_geq)
  with Cons.IH [of "i - 8"] show ?case
    by (cases "i < 8") (auto simp: u32_from_le_bytes_def bit_simps dest: bit_imp_le_length)
qed (simp add: u32_from_le_bytes_def)

lemma nth_to_le_bytes: "k < 4 \<Longrightarrow> u32_to_le_bytes v ! k = ucast (drop_bit (8 * k) v)"
  by (simp add: u32_to_le_bytes_def)

lemma le_bytes_prefix:
  assumes "n \<le> 4" "unat v < 256 ^ n"
  shows "u32_from_le_bytes (take n (u32_to_le_bytes v) @ replicate (4 - n) 0) = v"
proof -
  have "unat v < 2 ^ (8 * n)" using assms(2) by (simp add: power_mult)
  then have "take_bit (8 * n) v = v" by (simp add: word_unat_eq_iff unsigned_take_bit_eq take_bit_nat_eq_self)
  then have b: "bit v i \<Longrightarrow> i < 8 * n" for i by (metis bit_take_bit_iff)
  show ?thesis
  proof (rule bit_word_eqI)
    fix i assume i: "i < LENGTH(32)"
    have l: "length (u32_to_le_bytes v) = 4" by (simp add: u32_to_le_bytes_def)
    show "bit (u32_from_le_bytes (take n (u32_to_le_bytes v) @ replicate (4 - n) 0)) i = bit v i"
    proof (cases "i < 8 * n")
      case True
      then have "i div 8 < n" by (simp add: div_less_iff_less_mult mult.commute)
      with i assms(1) show ?thesis
        by (simp add: bit_from_le_bytes nth_append l nth_to_le_bytes bit_simps)
    next
      case False
      then have "n \<le> i div 8" by (simp add: less_eq_div_iff_mult_less_eq mult.commute)
      with False b [of i] assms(1) i show ?thesis by (auto simp: bit_from_le_bytes nth_append l)
    qed
  qed
qed

lemma le_bytes_back:
  assumes "length bs = n" "n \<le> 4"
  shows "take n (u32_to_le_bytes (u32_from_le_bytes (bs @ replicate (4 - n) 0))) = bs"
proof (rule nth_equalityI)
  show "length (take n (u32_to_le_bytes (u32_from_le_bytes (bs @ replicate (4 - n) 0)))) = length bs"
    using assms by (simp add: u32_to_le_bytes_def)
  fix k assume "k < length (take n (u32_to_le_bytes (u32_from_le_bytes (bs @ replicate (4 - n) 0))))"
  then have k: "k < n" "k < 4" using assms by (simp_all add: u32_to_le_bytes_def)
  show "take n (u32_to_le_bytes (u32_from_le_bytes (bs @ replicate (4 - n) 0))) ! k = bs ! k"
  proof (rule bit_word_eqI)
    fix i assume "i < LENGTH(8)"
    then have i: "i < 8" "(8 * k + i) div 8 = k" "(8 * k + i) mod 8 = i" "8 * k + i < 32" using k by simp_all
    show "bit (take n (u32_to_le_bytes (u32_from_le_bytes (bs @ replicate (4 - n) 0))) ! k) i = bit (bs ! k) i"
      using k assms i by (simp add: nth_to_le_bytes bit_simps bit_from_le_bytes nth_append)
  qed
qed

lemma disc_fits: "n \<le> 2 ^ 32 \<Longrightarrow> discriminant_size n \<le> 4 \<and> (0 < n \<longrightarrow> n \<le> 256 ^ discriminant_size n)"
  by (auto simp: discriminant_size_def)

text \<open>C35: Discriminants round-trip for every enum of at most \<open>2 ^ 32\<close> variants: every variant index is
  encoded in exactly the tag width and decoded to itself, an index outside the variant set is
  refused, and a byte string that decodes is the encoding of the index it decodes to.\<close>

theorem discriminant_roundtrip:
  assumes "n \<le> 2 ^ 32"
  shows "(unat d < n \<longrightarrow> (\<exists>bs. encode_discriminant d n = Some (Some bs) \<and> length bs = discriminant_size n
            \<and> decode_discriminant bs n = Some d))
    \<and> (n \<le> unat d \<longrightarrow> encode_discriminant d n = Some None)
    \<and> (decode_discriminant bs n = Some d \<longrightarrow> encode_discriminant d n = Some (Some bs))"
proof -
  let ?k = "discriminant_size n"
  have k: "?k \<le> 4" "0 < n \<Longrightarrow> n \<le> 256 ^ ?k" using disc_fits [OF assms] by auto
  have l: "length (u32_to_le_bytes d) = 4" by (simp add: u32_to_le_bytes_def)
  have "unat d < n \<Longrightarrow> u32_from_le_bytes (take ?k (u32_to_le_bytes d) @ replicate (4 - ?k) 0) = d"
    using k by (intro le_bytes_prefix) (auto intro: order_less_le_trans)
  then show ?thesis using k l le_bytes_back [of bs ?k]
    by (auto simp: encode_discriminant_def decode_discriminant_def Let_def split: if_splits)
qed

theorem discriminant_roundtrip_witness:
  "\<exists>bs. encode_discriminant 300 1000 = Some (Some bs) \<and> decode_discriminant bs 1000 = Some 300"
  using discriminant_roundtrip [of 1000 300] by auto

text \<open>C36: The tag is the smallest of 0, 1, 2, 4 and 8 bytes that can number the variants, so
  \<^verbatim>\<open>encode_discriminant\<close> slices eight bytes out of a four-byte array, and panics, exactly for a valid
  index of an enum of more than \<open>2 ^ 32\<close> variants.\<close>

theorem discriminant_width:
  assumes "0 < n" "n \<le> 2 ^ 64"
  shows "(\<forall>k\<in>{0, 1, 2, 4, 8}. n \<le> 256 ^ k \<longleftrightarrow> discriminant_size n \<le> k)
    \<and> (encode_discriminant d n = None \<longleftrightarrow> 2 ^ 32 < n)"
proof -
  have "unat d < 2 ^ 32" using unsigned_less [of d] by simp
  then have "n \<le> unat d \<Longrightarrow> n \<le> 2 ^ 32" by linarith
  then show ?thesis using assms
    by (auto simp: discriminant_size_def encode_discriminant_def u32_to_le_bytes_def Let_def)
qed

theorem discriminant_width_witness:
  "encode_discriminant 0 (2 ^ 32 + 1) = None"
  using discriminant_width [of "2 ^ 32 + 1" 0] by simp

text \<open>Every scalar is at most eight bytes, so the scalar and the size disjunct of the monomorphization
  rule agree on scalars.\<close>

lemma scalar_monomorphized:
  assumes "wf_target t"
  shows "is_scalar_le16 ty t = is_scalar ty"
    and "is_scalar ty \<Longrightarrow> shape_monomorphized False (size_of ty t)"
  using wf_target_bytes [OF assms]
  by (auto simp: is_scalar_le16_def shape_monomorphized_def MONOMORPHIZE_SIZE_MAX_def size_of_def
      layout_eqs Let_def)

end
