(* ===== verification/Lex_Token.thy ===== *)
theory Lex_Token
  imports Prelude
begin

text \<open>
  Token kinds, keywords, literal suffixes and diagnostics of the lexer
  (\<^verbatim>\<open>crates/fors-lex/src/token.rs\<close>, \<^verbatim>\<open>diag.rs\<close>). Source text is a list of bytes; \<open>bstr\<close> is a byte-string
  literal and \<open>chr\<close> a byte literal.
\<close>

type_synonym bytes = "u8 list"

definition chr :: "char \<Rightarrow> u8" where "chr c = of_char c"
definition bstr :: "string \<Rightarrow> bytes" where "bstr s = map chr s"

section \<open>Tokens\<close>

text \<open>The fieldless enum of the source has 105 variants; its sections \<open>reserved keywords\<close> and
  \<open>punctuation and operators\<close> are types of their own here.\<close>

datatype (plugins only: code size) Keyword =
    KwModule | KwUse | KwPub | KwFn | KwStruct | KwEnum | KwTrait | KwImpl | KwConst | KwExtern
   | KwLet | KwVar | KwInout | KwSink | KwIf | KwElse | KwMatch | KwFor | KwIn | KwWhile | KwBreak
   | KwContinue | KwReturn | KwRaise | KwRaises | KwWith | KwParallel | KwSimd | KwSpawn
   | KwComptime | KwMove | KwConsume | KwDiscard | KwAs | KwAnd | KwOr | KwNot | KwTrue | KwFalse
   | KwIso | KwImm | KwSecret | KwDyn | KwAsm | KwImport | KwRecover | KwType | KwSpmd | KwKernel
   | KwDefer | KwErrdefer

datatype (plugins only: code size) Punct =
    P_LParen | P_RParen | P_LBracket | P_RBracket | P_LBrace | P_RBrace | P_Comma | P_Semi
   | P_Colon | P_Dot | P_At | P_Question | P_Arrow | P_FatArrow | P_Eq | P_EqEq | P_NotEq | P_Lt
   | P_Gt | P_LtEq | P_GtEq | P_Plus | P_Minus | P_Star | P_Slash | P_Percent | P_Amp | P_Pipe
   | P_Caret | P_Shl | P_Shr | P_DotDotLt | P_DotDotEq | P_PlusEq | P_MinusEq | P_StarEq
   | P_SlashEq | P_PercentEq | P_AmpEq | P_PipeEq | P_CaretEq | P_ShlEq | P_ShrEq

datatype TokenKind =
    Tk_Whitespace | Tk_LineComment | Tk_BlockComment | Tk_Ident | Tk_Int | Tk_Float | Tk_Str
   | Tk_MultilineStr | Tk_Kw Keyword | Tk_Underscore | Tk_Punct Punct | Tk_Error | Tk_Eof

definition keyword_table :: "(string \<times> Keyword) list" where
  "keyword_table =
    [(''module'', KwModule), (''use'', KwUse), (''pub'', KwPub), (''fn'', KwFn),
     (''struct'', KwStruct), (''enum'', KwEnum), (''trait'', KwTrait),
     (''impl'', KwImpl), (''const'', KwConst), (''extern'', KwExtern),
     (''let'', KwLet), (''var'', KwVar), (''inout'', KwInout), (''sink'', KwSink),
     (''if'', KwIf), (''else'', KwElse), (''match'', KwMatch), (''for'', KwFor),
     (''in'', KwIn), (''while'', KwWhile), (''break'', KwBreak),
     (''continue'', KwContinue), (''return'', KwReturn), (''raise'', KwRaise),
     (''raises'', KwRaises), (''with'', KwWith), (''parallel'', KwParallel),
     (''simd'', KwSimd), (''spawn'', KwSpawn), (''comptime'', KwComptime),
     (''move'', KwMove), (''consume'', KwConsume), (''discard'', KwDiscard),
     (''as'', KwAs), (''and'', KwAnd), (''or'', KwOr), (''not'', KwNot),
     (''true'', KwTrue), (''false'', KwFalse), (''iso'', KwIso), (''imm'', KwImm),
     (''secret'', KwSecret), (''dyn'', KwDyn), (''asm'', KwAsm),
     (''import'', KwImport), (''recover'', KwRecover), (''type'', KwType),
     (''spmd'', KwSpmd), (''kernel'', KwKernel), (''defer'', KwDefer),
     (''errdefer'', KwErrdefer)]"

definition is_trivia :: "TokenKind \<Rightarrow> bool" where
  "is_trivia k \<longleftrightarrow> k = Tk_Whitespace \<or> k = Tk_LineComment \<or> k = Tk_BlockComment"

definition keyword_kind :: "bytes \<Rightarrow> TokenKind option" where
  "keyword_kind word = map_option Tk_Kw (map_of (map (\<lambda>(s, k). (bstr s, k)) keyword_table) word)"

section \<open>Literal suffixes\<close>

definition INT_SUFFIXES :: "bytes list" where
  "INT_SUFFIXES = map bstr [''i8'', ''i16'', ''i32'', ''i64'', ''u8'', ''u16'', ''u32'', ''u64'', ''isize'', ''usize'']"

definition FLOAT_SUFFIXES :: "bytes list" where
  "FLOAT_SUFFIXES = map bstr [''f32'', ''f64'']"

definition is_legal_suffix :: "bytes \<Rightarrow> bool \<Rightarrow> bool \<Rightarrow> bool" where
  "is_legal_suffix suffix is_radix_literal is_float_literal =
     (if is_radix_literal then suffix \<in> set INT_SUFFIXES
      else if is_float_literal then suffix \<in> set FLOAT_SUFFIXES
      else suffix \<in> set INT_SUFFIXES \<or> suffix \<in> set FLOAT_SUFFIXES)"

section \<open>Diagnostics\<close>

datatype DiagCode =
    UnterminatedBlockComment | UnterminatedString | BadEscape | BadSuffix | BadRangeDots
  | StrayByte | FileTooLarge | InvalidUtf8

fun diag_code_str :: "DiagCode \<Rightarrow> string" where
  "diag_code_str UnterminatedBlockComment = ''L0000''"
| "diag_code_str UnterminatedString = ''L0001''"
| "diag_code_str BadEscape = ''L0002''"
| "diag_code_str BadSuffix = ''L0003''"
| "diag_code_str BadRangeDots = ''L0004''"
| "diag_code_str StrayByte = ''L0005''"
| "diag_code_str FileTooLarge = ''L0006''"
| "diag_code_str InvalidUtf8 = ''L0007''"

record Diagnostic =
  d_start :: nat
  d_end :: nat
  d_code :: DiagCode

text \<open>The cast \<^verbatim>\<open>as u32\<close> of an offset.\<close>

definition as_u32 :: "nat \<Rightarrow> nat" where "as_u32 n = n mod 2 ^ 32"

definition diagnostic_new :: "nat \<Rightarrow> nat \<Rightarrow> DiagCode \<Rightarrow> Diagnostic" where
  "diagnostic_new s e c = \<lparr>d_start = s, d_end = e, d_code = c\<rparr>"

text \<open>The stable codes identify the diagnostic.\<close>

lemma diag_code_str_inj: "inj diag_code_str"
proof
  fix x y assume "diag_code_str x = diag_code_str y"
  then show "x = y" by (cases x; cases y) simp_all
qed

end
