(* ===== verification/Lex_Code.thy ===== *)
theory Lex_Code
  imports Lex_Token "HOL-Library.While_Combinator"
begin

text \<open>
  The lexer (\<^verbatim>\<open>crates/fors-lex/src/lexer.rs\<close>). Positions are natural numbers; \<open>get\<close> is the checked
  access \<^verbatim>\<open>bytes.get(i)\<close>; an indexing \<^verbatim>\<open>bytes[i]\<close> stands behind the guard \<open>i < length bs\<close> the source
  has. Every \<^verbatim>\<open>while\<close> loop is a recursive function with a measure, the scan of a run is \<open>scan_while\<close>,
  and the mutable \<^verbatim>\<open>Lexer\<close> is a record that the methods return updated together with the new position.
\<close>

section \<open>Character classes\<close>

definition get :: "bytes \<Rightarrow> nat \<Rightarrow> u8 option" where
  "get bs i = (if i < length bs then Some (bs ! i) else None)"

definition between :: "u8 \<Rightarrow> u8 \<Rightarrow> u8 \<Rightarrow> bool" where
  "between lo hi b \<longleftrightarrow> lo \<le> b \<and> b \<le> hi"

definition is_ascii_digit :: "u8 \<Rightarrow> bool" where
  "is_ascii_digit b \<longleftrightarrow> between 0x30 0x39 b"

definition is_ascii_alphabetic :: "u8 \<Rightarrow> bool" where
  "is_ascii_alphabetic b \<longleftrightarrow> between 0x41 0x5A b \<or> between 0x61 0x7A b"

definition is_ascii_hexdigit :: "u8 \<Rightarrow> bool" where
  "is_ascii_hexdigit b \<longleftrightarrow> is_ascii_digit b \<or> between 0x41 0x46 b \<or> between 0x61 0x66 b"

definition is_ident_start :: "u8 \<Rightarrow> bool" where
  "is_ident_start b \<longleftrightarrow> is_ascii_alphabetic b \<or> b = chr CHR ''_''"

definition is_ident_continue :: "u8 \<Rightarrow> bool" where
  "is_ident_continue b \<longleftrightarrow> (is_ascii_alphabetic b \<or> is_ascii_digit b) \<or> b = chr CHR ''_''"

definition is_ws :: "u8 \<Rightarrow> bool" where
  "is_ws b \<longleftrightarrow> b = 0x20 \<or> b = 0x09 \<or> b = 0x0D \<or> b = 0x0A"

definition is_hex :: "u8 \<Rightarrow> bool" where "is_hex b \<longleftrightarrow> is_ascii_hexdigit b"
definition is_oct :: "u8 \<Rightarrow> bool" where "is_oct b \<longleftrightarrow> between 0x30 0x37 b"
definition is_bin :: "u8 \<Rightarrow> bool" where "is_bin b \<longleftrightarrow> b = 0x30 \<or> b = 0x31"
definition is_dec :: "u8 \<Rightarrow> bool" where "is_dec b \<longleftrightarrow> is_ascii_digit b"
definition is_hex_byte :: "u8 \<Rightarrow> bool" where "is_hex_byte b \<longleftrightarrow> is_ascii_hexdigit b"

section \<open>Scanners\<close>

text \<open>\<^verbatim>\<open>while pos < len && p(bytes[pos]) { pos += 1 }\<close>\<close>

function scan_while :: "(u8 \<Rightarrow> bool) \<Rightarrow> bytes \<Rightarrow> nat \<Rightarrow> nat" where
  "scan_while p bs pos = (if pos < length bs \<and> p (bs ! pos) then scan_while p bs (pos + 1) else pos)"
  by pat_completeness auto
termination by (relation "measure (\<lambda>(p, bs, pos). length bs - pos)") auto

function scan_digit_run :: "bytes \<Rightarrow> nat \<Rightarrow> (u8 \<Rightarrow> bool) \<Rightarrow> nat" where
  "scan_digit_run bs pos ok =
     (if pos < length bs
      then if ok (bs ! pos) then scan_digit_run bs (pos + 1) ok
           else if bs ! pos = chr CHR ''_'' \<and> pos + 1 < length bs \<and> ok (bs ! (pos + 1))
           then scan_digit_run bs (pos + 2) ok
           else pos
      else pos)"
  by pat_completeness auto
termination by (relation "measure (\<lambda>(bs, pos, ok). length bs - pos)") auto

declare scan_while.simps [simp del] scan_digit_run.simps [simp del]

lemma scan_while_ge: "pos \<le> scan_while p bs pos"
proof (induction p bs pos rule: scan_while.induct)
  case (1 p bs pos)
  then show ?case by (subst scan_while.simps) (auto intro: order_trans [of _ "Suc pos"])
qed

function scan_multiline_string :: "bytes \<Rightarrow> nat \<Rightarrow> nat" where
  "scan_multiline_string bs start =
     (let line_end = scan_while (\<lambda>b. b \<noteq> 0x0A) bs (start + 2);
          lookahead = scan_while is_ws bs line_end
      in if lookahead + 1 < length bs \<and> bs ! lookahead = 0x5C \<and> bs ! (lookahead + 1) = 0x5C
         then scan_multiline_string bs lookahead
         else line_end)"
  by pat_completeness auto
termination
proof (relation "measure (\<lambda>(bs, start). length bs - start)")
  fix bs :: bytes and start line_end lookahead
  assume "line_end = scan_while (\<lambda>b. b \<noteq> 0x0A) bs (start + 2)" "lookahead = scan_while is_ws bs line_end"
    and "lookahead + 1 < length bs \<and> bs ! lookahead = 0x5C \<and> bs ! (lookahead + 1) = 0x5C"
  then have "start + 2 \<le> lookahead" "lookahead < length bs"
    using scan_while_ge [of "start + 2" "\<lambda>b. b \<noteq> 0x0A" bs] scan_while_ge [of line_end is_ws bs] by simp_all
  then show "((bs, lookahead), bs, start) \<in> measure (\<lambda>(bs, start). length bs - start)" by simp
qed simp

declare scan_multiline_string.simps [simp del]

definition scan_punct :: "bytes \<Rightarrow> nat \<Rightarrow> (TokenKind \<times> nat) option" where
  "scan_punct bs pos =
     (let b0 = bs ! pos; b1 = get bs (pos + 1); b2 = get bs (pos + 2);
          one = (\<lambda>k. Some (Tk_Punct k, pos + 1));
          two = (\<lambda>b k rest. if b1 = Some (chr b) then Some (Tk_Punct k, pos + 2) else rest)
      in if b0 = chr CHR ''('' then one P_LParen
         else if b0 = chr CHR '')'' then one P_RParen
         else if b0 = chr CHR ''['' then one P_LBracket
         else if b0 = chr CHR '']'' then one P_RBracket
         else if b0 = chr CHR ''{'' then one P_LBrace
         else if b0 = chr CHR ''}'' then one P_RBrace
         else if b0 = chr CHR '','' then one P_Comma
         else if b0 = chr CHR '';'' then one P_Semi
         else if b0 = chr CHR '':'' then one P_Colon
         else if b0 = chr CHR ''@'' then one P_At
         else if b0 = chr CHR ''?'' then one P_Question
         else if b0 = chr CHR ''-'' then two CHR ''>'' P_Arrow (two CHR ''='' P_MinusEq (one P_Minus))
         else if b0 = chr CHR ''='' then two CHR ''>'' P_FatArrow (two CHR ''='' P_EqEq (one P_Eq))
         else if b0 = chr CHR ''!'' then two CHR ''='' P_NotEq None
         else if b0 = chr CHR ''<'' then
           (if b1 = Some (chr CHR ''<'')
            then if b2 = Some (chr CHR ''='') then Some (Tk_Punct P_ShlEq, pos + 3) else Some (Tk_Punct P_Shl, pos + 2)
            else two CHR ''='' P_LtEq (one P_Lt))
         else if b0 = chr CHR ''>'' then
           (if b1 = Some (chr CHR ''>'')
            then if b2 = Some (chr CHR ''='') then Some (Tk_Punct P_ShrEq, pos + 3) else Some (Tk_Punct P_Shr, pos + 2)
            else two CHR ''='' P_GtEq (one P_Gt))
         else if b0 = chr CHR ''+'' then two CHR ''='' P_PlusEq (one P_Plus)
         else if b0 = chr CHR ''*'' then two CHR ''='' P_StarEq (one P_Star)
         else if b0 = chr CHR ''/'' then two CHR ''='' P_SlashEq (one P_Slash)
         else if b0 = chr CHR ''%'' then two CHR ''='' P_PercentEq (one P_Percent)
         else if b0 = chr CHR ''&'' then two CHR ''='' P_AmpEq (one P_Amp)
         else if b0 = chr CHR ''|'' then two CHR ''='' P_PipeEq (one P_Pipe)
         else if b0 = chr CHR ''^'' then two CHR ''='' P_CaretEq (one P_Caret)
         else if b0 = chr CHR ''.'' then one P_Dot
         else None)"

section \<open>The lexer state and its methods\<close>

record Lexer =
  lx_kinds :: "TokenKind list"
  lx_starts :: "nat list"
  lx_diags :: "Diagnostic list"

definition push :: "Lexer \<Rightarrow> TokenKind \<Rightarrow> nat \<Rightarrow> Lexer" where
  "push lx kind start = lx\<lparr>lx_kinds := lx_kinds lx @ [kind], lx_starts := lx_starts lx @ [as_u32 start]\<rparr>"

definition diag :: "Lexer \<Rightarrow> nat \<Rightarrow> nat \<Rightarrow> DiagCode \<Rightarrow> Lexer" where
  "diag lx s e code = lx\<lparr>lx_diags := lx_diags lx @ [diagnostic_new (as_u32 s) (as_u32 e) code]\<rparr>"

definition lex_whitespace :: "bytes \<Rightarrow> Lexer \<Rightarrow> nat \<Rightarrow> Lexer \<times> nat" where
  "lex_whitespace bs lx start =
     (let pos = scan_while is_ws bs (start + 1) in (push lx Tk_Whitespace start, pos))"

definition lex_line_comment :: "bytes \<Rightarrow> Lexer \<Rightarrow> nat \<Rightarrow> Lexer \<times> nat" where
  "lex_line_comment bs lx start =
     (let pos = scan_while (\<lambda>b. b \<noteq> 0x0A) bs (start + 2) in (push lx Tk_LineComment start, pos))"

text \<open>The loop of \<^verbatim>\<open>lex_block_comment\<close>: the position after it and whether it was terminated.\<close>

function block_comment_loop :: "bytes \<Rightarrow> nat \<Rightarrow> nat \<Rightarrow> nat \<times> bool" where
  "block_comment_loop bs pos depth =
     (if pos < length bs
      then if bs ! pos = chr CHR ''/'' \<and> get bs (pos + 1) = Some (chr CHR ''*'')
           then block_comment_loop bs (pos + 2) (depth + 1)
           else if bs ! pos = chr CHR ''*'' \<and> get bs (pos + 1) = Some (chr CHR ''/'')
           then if depth - 1 = 0 then (pos + 2, True) else block_comment_loop bs (pos + 2) (depth - 1)
           else block_comment_loop bs (pos + 1) depth
      else (pos, False))"
  by pat_completeness auto
termination by (relation "measure (\<lambda>(bs, pos, depth). length bs - pos)") auto

definition lex_block_comment :: "bytes \<Rightarrow> Lexer \<Rightarrow> nat \<Rightarrow> Lexer \<times> nat" where
  "lex_block_comment bs lx start =
     (case block_comment_loop bs (start + 2) 1 of (pos, terminated) \<Rightarrow>
        if terminated then (push lx Tk_BlockComment start, pos)
        else (push (diag lx start pos UnterminatedBlockComment) Tk_Error start, pos))"

definition word_kind :: "bytes \<Rightarrow> TokenKind" where
  "word_kind word = (if word = bstr ''_'' then Tk_Underscore
     else case keyword_kind word of Some k \<Rightarrow> k | None \<Rightarrow> Tk_Ident)"

definition slice :: "bytes \<Rightarrow> nat \<Rightarrow> nat \<Rightarrow> bytes" where
  "slice bs s e = take (e - s) (drop s bs)"

definition lex_ident_or_keyword :: "bytes \<Rightarrow> Lexer \<Rightarrow> nat \<Rightarrow> Lexer \<times> nat" where
  "lex_ident_or_keyword bs lx start =
     (let pos = scan_while is_ident_continue bs (start + 1)
      in (push lx (word_kind (slice bs start pos)) start, pos))"

text \<open>The parts of \<^verbatim>\<open>lex_number\<close>: the digits with an optional radix prefix, then the fraction and the
  exponent.\<close>

definition number_digits :: "bytes \<Rightarrow> nat \<Rightarrow> nat \<times> bool" where
  "number_digits bs start =
     (if bs ! start = chr CHR ''0''
      then let check = (if get bs (start + 1) = Some (chr CHR ''x'') then Some is_hex
                        else if get bs (start + 1) = Some (chr CHR ''o'') then Some is_oct
                        else if get bs (start + 1) = Some (chr CHR ''b'') then Some is_bin
                        else None)
           in case check of
                Some ok \<Rightarrow>
                  let digits_start = start + 2
                  in if digits_start < length bs \<and> ok (bs ! digits_start)
                     then (scan_digit_run bs digits_start ok, True)
                     else (scan_digit_run bs start is_dec, False)
              | None \<Rightarrow> (scan_digit_run bs start is_dec, False)
      else (scan_digit_run bs start is_dec, False))"

definition number_fraction :: "bytes \<Rightarrow> nat \<times> bool \<Rightarrow> nat \<times> bool" where
  "number_fraction bs r = (case r of (pos, is_float) \<Rightarrow>
     if pos + 1 < length bs \<and> bs ! pos = chr CHR ''.'' \<and> is_dec (bs ! (pos + 1))
     then (scan_digit_run bs (pos + 1) is_dec, True) else (pos, is_float))"

definition number_exponent :: "bytes \<Rightarrow> nat \<times> bool \<Rightarrow> nat \<times> bool" where
  "number_exponent bs r = (case r of (pos, is_float) \<Rightarrow>
     if pos < length bs \<and> (bs ! pos = chr CHR ''e'' \<or> bs ! pos = chr CHR ''E'')
     then let q = (if pos + 1 < length bs \<and> (bs ! (pos + 1) = chr CHR ''+'' \<or> bs ! (pos + 1) = chr CHR ''-'')
                   then pos + 2 else pos + 1)
          in if q < length bs \<and> is_dec (bs ! q) then (scan_digit_run bs q is_dec, True) else (pos, is_float)
     else (pos, is_float))"

definition lex_number :: "bytes \<Rightarrow> Lexer \<Rightarrow> nat \<Rightarrow> Lexer \<times> nat" where
  "lex_number bs lx start =
     (case number_digits bs start of (pos0, is_radix) \<Rightarrow>
      case (if \<not> is_radix then number_exponent bs (number_fraction bs (pos0, False)) else (pos0, False)) of
        (pos, is_float) \<Rightarrow>
          let suffix_end = scan_while is_ident_continue bs pos;
              suffix = slice bs pos suffix_end;
              kind = (if is_float then Tk_Float else Tk_Int)
          in if suffix = [] then (push lx kind start, pos)
             else if is_legal_suffix suffix is_radix is_float then (push lx kind start, suffix_end)
             else (push (diag (push lx kind start) pos suffix_end BadSuffix) Tk_Error pos, suffix_end))"

text \<open>One escape of a string literal at a backslash: the position after it and whether it is bad.\<close>

definition string_escape :: "bytes \<Rightarrow> nat \<Rightarrow> nat \<times> bool" where
  "string_escape bs pos =
     (case get bs (pos + 1) of
        None \<Rightarrow> (pos + 1, True)
      | Some c \<Rightarrow>
          if c \<in> {chr CHR ''n'', chr CHR ''r'', chr CHR ''t'', chr CHR ''0'', 0x5C, 0x22} then (pos + 2, False)
          else if c = chr CHR ''x'' then
            (let h = (\<lambda>i. case get bs i of Some b \<Rightarrow> is_hex_byte b | None \<Rightarrow> False)
             in if h (pos + 2) \<and> h (pos + 3) then (pos + 4, False) else (pos + 2, True))
          else if c = chr CHR ''u'' then
            (if get bs (pos + 2) = Some (chr CHR ''{'')
             then let digits_start = pos + 3; q = scan_while is_ascii_hexdigit bs digits_start
                  in if q > digits_start \<and> get bs q = Some (chr CHR ''}'') then (q + 1, False) else (q, True)
             else (pos + 2, True))
          else (pos + 2, True))"

lemma string_escape_gt: "pos < fst (string_escape bs pos)"
  using scan_while_ge [of "pos + 3" is_ascii_hexdigit bs]
  by (auto simp: string_escape_def Let_def split: option.splits)

function string_loop :: "bytes \<Rightarrow> nat \<Rightarrow> bool \<Rightarrow> nat \<times> bool \<times> bool" where
  "string_loop bs pos bad_escape =
     (if pos < length bs
      then if bs ! pos = 0x0A then (pos, bad_escape, False)
           else if bs ! pos = 0x22 then (pos + 1, bad_escape, True)
           else if bs ! pos = 0x5C then
             string_loop bs (fst (string_escape bs pos)) (bad_escape \<or> snd (string_escape bs pos))
           else string_loop bs (pos + 1) bad_escape
      else (pos, bad_escape, False))"
  by pat_completeness auto
termination
  by (relation "measure (\<lambda>(bs, pos, bad). length bs - pos)")
    (use string_escape_gt in \<open>auto intro: diff_less_mono2\<close>)

declare block_comment_loop.simps [simp del] string_loop.simps [simp del]

definition lex_string :: "bytes \<Rightarrow> Lexer \<Rightarrow> nat \<Rightarrow> Lexer \<times> nat" where
  "lex_string bs lx start =
     (case string_loop bs (start + 1) False of (pos, bad_escape, terminated) \<Rightarrow>
        if terminated
        then if bad_escape then (push (diag lx start pos BadEscape) Tk_Error start, pos)
             else (push lx Tk_Str start, pos)
        else (push (diag lx start pos UnterminatedString) Tk_Error start, pos))"

section \<open>The main loop\<close>

definition MAX_SOURCE_LEN :: nat where "MAX_SOURCE_LEN = 2 ^ 30"

text \<open>The body of the main loop: one token, or two when a bad suffix follows a number.\<close>

definition lex_step :: "bytes \<Rightarrow> Lexer \<Rightarrow> nat \<Rightarrow> Lexer \<times> nat" where
  "lex_step bs lx start =
     (let b = bs ! start; n1 = get bs (start + 1)
      in if is_ws b then lex_whitespace bs lx start
         else if b = chr CHR ''/'' \<and> n1 = Some (chr CHR ''/'') then lex_line_comment bs lx start
         else if b = chr CHR ''/'' \<and> n1 = Some (chr CHR ''*'') then lex_block_comment bs lx start
         else if b = 0x5C \<and> n1 = Some 0x5C then
           (let e = scan_multiline_string bs start in (push lx Tk_MultilineStr start, e))
         else if is_ident_start b then lex_ident_or_keyword bs lx start
         else if is_dec b then lex_number bs lx start
         else if b = 0x22 then lex_string bs lx start
         else if b = chr CHR ''.'' \<and> n1 = Some (chr CHR ''.'') then
           (if get bs (start + 2) = Some (chr CHR ''<'') then (push lx (Tk_Punct P_DotDotLt) start, start + 3)
            else if get bs (start + 2) = Some (chr CHR ''='') then (push lx (Tk_Punct P_DotDotEq) start, start + 3)
            else (push (diag lx start (start + 2) BadRangeDots) Tk_Error start, start + 2))
         else case scan_punct bs start of
             Some (kind, e) \<Rightarrow> (push lx kind start, e)
           | None \<Rightarrow>
               let e = (if b \<ge> 0x80 then scan_while (\<lambda>b. b \<ge> 0x80) bs (start + 1) else start + 1)
               in (push (diag lx start e StrayByte) Tk_Error start, e))"

text \<open>The main loop; \<open>None\<close> would be a loop that does not end.\<close>

definition lex_loop :: "bytes \<Rightarrow> Lexer \<Rightarrow> (Lexer \<times> nat) option" where
  "lex_loop bs lx = while_option (\<lambda>(lx, pos). pos < length bs) (\<lambda>(lx, pos). lex_step bs lx pos) (lx, 0)"

section \<open>UTF-8 validation\<close>

text \<open>\<^verbatim>\<open>std::str::from_utf8\<close>: \<open>None\<close> when the bytes are valid, otherwise \<^verbatim>\<open>valid_up_to\<close> and \<^verbatim>\<open>error_len\<close>.
  \<open>utf8_char bs i\<close> is the width of the valid sequence at \<open>i\<close> or the \<^verbatim>\<open>error_len\<close> of the invalid one.\<close>

definition cont_byte :: "u8 \<Rightarrow> bool" where "cont_byte b \<longleftrightarrow> between 0x80 0xBF b"

definition utf8_second :: "u8 \<Rightarrow> u8 \<Rightarrow> bool" where
  "utf8_second b c \<longleftrightarrow>
     (if b = 0xE0 then between 0xA0 0xBF c else if b = 0xED then between 0x80 0x9F c
      else if b = 0xF0 then between 0x90 0xBF c else if b = 0xF4 then between 0x80 0x8F c
      else cont_byte c)"

definition utf8_width :: "u8 \<Rightarrow> nat" where
  "utf8_width b = (if b < 0x80 then 1 else if between 0xC2 0xDF b then 2 else if between 0xE0 0xEF b then 3
     else if between 0xF0 0xF4 b then 4 else 0)"

definition utf8_char :: "bytes \<Rightarrow> nat \<Rightarrow> nat option + nat" where
  "utf8_char bs i =
     (let b = bs ! i; w = utf8_width b
      in if w = 0 then Inl (Some 1)
         else if w = 1 then Inr 1
         else case get bs (i + 1) of None \<Rightarrow> Inl None
         | Some c \<Rightarrow> if \<not> utf8_second b c then Inl (Some 1)
           else if w = 2 then Inr 2
           else case get bs (i + 2) of None \<Rightarrow> Inl None
           | Some c \<Rightarrow> if \<not> cont_byte c then Inl (Some 2)
             else if w = 3 then Inr 3
             else case get bs (i + 3) of None \<Rightarrow> Inl None
             | Some c \<Rightarrow> if \<not> cont_byte c then Inl (Some 3) else Inr 4)"

lemma utf8_char_pos: "utf8_char bs i = Inr w \<Longrightarrow> 0 < w"
  by (auto simp: utf8_char_def Let_def split: if_splits option.splits)

function utf8_from :: "bytes \<Rightarrow> nat \<Rightarrow> (nat \<times> nat option) option" where
  "utf8_from bs i =
     (if i < length bs
      then case utf8_char bs i of Inl e \<Rightarrow> Some (i, e) | Inr w \<Rightarrow> utf8_from bs (i + w)
      else None)"
  by pat_completeness auto
termination
  by (relation "measure (\<lambda>(bs, i). length bs - i)") (auto dest: utf8_char_pos)

declare utf8_from.simps [simp del]

definition from_utf8 :: "bytes \<Rightarrow> (nat \<times> nat option) option" where
  "from_utf8 bs = utf8_from bs 0"

section \<open>The entry point\<close>

record Tokens =
  kinds :: "TokenKind list"
  starts :: "nat list"

definition tokens_len :: "Tokens \<Rightarrow> nat" where "tokens_len t = length (kinds t)"
definition tokens_is_empty :: "Tokens \<Rightarrow> bool" where "tokens_is_empty t \<longleftrightarrow> kinds t = []"
definition source_len :: "Tokens \<Rightarrow> nat" where
  "source_len t = (if starts t = [] then 0 else last (starts t))"
definition range_at :: "Tokens \<Rightarrow> nat \<Rightarrow> nat \<times> nat" where "range_at t i = (starts t ! i, starts t ! (i + 1))"
definition text_at :: "Tokens \<Rightarrow> nat \<Rightarrow> bytes \<Rightarrow> bytes" where
  "text_at t i source = (case range_at t i of (s, e) \<Rightarrow> slice source s e)"

definition report_utf8 :: "bytes \<Rightarrow> Lexer \<Rightarrow> Lexer" where
  "report_utf8 source lx =
     (case from_utf8 source of
        None \<Rightarrow> lx
      | Some (at, error_len) \<Rightarrow>
          if \<not> list_ex (\<lambda>d. d_start d \<le> at \<and> at < d_end d) (lx_diags lx)
          then let bad = (case error_len of Some n \<Rightarrow> n | None \<Rightarrow> length source - at);
                   lx = diag lx at (at + bad) InvalidUtf8
               in lx\<lparr>lx_diags := sort_key d_start (lx_diags lx)\<rparr>
          else lx)"

definition lex :: "bytes \<Rightarrow> (Tokens \<times> Diagnostic list) option" where
  "lex source =
     (let len = length source
      in if len > MAX_SOURCE_LEN
         then let e = as_u32 MAX_SOURCE_LEN
              in Some (\<lparr>kinds = [Tk_Error, Tk_Eof], starts = [0, e, e]\<rparr>, [diagnostic_new 0 e FileTooLarge])
         else case lex_loop source \<lparr>lx_kinds = [], lx_starts = [], lx_diags = []\<rparr> of
             None \<Rightarrow> None
           | Some (lx, _) \<Rightarrow>
               let lx = report_utf8 source lx
               in Some (\<lparr>kinds = lx_kinds lx @ [Tk_Eof], starts = lx_starts lx @ [as_u32 len, as_u32 len]\<rparr>,
                        lx_diags lx))"

end
