(* ===== verification/Lex_Laws.thy ===== *)
theory Lex_Laws
  imports Lex_Code
begin

text \<open>
  Laws of the lexer: the bounds of every scanner, the tokens one step of the main loop emits, and the
  contract of the loop. \<open>chain s sp e\<close> says that the spans \<open>sp\<close> (kind, start, end) tile the range from
  \<open>s\<close> to \<open>e\<close> without gaps and without empty tokens; the locale \<open>scan_loop\<close> proves once that a loop over
  a step that advances and keeps an invariant terminates at the end of the input.
\<close>

section \<open>Every scanner advances\<close>

lemma scan_while_le: "pos \<le> length bs \<Longrightarrow> scan_while p bs pos \<le> length bs"
proof (induction p bs pos rule: scan_while.induct)
  case (1 p bs pos)
  then show ?case by (subst scan_while.simps) auto
qed

lemma scan_digit_run_bounds:
  "pos \<le> scan_digit_run bs pos ok \<and> (pos \<le> length bs \<longrightarrow> scan_digit_run bs pos ok \<le> length bs)"
proof (induction bs pos ok rule: scan_digit_run.induct)
  case (1 bs pos ok)
  then show ?case by (subst (1 2) scan_digit_run.simps) auto
qed

lemma scan_digit_run_gt:
  "pos < length bs \<Longrightarrow> ok (bs ! pos) \<Longrightarrow> pos < scan_digit_run bs pos ok"
  using scan_digit_run_bounds [of "pos + 1" bs ok] by (subst scan_digit_run.simps) auto

lemma scan_multiline_string_bounds:
  "start + 2 \<le> scan_multiline_string bs start
   \<and> (start + 2 \<le> length bs \<longrightarrow> scan_multiline_string bs start \<le> length bs)"
proof (induction bs start rule: scan_multiline_string.induct)
  case (1 bs start)
  let ?e = "scan_while (\<lambda>b. b \<noteq> 0x0A) bs (start + 2)"
  let ?l = "scan_while is_ws bs ?e"
  show ?case
    using 1 [OF refl refl] scan_while_ge [of "start + 2" "\<lambda>b. b \<noteq> 0x0A" bs] scan_while_ge [of ?e is_ws bs]
      scan_while_le [of "start + 2" bs "\<lambda>b. b \<noteq> 0x0A"]
    by (subst (1 2) scan_multiline_string.simps) (auto simp: Let_def)
qed

lemma get_some: "get bs i = Some b \<Longrightarrow> i < length bs"
  by (simp add: get_def split: if_splits)

lemma block_comment_loop_bounds:
  "pos \<le> fst (block_comment_loop bs pos depth)
   \<and> (pos \<le> length bs \<longrightarrow> fst (block_comment_loop bs pos depth) \<le> length bs)"
proof (induction bs pos depth rule: block_comment_loop.induct)
  case (1 bs pos depth)
  note eq = block_comment_loop.simps [of bs pos depth]
  let ?open = "bs ! pos = chr CHR ''/'' \<and> get bs (pos + 1) = Some (chr CHR ''*'')"
  let ?close = "bs ! pos = chr CHR ''*'' \<and> get bs (pos + 1) = Some (chr CHR ''/'')"
  have two: "pos + 2 \<le> length bs" if "?open \<or> ?close" using that get_some [of bs "pos + 1"] by fastforce
  consider (fin) "\<not> pos < length bs" | (op) "pos < length bs" "?open"
    | (last) "pos < length bs" "\<not> ?open" "?close" "depth - 1 = 0"
    | (cl) "pos < length bs" "\<not> ?open" "?close" "depth - 1 \<noteq> 0"
    | (other) "pos < length bs" "\<not> ?open" "\<not> ?close" by blast
  then show ?case
  proof cases
    case op
    then show ?thesis unfolding eq using 1(1) [OF op] two by simp
  next
    case cl
    then have "block_comment_loop bs pos depth = block_comment_loop bs (pos + 2) (depth - 1)"
      unfolding eq by (simp only: if_True if_False simp_thms)
    then show ?thesis using 1(2) [OF cl] two cl by simp
  next
    case other
    then have "block_comment_loop bs pos depth = block_comment_loop bs (pos + 1) depth"
      unfolding eq by (simp only: if_True if_False)
    then show ?thesis using 1(3) [OF other] other(1) by simp
  qed (use eq two in auto)
qed

lemma string_escape_le:
  assumes "pos < length bs"
  shows "fst (string_escape bs pos) \<le> length bs"
proof (cases "get bs (pos + 1)")
  case None
  with assms show ?thesis by (simp add: string_escape_def)
next
  case (Some c)
  let ?q = "scan_while is_ascii_hexdigit bs (pos + 3)"
  have 2: "pos + 2 \<le> length bs" using get_some [OF Some] by simp
  have u: "?q \<le> length bs" if "get bs (pos + 2) = Some b" for b
    using get_some [OF that] by (intro scan_while_le) simp
  have q: "?q + 1 \<le> length bs" if "get bs ?q = Some b" for b using get_some [OF that] by simp
  have x: "pos + 4 \<le> length bs" if "case get bs (pos + 3) of Some b \<Rightarrow> is_hex_byte b | None \<Rightarrow> False"
    using that get_some [of bs "pos + 3"] by (auto split: option.splits)
  show ?thesis unfolding string_escape_def Some option.case Let_def
    using 2 u q x by (simp split del: if_split split: if_split_asm) (simp split: if_splits)
qed

lemma string_loop_bounds:
  "pos \<le> fst (string_loop bs pos bad) \<and> (pos \<le> length bs \<longrightarrow> fst (string_loop bs pos bad) \<le> length bs)"
proof (induction bs pos bad rule: string_loop.induct)
  case (1 bs pos bad)
  then show ?case
    using string_escape_gt [of pos bs] string_escape_le [of pos bs] by (subst (1 2) string_loop.simps) auto
qed

lemma number_digits_cases:
  "number_digits bs start = (scan_digit_run bs start is_dec, False)
   \<or> (\<exists>ok. start + 2 < length bs \<and> number_digits bs start = (scan_digit_run bs (start + 2) ok, True))"
  unfolding number_digits_def Let_def by (simp split: option.split if_split) blast

lemma number_digits_bounds:
  assumes "start < length bs" "is_dec (bs ! start)"
  shows "start < fst (number_digits bs start) \<and> fst (number_digits bs start) \<le> length bs"
  using number_digits_cases [of bs start]
proof (elim disjE exE conjE)
  assume "number_digits bs start = (scan_digit_run bs start is_dec, False)"
  with assms scan_digit_run_gt [of start bs is_dec] scan_digit_run_bounds [of start bs is_dec] show ?thesis
    by simp
next
  fix ok assume "start + 2 < length bs" "number_digits bs start = (scan_digit_run bs (start + 2) ok, True)"
  with scan_digit_run_bounds [of "start + 2" bs ok] show ?thesis by simp
qed

lemma number_rest_bounds:
  "pos \<le> length bs \<Longrightarrow> pos \<le> fst (number_exponent bs (number_fraction bs (pos, fl)))
     \<and> fst (number_exponent bs (number_fraction bs (pos, fl))) \<le> length bs"
proof -
  assume a: "pos \<le> length bs"
  have "pos \<le> fst (number_fraction bs (pos, fl)) \<and> fst (number_fraction bs (pos, fl)) \<le> length bs"
    using a scan_digit_run_bounds [of "pos + 1" bs is_dec] by (auto simp: number_fraction_def)
  moreover have "p \<le> fst (number_exponent bs (p, f)) \<and> fst (number_exponent bs (p, f)) \<le> length bs"
    if "p \<le> length bs" for p f
    using that scan_digit_run_bounds [of "p + 1" bs is_dec] scan_digit_run_bounds [of "p + 2" bs is_dec]
    by (auto simp: number_exponent_def Let_def)
  ultimately show ?thesis by (metis order_trans prod.collapse)
qed

lemma scan_punct_bounds:
  "scan_punct bs pos = Some (k, e) \<Longrightarrow> pos < length bs \<Longrightarrow> pos < e \<and> e \<le> length bs"
  by (auto simp: scan_punct_def Let_def get_def split: if_splits)

section \<open>Spans\<close>

type_synonym span = "TokenKind \<times> nat \<times> nat"

fun chain :: "nat \<Rightarrow> span list \<Rightarrow> nat \<Rightarrow> bool" where
  "chain s [] e \<longleftrightarrow> s = e"
| "chain s ((k, a, b) # sp) e \<longleftrightarrow> a = s \<and> a < b \<and> chain b sp e"

lemma chain_append: "chain s sp m \<Longrightarrow> chain m sp' e \<Longrightarrow> chain s (sp @ sp') e"
  by (induction s sp m rule: chain.induct) auto

lemma chain_le: "chain s sp e \<Longrightarrow> s \<le> e"
  by (induction s sp e rule: chain.induct) auto

definition errs :: "span list \<Rightarrow> (nat \<times> nat) list" where
  "errs sp = map (\<lambda>(k, a, b). (as_u32 a, as_u32 b)) (filter (\<lambda>(k, a, b). k = Tk_Error) sp)"

definition drange :: "Diagnostic \<Rightarrow> nat \<times> nat" where
  "drange d = (d_start d, d_end d)"

definition emit :: "Lexer \<Rightarrow> span list \<Rightarrow> Diagnostic list \<Rightarrow> Lexer" where
  "emit lx sp ds = lx\<lparr>lx_kinds := lx_kinds lx @ map fst sp,
     lx_starts := lx_starts lx @ map (\<lambda>(k, a, b). as_u32 a) sp, lx_diags := lx_diags lx @ ds\<rparr>"

text \<open>What a token's text looks like: runs of whitespace and of identifier characters are maximal,
  words are classified by their text, a line comment ends before the next newline.\<close>

definition run_of :: "(u8 \<Rightarrow> bool) \<Rightarrow> bytes \<Rightarrow> nat \<Rightarrow> nat \<Rightarrow> bool" where
  "run_of p bs a b \<longleftrightarrow> (\<forall>i. a \<le> i \<and> i < b \<longrightarrow> p (bs ! i)) \<and> (b < length bs \<longrightarrow> \<not> p (bs ! b))"

fun is_word_kind :: "TokenKind \<Rightarrow> bool" where
  "is_word_kind Tk_Ident = True"
| "is_word_kind Tk_Underscore = True"
| "is_word_kind (Tk_Kw k) = True"
| "is_word_kind _ = False"

definition tok_ok :: "bytes \<Rightarrow> span \<Rightarrow> bool" where
  "tok_ok bs t = (case t of (k, a, b) \<Rightarrow>
     k \<noteq> Tk_Eof
     \<and> (k = Tk_Whitespace \<longrightarrow> run_of is_ws bs a b)
     \<and> (k = Tk_LineComment \<longrightarrow> run_of (\<lambda>c. c \<noteq> 0x0A) bs a b)
     \<and> (is_word_kind k \<longrightarrow> run_of is_ident_continue bs a b \<and> is_ident_start (bs ! a)
          \<and> k = word_kind (slice bs a b))
     \<and> (is_ident_start (bs ! a) \<and> k \<noteq> Tk_Error \<longrightarrow> is_word_kind k))"

lemma scan_while_run:
  "(\<forall>i. pos \<le> i \<and> i < scan_while p bs pos \<longrightarrow> p (bs ! i)) \<and>
   (scan_while p bs pos < length bs \<longrightarrow> \<not> p (bs ! scan_while p bs pos))"
proof (induction p bs pos rule: scan_while.induct)
  case (1 p bs pos)
  show ?case
  proof (cases "pos < length bs \<and> p (bs ! pos)")
    case True
    then have "scan_while p bs pos = scan_while p bs (pos + 1)" by (subst scan_while.simps) simp
    moreover have "\<forall>i. pos \<le> i \<longrightarrow> i = pos \<or> pos + 1 \<le> i" by auto
    ultimately show ?thesis using 1 [OF True] True by metis
  next
    case False
    then have "scan_while p bs pos = pos" by (subst scan_while.simps) auto
    with False show ?thesis by auto
  qed
qed

lemma run_of_scan:
  assumes "\<And>i. a \<le> i \<Longrightarrow> i < pos \<Longrightarrow> p (bs ! i)"
  shows "run_of p bs a (scan_while p bs pos)"
proof -
  have "p (bs ! i)" if "a \<le> i" "i < scan_while p bs pos" for i
    using that assms [of i] scan_while_run [of pos p bs] by (cases "i < pos") auto
  then show ?thesis using scan_while_run [of pos p bs] by (auto simp: run_of_def)
qed

section \<open>What one step emits\<close>

definition step_spec :: "bytes \<Rightarrow> nat \<Rightarrow> Lexer \<Rightarrow> Lexer \<times> nat \<Rightarrow> bool" where
  "step_spec bs s lx r \<longleftrightarrow> (\<exists>sp ds e. r = (emit lx sp ds, e) \<and> chain s sp e \<and> s < e \<and> e \<le> length bs
     \<and> map drange ds = errs sp \<and> list_all (tok_ok bs) sp
     \<and> list_all (\<lambda>d. d_code d \<noteq> FileTooLarge \<and> d_code d \<noteq> InvalidUtf8) ds)"

lemma step_one:
  assumes "s < e" "e \<le> length bs" "k \<noteq> Tk_Error" "tok_ok bs (k, s, e)"
  shows "step_spec bs s lx (push lx k s, e)"
  unfolding step_spec_def
  by (rule exI [of _ "[(k, s, e)]"], rule exI [of _ "[]"])
    (use assms in \<open>simp add: push_def emit_def errs_def\<close>)

lemma step_error:
  assumes "s < e" "e \<le> length bs" "c \<noteq> FileTooLarge" "c \<noteq> InvalidUtf8"
  shows "step_spec bs s lx (push (diag lx s e c) Tk_Error s, e)"
  unfolding step_spec_def
  by (rule exI [of _ "[(Tk_Error, s, e)]"], rule exI [of _ "[diagnostic_new (as_u32 s) (as_u32 e) c]"])
    (use assms in \<open>simp add: push_def diag_def emit_def errs_def drange_def diagnostic_new_def tok_ok_def\<close>)

lemma tok_ok_other:
  "k \<noteq> Tk_Eof \<Longrightarrow> k \<noteq> Tk_Whitespace \<Longrightarrow> k \<noteq> Tk_LineComment \<Longrightarrow> \<not> is_word_kind k \<Longrightarrow>
   \<not> is_ident_start (bs ! a) \<Longrightarrow> tok_ok bs (k, a, b)"
  by (simp add: tok_ok_def)

lemma classes_disjoint:
  "is_ws b \<Longrightarrow> \<not> is_ident_start b" "is_dec b \<Longrightarrow> \<not> is_ident_start b"
  by (auto simp: is_ws_def is_ident_start_def is_ascii_alphabetic_def between_def chr_def is_dec_def
      is_ascii_digit_def word_le_nat_alt word_unat_eq_iff)

lemma word_kind_is_word: "is_word_kind (word_kind w)"
proof -
  have "keyword_kind w = Some k \<Longrightarrow> is_word_kind k" for k by (auto simp: keyword_kind_def)
  then show ?thesis by (auto simp: word_kind_def split: option.splits)
qed

lemma ident_start_continue: "is_ident_start b \<Longrightarrow> is_ident_continue b"
  by (auto simp: is_ident_start_def is_ident_continue_def)

lemma ident_step:
  assumes "s < length bs" "is_ident_start (bs ! s)"
  shows "step_spec bs s lx (lex_ident_or_keyword bs lx s)"
proof -
  let ?e = "scan_while is_ident_continue bs (s + 1)"
  have b: "s < ?e" "?e \<le> length bs"
    using scan_while_ge [of "s + 1" is_ident_continue bs] scan_while_le [of "s + 1" bs] assms(1) by simp_all
  have "run_of is_ident_continue bs s ?e"
    by (rule run_of_scan) (use assms(2) ident_start_continue in \<open>auto simp: le_less_Suc_eq\<close>)
  then have "tok_ok bs (word_kind (slice bs s ?e), s, ?e)"
    using word_kind_is_word [of "slice bs s ?e"] assms(2)
    by (cases "word_kind (slice bs s ?e)") (simp_all add: tok_ok_def)
  moreover have "word_kind (slice bs s ?e) \<noteq> Tk_Error"
    using word_kind_is_word [of "slice bs s ?e"] by auto
  ultimately show ?thesis
    unfolding lex_ident_or_keyword_def Let_def using b by (intro step_one)
qed

lemma number_step:
  assumes "s < length bs" "is_dec (bs ! s)"
  shows "step_spec bs s lx (lex_number bs lx s)"
proof -
  obtain p0 rx where d: "number_digits bs s = (p0, rx)" by fastforce
  have p0: "s < p0" "p0 \<le> length bs" using number_digits_bounds [OF assms] d by simp_all
  obtain p fl where f: "(if \<not> rx then number_exponent bs (number_fraction bs (p0, False)) else (p0, False)) = (p, fl)"
    by fastforce
  have p: "s < p" "p \<le> length bs"
    using f p0 number_rest_bounds [OF p0(2), of False] by (auto split: if_splits)
  let ?e = "scan_while is_ident_continue bs p" and ?k = "if fl then Tk_Float else Tk_Int"
  have e: "p \<le> ?e" "?e \<le> length bs" using scan_while_ge scan_while_le p(2) by auto
  have k: "tok_ok bs (?k, s, x)" for x using classes_disjoint(2) [OF assms(2)] by (intro tok_ok_other) auto
  have "step_spec bs s lx (push (diag (push lx ?k s) p ?e BadSuffix) Tk_Error p, ?e)" if "p < ?e"
    unfolding step_spec_def
    by (rule exI [of _ "[(?k, s, p), (Tk_Error, p, ?e)]"],
        rule exI [of _ "[diagnostic_new (as_u32 p) (as_u32 ?e) BadSuffix]"])
      (use p e that k in \<open>simp add: push_def diag_def emit_def errs_def drange_def diagnostic_new_def tok_ok_def\<close>)
  moreover have "slice bs p ?e \<noteq> [] \<Longrightarrow> p < ?e" by (auto simp: slice_def)
  moreover have "step_spec bs s lx (push lx ?k s, p)" "step_spec bs s lx (push lx ?k s, ?e)"
    using p e k by (intro step_one; simp)+
  ultimately show ?thesis unfolding lex_number_def d f prod.case Let_def by (simp split: if_split)
qed

lemma comment_step:
  assumes "s < length bs" "bs ! s = chr CHR ''/''"
  shows "get bs (s + 1) = Some (chr CHR ''/'') \<Longrightarrow> step_spec bs s lx (lex_line_comment bs lx s)"
    and "get bs (s + 1) = Some (chr CHR ''*'') \<Longrightarrow> step_spec bs s lx (lex_block_comment bs lx s)"
proof -
  have id: "\<not> is_ident_start (bs ! s)"
    using assms(2) by (simp add: is_ident_start_def is_ascii_alphabetic_def between_def chr_def)
  {
    assume n: "get bs (s + 1) = Some (chr CHR ''/'')"
    let ?e = "scan_while (\<lambda>b. b \<noteq> 0x0A) bs (s + 2)"
    have b: "s < ?e" "?e \<le> length bs"
      using scan_while_ge [of "s + 2" "\<lambda>b. b \<noteq> 0x0A" bs] scan_while_le [of "s + 2" bs] get_some [OF n] by simp_all
    have n1: "bs ! (s + 1) = chr CHR ''/''" using n by (simp add: get_def split: if_splits)
    have "run_of (\<lambda>c. c \<noteq> 0x0A) bs s ?e"
    proof (rule run_of_scan)
      fix i assume "s \<le> i" "i < s + 2"
      then have "i = s \<or> i = s + 1" by linarith
      then show "bs ! i \<noteq> 0x0A" using assms(2) n1 by (auto simp: chr_def)
    qed
    then have "tok_ok bs (Tk_LineComment, s, ?e)" using id by (simp add: tok_ok_def)
    then show "step_spec bs s lx (lex_line_comment bs lx s)"
      unfolding lex_line_comment_def Let_def using b by (intro step_one) simp_all
  }
  assume "get bs (s + 1) = Some (chr CHR ''*'')"
  then have "s + 2 \<le> length bs" using get_some by fastforce
  then have b: "s < fst (block_comment_loop bs (s + 2) 1)" "fst (block_comment_loop bs (s + 2) 1) \<le> length bs"
    using block_comment_loop_bounds [of "s + 2" bs 1] by auto
  have "tok_ok bs (Tk_BlockComment, s, e)" for e using id by (intro tok_ok_other) auto
  with b show "step_spec bs s lx (lex_block_comment bs lx s)"
    unfolding lex_block_comment_def by (auto split: prod.splits intro!: step_one step_error)
qed

lemma string_step:
  assumes "s < length bs" "\<not> is_ident_start (bs ! s)"
  shows "step_spec bs s lx (lex_string bs lx s)"
proof -
  have "s < fst (string_loop bs (s + 1) False)" "fst (string_loop bs (s + 1) False) \<le> length bs"
    using string_loop_bounds [of "s + 1" bs False] assms(1) by auto
  moreover have "tok_ok bs (Tk_Str, s, e)" for e using assms(2) by (intro tok_ok_other) auto
  ultimately show ?thesis
    unfolding lex_string_def by (auto split: prod.splits intro!: step_one step_error)
qed

lemma punct_tok_ok: "\<not> is_ident_start (bs ! s) \<Longrightarrow> tok_ok bs (Tk_Punct k, s, e)"
  by (intro tok_ok_other) auto

lemma scan_punct_kind: "scan_punct bs s = Some (k, e) \<Longrightarrow> \<exists>q. k = Tk_Punct q"
  unfolding scan_punct_def Let_def by (auto split: if_split_asm)

lemma lex_step_ok:
  assumes "s < length bs"
  shows "step_spec bs s lx (lex_step bs lx s)"
proof -
  let ?b = "bs ! s" and ?n = "get bs (s + 1)"
  note def = lex_step_def [of bs lx s] Let_def
  consider (ws) "is_ws ?b" | (line) "?b = chr CHR ''/''" "?n = Some (chr CHR ''/'')" "\<not> is_ws ?b"
    | (block) "?b = chr CHR ''/''" "?n = Some (chr CHR ''*'')" "\<not> is_ws ?b" "?n \<noteq> Some (chr CHR ''/'')"
    | (rest) "\<not> is_ws ?b" "\<not> (?b = chr CHR ''/'' \<and> ?n = Some (chr CHR ''/''))"
        "\<not> (?b = chr CHR ''/'' \<and> ?n = Some (chr CHR ''*''))" by blast
  then show ?thesis
  proof cases
    case ws
    let ?e = "scan_while is_ws bs (s + 1)"
    have b: "s < ?e" "?e \<le> length bs"
      using scan_while_ge [of "s + 1" is_ws bs] scan_while_le [of "s + 1" bs] assms by simp_all
    have "run_of is_ws bs s ?e"
      by (rule run_of_scan) (use ws in \<open>auto simp: le_less_Suc_eq\<close>)
    then have "tok_ok bs (Tk_Whitespace, s, ?e)" using classes_disjoint(1) [OF ws] by (simp add: tok_ok_def)
    then show ?thesis using ws b by (simp add: def lex_whitespace_def step_one)
  next
    case line
    then show ?thesis using comment_step(1) [OF assms] by (simp add: def)
  next
    case block
    then show ?thesis using comment_step(2) [OF assms] by (simp add: def)
  next
    case rest
    note r = def if_not_P [OF rest(1)] if_not_P [OF rest(2)] if_not_P [OF rest(3)]
    show ?thesis
    proof (cases "is_ident_start ?b")
      case True
      then have "\<not> (?b = 0x5C \<and> ?n = Some 0x5C)"
        by (auto simp: is_ident_start_def is_ascii_alphabetic_def between_def chr_def)
      then show ?thesis unfolding r using True ident_step [OF assms True] by (simp only: if_False if_True)
    next
      case False
      have ml: "step_spec bs s lx (push lx Tk_MultilineStr s, scan_multiline_string bs s)" if "?n = Some 0x5C"
      proof -
        have "s + 2 \<le> length bs" using get_some [OF that] by simp
        then show ?thesis using scan_multiline_string_bounds [of s bs] False
          by (intro step_one tok_ok_other) auto
      qed
      have dots: "step_spec bs s lx (push lx (Tk_Punct k) s, s + 3)" if "get bs (s + 2) = Some x" for x k
        using get_some [OF that] by (intro step_one punct_tok_ok [OF False]) auto
      have bad: "step_spec bs s lx (push (diag lx s (s + 2) BadRangeDots) Tk_Error s, s + 2)" if "?n = Some x" for x
        using get_some [OF that] by (intro step_error) auto
      have pn: "step_spec bs s lx (push lx k s, e)" if sc: "scan_punct bs s = Some (k, e)" for k e
      proof -
        obtain q where "k = Tk_Punct q" using scan_punct_kind [OF sc] by blast
        then show ?thesis using scan_punct_bounds [OF sc assms] by (auto intro: step_one punct_tok_ok [OF False])
      qed
      have stray: "step_spec bs s lx (push (diag lx s e StrayByte) Tk_Error s, e)"
        if "e = (if ?b \<ge> 0x80 then scan_while (\<lambda>b. b \<ge> 0x80) bs (s + 1) else s + 1)" for e
      proof (rule step_error)
        show "s < e" "e \<le> length bs"
          using that scan_while_ge [of "s + 1" "\<lambda>b. b \<ge> 0x80" bs] scan_while_le [of "s + 1" bs "\<lambda>b. b \<ge> 0x80"] assms
          by (auto split: if_splits)
      qed auto
      show ?thesis unfolding r if_not_P [OF False]
        using ml dots bad pn stray number_step [OF assms] string_step [OF assms False]
        by (auto split: option.split)
    qed
  qed
qed

section \<open>The loop\<close>

text \<open>The contract of a scanning loop: a step that advances towards the end of the input and keeps an
  invariant. The client's result: the loop ends, at the end of the input, in the invariant.\<close>

locale scan_loop =
  fixes step :: "'l \<Rightarrow> nat \<Rightarrow> 'l \<times> nat" and n :: nat and inv :: "'l \<Rightarrow> nat \<Rightarrow> bool"
  assumes advances: "inv l s \<Longrightarrow> s < n \<Longrightarrow> s < snd (step l s) \<and> snd (step l s) \<le> n"
    and keeps: "inv l s \<Longrightarrow> s < n \<Longrightarrow> inv (fst (step l s)) (snd (step l s))"
begin

lemma loop_ends:
  "inv l s \<Longrightarrow> s \<le> n \<Longrightarrow>
   \<exists>l'. while_option (\<lambda>(l, s). s < n) (\<lambda>(l, s). step l s) (l, s) = Some (l', n) \<and> inv l' n"
proof (induction "n - s" arbitrary: l s rule: less_induct)
  case less
  show ?case
  proof (cases "s < n")
    case True
    obtain l1 s1 where st: "step l s = (l1, s1)" by fastforce
    have "s < s1" "s1 \<le> n" "inv l1 s1" using advances [of l s] keeps [of l s] less.prems True st by auto
    then have "\<exists>l'. while_option (\<lambda>(l, s). s < n) (\<lambda>(l, s). step l s) (l1, s1) = Some (l', n) \<and> inv l' n"
      using less.hyps True by simp
    then show ?thesis using True st by (subst while_option_unfold) simp
  next
    case False
    then show ?thesis using less.prems by (subst while_option_unfold) auto
  qed
qed

end

definition lexed :: "bytes \<Rightarrow> Lexer \<Rightarrow> nat \<Rightarrow> bool" where
  "lexed bs lx e \<longleftrightarrow> (\<exists>sp. chain 0 sp e \<and> e \<le> length bs \<and> lx_kinds lx = map fst sp
     \<and> lx_starts lx = map (\<lambda>(k, a, b). as_u32 a) sp \<and> map drange (lx_diags lx) = errs sp
     \<and> list_all (tok_ok bs) sp
     \<and> list_all (\<lambda>d. d_code d \<noteq> FileTooLarge \<and> d_code d \<noteq> InvalidUtf8) (lx_diags lx))"

lemma lexed_step:
  assumes "lexed bs lx s" "s < length bs"
  shows "s < snd (lex_step bs lx s) \<and> snd (lex_step bs lx s) \<le> length bs"
    and "lexed bs (fst (lex_step bs lx s)) (snd (lex_step bs lx s))"
proof -
  obtain sp ds e where r: "lex_step bs lx s = (emit lx sp ds, e)" "chain s sp e" "s < e" "e \<le> length bs"
    "map drange ds = errs sp" "list_all (tok_ok bs) sp"
    "list_all (\<lambda>d. d_code d \<noteq> FileTooLarge \<and> d_code d \<noteq> InvalidUtf8) ds"
    using lex_step_ok [OF assms(2), of lx] unfolding step_spec_def by blast
  then show "s < snd (lex_step bs lx s) \<and> snd (lex_step bs lx s) \<le> length bs" by simp
  obtain sp0 where "chain 0 sp0 s" "lx_kinds lx = map fst sp0"
    "lx_starts lx = map (\<lambda>(k, a, b). as_u32 a) sp0" "map drange (lx_diags lx) = errs sp0"
    "list_all (tok_ok bs) sp0" "list_all (\<lambda>d. d_code d \<noteq> FileTooLarge \<and> d_code d \<noteq> InvalidUtf8) (lx_diags lx)"
    using assms(1) unfolding lexed_def by blast
  with r show "lexed bs (fst (lex_step bs lx s)) (snd (lex_step bs lx s))"
    unfolding lexed_def by (intro exI [of _ "sp0 @ sp"]) (simp add: emit_def errs_def chain_append [of 0 sp0 s sp e])
qed

interpretation main_loop: scan_loop "lex_step bs" "length bs" "lexed bs" for bs
  by unfold_locales (simp_all add: lexed_step)

definition empty_lexer :: Lexer where "empty_lexer = \<lparr>lx_kinds = [], lx_starts = [], lx_diags = []\<rparr>"

lemma lex_loop_ends: "\<exists>lx. lex_loop bs empty_lexer = Some (lx, length bs) \<and> lexed bs lx (length bs)"
proof -
  have "lexed bs empty_lexer 0" by (auto simp: lexed_def empty_lexer_def errs_def intro: exI [of _ "[]"])
  then show ?thesis using main_loop.loop_ends [of bs empty_lexer 0] by (simp add: lex_loop_def)
qed

section \<open>The result of lexing\<close>

lemma chain_bounds: "chain s sp e \<Longrightarrow> (k, a, b) \<in> set sp \<Longrightarrow> s \<le> a \<and> a < b \<and> b \<le> e"
  by (induction s sp e rule: chain.induct) (auto dest: chain_le)

lemma as_u32_id: "n \<le> MAX_SOURCE_LEN \<Longrightarrow> as_u32 n = n"
  by (simp add: as_u32_def MAX_SOURCE_LEN_def)

lemma chain_starts: "chain s sp e \<Longrightarrow> e \<le> MAX_SOURCE_LEN \<Longrightarrow>
  map (\<lambda>(k, a, b). as_u32 a) sp = map (fst \<circ> snd) sp
  \<and> errs sp = map snd (filter (\<lambda>(k, a, b). k = Tk_Error) sp)"
proof (induction s sp e rule: chain.induct)
  case (2 s k a b sp e)
  then have "b \<le> e" by (auto dest: chain_le)
  with 2 show ?case by (simp add: as_u32_id errs_def)
qed (simp add: errs_def)

text \<open>Token \<open>i\<close> of the stream has the span of the chain.\<close>

lemma chain_ranges:
  "chain s sp e \<Longrightarrow> i < length sp \<Longrightarrow>
   (map (fst \<circ> snd) sp @ [e, e]) ! i = fst (snd (sp ! i)) \<and> (map (fst \<circ> snd) sp @ [e, e]) ! Suc i = snd (snd (sp ! i))"
proof (induction s sp e arbitrary: i rule: chain.induct)
  case (2 s k a b sp e)
  show ?case
  proof (cases i)
    case 0
    show ?thesis
    proof (cases sp)
      case Nil
      then show ?thesis using 2(2) 0 by simp
    next
      case (Cons t sp')
      then show ?thesis using 2(2) 0 by (cases t) simp
    qed
  next
    case (Suc j)
    with 2 show ?thesis by auto
  qed
qed simp

lemma chain_concat:
  "chain s sp e \<Longrightarrow> e \<le> length bs \<Longrightarrow> concat (map (\<lambda>(k, a, b). slice bs a b) sp) = slice bs s e"
proof (induction s sp e rule: chain.induct)
  case (2 s k a b sp e)
  then have "b \<le> e" "s < b" by (auto dest: chain_le)
  then have "slice bs s b @ slice bs b e = slice bs s e"
    using take_add [of "b - s" "e - b" "drop s bs"] by (simp add: slice_def)
  with 2 show ?case by simp
qed (simp add: slice_def)

lemma lex_result:
  assumes "length source \<le> MAX_SOURCE_LEN"
  obtains sp lx where "chain 0 sp (length source)" "list_all (tok_ok source) sp"
    and "lex source = Some (\<lparr>kinds = map fst sp @ [Tk_Eof],
           starts = map (fst \<circ> snd) sp @ [length source, length source]\<rparr>, lx_diags (report_utf8 source lx))"
    and "map drange (lx_diags lx) = map snd (filter (\<lambda>(k, a, b). k = Tk_Error) sp)"
    and "list_all (\<lambda>d. d_code d \<noteq> FileTooLarge \<and> d_code d \<noteq> InvalidUtf8) (lx_diags lx)"
proof -
  obtain lx where l: "lex_loop source empty_lexer = Some (lx, length source)" "lexed source lx (length source)"
    using lex_loop_ends by blast
  then obtain sp where sp: "chain 0 sp (length source)" "lx_kinds lx = map fst sp"
    "lx_starts lx = map (\<lambda>(k, a, b). as_u32 a) sp" "map drange (lx_diags lx) = errs sp"
    "list_all (tok_ok source) sp" "list_all (\<lambda>d. d_code d \<noteq> FileTooLarge \<and> d_code d \<noteq> InvalidUtf8) (lx_diags lx)"
    unfolding lexed_def by blast
  have "lx_kinds (report_utf8 source lx) = lx_kinds lx" "lx_starts (report_utf8 source lx) = lx_starts lx"
    by (simp_all add: report_utf8_def diag_def Let_def split: option.splits)
  then have "lex source = Some (\<lparr>kinds = map fst sp @ [Tk_Eof],
      starts = map (fst \<circ> snd) sp @ [length source, length source]\<rparr>, lx_diags (report_utf8 source lx))"
    using assms l sp chain_starts [OF sp(1) assms] by (simp add: lex_def as_u32_id empty_lexer_def Let_def)
  with that sp chain_starts [OF sp(1) assms] show ?thesis by auto
qed

end
