(* ===== verification/Lex_Theorems.thy ===== *)
theory Lex_Theorems
  imports Lex_Laws
begin

text \<open>
  The properties of the lexer: it ends on every input, its token stream is lossless, its diagnostics
  are exactly its error tokens (and the first invalid UTF-8 sequence they miss), and words,
  whitespace and line comments are maximal runs classified by their text.
\<close>

text \<open>C27: Lexing ends on every input: every step of the main loop consumes at least one byte, so the loop
  always reaches the end of the source and a token stream is returned, closed by \<^verbatim>\<open>Eof\<close>.\<close>

theorem lex_terminates: "\<exists>t ds. lex source = Some (t, ds) \<and> last (kinds t) = Tk_Eof"
proof (cases "length source \<le> MAX_SOURCE_LEN")
  case True
  then show ?thesis by (rule lex_result) simp
qed (simp add: lex_def Let_def)

text \<open>C28: The token stream is lossless: on a source within the size limit the token texts, in order,
  concatenate to the source byte for byte; every token but the closing \<^verbatim>\<open>Eof\<close> is non-empty, each
  starts where the previous one ends, and the sentinel is the source length.\<close>

theorem lex_lossless:
  assumes "length source \<le> MAX_SOURCE_LEN"
  shows "\<exists>t ds. lex source = Some (t, ds)
    \<and> length (starts t) = tokens_len t + 1 \<and> source_len t = length source
    \<and> concat (map (\<lambda>i. text_at t i source) [0..<tokens_len t]) = source
    \<and> (\<forall>i<tokens_len t. (fst (range_at t i) < snd (range_at t i)) = (i < tokens_len t - 1)
          \<and> (kinds t ! i = Tk_Eof) = (i = tokens_len t - 1))"
proof -
  obtain sp lx where r: "chain 0 sp (length source)" "list_all (tok_ok source) sp"
    "lex source = Some (\<lparr>kinds = map fst sp @ [Tk_Eof],
       starts = map (fst \<circ> snd) sp @ [length source, length source]\<rparr>, lx_diags (report_utf8 source lx))"
    by (rule lex_result [OF assms])
  let ?t = "\<lparr>kinds = map fst sp @ [Tk_Eof], starts = map (fst \<circ> snd) sp @ [length source, length source]\<rparr>"
  have rg: "range_at ?t i = snd (sp ! i)" if "i < length sp" for i
    using chain_ranges [OF r(1) that] by (simp add: range_at_def)
  have eof: "range_at ?t (length sp) = (length source, length source)"
    by (simp add: range_at_def nth_append)
  have "map (\<lambda>i. text_at ?t i source) [0..<length sp] = map (\<lambda>(k, a, b). slice source a b) sp"
    by (rule nth_equalityI) (simp_all add: text_at_def rg split: prod.splits)
  then have "concat (map (\<lambda>i. text_at ?t i source) [0..<Suc (length sp)]) = source"
    using chain_concat [OF r(1) order_refl] by (simp add: text_at_def eof slice_def)
  moreover have "fst (range_at ?t i) < snd (range_at ?t i) \<and> kinds ?t ! i \<noteq> Tk_Eof" if "i < length sp" for i
  proof -
    obtain k a b where s: "sp ! i = (k, a, b)" by (metis prod_cases3)
    then have "(k, a, b) \<in> set sp" using that by (metis nth_mem)
    with chain_bounds [OF r(1)] r(2) s that show ?thesis
      by (auto simp: rg nth_append tok_ok_def list_all_iff)
  qed
  ultimately show ?thesis using r(3) eof
    by (auto simp: tokens_len_def source_len_def less_Suc_eq nth_append)
qed

theorem lex_lossless_witness:
  "\<exists>t ds. lex (bstr ''fn f'') = Some (t, ds) \<and>
     concat (map (\<lambda>i. text_at t i (bstr ''fn f'')) [0..<tokens_len t]) = bstr ''fn f''"
  using lex_lossless [of "bstr ''fn f''"] by (auto simp: MAX_SOURCE_LEN_def bstr_def)

section \<open>Diagnostics\<close>

lemma errs_sorted:
  "chain s sp e \<Longrightarrow> sorted (map fst (map snd (filter (\<lambda>(k, a, b). k = Tk_Error) sp)))"
proof (induction s sp e rule: chain.induct)
  case (2 s k a b sp e)
  have "a \<le> a'" if "(k', a', b') \<in> set sp" for k' a' b'
    using chain_bounds [of b sp e k' a' b'] 2(2) that by auto
  with 2 show ?case by auto
qed simp

lemma report_utf8_diags:
  "lx_diags (report_utf8 source lx) =
     (case from_utf8 source of
        Some (at, el) \<Rightarrow>
          if list_ex (\<lambda>d. d_start d \<le> at \<and> at < d_end d) (lx_diags lx) then lx_diags lx
          else sort_key d_start (lx_diags lx @ [diagnostic_new (as_u32 at)
                 (as_u32 (at + (case el of Some n \<Rightarrow> n | None \<Rightarrow> length source - at))) InvalidUtf8])
      | None \<Rightarrow> lx_diags lx)"
  by (simp add: report_utf8_def diag_def Let_def split: option.split)

lemma report_utf8_others:
  assumes "sorted (map d_start (lx_diags lx))" "list_all (\<lambda>d. d_code d \<noteq> InvalidUtf8) (lx_diags lx)"
  shows "filter (\<lambda>d. d_code d \<noteq> InvalidUtf8) (lx_diags (report_utf8 source lx)) = lx_diags lx"
proof -
  have f: "filter (\<lambda>d. d_code d \<noteq> InvalidUtf8) (lx_diags lx) = lx_diags lx"
    using assms(2) by (simp add: list_all_iff)
  then show ?thesis
    using sort_key_id_if_sorted [OF assms(1)]
    by (auto simp: report_utf8_diags filter_sort diagnostic_new_def split: option.split)
qed

lemma report_utf8_clean:
  "lx_diags (report_utf8 source lx) = [] \<longleftrightarrow> lx_diags lx = [] \<and> from_utf8 source = None"
proof -
  have "sort_key d_start xs = [] \<longleftrightarrow> xs = []" for xs :: "Diagnostic list"
    by (simp only: length_0_conv [symmetric] length_sort)
  then show ?thesis
    unfolding report_utf8_diags
    by (cases "from_utf8 source"; cases "lx_diags lx = []") (simp_all add: split_beta split: if_split)
qed

text \<open>C29: Lexical errors are reported exactly: on a source within the size limit the diagnostics other
  than \<^verbatim>\<open>InvalidUtf8\<close> are, in order and with their byte ranges, the \<^verbatim>\<open>Error\<close> tokens of the stream, and
  there is no diagnostic at all exactly when there is no \<^verbatim>\<open>Error\<close> token and the source is valid UTF-8.\<close>

theorem lex_diagnostics_exact:
  assumes "length source \<le> MAX_SOURCE_LEN"
  shows "\<exists>t ds. lex source = Some (t, ds)
    \<and> map drange (filter (\<lambda>d. d_code d \<noteq> InvalidUtf8) ds) =
        map (range_at t) (filter (\<lambda>i. kinds t ! i = Tk_Error) [0..<tokens_len t])
    \<and> (ds = [] \<longleftrightarrow> Tk_Error \<notin> set (kinds t) \<and> from_utf8 source = None)"
proof -
  obtain sp lx where r: "chain 0 sp (length source)"
    "lex source = Some (\<lparr>kinds = map fst sp @ [Tk_Eof],
       starts = map (fst \<circ> snd) sp @ [length source, length source]\<rparr>, lx_diags (report_utf8 source lx))"
    "map drange (lx_diags lx) = map snd (filter (\<lambda>(k, a, b). k = Tk_Error) sp)"
    "list_all (\<lambda>d. d_code d \<noteq> FileTooLarge \<and> d_code d \<noteq> InvalidUtf8) (lx_diags lx)"
    by (rule lex_result [OF assms])
  let ?t = "\<lparr>kinds = map fst sp @ [Tk_Eof], starts = map (fst \<circ> snd) sp @ [length source, length source]\<rparr>"
  have ds: "map d_start (lx_diags lx) = map fst (map snd (filter (\<lambda>(k, a, b). k = Tk_Error) sp))"
    unfolding r(3) [symmetric] by (simp add: drange_def)
  have flt: "filter (\<lambda>d. d_code d \<noteq> InvalidUtf8) (lx_diags (report_utf8 source lx)) = lx_diags lx"
    using errs_sorted [OF r(1)] r(4) by (intro report_utf8_others) (simp_all add: ds list_all_iff)
  have e: "filter (\<lambda>(k, a, b). k = Tk_Error) sp = map ((!) sp) (filter (\<lambda>i. fst (sp ! i) = Tk_Error) [0..<length sp])"
    by (subst (1) map_nth [of sp, symmetric]) (simp add: filter_map comp_def split_def del: map_nth)
  have "filter (\<lambda>i. kinds ?t ! i = Tk_Error) [0..<tokens_len ?t]
      = filter (\<lambda>i. fst (sp ! i) = Tk_Error) [0..<length sp]"
    by (auto simp: tokens_len_def nth_append intro: filter_cong)
  moreover have "range_at ?t i = snd (sp ! i)" if "i < length sp" for i
    using chain_ranges [OF r(1) that] by (simp add: range_at_def)
  ultimately have "map (range_at ?t) (filter (\<lambda>i. kinds ?t ! i = Tk_Error) [0..<tokens_len ?t])
      = map drange (lx_diags lx)"
    unfolding r(3) e by simp
  moreover have "lx_diags lx = [] \<longleftrightarrow> Tk_Error \<notin> set (kinds ?t)"
  proof -
    have "lx_diags lx = [] \<longleftrightarrow> filter (\<lambda>(k, a, b). k = Tk_Error) sp = []"
      by (metis Nil_is_map_conv r(3))
    then show ?thesis by (force simp: filter_empty_conv)
  qed
  ultimately show ?thesis using r(2) flt report_utf8_clean [of source lx] by auto
qed

theorem lex_diagnostics_exact_witness:
  "\<exists>t ds. lex (bstr ''1abc'') = Some (t, ds) \<and> (ds = [] \<longleftrightarrow> Tk_Error \<notin> set (kinds t) \<and> from_utf8 (bstr ''1abc'') = None)"
  using lex_diagnostics_exact [of "bstr ''1abc''"] by (auto simp: MAX_SOURCE_LEN_def bstr_def)

section \<open>Token texts\<close>

text \<open>C30: Tokens are what their text says, by longest match: a whitespace token is a maximal run of
  whitespace; a line comment runs up to the next newline; a token is a name, an underscore or a
  keyword exactly when it starts with a letter or an underscore, it is then a maximal run of
  identifier characters, and its kind is decided by its spelling alone.\<close>

theorem lex_token_texts:
  assumes "length source \<le> MAX_SOURCE_LEN"
  shows "\<exists>t ds. lex source = Some (t, ds) \<and> (\<forall>i<tokens_len t - 1.
      (case range_at t i of (a, b) \<Rightarrow>
        (kinds t ! i = Tk_Whitespace \<longrightarrow> run_of is_ws source a b)
        \<and> (kinds t ! i = Tk_LineComment \<longrightarrow> run_of (\<lambda>c. c \<noteq> 0x0A) source a b)
        \<and> (is_word_kind (kinds t ! i) \<longrightarrow> run_of is_ident_continue source a b
             \<and> is_ident_start (source ! a) \<and> kinds t ! i = word_kind (text_at t i source))
        \<and> (is_ident_start (source ! a) \<and> kinds t ! i \<noteq> Tk_Error \<longrightarrow> is_word_kind (kinds t ! i))))"
proof -
  obtain sp lx where r: "chain 0 sp (length source)" "list_all (tok_ok source) sp"
    "lex source = Some (\<lparr>kinds = map fst sp @ [Tk_Eof],
       starts = map (fst \<circ> snd) sp @ [length source, length source]\<rparr>, lx_diags (report_utf8 source lx))"
    by (rule lex_result [OF assms])
  let ?t = "\<lparr>kinds = map fst sp @ [Tk_Eof], starts = map (fst \<circ> snd) sp @ [length source, length source]\<rparr>"
  have rg: "range_at ?t i = snd (sp ! i)" "tok_ok source (sp ! i)" if "i < length sp" for i
    using chain_ranges [OF r(1) that] r(2) that by (simp_all add: range_at_def list_all_length)
  show ?thesis
  proof (intro exI conjI, rule r(3), intro allI impI)
    fix i assume "i < tokens_len ?t - 1"
    then have i: "i < length sp" by (simp add: tokens_len_def)
    obtain k a b where s: "sp ! i = (k, a, b)" by (metis prod_cases3)
    then show "case range_at ?t i of (a, b) \<Rightarrow>
        (kinds ?t ! i = Tk_Whitespace \<longrightarrow> run_of is_ws source a b)
        \<and> (kinds ?t ! i = Tk_LineComment \<longrightarrow> run_of (\<lambda>c. c \<noteq> 0x0A) source a b)
        \<and> (is_word_kind (kinds ?t ! i) \<longrightarrow> run_of is_ident_continue source a b
             \<and> is_ident_start (source ! a) \<and> kinds ?t ! i = word_kind (text_at ?t i source))
        \<and> (is_ident_start (source ! a) \<and> kinds ?t ! i \<noteq> Tk_Error \<longrightarrow> is_word_kind (kinds ?t ! i))"
      using rg [OF i] i by (simp add: text_at_def nth_append tok_ok_def)
  qed
qed

theorem lex_token_texts_witness:
  "\<exists>t ds. lex (bstr ''x'') = Some (t, ds) \<and> (\<forall>i<tokens_len t - 1.
      is_word_kind (kinds t ! i) \<longrightarrow> kinds t ! i = word_kind (text_at t i (bstr ''x'')))"
  using lex_token_texts [of "bstr ''x''"] by (fastforce simp: MAX_SOURCE_LEN_def bstr_def split: prod.splits)

end
