(* ===== verification/Stencil_Code.thy ===== *)
theory Stencil_Code
  imports Asm_Encode Arith_Int "HOL-Library.Monad_Syntax"
begin

text \<open>
  The stencil model of the dev code generator (\<^verbatim>\<open>fors-codegen-dev/src/stencil.rs\<close>): the sequence
  builder that records holes and trap sites while it pushes instructions, and the patching of an
  encoded stencil. A builder method is a function on \<open>Seq\<close>; \<open>None\<close> is a Rust panic (\<^verbatim>\<open>must\<close>, an
  assertion, an index out of range, an arithmetic overflow). Arrays are lists, \<^verbatim>\<open>i64\<close> values \<open>int\<close>s.
  The \<^verbatim>\<open>name\<close> of a sequence, which only appears in panic messages, is left out.
\<close>

section \<open>Holes and fills\<close>

datatype HoleKind = LdSt64 | Imm16 | Br19 | Br14 | Br26 | Adr21

datatype RtSym = Rt_WriteUint | Rt_WriteLine

datatype Field = SlotA | SlotB | SlotDst | F_Imm u8 | F_Trap u8 | F_Call RtSym | F_Lit

record Hole =
  h_word :: u16
  h_kind :: HoleKind
  h_field :: Field

record Fill =
  slot_a :: u32
  slot_b :: u32
  slot_dst :: u32
  f_imm :: "u16 list"
  f_trap :: "int list"
  f_call :: int
  f_lit :: int

definition fill_default :: Fill where
  "fill_default = \<lparr>slot_a = 0, slot_b = 0, slot_dst = 0, f_imm = [0, 0, 0, 0], f_trap = [0, 0, 0, 0],
     f_call = 0, f_lit = 0\<rparr>"

definition placeholder :: Fill where
  "placeholder = \<lparr>slot_a = 8, slot_b = 16, slot_dst = 24, f_imm = [1, 2, 3, 4],
     f_trap = [256, 260, 264, 268], f_call = 1024, f_lit = 512\<rparr>"

text \<open>Indexing of an array and subtraction of \<^verbatim>\<open>i64\<close> values, with their panics.\<close>

definition at_index :: "'a list \<Rightarrow> nat \<Rightarrow> 'a option" where
  "at_index xs i = (if i < length xs then Some (xs ! i) else None)"

definition i64_sub :: "int \<Rightarrow> int \<Rightarrow> int option" where
  "i64_sub x y = (if in_signed 64 (x - y) then Some (x - y) else None)"

section \<open>The sequence builder\<close>

record Seq =
  s_fill :: Fill
  insts :: "Inst list"
  holes :: "Hole list"
  sites :: "TrapKind list"

definition seq_new :: "Fill \<Rightarrow> Seq" where
  "seq_new f = \<lparr>s_fill = f, insts = [], holes = [], sites = []\<rparr>"

definition seq_word :: "Seq \<Rightarrow> u16" where
  "seq_word s = word_of_nat (length (insts s))"

definition seq_fixed :: "Inst \<Rightarrow> Seq \<Rightarrow> Seq" where
  "seq_fixed i s = s\<lparr>insts := insts s @ [i]\<rparr>"

text \<open>\<^verbatim>\<open>Seq::i\<close>, with the panic of \<^verbatim>\<open>must\<close> on an error.\<close>

definition seq_i :: "inst_result \<Rightarrow> Seq \<Rightarrow> Seq option" where
  "seq_i r s = (case r of Inr i \<Rightarrow> Some (seq_fixed i s) | Inl e \<Rightarrow> None)"

definition hole :: "HoleKind \<Rightarrow> Field \<Rightarrow> Seq \<Rightarrow> Seq" where
  "hole k f s = s\<lparr>holes := holes s @ [\<lparr>h_word = seq_word s, h_kind = k, h_field = f\<rparr>]\<rparr>"

definition slot :: "Seq \<Rightarrow> Field \<Rightarrow> u32 option" where
  "slot s f =
     (case f of SlotA \<Rightarrow> Some (slot_a (s_fill s)) | SlotB \<Rightarrow> Some (slot_b (s_fill s))
      | SlotDst \<Rightarrow> Some (slot_dst (s_fill s)) | _ \<Rightarrow> None)"

definition ldr_slot :: "u8 \<Rightarrow> Field \<Rightarrow> Seq \<Rightarrow> Seq option" where
  "ldr_slot rt f s = do {
     off \<leftarrow> slot s f;
     let s = hole LdSt64 f s;
     m \<leftarrow> uscaled_new (uint off) 8;
     rt \<leftarrow> reg_x rt;
     seq_i (bindR m (\<lambda>m. inst_ldr rt reg_sp (UnsignedOffset m))) s }"

definition str_slot :: "u8 \<Rightarrow> Field \<Rightarrow> Seq \<Rightarrow> Seq option" where
  "str_slot rt f s = do {
     off \<leftarrow> slot s f;
     let s = hole LdSt64 f s;
     m \<leftarrow> uscaled_new (uint off) 8;
     rt \<leftarrow> reg_x rt;
     seq_i (bindR m (\<lambda>m. inst_str rt reg_sp (UnsignedOffset m))) s }"

definition movz_imm :: "Reg \<Rightarrow> u8 \<Rightarrow> u8 \<Rightarrow> Seq \<Rightarrow> Seq option" where
  "movz_imm rd i shift s = do {
     let s = hole Imm16 (F_Imm i) s;
     v \<leftarrow> at_index (f_imm (s_fill s)) (unat i);
     seq_i (inst_movz rd v shift) s }"

definition movk_imm :: "Reg \<Rightarrow> u8 \<Rightarrow> u8 \<Rightarrow> Seq \<Rightarrow> Seq option" where
  "movk_imm rd i shift s = do {
     let s = hole Imm16 (F_Imm i) s;
     v \<leftarrow> at_index (f_imm (s_fill s)) (unat i);
     seq_i (inst_movk rd v shift) s }"

text \<open>\<^verbatim>\<open>iter().position(p)\<close>.\<close>

fun position :: "('a \<Rightarrow> bool) \<Rightarrow> 'a list \<Rightarrow> nat option" where
  "position p [] = None"
| "position p (y # ys) = (if p y then Some 0 else map_option Suc (position p ys))"

definition site :: "TrapKind \<Rightarrow> Seq \<Rightarrow> (u8 \<times> Seq) option" where
  "site kind s =
     (case position (\<lambda>k. k = kind) (sites s) of
        Some i \<Rightarrow> Some (word_of_nat i, s)
      | None \<Rightarrow>
          let s = s\<lparr>sites := sites s @ [kind]\<rparr>
          in if length (sites s) \<le> 4 then Some (word_of_nat (length (sites s) - 1), s) else None)"

definition trap_off :: "Seq \<Rightarrow> u8 \<Rightarrow> int option" where
  "trap_off s i = do {
     t \<leftarrow> at_index (f_trap (s_fill s)) (unat i);
     i64_sub t (4 * uint (seq_word s)) }"

definition trap_if :: "Cond \<Rightarrow> TrapKind \<Rightarrow> Seq \<Rightarrow> Seq option" where
  "trap_if cond kind s = do {
     (i, s) \<leftarrow> site kind s;
     off \<leftarrow> trap_off s i;
     let s = hole Br19 (F_Trap i) s;
     o' \<leftarrow> branch_offset_new off 19 ''b.cond'';
     seq_i (bindR o' (\<lambda>o'. Inr (inst_b_cond cond o'))) s }"

definition trap_cbz :: "Reg \<Rightarrow> TrapKind \<Rightarrow> Seq \<Rightarrow> Seq option" where
  "trap_cbz rt kind s = do {
     (i, s) \<leftarrow> site kind s;
     off \<leftarrow> trap_off s i;
     let s = hole Br19 (F_Trap i) s;
     o' \<leftarrow> branch_offset_new off 19 ''cbz'';
     seq_i (bindR o' (\<lambda>o'. Inr (inst_cbz rt o'))) s }"

definition trap_cbnz :: "Reg \<Rightarrow> TrapKind \<Rightarrow> Seq \<Rightarrow> Seq option" where
  "trap_cbnz rt kind s = do {
     (i, s) \<leftarrow> site kind s;
     off \<leftarrow> trap_off s i;
     let s = hole Br19 (F_Trap i) s;
     o' \<leftarrow> branch_offset_new off 19 ''cbnz'';
     seq_i (bindR o' (\<lambda>o'. Inr (inst_cbnz rt o'))) s }"

definition trap_tbnz :: "Reg \<Rightarrow> u8 \<Rightarrow> TrapKind \<Rightarrow> Seq \<Rightarrow> Seq option" where
  "trap_tbnz rt bt kind s = do {
     (i, s) \<leftarrow> site kind s;
     off \<leftarrow> trap_off s i;
     let s = hole Br14 (F_Trap i) s;
     o' \<leftarrow> branch_offset_new off 14 ''tbnz'';
     seq_i (bindR o' (\<lambda>o'. inst_tbnz rt bt o')) s }"

definition trap_always :: "TrapKind \<Rightarrow> Seq \<Rightarrow> Seq option" where
  "trap_always kind s = do {
     (i, s) \<leftarrow> site kind s;
     off \<leftarrow> trap_off s i;
     let s = hole Br26 (F_Trap i) s;
     o' \<leftarrow> branch_offset_new off 26 ''b'';
     seq_i (bindR o' (\<lambda>o'. Inr (inst_b o'))) s }"

definition seq_bl :: "RtSym \<Rightarrow> Seq \<Rightarrow> Seq option" where
  "seq_bl rts s = do {
     off \<leftarrow> i64_sub (f_call (s_fill s)) (4 * uint (seq_word s));
     let s = hole Br26 (F_Call rts) s;
     o' \<leftarrow> branch_offset_new off 26 ''bl'';
     seq_i (bindR o' (\<lambda>o'. Inr (inst_bl o'))) s }"

definition adr_lit :: "Reg \<Rightarrow> Seq \<Rightarrow> Seq option" where
  "adr_lit rd s = do {
     off \<leftarrow> i64_sub (f_lit (s_fill s)) (4 * uint (seq_word s));
     let s = hole Adr21 F_Lit s;
     seq_i (bindR (adr_new off) (\<lambda>o'. inst_adr rd o')) s }"

definition b_cond_local :: "Cond \<Rightarrow> int \<Rightarrow> Seq \<Rightarrow> Seq option" where
  "b_cond_local cond words s = do {
     o' \<leftarrow> branch_offset_new (4 * words) 19 ''b.cond (local)'';
     seq_i (bindR o' (\<lambda>o'. Inr (inst_b_cond cond o'))) s }"

section \<open>Patching\<close>

text \<open>The value of a hole's field, the first \<^verbatim>\<open>match\<close> of \<^verbatim>\<open>patch\<close> and of \<^verbatim>\<open>hole_fits\<close>.\<close>

definition field_value :: "Hole \<Rightarrow> Fill \<Rightarrow> int option" where
  "field_value h fill =
     (let word_bytes = 4 * uint (h_word h)
      in case h_field h of
           SlotA \<Rightarrow> Some (uint (slot_a fill))
         | SlotB \<Rightarrow> Some (uint (slot_b fill))
         | SlotDst \<Rightarrow> Some (uint (slot_dst fill))
         | F_Imm i \<Rightarrow> map_option uint (at_index (f_imm fill) (unat i))
         | F_Trap i \<Rightarrow> Option.bind (at_index (f_trap fill) (unat i)) (\<lambda>t. i64_sub t word_bytes)
         | F_Call _ \<Rightarrow> i64_sub (f_call fill) word_bytes
         | F_Lit \<Rightarrow> i64_sub (f_lit fill) word_bytes)"

definition insert_bits :: "u32 \<Rightarrow> nat \<Rightarrow> nat \<Rightarrow> u32 \<Rightarrow> u32" where
  "insert_bits w lo len v =
     (let m = ucast (push_bit len 1 - 1 :: u64)
      in (w AND NOT (push_bit lo m)) OR push_bit lo (v AND m))"

definition patch :: "u32 \<Rightarrow> Hole \<Rightarrow> Fill \<Rightarrow> u32 option" where
  "patch w h fill =
     map_option (\<lambda>v.
       case h_kind h of
         LdSt64 \<Rightarrow> insert_bits w 10 12 (word_of_int (v sdiv 8))
       | Imm16 \<Rightarrow> insert_bits w 5 16 (word_of_int v)
       | Br19 \<Rightarrow> insert_bits w 5 19 (word_of_int (drop_bit 2 v))
       | Br14 \<Rightarrow> insert_bits w 5 14 (word_of_int (drop_bit 2 v))
       | Br26 \<Rightarrow> insert_bits w 0 26 (word_of_int (drop_bit 2 v))
       | Adr21 \<Rightarrow> (let u = word_of_int v :: u32
                   in insert_bits (insert_bits w 29 2 (u AND 3)) 5 19 (drop_bit 2 u)))
     (field_value h fill)"

text \<open>The closure \<^verbatim>\<open>signed\<close> of \<^verbatim>\<open>hole_fits\<close>; on a multiple of the scale Rust's division is exact.\<close>

definition fits_signed :: "int \<Rightarrow> nat \<Rightarrow> int \<Rightarrow> bool" where
  "fits_signed v bits scale \<longleftrightarrow>
     v mod scale = 0 \<and> (let q = v div scale in - (2 ^ (bits - 1)) \<le> q \<and> q < 2 ^ (bits - 1))"

definition hole_fits :: "Hole \<Rightarrow> Fill \<Rightarrow> bool option" where
  "hole_fits h fill =
     map_option (\<lambda>v.
       case h_kind h of
         LdSt64 \<Rightarrow> v \<ge> 0 \<and> v mod 8 = 0 \<and> v div 8 \<le> 0xFFF
       | Imm16 \<Rightarrow> 0 \<le> v \<and> v \<le> 0xFFFF
       | Br19 \<Rightarrow> fits_signed v 19 4
       | Br14 \<Rightarrow> fits_signed v 14 4
       | Br26 \<Rightarrow> fits_signed v 26 4
       | Adr21 \<Rightarrow> fits_signed v 21 1)
     (field_value h fill)"

text \<open>The loop of \<^verbatim>\<open>instantiate_into\<close> over the holes, on the words from \<open>base\<close> on.\<close>

fun patch_loop :: "Hole list \<Rightarrow> Fill \<Rightarrow> nat \<Rightarrow> u32 list \<Rightarrow> u32 list option" where
  "patch_loop [] fill base out = Some out"
| "patch_loop (h # hs) fill base out = do {
     let i = base + unat (h_word h);
     w \<leftarrow> at_index out i;
     w' \<leftarrow> patch w h fill;
     patch_loop hs fill base (out[i := w']) }"

text \<open>The words of a list of instructions; an encoder error panics.\<close>

fun encode_all :: "Inst list \<Rightarrow> u32 list option" where
  "encode_all [] = Some []"
| "encode_all (i # is) =
     (case encode i of Inl e \<Rightarrow> None | Inr w \<Rightarrow> map_option (Cons w) (encode_all is))"

end
