(* ===== verification/Stencil_Int.thy ===== *)
theory Stencil_Int
  imports Stencil_Code
begin

text \<open>
  The integer stencils (\<^verbatim>\<open>fors-codegen-dev/src/stencil/int.rs\<close>): one body per operation, mode and type,
  as a builder over \<open>Seq\<close>, and the table of all stencils (\<^verbatim>\<open>stencil.rs\<close>). Register numbers passed to
  \<^verbatim>\<open>x\<close> and \<^verbatim>\<open>w\<close> are at most 30 in this file, so the panics of \<^verbatim>\<open>Reg::x\<close> and \<^verbatim>\<open>Reg::w\<close> are unreachable and
  the two are total here (\<open>xr_eq\<close>, \<open>wr_eq\<close>).
\<close>

section \<open>Types and keys\<close>

datatype LowTy =
    Low_I8 | Low_I16 | Low_I32 | Low_I64 | Low_U8 | Low_U16 | Low_U32 | Low_U64
  | Low_Bool | Low_Unit | Low_Str

datatype IntTy = T_I8 | T_I16 | T_I32 | T_I64 | T_U8 | T_U16 | T_U32 | T_U64

definition int_tys :: "IntTy list" where
  "int_tys = [T_I8, T_I16, T_I32, T_I64, T_U8, T_U16, T_U32, T_U64]"

fun int_ty_of :: "LowTy \<Rightarrow> IntTy option" where
  "int_ty_of Low_I8 = Some T_I8" | "int_ty_of Low_I16 = Some T_I16"
| "int_ty_of Low_I32 = Some T_I32" | "int_ty_of Low_I64 = Some T_I64"
| "int_ty_of Low_U8 = Some T_U8" | "int_ty_of Low_U16 = Some T_U16"
| "int_ty_of Low_U32 = Some T_U32" | "int_ty_of Low_U64 = Some T_U64"
| "int_ty_of _ = None"

fun ty_width :: "IntTy \<Rightarrow> nat" where
  "ty_width T_I8 = 8" | "ty_width T_U8 = 8"
| "ty_width T_I16 = 16" | "ty_width T_U16 = 16"
| "ty_width T_I32 = 32" | "ty_width T_U32 = 32"
| "ty_width T_I64 = 64" | "ty_width T_U64 = 64"

fun ty_signed :: "IntTy \<Rightarrow> bool" where
  "ty_signed T_I8 = True" | "ty_signed T_I16 = True" | "ty_signed T_I32 = True" | "ty_signed T_I64 = True"
| "ty_signed T_U8 = False" | "ty_signed T_U16 = False" | "ty_signed T_U32 = False" | "ty_signed T_U64 = False"

definition ty_narrow :: "IntTy \<Rightarrow> bool" where
  "ty_narrow ty \<longleftrightarrow> ty_width ty < 64"

definition ty_lo :: "IntTy \<Rightarrow> u64" where
  "ty_lo ty = (if ty_signed ty then word_of_int (- (2 ^ (ty_width ty - 1))) else 0)"

definition ty_hi :: "IntTy \<Rightarrow> u64" where
  "ty_hi ty = (let w = ty_width ty
     in if ty_signed ty then ucast (push_bit (w - 1) 1 - 1 :: u128)
        else if w = 64 then - 1 else push_bit w 1 - 1)"

fun ty_ext :: "IntTy \<Rightarrow> ExtendKind option" where
  "ty_ext T_I8 = Some Sxtb" | "ty_ext T_I16 = Some Sxth" | "ty_ext T_I32 = Some Sxtw"
| "ty_ext T_U8 = Some Uxtb" | "ty_ext T_U16 = Some Uxth" | "ty_ext T_U32 = Some Uxtw"
| "ty_ext T_I64 = None" | "ty_ext T_U64 = None"

datatype RawExt = RX_None | RX_B | RX_H | RX_W

fun raw_ext :: "IntTy \<Rightarrow> RawExt" where
  "raw_ext T_I8 = RX_B" | "raw_ext T_I16 = RX_H" | "raw_ext T_I32 = RX_W" | "raw_ext _ = RX_None"

datatype ArMode = M_Trap | M_Wrap | M_Sat
datatype BinOp = B_Add | B_Sub | B_Mul | B_Div | B_Rem
datatype ShiftOp = S_Shl | S_Shr
datatype LogicOp = L_And | L_Or | L_Xor
datatype ConvOp = C_Checked | C_Wrap | C_Sat
datatype Pred = P_Eq | P_Ne | P_Lt | P_Le | P_Gt | P_Ge

definition preds :: "Pred list" where "preds = [P_Eq, P_Ne, P_Lt, P_Le, P_Gt, P_Ge]"

fun pred_of :: "CmpPred \<Rightarrow> Pred" where
  "pred_of Cmp_Eq = P_Eq" | "pred_of Cmp_Ne = P_Ne" | "pred_of Cmp_Lt = P_Lt"
| "pred_of Cmp_Le = P_Le" | "pred_of Cmp_Gt = P_Gt" | "pred_of Cmp_Ge = P_Ge"

definition cond_EQ :: Cond where "cond_EQ = Cond 0b0000"
definition cond_NE :: Cond where "cond_NE = Cond 0b0001"
definition cond_CS :: Cond where "cond_CS = Cond 0b0010"
definition cond_CC :: Cond where "cond_CC = Cond 0b0011"
definition cond_VS :: Cond where "cond_VS = Cond 0b0110"
definition cond_VC :: Cond where "cond_VC = Cond 0b0111"
definition cond_HI :: Cond where "cond_HI = Cond 0b1000"
definition cond_LS :: Cond where "cond_LS = Cond 0b1001"
definition cond_GE :: Cond where "cond_GE = Cond 0b1010"
definition cond_LT :: Cond where "cond_LT = Cond 0b1011"
definition cond_GT :: Cond where "cond_GT = Cond 0b1100"
definition cond_LE :: Cond where "cond_LE = Cond 0b1101"

fun pred_cond :: "Pred \<Rightarrow> bool \<Rightarrow> Cond" where
  "pred_cond P_Eq _ = cond_EQ"
| "pred_cond P_Ne _ = cond_NE"
| "pred_cond P_Lt True = cond_LT"
| "pred_cond P_Le True = cond_LE"
| "pred_cond P_Gt True = cond_GT"
| "pred_cond P_Ge True = cond_GE"
| "pred_cond P_Lt False = cond_CC"
| "pred_cond P_Le False = cond_LS"
| "pred_cond P_Gt False = cond_HI"
| "pred_cond P_Ge False = cond_CS"

datatype Key =
    K_Const
  | K_Copy
  | K_Bin BinOp ArMode IntTy
  | K_Shift ShiftOp ArMode IntTy RawExt
  | K_Neg ArMode IntTy
  | K_Logic LogicOp
  | K_Not IntTy
  | K_NotBool
  | K_Icmp Pred bool
  | K_Conv ConvOp IntTy IntTy
  | K_WriteUint RawExt
  | K_WriteLine
  | K_Prologue
  | K_Epilogue
  | K_TrapJump u8
  | K_Brk u8

definition all_keys :: "Key list" where
  "all_keys =
     [K_Const, K_Copy, K_NotBool, K_WriteLine, K_Prologue, K_Epilogue]
     @ concat (map (\<lambda>ty.
         concat (map (\<lambda>mode.
           map (\<lambda>op. K_Bin op mode ty) [B_Add, B_Sub, B_Mul, B_Div, B_Rem]
           @ concat (map (\<lambda>op. map (\<lambda>count. K_Shift op mode ty count) [RX_None, RX_B, RX_H, RX_W]) [S_Shl, S_Shr])
           @ (if ty_signed ty \<or> mode = M_Wrap then [K_Neg mode ty] else []))
           [M_Trap, M_Wrap, M_Sat])
         @ [K_Not ty]
         @ concat (map (\<lambda>to. map (\<lambda>op. K_Conv op ty to) [C_Checked, C_Wrap, C_Sat]) int_tys))
         int_tys)
     @ map K_Logic [L_And, L_Or, L_Xor]
     @ concat (map (\<lambda>pred. map (K_Icmp pred) [True, False]) preds)
     @ map K_WriteUint [RX_None, RX_B, RX_H, RX_W]
     @ concat (map (\<lambda>kind. [K_TrapJump (word_of_nat kind), K_Brk (word_of_nat kind)]) [0..<8])"

section \<open>Registers and helpers\<close>

definition rA :: u8 where "rA = 10"
definition rB :: u8 where "rB = 11"
definition rR :: u8 where "rR = 12"
definition rT1 :: u8 where "rT1 = 13"
definition rT2 :: u8 where "rT2 = 14"
definition rT3 :: u8 where "rT3 = 15"

definition xr :: "u8 \<Rightarrow> Reg" where "xr n = \<lparr>num = n, is64 = True, sp_flag = False\<rparr>"
definition wr :: "u8 \<Rightarrow> Reg" where "wr n = \<lparr>num = n, is64 = False, sp_flag = False\<rparr>"

lemma xr_eq: "n \<le> 30 \<Longrightarrow> reg_x n = Some (xr n)"
  by (simp add: reg_x_def xr_def)

lemma wr_eq: "n \<le> 30 \<Longrightarrow> reg_w n = Some (wr n)"
  by (simp add: reg_w_def wr_def)

definition none :: RegShift where "none = reg_shift_none"

definition trap_kind_from_u32 :: "u32 \<Rightarrow> TrapKind option" where
  "trap_kind_from_u32 v =
     at_index [Bounds, Overflow, DivZero, Shift, CheckedConversion, ArenaGeneration, Contract, EmptyReduce]
       (unat v)"

definition trap_kind :: "u8 \<Rightarrow> TrapKind option" where
  "trap_kind k = trap_kind_from_u32 (ucast k)"

text \<open>The loop of \<^verbatim>\<open>mov_imm\<close> over the halves, which skips \<^verbatim>\<open>first\<close> and those equal to \<open>skip\<close>.\<close>

fun movk_loop :: "(nat \<times> u16) list \<Rightarrow> u8 \<Rightarrow> nat \<Rightarrow> u16 \<Rightarrow> Seq \<Rightarrow> Seq option" where
  "movk_loop [] rd first skip s = Some s"
| "movk_loop ((i, h) # hs) rd first skip s = do {
     s \<leftarrow> (if i \<noteq> first \<and> h \<noteq> skip then seq_i (inst_movk (xr rd) h (word_of_nat (16 * i))) s else Some s);
     movk_loop hs rd first skip s }"

definition halves_of :: "u64 \<Rightarrow> u16 list" where
  "halves_of v = map (\<lambda>i. ucast (drop_bit (16 * i) v)) [0..<4]"

definition unwrap_or :: "'a option \<Rightarrow> 'a \<Rightarrow> 'a" where
  "unwrap_or m d = (case m of Some v \<Rightarrow> v | None \<Rightarrow> d)"

definition mov_imm :: "u8 \<Rightarrow> u64 \<Rightarrow> Seq \<Rightarrow> Seq option" where
  "mov_imm rd v s =
     (let halves = halves_of v;
          zeros = length (filter (\<lambda>h. h = 0) halves);
          ones = length (filter (\<lambda>h. h = 0xFFFF) halves)
      in if ones > zeros
         then let first = unwrap_or (position (\<lambda>h. h \<noteq> 0xFFFF) halves) 0
              in do {
                s \<leftarrow> seq_i (inst_movn (xr rd) (NOT (halves ! first)) (word_of_nat (16 * first))) s;
                movk_loop (enumerate 0 halves) rd first 0xFFFF s }
         else let first = unwrap_or (position (\<lambda>h. h \<noteq> 0) halves) 0
              in do {
                s \<leftarrow> seq_i (inst_movz (xr rd) (halves ! first) (word_of_nat (16 * first))) s;
                movk_loop (enumerate 0 halves) rd first 0 s })"

definition canon :: "u8 \<Rightarrow> u8 \<Rightarrow> IntTy \<Rightarrow> Seq \<Rightarrow> Seq option" where
  "canon rd rn ty s =
     (case ty of
        T_I8 \<Rightarrow> seq_i (inst_sxtb (xr rd) (xr rn)) s
      | T_I16 \<Rightarrow> seq_i (inst_sxth (xr rd) (xr rn)) s
      | T_I32 \<Rightarrow> seq_i (inst_sxtw (xr rd) (wr rn)) s
      | T_U8 \<Rightarrow> seq_i (inst_uxtb (wr rd) (wr rn)) s
      | T_U16 \<Rightarrow> seq_i (inst_uxth (wr rd) (wr rn)) s
      | T_U32 \<Rightarrow> seq_i (inst_mov_reg (wr rd) (wr rn)) s
      | T_I64 \<Rightarrow> if rd \<noteq> rn then seq_i (inst_mov_reg (xr rd) (xr rn)) s else Some s
      | T_U64 \<Rightarrow> if rd \<noteq> rn then seq_i (inst_mov_reg (xr rd) (xr rn)) s else Some s)"

definition raw :: "u8 \<Rightarrow> u8 \<Rightarrow> RawExt \<Rightarrow> Seq \<Rightarrow> Seq option" where
  "raw rd rn e s =
     (case e of
        RX_B \<Rightarrow> seq_i (inst_uxtb (wr rd) (wr rn)) s
      | RX_H \<Rightarrow> seq_i (inst_uxth (wr rd) (wr rn)) s
      | RX_W \<Rightarrow> seq_i (inst_mov_reg (wr rd) (wr rn)) s
      | RX_None \<Rightarrow> if rd \<noteq> rn then seq_i (inst_mov_reg (xr rd) (xr rn)) s else Some s)"

definition fits_or_trap :: "u8 \<Rightarrow> IntTy \<Rightarrow> TrapKind \<Rightarrow> Seq \<Rightarrow> Seq option" where
  "fits_or_trap r ty kind s = do {
     e \<leftarrow> ty_ext ty;
     s \<leftarrow> seq_i (bindR (reg_extend_new e 0) (\<lambda>e. inst_cmp_extended (xr r) (wr r) e)) s;
     trap_if cond_NE kind s }"

definition clamp_signed :: "IntTy \<Rightarrow> Seq \<Rightarrow> Seq option" where
  "clamp_signed ty s = do {
     s \<leftarrow> mov_imm rT1 (ty_hi ty) s;
     s \<leftarrow> seq_i (inst_cmp_shifted (xr rR) (xr rT1) none) s;
     s \<leftarrow> seq_i (inst_csel (xr rR) (xr rT1) (xr rR) cond_GT) s;
     s \<leftarrow> mov_imm rT1 (ty_lo ty) s;
     s \<leftarrow> seq_i (inst_cmp_shifted (xr rR) (xr rT1) none) s;
     seq_i (inst_csel (xr rR) (xr rT1) (xr rR) cond_LT) s }"

definition clamp_hi_unsigned :: "u64 \<Rightarrow> Seq \<Rightarrow> Seq option" where
  "clamp_hi_unsigned hi s = do {
     s \<leftarrow> mov_imm rT1 hi s;
     s \<leftarrow> seq_i (inst_cmp_shifted (xr rR) (xr rT1) none) s;
     seq_i (inst_csel (xr rR) (xr rT1) (xr rR) cond_HI) s }"

definition clamp_zero :: "Seq \<Rightarrow> Seq option" where
  "clamp_zero s = do {
     s \<leftarrow> seq_i (bindR (uimm12_new 0) (\<lambda>i. inst_cmp_imm (xr rR) i)) s;
     seq_i (inst_csel (xr rR) reg_xzr (xr rR) cond_LT) s }"

definition sat_by_sign :: "u8 \<Rightarrow> u8 \<Rightarrow> Seq \<Rightarrow> Seq option" where
  "sat_by_sign rd from s = do {
     s \<leftarrow> seq_i (inst_asr_imm (xr rd) (xr from) 63) s;
     seq_i (bindR (logical_imm_new 0x7FFFFFFFFFFFFFFF True) (\<lambda>m. inst_eor_imm (xr rd) (xr rd) m)) s }"

definition load_ab :: "Seq \<Rightarrow> Seq option" where
  "load_ab s = do { s \<leftarrow> ldr_slot rA SlotA s; ldr_slot rB SlotB s }"

definition store_r :: "Seq \<Rightarrow> Seq option" where
  "store_r s = str_slot rR SlotDst s"

definition min_by_minus_one :: "int \<Rightarrow> Seq \<Rightarrow> Seq option" where
  "min_by_minus_one skip_to_after_vs s = do {
     s \<leftarrow> seq_i (bindR (uimm12_new 1) (\<lambda>i. inst_cmn_imm (xr rB) i)) s;
     s \<leftarrow> b_cond_local cond_NE skip_to_after_vs s;
     seq_i (inst_negs reg_xzr (xr rA) none) s }"

section \<open>Bodies\<close>

definition add_sub_inst :: "bool \<Rightarrow> inst_result" where
  "add_sub_inst add =
     (if add then inst_add_shifted (xr rR) (xr rA) (xr rB) none
      else inst_sub_shifted (xr rR) (xr rA) (xr rB) none)"

definition bin_add_sub :: "bool \<Rightarrow> ArMode \<Rightarrow> IntTy \<Rightarrow> Seq \<Rightarrow> Seq option" where
  "bin_add_sub add mode ty s =
     (let signed = ty_signed ty
      in if ty_narrow ty
         then do {
           s \<leftarrow> seq_i (add_sub_inst add) s;
           (case mode of
              M_Wrap \<Rightarrow> canon rR rR ty s
            | M_Trap \<Rightarrow> fits_or_trap rR ty Overflow s
            | M_Sat \<Rightarrow> if signed then clamp_signed ty s
                       else if add then clamp_hi_unsigned (ty_hi ty) s
                       else clamp_zero s) }
         else if mode = M_Wrap then seq_i (add_sub_inst add) s
         else do {
           s \<leftarrow> seq_i (if add then inst_adds_shifted (xr rR) (xr rA) (xr rB) none
                       else inst_subs_shifted (xr rR) (xr rA) (xr rB) none) s;
           if mode = M_Trap
           then (if signed then trap_if cond_VS Overflow s
                 else if add then trap_if cond_CS Overflow s
                 else trap_if cond_CC Overflow s)
           else (if signed then do {
                   s \<leftarrow> sat_by_sign rT1 rA s;
                   seq_i (inst_csel (xr rR) (xr rT1) (xr rR) cond_VS) s }
                 else if add then seq_i (inst_csinv (xr rR) (xr rR) reg_xzr cond_CC) s
                 else seq_i (inst_csel (xr rR) (xr rR) reg_xzr cond_CS) s) })"

definition cmp_high_half :: inst_result where
  "cmp_high_half = bindR (reg_shift_new Asr 63 True) (\<lambda>sh. inst_cmp_shifted (xr rT1) (xr rR) sh)"

definition bin_mul :: "ArMode \<Rightarrow> IntTy \<Rightarrow> Seq \<Rightarrow> Seq option" where
  "bin_mul mode ty s =
     (let signed = ty_signed ty
      in if ty_narrow ty
         then do {
           s \<leftarrow> seq_i (inst_mul (xr rR) (xr rA) (xr rB)) s;
           (case mode of
              M_Wrap \<Rightarrow> canon rR rR ty s
            | M_Trap \<Rightarrow> fits_or_trap rR ty Overflow s
            | M_Sat \<Rightarrow> if signed then clamp_signed ty s else clamp_hi_unsigned (ty_hi ty) s) }
         else case mode of
           M_Wrap \<Rightarrow> seq_i (inst_mul (xr rR) (xr rA) (xr rB)) s
         | M_Trap \<Rightarrow>
             if signed then do {
               s \<leftarrow> seq_i (inst_mul (xr rR) (xr rA) (xr rB)) s;
               s \<leftarrow> seq_i (inst_smulh (xr rT1) (xr rA) (xr rB)) s;
               s \<leftarrow> seq_i cmp_high_half s;
               trap_if cond_NE Overflow s }
             else do {
               s \<leftarrow> seq_i (inst_umulh (xr rT1) (xr rA) (xr rB)) s;
               s \<leftarrow> trap_cbnz (xr rT1) Overflow s;
               seq_i (inst_mul (xr rR) (xr rA) (xr rB)) s }
         | M_Sat \<Rightarrow>
             if signed then do {
               s \<leftarrow> seq_i (inst_mul (xr rR) (xr rA) (xr rB)) s;
               s \<leftarrow> seq_i (inst_smulh (xr rT1) (xr rA) (xr rB)) s;
               s \<leftarrow> seq_i cmp_high_half s;
               s \<leftarrow> seq_i (inst_eor_shifted (xr rT2) (xr rA) (xr rB) none) s;
               s \<leftarrow> sat_by_sign rT2 rT2 s;
               seq_i (inst_csel (xr rR) (xr rR) (xr rT2) cond_EQ) s }
             else do {
               s \<leftarrow> seq_i (inst_umulh (xr rT1) (xr rA) (xr rB)) s;
               s \<leftarrow> seq_i (inst_mul (xr rR) (xr rA) (xr rB)) s;
               s \<leftarrow> seq_i (bindR (uimm12_new 0) (\<lambda>i. inst_cmp_imm (xr rT1) i)) s;
               seq_i (inst_csinv (xr rR) (xr rR) reg_xzr cond_EQ) s })"

text \<open>The pair \<^verbatim>\<open>sdiv x13\<close> (or \<^verbatim>\<open>udiv\<close>), \<^verbatim>\<open>msub x12\<close> that ends every remainder.\<close>

definition rem_msub :: "Seq \<Rightarrow> Seq option" where
  "rem_msub s = seq_i (inst_msub (xr rR) (xr rT1) (xr rB) (xr rA)) s"

definition bin_div_rem :: "bool \<Rightarrow> ArMode \<Rightarrow> IntTy \<Rightarrow> Seq \<Rightarrow> Seq option" where
  "bin_div_rem dv mode ty s = do {
     s \<leftarrow> trap_cbz (xr rB) DivZero s;
     if \<not> ty_signed ty
     then (if dv then seq_i (inst_udiv (xr rR) (xr rA) (xr rB)) s
           else do { s \<leftarrow> seq_i (inst_udiv (xr rT1) (xr rA) (xr rB)) s; rem_msub s })
     else if ty_narrow ty
     then (if dv
           then do {
             s \<leftarrow> seq_i (inst_sdiv (xr rR) (xr rA) (xr rB)) s;
             (case mode of M_Trap \<Rightarrow> fits_or_trap rR ty Overflow s
              | M_Wrap \<Rightarrow> canon rR rR ty s | M_Sat \<Rightarrow> clamp_signed ty s) }
           else do {
             s \<leftarrow> seq_i (inst_sdiv (xr rT1) (xr rA) (xr rB)) s;
             s \<leftarrow> (if mode = M_Trap then fits_or_trap rT1 ty Overflow s else Some s);
             rem_msub s })
     else if mode = M_Trap
     then do {
       s \<leftarrow> min_by_minus_one 3 s;
       s \<leftarrow> trap_if cond_VS Overflow s;
       if dv then seq_i (inst_sdiv (xr rR) (xr rA) (xr rB)) s
       else do { s \<leftarrow> seq_i (inst_sdiv (xr rT1) (xr rA) (xr rB)) s; rem_msub s } }
     else if mode = M_Sat \<and> dv
     then do {
       s \<leftarrow> seq_i (inst_sdiv (xr rR) (xr rA) (xr rB)) s;
       s \<leftarrow> min_by_minus_one 4 s;
       s \<leftarrow> b_cond_local cond_VC 2 s;
       mov_imm rR 0x7FFFFFFFFFFFFFFF s }
     else if dv then seq_i (inst_sdiv (xr rR) (xr rA) (xr rB)) s
     else do { s \<leftarrow> seq_i (inst_sdiv (xr rT1) (xr rA) (xr rB)) s; rem_msub s } }"

definition bin :: "BinOp \<Rightarrow> ArMode \<Rightarrow> IntTy \<Rightarrow> Seq \<Rightarrow> Seq option" where
  "bin op mode ty s =
     (case op of
        B_Add \<Rightarrow> bin_add_sub True mode ty s
      | B_Sub \<Rightarrow> bin_add_sub False mode ty s
      | B_Mul \<Rightarrow> bin_mul mode ty s
      | B_Div \<Rightarrow> bin_div_rem True mode ty s
      | B_Rem \<Rightarrow> bin_div_rem False mode ty s)"

definition shift :: "ShiftOp \<Rightarrow> ArMode \<Rightarrow> IntTy \<Rightarrow> Seq \<Rightarrow> Seq option" where
  "shift op mode ty s =
     (let signed = ty_signed ty
      in if op = S_Shr
         then seq_i (if signed then inst_asrv (xr rR) (xr rA) (xr rT1) else inst_lsrv (xr rR) (xr rA) (xr rT1)) s
         else if mode \<noteq> M_Sat
         then do { s \<leftarrow> seq_i (inst_lslv (xr rR) (xr rA) (xr rT1)) s; canon rR rR ty s }
         else do {
           s \<leftarrow> seq_i (inst_lslv (xr rR) (xr rA) (xr rT1)) s;
           if ty_narrow ty
           then (if signed then clamp_signed ty s else clamp_hi_unsigned (ty_hi ty) s)
           else if signed
           then do {
             s \<leftarrow> seq_i (inst_asrv (xr rT2) (xr rR) (xr rT1)) s;
             s \<leftarrow> seq_i (inst_cmp_shifted (xr rT2) (xr rA) none) s;
             s \<leftarrow> sat_by_sign rT3 rA s;
             seq_i (inst_csel (xr rR) (xr rR) (xr rT3) cond_EQ) s }
           else do {
             s \<leftarrow> seq_i (inst_lsrv (xr rT2) (xr rR) (xr rT1)) s;
             s \<leftarrow> seq_i (inst_cmp_shifted (xr rT2) (xr rA) none) s;
             seq_i (inst_csinv (xr rR) (xr rR) reg_xzr cond_EQ) s } })"

definition neg :: "ArMode \<Rightarrow> IntTy \<Rightarrow> Seq \<Rightarrow> Seq option" where
  "neg mode ty s =
     (if ty_narrow ty
      then do {
        s \<leftarrow> seq_i (inst_neg (xr rR) (xr rA) none) s;
        (case mode of
           M_Wrap \<Rightarrow> canon rR rR ty s
         | M_Trap \<Rightarrow> fits_or_trap rR ty Overflow s
         | M_Sat \<Rightarrow> clamp_signed ty s) }
      else case mode of
        M_Wrap \<Rightarrow> seq_i (inst_neg (xr rR) (xr rA) none) s
      | M_Trap \<Rightarrow> do {
          s \<leftarrow> seq_i (inst_negs (xr rR) (xr rA) none) s;
          trap_if cond_VS Overflow s }
      | M_Sat \<Rightarrow> do {
          s \<leftarrow> seq_i (inst_negs (xr rR) (xr rA) none) s;
          seq_i (inst_csinv (xr rR) (xr rR) (xr rR) cond_VC) s })"

definition conv :: "ConvOp \<Rightarrow> IntTy \<Rightarrow> IntTy \<Rightarrow> Seq \<Rightarrow> Seq option" where
  "conv op from to s =
     (case op of
        C_Wrap \<Rightarrow> canon rR rA to s
      | C_Checked \<Rightarrow> do {
          s \<leftarrow> canon rR rA to s;
          s \<leftarrow> seq_i (inst_cmp_shifted (xr rR) (xr rA) none) s;
          s \<leftarrow> trap_if cond_NE CheckedConversion s;
          if ty_signed from \<noteq> ty_signed to then trap_tbnz (xr rA) 63 CheckedConversion s else Some s }
      | C_Sat \<Rightarrow> do {
          s \<leftarrow> seq_i (inst_mov_reg (xr rR) (xr rA)) s;
          if ty_signed from \<and> ty_signed to then clamp_signed to s
          else if \<not> ty_signed from \<and> \<not> ty_signed to then clamp_hi_unsigned (ty_hi to) s
          else if ty_signed from then do { s \<leftarrow> clamp_zero s; clamp_hi_unsigned (ty_hi to) s }
          else clamp_hi_unsigned (ty_hi to) s })"

definition TRAP_BRK_BASE :: u16 where "TRAP_BRK_BASE = 0x4600"

definition brk_imm :: "u16 \<Rightarrow> u16 option" where
  "brk_imm kind = (if kind < 8 then Some (TRAP_BRK_BASE + kind) else None)"

text \<open>\<^verbatim>\<open>SImm7Scaled::new(n, 8).and_then(..)\<close>: the access size is not zero, so the constructor does not panic.\<close>

definition pair_inst :: "int \<Rightarrow> (SImm7Scaled \<Rightarrow> inst_result) \<Rightarrow> Seq \<Rightarrow> Seq option" where
  "pair_inst n f s = do { m \<leftarrow> simm7_new n 8; seq_i (bindR m f) s }"

definition body :: "Key \<Rightarrow> Seq \<Rightarrow> Seq option" where
  "body key s =
     (case key of
        K_Const \<Rightarrow> do {
          s \<leftarrow> movz_imm (xr rR) 0 0 s;
          s \<leftarrow> movk_imm (xr rR) 1 16 s;
          s \<leftarrow> movk_imm (xr rR) 2 32 s;
          s \<leftarrow> movk_imm (xr rR) 3 48 s;
          store_r s }
      | K_Copy \<Rightarrow> do { s \<leftarrow> ldr_slot rA SlotA s; str_slot rA SlotDst s }
      | K_Bin op mode ty \<Rightarrow> do { s \<leftarrow> load_ab s; s \<leftarrow> bin op mode ty s; store_r s }
      | K_Shift op mode ty count \<Rightarrow> do {
          s \<leftarrow> load_ab s;
          s \<leftarrow> raw rT1 rB count s;
          s \<leftarrow> seq_i (bindR (uimm12_new (word_of_nat (ty_width ty))) (\<lambda>i. inst_cmp_imm (xr rT1) i)) s;
          s \<leftarrow> trap_if cond_CS Shift s;
          s \<leftarrow> shift op mode ty s;
          store_r s }
      | K_Neg mode ty \<Rightarrow> do { s \<leftarrow> ldr_slot rA SlotA s; s \<leftarrow> neg mode ty s; store_r s }
      | K_Logic op \<Rightarrow> do {
          s \<leftarrow> load_ab s;
          s \<leftarrow> seq_i (case op of
                 L_And \<Rightarrow> inst_and_shifted (xr rR) (xr rA) (xr rB) none
               | L_Or \<Rightarrow> inst_orr_shifted (xr rR) (xr rA) (xr rB) none
               | L_Xor \<Rightarrow> inst_eor_shifted (xr rR) (xr rA) (xr rB) none) s;
          store_r s }
      | K_Not ty \<Rightarrow> do {
          s \<leftarrow> ldr_slot rA SlotA s;
          s \<leftarrow> seq_i (inst_mvn (xr rR) (xr rA) none) s;
          s \<leftarrow> (if \<not> ty_signed ty then canon rR rR ty s else Some s);
          store_r s }
      | K_NotBool \<Rightarrow> do {
          s \<leftarrow> ldr_slot rA SlotA s;
          s \<leftarrow> seq_i (bindR (logical_imm_new 1 True) (\<lambda>m. inst_eor_imm (xr rR) (xr rA) m)) s;
          store_r s }
      | K_Icmp pred sg \<Rightarrow> do {
          s \<leftarrow> load_ab s;
          s \<leftarrow> seq_i (inst_cmp_shifted (xr rA) (xr rB) none) s;
          s \<leftarrow> seq_i (inst_cset (xr rR) (pred_cond pred sg)) s;
          store_r s }
      | K_Conv op from to \<Rightarrow> do { s \<leftarrow> ldr_slot rA SlotA s; s \<leftarrow> conv op from to s; store_r s }
      | K_WriteUint ext \<Rightarrow> do {
          s \<leftarrow> ldr_slot 0 SlotA s;
          s \<leftarrow> raw 0 0 ext s;
          seq_bl Rt_WriteUint s }
      | K_WriteLine \<Rightarrow> do {
          s \<leftarrow> adr_lit (xr 0) s;
          s \<leftarrow> movz_imm (xr 1) 0 0 s;
          s \<leftarrow> movk_imm (xr 1) 1 16 s;
          seq_bl Rt_WriteLine s }
      | K_Prologue \<Rightarrow> do {
          s \<leftarrow> pair_inst (- 16) (\<lambda>o'. inst_stp (xr 29) (xr 30) reg_sp o' PI_PreIndex) s;
          s \<leftarrow> seq_i (inst_mov_sp (xr 29) reg_sp) s;
          s \<leftarrow> movz_imm (xr rA) 0 0 s;
          seq_i (bindR (reg_extend_new Uxtx 0) (\<lambda>e. inst_sub_extended reg_sp reg_sp (xr rA) e)) s }
      | K_Epilogue \<Rightarrow> do {
          s \<leftarrow> seq_i (inst_mov_sp reg_sp (xr 29)) s;
          s \<leftarrow> pair_inst 16 (\<lambda>o'. inst_ldp (xr 29) (xr 30) reg_sp o' PI_PostIndex) s;
          seq_i (inst_ret (xr 30)) s }
      | K_TrapJump kind \<Rightarrow> do { k \<leftarrow> trap_kind kind; trap_always k s }
      | K_Brk kind \<Rightarrow> do { i \<leftarrow> brk_imm (ucast kind); Some (seq_fixed (inst_brk i) s) })"

section \<open>The table\<close>

record Stencil =
  st_key :: Key
  st_words :: "u32 list"
  st_holes :: "Hole list"
  st_sites :: "TrapKind list"
  st_calls :: "RtSym option"

definition build :: "Key \<Rightarrow> Fill \<Rightarrow> (u32 list \<times> Seq) option" where
  "build key fill = do {
     s \<leftarrow> body key (seq_new fill);
     words \<leftarrow> encode_all (insts s);
     Some (words, s) }"

fun find_call :: "Hole list \<Rightarrow> RtSym option" where
  "find_call [] = None"
| "find_call (h # hs) = (case h_field h of F_Call c \<Rightarrow> Some c | _ \<Rightarrow> find_call hs)"

definition from_key :: "Key \<Rightarrow> Stencil option" where
  "from_key key = do {
     (words, s) \<leftarrow> build key placeholder;
     Some \<lparr>st_key = key, st_words = words, st_holes = holes s, st_sites = sites s,
           st_calls = find_call (holes s)\<rparr> }"

definition instantiate_into :: "Stencil \<Rightarrow> Fill \<Rightarrow> u32 list \<Rightarrow> u32 list option" where
  "instantiate_into st fill out =
     (let base = length out in patch_loop (st_holes st) fill base (out @ st_words st))"

definition instantiate :: "Stencil \<Rightarrow> Fill \<Rightarrow> u32 list option" where
  "instantiate st fill = instantiate_into st fill []"

record Table =
  stencils :: "Stencil list"
  tb_index :: "Key \<Rightarrow> u32 option"

fun table_loop :: "Key list \<Rightarrow> Table \<Rightarrow> Table option" where
  "table_loop [] t = Some t"
| "table_loop (key # keys) t = do {
     st \<leftarrow> from_key key;
     table_loop keys (t\<lparr>stencils := stencils t @ [st],
       tb_index := (tb_index t)(key \<mapsto> word_of_nat (length (stencils t)))\<rparr>) }"

definition table :: "Table option" where
  "table = table_loop all_keys \<lparr>stencils = [], tb_index = Map.empty\<rparr>"

definition table_id :: "Table \<Rightarrow> Key \<Rightarrow> u32 option" where
  "table_id t key = tb_index t key"

definition table_get :: "Table \<Rightarrow> Key \<Rightarrow> Stencil option" where
  "table_get t key = Option.bind (tb_index t key) (\<lambda>i. at_index (stencils t) (unat i))"

end
