(* ===== verification/Stencil_Logic.thy ===== *)
theory Stencil_Logic
  imports Stencil_Int
begin

text \<open>
  Reasoning about stencil bodies. Every body is composed from the builder methods by sequencing and
  case distinction, so a judgement that holds of the methods and is closed under sequencing holds of
  every body: the locale \<open>builder\<close> derives this once, with a bound on the number of instructions.
\<close>

section \<open>The constructors succeed on the operands of the stencils\<close>

lemma xr_simps [simp]:
  "is64 (xr n)" "\<not> is64 (wr n)" "\<not> is_sp (xr n)" "\<not> is_sp (wr n)" "num (xr n) = n" "num (wr n) = n"
  by (simp_all add: xr_def wr_def is_sp_def)

lemma xr_not_zr [simp]: "n \<le> 30 \<Longrightarrow> \<not> is_zr (xr n)" "n \<le> 30 \<Longrightarrow> \<not> is_zr (wr n)"
  by (auto simp: xr_def wr_def is_zr_def)

lemma none_kind [simp]: "sh_kind none = Lsl" "sh_amount none = 0"
  by (simp_all add: none_def reg_shift_none_def)

lemma reg_num_le [simp]: "rA \<le> 30" "rB \<le> 30" "rR \<le> 30" "rT1 \<le> 30" "rT2 \<le> 30" "rT3 \<le> 30"
  by (simp_all add: rA_def rB_def rR_def rT1_def rT2_def rT3_def)

lemma logical_imm_new_eqs:
  "is_ok (logical_imm_new 1 True)" "is_ok (logical_imm_new 0x7FFFFFFFFFFFFFFF True)"
proof -
  have d: "decode_bitmask 1 0 0 64 = Some 1" "decode_bitmask 1 0 62 64 = Some 0x7FFFFFFFFFFFFFFF"
    by code_simp+
  have "\<exists>c'. encode_bitmask 1 64 = Some c'" "\<exists>c'. encode_bitmask 0x7FFFFFFFFFFFFFFF 64 = Some c'"
    using bm64.enc_complete [of "(1, 0, 0)" 1] bm64.enc_complete [of "(1, 0, 62)" "0x7FFFFFFFFFFFFFFF"] d
    by (auto simp: mem_triples)
  then show "is_ok (logical_imm_new 1 True)" "is_ok (logical_imm_new 0x7FFFFFFFFFFFFFFF True)"
    by (auto simp: logical_imm_new_def)
qed

lemma logical_imm_new_True:
  "logical_imm_new v True = Inr m \<Longrightarrow>
     li_is64 m \<and> li_value m = v \<and> decode_bitmask (li_n m) (li_immr m) (li_imms m) 64 = Some v"
  by (auto simp: logical_imm_new_def dest!: bm64.enc_sound split: option.splits)

lemmas ctor_defs =
  inst_movz_def inst_movn_def inst_movk_def mov_wide_def
  inst_cmp_imm_def inst_cmn_imm_def add_sub_imm_common_def uimm12_new_def
  inst_add_shifted_def inst_adds_shifted_def inst_sub_shifted_def inst_subs_shifted_def
  inst_cmp_shifted_def inst_neg_def inst_negs_def add_sub_shifted_def
  inst_cmp_extended_def inst_sub_extended_def add_sub_extended_def reg_extend_new_def
  inst_and_shifted_def inst_orr_shifted_def inst_eor_shifted_def inst_mvn_def inst_mov_reg_def
  logical_shifted_def inst_sxtb_def inst_sxth_def inst_sxtw_def inst_uxtb_def inst_uxth_def
  inst_asr_imm_def bitfield_raw_def
  inst_udiv_def inst_sdiv_def inst_lslv_def inst_lsrv_def inst_asrv_def data_proc_2_def
  inst_msub_def inst_mul_def inst_smulh_def inst_umulh_def mulh_def
  inst_csel_def inst_csinv_def cond_select_def inst_mov_sp_def inst_ret_def
  reg_shift_new_def cmp_high_half_def add_sub_inst_def
  check_same_width_def zr_like_def Let_def

lemma is_ok_simps [simp]: "is_ok (if b then r else r') \<longleftrightarrow> (if b then is_ok r else is_ok r')"
  by simp

lemma is_zr_xr: "is_zr (xr n) \<longleftrightarrow> n = 31"
  by (simp add: xr_def is_zr_def)

lemma with64_wr [simp]: "with64 (wr n) True = xr n"
  by (simp add: with64_def xr_def wr_def)

lemma rlits: "rA = 10" "rB = 11" "rR = 12" "rT1 = 13" "rT2 = 14" "rT3 = 15"
  by (simp_all add: rA_def rB_def rR_def rT1_def rT2_def rT3_def)

lemmas cond_consts = cond_EQ_def cond_NE_def cond_CS_def cond_CC_def cond_VS_def cond_VC_def cond_HI_def
  cond_LS_def cond_GE_def cond_LT_def cond_GT_def cond_LE_def

lemma wf_conds [simp]:
  "wf_cond cond_EQ" "wf_cond cond_NE" "wf_cond cond_CS" "wf_cond cond_CC" "wf_cond cond_VS" "wf_cond cond_VC"
  "wf_cond cond_HI" "wf_cond cond_LS" "wf_cond cond_GE" "wf_cond cond_LT" "wf_cond cond_GT" "wf_cond cond_LE"
  by (simp_all add: wf_cond_def cond_consts)

lemma less_4_cases: "i < 4 \<Longrightarrow> i = 0 \<or> i = 1 \<or> i = 2 \<or> i = (3 :: nat)"
  by auto

lemma mov_wide_half:
  assumes "i < 4"
  shows "mov_wide op (xr rd) h (word_of_nat (16 * i)) = Inr (MovWide op (xr rd) h (word_of_nat (16 * i)))"
  using less_4_cases [OF assms] by (auto simp: mov_wide_def)

lemmas mov_wide_half_simps = mov_wide_half [unfolded of_nat_mult of_nat_numeral]

lemma position_less: "position P xs = Some i \<Longrightarrow> i < length xs"
  by (induction xs arbitrary: i) (auto split: if_splits)

text \<open>The keys a body is defined for, and the trap kinds its sites can have.\<close>

fun valid_key :: "Key \<Rightarrow> bool" where
  "valid_key (K_TrapJump kind) = (kind < 8)"
| "valid_key (K_Brk kind) = (kind < 8)"
| "valid_key _ = True"

fun key_traps :: "Key \<Rightarrow> TrapKind set" where
  "key_traps (K_TrapJump kind) = set_option (trap_kind kind)"
| "key_traps _ = {Overflow, DivZero, Shift, CheckedConversion}"

lemma all_keys_valid: "key \<in> set all_keys \<Longrightarrow> valid_key key"
  by (auto simp: all_keys_def preds_def int_tys_def word_less_nat_alt unat_of_nat)

section \<open>A judgement on builders\<close>

locale builder =
  fixes J :: "nat \<Rightarrow> (Seq \<Rightarrow> Seq option) \<Rightarrow> bool"
    and K :: "TrapKind set"
  assumes skip: "J 0 Some"
    and bind: "J n m \<Longrightarrow> J k m' \<Longrightarrow> J (n + k) (\<lambda>s. Option.bind (m s) m')"
    and weaken: "J n m \<Longrightarrow> n \<le> k \<Longrightarrow> J k m"
    and inst: "is_ok r \<Longrightarrow> J 1 (seq_i r)"
    and ldr: "f = SlotA \<or> f = SlotB \<Longrightarrow> rt \<le> 30 \<Longrightarrow> J 1 (ldr_slot rt f)"
    and str: "rt \<le> 30 \<Longrightarrow> J 1 (str_slot rt SlotDst)"
    and movz: "rd \<le> 30 \<Longrightarrow> unat i < 4 \<Longrightarrow> J 1 (movz_imm (xr rd) i 0)"
    and movk: "rd \<le> 30 \<Longrightarrow> unat i < 4 \<Longrightarrow> sh \<in> {16, 32, 48} \<Longrightarrow> J 1 (movk_imm (xr rd) i sh)"
    and t_if: "wf_cond c \<Longrightarrow> kind \<in> K \<Longrightarrow> J 1 (trap_if c kind)"
    and t_cbz: "rd \<le> 30 \<Longrightarrow> kind \<in> K \<Longrightarrow> J 1 (trap_cbz (xr rd) kind)"
    and t_cbnz: "rd \<le> 30 \<Longrightarrow> kind \<in> K \<Longrightarrow> J 1 (trap_cbnz (xr rd) kind)"
    and t_tbnz: "rd \<le> 30 \<Longrightarrow> kind \<in> K \<Longrightarrow> J 1 (trap_tbnz (xr rd) 63 kind)"
    and t_always: "kind \<in> K \<Longrightarrow> J 1 (trap_always kind)"
    and call: "J 1 (seq_bl rts)"
    and adr: "rd \<le> 30 \<Longrightarrow> J 1 (adr_lit (xr rd))"
begin

lemma cond: "(b \<Longrightarrow> J n m) \<Longrightarrow> (\<not> b \<Longrightarrow> J n m') \<Longrightarrow> J n (\<lambda>s. if b then m s else m' s)"
  by (cases b) simp_all

lemma cond_max: "(b \<Longrightarrow> J n m) \<Longrightarrow> (\<not> b \<Longrightarrow> J k m') \<Longrightarrow> J (max n k) (\<lambda>s. if b then m s else m' s)"
  by (rule cond) (auto intro: weaken)

lemma skip_any: "J n Some"
  by (rule weaken [OF skip]) simp

lemma local_branch:
  assumes "in_signed 19 k"
  shows "J 1 (b_cond_local c k)"
proof -
  from assms have "b_cond_local c k = seq_i (Inr (inst_b_cond c \<lparr>bo_bits = 19, word_off = as_signed 32 k\<rparr>))"
    by (intro ext) (auto simp: b_cond_local_def branch_offset_new_def in_signed_def Let_def)
  then show ?thesis using inst by simp
qed

lemma pair: "m \<noteq> Inl e \<Longrightarrow> simm7_new k 8 = Some m \<Longrightarrow> is_ok (bindR m f) \<Longrightarrow> J 1 (pair_inst k f)"
  using inst [of "bindR m f"] by (simp add: pair_inst_def [abs_def])

lemma movk_steps:
  assumes "\<forall>(i, h) \<in> set hs. i < 4"
  shows "J (length hs) (movk_loop hs rd first skip)"
  using assms
proof (induction hs)
  case Nil
  then show ?case using skip by (simp add: movk_loop.simps(1) [abs_def])
next
  case (Cons ih hs)
  obtain i h where ih: "ih = (i, h)" by force
  with Cons.prems have "is_ok (inst_movk (xr rd) h (word_of_nat (16 * i)))"
    by (simp add: inst_movk_def mov_wide_half_simps)
  then have "J 1 (\<lambda>s. if i \<noteq> first \<and> h \<noteq> skip then seq_i (inst_movk (xr rd) h (word_of_nat (16 * i))) s else Some s)"
    by (intro cond inst skip_any)
  from bind [OF this Cons.IH] Cons.prems ih show ?case
    by (simp add: movk_loop.simps(2) [abs_def])
qed

lemma mov: "J 5 (mov_imm rd v)"
proof -
  let ?hs = "halves_of v"
  have h4: "length ?hs = 4" by (simp add: halves_of_def)
  have i4: "unwrap_or (position P ?hs) 0 < 4" for P
    using position_less [of P ?hs] h4 by (auto simp: unwrap_or_def split: option.split)
  have ok: "is_ok (inst_movn (xr rd) h (word_of_nat (16 * i)))" "is_ok (inst_movz (xr rd) h (word_of_nat (16 * i)))"
    if "i < 4" for i h
    using that by (simp_all add: inst_movn_def inst_movz_def mov_wide_half_simps)
  have l: "J 4 (movk_loop (enumerate 0 ?hs) rd first sk)" for first sk
    by (rule weaken [OF movk_steps]) (auto simp: in_set_enumerate_eq h4)
  show ?thesis
    unfolding mov_imm_def [abs_def] Let_def
    by (rule cond; rule weaken, rule bind, rule inst, rule ok, rule i4, rule l, simp)
qed

lemma canon: "J 1 (canon rd rn ty)"
  unfolding canon_def [abs_def]
  by (cases ty; simp only: IntTy.case; (rule cond inst skip_any | simp add: ctor_defs)+)

lemma raw: "J 1 (raw rd rn e)"
  unfolding raw_def [abs_def]
  by (cases e; simp only: RawExt.case; (rule cond inst skip_any | simp add: ctor_defs)+)

lemma fits_check: "ty_narrow ty \<Longrightarrow> kind \<in> K \<Longrightarrow> J 2 (fits_or_trap r ty kind)"
  unfolding fits_or_trap_def [abs_def]
  by (cases ty; simp only: ty_ext.simps bind.simps ty_narrow_def ty_width.simps)
    (rule weaken, (rule bind inst t_if | simp add: ctor_defs)+)+

lemma clamp_s: "J 14 (clamp_signed ty)"
  unfolding clamp_signed_def [abs_def] by (rule weaken, (rule bind inst mov | simp add: ctor_defs)+)

lemma clamp_hi: "J 7 (clamp_hi_unsigned hi)"
  unfolding clamp_hi_unsigned_def [abs_def] by (rule weaken, (rule bind inst mov | simp add: ctor_defs)+)

lemma clamp_0: "J 2 clamp_zero"
  unfolding clamp_zero_def [abs_def] by (rule weaken, (rule bind inst | simp add: ctor_defs is_zr_xr rlits)+)

lemma sat_sign: "J 2 (sat_by_sign rd from)"
proof -
  obtain m where m: "logical_imm_new 0x7FFFFFFFFFFFFFFF True = Inr m"
    using logical_imm_new_eqs(2) by (auto simp: is_ok_iff)
  with logical_imm_new_True [OF m]
  have "is_ok (bindR (logical_imm_new 0x7FFFFFFFFFFFFFFF True) (\<lambda>m. inst_eor_imm (xr rd) (xr rd) m))"
    by (simp add: inst_eor_imm_def logical_imm_def check_same_width_def)
  then show ?thesis
    unfolding sat_by_sign_def [abs_def] by (intro weaken [OF bind [OF inst inst]]) (simp_all add: ctor_defs)
qed

lemma loads: "J 2 load_ab"
  unfolding load_ab_def [abs_def] by (rule weaken, (rule bind ldr | simp)+)

lemma store: "J 1 store_r"
  unfolding store_r_def [abs_def] by (rule str) simp

lemma min_check: "in_signed 19 k \<Longrightarrow> J 3 (min_by_minus_one k)"
  unfolding min_by_minus_one_def [abs_def]
  by (rule weaken, (rule bind inst local_branch | assumption | simp add: ctor_defs is_zr_xr rlits)+)

lemmas pieces = canon raw fits_check clamp_s clamp_hi clamp_0 sat_sign loads store min_check local_branch mov
lemmas atoms = inst ldr str movz movk t_if t_cbz t_cbnz t_tbnz t_always call adr

lemma add_sub: "Overflow \<in> K \<Longrightarrow> J 15 (bin_add_sub add mode ty)"
  unfolding bin_add_sub_def [abs_def] Let_def
  by (cases mode; simp only: ArMode.case ArMode.distinct if_True if_False simp_thms;
      (rule weaken, (rule bind cond_max skip pieces atoms | assumption | simp add: ctor_defs)+))

lemma mul: "Overflow \<in> K \<Longrightarrow> J 15 (bin_mul mode ty)"
  unfolding bin_mul_def [abs_def] Let_def
  by (cases mode; simp only: ArMode.case ArMode.distinct if_True if_False simp_thms;
      (rule weaken, (rule bind cond_max skip pieces atoms | assumption | simp add: ctor_defs is_zr_xr rlits)+))

lemma msub: "J 1 rem_msub"
  unfolding rem_msub_def [abs_def] by (rule inst) (simp add: ctor_defs)

lemma div_rem: "Overflow \<in> K \<Longrightarrow> DivZero \<in> K \<Longrightarrow> J 16 (bin_div_rem dv mode ty)"
  unfolding bin_div_rem_def [abs_def]
  by (cases mode; simp only: ArMode.case ArMode.distinct if_True if_False simp_thms;
      (rule weaken, (rule bind cond_max skip msub pieces atoms | assumption
         | simp add: ctor_defs in_signed_def)+))

lemma bin: "Overflow \<in> K \<Longrightarrow> DivZero \<in> K \<Longrightarrow> J 16 (bin op mode ty)"
  unfolding bin_def [abs_def]
  by (cases op; simp only: BinOp.case; (rule weaken, (rule add_sub mul div_rem | assumption | simp)+))

lemma shift: "J 15 (shift op mode ty)"
  unfolding shift_def [abs_def] Let_def
  by (rule weaken, (rule bind cond_max skip pieces atoms | simp add: ctor_defs)+)

lemma neg: "Overflow \<in> K \<Longrightarrow> J 15 (neg mode ty)"
  unfolding neg_def [abs_def]
  by (cases mode; simp only: ArMode.case;
      (rule weaken, (rule bind cond_max skip pieces atoms | assumption | simp add: ctor_defs)+))

lemma conv: "CheckedConversion \<in> K \<Longrightarrow> J 15 (conv op from to)"
  unfolding conv_def [abs_def]
  by (cases op; simp only: ConvOp.case;
      (rule weaken, (rule bind cond_max skip pieces atoms | assumption | simp add: ctor_defs)+))

lemma stp_ldp:
  "J 1 (pair_inst (- 16) (\<lambda>o'. inst_stp (xr 29) (xr 30) reg_sp o' PI_PreIndex))"
  "J 1 (pair_inst 16 (\<lambda>o'. inst_ldp (xr 29) (xr 30) reg_sp o' PI_PostIndex))"
proof -
  have s: "simm7_new (- 16) 8 = Some (Inr \<lparr>s7_scaled = - 2, s7_access_size = 8\<rparr>)"
    "simm7_new 16 8 = Some (Inr \<lparr>s7_scaled = 2, s7_access_size = 8\<rparr>)"
    by (simp_all add: simm7_new_def in_signed_def)
  show "J 1 (pair_inst (- 16) (\<lambda>o'. inst_stp (xr 29) (xr 30) reg_sp o' PI_PreIndex))"
    "J 1 (pair_inst 16 (\<lambda>o'. inst_ldp (xr 29) (xr 30) reg_sp o' PI_PostIndex))"
    by (rule pair [OF _ s(1)] pair [OF _ s(2)];
        simp add: inst_stp_def inst_ldp_def load_store_pair_def check_same_width_def reg_encoding_def reg_sp_def)+
qed

lemma not_bool: "J 1 (seq_i (bindR (logical_imm_new 1 True) (\<lambda>m. inst_eor_imm (xr rd) (xr rn) m)))"
proof -
  obtain m where m: "logical_imm_new 1 True = Inr m" using logical_imm_new_eqs(1) by (auto simp: is_ok_iff)
  with logical_imm_new_True [OF m] show ?thesis
    by (intro inst) (simp add: inst_eor_imm_def logical_imm_def check_same_width_def)
qed

lemma logic: "J 1 (seq_i (case op of
                 L_And \<Rightarrow> inst_and_shifted (xr rR) (xr rA) (xr rB) none
               | L_Or \<Rightarrow> inst_orr_shifted (xr rR) (xr rA) (xr rB) none
               | L_Xor \<Rightarrow> inst_eor_shifted (xr rR) (xr rA) (xr rB) none))"
  by (cases op) (intro inst, simp add: ctor_defs)+

lemma width_check:
  "J 1 (seq_i (bindR (uimm12_new (word_of_nat (ty_width ty))) (\<lambda>i. inst_cmp_imm (xr rT1) i)))"
  by (cases ty) (intro inst, simp add: ctor_defs is_zr_xr rlits)+

lemma icmp_set: "J 1 (seq_i (inst_cset (xr rR) (pred_cond pred sg)))"
  by (rule inst, cases pred; cases sg)
    (simp_all add: inst_cset_def require_conditional_def cond_AL_def cond_NV_def cond_consts ctor_defs)

lemma body_std:
  assumes "key_traps key = {Overflow, DivZero, Shift, CheckedConversion}" "key_traps key \<subseteq> K"
    and brk: "\<And>kind. key \<noteq> K_Brk kind" and jump: "\<And>kind. key \<noteq> K_TrapJump kind"
  shows "J 30 (body key)"
proof -
  have std: "Overflow \<in> K" "DivZero \<in> K" "Shift \<in> K" "CheckedConversion \<in> K"
    using assms(1,2) by auto
  note steps = bind cond_max skip stp_ldp not_bool logic width_check icmp_set bin shift neg conv pieces atoms
  show ?thesis
    unfolding body_def [abs_def]
    by (cases key; (erule notE [OF brk] | erule notE [OF jump] | simp only: Key.case);
        (rule weaken, (rule steps | rule std | simp add: ctor_defs is_zr_xr rlits)+))
qed

lemma body:
  assumes "valid_key key" "key_traps key \<subseteq> K"
  shows "J 30 (body key)"
proof (cases "\<exists>kind. key = K_TrapJump kind \<or> key = K_Brk kind")
  case False
  then show ?thesis using assms by (intro body_std) (cases key; simp)+
next
  case True
  then obtain kind where "key = K_TrapJump kind \<or> key = K_Brk kind" by blast
  then show ?thesis
  proof
    assume key: "key = K_TrapJump kind"
    then have "unat kind < 8" using assms(1) by (simp add: word_less_nat_alt)
    then obtain k where "trap_kind kind = Some k"
      by (auto simp: trap_kind_def trap_kind_from_u32_def at_index_def)
    with key assms(2) weaken [OF t_always [of k]] show ?thesis by (simp add: body_def [abs_def])
  next
    assume key: "key = K_Brk kind"
    then have "ucast kind < (8 :: u16)" using assms(1) by (simp add: word_less_nat_alt)
    with key have "body key = seq_i (Inr (inst_brk (TRAP_BRK_BASE + ucast kind)))"
      by (intro ext) (simp add: body_def brk_imm_def seq_i_def)
    then show ?thesis using weaken [OF inst [of "Inr (inst_brk (TRAP_BRK_BASE + ucast kind))"]] by simp
  qed
qed

end

end
