(* ===== verification/Stencil_Patch.thy ===== *)
theory Stencil_Patch
  imports Stencil_Logic
begin

text \<open>
  Copy-and-patch equals encoding. Every builder method that records a hole pushes an instruction
  whose word differs from the placeholder's only in the hole's bit field; \<open>patches\<close> carries this
  through a body as a relation between the run on the placeholder fill and the run on the actual
  one, and interprets the builder locale.
\<close>

section \<open>Bit fields\<close>

lemma insert_bits_field:
  assumes "field lo len b = 0" "fits len u" "lo + len \<le> 32"
  shows "insert_bits (b OR push_bit lo u) lo len v = b OR push_bit lo (take_bit len v)"
proof (rule bit_word_eqI)
  fix i assume i: "i < LENGTH(32)"
  have f: "\<not> bit b (lo + k)" if "k < len" for k
  proof -
    have "bit (field lo len b) k = bit b (lo + k)" using that assms(3) by (simp add: bit_simps)
    with assms(1) show ?thesis by simp
  qed
  have m: "(ucast (push_bit len 1 - 1 :: u64) :: u32) = mask len"
    using assms(3) by (intro bit_word_eqI) (auto simp: bit_simps)
  show "bit (insert_bits (b OR push_bit lo u) lo len v) i = bit (b OR push_bit lo (take_bit len v)) i"
    using i f [of "i - lo"] assms(3) fitsD [OF assms(2), of "i - lo"]
    unfolding insert_bits_def Let_def m by (auto simp: bit_simps)
qed

text \<open>Which values a hole kind accepts, and the word it makes.\<close>

fun kind_fits :: "HoleKind \<Rightarrow> int \<Rightarrow> bool" where
  "kind_fits LdSt64 v \<longleftrightarrow> v \<ge> 0 \<and> v mod 8 = 0 \<and> v div 8 \<le> 0xFFF"
| "kind_fits Imm16 v \<longleftrightarrow> 0 \<le> v \<and> v \<le> 0xFFFF"
| "kind_fits Br19 v \<longleftrightarrow> fits_signed v 19 4"
| "kind_fits Br14 v \<longleftrightarrow> fits_signed v 14 4"
| "kind_fits Br26 v \<longleftrightarrow> fits_signed v 26 4"
| "kind_fits Adr21 v \<longleftrightarrow> fits_signed v 21 1"

fun kind_patch :: "HoleKind \<Rightarrow> u32 \<Rightarrow> int \<Rightarrow> u32" where
  "kind_patch LdSt64 u v = insert_bits u 10 12 (word_of_int (v sdiv 8))"
| "kind_patch Imm16 u v = insert_bits u 5 16 (word_of_int v)"
| "kind_patch Br19 u v = insert_bits u 5 19 (word_of_int (drop_bit 2 v))"
| "kind_patch Br14 u v = insert_bits u 5 14 (word_of_int (drop_bit 2 v))"
| "kind_patch Br26 u v = insert_bits u 0 26 (word_of_int (drop_bit 2 v))"
| "kind_patch Adr21 u v = insert_bits (insert_bits u 29 2 (word_of_int v AND 3)) 5 19 (drop_bit 2 (word_of_int v))"

lemma hole_fits_kind: "hole_fits h f = map_option (kind_fits (h_kind h)) (field_value h f)"
  by (cases "field_value h f"; cases "h_kind h") (simp_all add: hole_fits_def)

lemma patch_kind: "patch u h f = map_option (kind_patch (h_kind h) u) (field_value h f)"
  by (cases "field_value h f"; cases "h_kind h") (simp_all add: patch_def Let_def)

text \<open>\<open>patchable k mk\<close>: the instructions \<open>mk v\<close> of the values that fit differ in the hole only.\<close>

definition patchable :: "HoleKind \<Rightarrow> (int \<Rightarrow> Inst) \<Rightarrow> bool" where
  "patchable k mk \<longleftrightarrow> (\<forall>v v'. kind_fits k v \<longrightarrow> kind_fits k v' \<longrightarrow>
     (\<exists>u. encode (mk v) = Inr u \<and> encode (mk v') = Inr (kind_patch k u v')))"

lemma patchableI:
  assumes "\<And>v. kind_fits k v \<Longrightarrow> encode (mk v) = Inr (b OR push_bit lo (take_bit len (val v)))"
    and "\<And>u v. kind_fits k v \<Longrightarrow> kind_patch k u v = insert_bits u lo len (val v)"
    and "field lo len b = 0" "lo + len \<le> 32"
  shows "patchable k mk"
  using assms insert_bits_field [OF assms(3) _ assms(4)]
  by (auto simp: patchable_def fits_def)

lemma reg_enc_fields:
  "n \<le> 30 \<Longrightarrow> fits 5 (reg_encoding (xr n))" "fits 5 (reg_encoding reg_sp)"
proof -
  show "n \<le> 30 \<Longrightarrow> fits 5 (reg_encoding (xr n))"
    by (simp add: reg_encoding_def ucast_u8_fits word_le_nat_alt)
  show "fits 5 (reg_encoding reg_sp)" by (simp add: reg_encoding_def reg_sp_def fits_def)
qed

lemma cond_code_fits: "wf_cond c \<Longrightarrow> fits 4 (cond_code c)"
  unfolding wf_cond_def cond_code_def by (intro fits_of_unat) (simp add: word_le_nat_alt)

lemma uscaled_word:
  assumes "kind_fits LdSt64 v"
  shows "(ucast (word_of_nat (nat v div 8) :: u16) :: u32) = take_bit 12 (word_of_int (v sdiv 8))"
proof -
  from assms have v: "0 \<le> v" "v div 8 < 2 ^ 12" by auto
  then have "v sdiv 8 = v div 8" by (cases "v = 0") (simp_all add: signed_divide_int_def)
  moreover have "nat v div 8 = nat (v div 8)" using v by (simp add: nat_div_distrib)
  moreover have "(ucast (word_of_int (v div 8) :: u16) :: u32) = take_bit 12 (word_of_int (v div 8))"
  proof (rule bit_word_eqI)
    fix i
    have "take_bit 12 (v div 8) = v div 8" using v by (simp add: take_bit_int_eq_self)
    then have "bit (v div 8) i \<Longrightarrow> i < 12" by (metis bit_take_bit_iff)
    then show "bit (ucast (word_of_int (v div 8) :: u16) :: u32) i = bit (take_bit 12 (word_of_int (v div 8) :: u32)) i"
      by (auto simp: bit_simps)
  qed
  ultimately show ?thesis using v by simp
qed

lemma branch_enc:
  assumes "len \<le> 32"
  shows "branch_offset_encoding \<lparr>bo_bits = len, word_off = as_signed 32 q\<rparr> = take_bit len (word_of_int q)"
proof -
  have "word_of_int (as_signed 32 q) = (word_of_int q :: u32)"
    by (rule bit_word_eqI) (auto simp: bit_simps as_signed_def)
  with assms show ?thesis
    unfolding branch_offset_encoding_def
    by (intro bit_word_eqI) (auto simp: bit_simps)
qed

lemma patchable_ldst:
  assumes "rt \<le> 30" "op = LdrX \<or> op = StrX"
  shows "patchable LdSt64 (\<lambda>v. LoadStoreImm op (xr rt) reg_sp
     (UnsignedOffset \<lparr>us_scaled = word_of_nat (nat v div 8), us_access_size = 8\<rparr>))"
proof (rule patchableI [where lo = 10 and len = 12 and val = "\<lambda>v. word_of_int (v sdiv 8)"])
  let ?b = "push_bit 30 (fst (size_opc op)) OR push_bit 27 0b111 OR push_bit 24 0b01
    OR push_bit 22 (snd (size_opc op)) OR push_bit 5 (reg_encoding reg_sp) OR reg_encoding (xr rt)"
  show "field 10 12 ?b = 0"
    using assms(2) by (auto simp: field_rules fits_field_high [OF reg_enc_fields(1) [OF assms(1)]]
        fits_field_high [OF reg_enc_fields(2)])
  fix v assume "kind_fits LdSt64 v"
  from uscaled_word [OF this] show "encode (LoadStoreImm op (xr rt) reg_sp
     (UnsignedOffset \<lparr>us_scaled = word_of_nat (nat v div 8), us_access_size = 8\<rparr>))
     = Inr (?b OR push_bit 10 (take_bit 12 (word_of_int (v sdiv 8))))"
    by (simp add: encode_load_store_gp_def split_beta uscaled_encoding_def or.assoc or.left_commute or.commute)
qed simp_all

lemma patchable_mov:
  assumes "rd \<le> 30"
  shows "patchable Imm16 (\<lambda>v. MovWide op (xr rd) (word_of_int v) sh)"
proof (rule patchableI [where lo = 5 and len = 16 and val = word_of_int])
  let ?b = "push_bit 31 (sf (xr rd)) OR push_bit 29 (mov_wide_opc op) OR push_bit 23 0b100101
     OR push_bit 21 (ucast (sh div 16)) OR reg_encoding (xr rd)"
  show "field 5 16 ?b = 0"
    by (simp add: field_rules fits_field_high [OF reg_enc_fields(1) [OF assms]])
  fix v assume "kind_fits Imm16 v"
  then have "(ucast (word_of_int v :: u16) :: u32) = take_bit 16 (word_of_int v)"
    by (intro bit_word_eqI) (auto simp: bit_simps)
  then show "encode (MovWide op (xr rd) (word_of_int v) sh) = Inr (?b OR push_bit 5 (take_bit 16 (word_of_int v)))"
    by (simp add: enc_mov_wide_def Let_def or.assoc or.left_commute or.commute)
qed simp_all

text \<open>The branches: the word offset is the quarter of the byte distance.\<close>

abbreviation branch_to :: "nat \<Rightarrow> int \<Rightarrow> BranchOffset" where
  "branch_to len v \<equiv> \<lparr>bo_bits = len, word_off = as_signed 32 (v div 4)\<rparr>"

lemma drop_bit_2: "drop_bit 2 v = v div (4 :: int)"
  by (simp add: drop_bit_eq_div)

lemma patchable_b_cond: "wf_cond c \<Longrightarrow> patchable Br19 (\<lambda>v. BranchCond c (branch_to 19 v))"
  by (rule patchableI [where b = "push_bit 25 0b0101010 OR cond_code c" and lo = 5 and len = 19
        and val = "\<lambda>v. word_of_int (v div 4)"])
    (simp_all add: drop_bit_2 enc_branch_cond_def branch_enc or.assoc or.left_commute or.commute field_rules
      fits_field_high [OF cond_code_fits])

lemma patchable_cb:
  "rt \<le> 30 \<Longrightarrow> patchable Br19 (\<lambda>v. CompareBranch b nz (xr rt) (branch_to 19 v))"
  by (rule patchableI [where b = "push_bit 31 (of_bool b) OR push_bit 25 0b011010 OR push_bit 24 (of_bool nz)
        OR reg_encoding (xr rt)" and lo = 5 and len = 19 and val = "\<lambda>v. word_of_int (v div 4)"])
    (simp_all add: drop_bit_2 enc_compare_branch_def branch_enc or.assoc or.left_commute or.commute field_rules
      fits_field_high [OF reg_enc_fields(1)])

lemma patchable_tb:
  "rt \<le> 30 \<Longrightarrow> patchable Br14 (\<lambda>v. TestBranch nz (xr rt) bt (branch_to 14 v))"
  by (rule patchableI [where b = "push_bit 31 (ucast (drop_bit 5 bt) AND 1) OR push_bit 25 0b011011
        OR push_bit 24 (of_bool nz) OR push_bit 19 (ucast bt AND 0x1F) OR reg_encoding (xr rt)"
        and lo = 5 and len = 14 and val = "\<lambda>v. word_of_int (v div 4)"])
    (simp_all add: drop_bit_2 enc_test_branch_def Let_def branch_enc or.assoc or.left_commute or.commute field_rules
      fits_field_high [OF reg_enc_fields(1)] del: push_bit_and)

lemma patchable_b: "patchable Br26 (\<lambda>v. Branch link (branch_to 26 v))"
  by (rule patchableI [where b = "push_bit 31 (of_bool link) OR push_bit 26 0b00101" and lo = 0 and len = 26
        and val = "\<lambda>v. word_of_int (v div 4)"])
    (simp_all add: drop_bit_2 enc_branch_def branch_enc or.assoc or.left_commute or.commute field_rules)

lemma patchable_adr:
  assumes "rd \<le> 30"
  shows "patchable Adr21 (\<lambda>v. Adr (xr rd) (AdrOffset (as_signed 32 v)))"
proof -
  let ?b = "push_bit 24 0b10000 OR reg_encoding (xr rd)"
  have e: "encode (Adr (xr rd) (AdrOffset (as_signed 32 v))) =
      Inr (?b OR push_bit 29 (take_bit 2 (word_of_int v)) OR push_bit 5 (take_bit 19 (drop_bit 2 (word_of_int v))))" for v
  proof -
    have s: "word_of_int (as_signed 32 v) = (word_of_int v :: u32)"
      by (rule bit_word_eqI) (auto simp: bit_simps as_signed_def)
    have m: "(w :: u32) AND 0x1FFFFF = take_bit 21 w" "w AND 0b11 = take_bit 2 w" for w
      by (simp_all add: take_bit_eq_mask mask_eq_exp_minus_1)
    show ?thesis
      by (simp add: enc_adr_def adr_encoding_def s m Let_def or.assoc or.left_commute or.commute drop_bit_take_bit)
  qed
  have f: "field 29 2 (?b OR push_bit 5 (take_bit 19 u)) = 0" "field 5 19 (?b OR push_bit 29 (take_bit 2 u)) = 0" for u
    by (rule bit_word_eqI,
        use fitsD [OF reg_enc_fields(1) [OF assms]] in \<open>fastforce simp: bit_simps field_rules\<close>)+
  have a3: "(u :: u32) AND 3 = take_bit 2 u" for u
    by (simp add: take_bit_eq_mask mask_eq_exp_minus_1)
  have "kind_patch Adr21 (?b OR push_bit 29 (take_bit 2 u) OR push_bit 5 (take_bit 19 u')) v
      = ?b OR push_bit 29 (take_bit 2 (word_of_int v)) OR push_bit 5 (take_bit 19 (drop_bit 2 (word_of_int v)))" for u u' v
    using insert_bits_field [OF f(1), of "take_bit 2 u" u' "take_bit 2 (word_of_int v)"]
      insert_bits_field [OF f(2), of "take_bit 19 u'" "word_of_int v" "drop_bit 2 (word_of_int v)"]
    by (simp add: a3 fits_def or.assoc or.left_commute or.commute)
  then show ?thesis using e by (simp add: patchable_def)
qed

section \<open>Methods that record a hole\<close>

definition emit_hole :: "HoleKind \<Rightarrow> Field \<Rightarrow> (int \<Rightarrow> Inst) \<Rightarrow> Seq \<Rightarrow> Seq option" where
  "emit_hole k f mk s =
     (case field_value \<lparr>h_word = seq_word s, h_kind = k, h_field = f\<rparr> (s_fill s) of
        Some v \<Rightarrow> if kind_fits k v then Some (seq_fixed (mk v) (hole k f s)) else None
      | None \<Rightarrow> None)"

lemma seq_i_simps [simp]: "seq_i (Inr i) s = Some (seq_fixed i s)" "seq_i (Inl e) s = None"
  by (simp_all add: seq_i_def)

lemmas emit_hole_unfold = emit_hole_def field_value_def hole_def Let_def

lemma slot_holes:
  assumes "f = SlotA \<or> f = SlotB \<or> f = SlotDst" "rt \<le> 30"
  shows "ldr_slot rt f = emit_hole LdSt64 f (\<lambda>v. LoadStoreImm LdrX (xr rt) reg_sp
       (UnsignedOffset \<lparr>us_scaled = word_of_nat (nat v div 8), us_access_size = 8\<rparr>))"
    and "str_slot rt f = emit_hole LdSt64 f (\<lambda>v. LoadStoreImm StrX (xr rt) reg_sp
       (UnsignedOffset \<lparr>us_scaled = word_of_nat (nat v div 8), us_access_size = 8\<rparr>))"
proof -
  have u: "uscaled_new (uint (off :: u32)) 8 =
      Some (if kind_fits LdSt64 (uint off)
            then Inr \<lparr>us_scaled = word_of_nat (nat (uint off) div 8), us_access_size = 8\<rparr>
            else if uint off mod 8 = 0 then Inl (ImmediateOutOfRange ''LDR/STR unsigned-offset'' (uint off))
            else Inl (MisalignedOffset ''LDR/STR unsigned-offset'' (uint off)))" for off
  proof -
    have "nat (uint off) div 8 \<le> 0xFFF \<longleftrightarrow> uint off div 8 \<le> 0xFFF"
      by (metis nat_le_eq_zle nat_numeral div_int_pos_iff nat_div_distrib uint_ge_0 zero_le_numeral)
    then show ?thesis by (auto simp: uscaled_new_def Let_def dvd_eq_mod_eq_0 not_le not_less)
  qed
  show "ldr_slot rt f = emit_hole LdSt64 f (\<lambda>v. LoadStoreImm LdrX (xr rt) reg_sp
       (UnsignedOffset \<lparr>us_scaled = word_of_nat (nat v div 8), us_access_size = 8\<rparr>))"
    "str_slot rt f = emit_hole LdSt64 f (\<lambda>v. LoadStoreImm StrX (xr rt) reg_sp
       (UnsignedOffset \<lparr>us_scaled = word_of_nat (nat v div 8), us_access_size = 8\<rparr>))"
    by (rule ext, use assms in \<open>auto simp: ldr_slot_def str_slot_def slot_def u emit_hole_unfold xr_eq
        inst_ldr_def inst_str_def load_store_def simp del: kind_fits.simps\<close>)+
qed

lemma mov_holes:
  "movz_imm (xr rd) i 0 = emit_hole Imm16 (F_Imm i) (\<lambda>v. MovWide Movz (xr rd) (word_of_int v) 0)"
  "sh \<in> {16, 32, 48} \<Longrightarrow>
   movk_imm (xr rd) i sh = emit_hole Imm16 (F_Imm i) (\<lambda>v. MovWide Movk (xr rd) (word_of_int v) sh)"
proof -
  have "uint v \<le> 0xFFFF" for v :: u16 using uint_lt2p [of v] by simp
  then show "movz_imm (xr rd) i 0 = emit_hole Imm16 (F_Imm i) (\<lambda>v. MovWide Movz (xr rd) (word_of_int v) 0)"
    "sh \<in> {16, 32, 48} \<Longrightarrow>
     movk_imm (xr rd) i sh = emit_hole Imm16 (F_Imm i) (\<lambda>v. MovWide Movk (xr rd) (word_of_int v) sh)"
    by (auto simp: fun_eq_iff movz_imm_def movk_imm_def emit_hole_unfold at_index_def inst_movz_def inst_movk_def
        mov_wide_def)
qed

lemma branch_new:
  assumes "0 < len" "len < 64"
  shows "\<exists>e. branch_offset_new v len what = Some (if fits_signed v len 4 then Inr (branch_to len v) else Inl e)"
  using assms by (auto simp: branch_offset_new_def fits_signed_def Let_def)

lemma branch_seq:
  assumes "0 < len" "len < 64"
  shows "(do { o' \<leftarrow> branch_offset_new v len what; seq_i (bindR o' g) s })
    = (if fits_signed v len 4 then seq_i (g (branch_to len v)) s else None)"
  using branch_new [OF assms, of v what] by auto

lemma trap_holes:
  "trap_if c kind = (\<lambda>s. Option.bind (site kind s) (\<lambda>(i, s). emit_hole Br19 (F_Trap i) (\<lambda>v. BranchCond c (branch_to 19 v)) s))"
  "trap_cbz (xr rt) kind = (\<lambda>s. Option.bind (site kind s) (\<lambda>(i, s). emit_hole Br19 (F_Trap i)
     (\<lambda>v. CompareBranch True False (xr rt) (branch_to 19 v)) s))"
  "trap_cbnz (xr rt) kind = (\<lambda>s. Option.bind (site kind s) (\<lambda>(i, s). emit_hole Br19 (F_Trap i)
     (\<lambda>v. CompareBranch True True (xr rt) (branch_to 19 v)) s))"
  "trap_tbnz (xr rt) 63 kind = (\<lambda>s. Option.bind (site kind s) (\<lambda>(i, s). emit_hole Br14 (F_Trap i)
     (\<lambda>v. TestBranch True (xr rt) 63 (branch_to 14 v)) s))"
  "trap_always kind = (\<lambda>s. Option.bind (site kind s) (\<lambda>(i, s). emit_hole Br26 (F_Trap i)
     (\<lambda>v. Branch False (branch_to 26 v)) s))"
  by (auto simp: fun_eq_iff trap_if_def trap_cbz_def trap_cbnz_def trap_tbnz_def trap_always_def trap_off_def
    emit_hole_unfold inst_b_cond_def inst_cbz_def inst_cbnz_def inst_tbnz_def test_branch_def inst_b_def branch_seq
    seq_word_def split: Option.bind_splits option.splits)

lemma call_holes:
  "seq_bl rts = emit_hole Br26 (F_Call rts) (\<lambda>v. Branch True (branch_to 26 v))"
  "adr_lit (xr rd) = emit_hole Adr21 F_Lit (\<lambda>v. Adr (xr rd) (AdrOffset (as_signed 32 v)))"
  by (auto simp: fun_eq_iff seq_bl_def adr_lit_def emit_hole_unfold branch_seq inst_bl_def inst_adr_def adr_new_def
        fits_signed_def seq_word_def split: Option.bind_splits option.splits)

section \<open>The relation between the placeholder run and the actual run\<close>

lemma encode_all_snoc:
  "encode_all is = Some ws \<Longrightarrow> encode i = Inr u \<Longrightarrow> encode_all (is @ [i]) = Some (ws @ [u])"
  by (induction "is" arbitrary: ws) (auto split: sum.splits)

lemma encode_all_length: "encode_all is = Some ws \<Longrightarrow> length ws = length is"
  by (induction "is" arbitrary: ws) (auto split: sum.splits)

lemma patch_loop_append:
  "patch_loop hs f b out = Some out' \<Longrightarrow> length out' = length out \<and> patch_loop hs f b (out @ vs) = Some (out' @ vs)"
  by (induction hs arbitrary: out)
    (auto simp: Let_def at_index_def list_update_append nth_append split: Option.bind_splits if_splits)

lemma patch_loop_snoc:
  "patch_loop (hs @ [h]) f b out = Option.bind (patch_loop hs f b out) (patch_loop [h] f b)"
  by (induction hs arbitrary: out) (auto simp: Let_def bind_assoc fun_eq_iff intro!: Option.bind_cong)

definition fits_all :: "Fill \<Rightarrow> Hole list \<Rightarrow> bool" where
  "fits_all f hs \<longleftrightarrow> (\<forall>h \<in> set hs. hole_fits h f = Some True)"

lemma fits_all_append [simp]: "fits_all f (hs @ hs') \<longleftrightarrow> fits_all f hs \<and> fits_all f hs'"
  by (auto simp: fits_all_def)

definition relates :: "Fill \<Rightarrow> Seq \<Rightarrow> Seq \<Rightarrow> bool" where
  "relates f s s' \<longleftrightarrow> s_fill s' = f \<and> holes s' = holes s \<and> sites s' = sites s
     \<and> length (insts s') = length (insts s) \<and> fits_all f (holes s)
     \<and> (\<exists>ws ws'. encode_all (insts s) = Some ws \<and> encode_all (insts s') = Some ws'
          \<and> patch_loop (holes s) f 0 ws = Some ws')"

definition ready :: "TrapKind set \<Rightarrow> nat \<Rightarrow> Seq \<Rightarrow> bool" where
  "ready K n s \<longleftrightarrow> s_fill s = placeholder \<and> length (insts s) + n \<le> 60 \<and> distinct (sites s) \<and> set (sites s) \<subseteq> K"

definition patches :: "Fill \<Rightarrow> TrapKind set \<Rightarrow> nat \<Rightarrow> (Seq \<Rightarrow> Seq option) \<Rightarrow> bool" where
  "patches f K n m \<longleftrightarrow> (\<forall>s. ready K n s \<longrightarrow>
     (\<exists>t hs. m s = Some t \<and> ready K 0 t \<and> length (insts t) \<le> length (insts s) + n \<and> holes t = holes s @ hs
        \<and> (\<forall>s'. relates f s s' \<longrightarrow>
             (if fits_all f hs then \<exists>t'. m s' = Some t' \<and> relates f t t' else m s' = None))))"

lemma patchesD:
  assumes "patches f K n m" "ready K n s"
  obtains t hs where "m s = Some t" "ready K 0 t" "length (insts t) \<le> length (insts s) + n" "holes t = holes s @ hs"
    "\<And>s'. relates f s s' \<Longrightarrow> (if fits_all f hs then \<exists>t'. m s' = Some t' \<and> relates f t t' else m s' = None)"
  using assms unfolding patches_def by blast

lemma patches_bind:
  assumes "patches f K n m" "patches f K k m'"
  shows "patches f K (n + k) (\<lambda>s. Option.bind (m s) m')"
  unfolding patches_def
proof (intro allI impI)
  fix s assume r: "ready K (n + k) s"
  then have "ready K n s" by (simp add: ready_def)
  from patchesD [OF assms(1) this] obtain t hs where t: "m s = Some t" "ready K 0 t"
    "length (insts t) \<le> length (insts s) + n" "holes t = holes s @ hs"
    "\<And>s'. relates f s s' \<Longrightarrow> (if fits_all f hs then \<exists>t'. m s' = Some t' \<and> relates f t t' else m s' = None)" by blast
  with r have "ready K k t" by (simp add: ready_def)
  from patchesD [OF assms(2) this] obtain u hs' where u: "m' t = Some u" "ready K 0 u"
    "length (insts u) \<le> length (insts t) + k" "holes u = holes t @ hs'"
    "\<And>s'. relates f t s' \<Longrightarrow> (if fits_all f hs' then \<exists>t'. m' s' = Some t' \<and> relates f u t' else m' s' = None)" by blast
  have "if fits_all f (hs @ hs') then \<exists>t'. Option.bind (m s') m' = Some t' \<and> relates f u t' else Option.bind (m s') m' = None"
    if "relates f s s'" for s'
    using t(5) [OF that] u(5) by (auto split: if_splits)
  with t u show "\<exists>t hs. Option.bind (m s) m' = Some t \<and> ready K 0 t \<and> length (insts t) \<le> length (insts s) + (n + k)
      \<and> holes t = holes s @ hs \<and> (\<forall>s'. relates f s s' \<longrightarrow>
        (if fits_all f hs then \<exists>t'. Option.bind (m s') m' = Some t' \<and> relates f t t' else Option.bind (m s') m' = None))"
    by (intro exI [of _ u] exI [of _ "hs @ hs'"]) auto
qed

lemma patches_weaken: "patches f K n m \<Longrightarrow> n \<le> k \<Longrightarrow> patches f K k m"
  unfolding patches_def
proof (intro allI impI)
  fix s assume a: "\<forall>s. ready K n s \<longrightarrow> (\<exists>t hs. m s = Some t \<and> ready K 0 t \<and> length (insts t) \<le> length (insts s) + n
      \<and> holes t = holes s @ hs \<and> (\<forall>s'. relates f s s' \<longrightarrow>
        (if fits_all f hs then \<exists>t'. m s' = Some t' \<and> relates f t t' else m s' = None)))"
    and k: "n \<le> k" "ready K k s"
  from k have "ready K n s" by (simp add: ready_def)
  with a obtain t hs where "m s = Some t \<and> ready K 0 t \<and> length (insts t) \<le> length (insts s) + n
      \<and> holes t = holes s @ hs \<and> (\<forall>s'. relates f s s' \<longrightarrow>
        (if fits_all f hs then \<exists>t'. m s' = Some t' \<and> relates f t t' else m s' = None))" by blast
  with k(1) show "\<exists>t hs. m s = Some t \<and> ready K 0 t \<and> length (insts t) \<le> length (insts s) + k
      \<and> holes t = holes s @ hs \<and> (\<forall>s'. relates f s s' \<longrightarrow>
        (if fits_all f hs then \<exists>t'. m s' = Some t' \<and> relates f t t' else m s' = None))"
    by (intro exI [of _ t] exI [of _ hs]) auto
qed

lemma patches_skip: "patches f K 0 Some"
  by (auto simp: patches_def fits_all_def)

lemma inst_encodes: "\<exists>u. encode i = Inr u"
  by (cases i) simp_all

lemma patches_inst:
  assumes "is_ok r"
  shows "patches f K 1 (seq_i r)"
proof -
  from assms obtain i where "r = Inr i" by (auto simp: is_ok_iff)
  moreover obtain u where "encode i = Inr u" using inst_encodes by blast
  ultimately have i: "r = Inr i" "encode i = Inr u" by simp_all
  have "relates f (seq_fixed i s) (seq_fixed i s')" if "relates f s s'" for s s'
  proof -
    from that obtain ws ws' where w: "encode_all (insts s) = Some ws" "encode_all (insts s') = Some ws'"
      "patch_loop (holes s) f 0 ws = Some ws'" by (auto simp: relates_def)
    with that encode_all_snoc [OF w(1) i(2)] encode_all_snoc [OF w(2) i(2)] patch_loop_append [OF w(3), of "[u]"]
    show ?thesis by (simp add: relates_def seq_fixed_def)
  qed
  then show ?thesis
    by (auto simp: patches_def i(1) seq_fixed_def ready_def fits_all_def)
qed

lemma emit_hole_relates:
  assumes p: "patchable k mk" and r: "relates f s s'" and n: "length (insts s) < 60"
    and v: "field_value \<lparr>h_word = seq_word s, h_kind = k, h_field = fl\<rparr> (s_fill s) = Some v" "kind_fits k v"
    and fit: "hole_fits \<lparr>h_word = seq_word s, h_kind = k, h_field = fl\<rparr> f = Some True"
  shows "\<exists>t'. emit_hole k fl mk s' = Some t' \<and> relates f (seq_fixed (mk v) (hole k fl s)) t'"
proof -
  let ?h = "\<lparr>h_word = seq_word s, h_kind = k, h_field = fl\<rparr>"
  have w: "seq_word s' = seq_word s" "unat (seq_word s) = length (insts s)" "s_fill s' = f"
    using r n by (simp_all add: seq_word_def relates_def unat_of_nat take_bit_nat_eq_self)
  from fit obtain v' where v': "field_value ?h f = Some v'" "kind_fits k v'"
    by (auto simp: hole_fits_kind)
  with p v(2) obtain u where u: "encode (mk v) = Inr u" "encode (mk v') = Inr (kind_patch k u v')"
    unfolding patchable_def by blast
  from r obtain ws ws' where e: "encode_all (insts s) = Some ws" "encode_all (insts s') = Some ws'"
    "patch_loop (holes s) f 0 ws = Some ws'" by (auto simp: relates_def)
  have l: "length ws' = length (insts s)" using encode_all_length [OF e(2)] r by (simp add: relates_def)
  have "patch_loop (holes s @ [?h]) f 0 (ws @ [u]) = Some (ws' @ [kind_patch k u v'])"
    using patch_loop_append [OF e(3), of "[u]"] l
    by (simp add: patch_loop_snoc w(2) at_index_def patch_kind v'(1) Let_def nth_append list_update_append)
  then show ?thesis
    using r fit v' w encode_all_snoc [OF e(1) u(1)] encode_all_snoc [OF e(2) u(2)]
    by (auto simp: emit_hole_def relates_def seq_fixed_def hole_def fits_all_def)
qed

lemma patches_hole:
  assumes p: "patchable k mk"
    and v: "\<And>s. ready K 1 s \<Longrightarrow>
      \<exists>v. field_value \<lparr>h_word = seq_word s, h_kind = k, h_field = fl\<rparr> placeholder = Some v \<and> kind_fits k v"
  shows "patches f K 1 (emit_hole k fl mk)"
  unfolding patches_def
proof (intro allI impI)
  fix s assume r: "ready K 1 s"
  let ?h = "\<lparr>h_word = seq_word s, h_kind = k, h_field = fl\<rparr>"
  from v [OF r] r obtain v where v: "field_value ?h (s_fill s) = Some v" "kind_fits k v"
    by (auto simp: ready_def)
  let ?t = "seq_fixed (mk v) (hole k fl s)"
  have "if fits_all f [?h] then \<exists>t'. emit_hole k fl mk s' = Some t' \<and> relates f ?t t' else emit_hole k fl mk s' = None"
    if "relates f s s'" for s'
  proof (cases "hole_fits ?h f = Some True")
    case True
    with emit_hole_relates [OF p that _ v True] r show ?thesis by (simp add: fits_all_def ready_def)
  next
    case False
    moreover have "seq_word s' = seq_word s" "s_fill s' = f" using that by (simp_all add: seq_word_def relates_def)
    ultimately show ?thesis
      by (auto simp: fits_all_def emit_hole_def hole_fits_kind split: option.split)
  qed
  with v r show "\<exists>t hs. emit_hole k fl mk s = Some t \<and> ready K 0 t \<and> length (insts t) \<le> length (insts s) + 1
      \<and> holes t = holes s @ hs \<and> (\<forall>s'. relates f s s' \<longrightarrow>
        (if fits_all f hs then \<exists>t'. emit_hole k fl mk s' = Some t' \<and> relates f t t' else emit_hole k fl mk s' = None))"
    by (intro exI [of _ ?t] exI [of _ "[?h]"]) (auto simp: emit_hole_def seq_fixed_def hole_def ready_def)
qed

lemma site_ready:
  assumes "ready K 1 s" "kind \<in> K" "finite K" "card K \<le> 4"
  obtains i t where "site kind s = Some (i, t)" "unat i < 4" "ready K 1 t" "holes t = holes s" "insts t = insts s"
    "\<And>f s'. relates f s s' \<Longrightarrow> \<exists>t'. site kind s' = Some (i, t') \<and> relates f t t'"
proof (cases "position (\<lambda>k. k = kind) (sites s)")
  case (Some n)
  have "length (sites s) \<le> 4"
    using assms by (metis card_mono distinct_card le_trans ready_def)
  with position_less [OF Some] have "unat (word_of_nat n :: u8) < 4" by (simp add: unat_of_nat take_bit_nat_eq_self)
  moreover have "site kind s' = Some (word_of_nat n, s')" if "relates f s s'" for f s'
    using that Some by (simp add: site_def relates_def)
  ultimately show thesis using that [of "word_of_nat n" s] Some assms(1) by (auto simp: site_def)
next
  case None
  let ?t = "s\<lparr>sites := sites s @ [kind]\<rparr>"
  have pos: "position P xs = None \<Longrightarrow> x \<in> set xs \<Longrightarrow> \<not> P x" for P and xs :: "TrapKind list" and x
    by (induction xs) (auto split: if_splits)
  have d: "distinct (sites ?t)" "set (sites ?t) \<subseteq> K"
    using assms(1,2) pos [OF None] by (auto simp: ready_def)
  then have l: "length (sites s) + 1 \<le> 4"
    using assms(3,4) by (metis Seq.select_convs(4) Seq.surjective Seq.update_convs(4) card_mono distinct_card le_trans length_append_singleton Suc_eq_plus1)
  then have "unat (word_of_nat (length (sites s)) :: u8) < 4" by (simp add: unat_of_nat take_bit_nat_eq_self)
  moreover have "site kind s' = Some (word_of_nat (length (sites s)), s'\<lparr>sites := sites s' @ [kind]\<rparr>)
      \<and> relates f ?t (s'\<lparr>sites := sites s' @ [kind]\<rparr>)" if "relates f s s'" for f s'
    using that None l by (auto simp: site_def relates_def Let_def)
  moreover have "site kind s = Some (word_of_nat (length (sites s)), ?t)" using None l by (simp add: site_def Let_def)
  moreover have "ready K 1 ?t" using assms(1) d by (simp add: ready_def)
  ultimately show thesis using that [of "word_of_nat (length (sites s))" ?t] by auto
qed

lemma patches_site:
  assumes m: "\<And>i. unat i < 4 \<Longrightarrow> patches f K 1 (m i)" and K: "kind \<in> K" "finite K" "card K \<le> 4"
  shows "patches f K 1 (\<lambda>s. Option.bind (site kind s) (\<lambda>(i, s). m i s))"
  unfolding patches_def
proof (intro allI impI)
  fix s assume "ready K 1 s"
  from site_ready [OF this K] obtain i t where t: "site kind s = Some (i, t)" "unat i < 4" "ready K 1 t"
    "holes t = holes s" "insts t = insts s"
    "\<And>f s'. relates f s s' \<Longrightarrow> \<exists>t'. site kind s' = Some (i, t') \<and> relates f t t'" by blast
  from patchesD [OF m [OF t(2)] t(3)] obtain u hs where u: "m i t = Some u" "ready K 0 u"
    "length (insts u) \<le> length (insts t) + 1" "holes u = holes t @ hs"
    "\<And>s'. relates f t s' \<Longrightarrow> (if fits_all f hs then \<exists>t'. m i s' = Some t' \<and> relates f u t' else m i s' = None)"
    by blast
  let ?m = "\<lambda>s. Option.bind (site kind s) (\<lambda>(i, s). m i s)"
  have "if fits_all f hs then \<exists>t'. ?m s' = Some t' \<and> relates f u t' else ?m s' = None" if "relates f s s'" for s'
    using t(6) [OF that] u(5) by fastforce
  with t u show "\<exists>t hs. ?m s = Some t \<and> ready K 0 t \<and> length (insts t) \<le> length (insts s) + 1
      \<and> holes t = holes s @ hs \<and> (\<forall>s'. relates f s s' \<longrightarrow>
        (if fits_all f hs then \<exists>t'. ?m s' = Some t' \<and> relates f t t' else ?m s' = None))"
    by (intro exI [of _ u] exI [of _ hs]) auto
qed

lemma ready_word: "ready K 1 s \<Longrightarrow> uint (seq_word s) = int (length (insts s)) \<and> length (insts s) < 60"
  by (simp add: ready_def seq_word_def unsigned_of_nat take_bit_nat_eq_self)

lemma placeholder_trap:
  assumes "ready K 1 s" "unat i < 4" "k = Br19 \<or> k = Br14 \<or> k = Br26"
  shows "\<exists>v. field_value \<lparr>h_word = seq_word s, h_kind = k, h_field = F_Trap i\<rparr> placeholder = Some v \<and> kind_fits k v"
  using ready_word [OF assms(1)] assms(2,3) less_4_cases [OF assms(2)]
  by (auto simp: field_value_def placeholder_def at_index_def i64_sub_def in_signed_def fits_signed_def Let_def)

section \<open>The builder locale for the patching relation\<close>

lemma patches_trap:
  assumes "kind \<in> K" "finite K" "card K \<le> 4" "k = Br19 \<or> k = Br14 \<or> k = Br26" "patchable k mk"
  shows "patches f K 1 (\<lambda>s. Option.bind (site kind s) (\<lambda>(i, s). emit_hole k (F_Trap i) mk s))"
  using assms by (intro patches_site patches_hole placeholder_trap)

lemmas placeholder_eqs = field_value_def placeholder_def at_index_def i64_sub_def in_signed_def fits_signed_def Let_def

lemma builder_patches:
  assumes K: "finite K" "card K \<le> 4"
  shows "builder (patches f K) K"
proof (rule builder.intro)
  show "patches f K 0 Some" by (rule patches_skip)
  show "patches f K n m \<Longrightarrow> patches f K k m' \<Longrightarrow> patches f K (n + k) (\<lambda>s. m s \<bind> m')" for n k m m'
    by (rule patches_bind)
  show "patches f K n m \<Longrightarrow> n \<le> k \<Longrightarrow> patches f K k m" for n k m by (rule patches_weaken)
  show "is_ok r \<Longrightarrow> patches f K 1 (seq_i r)" for r by (rule patches_inst)
  show "fl = SlotA \<or> fl = SlotB \<Longrightarrow> rt \<le> 30 \<Longrightarrow> patches f K 1 (ldr_slot rt fl)" for fl rt
    by (subst slot_holes(1), blast, assumption, rule patches_hole [OF patchable_ldst])
      (auto simp: placeholder_eqs)
  show "rt \<le> 30 \<Longrightarrow> patches f K 1 (str_slot rt SlotDst)" for rt
    by (subst slot_holes(2), blast, assumption, rule patches_hole [OF patchable_ldst])
      (auto simp: placeholder_eqs)
  show "rd \<le> 30 \<Longrightarrow> unat i < 4 \<Longrightarrow> patches f K 1 (movz_imm (xr rd) i 0)" for rd i
    unfolding mov_holes(1) by (rule patches_hole [OF patchable_mov], assumption)
      (auto simp: placeholder_eqs dest!: less_4_cases)
  show "rd \<le> 30 \<Longrightarrow> unat i < 4 \<Longrightarrow> sh \<in> {16, 32, 48} \<Longrightarrow> patches f K 1 (movk_imm (xr rd) i sh)" for rd i sh
    by (subst mov_holes(2), assumption, rule patches_hole [OF patchable_mov], assumption)
      (auto simp: placeholder_eqs dest!: less_4_cases)
  show "wf_cond c \<Longrightarrow> kind \<in> K \<Longrightarrow> patches f K 1 (trap_if c kind)" for c kind
    unfolding trap_holes by (rule patches_trap) (simp_all add: K patchable_b_cond)
  show "rd \<le> 30 \<Longrightarrow> kind \<in> K \<Longrightarrow> patches f K 1 (trap_cbz (xr rd) kind)" for rd kind
    unfolding trap_holes by (rule patches_trap) (simp_all add: K patchable_cb)
  show "rd \<le> 30 \<Longrightarrow> kind \<in> K \<Longrightarrow> patches f K 1 (trap_cbnz (xr rd) kind)" for rd kind
    unfolding trap_holes by (rule patches_trap) (simp_all add: K patchable_cb)
  show "rd \<le> 30 \<Longrightarrow> kind \<in> K \<Longrightarrow> patches f K 1 (trap_tbnz (xr rd) 63 kind)" for rd kind
    unfolding trap_holes by (rule patches_trap) (simp_all add: K patchable_tb)
  show "kind \<in> K \<Longrightarrow> patches f K 1 (trap_always kind)" for kind
    unfolding trap_holes by (rule patches_trap) (simp_all add: K patchable_b)
  show "patches f K 1 (seq_bl rts)" for rts
    unfolding call_holes by (rule patches_hole [OF patchable_b]) (drule ready_word, auto simp: placeholder_eqs)
  show "rd \<le> 30 \<Longrightarrow> patches f K 1 (adr_lit (xr rd))" for rd
    unfolding call_holes by (rule patches_hole [OF patchable_adr], assumption) (drule ready_word, auto simp: placeholder_eqs)
qed

definition std_traps :: "TrapKind set" where
  "std_traps = {Overflow, DivZero, Shift, CheckedConversion}"

interpretation std: builder "patches f std_traps" std_traps for f
  by (rule builder_patches) (simp_all add: std_traps_def)

interpretation jump: builder "patches f {k}" "{k}" for f k
  by (rule builder_patches) simp_all

lemma body_patches: "valid_key key \<Longrightarrow> \<exists>K. patches f K 30 (body key)"
  using std.body [of key f] jump.body [of key]
  by (cases key) (fastforce simp: std_traps_def split: option.splits)+

lemma key_run:
  assumes "valid_key key"
  obtains t ws where "body key (seq_new placeholder) = Some t" "length (insts t) \<le> 30" "encode_all (insts t) = Some ws"
    "\<And>f. if fits_all f (holes t) then \<exists>t'. body key (seq_new f) = Some t' \<and> relates f t t' else body key (seq_new f) = None"
proof -
  have r: "ready K 30 (seq_new placeholder)" "relates f (seq_new placeholder) (seq_new f)" for K f
    by (simp_all add: ready_def relates_def seq_new_def fits_all_def)
  obtain t where t: "body key (seq_new placeholder) = Some t" "length (insts t) \<le> 30"
    using body_patches [OF assms] r(1) unfolding patches_def by (fastforce simp: seq_new_def)
  have f: "if fits_all f (holes t) then \<exists>t'. body key (seq_new f) = Some t' \<and> relates f t t' else body key (seq_new f) = None" for f
  proof -
    from body_patches [OF assms] obtain K where K: "patches f K 30 (body key)" by blast
    from patchesD [OF K r(1)] t(1) obtain hs where "holes t = holes (seq_new placeholder) @ hs"
      "\<And>s'. relates f (seq_new placeholder) s' \<Longrightarrow>
        (if fits_all f hs then \<exists>t'. body key s' = Some t' \<and> relates f t t' else body key s' = None)"
      by (metis option.inject)
    with r(2) [of f] show ?thesis by (simp add: seq_new_def)
  qed
  have "\<exists>ws. encode_all is = Some ws" for "is"
  proof (induction "is")
    case (Cons i "is")
    then show ?case using inst_encodes [of i] by auto
  qed simp
  with t f that show thesis by metis
qed

end
