(* ===== verification/Stencil_Theorems.thy ===== *)
theory Stencil_Theorems
  imports Stencil_Patch
begin

text \<open>
  The theorems about the stencil table: every key is built, found again, and patching its words at
  any place of the output is encoding its body on the actual values.
\<close>

section \<open>Patching in the output buffer\<close>

lemma patch_loop_base:
  "patch_loop hs f b ws = Some ws' \<Longrightarrow> patch_loop hs f (length out + b) (out @ ws) = Some (out @ ws')"
  by (induction hs arbitrary: ws)
    (auto simp: Let_def at_index_def list_update_append nth_append add.assoc split: Option.bind_splits if_splits)

lemma from_key_run:
  assumes "valid_key key"
  obtains st :: Stencil and t :: Seq where "from_key key = Some st" "st_key st = key" "st_holes st = holes t" "st_sites st = sites t"
    "length (st_words st) \<le> 30"
    "\<And>f. if fits_all f (holes t)
      then \<exists>t' ws. build key f = Some (ws, t') \<and> holes t' = holes t \<and> sites t' = sites t
        \<and> patch_loop (holes t) f 0 (st_words st) = Some ws
      else build key f = None"
proof -
  obtain t ws where t: "body key (seq_new placeholder) = Some t" "length (insts t) \<le> 30" "encode_all (insts t) = Some ws"
    "\<And>f. if fits_all f (holes t) then \<exists>t'. body key (seq_new f) = Some t' \<and> relates f t t' else body key (seq_new f) = None"
    using key_run [OF assms] by blast
  define st where "st = \<lparr>st_key = key, st_words = ws, st_holes = holes t, st_sites = sites t, st_calls = find_call (holes t)\<rparr>"
  have "from_key key = Some st" by (simp add: from_key_def build_def t(1,3) st_def)
  moreover have "if fits_all f (holes t)
      then \<exists>t' ws. build key f = Some (ws, t') \<and> holes t' = holes t \<and> sites t' = sites t
        \<and> patch_loop (holes t) f 0 (st_words st) = Some ws
      else build key f = None" for f
    using t(4) [of f] t(3) by (auto simp: build_def relates_def st_def split: if_splits)
  ultimately show thesis
    using t(2) encode_all_length [OF t(3)] by (intro that [of st t]) (assumption | simp add: st_def)+
qed

lemma from_key_total: "valid_key key \<Longrightarrow> \<exists>st. from_key key = Some st \<and> st_key st = key"
  by (erule from_key_run) blast

text \<open>C39: for every key of the table the stencil exists, and for every fill, patching the copied words at the end of
  any output buffer produces exactly the words that encoding the body on the fill's own values produces; a fill makes
  the encoder refuse the body exactly when one of the stencil's holes does not fit.\<close>

theorem patching_is_encoding:
  assumes "key \<in> set all_keys"
  shows "\<exists>st. from_key key = Some st \<and> (\<forall>fill out.
    case build key fill of
      Some (ws, s) \<Rightarrow> (\<forall>h \<in> set (st_holes st). hole_fits h fill = Some True)
        \<and> holes s = st_holes st \<and> sites s = st_sites st
        \<and> instantiate_into st fill out = Some (out @ ws)
    | None \<Rightarrow> (\<exists>h \<in> set (st_holes st). hole_fits h fill \<noteq> Some True))"
proof -
  obtain st and t :: Seq where st: "from_key key = Some st" "st_holes st = holes t" "st_sites st = sites t"
    "\<And>f. if fits_all f (holes t)
      then \<exists>t' ws. build key f = Some (ws, t') \<and> holes t' = holes t \<and> sites t' = sites t
        \<and> patch_loop (holes t) f 0 (st_words st) = Some ws
      else build key f = None"
    by (rule from_key_run [OF all_keys_valid [OF assms]]) blast
  have "case build key fill of
      Some (ws, s) \<Rightarrow> (\<forall>h \<in> set (st_holes st). hole_fits h fill = Some True)
        \<and> holes s = st_holes st \<and> sites s = st_sites st
        \<and> instantiate_into st fill out = Some (out @ ws)
    | None \<Rightarrow> (\<exists>h \<in> set (st_holes st). hole_fits h fill \<noteq> Some True)" for fill out
  proof (cases "fits_all fill (holes t)")
    case True
    with st(4) [of fill] obtain s ws where s: "build key fill = Some (ws, s)" "holes s = holes t" "sites s = sites t"
      "patch_loop (holes t) fill 0 (st_words st) = Some ws" by auto
    have "instantiate_into st fill out = Some (out @ ws)"
      using patch_loop_base [OF s(4), of out] by (simp add: instantiate_into_def st(2))
    with s True st(2,3) show ?thesis by (simp add: fits_all_def)
  next
    case False
    with st(4) [of fill] st(2) show ?thesis by (simp add: fits_all_def)
  qed
  with st(1) show ?thesis by blast
qed

theorem patching_is_encoding_witness:
  "K_Bin B_Add M_Trap T_I64 \<in> set all_keys \<and> (\<exists>st. from_key (K_Bin B_Add M_Trap T_I64) = Some st)"
proof -
  have "K_Bin B_Add M_Trap T_I64 \<in> set all_keys" by (simp add: all_keys_def int_tys_def)
  from this patching_is_encoding [OF this] show ?thesis by blast
qed

section \<open>The table\<close>

lemma table_loop_index:
  assumes "\<forall>key \<in> set keys. valid_key key" "length (stencils t) + length keys < 2 ^ 32"
    and "\<forall>key i. tb_index t key = Some i \<longrightarrow> (\<exists>st. at_index (stencils t) (unat i) = Some st \<and> from_key key = Some st)"
  shows "\<exists>t'. table_loop keys t = Some t' \<and> dom (tb_index t') = dom (tb_index t) \<union> set keys
    \<and> length (stencils t') = length (stencils t) + length keys
    \<and> (\<forall>key i. tb_index t' key = Some i \<longrightarrow> (\<exists>st. at_index (stencils t') (unat i) = Some st \<and> from_key key = Some st))"
  using assms
proof (induction keys arbitrary: t)
  case (Cons key keys)
  obtain st where st: "from_key key = Some st" using from_key_total [of key] Cons.prems(1) by auto
  let ?t = "t\<lparr>stencils := stencils t @ [st], tb_index := (tb_index t)(key \<mapsto> word_of_nat (length (stencils t)))\<rparr>"
  have "unat (word_of_nat (length (stencils t)) :: u32) = length (stencils t)"
    using Cons.prems(2) by (simp add: unat_of_nat take_bit_nat_eq_self)
  then have "\<forall>key i. tb_index ?t key = Some i \<longrightarrow> (\<exists>st. at_index (stencils ?t) (unat i) = Some st \<and> from_key key = Some st)"
    using Cons.prems(3) st by (fastforce simp: at_index_def nth_append split: if_splits)
  with Cons.IH [of ?t] Cons.prems(1,2) st show ?case by auto
qed simp

lemma all_keys_length: "length all_keys < 2 ^ 32"
  by (simp add: all_keys_def int_tys_def preds_def upt_conv_Cons)

lemma table_built:
  obtains t where "table = Some t" "length (stencils t) = length all_keys"
    "\<And>key. key \<notin> set all_keys \<Longrightarrow> table_get t key = None \<and> table_id t key = None"
    "\<And>key. key \<in> set all_keys \<Longrightarrow> \<exists>i st. table_id t key = Some i \<and> at_index (stencils t) (unat i) = Some st
      \<and> from_key key = Some st \<and> table_get t key = Some st"
proof -
  obtain t where t: "table = Some t" "dom (tb_index t) = set all_keys" "length (stencils t) = length all_keys"
    "\<And>key i. tb_index t key = Some i \<Longrightarrow> \<exists>st. at_index (stencils t) (unat i) = Some st \<and> from_key key = Some st"
    using table_loop_index [of all_keys "\<lparr>stencils = [], tb_index = Map.empty\<rparr>"] all_keys_valid all_keys_length
    by (auto simp: table_def)
  show thesis
  proof (rule that [OF t(1,3)])
    show "table_get t key = None \<and> table_id t key = None" if "key \<notin> set all_keys" for key
    proof -
      have "tb_index t key = None" using that t(2) by (metis domIff)
      then show ?thesis by (simp add: table_get_def table_id_def)
    qed
    show "\<exists>i st. table_id t key = Some i \<and> at_index (stencils t) (unat i) = Some st
      \<and> from_key key = Some st \<and> table_get t key = Some st" if key: "key \<in> set all_keys" for key
    proof -
      from key t(2) obtain i where i: "tb_index t key = Some i" by auto
      with t(4) [OF i] show ?thesis by (auto simp: table_get_def table_id_def)
    qed
  qed
qed

text \<open>C40: building the table of all stencils succeeds, and a lookup of every key finds the stencil built for that key.\<close>

theorem table_complete:
  "\<exists>t. table = Some t \<and> length (stencils t) = length all_keys
    \<and> (\<forall>key. table_get t key = (if key \<in> set all_keys then from_key key else None))
    \<and> (\<forall>key. table_id t key = None \<longleftrightarrow> key \<notin> set all_keys)"
proof -
  obtain t where t: "table = Some t" "length (stencils t) = length all_keys"
    "\<And>key. key \<notin> set all_keys \<Longrightarrow> table_get t key = None \<and> table_id t key = None"
    "\<And>key. key \<in> set all_keys \<Longrightarrow> \<exists>i st. table_id t key = Some i \<and> at_index (stencils t) (unat i) = Some st
      \<and> from_key key = Some st \<and> table_get t key = Some st"
    by (rule table_built) blast
  have "table_get t key = (if key \<in> set all_keys then from_key key else None)" for key
    using t(3) [of key] t(4) [of key] by auto
  moreover have "table_id t key = None \<longleftrightarrow> key \<notin> set all_keys" for key
    using t(3) [of key] t(4) [of key] by auto
  ultimately show ?thesis using t(1,2) by blast
qed

end
