(* ===== verification/Oir_Code.thy ===== *)
theory Oir_Code
  imports Stencil_Int
begin

text \<open>
  The dev backend's OIR (\<^verbatim>\<open>fors-oir\<close>): the struct-of-arrays model of \<^verbatim>\<open>ir.rs\<close>, the alias classes of
  \<^verbatim>\<open>alias.rs\<close> and the verifier of \<^verbatim>\<open>verify.rs\<close>. The columns are lists; the newtype \<^verbatim>\<open>ValueId\<close> is its
  \<^verbatim>\<open>u32\<close>; \<^verbatim>\<open>LowTy\<close> is declared with the stencils.
\<close>

section \<open>Low types\<close>

definition NONE :: u32 where "NONE = - 1"

definition LOW_INTS :: "LowTy list" where
  "LOW_INTS = [Low_I8, Low_I16, Low_I32, Low_I64, Low_U8, Low_U16, Low_U32, Low_U64]"

definition low_is_int :: "LowTy \<Rightarrow> bool" where
  "low_is_int t \<longleftrightarrow> t \<in> set LOW_INTS"

definition low_is_scalar :: "LowTy \<Rightarrow> bool" where
  "low_is_scalar t \<longleftrightarrow> low_is_int t \<or> t = Low_Bool"

definition low_signed :: "LowTy \<Rightarrow> bool" where
  "low_signed t \<longleftrightarrow> (case t of Low_I8 \<Rightarrow> True | Low_I16 \<Rightarrow> True | Low_I32 \<Rightarrow> True | Low_I64 \<Rightarrow> True | _ \<Rightarrow> False)"

fun low_width :: "LowTy \<Rightarrow> nat" where
  "low_width Low_I8 = 8" | "low_width Low_U8 = 8"
| "low_width Low_I16 = 16" | "low_width Low_U16 = 16"
| "low_width Low_I32 = 32" | "low_width Low_U32 = 32"
| "low_width Low_I64 = 64" | "low_width Low_U64 = 64"
| "low_width Low_Bool = 1"
| "low_width Low_Unit = 0" | "low_width Low_Str = 0"

section \<open>Rows\<close>

datatype OMode = Mode_None | Mode_Trap | Mode_Wrap | Mode_Sat

datatype OirOp =
    O_ConstInt | O_ConstBool | O_ConstUnit | O_ConstStr
  | O_Add | O_Sub | O_Mul | O_Div | O_Rem | O_Shl | O_Shr | O_Neg
  | O_And | O_Or | O_Xor | O_Not
  | O_Icmp CmpPred
  | O_ConvChecked | O_ConvWrap | O_ConvSat
  | O_SlotLoad | O_SlotStore
  | O_WriteUint | O_WriteLine
  | O_Tile

fun oir_name :: "OirOp \<Rightarrow> string" where
  "oir_name O_ConstInt = ''const_int''" | "oir_name O_ConstBool = ''const_bool''"
| "oir_name O_ConstUnit = ''const_unit''" | "oir_name O_ConstStr = ''const_str''"
| "oir_name O_Add = ''add''" | "oir_name O_Sub = ''sub''" | "oir_name O_Mul = ''mul''"
| "oir_name O_Div = ''div''" | "oir_name O_Rem = ''rem''"
| "oir_name O_Shl = ''shl''" | "oir_name O_Shr = ''shr''" | "oir_name O_Neg = ''neg''"
| "oir_name O_And = ''and''" | "oir_name O_Or = ''or''" | "oir_name O_Xor = ''xor''" | "oir_name O_Not = ''not''"
| "oir_name (O_Icmp _) = ''icmp''"
| "oir_name O_ConvChecked = ''conv_checked''" | "oir_name O_ConvWrap = ''conv_wrap''"
| "oir_name O_ConvSat = ''conv_sat''"
| "oir_name O_SlotLoad = ''slot_load''" | "oir_name O_SlotStore = ''slot_store''"
| "oir_name O_WriteUint = ''write_uint''" | "oir_name O_WriteLine = ''write_line''"
| "oir_name O_Tile = ''tile''"

definition is_slot_row :: "OirOp \<Rightarrow> bool" where
  "is_slot_row op \<longleftrightarrow> op = O_SlotLoad \<or> op = O_SlotStore"

datatype AliasSource = As_Convention | As_Affine

datatype AliasClass = Ac_Root u32 AliasSource

record Values =
  v_ty :: "LowTy list"
  v_secret :: "bool list"
  v_ct :: "u16 list"
  v_fmir :: "u32 list"

definition values_default :: Values where
  "values_default = \<lparr>v_ty = [], v_secret = [], v_ct = [], v_fmir = []\<rparr>"

definition values_push :: "LowTy \<Rightarrow> bool \<Rightarrow> u16 \<Rightarrow> u32 \<Rightarrow> Values \<Rightarrow> u32 \<times> Values" where
  "values_push ty secret ct fmir vs =
     (word_of_nat (length (v_ty vs)),
      vs\<lparr>v_ty := v_ty vs @ [ty], v_secret := v_secret vs @ [secret], v_ct := v_ct vs @ [ct],
         v_fmir := v_fmir vs @ [fmir]\<rparr>)"

record Rows =
  r_op :: "OirOp list"
  r_a :: "u32 list"
  r_b :: "u32 list"
  r_ty :: "LowTy list"
  r_mode :: "OMode list"
  r_alias :: "AliasClass option list"
  r_site :: "u32 list"
  r_dst :: "u32 list"

definition rows_default :: Rows where
  "rows_default = \<lparr>r_op = [], r_a = [], r_b = [], r_ty = [], r_mode = [], r_alias = [], r_site = [], r_dst = []\<rparr>"

definition rows_push ::
  "OirOp \<Rightarrow> u32 \<Rightarrow> u32 \<Rightarrow> LowTy \<Rightarrow> OMode \<Rightarrow> AliasClass option \<Rightarrow> u32 \<Rightarrow> u32 \<Rightarrow> Rows \<Rightarrow> Rows" where
  "rows_push op a b ty mode al st dst r =
     r\<lparr>r_op := r_op r @ [op], r_a := r_a r @ [a], r_b := r_b r @ [b], r_ty := r_ty r @ [ty],
       r_mode := r_mode r @ [mode], r_alias := r_alias r @ [al], r_site := r_site r @ [st],
       r_dst := r_dst r @ [dst]\<rparr>"

record OSlot =
  sl_root :: u32
  sl_ty :: LowTy

datatype OTerm = Term_Ret | Term_Trap TrapKind

record OirFunc =
  of_decl :: u32
  of_values :: Values
  of_rows :: Rows
  of_slots :: "OSlot list"
  of_strings :: "u8 list list"
  of_term :: OTerm
  of_term_site :: u32
  of_sites :: "(u32 \<times> u32) list"

section \<open>Alias classes\<close>

datatype Conv = Conv_Let | Conv_Inout | Conv_Sink | Conv_Set

datatype AliasSeed = Seed_None | Seed_Conv Conv | Seed_Own u32 | Seed_Arena u32 | Seed_Split u32 u8

definition class_of_root :: "u32 \<Rightarrow> u32 \<Rightarrow> AliasSeed \<Rightarrow> (string, AliasClass) result" where
  "class_of_root root n_params seed =
     (case seed of
        Seed_Conv _ \<Rightarrow> Inr (Ac_Root root As_Convention)
      | Seed_Own _ \<Rightarrow> Inr (Ac_Root root As_Affine)
      | Seed_None \<Rightarrow> if root < n_params then Inr (Ac_Root root As_Convention) else Inr (Ac_Root root As_Affine)
      | Seed_Arena _ \<Rightarrow> Inl ''arena-brand alias seed on a scalar root''
      | Seed_Split _ _ \<Rightarrow> Inl ''split alias seed on a scalar root'')"

section \<open>The verifier\<close>

datatype VerifyError =
    V_MissingSecret u32 | V_MissingCt u32 | V_MissingAliasClass u32 | V_UntraceableAliasClass u32
  | V_TileOp u32 | V_RaggedRows | V_BadOperand u32 | V_BadSlot u32 | V_TypeMismatch u32

definition CT_UNSPECIFIED :: u16 where "CT_UNSPECIFIED = - 1"

fun verify_values :: "nat list \<Rightarrow> Values \<Rightarrow> (VerifyError, unit) result" where
  "verify_values [] vs = Inr ()"
| "verify_values (v # ns) vs =
     (if length (v_secret vs) \<le> v then Inl (V_MissingSecret (word_of_nat v))
      else if length (v_ct vs) \<le> v \<or> v_ct vs ! v = CT_UNSPECIFIED then Inl (V_MissingCt (word_of_nat v))
      else verify_values ns vs)"

definition ragged :: "Rows \<Rightarrow> bool" where
  "ragged r \<longleftrightarrow> (let len = length (r_op r)
     in length (r_a r) \<noteq> len \<or> length (r_b r) \<noteq> len \<or> length (r_ty r) \<noteq> len \<or> length (r_mode r) \<noteq> len
        \<or> length (r_alias r) \<noteq> len \<or> length (r_site r) \<noteq> len \<or> length (r_dst r) \<noteq> len)"

text \<open>The value operands of a row, the slice \<^verbatim>\<open>value_cols\<close>.\<close>

definition value_cols :: "OirOp \<Rightarrow> u32 \<Rightarrow> u32 \<Rightarrow> u32 list" where
  "value_cols op a b =
     (case op of
        O_ConstInt \<Rightarrow> [] | O_ConstBool \<Rightarrow> [] | O_ConstUnit \<Rightarrow> [] | O_ConstStr \<Rightarrow> []
      | O_SlotLoad \<Rightarrow> []
      | O_SlotStore \<Rightarrow> [b]
      | O_Neg \<Rightarrow> [a] | O_Not \<Rightarrow> [a] | O_ConvChecked \<Rightarrow> [a] | O_ConvWrap \<Rightarrow> [a] | O_ConvSat \<Rightarrow> [a]
      | O_WriteUint \<Rightarrow> [a] | O_WriteLine \<Rightarrow> [a]
      | _ \<Rightarrow> [a, b])"

definition slot_error :: "OirFunc \<Rightarrow> nat \<Rightarrow> VerifyError option" where
  "slot_error f i =
     (let r = of_rows f; row = word_of_nat i; n = unat (r_a r ! i)
      in if \<not> is_slot_row (r_op r ! i) then None
         else if length (of_slots f) \<le> n then Some (V_BadSlot row)
         else case r_alias r ! i of
           None \<Rightarrow> Some (V_MissingAliasClass row)
         | Some (Ac_Root root _) \<Rightarrow>
             if root \<noteq> sl_root (of_slots f ! n) then Some (V_UntraceableAliasClass row) else None)"

text \<open>The loop over the rows; \<open>defined\<close> is the bit vector of the values defined so far. Every index is
  in range there: the columns are not ragged, and a value is below \<open>length defined\<close> when it is read.\<close>

fun verify_rows :: "OirFunc \<Rightarrow> nat list \<Rightarrow> bool list \<Rightarrow> (VerifyError, unit) result" where
  "verify_rows f [] defined = Inr ()"
| "verify_rows f (i # is) defined =
     (let r = of_rows f; n = length (v_ty (of_values f)); row = word_of_nat i; op = r_op r ! i; dst = r_dst r ! i
      in if op = O_Tile then Inl (V_TileOp row)
         else case slot_error f i of
           Some e \<Rightarrow> Inl e
         | None \<Rightarrow>
             if list_ex (\<lambda>v. v = NONE \<or> n \<le> unat v \<or> \<not> defined ! unat v) (value_cols op (r_a r ! i) (r_b r ! i))
             then Inl (V_BadOperand row)
             else if dst \<noteq> NONE
             then (let d = unat dst
                   in if n \<le> d \<or> defined ! d then Inl (V_BadOperand row)
                      else if v_ty (of_values f) ! d \<noteq> r_ty r ! i then Inl (V_TypeMismatch row)
                      else verify_rows f is (defined[d := True]))
             else if r_ty r ! i \<noteq> Low_Unit then Inl (V_TypeMismatch row)
             else verify_rows f is defined)"

definition oir_verify :: "OirFunc \<Rightarrow> (VerifyError, unit) result" where
  "oir_verify f =
     (let n = length (v_ty (of_values f))
      in bindR (verify_values [0..<n] (of_values f)) (\<lambda>_.
         if ragged (of_rows f) then Inl V_RaggedRows
         else verify_rows f [0..<length (r_op (of_rows f))] (replicate n False)))"

end
