(* ===== verification/Codegen_Code.thy ===== *)
theory Codegen_Code
  imports Oir_Code Stencil_Int
begin

text \<open>
  The rest of the dev code generator (\<^verbatim>\<open>fors-codegen-dev/src\<close>): the frame layout (\<^verbatim>\<open>frame.rs\<close>), LIR
  (\<^verbatim>\<open>lir.rs\<close>), the selection of one stencil per OIR row (\<^verbatim>\<open>select.rs\<close>), the cold trap tail (\<^verbatim>\<open>trap.rs\<close>) and
  the emission of an atom (\<^verbatim>\<open>emit.rs\<close>). \<open>None\<close> is a panic (an \<^verbatim>\<open>expect\<close>, an index out of range, a \<^verbatim>\<open>u32\<close>
  overflow); inside it, \<open>Inl\<close> is a refusal. The atoms of \<^verbatim>\<open>fors-obj/src/atom.rs\<close> are records.
\<close>

section \<open>Checked arithmetic\<close>

definition u32_add :: "u32 \<Rightarrow> u32 \<Rightarrow> u32 option" where
  "u32_add x y = (if unat x + unat y < 2 ^ 32 then Some (x + y) else None)"

definition u32_mul :: "u32 \<Rightarrow> u32 \<Rightarrow> u32 option" where
  "u32_mul x y = (if unat x * unat y < 2 ^ 32 then Some (x * y) else None)"

section \<open>Refusals\<close>

record Refusal =
  rf_decl :: u32
  rf_inst :: "u32 option"
  rf_op :: string
  rf_reason :: string

definition refuse :: "OirFunc \<Rightarrow> nat option \<Rightarrow> string \<Rightarrow> string \<Rightarrow> Refusal" where
  "refuse f row op why =
     \<lparr>rf_decl = of_decl f, rf_inst = map_option word_of_nat row, rf_op = op, rf_reason = why\<rparr>"

definition reason_OP :: string where "reason_OP = ''op not in the M2-0 subset''"
definition reason_TYPE :: string where "reason_TYPE = ''type not in the M2-0 subset''"
definition reason_SECRET :: string where "reason_SECRET = ''secret values need the spill class (M2-10)''"
definition reason_FRAME :: string where "reason_FRAME = ''frame over 32 KiB''"
definition reason_STR_USE :: string where
  "reason_STR_USE = ''a string constant used other than as write_line'' @ [CHR 0x27] @ ''s text''"

section \<open>The frame\<close>

definition MAX_FRAME :: nat where "MAX_FRAME = 32 * 1024"

record Frame =
  fr_size :: u32
  fr_values :: u32

definition frame_of :: "OirFunc \<Rightarrow> Frame option" where
  "frame_of f =
     (let slots = length (v_ty (of_values f)) + length (of_slots f);
          size = (slots * 8 + 15) div 16 * 16
      in if size > MAX_FRAME then None
         else Some \<lparr>fr_size = word_of_nat size, fr_values = word_of_nat (length (v_ty (of_values f)))\<rparr>)"

definition frame_value :: "Frame \<Rightarrow> u32 \<Rightarrow> u32 option" where
  "frame_value fr v = u32_mul 8 v"

definition frame_place :: "Frame \<Rightarrow> u32 \<Rightarrow> u32 option" where
  "frame_place fr s = Option.bind (u32_add (fr_values fr) s) (u32_mul 8)"

section \<open>LIR\<close>

definition NO_LIT :: u32 where "NO_LIT = - 1"

record Lir =
  lr_stencil :: "u32 list"
  lr_fill :: "Fill list"
  lr_lit :: "u32 list"
  lr_secret_mask :: "u8 list"
  lr_ct :: "u16 list"
  lr_oir_row :: "u32 list"
  lr_site :: "u32 list"

definition lir_default :: Lir where
  "lir_default = \<lparr>lr_stencil = [], lr_fill = [], lr_lit = [], lr_secret_mask = [], lr_ct = [], lr_oir_row = [], lr_site = []\<rparr>"

definition lir_push :: "u32 \<Rightarrow> Fill \<Rightarrow> u32 \<Rightarrow> u8 \<Rightarrow> u16 \<Rightarrow> u32 \<Rightarrow> u32 \<Rightarrow> Lir \<Rightarrow> Lir" where
  "lir_push st fill lit sm ct row at l =
     l\<lparr>lr_stencil := lr_stencil l @ [st], lr_fill := lr_fill l @ [fill], lr_lit := lr_lit l @ [lit],
       lr_secret_mask := lr_secret_mask l @ [sm], lr_ct := lr_ct l @ [ct],
       lr_oir_row := lr_oir_row l @ [row], lr_site := lr_site l @ [at]\<rparr>"

section \<open>Selection\<close>

fun ar :: "OMode \<Rightarrow> ArMode option" where
  "ar Mode_Trap = Some M_Trap" | "ar Mode_Wrap = Some M_Wrap" | "ar Mode_Sat = Some M_Sat"
| "ar Mode_None = None"

definition canonical :: "u64 \<Rightarrow> IntTy \<Rightarrow> u64" where
  "canonical bits ty =
     (let w = ty_width ty
      in if w = 64 then bits
         else let low = bits AND (push_bit w 1 - 1)
              in if ty_signed ty then signed_drop_bit (64 - w) (push_bit (64 - w) low) else low)"

text \<open>The key of a row; the outer \<open>None\<close> is an index out of range.\<close>

definition key_of :: "OirFunc \<Rightarrow> nat \<Rightarrow> Key option option" where
  "key_of f i = do {
     let r = of_rows f;
     ty \<leftarrow> at_index (r_ty r) i;
     op \<leftarrow> at_index (r_op r) i;
     let vty = (\<lambda>v. at_index (v_ty (of_values f)) (unat v));
     let int = int_ty_of ty;
     let arith = (\<lambda>op. do {
           m \<leftarrow> at_index (r_mode r) i;
           Some (do { mode \<leftarrow> ar m; t \<leftarrow> int; Some (K_Bin op mode t) }) });
     let shift = (\<lambda>op. do {
           m \<leftarrow> at_index (r_mode r) i;
           (case ar m of
              None \<Rightarrow> Some None
            | Some mode \<Rightarrow>
                (case int of
                   None \<Rightarrow> Some None
                 | Some t \<Rightarrow> do {
                     b \<leftarrow> at_index (r_b r) i;
                     bt \<leftarrow> vty b;
                     Some (do { c \<leftarrow> int_ty_of bt; Some (K_Shift op mode t (raw_ext c)) }) })) });
     let conv = (\<lambda>op. do {
           a \<leftarrow> at_index (r_a r) i;
           at \<leftarrow> vty a;
           Some (do { from \<leftarrow> int_ty_of at; to \<leftarrow> int; Some (K_Conv op from to) }) });
     (case op of
        O_ConstInt \<Rightarrow> Some (Some K_Const)
      | O_ConstBool \<Rightarrow> Some (Some K_Const)
      | O_ConstUnit \<Rightarrow> Some None
      | O_ConstStr \<Rightarrow> Some None
      | O_SlotLoad \<Rightarrow> Some (Some K_Copy)
      | O_SlotStore \<Rightarrow> Some (Some K_Copy)
      | O_Add \<Rightarrow> arith B_Add
      | O_Sub \<Rightarrow> arith B_Sub
      | O_Mul \<Rightarrow> arith B_Mul
      | O_Div \<Rightarrow> arith B_Div
      | O_Rem \<Rightarrow> arith B_Rem
      | O_Shl \<Rightarrow> shift S_Shl
      | O_Shr \<Rightarrow> shift S_Shr
      | O_Neg \<Rightarrow> do {
          m \<leftarrow> at_index (r_mode r) i;
          Some (do { mode \<leftarrow> ar m; t \<leftarrow> int;
                     if \<not> ty_signed t \<and> mode \<noteq> M_Wrap then None else Some (K_Neg mode t) }) }
      | O_And \<Rightarrow> Some (Some (K_Logic L_And))
      | O_Or \<Rightarrow> Some (Some (K_Logic L_Or))
      | O_Xor \<Rightarrow> Some (Some (K_Logic L_Xor))
      | O_Not \<Rightarrow> if ty = Low_Bool then Some (Some K_NotBool) else Some (map_option K_Not int)
      | O_Icmp p \<Rightarrow> do {
          a \<leftarrow> at_index (r_a r) i;
          at \<leftarrow> vty a;
          Some (Some (K_Icmp (pred_of p) (low_signed at))) }
      | O_ConvChecked \<Rightarrow> conv C_Checked
      | O_ConvWrap \<Rightarrow> conv C_Wrap
      | O_ConvSat \<Rightarrow> conv C_Sat
      | O_WriteUint \<Rightarrow> do {
          a \<leftarrow> at_index (r_a r) i;
          at \<leftarrow> vty a;
          Some (Some (K_WriteUint (case int_ty_of at of Some t \<Rightarrow> raw_ext t | None \<Rightarrow> RX_None))) }
      | O_WriteLine \<Rightarrow> Some (Some K_WriteLine)
      | O_Tile \<Rightarrow> Some None) }"

text \<open>The vector \<^verbatim>\<open>str_of\<close> of the string index of every \<^verbatim>\<open>ConstStr\<close> value.\<close>

fun str_table :: "Rows \<Rightarrow> nat list \<Rightarrow> u32 list \<Rightarrow> u32 list option" where
  "str_table r [] strs = Some strs"
| "str_table r (k # ks) strs = do {
     op \<leftarrow> at_index (r_op r) k;
     if op = O_ConstStr
     then do {
       d \<leftarrow> at_index (r_dst r) k;
       if d \<noteq> NONE
       then do {
         a \<leftarrow> at_index (r_a r) k;
         _ \<leftarrow> at_index strs (unat d);
         str_table r ks (strs[unat d := a]) }
       else str_table r ks strs }
     else str_table r ks strs }"

text \<open>The fill and the literal of a row, the \<^verbatim>\<open>match op\<close> of \<^verbatim>\<open>select\<close>.\<close>

definition row_fill :: "OirFunc \<Rightarrow> Frame \<Rightarrow> u32 list \<Rightarrow> nat \<Rightarrow> (Refusal, Fill \<times> u32) result option" where
  "row_fill f fr strs i = do {
     let r = of_rows f;
     op \<leftarrow> at_index (r_op r) i;
     let fill = fill_default;
     (case op of
        O_ConstInt \<Rightarrow> do {
          b \<leftarrow> at_index (r_b r) i;
          a \<leftarrow> at_index (r_a r) i;
          let bits = push_bit 32 (ucast b) OR (ucast a :: u64);
          rty \<leftarrow> at_index (r_ty r) i;
          ty \<leftarrow> int_ty_of rty;
          let c = canonical bits ty;
          dst \<leftarrow> at_index (r_dst r) i;
          d \<leftarrow> frame_value fr dst;
          Some (Inr (fill\<lparr>f_imm := map (\<lambda>k. ucast (drop_bit (16 * k) c)) [0..<4], slot_dst := d\<rparr>, NO_LIT)) }
      | O_ConstBool \<Rightarrow> do {
          a \<leftarrow> at_index (r_a r) i;
          dst \<leftarrow> at_index (r_dst r) i;
          d \<leftarrow> frame_value fr dst;
          Some (Inr (fill\<lparr>f_imm := [ucast a, 0, 0, 0], slot_dst := d\<rparr>, NO_LIT)) }
      | O_SlotLoad \<Rightarrow> do {
          a \<leftarrow> at_index (r_a r) i;
          p \<leftarrow> frame_place fr a;
          dst \<leftarrow> at_index (r_dst r) i;
          d \<leftarrow> frame_value fr dst;
          Some (Inr (fill\<lparr>slot_a := p, slot_dst := d\<rparr>, NO_LIT)) }
      | O_SlotStore \<Rightarrow> do {
          b \<leftarrow> at_index (r_b r) i;
          v \<leftarrow> frame_value fr b;
          a \<leftarrow> at_index (r_a r) i;
          p \<leftarrow> frame_place fr a;
          Some (Inr (fill\<lparr>slot_a := v, slot_dst := p\<rparr>, NO_LIT)) }
      | O_WriteUint \<Rightarrow> do {
          a \<leftarrow> at_index (r_a r) i;
          v \<leftarrow> frame_value fr a;
          Some (Inr (fill\<lparr>slot_a := v\<rparr>, NO_LIT)) }
      | O_WriteLine \<Rightarrow> do {
          a \<leftarrow> at_index (r_a r) i;
          lit \<leftarrow> at_index strs (unat a);
          if lit = NONE then Some (Inl (refuse f (Some i) (oir_name op) reason_STR_USE))
          else do {
            bytes \<leftarrow> at_index (of_strings f) (unat lit);
            let len = length bytes;
            if len > 2 ^ 32 - 1 then Some (Inl (refuse f (Some i) (oir_name op) reason_TYPE))
            else Some (Inr (fill\<lparr>f_imm := [word_of_nat len, word_of_nat (len div 2 ^ 16), 0, 0]\<rparr>, lit)) } }
      | _ \<Rightarrow> do {
          a \<leftarrow> at_index (r_a r) i;
          va \<leftarrow> frame_value fr a;
          b \<leftarrow> at_index (r_b r) i;
          vb \<leftarrow> (if b \<noteq> NONE then frame_value fr b else Some (slot_b fill));
          dst \<leftarrow> at_index (r_dst r) i;
          vd \<leftarrow> (if dst \<noteq> NONE then frame_value fr dst else Some (slot_dst fill));
          Some (Inr (fill\<lparr>slot_a := va, slot_b := vb, slot_dst := vd\<rparr>, NO_LIT)) }) }"

definition select_row :: "Table \<Rightarrow> OirFunc \<Rightarrow> Frame \<Rightarrow> u32 list \<Rightarrow> nat \<Rightarrow> Lir \<Rightarrow> (Refusal, Lir) result option" where
  "select_row t f fr strs i lir = do {
     let r = of_rows f;
     op \<leftarrow> at_index (r_op r) i;
     dst \<leftarrow> at_index (r_dst r) i;
     secret \<leftarrow> (if dst \<noteq> NONE then at_index (v_secret (of_values f)) (unat dst) else Some False);
     if secret then Some (Inl (refuse f (Some i) (oir_name op) reason_SECRET))
     else do {
       key \<leftarrow> key_of f i;
       (case key of
          None \<Rightarrow>
            if op = O_ConstUnit \<or> op = O_ConstStr then Some (Inr lir)
            else Some (Inl (refuse f (Some i) (oir_name op) reason_OP))
        | Some key \<Rightarrow> do {
            res \<leftarrow> row_fill f fr strs i;
            (case res of
               Inl e \<Rightarrow> Some (Inl e)
             | Inr (fill, lit) \<Rightarrow> do {
                 ct \<leftarrow> (if dst \<noteq> NONE then at_index (v_ct (of_values f)) (unat dst) else Some 0);
                 st \<leftarrow> table_id t key;
                 at \<leftarrow> at_index (r_site r) i;
                 Some (Inr (lir_push st fill lit 0 ct (word_of_nat i) at lir)) }) }) } }"

fun select_rows :: "Table \<Rightarrow> OirFunc \<Rightarrow> Frame \<Rightarrow> u32 list \<Rightarrow> nat list \<Rightarrow> Lir \<Rightarrow> (Refusal, Lir) result option" where
  "select_rows t f fr strs [] lir = Some (Inr lir)"
| "select_rows t f fr strs (i # is) lir = do {
     res \<leftarrow> select_row t f fr strs i lir;
     (case res of Inl e \<Rightarrow> Some (Inl e) | Inr lir \<Rightarrow> select_rows t f fr strs is lir) }"

fun trap_code :: "TrapKind \<Rightarrow> u8" where
  "trap_code Bounds = 0" | "trap_code Overflow = 1" | "trap_code DivZero = 2" | "trap_code Shift = 3"
| "trap_code CheckedConversion = 4" | "trap_code ArenaGeneration = 5" | "trap_code Contract = 6"
| "trap_code EmptyReduce = 7"

definition term_key :: "OTerm \<Rightarrow> Key" where
  "term_key t = (case t of Term_Ret \<Rightarrow> K_Epilogue | Term_Trap k \<Rightarrow> K_TrapJump (trap_code k))"

definition select_in :: "Table \<Rightarrow> OirFunc \<Rightarrow> (Refusal, Lir) result option" where
  "select_in t f =
     (case frame_of f of
        None \<Rightarrow> Some (Inl (refuse f None ''frame'' reason_FRAME))
      | Some fr \<Rightarrow> do {
          prologue \<leftarrow> table_id t K_Prologue;
          let lir = lir_push prologue (fill_default\<lparr>f_imm := [ucast (fr_size fr), 0, 0, 0]\<rparr>) NO_LIT 0 0 (- 1) 0 lir_default;
          let rows = [0..<length (r_op (of_rows f))];
          strs \<leftarrow> str_table (of_rows f) rows (replicate (length (v_ty (of_values f))) NONE);
          res \<leftarrow> select_rows t f fr strs rows lir;
          (case res of
             Inl e \<Rightarrow> Some (Inl e)
           | Inr lir \<Rightarrow> do {
               st \<leftarrow> table_id t (term_key (of_term f));
               Some (Inr (lir_push st fill_default NO_LIT 0 0 (- 1) (of_term_site f) lir)) }) })"

definition select :: "OirFunc \<Rightarrow> (Refusal, Lir) result option" where
  "select f = Option.bind table (\<lambda>t. select_in t f)"

section \<open>The trap tail\<close>

record Site =
  st_kind :: TrapKind
  st_fmir :: u32

text \<open>\<^verbatim>\<open>Tail::add\<close>; the returned index is not used by \<^verbatim>\<open>emit\<close>. The tail is its list of sites.\<close>

definition tail_add :: "TrapKind \<Rightarrow> u32 \<Rightarrow> Site list \<Rightarrow> nat \<times> Site list" where
  "tail_add kind at ts = (length ts, ts @ [\<lparr>st_kind = kind, st_fmir = at\<rparr>])"

definition brk_pos :: "u32 \<Rightarrow> nat \<Rightarrow> u32 option" where
  "brk_pos tail_start g = Option.bind (u32_mul 4 (word_of_nat g)) (u32_add tail_start)"

record TrapRow =
  tr_pc :: u32
  tr_site :: u16
  tr_kind :: u8
  tr_col :: u16
  tr_line :: u32

definition tail_row :: "u32 \<Rightarrow> (u32 \<times> u32) list \<Rightarrow> nat \<Rightarrow> Site \<Rightarrow> TrapRow option" where
  "tail_row tail_start lines g s = do {
     let (line, col) = (case at_index lines (unat (st_fmir s)) of Some lc \<Rightarrow> lc | None \<Rightarrow> (0, 0));
     pc \<leftarrow> brk_pos tail_start g;
     Some \<lparr>tr_pc = pc, tr_site = word_of_nat g, tr_kind = trap_code (st_kind s),
           tr_col = ucast (min col 0xFFFF), tr_line = line\<rparr> }"

fun tail_rows :: "u32 \<Rightarrow> (u32 \<times> u32) list \<Rightarrow> (nat \<times> Site) list \<Rightarrow> TrapRow list option" where
  "tail_rows tail_start lines [] = Some []"
| "tail_rows tail_start lines ((g, s) # gs) = do {
     row \<leftarrow> tail_row tail_start lines g s;
     rows \<leftarrow> tail_rows tail_start lines gs;
     Some (row # rows) }"

section \<open>Emission\<close>

record Reloc =
  rl_offset :: u32
  rl_target :: string

record Atom =
  at_name :: string
  at_code :: "u8 list"
  at_relocs :: "Reloc list"
  at_traps :: "TrapRow list"

fun rt_symbol :: "RtSym \<Rightarrow> string" where
  "rt_symbol Rt_WriteUint = ''_fors_rt_write_uint''"
| "rt_symbol Rt_WriteLine = ''_fors_rt_write_line''"

definition le_bytes :: "u32 \<Rightarrow> u8 list" where
  "le_bytes w = map (\<lambda>k. ucast (drop_bit (8 * k) w)) [0..<4]"

definition push_word :: "u32 \<Rightarrow> Atom \<Rightarrow> Atom" where
  "push_word w a = a\<lparr>at_code := at_code a @ le_bytes w\<rparr>"

definition TOO_LARGE :: string where
  "TOO_LARGE = ''atom too large for its branch or literal ranges''"

text \<open>The first pass: the first site of every row, the tail and the number of code words.\<close>

definition lir_stencil :: "Table \<Rightarrow> Lir \<Rightarrow> nat \<Rightarrow> Stencil option" where
  "lir_stencil t lir i = do {
     st \<leftarrow> at_index (lr_stencil lir) i;
     at_index (stencils t) (unat st) }"

fun add_sites :: "TrapKind list \<Rightarrow> Lir \<Rightarrow> nat \<Rightarrow> Site list \<Rightarrow> Site list option" where
  "add_sites [] lir i ts = Some ts"
| "add_sites (k # ks) lir i ts = do {
     at \<leftarrow> at_index (lr_site lir) i;
     add_sites ks lir i (snd (tail_add k at ts)) }"

fun layout_rows :: "Table \<Rightarrow> Lir \<Rightarrow> nat list \<Rightarrow> u32 \<times> Site list \<times> nat list \<Rightarrow> (u32 \<times> Site list \<times> nat list) option" where
  "layout_rows t lir [] (code, ts, first) = Some (code, ts, first)"
| "layout_rows t lir (i # is) (code, ts, first) = do {
     s \<leftarrow> lir_stencil t lir i;
     ts' \<leftarrow> add_sites (st_sites s) lir i ts;
     code' \<leftarrow> u32_add code (word_of_nat (length (st_words s)));
     layout_rows t lir is (code', ts', first @ [length ts]) }"

text \<open>The literal pool: every string used by a row once, in the order of first use.\<close>

fun layout_pool ::
  "Lir \<Rightarrow> OirFunc \<Rightarrow> u32 \<Rightarrow> nat list \<Rightarrow> u8 list \<times> u32 option list \<Rightarrow> (u8 list \<times> u32 option list) option" where
  "layout_pool lir f pool_start [] (pool, pos) = Some (pool, pos)"
| "layout_pool lir f pool_start (i # is) (pool, pos) = do {
     l \<leftarrow> at_index (lr_lit lir) i;
     if l = NO_LIT then layout_pool lir f pool_start is (pool, pos)
     else do {
       p \<leftarrow> at_index pos (unat l);
       (case p of
          Some _ \<Rightarrow> layout_pool lir f pool_start is (pool, pos)
        | None \<Rightarrow> do {
            at \<leftarrow> u32_add pool_start (word_of_nat (length pool));
            bytes \<leftarrow> at_index (of_strings f) (unat l);
            layout_pool lir f pool_start is (pool @ bytes, pos[unat l := Some at]) }) } }"

text \<open>The trap targets, the literal and the call of a row's fill, relative to the row's start.\<close>

fun fill_traps :: "u32 \<Rightarrow> u32 \<Rightarrow> nat \<Rightarrow> nat list \<Rightarrow> Fill \<Rightarrow> Fill option" where
  "fill_traps tail_start start first [] fill = Some fill"
| "fill_traps tail_start start first (k # ks) fill = do {
     brk \<leftarrow> brk_pos tail_start (first + k);
     _ \<leftarrow> at_index (f_trap fill) k;
     fill_traps tail_start start first ks (fill\<lparr>f_trap := (f_trap fill)[k := uint brk - uint start]\<rparr>) }"

definition fill_lit :: "Lir \<Rightarrow> u32 option list \<Rightarrow> u32 \<Rightarrow> nat \<Rightarrow> Fill \<Rightarrow> Fill option" where
  "fill_lit lir pos start i fill = do {
     l \<leftarrow> at_index (lr_lit lir) i;
     if l \<noteq> NO_LIT
     then do {
       p \<leftarrow> at_index pos (unat l);
       at \<leftarrow> p;
       Some (fill\<lparr>f_lit := uint at - uint start\<rparr>) }
     else Some fill }"

fun fill_calls :: "u32 \<Rightarrow> Hole list \<Rightarrow> Fill \<times> Reloc list \<Rightarrow> (Fill \<times> Reloc list) option" where
  "fill_calls start [] fr = Some fr"
| "fill_calls start (h # hs) (fill, relocs) =
     (case h_field h of
        F_Call rts \<Rightarrow> do {
          off \<leftarrow> Option.bind (u32_mul 4 (ucast (h_word h))) (u32_add start);
          fill_calls start hs
            (fill\<lparr>f_call := 4 * uint (h_word h)\<rparr>, relocs @ [\<lparr>rl_offset = off, rl_target = rt_symbol rts\<rparr>]) }
      | _ \<Rightarrow> fill_calls start hs (fill, relocs))"

text \<open>The closure of \<^verbatim>\<open>find(|h| !hole_fits(h, &fill))\<close>; a hole whose field value overflows panics.\<close>

fun find_misfit :: "Hole list \<Rightarrow> Fill \<Rightarrow> Hole option option" where
  "find_misfit [] fill = Some None"
| "find_misfit (h # hs) fill = do {
     ok \<leftarrow> hole_fits h fill;
     if ok then find_misfit hs fill else Some (Some h) }"

text \<open>One row of the second pass. The \<^verbatim>\<open>op\<close> of the refusal is the debug form of the key and the hole
  kind, which is not modelled: \<open>show_misfit\<close> stands for it.\<close>

definition emit_row ::
  "(Key \<Rightarrow> HoleKind \<Rightarrow> string) \<Rightarrow> Table \<Rightarrow> Lir \<Rightarrow> OirFunc \<Rightarrow> u32 \<Rightarrow> nat list \<Rightarrow> u32 option list \<Rightarrow> nat
    \<Rightarrow> u32 list \<times> Reloc list \<Rightarrow> (Refusal, u32 list \<times> Reloc list) result option" where
  "emit_row show_misfit t lir f tail_start first pos i out = do {
     let (words, relocs) = out;
     s \<leftarrow> lir_stencil t lir i;
     start \<leftarrow> u32_mul 4 (word_of_nat (length words));
     fill \<leftarrow> at_index (lr_fill lir) i;
     fs \<leftarrow> at_index first i;
     fill \<leftarrow> fill_traps tail_start start fs [0..<length (st_sites s)] fill;
     fill \<leftarrow> fill_lit lir pos start i fill;
     (fill, relocs) \<leftarrow> fill_calls start (st_holes s) (fill, relocs);
     bad \<leftarrow> find_misfit (st_holes s) fill;
     (case bad of
        Some h \<Rightarrow> do {
          row \<leftarrow> at_index (lr_oir_row lir) i;
          Some (Inl \<lparr>rf_decl = of_decl f, rf_inst = (if row \<noteq> - 1 then Some row else None),
                     rf_op = show_misfit (st_key s) (h_kind h), rf_reason = TOO_LARGE\<rparr>) }
      | None \<Rightarrow> do {
          words \<leftarrow> instantiate_into s fill words;
          Some (Inr (words, relocs)) }) }"

fun emit_rows ::
  "(Key \<Rightarrow> HoleKind \<Rightarrow> string) \<Rightarrow> Table \<Rightarrow> Lir \<Rightarrow> OirFunc \<Rightarrow> u32 \<Rightarrow> nat list \<Rightarrow> u32 option list \<Rightarrow> nat list
    \<Rightarrow> u32 list \<times> Reloc list \<Rightarrow> (Refusal, u32 list \<times> Reloc list) result option" where
  "emit_rows show_misfit t lir f tail_start first pos [] out = Some (Inr out)"
| "emit_rows show_misfit t lir f tail_start first pos (i # is) out = do {
     res \<leftarrow> emit_row show_misfit t lir f tail_start first pos i out;
     (case res of Inl e \<Rightarrow> Some (Inl e) | Inr out \<Rightarrow> emit_rows show_misfit t lir f tail_start first pos is out) }"

fun emit_brks :: "Table \<Rightarrow> Site list \<Rightarrow> u32 list \<Rightarrow> u32 list option" where
  "emit_brks t [] words = Some words"
| "emit_brks t (s # ss) words = do {
     brk \<leftarrow> table_get t (K_Brk (trap_code (st_kind s)));
     emit_brks t ss (words @ st_words brk) }"

text \<open>The loop that pads the code to a multiple of four bytes.\<close>

definition pad4 :: "u8 list \<Rightarrow> u8 list" where
  "pad4 code = code @ replicate ((4 - length code mod 4) mod 4) 0"

definition emit_in ::
  "(Key \<Rightarrow> HoleKind \<Rightarrow> string) \<Rightarrow> Table \<Rightarrow> Lir \<Rightarrow> OirFunc \<Rightarrow> string \<Rightarrow> (Refusal, Atom) result option" where
  "emit_in show_misfit t lir f name = do {
     let rows = [0..<length (lr_stencil lir)];
     (code_words, tail, first) \<leftarrow> layout_rows t lir rows (0, [], []);
     tail_start \<leftarrow> u32_mul 4 code_words;
     pool_start \<leftarrow> Option.bind (u32_mul 4 (word_of_nat (length tail))) (u32_add tail_start);
     (pool, pos) \<leftarrow> layout_pool lir f pool_start rows ([], replicate (length (of_strings f)) None);
     res \<leftarrow> emit_rows show_misfit t lir f tail_start first pos rows ([], []);
     (case res of
        Inl e \<Rightarrow> Some (Inl e)
      | Inr (words, relocs) \<Rightarrow> do {
          words \<leftarrow> emit_brks t tail words;
          traps \<leftarrow> tail_rows tail_start (of_sites f) (enumerate 0 tail);
          let atom = fold push_word words \<lparr>at_name = name, at_code = [], at_relocs = [], at_traps = []\<rparr>;
          Some (Inr (atom\<lparr>at_code := pad4 (at_code atom @ pool), at_relocs := relocs, at_traps := traps\<rparr>)) }) }"

definition emit ::
  "(Key \<Rightarrow> HoleKind \<Rightarrow> string) \<Rightarrow> Lir \<Rightarrow> OirFunc \<Rightarrow> string \<Rightarrow> (Refusal, Atom) result option" where
  "emit show_misfit lir f name = Option.bind table (\<lambda>t. emit_in show_misfit t lir f name)"

section \<open>Compilation\<close>

fun verify_name :: "VerifyError \<Rightarrow> string" where
  "verify_name (V_MissingSecret _) = ''missing-secret''"
| "verify_name (V_MissingCt _) = ''missing-ct''"
| "verify_name (V_MissingAliasClass _) = ''missing-alias-class''"
| "verify_name (V_UntraceableAliasClass _) = ''untraceable-alias-class''"
| "verify_name (V_TileOp _) = ''tile-op-at-oir''"
| "verify_name V_RaggedRows = ''ragged-rows''"
| "verify_name (V_BadOperand _) = ''bad-operand''"
| "verify_name (V_BadSlot _) = ''bad-slot''"
| "verify_name (V_TypeMismatch _) = ''type-mismatch''"

text \<open>The debug form of an error is not modelled: \<open>show_error\<close> stands for it.\<close>

definition verify_message :: "(VerifyError \<Rightarrow> string) \<Rightarrow> VerifyError \<Rightarrow> string" where
  "verify_message show_error e = ''oir verify: '' @ verify_name e @ '' ('' @ show_error e @ '')''"

definition OIR_INVALID :: string where "OIR_INVALID = ''OIR failed verification''"

definition compile ::
  "(VerifyError \<Rightarrow> string) \<Rightarrow> (Key \<Rightarrow> HoleKind \<Rightarrow> string) \<Rightarrow> OirFunc \<Rightarrow> string \<Rightarrow> (Refusal, Atom) result option" where
  "compile show_error show_misfit f name =
     (case oir_verify f of
        Inl e \<Rightarrow> Some (Inl \<lparr>rf_decl = of_decl f, rf_inst = None, rf_op = verify_name e,
          rf_reason = OIR_INVALID @ '': '' @ verify_message show_error e\<rparr>)
      | Inr _ \<Rightarrow> do {
          res \<leftarrow> select f;
          (case res of Inl e \<Rightarrow> Some (Inl e) | Inr lir \<Rightarrow> emit show_misfit lir f name) })"

end
