(* ===== verification/Asm_Machine.thy ===== *)
theory Asm_Machine
  imports Asm_Semantics "HOL-Library.Signed_Division"
begin

text \<open>
  What instruction sequences do: a machine of the general registers, the stack pointer, the flags
  and a byte-addressed little-endian memory, one step per instruction, and straight-line runs with
  forward branches. This is the architecture's definition, restricted to the instructions the
  code generator emits; it models no code of the repository. The data-processing results are those
  of \<open>exec\<close> where it covers the instruction.
\<close>

section \<open>State\<close>

text \<open>\<open>code_base\<close> is the address the code runs at; no instruction changes it.\<close>

record mach =
  code_base :: u64
  xregs :: "u8 \<Rightarrow> u64"
  spr :: u64
  nzcv :: flags
  memory :: "u64 \<Rightarrow> u8"

definition load64 :: "(u64 \<Rightarrow> u8) \<Rightarrow> u64 \<Rightarrow> u64" where
  "load64 m a = foldr (\<lambda>i v. push_bit (8 * i) (ucast (m (a + word_of_nat i))) OR v) [0..<8] 0"

definition store64 :: "(u64 \<Rightarrow> u8) \<Rightarrow> u64 \<Rightarrow> u64 \<Rightarrow> u64 \<Rightarrow> u8" where
  "store64 m a v = (\<lambda>b. if b - a < 8 then ucast (drop_bit (8 * unat (b - a)) v) else m b)"

definition regfile :: "mach \<Rightarrow> Reg \<Rightarrow> u64" where
  "regfile \<sigma> r = (if is_sp r then spr \<sigma> else xregs \<sigma> (num r))"

definition write_reg :: "Reg \<Rightarrow> u64 \<Rightarrow> mach \<Rightarrow> mach" where
  "write_reg r v \<sigma> =
     (if is_zr r then \<sigma> else if is_sp r then \<sigma>\<lparr>spr := v\<rparr> else \<sigma>\<lparr>xregs := (xregs \<sigma>)(num r := v)\<rparr>)"

section \<open>Data processing\<close>

fun extend_sem :: "ExtendKind \<Rightarrow> 'a::len word \<Rightarrow> 'a word" where
  "extend_sem Uxtb v = take_bit 8 v" | "extend_sem Uxth v = take_bit 16 v"
| "extend_sem Uxtw v = take_bit 32 v" | "extend_sem Uxtx v = v"
| "extend_sem Sxtb v = signed_take_bit 7 v" | "extend_sem Sxth v = signed_take_bit 15 v"
| "extend_sem Sxtw v = signed_take_bit 31 v" | "extend_sem Sxtx v = v"

fun div_shift_sem :: "DataProc2Op \<Rightarrow> 'a::len word \<Rightarrow> 'a word \<Rightarrow> 'a word" where
  "div_shift_sem Udiv a b = (if b = 0 then 0 else a div b)"
| "div_shift_sem Sdiv a b = (if b = 0 then 0 else word_of_int (sint a sdiv sint b))"
| "div_shift_sem Lslv a b = push_bit (unat b mod LENGTH('a)) a"
| "div_shift_sem Lsrv a b = drop_bit (unat b mod LENGTH('a)) a"
| "div_shift_sem Asrv a b = signed_drop_bit (unat b mod LENGTH('a)) a"
| "div_shift_sem Rorv a b = word_rotr (unat b mod LENGTH('a)) a"

definition bitmask_sem :: "LogicalImm \<Rightarrow> 'a::len word" where
  "bitmask_sem m = (case decode_bitmask (li_n m) (li_immr m) (li_imms m) LENGTH('a) of
     Some v \<Rightarrow> ucast v | None \<Rightarrow> 0)"

fun logical_imm_sem :: "LogicalImmOp \<Rightarrow> 'a::len word \<Rightarrow> 'a word \<Rightarrow> 'a word" where
  "logical_imm_sem LI_And a b = a AND b" | "logical_imm_sem LI_Orr a b = a OR b"
| "logical_imm_sem LI_Eor a b = a XOR b" | "logical_imm_sem LI_Ands a b = a AND b"

fun result_of :: "Inst \<Rightarrow> flags \<Rightarrow> (Reg \<Rightarrow> 'a::len word) \<Rightarrow> (Reg \<times> 'a word) option" where
  "result_of (MovWide op rd imm sh) f rf =
     (let v = push_bit (unat sh) (ucast imm)
      in Some (rd, case op of Movz \<Rightarrow> v | Movn \<Rightarrow> NOT v
           | Movk \<Rightarrow> (rd_reg rf rd AND NOT (push_bit (unat sh) 0xFFFF)) OR v))"
| "result_of (AddSubExtendedReg op _ rd rn rm ext _) f rf =
     (let b = push_bit (unat (ex_amount ext)) (extend_sem (ex_kind ext) (rd_reg rf rm))
      in Some (rd, if op = Add then rd_reg rf rn + b else rd_reg rf rn - b))"
| "result_of (LogicalImmInst op rd rn m _) f rf =
     Some (rd, logical_imm_sem op (rd_reg rf rn) (bitmask_sem m))"
| "result_of (DataProc2Source op rd rn rm) f rf = Some (rd, div_shift_sem op (rd_reg rf rn) (rd_reg rf rm))"
| "result_of (DataProc3Source Smulh rd rn rm ra b) f rf =
     Some (rd, word_of_int (sint (rd_reg rf rn) * sint (rd_reg rf rm) div 2 ^ LENGTH('a)))"
| "result_of (DataProc3Source Umulh rd rn rm ra b) f rf =
     Some (rd, word_of_int (uint (rd_reg rf rn) * uint (rd_reg rf rm) div 2 ^ LENGTH('a)))"
| "result_of i f rf = exec i f rf"

text \<open>\<open>AddWithCarry\<close> of the architecture: subtraction adds the complement with a carry in.\<close>

definition carry_flags :: "'a::len word \<Rightarrow> 'a word \<Rightarrow> bool \<Rightarrow> flags" where
  "carry_flags a b c =
     (let r = a + b + of_bool c
      in \<lparr>flag_n = sint r < 0, flag_z = (r = 0),
          flag_c = (uint r \<noteq> uint a + uint b + of_bool c),
          flag_v = (sint r \<noteq> sint a + sint b + of_bool c)\<rparr>)"

definition add_sub_flags :: "AddSubOp \<Rightarrow> 'a::len word \<Rightarrow> 'a word \<Rightarrow> flags" where
  "add_sub_flags op a b = (if op = Add then carry_flags a b False else carry_flags a (NOT b) True)"

definition logic_flags :: "'a::len word \<Rightarrow> flags" where
  "logic_flags r = \<lparr>flag_n = sint r < 0, flag_z = (r = 0), flag_c = False, flag_v = False\<rparr>"

fun flags_of :: "Inst \<Rightarrow> flags \<Rightarrow> (Reg \<Rightarrow> 'a::len word) \<Rightarrow> flags" where
  "flags_of (AddSubImm op True _ rn imm _) f rf =
     add_sub_flags op (rd_reg rf rn) (ucast (uimm12_value imm))"
| "flags_of (AddSubShiftedReg op True _ rn rm sh _) f rf =
     add_sub_flags op (rd_reg rf rn) (shift_sem (sh_kind sh) (unat (sh_amount sh)) (rd_reg rf rm))"
| "flags_of (AddSubExtendedReg op True _ rn rm ext _) f rf =
     add_sub_flags op (rd_reg rf rn) (push_bit (unat (ex_amount ext)) (extend_sem (ex_kind ext) (rd_reg rf rm)))"
| "flags_of (LogicalShiftedReg op rd rn rm sh al) f rf =
     (if op = LS_Ands \<or> op = LS_Bics
      then logic_flags (logical_sem op (rd_reg rf rn) (shift_sem (sh_kind sh) (unat (sh_amount sh)) (rd_reg rf rm)))
      else f)"
| "flags_of (LogicalImmInst op rd rn m al) f rf =
     (if op = LI_Ands then logic_flags (rd_reg rf rn AND bitmask_sem m) else f)"
| "flags_of _ f rf = f"

text \<open>A 32-bit instruction reads the low halves and clears the high half of its destination.\<close>

definition data_step :: "Inst \<Rightarrow> mach \<Rightarrow> mach option" where
  "data_step i \<sigma> =
     (case result_of i (nzcv \<sigma>) (regfile \<sigma>) of
        None \<Rightarrow> None
      | Some (rd, v) \<Rightarrow>
          if is64 rd then Some ((write_reg rd v \<sigma>)\<lparr>nzcv := flags_of i (nzcv \<sigma>) (regfile \<sigma>)\<rparr>)
          else let rf = (\<lambda>r. ucast (regfile \<sigma> r) :: u32)
               in map_option (\<lambda>(rd, v). (write_reg rd (ucast v) \<sigma>)\<lparr>nzcv := flags_of i (nzcv \<sigma>) rf\<rparr>)
                    (result_of i (nzcv \<sigma>) rf))"

section \<open>Steps\<close>

datatype effect = Next mach | Jump int mach | Address Reg int mach | Call int mach | Return u64 mach | Stuck

definition branch_if :: "bool \<Rightarrow> BranchOffset \<Rightarrow> mach \<Rightarrow> effect" where
  "branch_if b off \<sigma> = (if b then Jump (branch_offset_bytes off) \<sigma> else Next \<sigma>)"

definition base_offset :: "PairIndex \<Rightarrow> u64 \<Rightarrow> u64 \<times> bool \<Rightarrow> u64" where
  "base_offset index off r = (case r of (base, after) \<Rightarrow>
     case index of PI_Offset \<Rightarrow> if after then base else base + off
       | PI_PreIndex \<Rightarrow> base + off
       | PI_PostIndex \<Rightarrow> if after then base + off else base)"

fun step :: "Inst \<Rightarrow> mach \<Rightarrow> effect" where
  "step (BranchCond c off) \<sigma> = branch_if (cond_holds c (nzcv \<sigma>)) off \<sigma>"
| "step (CompareBranch b nz rt off) \<sigma> =
     (let v = rd_reg (regfile \<sigma>) rt
      in branch_if ((if b then v = 0 else take_bit 32 v = 0) \<noteq> nz) off \<sigma>)"
| "step (TestBranch nz rt bt off) \<sigma> = branch_if (bit (rd_reg (regfile \<sigma>) rt) (unat bt) = nz) off \<sigma>"
| "step (Branch False off) \<sigma> = branch_if True off \<sigma>"
| "step (Branch True off) \<sigma> = Call (branch_offset_bytes off) \<sigma>"
| "step (Adr rd off) \<sigma> = Address rd (adr_bytes off) \<sigma>"
| "step (Ret r) \<sigma> = Return (rd_reg (regfile \<sigma>) r) \<sigma>"
| "step (LoadStoreImm LdrX rt rn (UnsignedOffset m)) \<sigma> =
     Next (write_reg rt (load64 (memory \<sigma>) (regfile \<sigma> rn + word_of_int (uscaled_bytes m))) \<sigma>)"
| "step (LoadStoreImm StrX rt rn (UnsignedOffset m)) \<sigma> =
     Next (\<sigma>\<lparr>memory := store64 (memory \<sigma>) (regfile \<sigma> rn + word_of_int (uscaled_bytes m)) (rd_reg (regfile \<sigma>) rt)\<rparr>)"
| "step (LoadStorePair is_load True rt1 rt2 rn imm index) \<sigma> =
     (let off = word_of_int (simm7_bytes imm);
          a = base_offset index off (regfile \<sigma> rn, False);
          \<sigma>' = (if is_load
                 then write_reg rt2 (load64 (memory \<sigma>) (a + 8)) (write_reg rt1 (load64 (memory \<sigma>) a) \<sigma>)
                 else \<sigma>\<lparr>memory := store64 (store64 (memory \<sigma>) a (rd_reg (regfile \<sigma>) rt1)) (a + 8)
                         (rd_reg (regfile \<sigma>) rt2)\<rparr>)
      in Next (write_reg rn (base_offset index off (regfile \<sigma> rn, True)) \<sigma>'))"
| "step i \<sigma> = (case data_step i \<sigma> of Some \<sigma>' \<Rightarrow> Next \<sigma>' | None \<Rightarrow> Stuck)"

text \<open>A run of a sequence whose first instruction has index \<open>pc\<close>: a branch to a later instruction
  stays in the sequence; any other one leaves it for the byte offset from its start. A call suspends
  the run at its instruction: the target, another routine, is not part of the sequence.\<close>

datatype outcome = Fall mach | Leave int mach | Called nat int mach | Returned u64 mach | Fault

function run :: "nat \<Rightarrow> Inst list \<Rightarrow> mach \<Rightarrow> outcome" where
  "run pc [] \<sigma> = Fall \<sigma>"
| "run pc (i # is) \<sigma> =
     (case step i \<sigma> of
        Next \<sigma>' \<Rightarrow> run (pc + 1) is \<sigma>'
      | Jump off \<sigma>' \<Rightarrow>
          if 0 < off \<and> off mod 4 = 0 \<and> off < 4 * int (length (i # is))
          then run (pc + nat (off div 4)) (drop (nat (off div 4) - 1) is) \<sigma>'
          else Leave (4 * int pc + off) \<sigma>'
      | Address rd off \<sigma>' \<Rightarrow> run (pc + 1) is (write_reg rd (code_base \<sigma>' + word_of_int (4 * int pc + off)) \<sigma>')
      | Call off \<sigma>' \<Rightarrow> Called pc off \<sigma>'
      | Return a \<sigma>' \<Rightarrow> Returned a \<sigma>'
      | Stuck \<Rightarrow> Fault)"
  by pat_completeness auto
termination by (relation "measure (\<lambda>(pc, is, \<sigma>). length is)") auto

end
