(* ===== verification/Stencil_Run.thy ===== *)
theory Stencil_Run
  imports Stencil_Patch Asm_Machine
begin

text \<open>
  Weakest preconditions of stencil bodies: \<open>wp f m Q \<sigma>\<close> says that the instructions the builder \<open>m\<close>
  pushes on the fill \<open>f\<close>, run from the machine state \<open>\<sigma>\<close>, either go on to the next instruction or leave
  for the \<^verbatim>\<open>brk\<close> of a trap site, with a result that satisfies \<open>Q\<close>. The rules follow the builder's
  structure; one rule per constructor gives the state after its instruction.
\<close>

section \<open>Memory\<close>

lemma bit_bytes:
  "bit (foldr (\<lambda>i v. push_bit (8 * i) (g i) OR v) is 0 :: u64) n \<longleftrightarrow>
     (\<exists>i\<in>set is. 8 * i \<le> n \<and> n < 64 \<and> bit (g i) (n - 8 * i))"
  by (induction "is") (auto simp: bit_simps)

lemma load64_store64: "load64 (store64 m a v) a = v"
proof -
  have "store64 m a v (a + word_of_nat i) = ucast (drop_bit (8 * i) v)" if "i < 8" for i
  proof -
    have "unat (word_of_nat i :: u64) = i" using that by (simp add: unat_of_nat take_bit_nat_eq_self)
    with that show ?thesis by (simp add: store64_def word_less_nat_alt)
  qed
  note byte = this
  show ?thesis
  proof (rule bit_word_eqI)
    fix n assume n: "n < LENGTH(64)"
    have "bit (load64 (store64 m a v) a) n \<longleftrightarrow> (\<exists>i\<in>{0..<8}. 8 * i \<le> n \<and> n - 8 * i < 8 \<and> bit v n)"
      unfolding load64_def bit_bytes using n by (intro bex_cong) (auto simp: byte bit_simps)
    also have "\<dots> \<longleftrightarrow> bit v n"
    proof -
      have "n div 8 \<in> {0..<8} \<and> 8 * (n div 8) \<le> n \<and> n - 8 * (n div 8) < 8"
        using n by (simp add: minus_mult_div_eq_mod)
      then show ?thesis by blast
    qed
    finally show "bit (load64 (store64 m a v) a) n = bit v n" .
  qed
qed

lemma load64_store64_other:
  assumes "8 \<le> a - b" "a - b \<le> - 8"
  shows "load64 (store64 m b v) a = load64 m a"
proof -
  have "store64 m b v (a + word_of_nat i) = m (a + word_of_nat i)" if "i < 8" for i
  proof -
    have "unat (a - b) \<le> unat (- 8 :: u64)" using assms(2) by (simp add: word_le_nat_alt)
    then have "unat (a - b + word_of_nat i) = unat (a - b) + i"
      using that by (subst unat_word_ariths) (simp add: unat_of_nat take_bit_nat_eq_self)
    then have "\<not> a + word_of_nat i - b < 8"
      using assms(1) by (simp add: word_less_nat_alt word_le_nat_alt algebra_simps)
    then show ?thesis by (simp add: store64_def)
  qed
  then show ?thesis unfolding load64_def by (intro foldr_cong) auto
qed

section \<open>Conditions after a comparison\<close>

lemma cond_holds_simps:
  "cond_holds cond_EQ fl = flag_z fl" "cond_holds cond_NE fl = (\<not> flag_z fl)"
  "cond_holds cond_CS fl = flag_c fl" "cond_holds cond_CC fl = (\<not> flag_c fl)"
  "cond_holds cond_VS fl = flag_v fl" "cond_holds cond_VC fl = (\<not> flag_v fl)"
  "cond_holds cond_HI fl = (flag_c fl \<and> \<not> flag_z fl)" "cond_holds cond_LS fl = (\<not> (flag_c fl \<and> \<not> flag_z fl))"
  "cond_holds cond_GE fl = (flag_n fl = flag_v fl)" "cond_holds cond_LT fl = (flag_n fl \<noteq> flag_v fl)"
  "cond_holds cond_GT fl = (flag_n fl = flag_v fl \<and> \<not> flag_z fl)"
  "cond_holds cond_LE fl = (\<not> (flag_n fl = flag_v fl \<and> \<not> flag_z fl))"
  by (simp_all add: cond_holds_def cond_base_def cond_consts Let_def)

lemma u64_ranges: "0 \<le> uint (a :: u64)" "uint a < 2 ^ 64" "- (2 ^ 63) \<le> sint a" "sint a < 2 ^ 63"
  using uint_lt2p [of a] sint_greater_eq [of a] sint_less [of a] by simp_all

lemma sint_mod: "sint (word_of_int r :: u64) = (r + 2 ^ 63) mod 2 ^ 64 - 2 ^ 63"
  by (simp add: signed_of_int signed_take_bit_eq_take_bit_shift take_bit_eq_mod)

lemma sub_flags:
  fixes a b :: u64
  shows "flag_z (add_sub_flags Sub a b) \<longleftrightarrow> a = b"
    and "flag_c (add_sub_flags Sub a b) \<longleftrightarrow> uint b \<le> uint a"
    and "flag_n (add_sub_flags Sub a b) \<longleftrightarrow> sint (a - b) < 0"
    and "flag_v (add_sub_flags Sub a b) \<longleftrightarrow> sint (a - b) \<noteq> sint a - sint b"
proof -
  have r: "a + NOT b + 1 = a - b" by (simp add: minus_eq_not_plus_1)
  have s: "sint (NOT b) = - sint b - 1"
  proof -
    have n: "NOT b = word_of_int (- sint b - 1)" by (simp add: not_eq_complement)
    show ?thesis using u64_ranges [of b] unfolding n by (simp only: sint_mod) simp
  qed
  have u: "uint (NOT b) = 2 ^ 64 - 1 - uint b"
  proof -
    have n: "NOT b = word_of_int (2 ^ 64 - 1 - uint b)" by (simp add: not_eq_complement)
    show ?thesis using u64_ranges [of b] unfolding n uint_word_of_int by (subst mod_pos_pos_trivial) (auto intro: less_le_trans [OF _ uint_ge_0])
  qed
  have d: "uint (a - b) = uint a - uint b + (if uint b \<le> uint a then 0 else 2 ^ 64)"
    using u64_ranges [of a] u64_ranges [of b] by (simp add: uint_sub_if')
  show "flag_z (add_sub_flags Sub a b) \<longleftrightarrow> a = b" "flag_c (add_sub_flags Sub a b) \<longleftrightarrow> uint b \<le> uint a"
    "flag_n (add_sub_flags Sub a b) \<longleftrightarrow> sint (a - b) < 0"
    "flag_v (add_sub_flags Sub a b) \<longleftrightarrow> sint (a - b) \<noteq> sint a - sint b"
    using d by (auto simp: add_sub_flags_def carry_flags_def Let_def r u s)
qed

lemma sint_sub_sign:
  "(sint (a - b) < 0) = (sint (a - b) \<noteq> sint a - sint b) \<longleftrightarrow> sint b \<le> sint (a :: u64)"
proof -
  have "sint (a - b) = sint (word_of_int (sint a - sint b) :: u64)" by simp
  also have "\<dots> = (sint a - sint b + 2 ^ 63) mod 2 ^ 64 - 2 ^ 63" by (simp only: sint_mod)
  finally have "sint (a - b) = (sint a - sint b + 2 ^ 63) mod 2 ^ 64 - 2 ^ 63" .
  moreover have "x mod 2 ^ 64 = x \<or> x mod 2 ^ 64 = x + 2 ^ 64 \<or> x mod 2 ^ 64 = x - 2 ^ 64"
    if "- (2 ^ 64) < x" "x < 2 * 2 ^ 64" for x :: int
  proof -
    consider "x < 0" | "0 \<le> x" "x < 2 ^ 64" | "2 ^ 64 \<le> x" by linarith
    then show ?thesis
    proof cases
      case 1
      have "x mod 2 ^ 64 = (x + 2 ^ 64) mod 2 ^ 64" by simp
      also have "\<dots> = x + 2 ^ 64" using 1 that by (intro mod_pos_pos_trivial) auto
      finally show ?thesis by simp
    next
      case 3
      have "x mod 2 ^ 64 = (x - 2 ^ 64) mod 2 ^ 64" by simp
      also have "\<dots> = x - 2 ^ 64" using 3 that by (intro mod_pos_pos_trivial) auto
      finally show ?thesis by simp
    qed simp
  qed
  from this [of "sint a - sint b + 2 ^ 63"] calculation show ?thesis
    using u64_ranges [of a] u64_ranges [of b] u64_ranges [of "a - b"] by auto
qed

section \<open>What builders append\<close>

definition appends :: "nat \<Rightarrow> (Seq \<Rightarrow> Seq option) \<Rightarrow> bool" where
  "appends n m \<longleftrightarrow> (\<forall>s t. m s = Some t \<longrightarrow> s_fill t = s_fill s
     \<and> (\<exists>c. insts t = insts s @ c \<and> length c \<le> n) \<and> (\<exists>ks. sites t = sites s @ ks))"

lemma appends_hole: "appends 1 (emit_hole k fl mk)"
  by (auto simp: appends_def emit_hole_def hole_def seq_fixed_def split: option.splits if_splits)

lemma appends_site:
  "appends 1 (\<lambda>s. Option.bind (site kind s) (\<lambda>(i, s). emit_hole k (F_Trap i) mk s))"
  by (auto simp: appends_def emit_hole_def hole_def seq_fixed_def site_def Let_def
      split: option.splits if_splits Option.bind_splits)

lemma appends_bind:
  assumes "appends n m" "appends k m'"
  shows "appends (n + k) (\<lambda>s. Option.bind (m s) m')"
  unfolding appends_def
proof (intro allI impI)
  fix s t assume "Option.bind (m s) m' = Some t"
  then obtain u where u: "m s = Some u" "m' u = Some t" by (auto split: Option.bind_splits)
  obtain c ks where a: "s_fill u = s_fill s" "insts u = insts s @ c" "length c \<le> n" "sites u = sites s @ ks"
    using assms(1) u(1) unfolding appends_def by blast
  obtain c' ks' where "s_fill t = s_fill u" "insts t = insts u @ c'" "length c' \<le> k" "sites t = sites u @ ks'"
    using assms(2) u(2) unfolding appends_def by blast
  with a show "s_fill t = s_fill s \<and> (\<exists>c. insts t = insts s @ c \<and> length c \<le> n + k) \<and> (\<exists>ks. sites t = sites s @ ks)"
    by auto
qed

interpretation app: builder appends UNIV
proof (rule builder.intro)
  show "appends n m \<Longrightarrow> n \<le> k \<Longrightarrow> appends k m" for n k m
    unfolding appends_def by (meson le_trans)
  show "is_ok r \<Longrightarrow> appends 1 (seq_i r)" for r
    by (cases r) (auto simp: appends_def seq_fixed_def)
  show "fl = SlotA \<or> fl = SlotB \<Longrightarrow> rt \<le> 30 \<Longrightarrow> appends 1 (ldr_slot rt fl)" for fl rt
    by (subst slot_holes(1)) (auto simp del: One_nat_def simp: appends_hole)
  show "rt \<le> 30 \<Longrightarrow> appends 1 (str_slot rt SlotDst)" for rt
    by (subst slot_holes(2)) (auto simp del: One_nat_def simp: appends_hole)
  show "sh \<in> {16, 32, 48} \<Longrightarrow> appends 1 (movk_imm (xr rd) i sh)" for rd i sh
    by (subst mov_holes(2)) (auto simp del: One_nat_def simp: appends_hole)
qed (simp_all only: mov_holes(1) trap_holes call_holes appends_hole appends_site appends_bind, simp add: appends_def)

lemma appends_mono: "appends n m \<Longrightarrow> n \<le> k \<Longrightarrow> appends k m"
  by (rule app.weaken)

definition app :: "(Seq \<Rightarrow> Seq option) \<Rightarrow> bool" where
  "app m \<longleftrightarrow> (\<exists>n. appends n m)"

lemma appI: "appends n m \<Longrightarrow> app m"
  by (auto simp: app_def)

lemma app_Some [simp]: "app Some" and app_skip [simp]: "app (\<lambda>s. Some s)"
  using appI [OF app.skip] by auto

lemma app_bind [simp]: "app m \<Longrightarrow> app m' \<Longrightarrow> app (\<lambda>s. Option.bind (m s) m')"
  unfolding app_def using appends_bind by blast

lemma app_if [simp]: "(b \<Longrightarrow> app m) \<Longrightarrow> (\<not> b \<Longrightarrow> app m') \<Longrightarrow> app (\<lambda>s. if b then m s else m' s)"
  by (cases b) simp_all

lemma app_seq_i [simp]: "app (seq_i r)"
  by (cases r) (auto simp: app_def appends_def seq_fixed_def)

lemma app_pieces [simp]:
  "app (canon rd rn ty)" "app (clamp_signed ty)" "app (clamp_hi_unsigned hi)" "app clamp_zero"
  "app (sat_by_sign rd rn)" "app load_ab" "app store_r" "app (mov_imm rd v)" "app rem_msub"
  "app (bin op mode ty)" "app (shift sop mode ty)" "app (neg mode ty)" "app (conv cop ty ty')" "app (raw rd rn e)"
  by (rule appI app.canon app.clamp_s app.clamp_hi app.clamp_0 app.sat_sign app.loads app.store app.mov app.msub
      app.bin app.shift app.neg app.conv app.raw UNIV_I)+

lemma app_traps [simp]:
  "app (trap_if c kind)" "app (trap_cbz (xr rd) kind)" "app (trap_cbnz (xr rd) kind)" "app (trap_tbnz (xr rd) 63 kind)"
  unfolding trap_holes by (rule appI [OF appends_site])+

lemma app_fits [simp]: "app (fits_or_trap r ty kind)"
  by (cases "ty_ext ty") (simp_all add: fits_or_trap_def [abs_def], simp add: app_def appends_def)

section \<open>Weakest preconditions\<close>

text \<open>The trap sites of the fill lie behind the last instruction; the code of a stencil is followed by
  other code.\<close>

definition far :: "Fill \<Rightarrow> nat \<Rightarrow> nat \<Rightarrow> bool" where
  "far f k n \<longleftrightarrow> (\<forall>i < k. 4 * int n \<le> f_trap f ! i)"

lemma far_mono: "far f k n \<Longrightarrow> k' \<le> k \<Longrightarrow> far f k' n"
  by (simp add: far_def)

definition small :: "Seq \<Rightarrow> bool" where
  "small t \<longleftrightarrow> length (insts t) \<le> 60 \<and> length (sites t) \<le> 4"

definition goes :: "Fill \<Rightarrow> TrapKind + mach \<Rightarrow> Seq \<Rightarrow> Seq \<Rightarrow> Inst list \<Rightarrow> mach \<Rightarrow> bool" where
  "goes f r s t c \<sigma> \<longleftrightarrow> (\<forall>pc rest. rest \<noteq> [] \<longrightarrow> far f (length (sites t)) (length (insts t) + length rest) \<longrightarrow>
     (case r of
        Inr \<sigma>' \<Rightarrow> run (pc + length (insts s)) (c @ rest) \<sigma> = run (pc + length (insts t)) rest \<sigma>'
      | Inl k \<Rightarrow> \<exists>i \<sigma>'. i < length (sites t) \<and> i < length (f_trap f) \<and> sites t ! i = k
          \<and> run (pc + length (insts s)) (c @ rest) \<sigma> = Leave (4 * int pc + f_trap f ! i) \<sigma>'))"

definition wp :: "Fill \<Rightarrow> (Seq \<Rightarrow> Seq option) \<Rightarrow> (TrapKind + mach \<Rightarrow> bool) \<Rightarrow> mach \<Rightarrow> bool" where
  "wp f m Q \<sigma> \<longleftrightarrow> (\<exists>r. Q r \<and> (\<forall>s t c. m s = Some t \<longrightarrow> s_fill s = f \<longrightarrow> small t \<longrightarrow>
     insts t = insts s @ c \<longrightarrow> goes f r s t c \<sigma>))"

lemma wpI:
  assumes "Q r" "\<And>s t c. m s = Some t \<Longrightarrow> s_fill s = f \<Longrightarrow> small t \<Longrightarrow> insts t = insts s @ c
    \<Longrightarrow> goes f r s t c \<sigma>"
  shows "wp f m Q \<sigma>"
  using assms unfolding wp_def by blast

lemma wp_mono: "wp f m Q \<sigma> \<Longrightarrow> (\<And>r. Q r \<Longrightarrow> Q' r) \<Longrightarrow> wp f m Q' \<sigma>"
  unfolding wp_def by blast

lemma wp_skip: "Q (Inr \<sigma>) \<Longrightarrow> wp f Some Q \<sigma>"
proof (rule wpI [where r = "Inr \<sigma>"])
  fix s t :: Seq and c assume "Some s = Some t" "insts t = insts s @ c"
  then have "t = s" "c = []" by (metis append_self_conv option.inject)+
  then show "goes f (Inr \<sigma>) s t c \<sigma>" by (simp add: goes_def)
qed

lemma wp_bind:
  assumes m: "wp f m (\<lambda>r. case r of Inl k \<Rightarrow> Q (Inl k) | Inr \<sigma>' \<Rightarrow> wp f m' Q \<sigma>') \<sigma>" and a: "app m" "app m'"
  shows "wp f (\<lambda>s. Option.bind (m s) m') Q \<sigma>"
proof -
  from m obtain r where r: "case r of Inl k \<Rightarrow> Q (Inl k) | Inr \<sigma>' \<Rightarrow> wp f m' Q \<sigma>'"
    "\<And>s t c. m s = Some t \<Longrightarrow> s_fill s = f \<Longrightarrow> small t \<Longrightarrow> insts t = insts s @ c \<Longrightarrow> goes f r s t c \<sigma>"
    unfolding wp_def by blast
  have split: "\<exists>u c1 c2 ks. m s = Some u \<and> m' u = Some t \<and> insts u = insts s @ c1 \<and> insts t = insts u @ c2 \<and> c = c1 @ c2
      \<and> s_fill u = f \<and> sites t = sites u @ ks"
    if "Option.bind (m s) m' = Some t" "s_fill s = f" "insts t = insts s @ c" for s t c
  proof -
    from that obtain u where u: "m s = Some u" "m' u = Some t" by (auto split: Option.bind_splits)
    obtain c1 where "s_fill u = s_fill s" "insts u = insts s @ c1"
      using a(1) u(1) by (auto simp: app_def appends_def)
    moreover obtain c2 ks' where "insts t = insts u @ c2" "sites t = sites u @ ks'"
      using a(2) u(2) by (fastforce simp: app_def appends_def)
    ultimately show ?thesis using u that by auto
  qed
  show ?thesis
  proof (cases r)
    case (Inl k)
    show ?thesis
    proof (rule wpI [where r = "Inl k"])
      fix s t c assume st: "Option.bind (m s) m' = Some t" "s_fill s = f" "small t" "insts t = insts s @ c"
      from split [OF st(1,2,4)] obtain u c1 c2 ks where u: "m s = Some u" "insts u = insts s @ c1"
        "insts t = insts u @ c2" "c = c1 @ c2" "sites t = sites u @ ks" by blast
      with st r(2) [of s u c1] Inl have g: "goes f (Inl k) s u c1 \<sigma>" by (simp add: small_def)
      show "goes f (Inl k) s t c \<sigma>"
        unfolding goes_def
      proof (intro allI impI)
        fix pc and rest :: "Inst list" assume ne: "rest \<noteq> []" and "far f (length (sites t)) (length (insts t) + length rest)"
        then have "far f (length (sites u)) (length (insts u) + length (c2 @ rest))" using u by (auto simp: add.assoc elim: far_mono)
        moreover have "c2 @ rest \<noteq> []" using ne by simp
        ultimately obtain i \<sigma>' where "i < length (sites u)" "i < length (f_trap f)" "sites u ! i = k"
          "run (pc + length (insts s)) (c1 @ c2 @ rest) \<sigma> = Leave (4 * int pc + f_trap f ! i) \<sigma>'"
          using g unfolding goes_def sum.case by blast
        then have "i < length (sites t) \<and> i < length (f_trap f) \<and> sites t ! i = k
            \<and> run (pc + length (insts s)) (c @ rest) \<sigma> = Leave (4 * int pc + f_trap f ! i) \<sigma>'"
          using u by (simp add: nth_append)
        then show "case Inl k of
            Inr \<sigma>' \<Rightarrow> run (pc + length (insts s)) (c @ rest) \<sigma> = run (pc + length (insts t)) rest \<sigma>'
          | Inl k \<Rightarrow> \<exists>i \<sigma>'. i < length (sites t) \<and> i < length (f_trap f) \<and> sites t ! i = k
              \<and> run (pc + length (insts s)) (c @ rest) \<sigma> = Leave (4 * int pc + f_trap f ! i) \<sigma>'"
          unfolding sum.case by blast
      qed
    qed (use r(1) Inl in simp)
  next
    case (Inr \<sigma>1)
    with r(1) obtain r' where r': "Q r'"
      "\<And>s t c. m' s = Some t \<Longrightarrow> s_fill s = f \<Longrightarrow> small t \<Longrightarrow> insts t = insts s @ c \<Longrightarrow> goes f r' s t c \<sigma>1"
      unfolding wp_def by auto
    show ?thesis
    proof (rule wpI [where r = r'])
      fix s t c assume st: "Option.bind (m s) m' = Some t" "s_fill s = f" "small t" "insts t = insts s @ c"
      from split [OF st(1,2,4)] obtain u c1 c2 where u: "m s = Some u" "m' u = Some t" "insts u = insts s @ c1"
        "insts t = insts u @ c2" "c = c1 @ c2" "s_fill u = f" "length (sites u) \<le> length (sites t)" by force
      have g: "goes f (Inr \<sigma>1) s u c1 \<sigma>" "goes f r' u t c2 \<sigma>1"
        using st u r(2) [of s u c1] r'(2) [of u t c2] Inr by (simp_all add: small_def)
      have "run (pc + length (insts s)) (c @ rest) \<sigma> = run (pc + length (insts u)) (c2 @ rest) \<sigma>1"
        if "rest \<noteq> []" "far f (length (sites t)) (length (insts t) + length rest)" for pc rest
        using g(1) that u(4,5) far_mono [OF that(2) u(7)] by (simp add: goes_def add.assoc)
      with g(2) show "goes f r' s t c \<sigma>" by (cases r') (simp_all add: goes_def)
    qed (use r'(1) in simp)
  qed
qed

text \<open>One instruction.\<close>

definition does :: "inst_result \<Rightarrow> mach \<Rightarrow> mach \<Rightarrow> bool" where
  "does r \<sigma> \<sigma>' \<longleftrightarrow> (\<exists>i. r = Inr i \<and> step i \<sigma> = Next \<sigma>')"

lemma wp_i:
  assumes "does r \<sigma> \<sigma>'" "Q (Inr \<sigma>')"
  shows "wp f (seq_i r) Q \<sigma>"
proof (rule wpI [where r = "Inr \<sigma>'"])
  fix s t c assume "seq_i r s = Some t" "insts t = insts s @ c"
  with assms(1) obtain i where "step i \<sigma> = Next \<sigma>'" "c = [i]" "insts t = insts s @ [i]"
    by (auto simp: does_def seq_fixed_def)
  then show "goes f (Inr \<sigma>') s t c \<sigma>" by (simp add: goes_def)
qed (rule assms(2))

lemma wp_ins: "does r \<sigma> \<sigma>' \<Longrightarrow> wp f m Q \<sigma>' \<Longrightarrow> app m \<Longrightarrow> wp f (\<lambda>s. Option.bind (seq_i r s) m) Q \<sigma>"
  by (rule wp_bind) (auto intro: wp_i)

text \<open>A branch to a trap site.\<close>

lemma branch_to_bytes:
  assumes "fits_signed v len 4" "len \<le> 26"
  shows "branch_offset_bytes (branch_to len v) = v"
proof -
  from assms(1) have "- (2 ^ (len - 1)) \<le> v div 4" "v div 4 < 2 ^ (len - 1)" "v mod 4 = 0"
    by (auto simp: fits_signed_def Let_def)
  moreover have "(2 :: int) ^ (len - 1) \<le> 2 ^ 31" using assms(2) by (intro power_increasing) auto
  ultimately have "in_signed 32 (v div 4)" by (simp add: in_signed_def)
  with \<open>v mod 4 = 0\<close> show ?thesis by (simp add: branch_offset_bytes_def) (simp add: dvd_eq_mod_eq_0)
qed

lemma site_nth:
  assumes "site kind s = Some (i, u)" "length (sites u) \<le> 4"
  shows "unat i < length (sites u)" "sites u ! unat i = kind" "insts u = insts s" "s_fill u = s_fill s"
proof -
  have n: "position (\<lambda>k. k = kind) xs = Some n \<Longrightarrow> xs ! n = kind" for n xs
    by (induction xs arbitrary: n) (auto split: if_splits)
  show "unat i < length (sites u)" "sites u ! unat i = kind" "insts u = insts s" "s_fill u = s_fill s"
    using assms n position_less [of "\<lambda>k. k = kind" "sites s"]
    by (auto simp: site_def Let_def unat_of_nat take_bit_nat_eq_self split: option.splits if_splits)
qed

lemma wp_site:
  assumes step: "\<And>v. step (mk v) \<sigma> = branch_if b (branch_to len v) \<sigma>"
    and fits: "\<And>v. kind_fits k v \<longleftrightarrow> fits_signed v len 4" "len \<le> 26"
    and Q: "if b then Q (Inl kind) else Q (Inr \<sigma>)"
  shows "wp f (\<lambda>s. Option.bind (site kind s) (\<lambda>(i, s). emit_hole k (F_Trap i) mk s)) Q \<sigma>"
proof (rule wpI [where r = "if b then Inl kind else Inr \<sigma>"])
  fix s t c assume st: "Option.bind (site kind s) (\<lambda>(i, s). emit_hole k (F_Trap i) mk s) = Some t" "s_fill s = f"
    "small t" "insts t = insts s @ c"
  then obtain i u where u: "site kind s = Some (i, u)" "emit_hole k (F_Trap i) mk u = Some t"
    by (auto split: Option.bind_splits)
  then obtain v where t: "sites t = sites u" "insts t = insts u @ [mk v]" "fits_signed v len 4"
    and v: "field_value \<lparr>h_word = seq_word u, h_kind = k, h_field = F_Trap i\<rparr> (s_fill u) = Some v"
    by (auto simp: emit_hole_def seq_fixed_def hole_def fits(1) split: option.splits if_splits)
  note n = site_nth [OF u(1)]
  have sm: "length (sites u) \<le> 4" "length (insts s) \<le> 60" using st t by (auto simp: small_def)
  have "uint (seq_word u) = int (length (insts s))"
    using sm n by (simp add: seq_word_def unsigned_of_nat take_bit_nat_eq_self)
  with v n sm st(2) have v': "v = f_trap f ! unat i - 4 * int (length (insts s))" "unat i < length (f_trap f)"
    by (auto simp: field_value_def Let_def at_index_def i64_sub_def split: if_splits Option.bind_splits)
  have c: "c = [mk v]" using t n sm st(4) by simp
  show "goes f (if b then Inl kind else Inr \<sigma>) s t c \<sigma>"
  proof (cases b)
    case True
    have "run (pc + length (insts s)) (c @ rest) \<sigma> = Leave (4 * int pc + f_trap f ! unat i) \<sigma>"
      if "far f (length (sites t)) (length (insts t) + length rest)" for pc rest
    proof -
      have "4 * int (length (insts t) + length rest) \<le> f_trap f ! unat i"
        using that v'(2) n(1) t(1) sm(1) by (auto simp: far_def)
      then have "\<not> v < 4 * int (length (mk v # rest))"
        using v'(1) st(4) c by simp
      moreover have "step (mk v) \<sigma> = Jump v \<sigma>"
        using True by (simp add: step branch_if_def branch_to_bytes [OF t(3) fits(2)])
      moreover have "4 * int (length (insts s)) + v = f_trap f ! unat i" using v'(1) by simp
      ultimately show ?thesis by (simp add: c)
    qed
    then show ?thesis using True n sm t v'(2) by (auto simp: goes_def intro!: exI [of _ "unat i"])
  next
    case False
    then show ?thesis using c st(4) by (simp add: goes_def step branch_if_def)
  qed
qed (use Q in auto)

lemma wp_traps:
  "(if cond_holds c (nzcv \<sigma>) then Q (Inl kind) else Q (Inr \<sigma>)) \<Longrightarrow> wp f (trap_if c kind) Q \<sigma>"
  "n \<le> 30 \<Longrightarrow> (if xregs \<sigma> n = 0 then Q (Inl kind) else Q (Inr \<sigma>)) \<Longrightarrow> wp f (trap_cbz (xr n) kind) Q \<sigma>"
  "n \<le> 30 \<Longrightarrow> (if xregs \<sigma> n \<noteq> 0 then Q (Inl kind) else Q (Inr \<sigma>)) \<Longrightarrow> wp f (trap_cbnz (xr n) kind) Q \<sigma>"
  "n \<le> 30 \<Longrightarrow> (if bit (xregs \<sigma> n) 63 then Q (Inl kind) else Q (Inr \<sigma>)) \<Longrightarrow> wp f (trap_tbnz (xr n) 63 kind) Q \<sigma>"
  unfolding trap_holes
  by - (rule wp_site [where len = 19 and b = "cond_holds c (nzcv \<sigma>)"]
      wp_site [where len = 19 and b = "xregs \<sigma> n = 0"] wp_site [where len = 19 and b = "xregs \<sigma> n \<noteq> 0"]
      wp_site [where len = 14 and b = "bit (xregs \<sigma> n) 63"]; force simp: rd_reg_def regfile_def is_zr_xr)+

end
