(* ===== verification/Stencil_Step.thy ===== *)
theory Stencil_Step
  imports Stencil_Run
begin

text \<open>
  The machine state after each instruction of the stencils, one rule per constructor call
  (collection \<open>does\<close>), and the weakest preconditions of the loads, the stores and the helper sequences.
\<close>

named_theorems does

definition setx :: "u8 \<Rightarrow> u64 \<Rightarrow> mach \<Rightarrow> mach" where
  "setx d v \<sigma> = \<sigma>\<lparr>xregs := (xregs \<sigma>)(d := v)\<rparr>"

definition setf :: "flags \<Rightarrow> mach \<Rightarrow> mach" where
  "setf fl \<sigma> = \<sigma>\<lparr>nzcv := fl\<rparr>"

lemma set_simps [simp]:
  "xregs (setx d v \<sigma>) n = (if n = d then v else xregs \<sigma> n)" "nzcv (setx d v \<sigma>) = nzcv \<sigma>"
  "spr (setx d v \<sigma>) = spr \<sigma>" "memory (setx d v \<sigma>) = memory \<sigma>"
  "xregs (setf fl \<sigma>) = xregs \<sigma>" "nzcv (setf fl \<sigma>) = fl" "spr (setf fl \<sigma>) = spr \<sigma>" "memory (setf fl \<sigma>) = memory \<sigma>"
  by (simp_all add: setx_def setf_def)

lemma write_xr: "n \<le> 30 \<Longrightarrow> write_reg (xr n) v \<sigma> = setx n v \<sigma>" "n \<le> 30 \<Longrightarrow> write_reg (wr n) v \<sigma> = setx n v \<sigma>"
  by (simp_all add: write_reg_def setx_def)

lemma write_zr: "write_reg reg_xzr v \<sigma> = \<sigma>"
  by (simp add: write_reg_def)

lemma read_xr: "n \<le> 30 \<Longrightarrow> rd_reg (regfile \<sigma>) (xr n) = xregs \<sigma> n" "rd_reg rf reg_xzr = 0" "rd_reg rf reg_wzr = 0"
  "n \<le> 30 \<Longrightarrow> rd_reg (regfile \<sigma>) (wr n) = xregs \<sigma> n"
  "n \<le> 30 \<Longrightarrow> rd_reg (\<lambda>r. ucast (regfile \<sigma> r) :: u32) (wr n) = ucast (xregs \<sigma> n)"
  by (simp_all add: rd_reg_def regfile_def)

lemma nzcv_same: "(setx d v \<sigma>)\<lparr>nzcv := nzcv \<sigma>\<rparr> = setx d v \<sigma>" "\<sigma>\<lparr>nzcv := nzcv \<sigma>\<rparr> = \<sigma>"
  by (simp_all add: setx_def)

lemma nzcv_set: "\<sigma>\<lparr>nzcv := fl\<rparr> = setf fl \<sigma>"
  by (simp add: setf_def)

lemma setf_same [simp]: "setf (nzcv \<sigma>) (setx d v \<sigma>) = setx d v \<sigma>" "setf (nzcv \<sigma>) \<sigma> = \<sigma>"
  by (simp_all add: setf_def setx_def)

lemmas step_simps = does_def ctor_defs data_step_def read_xr write_xr write_zr nzcv_same nzcv_set

lemma does_add_sub [does]:
  "d \<le> 30 \<Longrightarrow> a \<le> 30 \<Longrightarrow> b \<le> 30 \<Longrightarrow> does (inst_add_shifted (xr d) (xr a) (xr b) none) \<sigma> (setx d (xregs \<sigma> a + xregs \<sigma> b) \<sigma>)"
  "d \<le> 30 \<Longrightarrow> a \<le> 30 \<Longrightarrow> b \<le> 30 \<Longrightarrow> does (inst_sub_shifted (xr d) (xr a) (xr b) none) \<sigma> (setx d (xregs \<sigma> a - xregs \<sigma> b) \<sigma>)"
  "d \<le> 30 \<Longrightarrow> a \<le> 30 \<Longrightarrow> b \<le> 30 \<Longrightarrow> does (inst_adds_shifted (xr d) (xr a) (xr b) none) \<sigma>
      (setf (add_sub_flags Add (xregs \<sigma> a) (xregs \<sigma> b)) (setx d (xregs \<sigma> a + xregs \<sigma> b) \<sigma>))"
  "d \<le> 30 \<Longrightarrow> a \<le> 30 \<Longrightarrow> b \<le> 30 \<Longrightarrow> does (inst_subs_shifted (xr d) (xr a) (xr b) none) \<sigma>
      (setf (add_sub_flags Sub (xregs \<sigma> a) (xregs \<sigma> b)) (setx d (xregs \<sigma> a - xregs \<sigma> b) \<sigma>))"
  "d \<le> 30 \<Longrightarrow> b \<le> 30 \<Longrightarrow> does (inst_neg (xr d) (xr b) none) \<sigma> (setx d (- xregs \<sigma> b) \<sigma>)"
  "d \<le> 30 \<Longrightarrow> b \<le> 30 \<Longrightarrow> does (inst_negs (xr d) (xr b) none) \<sigma>
      (setf (add_sub_flags Sub 0 (xregs \<sigma> b)) (setx d (- xregs \<sigma> b) \<sigma>))"
  "b \<le> 30 \<Longrightarrow> does (inst_negs reg_xzr (xr b) none) \<sigma> (setf (add_sub_flags Sub 0 (xregs \<sigma> b)) \<sigma>)"
  "a \<le> 30 \<Longrightarrow> b \<le> 30 \<Longrightarrow> does (inst_cmp_shifted (xr a) (xr b) none) \<sigma> (setf (add_sub_flags Sub (xregs \<sigma> a) (xregs \<sigma> b)) \<sigma>)"
  by (simp_all add: step_simps)

lemma does_cmp [does]:
  assumes "a \<le> 30" "v \<le> 0xFFF"
  shows "does (bindR (uimm12_new v) (\<lambda>i. inst_cmp_imm (xr a) i)) \<sigma> (setf (add_sub_flags Sub (xregs \<sigma> a) v) \<sigma>)"
    and "does (bindR (uimm12_new v) (\<lambda>i. inst_cmn_imm (xr a) i)) \<sigma> (setf (add_sub_flags Add (xregs \<sigma> a) v) \<sigma>)"
proof -
  have "(ucast (ucast v :: u16) :: u64) = v"
    using assms(2) by (intro ucast_narrow_widen) (simp add: word_le_nat_alt)
  with assms show "does (bindR (uimm12_new v) (\<lambda>i. inst_cmp_imm (xr a) i)) \<sigma> (setf (add_sub_flags Sub (xregs \<sigma> a) v) \<sigma>)"
    "does (bindR (uimm12_new v) (\<lambda>i. inst_cmn_imm (xr a) i)) \<sigma> (setf (add_sub_flags Add (xregs \<sigma> a) v) \<sigma>)"
    by (simp_all add: step_simps uimm12_value_def)
qed

lemma does_cmp_high [does]:
  "does cmp_high_half \<sigma> (setf (add_sub_flags Sub (xregs \<sigma> rT1) (signed_drop_bit 63 (xregs \<sigma> rR))) \<sigma>)"
  by (simp add: step_simps)

lemma does_logic [does]:
  "d \<le> 30 \<Longrightarrow> a \<le> 30 \<Longrightarrow> b \<le> 30 \<Longrightarrow> does (inst_and_shifted (xr d) (xr a) (xr b) none) \<sigma> (setx d (xregs \<sigma> a AND xregs \<sigma> b) \<sigma>)"
  "d \<le> 30 \<Longrightarrow> a \<le> 30 \<Longrightarrow> b \<le> 30 \<Longrightarrow> does (inst_orr_shifted (xr d) (xr a) (xr b) none) \<sigma> (setx d (xregs \<sigma> a OR xregs \<sigma> b) \<sigma>)"
  "d \<le> 30 \<Longrightarrow> a \<le> 30 \<Longrightarrow> b \<le> 30 \<Longrightarrow> does (inst_eor_shifted (xr d) (xr a) (xr b) none) \<sigma> (setx d (xregs \<sigma> a XOR xregs \<sigma> b) \<sigma>)"
  "d \<le> 30 \<Longrightarrow> b \<le> 30 \<Longrightarrow> does (inst_mvn (xr d) (xr b) none) \<sigma> (setx d (NOT (xregs \<sigma> b)) \<sigma>)"
  "d \<le> 30 \<Longrightarrow> b \<le> 30 \<Longrightarrow> does (inst_mov_reg (xr d) (xr b)) \<sigma> (setx d (xregs \<sigma> b) \<sigma>)"
  by (simp_all add: step_simps reg_shift_none_def)

lemma does_eor_imm [does]:
  assumes "d \<le> 30" "a \<le> 30" "v = 1 \<or> v = 0x7FFFFFFFFFFFFFFF"
  shows "does (bindR (logical_imm_new v True) (\<lambda>m. inst_eor_imm (xr d) (xr a) m)) \<sigma> (setx d (xregs \<sigma> a XOR v) \<sigma>)"
proof -
  obtain m where m: "logical_imm_new v True = Inr m"
    using assms(3) logical_imm_new_eqs by (auto simp: is_ok_iff)
  from logical_imm_new_True [OF m] assms m show ?thesis
    by (auto simp: step_simps inst_eor_imm_def logical_imm_def bitmask_sem_def)
qed

lemma does_data2 [does]:
  "d \<le> 30 \<Longrightarrow> a \<le> 30 \<Longrightarrow> b \<le> 30 \<Longrightarrow> does (inst_udiv (xr d) (xr a) (xr b)) \<sigma> (setx d (div_shift_sem Udiv (xregs \<sigma> a) (xregs \<sigma> b)) \<sigma>)"
  "d \<le> 30 \<Longrightarrow> a \<le> 30 \<Longrightarrow> b \<le> 30 \<Longrightarrow> does (inst_sdiv (xr d) (xr a) (xr b)) \<sigma> (setx d (div_shift_sem Sdiv (xregs \<sigma> a) (xregs \<sigma> b)) \<sigma>)"
  "d \<le> 30 \<Longrightarrow> a \<le> 30 \<Longrightarrow> b \<le> 30 \<Longrightarrow> does (inst_lslv (xr d) (xr a) (xr b)) \<sigma> (setx d (div_shift_sem Lslv (xregs \<sigma> a) (xregs \<sigma> b)) \<sigma>)"
  "d \<le> 30 \<Longrightarrow> a \<le> 30 \<Longrightarrow> b \<le> 30 \<Longrightarrow> does (inst_lsrv (xr d) (xr a) (xr b)) \<sigma> (setx d (div_shift_sem Lsrv (xregs \<sigma> a) (xregs \<sigma> b)) \<sigma>)"
  "d \<le> 30 \<Longrightarrow> a \<le> 30 \<Longrightarrow> b \<le> 30 \<Longrightarrow> does (inst_asrv (xr d) (xr a) (xr b)) \<sigma> (setx d (div_shift_sem Asrv (xregs \<sigma> a) (xregs \<sigma> b)) \<sigma>)"
  by (simp_all add: step_simps del: div_shift_sem.simps)

lemma does_data3 [does]:
  "d \<le> 30 \<Longrightarrow> a \<le> 30 \<Longrightarrow> b \<le> 30 \<Longrightarrow> e \<le> 30 \<Longrightarrow> does (inst_msub (xr d) (xr a) (xr b) (xr e)) \<sigma> (setx d (xregs \<sigma> e - xregs \<sigma> a * xregs \<sigma> b) \<sigma>)"
  "d \<le> 30 \<Longrightarrow> a \<le> 30 \<Longrightarrow> b \<le> 30 \<Longrightarrow> does (inst_mul (xr d) (xr a) (xr b)) \<sigma> (setx d (xregs \<sigma> a * xregs \<sigma> b) \<sigma>)"
  "d \<le> 30 \<Longrightarrow> a \<le> 30 \<Longrightarrow> b \<le> 30 \<Longrightarrow> does (inst_smulh (xr d) (xr a) (xr b)) \<sigma>
      (setx d (word_of_int (sint (xregs \<sigma> a) * sint (xregs \<sigma> b) div 2 ^ 64)) \<sigma>)"
  "d \<le> 30 \<Longrightarrow> a \<le> 30 \<Longrightarrow> b \<le> 30 \<Longrightarrow> does (inst_umulh (xr d) (xr a) (xr b)) \<sigma>
      (setx d (word_of_int (uint (xregs \<sigma> a) * uint (xregs \<sigma> b) div 2 ^ 64)) \<sigma>)"
  by (simp_all add: step_simps)

lemma does_select [does]:
  "d \<le> 30 \<Longrightarrow> a \<le> 30 \<Longrightarrow> b \<le> 30 \<Longrightarrow> does (inst_csel (xr d) (xr a) (xr b) c) \<sigma> (setx d (if cond_holds c (nzcv \<sigma>) then xregs \<sigma> a else xregs \<sigma> b) \<sigma>)"
  "d \<le> 30 \<Longrightarrow> b \<le> 30 \<Longrightarrow> does (inst_csel (xr d) reg_xzr (xr b) c) \<sigma> (setx d (if cond_holds c (nzcv \<sigma>) then 0 else xregs \<sigma> b) \<sigma>)"
  "d \<le> 30 \<Longrightarrow> a \<le> 30 \<Longrightarrow> does (inst_csel (xr d) (xr a) reg_xzr c) \<sigma> (setx d (if cond_holds c (nzcv \<sigma>) then xregs \<sigma> a else 0) \<sigma>)"
  "d \<le> 30 \<Longrightarrow> a \<le> 30 \<Longrightarrow> b \<le> 30 \<Longrightarrow> does (inst_csinv (xr d) (xr a) (xr b) c) \<sigma> (setx d (if cond_holds c (nzcv \<sigma>) then xregs \<sigma> a else NOT (xregs \<sigma> b)) \<sigma>)"
  "d \<le> 30 \<Longrightarrow> a \<le> 30 \<Longrightarrow> does (inst_csinv (xr d) (xr a) reg_xzr c) \<sigma> (setx d (if cond_holds c (nzcv \<sigma>) then xregs \<sigma> a else - 1) \<sigma>)"
  by (simp_all add: step_simps)

lemma does_asr [does]:
  "d \<le> 30 \<Longrightarrow> a \<le> 30 \<Longrightarrow> does (inst_asr_imm (xr d) (xr a) 63) \<sigma> (setx d (signed_drop_bit 63 (xregs \<sigma> a)) \<sigma>)"
  using sbfm_asr [of 63 "xregs \<sigma> a"] by (simp add: step_simps)

section \<open>Canonical forms\<close>

text \<open>What \<^verbatim>\<open>canon\<close> and \<^verbatim>\<open>raw\<close> compute.\<close>

definition canon_word :: "IntTy \<Rightarrow> u64 \<Rightarrow> u64" where
  "canon_word ty v = (if ty_signed ty then signed_take_bit (ty_width ty - 1) v else take_bit (ty_width ty) v)"

fun raw_word :: "RawExt \<Rightarrow> u64 \<Rightarrow> u64" where
  "raw_word RX_None v = v" | "raw_word RX_B v = take_bit 8 v"
| "raw_word RX_H v = take_bit 16 v" | "raw_word RX_W v = take_bit 32 v"

lemma word32_ops:
  "ucast (ucast v :: u32) = take_bit 32 (v :: u64)"
  "ucast (take_bit 8 (ucast v :: u32)) = take_bit 8 (v :: u64)"
  "ucast (take_bit 16 (ucast v :: u32)) = take_bit 16 (v :: u64)"
  by (rule bit_word_eqI, auto simp: bit_simps)+

lemma full_word: "signed_take_bit 63 (v :: u64) = v" "take_bit 64 (v :: u64) = v"
  by (rule bit_word_eqI, simp add: bit_simps min_absorb2)+

lemma setx_same [simp]: "setx d (xregs \<sigma> d) \<sigma> = \<sigma>"
  by (simp add: setx_def)

lemma does_extend [does]:
  "d \<le> 30 \<Longrightarrow> a \<le> 30 \<Longrightarrow> does (inst_sxtb (xr d) (xr a)) \<sigma> (setx d (signed_take_bit 7 (xregs \<sigma> a)) \<sigma>)"
  "d \<le> 30 \<Longrightarrow> a \<le> 30 \<Longrightarrow> does (inst_sxth (xr d) (xr a)) \<sigma> (setx d (signed_take_bit 15 (xregs \<sigma> a)) \<sigma>)"
  "d \<le> 30 \<Longrightarrow> a \<le> 30 \<Longrightarrow> does (inst_sxtw (xr d) (wr a)) \<sigma> (setx d (signed_take_bit 31 (xregs \<sigma> a)) \<sigma>)"
  "d \<le> 30 \<Longrightarrow> a \<le> 30 \<Longrightarrow> does (inst_uxtb (wr d) (wr a)) \<sigma> (setx d (take_bit 8 (xregs \<sigma> a)) \<sigma>)"
  "d \<le> 30 \<Longrightarrow> a \<le> 30 \<Longrightarrow> does (inst_uxth (wr d) (wr a)) \<sigma> (setx d (take_bit 16 (xregs \<sigma> a)) \<sigma>)"
  "d \<le> 30 \<Longrightarrow> a \<le> 30 \<Longrightarrow> does (inst_mov_reg (wr d) (wr a)) \<sigma> (setx d (take_bit 32 (xregs \<sigma> a)) \<sigma>)"
  by (simp_all add: step_simps sbfm_sem_def ubfm_sem_def word32_ops reg_shift_none_def)

lemma wp_canon:
  assumes "rd \<le> 30" "rn \<le> 30" "Q (Inr (setx rd (canon_word ty (xregs \<sigma> rn)) \<sigma>))"
  shows "wp f (canon rd rn ty) Q \<sigma>"
  using assms unfolding canon_def [abs_def]
  by (cases ty; cases "rd = rn") (auto simp: canon_word_def full_word intro: does wp_i wp_skip)

lemma wp_raw:
  assumes "rd \<le> 30" "rn \<le> 30" "Q (Inr (setx rd (raw_word e (xregs \<sigma> rn)) \<sigma>))"
  shows "wp f (raw rd rn e) Q \<sigma>"
  using assms unfolding raw_def [abs_def]
  by (cases e; cases "rd = rn") (auto intro: does wp_i wp_skip)

lemma does_cmp_ext:
  assumes "r \<le> 30" "ty_ext ty = Some e"
  shows "does (bindR (reg_extend_new e 0) (\<lambda>e. inst_cmp_extended (xr r) (wr r) e)) \<sigma>
    (setf (add_sub_flags Sub (xregs \<sigma> r) (canon_word ty (xregs \<sigma> r))) \<sigma>)"
  using assms by (cases ty) (auto simp: step_simps canon_word_def)

lemma wp_fits:
  assumes "r \<le> 30" "ty_narrow ty"
    and "if canon_word ty (xregs \<sigma> r) = xregs \<sigma> r then \<forall>fl. Q (Inr (setf fl \<sigma>)) else Q (Inl kind)"
  shows "wp f (fits_or_trap r ty kind) Q \<sigma>"
proof -
  obtain e where e: "ty_ext ty = Some e" using assms(2) by (cases ty) (auto simp: ty_narrow_def)
  then show ?thesis
    unfolding fits_or_trap_def [abs_def] e bind.simps
    by (intro wp_ins [OF does_cmp_ext [OF assms(1) e]] wp_traps(1))
      (use assms(3) in \<open>auto simp: cond_holds_simps sub_flags split: if_splits\<close>)
qed

lemma wp_if: "(b \<Longrightarrow> wp f m Q \<sigma>) \<Longrightarrow> (\<not> b \<Longrightarrow> wp f m' Q \<sigma>) \<Longrightarrow> wp f (\<lambda>s. if b then m s else m' s) Q \<sigma>"
  by (cases b) simp_all

section \<open>Immediates\<close>

definition put_half :: "nat \<Rightarrow> u16 \<Rightarrow> u64 \<Rightarrow> u64" where
  "put_half i h v = (v AND NOT (push_bit (16 * i) 0xFFFF)) OR push_bit (16 * i) (ucast h)"

lemma bit_put_half:
  assumes "n < 64"
  shows "bit (put_half i h v) n = (if n div 16 = i then bit h (n mod 16) else bit v n)"
proof -
  have m: "put_half i h v = (v AND NOT (push_bit (16 * i) (mask 16))) OR push_bit (16 * i) (ucast h)"
    by (simp add: put_half_def mask_eq_exp_minus_1)
  have "n div 16 = i \<longleftrightarrow> 16 * i \<le> n \<and> n - 16 * i < 16" by auto
  moreover have "n div 16 = i \<Longrightarrow> n - 16 * i = n mod 16" by (auto simp: minus_mult_div_eq_mod)
  ultimately show ?thesis
    using assms by (auto simp: m bit_simps dest: bit_imp_le_length)
qed

lemma mov_does:
  assumes "d \<le> 30" "i < 4"
  shows "does (inst_movz (xr d) h (word_of_nat (16 * i))) \<sigma> (setx d (put_half i h 0) \<sigma>)"
    and "does (inst_movn (xr d) (NOT h) (word_of_nat (16 * i))) \<sigma> (setx d (put_half i h (- 1)) \<sigma>)"
    and "does (inst_movk (xr d) h (word_of_nat (16 * i))) \<sigma> (setx d (put_half i h (xregs \<sigma> d)) \<sigma>)"
proof -
  have u: "unat (word_of_nat (16 * i) :: u8) = 16 * i"
    using assms(2) by (simp add: unat_of_nat take_bit_nat_eq_self del: of_nat_mult of_nat_numeral)
  have n: "NOT (push_bit (16 * i) (ucast (NOT h))) = put_half i h (- 1)"
  proof (rule bit_word_eqI)
    fix n assume "n < LENGTH(64)"
    moreover have "n div 16 = i \<longleftrightarrow> 16 * i \<le> n \<and> n - 16 * i < 16" by auto
    moreover have "n div 16 = i \<Longrightarrow> n - 16 * i = n mod 16" by (auto simp: minus_mult_div_eq_mod)
    ultimately show "bit (NOT (push_bit (16 * i) (ucast (NOT h))) :: u64) n = bit (put_half i h (- 1)) n"
      by (auto simp: bit_put_half bit_simps)
  qed
  note defs = does_def inst_movz_def inst_movn_def inst_movk_def mov_wide_half data_step_def u n
    read_xr(1) write_xr(1) nzcv_same
  show "does (inst_movz (xr d) h (word_of_nat (16 * i))) \<sigma> (setx d (put_half i h 0) \<sigma>)"
    "does (inst_movn (xr d) (NOT h) (word_of_nat (16 * i))) \<sigma> (setx d (put_half i h (- 1)) \<sigma>)"
    "does (inst_movk (xr d) h (word_of_nat (16 * i))) \<sigma> (setx d (put_half i h (xregs \<sigma> d)) \<sigma>)"
    using assms by (simp_all add: defs put_half_def del: of_nat_mult of_nat_numeral)
qed

lemma setx_setx [simp]: "setx d v (setx d u \<sigma>) = setx d v \<sigma>"
  by (simp add: setx_def)

lemma wp_movk_loop:
  assumes "rd \<le> 30" "\<forall>(i, h) \<in> set hs. i < 4"
    and "Q (Inr (setx rd (fold (\<lambda>(i, h) v. if i \<noteq> first \<and> h \<noteq> sk then put_half i h v else v) hs (xregs \<sigma> rd)) \<sigma>))"
  shows "wp f (movk_loop hs rd first sk) Q \<sigma> \<and> app (movk_loop hs rd first sk)"
  using assms(2,3)
proof (induction hs arbitrary: \<sigma>)
  case Nil
  then show ?case by (auto simp: movk_loop.simps(1) [abs_def] intro: wp_skip)
next
  case (Cons ih hs)
  obtain i h where ih: "ih = (i, h)" by force
  let ?m = "\<lambda>s. if i \<noteq> first \<and> h \<noteq> sk then seq_i (inst_movk (xr rd) h (word_of_nat (16 * i))) s else Some s"
  have e: "movk_loop (ih # hs) rd first sk = (\<lambda>s. Option.bind (?m s) (movk_loop hs rd first sk))"
    by (simp add: ih movk_loop.simps(2) [abs_def])
  let ?\<sigma> = "if i \<noteq> first \<and> h \<noteq> sk then setx rd (put_half i h (xregs \<sigma> rd)) \<sigma> else \<sigma>"
  have IH: "wp f (movk_loop hs rd first sk) Q ?\<sigma> \<and> app (movk_loop hs rd first sk)"
    using Cons.prems ih by (intro Cons.IH) auto
  have "wp f ?m (\<lambda>r. case r of Inl k \<Rightarrow> Q (Inl k) | Inr \<sigma>' \<Rightarrow> wp f (movk_loop hs rd first sk) Q \<sigma>') \<sigma>"
  proof (cases "i \<noteq> first \<and> h \<noteq> sk")
    case True
    have "i < 4" using Cons.prems(1) ih by simp
    with True IH show ?thesis
      by (simp del: of_nat_mult) (rule wp_i [OF mov_does(3) [OF assms(1)]], simp_all)
  next
    case False
    then have c: "(i \<noteq> first \<and> h \<noteq> sk) = False" by simp
    from IH c show ?thesis by (simp only: c if_False) (rule wp_skip, simp)
  qed
  with IH show ?case unfolding e by (auto intro!: wp_bind)
qed

lemma fold_halves:
  fixes v w :: u64
  assumes "\<And>n. n < 64 \<Longrightarrow> bit w n = (if n div 16 = first then bit v n else bit sk (n mod 16))"
  shows "fold (\<lambda>(i, h) w. if i \<noteq> first \<and> h \<noteq> sk then put_half i h w else w) (enumerate 0 (halves_of v)) w = v"
proof (rule bit_word_eqI)
  fix n assume n: "n < LENGTH(64)"
  have e: "enumerate 0 (halves_of v) = [(0, ucast v), (1, ucast (drop_bit 16 v)), (2, ucast (drop_bit 32 v)), (3, ucast (drop_bit 48 v))]"
    by (simp add: halves_of_def upt_conv_Cons)
  have h: "16 * (n div 16) + n mod 16 = n" "n mod 16 < 16" by simp_all
  have d: "n div 16 = 0 \<or> n div 16 = 1 \<or> n div 16 = 2 \<or> n div 16 = 3" using n by auto
  have b: "bit (ucast (drop_bit (16 * (n div 16)) v) :: u16) (n mod 16) = bit v n"
    using h by (simp add: bit_simps)
  from d show "bit (fold (\<lambda>(i, h) w. if i \<noteq> first \<and> h \<noteq> sk then put_half i h w else w) (enumerate 0 (halves_of v)) w) n = bit v n"
    using assms [of n] n b unfolding e
    by (elim disjE) (simp_all add: bit_put_half split: if_splits, auto)
qed

lemma position_lt: "unwrap_or (position p xs) 0 < length xs \<or> xs = []"
  using position_less [of p xs] by (cases "position p xs") (auto simp: unwrap_or_def)

lemma wp_mov_imm:
  assumes "rd \<le> 30" "Q (Inr (setx rd v \<sigma>))"
  shows "wp f (mov_imm rd v) Q \<sigma>"
proof -
  have l: "length (halves_of v) = 4" by (simp add: halves_of_def)
  have i: "\<forall>(i, h) \<in> set (enumerate 0 (halves_of v)). i < 4" by (auto simp: in_set_enumerate_eq l)
  have go: "wp f (\<lambda>s. Option.bind (seq_i r s) (movk_loop (enumerate 0 (halves_of v)) rd first sk)) Q \<sigma>"
    if first: "first < 4" and r: "does r \<sigma> (setx rd (put_half first (halves_of v ! first) w) \<sigma>)"
      and w: "\<And>n. n < 64 \<Longrightarrow> bit w n = bit sk (n mod 16)" for r first w sk
  proof -
    have h: "halves_of v ! first = ucast (drop_bit (16 * first) v)" using first by (simp add: halves_of_def)
    have b: "bit (put_half first (halves_of v ! first) w) n = (if n div 16 = first then bit v n else bit sk (n mod 16))"
      if n: "n < 64" for n
    proof -
      have "16 * (n div 16) + n mod 16 = n" "n mod 16 < 16" by simp_all
      then have "bit (ucast (drop_bit (16 * (n div 16)) v) :: u16) (n mod 16) = bit v n" by (simp add: bit_simps)
      then show ?thesis using n w by (auto simp: bit_put_half h)
    qed
    from wp_movk_loop [OF assms(1) i, of Q first sk "setx rd (put_half first (halves_of v ! first) w) \<sigma>"] assms(2)
    show ?thesis by (intro wp_ins [OF r]) (simp_all add: fold_halves [OF b])
  qed
  let ?f1 = "unwrap_or (position (\<lambda>h. h \<noteq> 0xFFFF) (halves_of v)) 0"
  let ?f0 = "unwrap_or (position (\<lambda>h. h \<noteq> 0) (halves_of v)) 0"
  have f: "?f1 < 4" "?f0 < 4" using position_lt [of _ "halves_of v"] l by fastforce+
  have m: "bit (0xFFFF :: u16) n \<longleftrightarrow> n < 16" for n
  proof -
    have "(0xFFFF :: u16) = mask 16" by (simp add: mask_eq_exp_minus_1)
    then show ?thesis by (simp only: bit_mask_iff) simp
  qed
  have w: "n < 64 \<Longrightarrow> bit (- 1 :: u64) n = bit (0xFFFF :: u16) (n mod 16)"
    "n < 64 \<Longrightarrow> bit (0 :: u64) n = bit (0 :: u16) (n mod 16)" for n
    using m [of "n mod 16"] by simp_all
  note c = go [OF f(1) mov_does(2) [OF assms(1) f(1)] w(1)] go [OF f(2) mov_does(1) [OF assms(1) f(2)] w(2)]
  show ?thesis
    unfolding mov_imm_def [abs_def] Let_def by (rule wp_if) (use c in \<open>simp_all only:\<close>)
qed

section \<open>Slots\<close>

text \<open>The slot of an offset, in the frame of the stack pointer.\<close>

definition slot_at :: "mach \<Rightarrow> u32 \<Rightarrow> u64" where
  "slot_at \<sigma> off = spr \<sigma> + ucast off"

lemma slot_at_simps [simp]: "slot_at (setx d v \<sigma>) off = slot_at \<sigma> off" "slot_at (setf fl \<sigma>) off = slot_at \<sigma> off"
  by (simp_all add: slot_at_def)

lemma uscaled_value:
  assumes "kind_fits LdSt64 v"
  shows "uscaled_bytes \<lparr>us_scaled = word_of_nat (nat v div 8), us_access_size = 8\<rparr> = v"
proof -
  from assms have v: "0 \<le> v" "v div 8 \<le> 0xFFF" "8 * (v div 8) = v" by auto
  then have "nat v div 8 = nat (v div 8)" by (simp add: nat_div_distrib)
  moreover have "uint (word_of_int (v div 8) :: u16) = v div 8"
    using v by (simp add: unsigned_of_int take_bit_int_eq_self)
  ultimately show ?thesis using v by (simp add: uscaled_bytes_def)
qed

lemma wp_emit:
  assumes "\<And>v. kind_fits k v \<Longrightarrow> field_value \<lparr>h_word = w, h_kind = k, h_field = fl\<rparr> f = Some v \<Longrightarrow> step (mk v) \<sigma> = Next \<sigma>'"
    and "\<And>w w'. field_value \<lparr>h_word = w, h_kind = k, h_field = fl\<rparr> f = field_value \<lparr>h_word = w', h_kind = k, h_field = fl\<rparr> f"
    and "Q (Inr \<sigma>')"
  shows "wp f (emit_hole k fl mk) Q \<sigma>"
proof (rule wpI [where r = "Inr \<sigma>'"])
  fix s t c assume st: "emit_hole k fl mk s = Some t" "s_fill s = f" "insts t = insts s @ c"
  then obtain v where "field_value \<lparr>h_word = w, h_kind = k, h_field = fl\<rparr> f = Some v" "kind_fits k v" "c = [mk v]"
    using assms(2) [of "seq_word s" w]
    by (auto simp: emit_hole_def seq_fixed_def hole_def split: option.splits if_splits)
  with assms(1) st(3) show "goes f (Inr \<sigma>') s t c \<sigma>" by (simp add: goes_def)
qed (rule assms(3))

lemma slot_step:
  assumes "kind_fits LdSt64 (uint off)" "rt \<le> 30"
  shows "step (LoadStoreImm LdrX (xr rt) reg_sp (UnsignedOffset \<lparr>us_scaled = word_of_nat (nat (uint off) div 8), us_access_size = 8\<rparr>)) \<sigma>
      = Next (setx rt (load64 (memory \<sigma>) (slot_at \<sigma> off)) \<sigma>)"
    and "step (LoadStoreImm StrX (xr rt) reg_sp (UnsignedOffset \<lparr>us_scaled = word_of_nat (nat (uint off) div 8), us_access_size = 8\<rparr>)) \<sigma>
      = Next (\<sigma>\<lparr>memory := store64 (memory \<sigma>) (slot_at \<sigma> off) (xregs \<sigma> rt)\<rparr>)"
proof -
  have "regfile \<sigma> reg_sp = spr \<sigma>" by (simp add: regfile_def)
  moreover have "(word_of_int (uint off) :: u64) = ucast off" by simp
  ultimately show "step (LoadStoreImm LdrX (xr rt) reg_sp (UnsignedOffset \<lparr>us_scaled = word_of_nat (nat (uint off) div 8), us_access_size = 8\<rparr>)) \<sigma>
      = Next (setx rt (load64 (memory \<sigma>) (slot_at \<sigma> off)) \<sigma>)"
    "step (LoadStoreImm StrX (xr rt) reg_sp (UnsignedOffset \<lparr>us_scaled = word_of_nat (nat (uint off) div 8), us_access_size = 8\<rparr>)) \<sigma>
      = Next (\<sigma>\<lparr>memory := store64 (memory \<sigma>) (slot_at \<sigma> off) (xregs \<sigma> rt)\<rparr>)"
    using assms by (simp_all only: step.simps uscaled_value [OF assms(1)] slot_at_def write_xr read_xr)
qed

lemma wp_slots:
  "rt \<le> 30 \<Longrightarrow> Q (Inr (setx rt (load64 (memory \<sigma>) (slot_at \<sigma> (slot_a f))) \<sigma>)) \<Longrightarrow> wp f (ldr_slot rt SlotA) Q \<sigma>"
  "rt \<le> 30 \<Longrightarrow> Q (Inr (setx rt (load64 (memory \<sigma>) (slot_at \<sigma> (slot_b f))) \<sigma>)) \<Longrightarrow> wp f (ldr_slot rt SlotB) Q \<sigma>"
  "rt \<le> 30 \<Longrightarrow> Q (Inr (\<sigma>\<lparr>memory := store64 (memory \<sigma>) (slot_at \<sigma> (slot_dst f)) (xregs \<sigma> rt)\<rparr>)) \<Longrightarrow> wp f (str_slot rt SlotDst) Q \<sigma>"
proof -
  show "rt \<le> 30 \<Longrightarrow> Q (Inr (setx rt (load64 (memory \<sigma>) (slot_at \<sigma> (slot_a f))) \<sigma>)) \<Longrightarrow> wp f (ldr_slot rt SlotA) Q \<sigma>"
    by (subst slot_holes(1), blast, assumption, rule wp_emit [where w = 0])
      (auto simp: field_value_def slot_step [unfolded nat_uint_eq] simp del: kind_fits.simps step.simps)
  show "rt \<le> 30 \<Longrightarrow> Q (Inr (setx rt (load64 (memory \<sigma>) (slot_at \<sigma> (slot_b f))) \<sigma>)) \<Longrightarrow> wp f (ldr_slot rt SlotB) Q \<sigma>"
    by (subst slot_holes(1), blast, assumption, rule wp_emit [where w = 0])
      (auto simp: field_value_def slot_step [unfolded nat_uint_eq] simp del: kind_fits.simps step.simps)
  show "rt \<le> 30 \<Longrightarrow> Q (Inr (\<sigma>\<lparr>memory := store64 (memory \<sigma>) (slot_at \<sigma> (slot_dst f)) (xregs \<sigma> rt)\<rparr>)) \<Longrightarrow> wp f (str_slot rt SlotDst) Q \<sigma>"
    by (subst slot_holes(2), blast, assumption, rule wp_emit [where w = 0])
      (auto simp: field_value_def slot_step [unfolded nat_uint_eq] simp del: kind_fits.simps step.simps)
qed

section \<open>Branches in the body\<close>

text \<open>\<open>exact n m\<close>: the builder pushes \<open>n\<close> instructions.\<close>

definition exact :: "nat \<Rightarrow> (Seq \<Rightarrow> Seq option) \<Rightarrow> bool" where
  "exact n m \<longleftrightarrow> (\<forall>s t. m s = Some t \<longrightarrow> length (insts t) = length (insts s) + n)"

lemma exact_bind: "exact n m \<Longrightarrow> exact k m' \<Longrightarrow> exact (n + k) (\<lambda>s. Option.bind (m s) m')"
  by (force simp: exact_def split: Option.bind_splits)

lemma b_cond_local_eq:
  "0 \<le> n \<Longrightarrow> n < 100 \<Longrightarrow> b_cond_local c n = (\<lambda>s. Some (seq_fixed (BranchCond c (branch_to 19 (4 * n))) s))"
  by (auto simp: fun_eq_iff b_cond_local_def branch_seq fits_signed_def inst_b_cond_def)

lemma exact_pieces:
  "exact 1 (seq_i r)" "exact 1 (trap_if c kind)" "0 \<le> n \<Longrightarrow> n < 100 \<Longrightarrow> exact 1 (b_cond_local c n)"
proof -
  show "exact 1 (seq_i r)" by (cases r) (auto simp: exact_def seq_fixed_def)
  show "exact 1 (trap_if c kind)"
    unfolding trap_holes
    by (auto simp: exact_def emit_hole_def hole_def seq_fixed_def site_def Let_def
      split: option.splits if_splits Option.bind_splits)
  show "0 \<le> n \<Longrightarrow> n < 100 \<Longrightarrow> exact 1 (b_cond_local c n)"
    by (simp add: b_cond_local_eq exact_def seq_fixed_def)
qed

lemma app_local [simp]: "0 \<le> n \<Longrightarrow> n < 100 \<Longrightarrow> app (b_cond_local c n)"
  by (auto simp: b_cond_local_eq app_def appends_def seq_fixed_def)

lemma wp_over:
  assumes m: "exact n m" "app m" "n < 50"
    and Q: "if cond_holds c (nzcv \<sigma>) then Q (Inr \<sigma>) else wp f m Q \<sigma>"
  shows "wp f (\<lambda>s. Option.bind (b_cond_local c (1 + int n) s) m) Q \<sigma>"
proof -
  let ?i = "BranchCond c (branch_to 19 (4 * (1 + int n)))"
  have o: "branch_offset_bytes (branch_to 19 (4 * (1 + int n))) = 4 * (1 + int n)"
    using m(3) by (intro branch_to_bytes) (auto simp: fits_signed_def)
  have split: "\<exists>c'. c'' = ?i # c' \<and> m (seq_fixed ?i s) = Some t \<and> insts t = insts (seq_fixed ?i s) @ c' \<and> length c' = n"
    if "Option.bind (b_cond_local c (1 + int n) s) m = Some t" "insts t = insts s @ c''" for s t c''
  proof -
    from that(1) m(3) have t: "m (seq_fixed ?i s) = Some t" by (simp add: b_cond_local_eq)
    then obtain c' where "insts t = insts (seq_fixed ?i s) @ c'" using m(2) by (auto simp: app_def appends_def)
    moreover have "length (insts t) = length (insts (seq_fixed ?i s)) + n" using m(1) t by (simp add: exact_def)
    ultimately show ?thesis using that(2) t by (auto simp: seq_fixed_def)
  qed
  show ?thesis
  proof (cases "cond_holds c (nzcv \<sigma>)")
    case True
    show ?thesis
    proof (rule wpI [where r = "Inr \<sigma>"])
      fix s t c'' assume "Option.bind (b_cond_local c (1 + int n) s) m = Some t" "insts t = insts s @ c''"
      from split [OF this] obtain c' where c: "c'' = ?i # c'" "insts t = insts s @ c''" "length c' = n"
        by (auto simp: seq_fixed_def)
      have "run (pc + length (insts s)) (c'' @ rest) \<sigma> = run (pc + length (insts t)) rest \<sigma>" if "rest \<noteq> []" for pc rest
      proof -
        have "step ?i \<sigma> = Jump (4 * (1 + int n)) \<sigma>" using True o by (simp add: branch_if_def)
        moreover have "nat (4 * (1 + int n) div 4) = Suc n" by simp
        moreover have "drop n (c' @ rest) = rest" "length (insts t) = length (insts s) + Suc n" using c by simp_all
        moreover have "4 * (1 + int n) < 4 * int (length (c'' @ rest))" using c that by (cases rest) simp_all
        ultimately show ?thesis using c(1,3) by (simp add: distrib_left add.assoc)
      qed
      then show "goes f (Inr \<sigma>) s t c'' \<sigma>" by (simp add: goes_def)
    qed (use Q True in simp)
  next
    case False
    with Q obtain r where r: "Q r"
      "\<And>s t c. m s = Some t \<Longrightarrow> s_fill s = f \<Longrightarrow> small t \<Longrightarrow> insts t = insts s @ c \<Longrightarrow> goes f r s t c \<sigma>"
      unfolding wp_def by auto
    show ?thesis
    proof (rule wpI [where r = r])
      fix s t c'' assume st: "Option.bind (b_cond_local c (1 + int n) s) m = Some t" "insts t = insts s @ c''"
        "s_fill s = f" "small t"
      from split [OF st(1,2)] obtain c' where c: "c'' = ?i # c'" "m (seq_fixed ?i s) = Some t"
        "insts t = insts (seq_fixed ?i s) @ c'" by blast
      with r(2) [OF c(2) _ st(4) c(3)] st(3) have "goes f r (seq_fixed ?i s) t c' \<sigma>" by (simp add: seq_fixed_def)
      moreover have "run (pc + length (insts s)) (c'' @ rest) \<sigma> = run (pc + length (insts (seq_fixed ?i s))) (c' @ rest) \<sigma>" for pc rest
        using False c(1) by (simp add: branch_if_def seq_fixed_def)
      ultimately show "goes f r s t c'' \<sigma>" by (simp only: goes_def)
    qed (rule r(1))
  qed
qed

end
