(* ===== verification/Stencil_Value.thy ===== *)
theory Stencil_Value
  imports Stencil_Step Codegen_Code Arith_Theorems
begin

text \<open>
  Canonical slot words against the numbers of the interpreter's types, and what the canonicalising,
  range-checking and clamping sequences of the stencils compute on numbers.
\<close>

section \<open>Types and canonical words\<close>

fun kind_of :: "IntTy \<Rightarrow> IntKind" where
  "kind_of T_I8 = I8" | "kind_of T_I16 = I16" | "kind_of T_I32 = I32" | "kind_of T_I64 = I64"
| "kind_of T_U8 = U8" | "kind_of T_U16 = U16" | "kind_of T_U32 = U32" | "kind_of T_U64 = U64"

lemma kind_of_simps [simp]: "kwidth (kind_of ty) = ty_width ty" "ksigned (kind_of ty) = ty_signed ty"
  by (cases ty; simp)+

lemma ty_width_bounds: "0 < ty_width ty" "ty_width ty \<le> 64"
  by (cases ty; simp)+

lemma word_eq_kvalue: "word_of_int (kvalue (kind_of ty) a) = canon_word ty a"
proof (cases "ty_signed ty")
  case True
  then show ?thesis
    by (intro bit_word_eqI)
      (use ty_width_bounds [of ty] in \<open>auto simp: kvalue_def kas_signed_eq canon_word_def bit_simps min_def\<close>)
next
  case False
  then show ?thesis
    by (simp add: kvalue_def uint_kas_unsigned canon_word_def, intro bit_word_eqI)
      (auto simp: bit_simps)
qed

lemma canonical_canon: "canonical a ty = canon_word ty a"
proof (cases "ty_width ty = 64")
  case True
  then show ?thesis by (auto simp: canonical_def canon_word_def full_word)
next
  case False
  have "signed_drop_bit (64 - ty_width ty) (push_bit (64 - ty_width ty) (take_bit (ty_width ty) a)) =
      signed_take_bit (ty_width ty - 1) a" (is "?l = ?r")
  proof (rule bit_word_eqI)
    fix n assume n: "n < LENGTH(64)"
    show "bit ?l n = bit ?r n"
    proof (cases "n < ty_width ty")
      case True
      then have "n + (64 - ty_width ty) < 64" "min (ty_width ty - 1) n = n"
        using ty_width_bounds [of ty] by auto
      with True n show ?thesis by (auto simp: bit_simps)
    next
      case False
      then have "\<not> n + (64 - ty_width ty) < 64" "min (ty_width ty - 1) n = ty_width ty - 1"
        "63 - (64 - ty_width ty) = ty_width ty - 1" "ty_width ty - 1 < ty_width ty"
        using ty_width_bounds [of ty] by auto
      with n show ?thesis by (auto simp: bit_simps)
    qed
  qed
  with False show ?thesis by (simp only: canonical_def Let_def word_mask_and canon_word_def if_False)
qed

lemma canonical_value: "canonical a ty = word_of_int (kvalue (kind_of ty) a)"
  by (simp add: canonical_canon word_eq_kvalue)

lemma kvalue_repr_residue: "take_bit (kwidth k) (kvalue k (repr k r)) = take_bit (kwidth k) r"
  by simp

lemma canon_word_value: "canon_word ty (word_of_int r) = word_of_int (kvalue (kind_of ty) (repr (kind_of ty) r))"
proof -
  have "kvalue (kind_of ty) (repr (kind_of ty) r) = kvalue (kind_of ty) (word_of_int r)"
    by (auto simp: kvalue_def kas_signed_eq uint_kas_unsigned unsigned_of_int signed_take_bit_take_bit_w
        signed_take_bit_take_bit min_def not_less) (use ty_width_bounds [of ty] in simp_all)
  then show ?thesis by (simp add: word_eq_kvalue)
qed

lemma canonical_repr: "canonical (repr (kind_of ty) r) ty = canon_word ty (word_of_int r)"
  by (simp add: canonical_value canon_word_value)

lemma klo_khi_of:
  "klo (kind_of ty) = (if ty_signed ty then - (2 ^ (ty_width ty - 1)) else 0)"
  "khi (kind_of ty) = (if ty_signed ty then 2 ^ (ty_width ty - 1) - 1 else 2 ^ ty_width ty - 1)"
  by (cases ty; simp add: klo_def khi_def bounds_def)+

lemma ty_bounds: "ty_lo ty = word_of_int (klo (kind_of ty))" "ty_hi ty = word_of_int (khi (kind_of ty))"
proof -
  show "ty_lo ty = word_of_int (klo (kind_of ty))" by (simp add: klo_khi_of ty_lo_def)
  show "ty_hi ty = word_of_int (khi (kind_of ty))" by (induction ty) code_simp+
qed

lemma in_kind_range:
  assumes "in_kind (kind_of ty) r"
  shows "ty_signed ty \<Longrightarrow> - (2 ^ 63) \<le> r \<and> r < 2 ^ 63" "\<not> ty_signed ty \<Longrightarrow> 0 \<le> r \<and> r < 2 ^ 64"
    and "ty_narrow ty \<Longrightarrow> - (2 ^ 31) \<le> r \<and> r < 2 ^ 32"
proof -
  have p: "(2 :: int) ^ (ty_width ty - 1) \<le> 2 ^ 63" "(2 :: int) ^ ty_width ty \<le> 2 ^ 64"
    using ty_width_bounds [of ty] by (intro power_increasing; linarith)+
  have n: "ty_narrow ty \<Longrightarrow> (2 :: int) ^ (ty_width ty - 1) \<le> 2 ^ 31" "ty_narrow ty \<Longrightarrow> (2 :: int) ^ ty_width ty \<le> 2 ^ 32"
    by (intro power_increasing; cases ty; simp add: ty_narrow_def)+
  have r: "(if ty_signed ty then - (2 ^ (ty_width ty - 1)) else 0) \<le> r"
    "r \<le> (if ty_signed ty then 2 ^ (ty_width ty - 1) - 1 else 2 ^ ty_width ty - 1)"
    using assms by (simp_all only: in_kind_def klo_khi_of)
  show "ty_signed ty \<Longrightarrow> - (2 ^ 63) \<le> r \<and> r < 2 ^ 63" "\<not> ty_signed ty \<Longrightarrow> 0 \<le> r \<and> r < 2 ^ 64"
    using p r by auto
  show "ty_narrow ty \<Longrightarrow> - (2 ^ 31) \<le> r \<and> r < 2 ^ 32"
    using n r by (auto split: if_splits)
qed

lemma word_range:
  "- (2 ^ 63) \<le> r \<Longrightarrow> r < 2 ^ 63 \<Longrightarrow> sint (word_of_int r :: u64) = r"
  "0 \<le> r \<Longrightarrow> r < 2 ^ 64 \<Longrightarrow> uint (word_of_int r :: u64) = r"
proof -
  show "- (2 ^ 63) \<le> r \<Longrightarrow> r < 2 ^ 63 \<Longrightarrow> sint (word_of_int r :: u64) = r"
    unfolding sint_mod by (subst mod_pos_pos_trivial) auto
  show "0 \<le> r \<Longrightarrow> r < 2 ^ 64 \<Longrightarrow> uint (word_of_int r :: u64) = r"
    unfolding uint_word_of_int by (subst mod_pos_pos_trivial) auto
qed

lemma word_of_int_eq:
  assumes "(word_of_int r :: u64) = word_of_int s" "\<bar>r - s\<bar> < 2 ^ 64"
  shows "r = s"
proof -
  from assms(1) have "2 ^ 64 dvd r - s"
    by (simp add: word_of_int_eq_iff take_bit_eq_mod mod_eq_dvd_iff)
  with assms(2) show ?thesis using zdvd_not_zless [of "\<bar>r - s\<bar>" "2 ^ 64"] by auto
qed

text \<open>The range check: a narrow result is its own canonical form exactly when it is in the type.\<close>

lemma fits_iff:
  assumes "ty_narrow ty" "- (2 ^ 63) \<le> r" "r \<le> (if ty_signed ty then 2 ^ 63 - 1 else (2 ^ 32 - 1) * (2 ^ 32 - 1))"
  shows "canon_word ty (word_of_int r) = word_of_int r \<longleftrightarrow> in_kind (kind_of ty) r"
proof
  let ?k = "kind_of ty" and ?v = "kvalue (kind_of ty) (repr (kind_of ty) r)"
  assume "canon_word ty (word_of_int r) = word_of_int r"
  then have e: "(word_of_int r :: u64) = word_of_int ?v" by (simp add: canon_word_value)
  have v: "- (2 ^ 31) \<le> ?v" "?v < 2 ^ 32" "\<not> ty_signed ty \<Longrightarrow> 0 \<le> ?v"
    using in_kind_range [OF kvalue_in_kind, of ty "repr ?k r"] assms(1) by blast+
  have "\<bar>r - ?v\<bar> < 2 ^ 64" using v assms(2,3) by (auto split: if_splits)
  with e have "r = ?v" by (rule word_of_int_eq)
  then show "in_kind ?k r" using kvalue_in_kind by metis
qed (simp add: canon_word_value)

lemma reg_numbers [simp]:
  "rA \<le> 30" "rB \<le> 30" "rR \<le> 30" "rT1 \<le> 30" "rT2 \<le> 30" "rT3 \<le> 30"
  "rA \<noteq> rB" "rA \<noteq> rR" "rA \<noteq> rT1" "rA \<noteq> rT2" "rA \<noteq> rT3" "rB \<noteq> rA" "rB \<noteq> rR" "rB \<noteq> rT1" "rB \<noteq> rT2" "rB \<noteq> rT3" "rR \<noteq> rA"
  "rR \<noteq> rB" "rR \<noteq> rT1" "rR \<noteq> rT2" "rR \<noteq> rT3" "rT1 \<noteq> rA" "rT1 \<noteq> rB" "rT1 \<noteq> rR" "rT1 \<noteq> rT2" "rT1 \<noteq> rT3" "rT2 \<noteq> rA" "rT2 \<noteq> rB"
  "rT2 \<noteq> rR" "rT2 \<noteq> rT1" "rT2 \<noteq> rT3" "rT3 \<noteq> rA" "rT3 \<noteq> rB" "rT3 \<noteq> rR" "rT3 \<noteq> rT1" "rT3 \<noteq> rT2"
  by (simp_all add: rlits)

lemma kclamp_if: "kclamp (kind_of ty) r = (if r < klo (kind_of ty) then klo (kind_of ty)
    else if khi (kind_of ty) < r then khi (kind_of ty) else r)"
  by (simp add: kclamp_def klo_khi_of)

section \<open>Conditions\<close>

lemma sub_conds:
  fixes a b :: u64
  shows "cond_holds cond_EQ (add_sub_flags Sub a b) \<longleftrightarrow> a = b"
    and "cond_holds cond_NE (add_sub_flags Sub a b) \<longleftrightarrow> a \<noteq> b"
    and "cond_holds cond_CS (add_sub_flags Sub a b) \<longleftrightarrow> uint b \<le> uint a"
    and "cond_holds cond_CC (add_sub_flags Sub a b) \<longleftrightarrow> uint a < uint b"
    and "cond_holds cond_HI (add_sub_flags Sub a b) \<longleftrightarrow> uint b < uint a"
    and "cond_holds cond_LS (add_sub_flags Sub a b) \<longleftrightarrow> uint a \<le> uint b"
    and "cond_holds cond_GE (add_sub_flags Sub a b) \<longleftrightarrow> sint b \<le> sint a"
    and "cond_holds cond_LT (add_sub_flags Sub a b) \<longleftrightarrow> sint a < sint b"
    and "cond_holds cond_GT (add_sub_flags Sub a b) \<longleftrightarrow> sint b < sint a"
    and "cond_holds cond_LE (add_sub_flags Sub a b) \<longleftrightarrow> sint a \<le> sint b"
proof -
  have e: "sint a = sint b \<longleftrightarrow> a = b" "uint a = uint b \<longleftrightarrow> a = b"
    by (auto intro: signed_word_eqI) (simp add: word_uint_eq_iff)
  show "cond_holds cond_EQ (add_sub_flags Sub a b) \<longleftrightarrow> a = b"
    "cond_holds cond_NE (add_sub_flags Sub a b) \<longleftrightarrow> a \<noteq> b"
    "cond_holds cond_CS (add_sub_flags Sub a b) \<longleftrightarrow> uint b \<le> uint a"
    "cond_holds cond_CC (add_sub_flags Sub a b) \<longleftrightarrow> uint a < uint b"
    "cond_holds cond_HI (add_sub_flags Sub a b) \<longleftrightarrow> uint b < uint a"
    "cond_holds cond_LS (add_sub_flags Sub a b) \<longleftrightarrow> uint a \<le> uint b"
    "cond_holds cond_GE (add_sub_flags Sub a b) \<longleftrightarrow> sint b \<le> sint a"
    "cond_holds cond_LT (add_sub_flags Sub a b) \<longleftrightarrow> sint a < sint b"
    "cond_holds cond_GT (add_sub_flags Sub a b) \<longleftrightarrow> sint b < sint a"
    "cond_holds cond_LE (add_sub_flags Sub a b) \<longleftrightarrow> sint a \<le> sint b"
    unfolding cond_holds_simps sub_flags sint_sub_sign using e by linarith+
qed

lemma wrap_exact:
  assumes "- (2 ^ 64) \<le> r" "r < 2 ^ 64"
  shows "sint (word_of_int r :: u64) = r \<longleftrightarrow> in_signed 64 r"
proof -
  have "sint (word_of_int r :: u64) = r \<Longrightarrow> in_signed 64 r"
    using u64_ranges [of "word_of_int r"] by (simp add: in_signed_def)
  moreover have "in_signed 64 r \<Longrightarrow> sint (word_of_int r :: u64) = r"
    by (intro word_range(1)) (simp_all add: in_signed_def)
  ultimately show ?thesis by blast
qed

lemma add_conds:
  fixes a b :: u64
  shows "cond_holds cond_VS (add_sub_flags Add a b) \<longleftrightarrow> \<not> in_signed 64 (sint a + sint b)"
    and "cond_holds cond_CS (add_sub_flags Add a b) \<longleftrightarrow> 2 ^ 64 \<le> uint a + uint b"
    and "cond_holds cond_CC (add_sub_flags Add a b) \<longleftrightarrow> uint a + uint b < 2 ^ 64"
    and "cond_holds cond_VS (add_sub_flags Sub a b) \<longleftrightarrow> \<not> in_signed 64 (sint a - sint b)"
    and "cond_holds cond_VC (add_sub_flags Sub a b) \<longleftrightarrow> in_signed 64 (sint a - sint b)"
    and "cond_holds cond_NE (add_sub_flags Add a b) \<longleftrightarrow> a + b \<noteq> 0"
proof -
  note r = u64_ranges [of a] u64_ranges [of b]
  have a: "a + b = word_of_int (sint a + sint b)" "a - b = word_of_int (sint a - sint b)" by simp_all
  have "sint (a + b) = sint a + sint b \<longleftrightarrow> in_signed 64 (sint a + sint b)"
    unfolding a(1) by (rule wrap_exact) (use r in simp_all)
  then show "cond_holds cond_VS (add_sub_flags Add a b) \<longleftrightarrow> \<not> in_signed 64 (sint a + sint b)"
    by (simp add: cond_holds_simps add_sub_flags_def carry_flags_def Let_def)
  have "sint (a - b) = sint a - sint b \<longleftrightarrow> in_signed 64 (sint a - sint b)"
    unfolding a(2) by (rule wrap_exact) (use r in simp_all)
  then show "cond_holds cond_VS (add_sub_flags Sub a b) \<longleftrightarrow> \<not> in_signed 64 (sint a - sint b)"
    "cond_holds cond_VC (add_sub_flags Sub a b) \<longleftrightarrow> in_signed 64 (sint a - sint b)"
    by (simp_all add: cond_holds_simps sub_flags)
  have "uint (a + b) = (if uint a + uint b < 2 ^ 64 then uint a + uint b else uint a + uint b - 2 ^ 64)"
    by (simp add: uint_plus_if')
  then show "cond_holds cond_CS (add_sub_flags Add a b) \<longleftrightarrow> 2 ^ 64 \<le> uint a + uint b"
    "cond_holds cond_CC (add_sub_flags Add a b) \<longleftrightarrow> uint a + uint b < 2 ^ 64"
    by (auto simp: cond_holds_simps add_sub_flags_def carry_flags_def Let_def)
  show "cond_holds cond_NE (add_sub_flags Add a b) \<longleftrightarrow> a + b \<noteq> 0"
    by (simp add: cond_holds_simps add_sub_flags_def carry_flags_def Let_def)
qed

section \<open>Clamps\<close>

text \<open>What the middle part of a body leaves alone: the stack and frame pointers, memory, the code's address.\<close>

definition same :: "mach \<Rightarrow> mach \<Rightarrow> bool" where
  "same \<sigma> \<sigma>' \<longleftrightarrow> spr \<sigma>' = spr \<sigma> \<and> memory \<sigma>' = memory \<sigma> \<and> code_base \<sigma>' = code_base \<sigma> \<and> xregs \<sigma>' 29 = xregs \<sigma> 29"

lemma not_fp [simp]: "rA \<noteq> 29" "rB \<noteq> 29" "rR \<noteq> 29" "rT1 \<noteq> 29" "rT2 \<noteq> 29" "rT3 \<noteq> 29"
  by (simp_all add: rlits)

lemma same_simps [simp]: "same \<sigma> \<sigma>" "d \<noteq> 29 \<Longrightarrow> same \<sigma> (setx d v \<sigma>') \<longleftrightarrow> same \<sigma> \<sigma>'" "same \<sigma> (setf fl \<sigma>') \<longleftrightarrow> same \<sigma> \<sigma>'"
  by (simp_all add: same_def setx_def setf_def)

lemma wp_mov_then: "rd \<le> 30 \<Longrightarrow> wp f m Q (setx rd v \<sigma>) \<Longrightarrow> app m \<Longrightarrow> wp f (\<lambda>s. Option.bind (mov_imm rd v s) m) Q \<sigma>"
  by (rule wp_bind) (auto intro: wp_mov_imm)

lemma wp_clamp_signed:
  assumes "ty_signed ty"
    and Q: "\<And>\<sigma>'. xregs \<sigma>' rR = word_of_int (kclamp (kind_of ty) (sint (xregs \<sigma> rR))) \<Longrightarrow> same \<sigma> \<sigma>' \<Longrightarrow> Q (Inr \<sigma>')"
  shows "wp f (clamp_signed ty) Q \<sigma>"
proof -
  have le: "klo (kind_of ty) \<le> khi (kind_of ty)" using assms(1) by (simp add: klo_khi_of)
  then have i: "in_kind (kind_of ty) (klo (kind_of ty))" "in_kind (kind_of ty) (khi (kind_of ty))"
    by (simp_all add: in_kind_def)
  have b: "sint (ty_lo ty) = klo (kind_of ty)" "sint (ty_hi ty) = khi (kind_of ty)"
    unfolding ty_bounds using in_kind_range(1) [OF i(1) assms(1)] in_kind_range(1) [OF i(2) assms(1)]
    by (simp_all only: word_range(1))
  show ?thesis
    unfolding clamp_signed_def [abs_def]
    by ((rule wp_mov_then wp_ins does wp_i Q | simp add: rlits; fail)+)
      (use le b in \<open>auto simp: rlits sub_conds kclamp_def ty_bounds max_def min_def\<close>)
qed

lemma wp_clamp_hi:
  assumes Q: "\<And>\<sigma>'. xregs \<sigma>' rR = (if uint hi < uint (xregs \<sigma> rR) then hi else xregs \<sigma> rR) \<Longrightarrow> same \<sigma> \<sigma>' \<Longrightarrow> Q (Inr \<sigma>')"
  shows "wp f (clamp_hi_unsigned hi) Q \<sigma>"
  unfolding clamp_hi_unsigned_def [abs_def]
  by ((rule wp_mov_then wp_ins does wp_i Q | simp add: rlits; fail)+) (auto simp: rlits sub_conds)

lemma wp_clamp_zero:
  assumes Q: "\<And>\<sigma>'. xregs \<sigma>' rR = (if sint (xregs \<sigma> rR) < 0 then 0 else xregs \<sigma> rR) \<Longrightarrow> same \<sigma> \<sigma>' \<Longrightarrow> Q (Inr \<sigma>')"
  shows "wp f clamp_zero Q \<sigma>"
  unfolding clamp_zero_def [abs_def]
  by ((rule wp_ins does wp_i Q | simp add: rlits; fail)+) (auto simp: rlits sub_conds)

definition sign_limit :: "u64 \<Rightarrow> u64" where
  "sign_limit v = (if sint v < 0 then word_of_int (- (2 ^ 63)) else word_of_int (2 ^ 63 - 1))"

lemma sign_limit_eq: "signed_drop_bit 63 v XOR 0x7FFFFFFFFFFFFFFF = sign_limit v"
proof (cases "bit v 63")
  case True
  then have "signed_drop_bit 63 v = - 1" by (intro bit_word_eqI) (auto simp: bit_simps Suc_le_eq)
  moreover have "sint v < 0" using True bit_last_iff [of v] by simp
  ultimately show ?thesis by (simp add: sign_limit_def)
next
  case False
  then have "signed_drop_bit 63 v = 0" by (intro bit_word_eqI) (auto simp: bit_simps Suc_le_eq)
  moreover have "\<not> sint v < 0" using False bit_last_iff [of v] by simp
  ultimately show ?thesis by (simp add: sign_limit_def)
qed

lemma wp_sat_sign:
  "rd \<le> 30 \<Longrightarrow> rn \<le> 30 \<Longrightarrow> Q (Inr (setx rd (sign_limit (xregs \<sigma> rn)) \<sigma>)) \<Longrightarrow> wp f (sat_by_sign rd rn) Q \<sigma>"
  unfolding sat_by_sign_def [abs_def]
  by ((rule wp_ins does wp_i | simp; fail)+) (simp_all add: sign_limit_eq)

lemma wp_sat_then: "rd \<le> 30 \<Longrightarrow> rn \<le> 30 \<Longrightarrow> wp f m Q (setx rd (sign_limit (xregs \<sigma> rn)) \<sigma>) \<Longrightarrow> app m
  \<Longrightarrow> wp f (\<lambda>s. Option.bind (sat_by_sign rd rn s) m) Q \<sigma>"
  by (rule wp_bind) (auto intro: wp_sat_sign)

end
