(* ===== verification/Stencil_Arith.thy ===== *)
theory Stencil_Arith
  imports Stencil_Value
begin

text \<open>
  The arithmetic stencils compute the specification of the interpreter's operations: for every
  operation, mode and type, the weakest precondition of the middle part of the body, from the operands'
  canonical words in their registers to the canonical word of the result, or to the trap.
\<close>

definition yields :: "IntTy \<Rightarrow> (TrapKind, int) result \<Rightarrow> mach \<Rightarrow> TrapKind + mach \<Rightarrow> bool" where
  "yields ty res \<sigma> r \<longleftrightarrow>
     (case r of Inl t \<Rightarrow> res = Inl t
      | Inr \<sigma>' \<Rightarrow> same \<sigma> \<sigma>' \<and> (\<exists>v. res = Inr v \<and> xregs \<sigma>' rR = canon_word ty (word_of_int v)))"

lemma yields_simps [simp]:
  "yields ty res \<sigma> (Inl t) \<longleftrightarrow> res = Inl t"
  "yields ty (Inr v) \<sigma> (Inr \<sigma>') \<longleftrightarrow> same \<sigma> \<sigma>' \<and> xregs \<sigma>' rR = canon_word ty (word_of_int v)"
  "\<not> yields ty (Inl t) \<sigma> (Inr \<sigma>')"
  by (simp_all add: yields_def)

lemma same_trans: "same \<sigma> \<sigma>' \<Longrightarrow> same \<sigma>' \<sigma>'' \<Longrightarrow> same \<sigma> \<sigma>''"
  by (simp add: same_def)

lemma canon_in_kind: "in_kind (kind_of ty) r \<Longrightarrow> canon_word ty (word_of_int r) = word_of_int r"
  by (simp add: canon_word_value)

lemma fit_simps:
  "fit Wrap k r = Inr r" "fit Sat k r = Inr (kclamp k r)" "fit Trap k r = (if in_kind k r then Inr r else Inl Overflow)"
  by (simp_all add: fit_def)

lemma wp_traps_then:
  "(\<not> cond_holds c (nzcv \<sigma>) \<Longrightarrow> wp f m Q \<sigma>) \<Longrightarrow> (cond_holds c (nzcv \<sigma>) \<Longrightarrow> Q (Inl kind)) \<Longrightarrow> app m
    \<Longrightarrow> wp f (\<lambda>s. Option.bind (trap_if c kind s) m) Q \<sigma>"
  "n \<le> 30 \<Longrightarrow> (xregs \<sigma> n \<noteq> 0 \<Longrightarrow> wp f m Q \<sigma>) \<Longrightarrow> (xregs \<sigma> n = 0 \<Longrightarrow> Q (Inl kind)) \<Longrightarrow> app m
    \<Longrightarrow> wp f (\<lambda>s. Option.bind (trap_cbz (xr n) kind s) m) Q \<sigma>"
  "n \<le> 30 \<Longrightarrow> (xregs \<sigma> n = 0 \<Longrightarrow> wp f m Q \<sigma>) \<Longrightarrow> (xregs \<sigma> n \<noteq> 0 \<Longrightarrow> Q (Inl kind)) \<Longrightarrow> app m
    \<Longrightarrow> wp f (\<lambda>s. Option.bind (trap_cbnz (xr n) kind s) m) Q \<sigma>"
  by (rule wp_bind, rule wp_traps; simp)+

lemma app_mode [simp]: "app m1 \<Longrightarrow> app m2 \<Longrightarrow> app m3
  \<Longrightarrow> app (\<lambda>s. case mode of M_Trap \<Rightarrow> m1 s | M_Wrap \<Rightarrow> m2 s | M_Sat \<Rightarrow> m3 s)"
  by (cases mode) simp_all

section \<open>Bringing a result into the type\<close>

lemma wp_finish:
  assumes "xregs \<sigma> rR = word_of_int r" and s: "same \<sigma>0 \<sigma>"
  shows "wp f (canon rR rR ty) (yields ty (Inr r) \<sigma>0) \<sigma>"
    and "ty_narrow ty \<Longrightarrow> - (2 ^ 63) \<le> r \<Longrightarrow> r \<le> (if ty_signed ty then 2 ^ 63 - 1 else (2 ^ 32 - 1) * (2 ^ 32 - 1))
      \<Longrightarrow> wp f (fits_or_trap rR ty Overflow) (yields ty (fit Trap (kind_of ty) r) \<sigma>0) \<sigma>"
    and "ty_signed ty \<Longrightarrow> - (2 ^ 63) \<le> r \<Longrightarrow> r < 2 ^ 63
      \<Longrightarrow> wp f (clamp_signed ty) (yields ty (fit Sat (kind_of ty) r) \<sigma>0) \<sigma>"
    and "\<not> ty_signed ty \<Longrightarrow> 0 \<le> r \<Longrightarrow> r < 2 ^ 64
      \<Longrightarrow> wp f (clamp_hi_unsigned (ty_hi ty)) (yields ty (fit Sat (kind_of ty) r) \<sigma>0) \<sigma>"
    and "\<not> ty_signed ty \<Longrightarrow> - (2 ^ 63) \<le> r \<Longrightarrow> r < 2 ^ 63 \<Longrightarrow> r \<le> khi (kind_of ty)
      \<Longrightarrow> wp f clamp_zero (yields ty (fit Sat (kind_of ty) r) \<sigma>0) \<sigma>"
proof -
  let ?k = "kind_of ty"
  have r30: "rR \<le> 30" by (simp add: rlits)
  show "wp f (canon rR rR ty) (yields ty (Inr r) \<sigma>0) \<sigma>"
    by (rule wp_canon [OF r30 r30]) (simp add: assms)
  show "wp f (fits_or_trap rR ty Overflow) (yields ty (fit Trap ?k r) \<sigma>0) \<sigma>"
    if "ty_narrow ty" "- (2 ^ 63) \<le> r" "r \<le> (if ty_signed ty then 2 ^ 63 - 1 else (2 ^ 32 - 1) * (2 ^ 32 - 1))"
    using fits_iff [OF that] by (intro wp_fits r30 that) (simp add: assms fit_simps canon_in_kind)
  have c: "canon_word ty (word_of_int (kclamp ?k r)) = word_of_int (kclamp ?k r)"
    by (rule canon_in_kind) simp
  show "wp f (clamp_signed ty) (yields ty (fit Sat ?k r) \<sigma>0) \<sigma>" if "ty_signed ty" "- (2 ^ 63) \<le> r" "r < 2 ^ 63"
    using word_range(1) [OF that(2,3)]
    by (intro wp_clamp_signed that) (simp add: assms(1) c fit_simps same_trans [OF s])
  show "wp f (clamp_hi_unsigned (ty_hi ty)) (yields ty (fit Sat ?k r) \<sigma>0) \<sigma>" if u: "\<not> ty_signed ty" "0 \<le> r" "r < 2 ^ 64"
  proof (rule wp_clamp_hi)
    have h: "in_kind ?k (khi ?k)" using u(1) by (simp add: in_kind_def klo_khi_of)
    have "uint (ty_hi ty) = khi ?k" "klo ?k = 0"
      using in_kind_range(2) [OF h u(1)] u(1) by (simp_all add: ty_bounds word_range(2)) (simp add: klo_khi_of)
    then show "yields ty (fit Sat ?k r) \<sigma>0 (Inr \<sigma>')"
      if "xregs \<sigma>' rR = (if uint (ty_hi ty) < uint (xregs \<sigma> rR) then ty_hi ty else xregs \<sigma> rR)" "same \<sigma> \<sigma>'" for \<sigma>'
      using that u h same_trans [OF s] word_range(2) [OF u(2,3)]
      by (auto simp: fit_simps c assms(1)) (auto simp: kclamp_def ty_bounds in_kind_def)
  qed
  show "wp f clamp_zero (yields ty (fit Sat ?k r) \<sigma>0) \<sigma>"
    if u: "\<not> ty_signed ty" "- (2 ^ 63) \<le> r" "r < 2 ^ 63" "r \<le> khi ?k"
  proof (rule wp_clamp_zero)
    have "klo ?k = 0" "0 \<le> khi ?k" using u(1) by (simp_all add: klo_khi_of)
    then show "yields ty (fit Sat ?k r) \<sigma>0 (Inr \<sigma>')"
      if "xregs \<sigma>' rR = (if sint (xregs \<sigma> rR) < 0 then 0 else xregs \<sigma> rR)" "same \<sigma> \<sigma>'" for \<sigma>'
      using that u same_trans [OF s] word_range(1) [OF u(2,3)]
      by (auto simp: fit_simps c assms(1)) (auto simp: kclamp_def)
  qed
qed

section \<open>Addition and subtraction\<close>

fun mode_of :: "ArMode \<Rightarrow> ArithMode" where
  "mode_of M_Trap = Trap" | "mode_of M_Wrap = Wrap" | "mode_of M_Sat = Sat"

definition operands :: "IntTy \<Rightarrow> int \<Rightarrow> int \<Rightarrow> mach \<Rightarrow> bool" where
  "operands ty x y \<sigma> \<longleftrightarrow> in_kind (kind_of ty) x \<and> in_kind (kind_of ty) y
     \<and> xregs \<sigma> rA = word_of_int x \<and> xregs \<sigma> rB = word_of_int y"

lemma operands_narrow:
  assumes "operands ty x y \<sigma>" "ty_narrow ty"
  shows "- (2 ^ 31) \<le> x" "x < 2 ^ 32" "- (2 ^ 31) \<le> y" "y < 2 ^ 32"
    and "ty_signed ty \<Longrightarrow> x < 2 ^ 31 \<and> y < 2 ^ 31" "\<not> ty_signed ty \<Longrightarrow> 0 \<le> x \<and> 0 \<le> y"
proof -
  have n: "ty_narrow ty \<Longrightarrow> (2 :: int) ^ (ty_width ty - 1) \<le> 2 ^ 31"
    by (intro power_increasing; cases ty; simp add: ty_narrow_def)+
  have o: "in_kind (kind_of ty) x" "in_kind (kind_of ty) y" using assms(1) by (simp_all add: operands_def)
  show "- (2 ^ 31) \<le> x" "x < 2 ^ 32" "- (2 ^ 31) \<le> y" "y < 2 ^ 32" "\<not> ty_signed ty \<Longrightarrow> 0 \<le> x \<and> 0 \<le> y"
    using in_kind_range [OF o(1)] in_kind_range [OF o(2)] assms(2) by blast+
  show "ty_signed ty \<Longrightarrow> x < 2 ^ 31 \<and> y < 2 ^ 31"
    using o n [OF assms(2)] by (simp add: in_kind_def klo_khi_of)
qed

lemma operands_values:
  assumes "operands ty x y \<sigma>"
  shows "ty_signed ty \<Longrightarrow> sint (xregs \<sigma> rA) = x" "ty_signed ty \<Longrightarrow> sint (xregs \<sigma> rB) = y"
    and "\<not> ty_signed ty \<Longrightarrow> uint (xregs \<sigma> rA) = x" "\<not> ty_signed ty \<Longrightarrow> uint (xregs \<sigma> rB) = y"
proof -
  have o: "in_kind (kind_of ty) x" "in_kind (kind_of ty) y" "xregs \<sigma> rA = word_of_int x" "xregs \<sigma> rB = word_of_int y"
    using assms by (simp_all add: operands_def)
  show "ty_signed ty \<Longrightarrow> sint (xregs \<sigma> rA) = x" "ty_signed ty \<Longrightarrow> sint (xregs \<sigma> rB) = y"
    "\<not> ty_signed ty \<Longrightarrow> uint (xregs \<sigma> rA) = x" "\<not> ty_signed ty \<Longrightarrow> uint (xregs \<sigma> rB) = y"
    using in_kind_range [OF o(1)] in_kind_range [OF o(2)] unfolding o(3,4) by (blast intro: word_range)+
qed

lemma full_ty:
  assumes "\<not> ty_narrow ty"
  shows "canon_word ty v = v" "ty_signed ty \<Longrightarrow> klo (kind_of ty) = - (2 ^ 63) \<and> khi (kind_of ty) = 2 ^ 63 - 1"
    "\<not> ty_signed ty \<Longrightarrow> klo (kind_of ty) = 0 \<and> khi (kind_of ty) = 2 ^ 64 - 1"
proof -
  have "ty_width ty = 64" using assms ty_width_bounds [of ty] by (simp add: ty_narrow_def)
  then show "canon_word ty v = v" "ty_signed ty \<Longrightarrow> klo (kind_of ty) = - (2 ^ 63) \<and> khi (kind_of ty) = 2 ^ 63 - 1"
    "\<not> ty_signed ty \<Longrightarrow> klo (kind_of ty) = 0 \<and> khi (kind_of ty) = 2 ^ 64 - 1"
    by (simp_all add: canon_word_def full_word klo_khi_of)
qed

lemma does_add_sub_inst [does]:
  "does (add_sub_inst add) \<sigma> (setx rR (if add then xregs \<sigma> rA + xregs \<sigma> rB else xregs \<sigma> rA - xregs \<sigma> rB) \<sigma>)"
  by (simp add: add_sub_inst_def, intro conjI impI; rule does; simp add: rlits)

lemma wp_add_sub_narrow:
  assumes o: "operands ty x y \<sigma>" and n: "ty_narrow ty"
  shows "wp f (bin_add_sub add mode ty) (yields ty (fit (mode_of mode) (kind_of ty) (if add then x + y else x - y)) \<sigma>) \<sigma>"
proof -
  let ?r = "if add then x + y else x - y"
  let ?\<sigma> = "setx rR (if add then xregs \<sigma> rA + xregs \<sigma> rB else xregs \<sigma> rA - xregs \<sigma> rB) \<sigma>"
  have v: "xregs ?\<sigma> rR = word_of_int ?r" using o by (simp add: operands_def)
  note fin = wp_finish [OF v, of \<sigma>]
  note b = operands_narrow [OF o n]
  have h: "\<not> ty_signed ty \<Longrightarrow> x \<le> khi (kind_of ty)" using o by (simp add: operands_def in_kind_def)
  have "wp f (\<lambda>s. case mode of M_Wrap \<Rightarrow> canon rR rR ty s | M_Trap \<Rightarrow> fits_or_trap rR ty Overflow s
      | M_Sat \<Rightarrow> if ty_signed ty then clamp_signed ty s else if add then clamp_hi_unsigned (ty_hi ty) s else clamp_zero s)
    (yields ty (fit (mode_of mode) (kind_of ty) ?r) \<sigma>) ?\<sigma>"
  proof (cases mode)
    case M_Trap
    show ?thesis unfolding M_Trap ArMode.case mode_of.simps by (rule fin(2)) (use b n in auto)
  next
    case M_Wrap
    show ?thesis unfolding M_Wrap ArMode.case mode_of.simps fit_simps(1) by (rule fin(1)) simp
  next
    case M_Sat
    show ?thesis unfolding M_Sat ArMode.case mode_of.simps
      by (intro wp_if; rule fin(3,4,5)) (use b h in auto)
  qed
  then show ?thesis
    unfolding bin_add_sub_def [abs_def] Let_def if_P [OF n]
    by (rule wp_ins [OF does_add_sub_inst]) (cases mode; simp)
qed

lemma wp_add_sub_full:
  assumes o: "operands ty x y \<sigma>" and n: "\<not> ty_narrow ty"
  shows "wp f (bin_add_sub add mode ty) (yields ty (fit (mode_of mode) (kind_of ty) (if add then x + y else x - y)) \<sigma>) \<sigma>"
proof -
  note full = full_ty [OF n] and v = operands_values [OF o]
  have w: "xregs \<sigma> rA = word_of_int x" "xregs \<sigma> rB = word_of_int y" and
    k: "klo (kind_of ty) \<le> x" "x \<le> khi (kind_of ty)" "klo (kind_of ty) \<le> y" "y \<le> khi (kind_of ty)"
    using o by (simp_all add: operands_def in_kind_def)
  show ?thesis
    unfolding bin_add_sub_def [abs_def] Let_def if_not_P [OF n]
    by (cases mode; cases "ty_signed ty"; cases add;
        simp only: ArMode.distinct simp_thms if_True if_False mode_of.simps fit_simps;
        ((rule wp_ins wp_sat_then does wp_i wp_traps | simp; fail)+)?)
      (use k full v in \<open>auto simp: add_conds sub_conds w in_kind_def kclamp_if sign_limit_def in_signed_def\<close>)
qed

section \<open>Multiplication\<close>

lemma narrow_product:
  assumes "operands ty x y \<sigma>" "ty_narrow ty"
  shows "- (2 ^ 63) \<le> x * y" "x * y \<le> (if ty_signed ty then 2 ^ 63 - 1 else (2 ^ 32 - 1) * (2 ^ 32 - 1))"
    "\<not> ty_signed ty \<Longrightarrow> 0 \<le> x * y"
proof -
  note b = operands_narrow [OF assms]
  have s: "ty_signed ty \<Longrightarrow> \<bar>x * y\<bar> \<le> 2 ^ 31 * 2 ^ 31"
    using b(1-5) unfolding abs_mult by (intro mult_mono) auto
  have u: "\<not> ty_signed ty \<Longrightarrow> 0 \<le> x * y \<and> x * y \<le> (2 ^ 32 - 1) * (2 ^ 32 - 1)"
    using b(1-4,6) by (intro conjI mult_mono mult_nonneg_nonneg) auto
  then show "\<not> ty_signed ty \<Longrightarrow> 0 \<le> x * y" by blast
  show "- (2 ^ 63) \<le> x * y" "x * y \<le> (if ty_signed ty then 2 ^ 63 - 1 else (2 ^ 32 - 1) * (2 ^ 32 - 1))"
    using s u by (cases "ty_signed ty"; simp add: abs_le_iff)+
qed

lemma wp_mul_narrow:
  assumes o: "operands ty x y \<sigma>" and n: "ty_narrow ty"
  shows "wp f (bin_mul mode ty) (yields ty (fit (mode_of mode) (kind_of ty) (x * y)) \<sigma>) \<sigma>"
proof -
  let ?\<sigma> = "setx rR (xregs \<sigma> rA * xregs \<sigma> rB) \<sigma>"
  have v: "xregs ?\<sigma> rR = word_of_int (x * y)" using o by (simp add: operands_def)
  note fin = wp_finish [OF v, of \<sigma>]
  note b = narrow_product [OF o n]
  have u: "\<not> ty_signed ty \<Longrightarrow> x * y < 2 ^ 64" "ty_signed ty \<Longrightarrow> x * y < 2 ^ 63" using b(2) by auto
  have "wp f (\<lambda>s. case mode of M_Wrap \<Rightarrow> canon rR rR ty s | M_Trap \<Rightarrow> fits_or_trap rR ty Overflow s
      | M_Sat \<Rightarrow> if ty_signed ty then clamp_signed ty s else clamp_hi_unsigned (ty_hi ty) s)
    (yields ty (fit (mode_of mode) (kind_of ty) (x * y)) \<sigma>) ?\<sigma>"
  proof (cases mode)
    case M_Trap
    show ?thesis unfolding M_Trap ArMode.case mode_of.simps by (rule fin(2) [OF _ n b(1,2)]) simp
  next
    case M_Wrap
    show ?thesis unfolding M_Wrap ArMode.case mode_of.simps fit_simps(1) by (rule fin(1)) simp
  next
    case M_Sat
    show ?thesis unfolding M_Sat ArMode.case mode_of.simps
      by (intro wp_if; rule fin(3,4)) (use b u in auto)
  qed
  then show ?thesis
    unfolding bin_mul_def [abs_def] Let_def if_P [OF n]
    by - (rule wp_ins [OF does_data3(2)], simp, simp, simp, assumption, cases mode; simp)
qed

lemma sint_neg_iff: "sint (v :: u64) < 0 \<longleftrightarrow> bit v 63"
  using bit_last_iff [of v] by simp

lemma asr_sign: "signed_drop_bit 63 (v :: u64) = (if sint v < 0 then - 1 else 0)"
  by (rule bit_word_eqI) (auto simp: bit_simps sint_neg_iff Suc_le_eq)

lemma high_signed:
  assumes "\<bar>r\<bar> \<le> 2 ^ 126"
  shows "(word_of_int (r div 2 ^ 64) :: u64) = signed_drop_bit 63 (word_of_int r) \<longleftrightarrow> in_signed 64 r"
proof -
  define q m where "q = r div 2 ^ 64" and "m = r mod 2 ^ 64"
  have r: "r = 2 ^ 64 * q + m" "0 \<le> m" "m < 2 ^ 64" by (simp_all add: q_def m_def)
  have q: "\<bar>q\<bar> \<le> 2 ^ 63" using assms r by (auto simp: abs_le_iff)
  have s: "sint (word_of_int r :: u64) < 0 \<longleftrightarrow> 2 ^ 63 \<le> m"
  proof -
    have "sint (word_of_int r :: u64) = (m + 2 ^ 63) mod 2 ^ 64 - 2 ^ 63"
      unfolding sint_mod m_def by (simp only: mod_add_left_eq)
    moreover have "(m + 2 ^ 63) mod 2 ^ 64 = (if m < 2 ^ 63 then m + 2 ^ 63 else m - 2 ^ 63)"
    proof (cases "m < 2 ^ 63")
      case False
      have "(m + 2 ^ 63) mod 2 ^ 64 = (m + 2 ^ 63 - 2 ^ 64) mod 2 ^ 64" by (rule minus_mod_self2 [symmetric])
      also have "\<dots> = m + 2 ^ 63 - 2 ^ 64" using r False by (intro mod_pos_pos_trivial) auto
      finally show ?thesis using False by simp
    qed (use r in \<open>simp add: mod_pos_pos_trivial\<close>)
    ultimately show ?thesis using r by auto
  qed
  have e: "(word_of_int q :: u64) = word_of_int c \<longleftrightarrow> q = c" if "c = 0 \<or> c = - 1" for c
    using word_of_int_eq [of q c] q that by auto
  show ?thesis
    using e [of 0] e [of "- 1"] s r(2,3)
    unfolding asr_sign q_def [symmetric] by (auto simp: in_signed_def r(1))
qed

lemma product_range:
  assumes "operands ty x y \<sigma>"
  shows "ty_signed ty \<Longrightarrow> \<bar>x * y\<bar> \<le> 2 ^ 126" "\<not> ty_signed ty \<Longrightarrow> 0 \<le> x * y \<and> x * y div 2 ^ 64 < 2 ^ 64"
proof -
  have o: "in_kind (kind_of ty) x" "in_kind (kind_of ty) y" using assms by (simp_all add: operands_def)
  have "ty_signed ty \<Longrightarrow> \<bar>x * y\<bar> \<le> 2 ^ 63 * 2 ^ 63"
    using in_kind_range(1) [OF o(1)] in_kind_range(1) [OF o(2)] unfolding abs_mult by (intro mult_mono) auto
  then show "ty_signed ty \<Longrightarrow> \<bar>x * y\<bar> \<le> 2 ^ 126" by simp
  assume u: "\<not> ty_signed ty"
  have "0 \<le> x * y" "x * y \<le> (2 ^ 64 - 1) * (2 ^ 64 - 1)"
    using in_kind_range(2) [OF o(1) u] in_kind_range(2) [OF o(2) u] by (simp, intro mult_mono) auto
  then show "0 \<le> x * y \<and> x * y div 2 ^ 64 < 2 ^ 64"
    using zdiv_mono1 [of "x * y" "(2 ^ 64 - 1) * (2 ^ 64 - 1)" "2 ^ 64"] by simp
qed

lemma wp_mul_full:
  assumes o: "operands ty x y \<sigma>" and n: "\<not> ty_narrow ty"
  shows "wp f (bin_mul mode ty) (yields ty (fit (mode_of mode) (kind_of ty) (x * y)) \<sigma>) \<sigma>"
proof -
  note full = full_ty [OF n] and v = operands_values [OF o]
  have w: "xregs \<sigma> rA = word_of_int x" "xregs \<sigma> rB = word_of_int y" using o by (simp_all add: operands_def)
  have p: "xregs \<sigma> rA * xregs \<sigma> rB = word_of_int (x * y)" by (simp add: w)
  have s: "ty_signed ty \<Longrightarrow> (word_of_int (sint (xregs \<sigma> rA) * sint (xregs \<sigma> rB) div 2 ^ 64) :: u64)
      = signed_drop_bit 63 (xregs \<sigma> rA * xregs \<sigma> rB) \<longleftrightarrow> in_signed 64 (x * y)"
    using high_signed [OF product_range(1) [OF o]] v(1,2) p by metis
  have u: "\<not> ty_signed ty \<Longrightarrow> (word_of_int (uint (xregs \<sigma> rA) * uint (xregs \<sigma> rB) div 2 ^ 64) :: u64) = 0
      \<longleftrightarrow> x * y < 2 ^ 64" and pos: "\<not> ty_signed ty \<Longrightarrow> 0 \<le> x * y"
  proof -
    assume ns: "\<not> ty_signed ty"
    note pr = product_range(2) [OF o ns]
    then show "0 \<le> x * y" by blast
    have "0 \<le> x * y div 2 ^ 64" using pr by (simp add: pos_imp_zdiv_nonneg_iff)
    then have "(word_of_int (x * y div 2 ^ 64) :: u64) = 0 \<longleftrightarrow> x * y div 2 ^ 64 = 0"
      using word_of_int_eq [of "x * y div 2 ^ 64" 0] pr by auto
    also have "\<dots> \<longleftrightarrow> x * y < 2 ^ 64" using pr by (auto simp: zdiv_eq_0_iff)
    finally show "(word_of_int (uint (xregs \<sigma> rA) * uint (xregs \<sigma> rB) div 2 ^ 64) :: u64) = 0 \<longleftrightarrow> x * y < 2 ^ 64"
      using v(3,4) ns by simp
  qed
  have l: "ty_signed ty \<Longrightarrow> \<not> in_signed 64 (x * y) \<Longrightarrow>
      sign_limit (xregs \<sigma> rA XOR xregs \<sigma> rB) = word_of_int (kclamp (kind_of ty) (x * y))"
  proof -
    assume sg: "ty_signed ty" and ov: "\<not> in_signed 64 (x * y)"
    have "bit (xregs \<sigma> rA) 63 \<longleftrightarrow> x < 0" "bit (xregs \<sigma> rB) 63 \<longleftrightarrow> y < 0"
      using v(1,2) [OF sg] by (simp_all flip: sint_neg_iff)
    then have "sint (xregs \<sigma> rA XOR xregs \<sigma> rB) < 0 \<longleftrightarrow> (x < 0) \<noteq> (y < 0)"
      unfolding sint_neg_iff by (auto simp: bit_xor_iff)
    also have "\<dots> \<longleftrightarrow> x * y < 0"
      using ov by (auto simp: in_signed_def mult_less_0_iff not_less le_less)
    finally show ?thesis
      using ov full(2) [OF sg] by (auto simp: sign_limit_def kclamp_if in_signed_def)
  qed
  show ?thesis
    unfolding bin_mul_def [abs_def] Let_def if_not_P [OF n]
    by (cases mode; cases "ty_signed ty";
        simp only: ArMode.case simp_thms if_True if_False mode_of.simps fit_simps;
        ((rule wp_ins wp_sat_then wp_traps_then does wp_i wp_traps | simp; fail)+)?)
      (use s u pos l full p in \<open>auto simp: add_conds sub_conds kclamp_if in_kind_def in_signed_def\<close>)
qed

section \<open>Division and remainder\<close>

lemma app_min [simp]: "0 \<le> k \<Longrightarrow> k < 100 \<Longrightarrow> app (min_by_minus_one k)"
  by (simp add: min_by_minus_one_def [abs_def])


text \<open>The detector of \<^verbatim>\<open>MIN / -1\<close>, before a trap and before the saturated result.\<close>

lemma neg_overflow: "cond_holds cond_VS (add_sub_flags Sub 0 (a :: u64)) \<longleftrightarrow> sint a = - (2 ^ 63)"
  using u64_ranges [of a] by (auto simp: add_conds in_signed_def)

lemma minus_one_iff: "a + 1 \<noteq> (0 :: u64) \<longleftrightarrow> sint a \<noteq> - 1"
proof -
  have "a + 1 = 0 \<longleftrightarrow> a = - 1" by (simp add: eq_neg_iff_add_eq_0)
  also have "\<dots> \<longleftrightarrow> sint a = sint (- 1 :: u64)" by (auto intro: signed_word_eqI)
  finally show ?thesis by simp
qed

lemma wp_min_detect:
  assumes "exact n m" "app m" "n < 40" "k = 2 + int n" and app: "app m'"
    and Q: "sint (xregs \<sigma> rB) = - 1 \<Longrightarrow> wp f m (\<lambda>r. case r of Inl k \<Rightarrow> Q (Inl k) | Inr \<sigma>' \<Rightarrow> wp f m' Q \<sigma>')
        (setf (add_sub_flags Sub 0 (xregs \<sigma> rA)) \<sigma>)"
      "\<And>fl. sint (xregs \<sigma> rB) \<noteq> - 1 \<Longrightarrow> wp f m' Q (setf fl \<sigma>)"
  shows "wp f (\<lambda>s. Option.bind (min_by_minus_one k s) (\<lambda>s. Option.bind (m s) m')) Q \<sigma>"
proof -
  let ?n = "\<lambda>s. seq_i (inst_negs reg_xzr (xr rA) none) s"
  let ?\<sigma> = "setf (add_sub_flags Add (xregs \<sigma> rB) 1) \<sigma>"
  let ?Q = "\<lambda>r. case r of Inl k \<Rightarrow> Q (Inl k) | Inr \<sigma>' \<Rightarrow> wp f m' Q \<sigma>'"
  have e: "(\<lambda>s. Option.bind (min_by_minus_one k s) (\<lambda>s. Option.bind (m s) m'))
      = (\<lambda>s. Option.bind (seq_i (bindR (uimm12_new 1) (\<lambda>i. inst_cmn_imm (xr rB) i)) s)
          (\<lambda>s. Option.bind (Option.bind (b_cond_local cond_NE (1 + int (Suc n)) s) (\<lambda>s. Option.bind (?n s) m)) m'))"
    by (simp add: min_by_minus_one_def assms(4) bind_assoc fun_eq_iff)
  have ex: "exact (Suc n) (\<lambda>s. Option.bind (?n s) m)" using exact_bind [OF exact_pieces(1) assms(1)] by simp
  have "wp f (\<lambda>s. Option.bind (b_cond_local cond_NE (1 + int (Suc n)) s) (\<lambda>s. Option.bind (?n s) m)) ?Q ?\<sigma>"
  proof (rule wp_over [OF ex])
    have "wp f (\<lambda>s. Option.bind (?n s) m) ?Q ?\<sigma>" if "sint (xregs \<sigma> rB) = - 1"
      using Q(1) [OF that] assms(2) by - (rule wp_ins [OF does_add_sub(7)], simp, simp add: setf_def, simp)
    with Q(2) show "if cond_holds cond_NE (nzcv ?\<sigma>) then ?Q (Inr ?\<sigma>) else wp f (\<lambda>s. Option.bind (?n s) m) ?Q ?\<sigma>"
      by (simp add: add_conds minus_one_iff)
  qed (use assms in simp_all)
  then show ?thesis
    unfolding e using assms by - (rule wp_ins [OF does_cmp(2)], simp, simp, rule wp_bind, assumption, simp_all)
qed

lemma quotient_word:
  assumes o: "operands ty x y \<sigma>" and y: "y \<noteq> 0"
  shows "ty_signed ty \<Longrightarrow> div_shift_sem Sdiv (xregs \<sigma> rA) (xregs \<sigma> rB) = word_of_int (x sdiv y)"
    and "\<not> ty_signed ty \<Longrightarrow> div_shift_sem Udiv (xregs \<sigma> rA) (xregs \<sigma> rB) = word_of_int (x sdiv y)"
proof -
  note v = operands_values [OF o]
  have z: "ty_signed ty \<Longrightarrow> xregs \<sigma> rB \<noteq> 0" "\<not> ty_signed ty \<Longrightarrow> xregs \<sigma> rB \<noteq> 0" using v(2,4) y by auto
  show "ty_signed ty \<Longrightarrow> div_shift_sem Sdiv (xregs \<sigma> rA) (xregs \<sigma> rB) = word_of_int (x sdiv y)"
    using z(1) v(1,2) by simp
  assume u: "\<not> ty_signed ty"
  have "in_kind (kind_of ty) x" "in_kind (kind_of ty) y" using o by (simp_all add: operands_def)
  then have "0 \<le> x" "0 < y" using in_kind_range(2) [OF _ u] y by force+
  then have "x sdiv y = x div y" by (simp add: unsigned_sdiv)
  moreover have "xregs \<sigma> rA div xregs \<sigma> rB = word_of_int (uint (xregs \<sigma> rA) div uint (xregs \<sigma> rB))"
    by (simp add: word_div_def)
  ultimately show "div_shift_sem Udiv (xregs \<sigma> rA) (xregs \<sigma> rB) = word_of_int (x sdiv y)"
    using z(2) [OF u] v(3,4) [OF u] by simp
qed

lemma rem_word: "word_of_int x - word_of_int (x sdiv y) * word_of_int y = (word_of_int (x smod y) :: u64)"
proof -
  have "x smod y = x - x sdiv y * y" using sdiv_mult_smod_eq [of x y] by simp
  then show ?thesis by simp
qed

lemma movn_max: "mov_imm rR 0x7FFFFFFFFFFFFFFF = seq_i (inst_movn (xr rR) (NOT 0x7FFF) 48)"
proof -
  have h: "halves_of 0x7FFFFFFFFFFFFFFF = [0xFFFF, 0xFFFF, 0xFFFF, 0x7FFF]" by code_simp
  have "movk_loop (enumerate 0 [0xFFFF, 0xFFFF, 0xFFFF, 0x7FFF]) rR (Suc (Suc (Suc 0))) 0xFFFF = Some"
    by (rule ext) simp
  then show ?thesis unfolding mov_imm_def [abs_def] h by (intro ext) (simp add: unwrap_or_def)
qed

definition div_spec :: "bool \<Rightarrow> ArithMode \<Rightarrow> IntKind \<Rightarrow> int \<Rightarrow> int \<Rightarrow> (TrapKind, int) result" where
  "div_spec dv mode k x y =
     (if y = 0 then Inl DivZero
      else if dv then fit mode k (x sdiv y)
      else if mode = Trap \<and> \<not> in_kind k (x sdiv y) then Inl Overflow else Inr (x smod y))"

lemma rem_canon:
  assumes "operands ty x y \<sigma>" "y \<noteq> 0"
  shows "canon_word ty (word_of_int (x smod y)) = word_of_int (x smod y)"
  using assms by (intro canon_in_kind smod_in_kind) (simp_all add: operands_def)

lemma wp_rem_msub:
  assumes "operands ty x y \<sigma>0" "y \<noteq> 0" "same \<sigma>0 \<sigma>" "xregs \<sigma> rA = word_of_int x" "xregs \<sigma> rB = word_of_int y"
    "xregs \<sigma> rT1 = word_of_int (x sdiv y)"
  shows "wp f rem_msub (yields ty (Inr (x smod y)) \<sigma>0) \<sigma>"
  unfolding rem_msub_def [abs_def]
  by (rule wp_i [OF does_data3(1)])
    (simp_all add: assms(3-6) rem_canon [OF assms(1,2)] rem_word del: of_int_diff of_int_mult)

lemma wp_div_unsigned:
  assumes o: "operands ty x y \<sigma>" and u: "\<not> ty_signed ty"
  shows "wp f (bin_div_rem dv mode ty) (yields ty (div_spec dv (mode_of mode) (kind_of ty) x y) \<sigma>) \<sigma>"
proof -
  have w: "xregs \<sigma> rA = word_of_int x" "xregs \<sigma> rB = word_of_int y" and k: "in_kind (kind_of ty) x" "in_kind (kind_of ty) y"
    using o by (simp_all add: operands_def)
  have z: "xregs \<sigma> rB = 0 \<longleftrightarrow> y = 0" using operands_values(4) [OF o u] uint_0_iff [of "xregs \<sigma> rB"] by auto
  have q: "in_kind (kind_of ty) (x sdiv y)" if "y \<noteq> 0"
    using unsigned_sdiv_in_kind k u that by (simp add: kind_of_simps)
  note qw = quotient_word(2) [OF o _ u]
  have dv: "wp f (\<lambda>s. if dv then seq_i (inst_udiv (xr rR) (xr rA) (xr rB)) s
        else Option.bind (seq_i (inst_udiv (xr rT1) (xr rA) (xr rB)) s) rem_msub)
      (yields ty (div_spec dv (mode_of mode) (kind_of ty) x y) \<sigma>) \<sigma>" if y: "y \<noteq> 0"
  proof (rule wp_if)
    show "wp f (seq_i (inst_udiv (xr rR) (xr rA) (xr rB))) (yields ty (div_spec dv (mode_of mode) (kind_of ty) x y) \<sigma>) \<sigma>" if dv
      using that y q [OF y] qw [OF y]
      by - (rule wp_i [OF does_data2(1)], simp_all add: div_spec_def fit_def canon_in_kind split: ArithMode.split del: div_shift_sem.simps)
    show "wp f (\<lambda>s. Option.bind (seq_i (inst_udiv (xr rT1) (xr rA) (xr rB)) s) rem_msub)
        (yields ty (div_spec dv (mode_of mode) (kind_of ty) x y) \<sigma>) \<sigma>" if "\<not> dv"
      using that y q [OF y] qw [OF y] w
      by - (rule wp_ins [OF does_data2(1)], simp_all add: div_spec_def wp_rem_msub [OF o y] del: div_shift_sem.simps)
  qed
  show ?thesis
    unfolding bin_div_rem_def [abs_def]
    by (rule wp_traps_then) (use z u dv in \<open>simp_all add: div_spec_def\<close>)
qed

lemma quotient_bounds:
  assumes "operands ty x y \<sigma>" "ty_signed ty" "ty_narrow ty"
  shows "- (2 ^ 63) \<le> x sdiv y" "x sdiv y \<le> 2 ^ 63 - 1"
proof -
  have "- \<bar>x\<bar> \<le> x sdiv y" "x sdiv y \<le> \<bar>x\<bar>" using sdiv_int_range [of x y] by auto
  moreover have "\<bar>x\<bar> \<le> 2 ^ 31" using operands_narrow [OF assms(1,3)] assms(2) by auto
  ultimately show "- (2 ^ 63) \<le> x sdiv y" "x sdiv y \<le> 2 ^ 63 - 1" by auto
qed

lemma wp_div_narrow:
  assumes o: "operands ty x y \<sigma>" and u: "ty_signed ty" and n: "ty_narrow ty"
  shows "wp f (bin_div_rem dv mode ty) (yields ty (div_spec dv (mode_of mode) (kind_of ty) x y) \<sigma>) \<sigma>"
proof -
  let ?spec = "div_spec dv (mode_of mode) (kind_of ty) x y"
  have w: "xregs \<sigma> rA = word_of_int x" "xregs \<sigma> rB = word_of_int y" using o by (simp_all add: operands_def)
  have z: "xregs \<sigma> rB = 0 \<longleftrightarrow> y = 0" using operands_values(2) [OF o u] by (metis sint_0 signed_word_eqI)
  note qb = quotient_bounds [OF o u n]
  have d: "wp f (\<lambda>s. Option.bind (seq_i (inst_sdiv (xr rR) (xr rA) (xr rB)) s)
        (\<lambda>s. case mode of M_Trap \<Rightarrow> fits_or_trap rR ty Overflow s | M_Wrap \<Rightarrow> canon rR rR ty s | M_Sat \<Rightarrow> clamp_signed ty s))
      (yields ty ?spec \<sigma>) \<sigma>" if y: "y \<noteq> 0" and dv: "dv"
  proof -
    let ?\<sigma> = "setx rR (div_shift_sem Sdiv (xregs \<sigma> rA) (xregs \<sigma> rB)) \<sigma>"
    have v: "xregs ?\<sigma> rR = word_of_int (x sdiv y)" by (simp add: quotient_word(1) [OF o y u] del: div_shift_sem.simps)
    note fin = wp_finish [OF v, of \<sigma>]
    have s: "?spec = fit (mode_of mode) (kind_of ty) (x sdiv y)" using y dv by (simp add: div_spec_def)
    have "wp f (\<lambda>s. case mode of M_Trap \<Rightarrow> fits_or_trap rR ty Overflow s | M_Wrap \<Rightarrow> canon rR rR ty s | M_Sat \<Rightarrow> clamp_signed ty s)
        (yields ty ?spec \<sigma>) ?\<sigma>"
      unfolding s
    proof (cases mode)
      case M_Trap
      show "wp f (\<lambda>s. case mode of M_Trap \<Rightarrow> fits_or_trap rR ty Overflow s | M_Wrap \<Rightarrow> canon rR rR ty s | M_Sat \<Rightarrow> clamp_signed ty s)
          (yields ty (fit (mode_of mode) (kind_of ty) (x sdiv y)) \<sigma>) ?\<sigma>"
        unfolding M_Trap ArMode.case mode_of.simps by (rule fin(2)) (use n qb u in auto)
    next
      case M_Wrap
      show "wp f (\<lambda>s. case mode of M_Trap \<Rightarrow> fits_or_trap rR ty Overflow s | M_Wrap \<Rightarrow> canon rR rR ty s | M_Sat \<Rightarrow> clamp_signed ty s)
          (yields ty (fit (mode_of mode) (kind_of ty) (x sdiv y)) \<sigma>) ?\<sigma>"
        unfolding M_Wrap ArMode.case mode_of.simps fit_simps(1) by (rule fin(1)) simp
    next
      case M_Sat
      show "wp f (\<lambda>s. case mode of M_Trap \<Rightarrow> fits_or_trap rR ty Overflow s | M_Wrap \<Rightarrow> canon rR rR ty s | M_Sat \<Rightarrow> clamp_signed ty s)
          (yields ty (fit (mode_of mode) (kind_of ty) (x sdiv y)) \<sigma>) ?\<sigma>"
        unfolding M_Sat ArMode.case mode_of.simps by (rule fin(3)) (use qb u in auto)
    qed
    then show ?thesis
      by - (rule wp_ins [OF does_data2(2)], simp, simp, simp, assumption, cases mode; simp)
  qed
  have r: "wp f (\<lambda>s. Option.bind (seq_i (inst_sdiv (xr rT1) (xr rA) (xr rB)) s)
        (\<lambda>s. Option.bind (if mode = M_Trap then fits_or_trap rT1 ty Overflow s else Some s) rem_msub))
      (yields ty ?spec \<sigma>) \<sigma>" if y: "y \<noteq> 0" and dv: "\<not> dv"
  proof -
    let ?\<sigma> = "setx rT1 (word_of_int (x sdiv y)) \<sigma>"
    have m: "wp f rem_msub (yields ty (Inr (x smod y)) \<sigma>) (setf fl ?\<sigma>)" "wp f rem_msub (yields ty (Inr (x smod y)) \<sigma>) ?\<sigma>" for fl
      by (rule wp_rem_msub [OF o y]; simp add: w)+
    have fi: "canon_word ty (word_of_int (x sdiv y)) = word_of_int (x sdiv y) \<longleftrightarrow> in_kind (kind_of ty) (x sdiv y)"
      using fits_iff [OF n qb(1)] qb(2) u by simp
    have "wp f (\<lambda>s. Option.bind (if mode = M_Trap then fits_or_trap rT1 ty Overflow s else Some s) rem_msub) (yields ty ?spec \<sigma>) ?\<sigma>"
    proof (cases "mode = M_Trap")
      case True
      have "wp f (\<lambda>s. Option.bind (fits_or_trap rT1 ty Overflow s) rem_msub) (yields ty ?spec \<sigma>) ?\<sigma>"
        using m(1) fi y dv True by - (rule wp_bind, rule wp_fits, auto simp: n div_spec_def rem_msub_def [abs_def] split: if_splits)
      then show ?thesis using True by simp
    next
      case False
      then have "mode_of mode \<noteq> Trap" by (cases mode) simp_all
      with False show ?thesis
        using m(2) y dv by (simp only: if_False bind.bind_lunit) (simp add: div_spec_def)
    qed
    then show ?thesis
      by - (rule wp_ins [OF does_data2(2)], simp, simp, simp, simp add: quotient_word(1) [OF o y u] del: div_shift_sem.simps,
          cases mode; simp)
  qed
  show ?thesis
    unfolding bin_div_rem_def [abs_def]
    by (rule wp_traps_then) (use z u n d r in \<open>auto simp: div_spec_def intro!: wp_if\<close>)
qed

lemma wp_div_end:
  assumes o: "operands ty x y \<sigma>0" and u: "ty_signed ty" "\<not> ty_narrow ty" and y: "y \<noteq> 0" and s: "same \<sigma>0 \<sigma>"
    and w: "xregs \<sigma> rA = xregs \<sigma>0 rA" "xregs \<sigma> rB = xregs \<sigma>0 rB"
  shows "wp f (\<lambda>s. if dv then seq_i (inst_sdiv (xr rR) (xr rA) (xr rB)) s
      else Option.bind (seq_i (inst_sdiv (xr rT1) (xr rA) (xr rB)) s) rem_msub)
    (yields ty (if dv then Inr (x sdiv y) else Inr (x smod y)) \<sigma>0) \<sigma>"
proof -
  have q: "div_shift_sem Sdiv (xregs \<sigma> rA) (xregs \<sigma> rB) = word_of_int (x sdiv y)"
    unfolding w by (rule quotient_word(1) [OF o y u(1)])
  have o': "xregs \<sigma> rA = word_of_int x" "xregs \<sigma> rB = word_of_int y" using o w by (simp_all add: operands_def)
  have "wp f (seq_i (inst_sdiv (xr rR) (xr rA) (xr rB))) (yields ty (Inr (x sdiv y)) \<sigma>0) \<sigma>"
    by (rule wp_i [OF does_data2(2)]) (simp_all add: q s full_ty [OF u(2)] del: div_shift_sem.simps)
  moreover have "wp f (\<lambda>s. Option.bind (seq_i (inst_sdiv (xr rT1) (xr rA) (xr rB)) s) rem_msub) (yields ty (Inr (x smod y)) \<sigma>0) \<sigma>"
    by (rule wp_ins [OF does_data2(2)]) (simp_all add: wp_rem_msub [OF o y] q [unfolded o'] s o' del: div_shift_sem.simps)
  ultimately show ?thesis by (intro wp_if) simp_all
qed

lemma min_over_minus_one:
  assumes o: "operands ty x y \<sigma>" and u: "ty_signed ty" "\<not> ty_narrow ty" and y: "y \<noteq> 0"
  shows "in_kind (kind_of ty) (x sdiv y) \<longleftrightarrow> \<not> (sint (xregs \<sigma> rA) = - (2 ^ 63) \<and> sint (xregs \<sigma> rB) = - 1)"
    and "\<not> in_kind (kind_of ty) (x sdiv y) \<Longrightarrow> kclamp (kind_of ty) (x sdiv y) = 2 ^ 63 - 1"
proof -
  have k: "in_kind (kind_of ty) x" "in_kind (kind_of ty) y" using o by (simp_all add: operands_def)
  note l = full_ty(2) [OF u(2,1)] and v = operands_values(1,2) [OF o u(1)]
  have m: "x = - (2 ^ 63) \<Longrightarrow> y = - 1 \<Longrightarrow> x sdiv y = 2 ^ 63" by simp
  show i: "in_kind (kind_of ty) (x sdiv y) \<longleftrightarrow> \<not> (sint (xregs \<sigma> rA) = - (2 ^ 63) \<and> sint (xregs \<sigma> rB) = - 1)"
    unfolding v using sdiv_in_kind [of "kind_of ty" x y] k u y l m by (auto simp: in_kind_def)
  assume "\<not> in_kind (kind_of ty) (x sdiv y)"
  with i v m l show "kclamp (kind_of ty) (x sdiv y) = 2 ^ 63 - 1" by (simp add: kclamp_if)
qed

lemma wp_div_full:
  assumes o: "operands ty x y \<sigma>" and u: "ty_signed ty" and n: "\<not> ty_narrow ty"
  shows "wp f (bin_div_rem dv mode ty) (yields ty (div_spec dv (mode_of mode) (kind_of ty) x y) \<sigma>) \<sigma>"
proof -
  let ?spec = "div_spec dv (mode_of mode) (kind_of ty) x y"
  let ?last = "\<lambda>s. if dv then seq_i (inst_sdiv (xr rR) (xr rA) (xr rB)) s
      else Option.bind (seq_i (inst_sdiv (xr rT1) (xr rA) (xr rB)) s) rem_msub"
  have z: "xregs \<sigma> rB = 0 \<longleftrightarrow> y = 0" using operands_values(2) [OF o u] by (metis sint_0 signed_word_eqI)
  note m = min_over_minus_one [OF o u n]
  have "wp f (\<lambda>s. if mode = M_Trap
       then Option.bind (min_by_minus_one 3 s) (\<lambda>s. Option.bind (trap_if cond_VS Overflow s) ?last)
       else if mode = M_Sat \<and> dv
       then Option.bind (seq_i (inst_sdiv (xr rR) (xr rA) (xr rB)) s) (\<lambda>s. Option.bind (min_by_minus_one 4 s)
              (\<lambda>s. Option.bind (b_cond_local cond_VC 2 s) (mov_imm rR 0x7FFFFFFFFFFFFFFF)))
       else ?last s) (yields ty ?spec \<sigma>) \<sigma>" if y: "y \<noteq> 0"
  proof (rule wp_if; (rule wp_if)?)
    assume t: "mode = M_Trap"
    show "wp f (\<lambda>s. Option.bind (min_by_minus_one 3 s) (\<lambda>s. Option.bind (trap_if cond_VS Overflow s) ?last)) (yields ty ?spec \<sigma>) \<sigma>"
    proof (rule wp_min_detect [OF exact_pieces(2)])
      have e: "wp f ?last (yields ty ?spec \<sigma>) (setf fl \<sigma>)" if i: "in_kind (kind_of ty) (x sdiv y)" for fl
      proof -
        have "?spec = (if dv then Inr (x sdiv y) else Inr (x smod y))" using i y t by (simp add: div_spec_def fit_simps)
        then show ?thesis by (simp only:) (rule wp_div_end [OF o u n y], auto)
      qed
      show "wp f ?last (yields ty ?spec \<sigma>) (setf fl \<sigma>)" if "sint (xregs \<sigma> rB) \<noteq> - 1" for fl
        using m(1) [OF y] that by (intro e) auto
      show "wp f (trap_if cond_VS Overflow) (\<lambda>r. case r of Inl k \<Rightarrow> yields ty ?spec \<sigma> (Inl k) | Inr \<sigma>' \<Rightarrow> wp f ?last (yields ty ?spec \<sigma>) \<sigma>')
          (setf (add_sub_flags Sub 0 (xregs \<sigma> rA)) \<sigma>)" if "sint (xregs \<sigma> rB) = - 1"
        using m(1) [OF y] that e y t by (intro wp_traps(1)) (auto simp: neg_overflow div_spec_def fit_simps)
    qed simp_all
  next
    assume t: "mode \<noteq> M_Trap" and sd: "mode = M_Sat \<and> dv"
    let ?\<sigma> = "setx rR (word_of_int (x sdiv y)) \<sigma>"
    let ?b = "\<lambda>s. Option.bind (b_cond_local cond_VC 2 s) (mov_imm rR 0x7FFFFFFFFFFFFFFF)"
    have e: "exact 2 ?b" using exact_bind [OF exact_pieces(3) exact_pieces(1), of 2] by (simp add: movn_max numeral_2_eq_2)
    have yi: "yields ty ?spec \<sigma> (Inr (setf fl ?\<sigma>))" if "in_kind (kind_of ty) (x sdiv y)" for fl
      using that y sd by (simp add: div_spec_def fit_simps full_ty [OF n])
    have "wp f ?b (yields ty ?spec \<sigma>) (setf (add_sub_flags Sub 0 (xregs \<sigma> rA)) ?\<sigma>)" if "sint (xregs \<sigma> rB) = - 1"
    proof -
      let ?s = "setf (add_sub_flags Sub 0 (xregs \<sigma> rA)) ?\<sigma>"
      have "wp f (\<lambda>s. Option.bind (b_cond_local cond_VC (1 + int 1) s) (mov_imm rR 0x7FFFFFFFFFFFFFFF)) (yields ty ?spec \<sigma>) ?s"
      proof (rule wp_over)
        show "exact 1 (mov_imm rR 0x7FFFFFFFFFFFFFFF)" unfolding movn_max by (rule exact_pieces)
        have "wp f (mov_imm rR 0x7FFFFFFFFFFFFFFF) (yields ty ?spec \<sigma>) ?s" if "sint (xregs \<sigma> rA) = - (2 ^ 63)"
          using m [OF y] that \<open>sint (xregs \<sigma> rB) = - 1\<close> y sd
          by (intro wp_mov_imm) (simp_all add: div_spec_def fit_simps full_ty [OF n])
        then show "if cond_holds cond_VC (nzcv ?s) then yields ty ?spec \<sigma> (Inr ?s)
            else wp f (mov_imm rR 0x7FFFFFFFFFFFFFFF) (yields ty ?spec \<sigma>) ?s"
          using yi m(1) [OF y] neg_overflow [of "xregs \<sigma> rA"] by (auto simp: cond_holds_simps)
      qed simp_all
      then show ?thesis by simp
    qed
    then have "wp f (\<lambda>s. Option.bind (min_by_minus_one 4 s) (\<lambda>s. Option.bind (?b s) Some)) (yields ty ?spec \<sigma>) ?\<sigma>"
      by (intro wp_min_detect [OF e]) (auto intro!: wp_skip yi simp: m(1) [OF y] elim!: wp_mono split: sum.splits)
    then show "wp f (\<lambda>s. Option.bind (seq_i (inst_sdiv (xr rR) (xr rA) (xr rB)) s) (\<lambda>s. Option.bind (min_by_minus_one 4 s) ?b)) (yields ty ?spec \<sigma>) \<sigma>"
      by - (rule wp_ins [OF does_data2(2)], simp_all add: quotient_word(1) [OF o y u] movn_max min_by_minus_one_def [abs_def] del: div_shift_sem.simps)
  next
    assume t: "mode \<noteq> M_Trap" and sd: "\<not> (mode = M_Sat \<and> dv)"
    then have "?spec = (if dv then Inr (x sdiv y) else Inr (x smod y))"
      using y by (cases mode) (auto simp: div_spec_def fit_simps)
    then show "wp f ?last (yields ty ?spec \<sigma>) \<sigma>"
      by (simp only:) (rule wp_div_end [OF o u n y], auto)
  qed
  then show ?thesis
    unfolding bin_div_rem_def [abs_def]
    by - (rule wp_traps_then, use z u n in \<open>auto simp: div_spec_def\<close>)
qed

end
