(* ===== verification/Stencil_Ops.thy ===== *)
theory Stencil_Ops
  imports Stencil_Arith
begin

text \<open>
  The middle parts of the other stencils: all binary operations together, negation, conversions and
  shifts, each computing the specification of the interpreter's operation.
\<close>

section \<open>All operations\<close>

fun op_name :: "BinOp \<Rightarrow> string" where
  "op_name B_Add = ''add''" | "op_name B_Sub = ''sub''" | "op_name B_Mul = ''mul''"
| "op_name B_Div = ''div''" | "op_name B_Rem = ''rem''"

lemma spec_ops:
  "spec_binop ''add'' m k x y n = fit m k (x + y)" "spec_binop ''sub'' m k x y n = fit m k (x - y)"
  "spec_binop ''mul'' m k x y n = fit m k (x * y)"
  "spec_binop ''div'' m k x y n = div_spec True m k x y" "spec_binop ''rem'' m k x y n = div_spec False m k x y"
  "spec_binop ''shl'' m k x y n = (if kwidth k \<le> n then Inl Shift else Inr (if m = Sat then kclamp k (x * 2 ^ n) else x * 2 ^ n))"
  "spec_binop ''shr'' m k x y n = (if kwidth k \<le> n then Inl Shift else Inr (x div 2 ^ n))"
  by (simp_all add: spec_binop_def div_spec_def)

lemma wp_bin:
  assumes "operands ty x y \<sigma>"
  shows "wp f (bin op mode ty) (yields ty (spec_binop (op_name op) (mode_of mode) (kind_of ty) x y n) \<sigma>) \<sigma>"
proof -
  have a: "wp f (bin_add_sub add mode ty) (yields ty (fit (mode_of mode) (kind_of ty) (if add then x + y else x - y)) \<sigma>) \<sigma>" for add
    using wp_add_sub_narrow [OF assms] wp_add_sub_full [OF assms] by (cases "ty_narrow ty") blast+
  have m: "wp f (bin_mul mode ty) (yields ty (fit (mode_of mode) (kind_of ty) (x * y)) \<sigma>) \<sigma>"
    using wp_mul_narrow [OF assms] wp_mul_full [OF assms] by (cases "ty_narrow ty") blast+
  have d: "wp f (bin_div_rem dv mode ty) (yields ty (div_spec dv (mode_of mode) (kind_of ty) x y) \<sigma>) \<sigma>" for dv
    using wp_div_unsigned [OF assms] wp_div_narrow [OF assms] wp_div_full [OF assms] by (cases "ty_signed ty"; cases "ty_narrow ty") blast+
  show ?thesis
    unfolding bin_def [abs_def]
    using a [of True] a [of False] m d [of True] d [of False]
    by (cases op) (simp_all add: spec_ops)
qed

section \<open>Negation\<close>

lemma wp_neg:
  assumes x: "in_kind (kind_of ty) x" "xregs \<sigma> rA = word_of_int x" and k: "ty_signed ty \<or> mode = M_Wrap"
  shows "wp f (neg mode ty) (yields ty (if ty_signed ty then fit (mode_of mode) (kind_of ty) (- x) else Inr (- x)) \<sigma>) \<sigma>"
proof (cases "ty_narrow ty")
  case True
  let ?\<sigma> = "setx rR (- xregs \<sigma> rA) \<sigma>"
  have v: "xregs ?\<sigma> rR = word_of_int (- x)" using x(2) by simp
  note fin = wp_finish [OF v, of \<sigma>]
  have b: "- (2 ^ 63) \<le> - x" "- x < 2 ^ 63" using in_kind_range(3) [OF x(1) True] by auto
  have "wp f (\<lambda>s. case mode of M_Trap \<Rightarrow> fits_or_trap rR ty Overflow s | M_Wrap \<Rightarrow> canon rR rR ty s | M_Sat \<Rightarrow> clamp_signed ty s)
      (yields ty (if ty_signed ty then fit (mode_of mode) (kind_of ty) (- x) else Inr (- x)) \<sigma>) ?\<sigma>"
    using k fin(1) fin(2) [OF _ True b(1)] fin(3) [OF _ _ b] b(2) by (cases mode) (simp_all add: fit_simps(1))
  then show ?thesis
    unfolding neg_def [abs_def] if_P [OF True]
    by - (rule wp_ins [OF does_add_sub(5)], simp, simp, assumption, cases mode; simp)
next
  case False
  note full = full_ty [OF False]
  have s: "ty_signed ty \<Longrightarrow> sint (xregs \<sigma> rA) = x"
    using in_kind_range(1) [OF x(1)] unfolding x(2) by (blast intro: word_range)
  have r: "ty_signed ty \<Longrightarrow> in_kind (kind_of ty) (- x) \<longleftrightarrow> x \<noteq> - (2 ^ 63)"
    "ty_signed ty \<Longrightarrow> x = - (2 ^ 63) \<Longrightarrow> kclamp (kind_of ty) (- x) = 2 ^ 63 - 1"
    using x(1) full(2) by (auto simp: in_kind_def kclamp_if)
  let ?fl = "add_sub_flags Sub 0 (xregs \<sigma> rA)"
  have o: "ty_signed ty \<Longrightarrow> cond_holds cond_VS ?fl \<longleftrightarrow> \<not> in_kind (kind_of ty) (- x)"
    "ty_signed ty \<Longrightarrow> cond_holds cond_VC ?fl \<longleftrightarrow> in_kind (kind_of ty) (- x)"
    using s r(1) neg_overflow [of "xregs \<sigma> rA"] by (auto simp: cond_holds_simps)
  have v: "- xregs \<sigma> rA = word_of_int (- x)" by (simp add: x(2))
  have m: "x = - (2 ^ 63) \<Longrightarrow> NOT (word_of_int (- x) :: u64) = word_of_int (2 ^ 63 - 1)" by (simp add: not_eq_complement)
  show ?thesis
    unfolding neg_def [abs_def] if_not_P [OF False]
  proof (cases mode; simp only: ArMode.case mode_of.simps fit_simps)
    show "wp f (seq_i (inst_neg (xr rR) (xr rA) none)) (yields ty (if ty_signed ty then Inr (- x) else Inr (- x)) \<sigma>) \<sigma>"
      by (rule wp_i [OF does_add_sub(5)]) (simp_all add: full v)
  next
    assume "mode = M_Trap"
    then show "wp f (\<lambda>s. Option.bind (seq_i (inst_negs (xr rR) (xr rA) none) s) (trap_if cond_VS Overflow))
        (yields ty (if ty_signed ty then if in_kind (kind_of ty) (- x) then Inr (- x) else Inl Overflow else Inr (- x)) \<sigma>) \<sigma>"
      by - (rule wp_ins [OF does_add_sub(6)], simp, simp, rule wp_traps, use k in \<open>simp_all add: full v o\<close>)
  next
    assume "mode = M_Sat"
    then show "wp f (\<lambda>s. Option.bind (seq_i (inst_negs (xr rR) (xr rA) none) s) (seq_i (inst_csinv (xr rR) (xr rR) (xr rR) cond_VC)))
        (yields ty (if ty_signed ty then Inr (kclamp (kind_of ty) (- x)) else Inr (- x)) \<sigma>) \<sigma>"
      by - (rule wp_ins [OF does_add_sub(6)], simp, simp, rule wp_i [OF does_select(4)],
        use k r m in \<open>auto simp: full v o\<close>)
  qed
qed

section \<open>Conversions\<close>

lemma top_bit_uint: "bit (a :: u64) 63 \<longleftrightarrow> 2 ^ 63 \<le> uint a"
proof -
  have "bit a 63 \<longleftrightarrow> odd (uint a div 2 ^ 63)" using bit_uint_iff [of a 63] by (simp add: bit_iff_odd)
  moreover have "uint a div 2 ^ 63 = (if 2 ^ 63 \<le> uint a then 1 else 0)" using u64_ranges [of a] by auto
  ultimately show ?thesis by simp
qed

lemma wp_conv:
  assumes x: "in_kind (kind_of from) x" "xregs \<sigma> rA = word_of_int x"
  shows "wp f (conv C_Wrap from to) (yields to (Inr x) \<sigma>) \<sigma>"
    and "wp f (conv C_Checked from to) (yields to (if in_kind (kind_of to) x then Inr x else Inl CheckedConversion) \<sigma>) \<sigma>"
    and "wp f (conv C_Sat from to) (yields to (Inr (kclamp (kind_of to) x)) \<sigma>) \<sigma>"
proof -
  show "wp f (conv C_Wrap from to) (yields to (Inr x) \<sigma>) \<sigma>"
    unfolding conv_def [abs_def] ConvOp.case by (rule wp_canon) (simp_all add: x(2))
  let ?v = "kvalue (kind_of to) (repr (kind_of to) x)"
  have cv: "canon_word to (word_of_int x) = word_of_int ?v" by (rule canon_word_value)
  have vk: "in_kind (kind_of to) ?v" by simp
  note xr = in_kind_range(1,2) [OF x(1)] and vr = in_kind_range(1,2) [OF vk]
  have b63: "bit (xregs \<sigma> rA) 63 \<longleftrightarrow> (if ty_signed from then x < 0 else 2 ^ 63 \<le> x)"
  proof (cases "ty_signed from")
    case True
    then have "sint (xregs \<sigma> rA) = x" using xr unfolding x(2) by (blast intro: word_range)
    with True show ?thesis by (simp flip: sint_neg_iff)
  next
    case False
    then have "uint (xregs \<sigma> rA) = x" using xr unfolding x(2) by (blast intro: word_range)
    with False show ?thesis by (simp add: top_bit_uint)
  qed
  have klh: "\<not> ty_signed to \<Longrightarrow> klo (kind_of to) = 0" by (simp add: klo_khi_of)
  have kh: "\<not> ty_signed to \<Longrightarrow> 0 \<le> khi (kind_of to)" by (simp add: klo_khi_of)
  have neg_u: "x < 0 \<Longrightarrow> \<not> ty_signed to \<Longrightarrow> \<not> in_kind (kind_of to) x" by (simp add: klh in_kind_def)
  have big_s: "2 ^ 63 \<le> x \<Longrightarrow> ty_signed to \<Longrightarrow> \<not> in_kind (kind_of to) x" using in_kind_range(1) [of to x] by auto
  have eq: "canon_word to (word_of_int x) = word_of_int x \<longleftrightarrow> in_kind (kind_of to) x"
    if "\<bar>x - ?v\<bar> < 2 ^ 64"
    using word_of_int_eq [of ?v x] that vk unfolding cv by (metis abs_minus_commute kvalue_repr)
  have near: "\<bar>x - ?v\<bar> < 2 ^ 64" if "ty_signed from \<noteq> ty_signed to \<Longrightarrow> \<not> bit (xregs \<sigma> rA) 63"
    using that xr vr b63 by (cases "ty_signed from"; cases "ty_signed to") auto
  let ?ck = "yields to (if in_kind (kind_of to) x then Inr x else Inl CheckedConversion) \<sigma>"
  let ?\<sigma> = "setx rR (canon_word to (xregs \<sigma> rA)) \<sigma>"
  let ?s = "setf (add_sub_flags Sub (canon_word to (xregs \<sigma> rA)) (xregs \<sigma> rA)) ?\<sigma>"
  let ?last = "\<lambda>s. if ty_signed from \<noteq> ty_signed to then trap_tbnz (xr rA) 63 CheckedConversion s else Some s"
  have "wp f ?last ?ck ?s" if e: "canon_word to (word_of_int x) = word_of_int x"
    using eq [OF near] neg_u big_s e
    by (intro wp_if wp_traps(4) wp_skip) (auto simp: b63 [unfolded x(2)] x(2) split: if_splits)
  then have "wp f (\<lambda>s. Option.bind (trap_if cond_NE CheckedConversion s) ?last) ?ck ?s"
    by (intro wp_traps_then(1)) (auto simp: sub_conds x(2) canon_in_kind)
  then have "wp f (\<lambda>s. Option.bind (seq_i (inst_cmp_shifted (xr rR) (xr rA) none) s) (\<lambda>s. Option.bind (trap_if cond_NE CheckedConversion s) ?last)) ?ck ?\<sigma>"
    by - (rule wp_ins [OF does_add_sub(8)], simp_all)
  then show "wp f (conv C_Checked from to) ?ck \<sigma>"
    unfolding conv_def [abs_def] ConvOp.case by - (rule wp_bind, rule wp_canon, simp_all)
  let ?sat = "yields to (Inr (kclamp (kind_of to) x)) \<sigma>" and ?k = "kind_of to"
  let ?r = "setx rR (xregs \<sigma> rA) \<sigma>"
  have v: "xregs ?r rR = word_of_int x" "same \<sigma> ?r" using x(2) by simp_all
  have A: "wp f (clamp_signed to) ?sat ?r" if "ty_signed from" "ty_signed to"
    using wp_finish(3) [OF v that(2)] xr that by (simp add: fit_simps)
  have B: "wp f (clamp_hi_unsigned (ty_hi to)) ?sat ?r" if "\<not> ty_signed from" "\<not> ty_signed to"
    using wp_finish(4) [OF v that(2)] xr that by (simp add: fit_simps)
  have C: "wp f (\<lambda>s. Option.bind (clamp_zero s) (clamp_hi_unsigned (ty_hi to))) ?sat ?r" if s: "ty_signed from" "\<not> ty_signed to"
  proof (rule wp_bind, rule wp_clamp_zero; (simp only: sum.case app_pieces)?)
    fix \<sigma>' assume r: "xregs \<sigma>' rR = (if sint (xregs ?r rR) < 0 then 0 else xregs ?r rR)" "same ?r \<sigma>'"
    have "sint (xregs ?r rR) = x" using xr s unfolding v(1) by (blast intro: word_range)
    then have "xregs \<sigma>' rR = word_of_int (max 0 x)" using r(1) v(1) by (simp add: max_def)
    moreover have "fit Sat ?k (max 0 x) = Inr (kclamp ?k x)" using klh [OF s(2)] kh [OF s(2)] by (auto simp: fit_simps kclamp_if)
    ultimately show "wp f (clamp_hi_unsigned (ty_hi to)) ?sat \<sigma>'"
      using wp_finish(4) [of \<sigma>' "max 0 x", OF _ same_trans [OF v(2) r(2)] s(2)] xr(1) [OF s(1)] by simp
  qed
  have D: "wp f (clamp_hi_unsigned (ty_hi to)) ?sat ?r" if s: "\<not> ty_signed from" "ty_signed to"
  proof (rule wp_clamp_hi)
    fix \<sigma>' assume r: "xregs \<sigma>' rR = (if uint (ty_hi to) < uint (xregs ?r rR) then ty_hi to else xregs ?r rR)" "same ?r \<sigma>'"
    have h: "in_kind ?k (khi ?k)" "0 \<le> khi ?k" "klo ?k \<le> 0" using s(2) by (simp_all add: in_kind_def klo_khi_of)
    have "uint (ty_hi to) = khi ?k" using in_kind_range(1) [OF h(1) s(2)] h(2) unfolding ty_bounds by (intro word_range(2)) auto
    moreover have "uint (xregs ?r rR) = x" using xr s unfolding v(1) by (blast intro: word_range)
    ultimately have "xregs \<sigma>' rR = word_of_int (kclamp ?k x)"
      using r(1) v(1) h xr(2) [OF s(1)] by (auto simp: kclamp_if ty_bounds)
    then show "?sat (Inr \<sigma>')" using same_trans [OF v(2) r(2)] by (simp add: canon_in_kind)
  qed
  show "wp f (conv C_Sat from to) ?sat \<sigma>"
    unfolding conv_def [abs_def] ConvOp.case
    by (rule wp_ins [OF does_logic(5)]; (intro wp_if A B C D)?; simp)
qed

section \<open>Shifts\<close>

lemma uint_drop: "uint (drop_bit n (w :: u64)) = uint w div 2 ^ n"
  unfolding drop_bit_eq_div [symmetric] by (rule bit_eqI) (auto simp: bit_simps dest: bit_imp_le_length)

lemma shifted_words:
  assumes x: "in_kind (kind_of ty) x" and n: "n < 64"
  shows "push_bit n (word_of_int x :: u64) = word_of_int (x * 2 ^ n)"
    and "ty_signed ty \<Longrightarrow> signed_drop_bit n (word_of_int x :: u64) = word_of_int (x div 2 ^ n)"
    and "\<not> ty_signed ty \<Longrightarrow> drop_bit n (word_of_int x :: u64) = word_of_int (x div 2 ^ n)"
proof -
  show "push_bit n (word_of_int x :: u64) = word_of_int (x * 2 ^ n)" by (simp add: push_bit_eq_mult)
  show "signed_drop_bit n (word_of_int x :: u64) = word_of_int (x div 2 ^ n)" if "ty_signed ty"
  proof -
    have "sint (word_of_int x :: u64) = x" using in_kind_range(1) [OF x that] by (intro word_range(1)) auto
    then have "word_of_int (sint (signed_drop_bit n (word_of_int x :: u64))) = (word_of_int (x div 2 ^ n) :: u64)"
      by (simp only: sint_signed_drop_bit_eq drop_bit_eq_div)
    then show ?thesis by simp
  qed
  show "drop_bit n (word_of_int x :: u64) = word_of_int (x div 2 ^ n)" if "\<not> ty_signed ty"
  proof -
    have "uint (word_of_int x :: u64) = x" using in_kind_range(2) [OF x that] by (intro word_range(2)) auto
    then have "word_of_int (uint (drop_bit n (word_of_int x :: u64))) = (word_of_int (x div 2 ^ n) :: u64)"
      by (simp only: uint_drop)
    then show ?thesis by simp
  qed
qed

text \<open>Shifting left and back is the identity exactly when nothing was lost.\<close>

lemma shift_back:
  assumes x: "in_kind (kind_of ty) x" and n: "n < 64" and w: "\<not> ty_narrow ty"
  shows "ty_signed ty \<Longrightarrow> signed_drop_bit n (word_of_int (x * 2 ^ n) :: u64) = word_of_int x \<longleftrightarrow> in_kind (kind_of ty) (x * 2 ^ n)"
    and "\<not> ty_signed ty \<Longrightarrow> drop_bit n (word_of_int (x * 2 ^ n) :: u64) = word_of_int x \<longleftrightarrow> in_kind (kind_of ty) (x * 2 ^ n)"
proof -
  let ?w = "word_of_int (x * 2 ^ n) :: u64"
  have dvd: "(2 :: int) ^ n dvd x * 2 ^ n + m * 2 ^ 64" for m
    using n by (intro dvd_add dvd_mult le_imp_power_dvd) simp_all
  have res: "y div 2 ^ n = x \<Longrightarrow> y mod 2 ^ 64 = (x * 2 ^ n) mod 2 ^ 64 \<Longrightarrow> y = x * 2 ^ n" for y
  proof -
    assume y: "y div 2 ^ n = x" "y mod 2 ^ 64 = (x * 2 ^ n) mod 2 ^ 64"
    then obtain m where "y = x * 2 ^ n + m * 2 ^ 64"
      by (metis mod_eqE mult.commute)
    with dvd [of m] y(1) show ?thesis by auto
  qed
  show "signed_drop_bit n ?w = word_of_int x \<longleftrightarrow> in_kind (kind_of ty) (x * 2 ^ n)" if s: "ty_signed ty"
  proof
    assume "signed_drop_bit n ?w = word_of_int x"
    moreover have "sint (word_of_int x :: u64) = x" using in_kind_range(1) [OF x s] by (intro word_range(1)) auto
    ultimately have "sint ?w div 2 ^ n = x" by (metis sint_signed_drop_bit_eq drop_bit_eq_div)
    moreover have "sint ?w mod 2 ^ 64 = (x * 2 ^ n) mod 2 ^ 64"
      using uint_word_of_int [of "sint ?w", where ?'a = 64] uint_word_of_int [of "x * 2 ^ n", where ?'a = 64] by simp
    ultimately have "sint ?w = x * 2 ^ n" by (rule res)
    with u64_ranges [of ?w] full_ty [OF w] s show "in_kind (kind_of ty) (x * 2 ^ n)" by (auto simp: in_kind_def)
  next
    assume "in_kind (kind_of ty) (x * 2 ^ n)"
    from shifted_words(2) [OF this n s] show "signed_drop_bit n ?w = word_of_int x" by simp
  qed
  show "drop_bit n ?w = word_of_int x \<longleftrightarrow> in_kind (kind_of ty) (x * 2 ^ n)" if s: "\<not> ty_signed ty"
  proof
    assume "drop_bit n ?w = word_of_int x"
    moreover have "uint (word_of_int x :: u64) = x" using in_kind_range(2) [OF x s] by (intro word_range(2)) auto
    ultimately have "uint ?w div 2 ^ n = x" by (metis uint_drop)
    moreover have "uint ?w mod 2 ^ 64 = (x * 2 ^ n) mod 2 ^ 64" by (simp add: uint_word_of_int del: of_int_mult)
    ultimately have "uint ?w = x * 2 ^ n" by (rule res)
    moreover from this have "0 \<le> x * 2 ^ n" by (metis uint_ge_0)
    ultimately show "in_kind (kind_of ty) (x * 2 ^ n)"
      using u64_ranges [of ?w] full_ty [OF w] s by (auto simp: in_kind_def)
  next
    assume "in_kind (kind_of ty) (x * 2 ^ n)"
    from shifted_words(3) [OF this n s] show "drop_bit n ?w = word_of_int x" by simp
  qed
qed

lemma shr_in_kind: "in_kind k x \<Longrightarrow> in_kind k (x div 2 ^ n)"
proof -
  assume x: "in_kind k x"
  have "0 \<le> x \<Longrightarrow> 0 \<le> x div 2 ^ n \<and> x div 2 ^ n \<le> x"
    using zdiv_mono2 [of x 1 "2 ^ n"] by (simp add: pos_imp_zdiv_nonneg_iff)
  moreover have "x < 0 \<Longrightarrow> x \<le> x div 2 ^ n \<and> x div 2 ^ n < 0"
    using zdiv_mono2_neg [of x 1 "2 ^ n"] by (simp add: pos_imp_zdiv_neg_iff)
  moreover have "klo k \<le> 0" "0 \<le> khi k" by (cases k; simp add: klo_def khi_def bounds_def)+
  ultimately show "in_kind k (x div 2 ^ n)" using x unfolding in_kind_def by (cases "0 \<le> x") auto
qed

lemma wp_shift:
  assumes x: "in_kind (kind_of ty) x" "xregs \<sigma> rA = word_of_int x"
    and n: "unat (xregs \<sigma> rT1) = n" "n < ty_width ty"
  shows "wp f (shift S_Shr mode ty) (yields ty (Inr (x div 2 ^ n)) \<sigma>) \<sigma>"
    and "mode \<noteq> M_Sat \<Longrightarrow> wp f (shift S_Shl mode ty) (yields ty (Inr (x * 2 ^ n)) \<sigma>) \<sigma>"
    and "wp f (shift S_Shl M_Sat ty) (yields ty (Inr (kclamp (kind_of ty) (x * 2 ^ n))) \<sigma>) \<sigma>"
proof -
  have n64: "n < 64" using n(2) ty_width_bounds(2) [of ty] by simp
  note w = shifted_words [OF x(1) n64] and bk = shift_back [OF x(1) n64]
  have T: "unat (xregs \<sigma> rT1) mod 64 = n" using n64 n(1) by simp
  have shl: "div_shift_sem Lslv (xregs \<sigma> rA) (xregs \<sigma> rT1) = word_of_int (x * 2 ^ n)"
    using T w(1) by (simp add: x(2) del: of_int_mult)
  show "wp f (shift S_Shr mode ty) (yields ty (Inr (x div 2 ^ n)) \<sigma>) \<sigma>"
    unfolding shift_def [abs_def] Let_def
    by (simp, cases "ty_signed ty"; simp; rule wp_i, rule does_data2)
      (use T w(2,3) in \<open>simp_all add: x(2) canon_in_kind shr_in_kind [OF x(1)]\<close>)
  let ?\<sigma> = "setx rR (word_of_int (x * 2 ^ n)) \<sigma>"
  have v: "xregs ?\<sigma> rR = word_of_int (x * 2 ^ n)" "same \<sigma> ?\<sigma>" by simp_all
  note fin = wp_finish [OF v]
  show "wp f (shift S_Shl mode ty) (yields ty (Inr (x * 2 ^ n)) \<sigma>) \<sigma>" if "mode \<noteq> M_Sat"
    unfolding shift_def [abs_def] Let_def
    by (simp add: that, rule wp_ins [OF does_data2(3)]; (simp only: shl)?) (use fin(1) in simp_all)
  let ?sat = "yields ty (Inr (kclamp (kind_of ty) (x * 2 ^ n))) \<sigma>"
  let ?k = "kind_of ty" and ?r = "x * 2 ^ n"
  have narrow: "- (2 ^ 63) \<le> x * 2 ^ n \<and> x * 2 ^ n < 2 ^ 63" "0 \<le> x \<longrightarrow> 0 \<le> x * 2 ^ n" if t: "ty_narrow ty"
  proof -
    have "(2 :: int) ^ n \<le> 2 ^ 31" using n(2) t by (intro power_increasing) (cases ty; simp add: ty_narrow_def)+
    then have p: "1 \<le> (2 :: int) ^ n" "(2 :: int) ^ n \<le> 2 ^ 31" by simp_all
    have "- (2 ^ 32) * 2 ^ n \<le> x * 2 ^ n" "x * 2 ^ n \<le> (2 ^ 32 - 1) * 2 ^ n"
      using in_kind_range(3) [OF x(1) t] p(1) by (intro mult_right_mono; simp)+
    moreover have "- (2 ^ 63) \<le> y \<and> y < 2 ^ 63" if "- (2 ^ 32) * m \<le> y" "y \<le> (2 ^ 32 - 1) * m" "1 \<le> m" "m \<le> 2 ^ 31" for y m :: int
      using that by simp
    ultimately show "- (2 ^ 63) \<le> x * 2 ^ n \<and> x * 2 ^ n < 2 ^ 63" using p by blast
    show "0 \<le> x \<longrightarrow> 0 \<le> x * 2 ^ n" by simp
  qed
  let ?asr = "seq_i (inst_asrv (xr rT2) (xr rR) (xr rT1))" and ?lsr = "seq_i (inst_lsrv (xr rT2) (xr rR) (xr rT1))"
  let ?cmp = "seq_i (inst_cmp_shifted (xr rT2) (xr rA) none)"
  have A: "wp f (clamp_signed ty) ?sat ?\<sigma>" if "ty_narrow ty" "ty_signed ty"
    using fin(3) [OF that(2)] narrow [OF that(1)] by (simp add: fit_simps del: of_int_mult)
  have B: "wp f (clamp_hi_unsigned (ty_hi ty)) ?sat ?\<sigma>" if "ty_narrow ty" "\<not> ty_signed ty"
    using fin(4) [OF that(2)] narrow [OF that(1)] in_kind_range(2) [OF x(1) that(2)] by (simp add: fit_simps del: of_int_mult)
  have C: "wp f (\<lambda>s. Option.bind (?asr s) (\<lambda>s. Option.bind (?cmp s) (\<lambda>s. Option.bind (sat_by_sign rT3 rA s)
      (seq_i (inst_csel (xr rR) (xr rR) (xr rT3) cond_EQ))))) ?sat ?\<sigma>" if t: "\<not> ty_narrow ty" "ty_signed ty"
  proof -
    have A: "sint (xregs \<sigma> rA) = x" using in_kind_range(1) [OF x(1) t(2)] unfolding x(2) by (intro word_range(1)) auto
    have "word_of_int (kclamp ?k ?r) = sign_limit (xregs \<sigma> rA)" if "\<not> in_kind ?k ?r"
    proof -
      have "x < 0 \<longleftrightarrow> ?r < 0" by (simp add: mult_less_0_iff)
      with that A full_ty(2) [OF t] show ?thesis by (auto simp: sign_limit_def kclamp_if in_kind_def)
    qed
    then show ?thesis
      by - ((rule wp_ins wp_sat_then does wp_i | simp; fail)+,
        use T bk(1) [OF t] full_ty(1) [OF t(1)] in \<open>auto simp: sub_conds x(2) simp del: of_int_mult\<close>)
  qed
  have D: "wp f (\<lambda>s. Option.bind (?lsr s) (\<lambda>s. Option.bind (?cmp s) (seq_i (inst_csinv (xr rR) (xr rR) reg_xzr cond_EQ)))) ?sat ?\<sigma>"
    if t: "\<not> ty_narrow ty" "\<not> ty_signed ty"
  proof -
    have "word_of_int (kclamp ?k ?r) = (- 1 :: u64)" if "\<not> in_kind ?k ?r"
      using that in_kind_range(2) [OF x(1) t(2)] full_ty(3) [OF t] by (auto simp: kclamp_if in_kind_def)
    then show ?thesis
      by - ((rule wp_ins does wp_i | simp; fail)+,
        use T bk(2) [OF t] full_ty(1) [OF t(1)] in \<open>auto simp: sub_conds x(2) simp del: of_int_mult\<close>)
  qed
  show "wp f (shift S_Shl M_Sat ty) ?sat \<sigma>"
    unfolding shift_def [abs_def] Let_def
    by (simp, rule wp_ins [OF does_data2(3)]; (simp only: shl)?; (intro wp_if A B C D)?; simp)
qed

end
