(* ===== verification/Stencil_Body.thy ===== *)
theory Stencil_Body
  imports Stencil_Ops
begin

text \<open>
  Whole stencil bodies: the operands are loaded from their slots, the operation is computed, the result
  is stored. With the canonical words of the operands in the slots, the result slot holds the
  canonical word of what the interpreter's operation (\<^verbatim>\<open>fors-interp/src/arith.rs\<close>) returns, or the code
  leaves for the trap the interpreter reports.
\<close>

section \<open>Loads and the store\<close>

definition slot_word :: "u32 \<Rightarrow> mach \<Rightarrow> u64" where
  "slot_word off \<sigma> = load64 (memory \<sigma>) (slot_at \<sigma> off)"

text \<open>The outcome of a body: a trap, or the result's word in the destination slot and nothing else
  changed in memory; the stack and frame pointers stay.\<close>

definition stores :: "Fill \<Rightarrow> (TrapKind, u64) result \<Rightarrow> mach \<Rightarrow> TrapKind + mach \<Rightarrow> bool" where
  "stores f res \<sigma> r \<longleftrightarrow>
     (case r of Inl t \<Rightarrow> res = Inl t
      | Inr \<sigma>' \<Rightarrow> \<exists>v. res = Inr v \<and> same (\<sigma>\<lparr>memory := store64 (memory \<sigma>) (slot_at \<sigma> (slot_dst f)) v\<rparr>) \<sigma>')"

lemma stores_Inl [simp]: "stores f res \<sigma> (Inl t) \<longleftrightarrow> res = Inl t"
  by (simp add: stores_def)

lemma same_memory [simp]: "d \<noteq> 29 \<Longrightarrow> same \<tau> (setx d v \<sigma>\<lparr>memory := m\<rparr>) \<longleftrightarrow> same \<tau> (\<sigma>\<lparr>memory := m\<rparr>)"
  by (simp add: same_def setx_def)

lemma slot_at_same [simp]: "slot_at (setx d v \<sigma>) off = slot_at \<sigma> off" "slot_at (setf fl \<sigma>) off = slot_at \<sigma> off"
  by (simp_all add: slot_at_def)

lemma slot_word_same [simp]: "slot_word off (setx d v \<sigma>) = slot_word off \<sigma>" "slot_word off (setf fl \<sigma>) = slot_word off \<sigma>"
  by (simp_all add: slot_word_def)

lemma app_slots [simp]: "rt \<le> 30 \<Longrightarrow> app (ldr_slot rt SlotA)" "rt \<le> 30 \<Longrightarrow> app (ldr_slot rt SlotB)" "rt \<le> 30 \<Longrightarrow> app (str_slot rt SlotDst)"
  by (blast intro: appI app.ldr app.str)+

lemma wp_load_a: "wp f m Q (setx rA (slot_word (slot_a f) \<sigma>) \<sigma>) \<Longrightarrow> app m \<Longrightarrow> wp f (\<lambda>s. Option.bind (ldr_slot rA SlotA s) m) Q \<sigma>"
  by (rule wp_bind) (auto intro!: wp_slots simp: slot_word_def)

lemma wp_load_ab:
  assumes "wp f m Q (setx rB (slot_word (slot_b f) \<sigma>) (setx rA (slot_word (slot_a f) \<sigma>) \<sigma>))" "app m"
  shows "wp f (\<lambda>s. Option.bind (load_ab s) m) Q \<sigma>"
proof (rule wp_bind)
  let ?Q = "case_sum (\<lambda>k. Q (Inl k)) (wp f m Q)"
  have "wp f (ldr_slot rB SlotB) ?Q (setx rA (slot_word (slot_a f) \<sigma>) \<sigma>)"
    by (rule wp_slots) (use assms(1) in \<open>simp_all flip: slot_word_def\<close>)
  then show "wp f load_ab ?Q \<sigma>"
    unfolding load_ab_def [abs_def] by (intro wp_load_a) simp_all
qed (use assms(2) in simp_all)

lemma wp_store:
  assumes "wp f m (yields ty res \<sigma>') \<sigma>'" "same \<sigma> \<sigma>'" "app m"
  shows "wp f (\<lambda>s. Option.bind (m s) store_r) (stores f (map_sum id (\<lambda>v. canon_word ty (word_of_int v)) res) \<sigma>) \<sigma>'"
  using assms(1)
  by (rule wp_bind [OF wp_mono])
    (use assms(2,3) in \<open>auto simp: yields_def same_def stores_def slot_at_def store_r_def [abs_def] intro!: wp_slots split: sum.splits\<close>)

lemma wp_store_i:
  assumes "does r \<sigma>' \<sigma>''" "res = Inr (xregs \<sigma>'' rR)" "same \<sigma> \<sigma>''"
  shows "wp f (\<lambda>s. Option.bind (seq_i r s) store_r) (stores f res \<sigma>) \<sigma>'"
  using assms
  by (intro wp_ins [OF assms(1)]) (auto simp: store_r_def [abs_def] stores_def same_def slot_at_def intro!: wp_slots)

section \<open>Bodies\<close>

text \<open>The word a stencil leaves for a result slot of the interpreter.\<close>

definition canonically :: "IntTy \<Rightarrow> (TrapKind, u64) result \<Rightarrow> (TrapKind, u64) result" where
  "canonically ty res = map_sum id (\<lambda>r. canonical r ty) res"

lemma canonically_repr: "canonically ty (bindR res (\<lambda>r. Inr (repr (kind_of ty) r))) = map_sum id (\<lambda>v. canon_word ty (word_of_int v)) res"
  by (cases res) (simp_all add: canonically_def canonical_repr)

lemma canonically_simps [simp]: "canonically ty (Inl t) = Inl t" "canonically ty (Inr (repr (kind_of ty) v)) = Inr (canon_word ty (word_of_int v))"
  by (simp_all add: canonically_def canonical_repr)

definition holds_a :: "Fill \<Rightarrow> u64 \<Rightarrow> IntTy \<Rightarrow> mach \<Rightarrow> bool" where
  "holds_a f a ty \<sigma> \<longleftrightarrow> slot_word (slot_a f) \<sigma> = canonical a ty"

definition holds_b :: "Fill \<Rightarrow> u64 \<Rightarrow> IntTy \<Rightarrow> mach \<Rightarrow> bool" where
  "holds_b f b ty \<sigma> \<longleftrightarrow> slot_word (slot_b f) \<sigma> = canonical b ty"

lemmas holds_value = holds_a_def [unfolded canonical_value] holds_b_def [unfolded canonical_value]

lemma body_bin:
  assumes "holds_a f a ty \<sigma>" "holds_b f b ty \<sigma>"
  shows "wp f (body (K_Bin op mode ty)) (stores f (canonically ty (int_binop (op_name op) (mode_of mode) a b (kind_of ty))) \<sigma>) \<sigma>"
  unfolding body_def [abs_def] Key.case int_binop_spec canonically_repr
  by (intro wp_load_ab wp_store wp_bin) (use assms in \<open>simp_all add: operands_def holds_value\<close>)

lemma body_neg:
  assumes "holds_a f a ty \<sigma>" "ty_signed ty \<or> mode = M_Wrap"
  shows "wp f (body (K_Neg mode ty)) (stores f (canonically ty (int_neg (mode_of mode) a (kind_of ty))) \<sigma>) \<sigma>"
proof -
  let ?res = "if ty_signed ty then fit (mode_of mode) (kind_of ty) (- kvalue (kind_of ty) a) else Inr (- kvalue (kind_of ty) a)"
  have e: "canonically ty (int_neg (mode_of mode) a (kind_of ty)) = map_sum id (\<lambda>v. canon_word ty (word_of_int v)) ?res"
    by (simp only: int_neg_eq kind_of_simps) (simp add: canonically_repr)
  show ?thesis
    unfolding body_def [abs_def] Key.case e
    by (intro wp_load_a wp_store wp_neg) (use assms in \<open>simp_all add: holds_value\<close>)
qed

lemma body_conv:
  assumes "holds_a f a from \<sigma>"
  shows "wp f (body (K_Conv C_Checked from to)) (stores f (canonically to (conv_checked_int a (kind_of from) (kind_of to))) \<sigma>) \<sigma>"
    and "wp f (body (K_Conv C_Wrap from to)) (stores f (canonically to (Inr (conv_wrap_int a (kind_of from) (kind_of to)))) \<sigma>) \<sigma>"
    and "wp f (body (K_Conv C_Sat from to)) (stores f (canonically to (Inr (conv_sat_int a (kind_of from) (kind_of to)))) \<sigma>) \<sigma>"
proof -
  let ?x = "kvalue (kind_of from) a" and ?k = "kind_of to"
  have e: "canonically to (conv_checked_int a (kind_of from) ?k)
      = map_sum id (\<lambda>v. canon_word to (word_of_int v)) (if in_kind ?k ?x then Inr ?x else Inl CheckedConversion)"
    "canonically to (Inr (conv_wrap_int a (kind_of from) ?k)) = map_sum id (\<lambda>v. canon_word to (word_of_int v)) (Inr ?x :: (TrapKind, int) result)"
    "canonically to (Inr (conv_sat_int a (kind_of from) ?k)) = map_sum id (\<lambda>v. canon_word to (word_of_int v)) (Inr (kclamp ?k ?x) :: (TrapKind, int) result)"
    by (simp_all add: conv_checked_eq conv_wrap_eq conv_sat_eq)
  have x: "in_kind (kind_of from) ?x" "xregs (setx rA (slot_word (slot_a f) \<sigma>) \<sigma>) rA = word_of_int ?x"
    using assms by (simp_all add: holds_value)
  show "wp f (body (K_Conv C_Checked from to)) (stores f (canonically to (conv_checked_int a (kind_of from) (kind_of to))) \<sigma>) \<sigma>"
    "wp f (body (K_Conv C_Wrap from to)) (stores f (canonically to (Inr (conv_wrap_int a (kind_of from) (kind_of to)))) \<sigma>) \<sigma>"
    "wp f (body (K_Conv C_Sat from to)) (stores f (canonically to (Inr (conv_sat_int a (kind_of from) (kind_of to)))) \<sigma>) \<sigma>"
    unfolding body_def [abs_def] Key.case e
    by (intro wp_load_a wp_store wp_conv [OF x]; simp)+
qed

section \<open>Shifts\<close>

text \<open>The raw slot of a value holds the value's bits and nothing above them.\<close>

definition raw_ok :: "u64 \<Rightarrow> IntTy \<Rightarrow> bool" where
  "raw_ok a ty \<longleftrightarrow> take_bit (ty_width ty) a = a"

lemma raw_canonical: "raw_ok b ty \<Longrightarrow> raw_word (raw_ext ty) (canonical b ty) = b"
proof -
  have t: "take_bit (Suc n) (signed_take_bit n b) = take_bit (Suc n) b" for n
    by (rule bit_word_eqI) (auto simp: bit_simps min_def less_Suc_eq)
  show "raw_ok b ty \<Longrightarrow> raw_word (raw_ext ty) (canonical b ty) = b"
    using t [of 7] t [of 15] t [of 31]
    by (cases ty) (simp_all add: raw_ok_def canonical_canon canon_word_def full_word)
qed

fun shift_name :: "ShiftOp \<Rightarrow> string" where
  "shift_name S_Shl = ''shl''" | "shift_name S_Shr = ''shr''"

lemma width_le: "(word_of_nat (ty_width ty) :: u64) \<le> 0xFFF"
  by (cases ty) simp_all

lemma body_shift:
  assumes "holds_a f a ty \<sigma>" "holds_b f b cty \<sigma>" "raw_ok b cty"
  shows "wp f (body (K_Shift op mode ty (raw_ext cty)))
    (stores f (canonically ty (int_binop (shift_name op) (mode_of mode) a b (kind_of ty))) \<sigma>) \<sigma>"
proof -
  let ?x = "kvalue (kind_of ty) a" and ?k = "kind_of ty" and ?n = "unat b"
  let ?spec = "spec_binop (shift_name op) (mode_of mode) ?k ?x (kvalue ?k b) ?n"
  let ?\<sigma>1 = "setx rB (slot_word (slot_b f) \<sigma>) (setx rA (slot_word (slot_a f) \<sigma>) \<sigma>)"
  let ?\<sigma>2 = "setx rT1 b ?\<sigma>1"
  let ?w = "word_of_nat (ty_width ty) :: u64"
  let ?\<sigma>3 = "setf (add_sub_flags Sub b ?w) ?\<sigma>2"
  have b: "raw_word (raw_ext cty) (xregs ?\<sigma>1 rB) = b"
    using assms(2) raw_canonical [OF assms(3)] by (simp add: holds_b_def)
  have w: "uint ?w = int (ty_width ty)" by (cases ty) simp_all
  have x: "in_kind ?k ?x" "xregs ?\<sigma>3 rA = word_of_int ?x" "unat (xregs ?\<sigma>3 rT1) = ?n"
    using assms(1) by (simp_all add: holds_value)
  have c: "cond_holds cond_CS (add_sub_flags Sub b ?w) \<longleftrightarrow> ty_width ty \<le> ?n"
    unfolding of_nat_le_iff [symmetric, where ?'a = int] uint_nat [symmetric] by (simp add: sub_conds w)
  have trap: "ty_width ty \<le> ?n \<Longrightarrow> ?spec = Inl Shift" by (cases op) (simp_all add: spec_ops)
  have "wp f (shift op mode ty) (yields ty ?spec ?\<sigma>3) ?\<sigma>3" if "?n < ty_width ty"
    using wp_shift [OF x that] that by (cases op; cases "mode = M_Sat"; cases mode) (simp_all add: spec_ops)
  then have "wp f (\<lambda>s. Option.bind (shift op mode ty s) store_r) (stores f (map_sum id (\<lambda>v. canon_word ty (word_of_int v)) ?spec) \<sigma>) ?\<sigma>3"
    if "?n < ty_width ty"
    using that by - (rule wp_store, simp_all)
  then have "wp f (\<lambda>s. Option.bind (trap_if cond_CS Shift s) (\<lambda>s. Option.bind (shift op mode ty s) store_r))
      (stores f (map_sum id (\<lambda>v. canon_word ty (word_of_int v)) ?spec) \<sigma>) ?\<sigma>3"
    by (intro wp_traps_then) (auto simp: c trap)
  then show ?thesis
    unfolding body_def [abs_def] Key.case int_binop_spec canonically_repr
    by - (rule wp_load_ab, rule wp_bind, rule wp_raw, simp, simp, simp only: b sum.case, rule wp_ins, rule does_cmp,
      simp_all add: width_le)
qed

section \<open>Logic, comparison, constants and copies\<close>

lemma canon_word_logic:
  "canon_word ty a AND canon_word ty b = canon_word ty (a AND b)"
  "canon_word ty a OR canon_word ty b = canon_word ty (a OR b)"
  "canon_word ty a XOR canon_word ty b = canon_word ty (a XOR b)"
  "ty_signed ty \<Longrightarrow> NOT (canon_word ty a) = canon_word ty (NOT a)"
  by (rule bit_word_eqI, auto simp: canon_word_def bit_simps)+

fun logic_sem :: "LogicOp \<Rightarrow> u64 \<Rightarrow> u64 \<Rightarrow> u64" where
  "logic_sem L_And a b = a AND b" | "logic_sem L_Or a b = a OR b" | "logic_sem L_Xor a b = a XOR b"

lemma does_logic_op: "does (case op of
                 L_And \<Rightarrow> inst_and_shifted (xr rR) (xr rA) (xr rB) none
               | L_Or \<Rightarrow> inst_orr_shifted (xr rR) (xr rA) (xr rB) none
               | L_Xor \<Rightarrow> inst_eor_shifted (xr rR) (xr rA) (xr rB) none) \<sigma> (setx rR (logic_sem op (xregs \<sigma> rA) (xregs \<sigma> rB)) \<sigma>)"
  by (cases op; simp only: LogicOp.case logic_sem.simps; rule does_logic; simp)

lemma body_logic:
  "wp f (body (K_Logic op)) (stores f (Inr (logic_sem op (slot_word (slot_a f) \<sigma>) (slot_word (slot_b f) \<sigma>))) \<sigma>) \<sigma>"
  unfolding body_def [abs_def] Key.case
  by (rule wp_load_ab, rule wp_store_i, rule does_logic_op) simp_all

lemma logic_canonical: "logic_sem op (canonical a ty) (canonical b ty) = canonical (logic_sem op a b) ty"
  by (cases op) (simp_all add: canonical_canon canon_word_logic)

lemma wp_store_r: "Q (Inr (\<sigma>\<lparr>memory := store64 (memory \<sigma>) (slot_at \<sigma> (slot_dst f)) (xregs \<sigma> rR)\<rparr>)) \<Longrightarrow> wp f store_r Q \<sigma>"
  unfolding store_r_def [abs_def] by (rule wp_slots) simp_all

lemma body_not:
  assumes "holds_a f a ty \<sigma>"
  shows "wp f (body (K_Not ty)) (stores f (canonically ty (Inr (narrow (kind_of ty) (ucast (NOT a))))) \<sigma>) \<sigma>"
proof -
  have "take_bit (ty_width ty) (NOT (take_bit (ty_width ty) a)) = take_bit (ty_width ty) (NOT a)"
    by (rule bit_word_eqI) (auto simp: bit_simps)
  then have c: "(if ty_signed ty then NOT (canonical a ty) else canon_word ty (NOT (canonical a ty))) = canon_word ty (NOT a)"
    by (auto simp: canonical_canon canon_word_logic(4)) (simp add: canon_word_def)
  have "uint (ucast (NOT a) :: u128) = uint (NOT a)" by (simp add: unsigned_ucast_eq take_bit_int_eq_self order_less_trans [OF uint_u64_lt])
  then have n: "canonical (narrow (kind_of ty) (ucast (NOT a))) ty = canon_word ty (NOT a)"
    by (simp only: narrow_repr canonical_repr) simp
  show ?thesis
    unfolding body_def [abs_def] Key.case canonically_def map_sum.simps n
    by (rule wp_load_a, rule wp_ins, rule does_logic(4), simp, simp, rule wp_bind, rule wp_if, rule wp_canon, simp, simp,
        simp_all, rule wp_store_r, rule_tac [2] wp_skip)
      (use c assms in \<open>auto simp: stores_def holds_a_def intro!: wp_store_r split: if_splits\<close>)
qed

lemma body_not_bool: "wp f (body K_NotBool) (stores f (Inr (slot_word (slot_a f) \<sigma> XOR 1)) \<sigma>) \<sigma>"
  unfolding body_def [abs_def] Key.case by (rule wp_load_a, rule wp_store_i, rule does_eor_imm) simp_all

lemma body_copy: "wp f (body K_Copy) (stores f (Inr (slot_word (slot_a f) \<sigma>)) \<sigma>) \<sigma>"
  unfolding body_def [abs_def] Key.case
  by (intro wp_load_a wp_slots) (simp_all add: stores_def)

lemma does_cset:
  assumes "d \<le> 30"
  shows "does (inst_cset (xr d) (pred_cond p sg)) \<sigma> (setx d (of_bool (cond_holds (pred_cond p sg) (nzcv \<sigma>))) \<sigma>)"
proof -
  have c: "pred_cond p sg \<noteq> cond_AL" "pred_cond p sg \<noteq> cond_NV"
    by (cases p; cases sg; simp add: cond_consts cond_AL_def cond_NV_def)+
  show ?thesis
    using assms by (simp add: step_simps inst_cset_def cond_holds_inverted [OF c] c require_conditional_def)
qed

lemma pred_holds:
  assumes x: "in_kind (kind_of ty) x" and y: "in_kind (kind_of ty) y"
  shows "cond_holds (pred_cond (pred_of p) (ty_signed ty)) (add_sub_flags Sub (word_of_int x) (word_of_int y :: u64)) \<longleftrightarrow> compare p x y"
proof (cases "ty_signed ty")
  case True
  have s: "sint (word_of_int x :: u64) = x" "sint (word_of_int y :: u64) = y"
    using in_kind_range(1) [OF x True] in_kind_range(1) [OF y True] by (auto intro: word_range)
  then have "(word_of_int x :: u64) = word_of_int y \<longleftrightarrow> x = y" by metis
  with s True show ?thesis by (cases p) (simp_all add: sub_conds)
next
  case False
  have s: "uint (word_of_int x :: u64) = x" "uint (word_of_int y :: u64) = y"
    using in_kind_range(2) [OF x False] in_kind_range(2) [OF y False] by (auto intro: word_range)
  then have "(word_of_int x :: u64) = word_of_int y \<longleftrightarrow> x = y" by metis
  with s False show ?thesis by (cases p) (simp_all add: sub_conds)
qed

lemma body_icmp:
  assumes "holds_a f a ty \<sigma>" "holds_b f b ty \<sigma>"
  shows "wp f (body (K_Icmp (pred_of p) (ty_signed ty))) (stores f (Inr (of_bool (icmp a b (kind_of ty) p))) \<sigma>) \<sigma>"
  unfolding body_def [abs_def] Key.case icmp_eq
  by (rule wp_load_ab, rule wp_ins, rule does_add_sub(8), simp, simp, rule wp_store_i, rule does_cset)
    (use assms in \<open>simp_all add: holds_value pred_holds\<close>)

lemma app_imm [simp]: "app (movz_imm (xr d) i 0)" "sh \<in> {16, 32, 48} \<Longrightarrow> app (movk_imm (xr d) i sh)"
  by (simp_all only: mov_holes) (rule appI [OF appends_hole])+

lemma wp_imm:
  assumes "d \<le> 30" "at_index (f_imm f) (unat i) = Some h"
  shows "wp f m Q (setx d (put_half 0 h 0) \<sigma>) \<Longrightarrow> app m \<Longrightarrow> wp f (\<lambda>s. Option.bind (movz_imm (xr d) i 0 s) m) Q \<sigma>"
    and "k \<in> {1, 2, 3} \<Longrightarrow> wp f m Q (setx d (put_half k h (xregs \<sigma> d)) \<sigma>) \<Longrightarrow> app m
      \<Longrightarrow> wp f (\<lambda>s. Option.bind (movk_imm (xr d) i (word_of_nat (16 * k)) s) m) Q \<sigma>"
proof -
  have st: "k < 4 \<Longrightarrow> step (MovWide Movz (xr d) h (word_of_nat (16 * k))) \<sigma> = Next (setx d (put_half k h 0) \<sigma>)"
    "k < 4 \<Longrightarrow> step (MovWide Movk (xr d) h (word_of_nat (16 * k))) \<sigma> = Next (setx d (put_half k h (xregs \<sigma> d)) \<sigma>)" for k
    using mov_does(1,3) [OF assms(1), of k h \<sigma>]
    by (simp_all add: does_def inst_movz_def inst_movk_def mov_wide_half del: step.simps of_nat_mult of_nat_numeral)
  have v: "field_value \<lparr>h_word = w, h_kind = Imm16, h_field = F_Imm i\<rparr> f = Some (uint h)" for w
    using assms(2) by (simp add: field_value_def)
  let ?Q = "case_sum (\<lambda>k. Q (Inl k)) (wp f m Q)"
  show "wp f (\<lambda>s. Option.bind (movz_imm (xr d) i 0 s) m) Q \<sigma>" if "wp f m Q (setx d (put_half 0 h 0) \<sigma>)" "app m"
  proof (rule wp_bind)
    show "wp f (movz_imm (xr d) i 0) ?Q \<sigma>"
      unfolding mov_holes(1) by (rule wp_emit [where w = 0]) (use that st(1) [of 0] v in \<open>auto simp del: step.simps\<close>)
  qed (use that in \<open>simp_all add: app_imm\<close>)
  show "wp f (\<lambda>s. Option.bind (movk_imm (xr d) i (word_of_nat (16 * k)) s) m) Q \<sigma>"
    if k: "k \<in> {1, 2, 3}" and "wp f m Q (setx d (put_half k h (xregs \<sigma> d)) \<sigma>)" "app m"
  proof (rule wp_bind)
    have k4: "k < 4" and sh: "word_of_nat (16 * k) \<in> {16, 32, 48 :: u8}" using k by auto
    show "wp f (movk_imm (xr d) i (word_of_nat (16 * k))) ?Q \<sigma>"
      unfolding mov_holes(2) [OF sh] by (rule wp_emit [where w = 0]) (use that st(2) [OF k4] v in \<open>auto simp del: step.simps of_nat_mult\<close>)
    show "app (movk_imm (xr d) i (word_of_nat (16 * k)))" by (rule app_imm(2) [OF sh])
  qed (use that in simp_all)
qed

lemma body_const:
  assumes "f_imm f = halves_of v"
  shows "wp f (body K_Const) (stores f (Inr v) \<sigma>) \<sigma>"
proof -
  have h: "at_index (f_imm f) (unat (word_of_nat i :: u8)) = Some (ucast (drop_bit (16 * i) v))" if "i < 4" for i
    using that by (auto simp: assms at_index_def halves_of_def unat_of_nat take_bit_nat_eq_self)
  let ?h = "\<lambda>i. ucast (drop_bit (16 * i) v) :: u16"
  have "put_half 3 (?h 3) (put_half 2 (?h 2) (put_half 1 (?h 1) (put_half 0 (?h 0) 0))) = v"
  proof (rule bit_word_eqI)
    fix n assume n: "n < LENGTH(64)"
    then have d: "n div 16 = 0 \<or> n div 16 = 1 \<or> n div 16 = 2 \<or> n div 16 = 3" by auto
    have "bit (?h (n div 16)) (n mod 16) = bit v n" by (simp add: bit_simps)
    with d n show "bit (put_half 3 (?h 3) (put_half 2 (?h 2) (put_half 1 (?h 1) (put_half 0 (?h 0) 0)))) n = bit v n"
      by (auto simp: bit_put_half)
  qed
  note v = this [simplified]
  have h0: "at_index (f_imm f) (unat (0 :: u8)) = Some (?h 0)" using h [of 0] by simp
  have k: "wp f (\<lambda>s. Option.bind (movk_imm (xr rR) (word_of_nat i) (word_of_nat (16 * i)) s) m) Q \<sigma>"
    if "i \<in> {1, 2, 3}" "wp f m Q (setx rR (put_half i (?h i) (xregs \<sigma> rR)) \<sigma>)" "app m" for i m Q \<sigma>
    by (rule wp_imm(2) [OF _ h that]) (use that in auto)
  note k1 = k [of 1, simplified] and k2 = k [of 2, simplified] and k3 = k [of 3, simplified]
  show ?thesis
    unfolding body_def [abs_def] Key.case
    by (rule wp_imm(1), simp, rule h0, rule k1, rule k2, rule k3)
      (auto simp: stores_def slot_at_def v intro!: wp_store_r)
qed

end
