(* ===== verification/Oir_Sem.thy ===== *)
theory Oir_Sem
  imports Codegen_Code Stencil_Body
begin

text \<open>
  The specification the compiled code is held to. \<open>oir_run\<close> runs an OIR function on the raw bits of its
  values, row by row, with the interpreter's operations (the arms of \<^verbatim>\<open>exec_inst\<close> in
  \<^verbatim>\<open>fors-interp/src/exec.rs\<close> that the rows of OIR stand for): it is undefined on an ill-typed row and on
  the read of a place nothing was stored to, where the interpreter reports an error. \<open>exec_code\<close> runs
  emitted instructions, with the calls of the runtime's output routines as events.
\<close>

section \<open>Running OIR\<close>

datatype OVal = Bits u64 | Unit_Val | Text u32

datatype OEvent = Ev_Uint u64 | Ev_Line "u8 list"

record ostate =
  os_vals :: "u32 \<Rightarrow> OVal option"
  os_places :: "u32 \<Rightarrow> u64 option"
  os_out :: "OEvent list"

fun mode_sem :: "OMode \<Rightarrow> ArithMode option" where
  "mode_sem Mode_Trap = Some Trap" | "mode_sem Mode_Wrap = Some Wrap" | "mode_sem Mode_Sat = Some Sat"
| "mode_sem Mode_None = None"

definition low_kind :: "LowTy \<Rightarrow> IntKind option" where
  "low_kind ty = map_option kind_of (int_ty_of ty)"

definition type_at :: "OirFunc \<Rightarrow> u32 \<Rightarrow> LowTy option" where
  "type_at f v = at_index (v_ty (of_values f)) (unat v)"

definition bits_as :: "OirFunc \<Rightarrow> ostate \<Rightarrow> LowTy \<Rightarrow> u32 \<Rightarrow> u64 option" where
  "bits_as f s ty v = (if type_at f v = Some ty then (case os_vals s v of Some (Bits x) \<Rightarrow> Some x | _ \<Rightarrow> None) else None)"

definition oir_eval :: "OirFunc \<Rightarrow> nat \<Rightarrow> ostate \<Rightarrow> (TrapKind, OVal) result option" where
  "oir_eval f i s = (let r = of_rows f; a = r_a r ! i; b = r_b r ! i; ty = r_ty r ! i;
     arith = (\<lambda>name. do {
       m \<leftarrow> mode_sem (r_mode r ! i);
       k \<leftarrow> low_kind ty;
       x \<leftarrow> bits_as f s ty a;
       y \<leftarrow> bits_as f s ty b;
       Some (map_sum id Bits (int_binop name m x y k)) });
     shift = (\<lambda>name. do {
       m \<leftarrow> mode_sem (r_mode r ! i);
       k \<leftarrow> low_kind ty;
       x \<leftarrow> bits_as f s ty a;
       bt \<leftarrow> type_at f b;
       _ \<leftarrow> low_kind bt;
       y \<leftarrow> bits_as f s bt b;
       Some (map_sum id Bits (int_binop name m x y k)) });
     logic = (\<lambda>g. do {
       x \<leftarrow> bits_as f s ty a;
       y \<leftarrow> bits_as f s ty b;
       Some (Inr (Bits (g x y))) });
     conv = (\<lambda>g. do {
       from \<leftarrow> type_at f a;
       x \<leftarrow> bits_as f s from a;
       fk \<leftarrow> low_kind from;
       tk \<leftarrow> low_kind ty;
       Some (map_sum id Bits (g x fk tk)) })
   in case r_op r ! i of
        O_ConstInt \<Rightarrow> do {
          t \<leftarrow> int_ty_of ty;
          let x = push_bit 32 (ucast b) OR (ucast a :: u64);
          if raw_ok x t then Some (Inr (Bits x)) else None }
      | O_ConstBool \<Rightarrow> if ty = Low_Bool \<and> a \<le> 1 then Some (Inr (Bits (ucast a))) else None
      | O_ConstUnit \<Rightarrow> Some (Inr Unit_Val)
      | O_ConstStr \<Rightarrow> Some (Inr (Text a))
      | O_Add \<Rightarrow> arith ''add'' | O_Sub \<Rightarrow> arith ''sub'' | O_Mul \<Rightarrow> arith ''mul''
      | O_Div \<Rightarrow> arith ''div'' | O_Rem \<Rightarrow> arith ''rem''
      | O_Shl \<Rightarrow> shift ''shl'' | O_Shr \<Rightarrow> shift ''shr''
      | O_Neg \<Rightarrow> do {
          m \<leftarrow> mode_sem (r_mode r ! i);
          k \<leftarrow> low_kind ty;
          x \<leftarrow> bits_as f s ty a;
          Some (map_sum id Bits (int_neg m x k)) }
      | O_And \<Rightarrow> logic (AND) | O_Or \<Rightarrow> logic (OR) | O_Xor \<Rightarrow> logic (XOR)
      | O_Not \<Rightarrow> do {
          x \<leftarrow> bits_as f s ty a;
          if ty = Low_Bool then Some (Inr (Bits (of_bool (x = 0))))
          else do { k \<leftarrow> low_kind ty; Some (Inr (Bits (narrow k (ucast (NOT x))))) } }
      | O_Icmp p \<Rightarrow> do {
          at \<leftarrow> type_at f a;
          x \<leftarrow> bits_as f s at a;
          y \<leftarrow> bits_as f s at b;
          k \<leftarrow> (if at = Low_Bool then Some U8 else low_kind at);
          if ty = Low_Bool then Some (Inr (Bits (of_bool (icmp x y k p)))) else None }
      | O_ConvChecked \<Rightarrow> conv conv_checked_int
      | O_ConvWrap \<Rightarrow> conv (\<lambda>x fk tk. Inr (conv_wrap_int x fk tk))
      | O_ConvSat \<Rightarrow> conv (\<lambda>x fk tk. Inr (conv_sat_int x fk tk))
      | O_SlotLoad \<Rightarrow> do {
          sl \<leftarrow> at_index (of_slots f) (unat a);
          if sl_ty sl = ty then map_option (\<lambda>x. Inr (Bits x)) (os_places s a) else None }
      | _ \<Rightarrow> None)"

definition oir_define :: "u32 \<Rightarrow> OVal \<Rightarrow> ostate \<Rightarrow> ostate" where
  "oir_define d v s = (if d = NONE then s else s\<lparr>os_vals := (os_vals s)(d \<mapsto> v)\<rparr>)"

definition oir_step :: "OirFunc \<Rightarrow> nat \<Rightarrow> ostate \<Rightarrow> (TrapKind, ostate) result option" where
  "oir_step f i s = (let r = of_rows f; a = r_a r ! i; d = r_dst r ! i
   in case r_op r ! i of
        O_SlotStore \<Rightarrow> do {
          sl \<leftarrow> at_index (of_slots f) (unat a);
          x \<leftarrow> bits_as f s (sl_ty sl) (r_b r ! i);
          Some (Inr (s\<lparr>os_places := (os_places s)(a \<mapsto> x)\<rparr>)) }
      | O_WriteUint \<Rightarrow> do {
          at \<leftarrow> type_at f a;
          x \<leftarrow> bits_as f s at a;
          Some (Inr (oir_define d Unit_Val (s\<lparr>os_out := os_out s @ [Ev_Uint x]\<rparr>))) }
      | O_WriteLine \<Rightarrow>
          (case os_vals s a of
             Some (Text k) \<Rightarrow> do {
               bytes \<leftarrow> at_index (of_strings f) (unat k);
               Some (Inr (oir_define d Unit_Val (s\<lparr>os_out := os_out s @ [Ev_Line bytes]\<rparr>))) }
           | _ \<Rightarrow> None)
      | _ \<Rightarrow> map_option (map_sum id (\<lambda>v. oir_define d v s)) (oir_eval f i s))"

text \<open>The rows in order, up to the first trap; the site of a trap is that of its row.\<close>

fun oir_rows :: "OirFunc \<Rightarrow> nat list \<Rightarrow> ostate \<Rightarrow> (ostate \<times> (TrapKind \<times> u32) option) option" where
  "oir_rows f [] s = Some (s, None)"
| "oir_rows f (i # is) s = do {
     res \<leftarrow> oir_step f i s;
     (case res of Inl k \<Rightarrow> Some (s, Some (k, r_site (of_rows f) ! i)) | Inr s \<Rightarrow> oir_rows f is s) }"

datatype OStop = Stop_Ret | Stop_Trap TrapKind u32

definition oir_start :: ostate where
  "oir_start = \<lparr>os_vals = Map.empty, os_places = Map.empty, os_out = []\<rparr>"

definition oir_run :: "OirFunc \<Rightarrow> (OEvent list \<times> OStop) option" where
  "oir_run f = map_option (\<lambda>(s, stop).
     (os_out s, case stop of Some (k, at) \<Rightarrow> Stop_Trap k at
        | None \<Rightarrow> (case of_term f of Term_Ret \<Rightarrow> Stop_Ret | Term_Trap k \<Rightarrow> Stop_Trap k (of_term_site f))))
     (oir_rows f [0..<length (r_op (of_rows f))] oir_start)"

section \<open>Running emitted code\<close>

text \<open>The callee of a \<^verbatim>\<open>bl\<close> is the target of the relocation at its offset. A call of a runtime routine is
  an event read off the argument registers; \<open>rt\<close>, a parameter, is what the routine does to the
  machine, and the run goes on behind the call.\<close>

definition reloc_at :: "Reloc list \<Rightarrow> nat \<Rightarrow> string option" where
  "reloc_at rs off = map_of (map (\<lambda>r. (rl_offset r, rl_target r)) rs) (word_of_nat off)"

definition call_event :: "string \<Rightarrow> mach \<Rightarrow> OEvent option" where
  "call_event target \<sigma> =
     (if target = rt_symbol Rt_WriteUint then Some (Ev_Uint (xregs \<sigma> 0))
      else if target = rt_symbol Rt_WriteLine
      then Some (Ev_Line (map (\<lambda>i. memory \<sigma> (xregs \<sigma> 0 + word_of_nat i)) [0..<unat (xregs \<sigma> 1)]))
      else None)"

lemma run_called: "run pc is \<sigma> = Called p off \<tau> \<Longrightarrow> pc \<le> p \<and> p < pc + length is"
proof (induction pc "is" \<sigma> rule: run.induct)
  case (2 pc i "is" \<sigma>)
  then show ?case
    by (cases "step i \<sigma>") (fastforce split: if_splits)+
qed simp

function exec_code :: "(string \<Rightarrow> mach \<Rightarrow> mach) \<Rightarrow> Reloc list \<Rightarrow> nat \<Rightarrow> Inst list \<Rightarrow> mach \<Rightarrow> OEvent list \<times> outcome" where
  "exec_code rt rs pc is \<sigma> =
     (case run pc is \<sigma> of
        Called p off \<tau> \<Rightarrow>
          (case Option.bind (reloc_at rs (4 * p)) (\<lambda>target. map_option (Pair target) (call_event target \<tau>)) of
             None \<Rightarrow> ([], Fault)
           | Some (target, e) \<Rightarrow>
               (case exec_code rt rs (p + 1) (drop (p + 1 - pc) is) (rt target \<tau>) of (es, out) \<Rightarrow> (e # es, out)))
      | out \<Rightarrow> ([], out))"
  by pat_completeness auto
termination
  by (relation "measure (\<lambda>(rt, rs, pc, is, \<sigma>). length is)") (auto dest!: run_called)

declare exec_code.simps [simp del]

lemma exec_code_falls:
  assumes "run pc (is @ js) \<sigma> = run (pc + length is) js \<sigma>'"
  shows "exec_code rt rs pc (is @ js) \<sigma> = exec_code rt rs (pc + length is) js \<sigma>'"
proof -
  have "drop (Suc p - pc) (is @ js) = drop (Suc p - (pc + length is)) js" if "run (pc + length is) js \<sigma>' = Called p off \<tau>" for p off \<tau>
  proof -
    have "length is \<le> Suc p - pc" using run_called [OF that] by linarith
    then show ?thesis by simp
  qed
  then show ?thesis
    unfolding exec_code.simps [of rt rs pc "is @ js" \<sigma>] exec_code.simps [of rt rs "pc + length is" js \<sigma>'] assms
    by (simp split: outcome.splits option.splits)
qed

lemma exec_code_call:
  assumes "run pc (is @ js) \<sigma> = Called (pc + w) off \<tau>" "length is = Suc w" "reloc_at rs (4 * (pc + w)) = Some target"
    "call_event target \<tau> = Some e"
  shows "exec_code rt rs pc (is @ js) \<sigma> = map_prod (Cons e) id (exec_code rt rs (pc + length is) js (rt target \<tau>))"
  using assms(2-4) unfolding exec_code.simps [of rt rs pc "is @ js" \<sigma>] assms(1)
  by (simp add: map_prod_def)

end
