(* ===== verification/Stencil_Correct.thy ===== *)
theory Stencil_Correct
  imports Stencil_Body
begin

text \<open>
  From bodies to emitted code: the instructions of a built stencil, followed by other code and with its
  trap targets behind that code, run as the weakest preconditions of the body say.
\<close>

section \<open>At most four sites\<close>

definition four_sites :: "nat \<Rightarrow> (Seq \<Rightarrow> Seq option) \<Rightarrow> bool" where
  "four_sites n m \<longleftrightarrow> (\<forall>s t. m s = Some t \<longrightarrow> length (sites s) \<le> 4 \<longrightarrow> length (sites t) \<le> 4)"

lemma four_sites_hole: "four_sites n (emit_hole k fl mk)"
  by (auto simp: four_sites_def emit_hole_def hole_def seq_fixed_def split: option.splits if_splits)

lemma four_sites_bind: "four_sites n m \<Longrightarrow> four_sites k m' \<Longrightarrow> four_sites (n + k) (\<lambda>s. Option.bind (m s) m')"
  by (fastforce simp: four_sites_def split: Option.bind_splits)

lemma four_sites_site: "four_sites n (\<lambda>s. Option.bind (site kind s) (\<lambda>(i, s). emit_hole k (F_Trap i) mk s))"
  by (auto simp: four_sites_def emit_hole_def hole_def seq_fixed_def site_def Let_def
      split: option.splits if_splits Option.bind_splits)

interpretation few: builder four_sites UNIV
proof (rule builder.intro)
  show "is_ok r \<Longrightarrow> four_sites 1 (seq_i r)" for r
    by (cases r) (auto simp: four_sites_def seq_fixed_def)
  show "fl = SlotA \<or> fl = SlotB \<Longrightarrow> rt \<le> 30 \<Longrightarrow> four_sites 1 (ldr_slot rt fl)" for fl rt
    by (subst slot_holes(1)) (auto simp: four_sites_hole)
  show "rt \<le> 30 \<Longrightarrow> four_sites 1 (str_slot rt SlotDst)" for rt
    by (subst slot_holes(2)) (auto simp: four_sites_hole)
  show "sh \<in> {16, 32, 48} \<Longrightarrow> four_sites 1 (movk_imm (xr rd) i sh)" for rd i sh
    by (subst mov_holes(2)) (auto simp: four_sites_hole)
qed (simp_all only: mov_holes(1) trap_holes call_holes four_sites_hole four_sites_site four_sites_bind, simp_all add: four_sites_def)

section \<open>Running a built stencil\<close>

lemma build_shape:
  assumes "build key f = Some (ws, s)" "valid_key key"
  shows "body key (seq_new f) = Some s" "s_fill s = f" "small s" "length (insts s) \<le> 30" "encode_all (insts s) = Some ws"
proof -
  from assms(1) show b: "body key (seq_new f) = Some s" and "encode_all (insts s) = Some ws"
    by (auto simp: build_def split: Option.bind_splits)
  have "appends 30 (body key)" "four_sites 30 (body key)"
    by (rule app.body few.body, rule assms(2), simp)+
  then have "s_fill s = s_fill (seq_new f) \<and> (\<exists>c. insts s = insts (seq_new f) @ c \<and> length c \<le> 30)"
    "length (sites (seq_new f)) \<le> 4 \<longrightarrow> length (sites s) \<le> 4"
    using b unfolding appends_def four_sites_def by blast+
  then show "s_fill s = f" "small s" "length (insts s) \<le> 30"
    by (auto simp: seq_new_def small_def)
qed

lemma stencil_run:
  assumes b: "build key f = Some (ws, s)" "valid_key key" and w: "wp f (body key) Q \<sigma>"
    and r: "rest \<noteq> []" "far f (length (sites s)) (length (insts s) + length rest)"
  obtains (falls) \<sigma>' where "Q (Inr \<sigma>')" "run pc (insts s @ rest) \<sigma> = run (pc + length (insts s)) rest \<sigma>'"
  | (trap) k i \<sigma>' where "Q (Inl k)" "i < length (sites s)" "i < length (f_trap f)" "sites s ! i = k"
      "run pc (insts s @ rest) \<sigma> = Leave (4 * int pc + f_trap f ! i) \<sigma>'"
proof -
  note s = build_shape [OF b]
  from w obtain r where q: "Q r" "goes f r (seq_new f) s (insts s) \<sigma>"
    using s(1,3) unfolding wp_def by (fastforce simp: seq_new_def)
  have e: "length (insts (seq_new f)) = 0" by (simp add: seq_new_def)
  have "case r of Inr \<sigma>' \<Rightarrow> run pc (insts s @ rest) \<sigma> = run (pc + length (insts s)) rest \<sigma>'
      | Inl k \<Rightarrow> \<exists>i \<sigma>'. i < length (sites s) \<and> i < length (f_trap f) \<and> sites s ! i = k
          \<and> run pc (insts s @ rest) \<sigma> = Leave (4 * int pc + f_trap f ! i) \<sigma>'"
    by (rule q(2) [unfolded goes_def e add_0_right, rule_format, OF r])
  with q(1) show thesis by (cases r) (auto intro: that)
qed

end
