(* ===== verification/Codegen_Run.thy ===== *)
theory Codegen_Run
  imports Stencil_Correct Stencil_Theorems
begin

text \<open>
  The stencils that are not operations on slots: the prologue and the epilogue, the jump to a trap, and
  the two calls of the runtime's output routines.
\<close>

section \<open>Entry\<close>

definition entered :: "u16 \<Rightarrow> mach \<Rightarrow> mach \<Rightarrow> bool" where
  "entered fsz \<sigma> \<sigma>' \<longleftrightarrow> spr \<sigma>' = spr \<sigma> - 16 - ucast fsz \<and> xregs \<sigma>' 29 = spr \<sigma> - 16 \<and> code_base \<sigma>' = code_base \<sigma>
     \<and> memory \<sigma>' = store64 (store64 (memory \<sigma>) (spr \<sigma> - 16) (xregs \<sigma> 29)) (spr \<sigma> - 8) (xregs \<sigma> 30)"

lemma sp_simps [simp]: "is_sp reg_sp" "\<not> is_zr reg_sp" "is64 reg_sp" "rd_reg (regfile \<sigma>) reg_sp = spr \<sigma>"
  "write_reg reg_sp v \<sigma> = \<sigma>\<lparr>spr := v\<rparr>" "regfile \<sigma> reg_sp = spr \<sigma>" "num reg_sp = 31" "setf (nzcv \<sigma>) (\<sigma>\<lparr>spr := v\<rparr>) = \<sigma>\<lparr>spr := v\<rparr>"
  by (simp_all add: reg_sp_def is_sp_def is_zr_def rd_reg_def regfile_def write_reg_def setf_def)

lemma code_base_set [simp]: "code_base (setx d v \<sigma>) = code_base \<sigma>" "code_base (setf fl \<sigma>) = code_base \<sigma>"
  by (simp_all add: setx_def setf_def)

lemma simm7_pair: "simm7_new (- 16) 8 = Some (Inr \<lparr>s7_scaled = - 2, s7_access_size = 8\<rparr>)"
  "simm7_new 16 8 = Some (Inr \<lparr>s7_scaled = 2, s7_access_size = 8\<rparr>)"
  by (simp_all add: simm7_new_def in_signed_def)

lemma does_frame [does]:
  "does (bindR (Inr \<lparr>s7_scaled = - 2, s7_access_size = 8\<rparr>) (\<lambda>o'. inst_stp (xr 29) (xr 30) reg_sp o' PI_PreIndex)) \<sigma>
    (\<sigma>\<lparr>spr := spr \<sigma> - 16, memory := store64 (store64 (memory \<sigma>) (spr \<sigma> - 16) (xregs \<sigma> 29)) (spr \<sigma> - 8) (xregs \<sigma> 30)\<rparr>)"
  "does (inst_mov_sp (xr 29) reg_sp) \<sigma> (setx 29 (spr \<sigma>) \<sigma>)"
  "does (inst_mov_sp reg_sp (xr 29)) \<sigma> (\<sigma>\<lparr>spr := xregs \<sigma> 29\<rparr>)"
  "a \<le> 30 \<Longrightarrow> does (bindR (reg_extend_new Uxtx 0) (\<lambda>e. inst_sub_extended reg_sp reg_sp (xr a) e)) \<sigma>
    (\<sigma>\<lparr>spr := spr \<sigma> - xregs \<sigma> a\<rparr>)"
  "does (bindR (Inr \<lparr>s7_scaled = 2, s7_access_size = 8\<rparr>) (\<lambda>o'. inst_ldp (xr 29) (xr 30) reg_sp o' PI_PostIndex)) \<sigma>
    ((setx 30 (load64 (memory \<sigma>) (spr \<sigma> + 8)) (setx 29 (load64 (memory \<sigma>) (spr \<sigma>)) \<sigma>))\<lparr>spr := spr \<sigma> + 16\<rparr>)"
  by (simp_all add: step_simps inst_stp_def inst_ldp_def load_store_pair_def reg_encoding_def simm7_bytes_def
      base_offset_def uimm12_value_def)

lemma body_prologue:
  assumes "f_imm f = fsz # is"
  shows "wp f (body K_Prologue) (\<lambda>r. \<exists>\<sigma>'. r = Inr \<sigma>' \<and> entered fsz \<sigma> \<sigma>') \<sigma>"
  unfolding body_def [abs_def] Key.case pair_inst_def simm7_pair bind.simps
    by (rule wp_ins, rule does_frame, rule wp_ins, rule does_frame, rule wp_imm(1), simp, simp add: at_index_def assms,
        rule wp_i, rule does_frame) (simp_all add: entered_def put_half_def at_index_def assms)

section \<open>Exit\<close>

definition left_frame :: "mach \<Rightarrow> mach \<Rightarrow> bool" where
  "left_frame \<sigma> \<sigma>' \<longleftrightarrow> spr \<sigma>' = xregs \<sigma> 29 + 16 \<and> xregs \<sigma>' 29 = load64 (memory \<sigma>) (xregs \<sigma> 29)
     \<and> memory \<sigma>' = memory \<sigma> \<and> code_base \<sigma>' = code_base \<sigma>"

lemma run_epilogue:
  assumes "body K_Epilogue (seq_new f) = Some s"
  obtains \<sigma>' where "run pc (insts s @ rest) \<sigma> = Returned (load64 (memory \<sigma>) (xregs \<sigma> 29 + 8)) \<sigma>'" "left_frame \<sigma> \<sigma>'"
proof -
  let ?\<sigma>1 = "\<sigma>\<lparr>spr := xregs \<sigma> 29\<rparr>"
  let ?\<sigma>2 = "setx 30 (load64 (memory \<sigma>) (xregs \<sigma> 29 + 8)) (setx 29 (load64 (memory \<sigma>) (xregs \<sigma> 29)) ?\<sigma>1)\<lparr>spr := xregs \<sigma> 29 + 16\<rparr>"
  obtain i1 where i1: "inst_mov_sp reg_sp (xr 29) = Inr i1" "step i1 \<sigma> = Next ?\<sigma>1"
    using does_frame(3) [of \<sigma>] by (auto simp: does_def)
  obtain i2 where i2: "inst_ldp (xr 29) (xr 30) reg_sp \<lparr>s7_scaled = 2, s7_access_size = 8\<rparr> PI_PostIndex = Inr i2"
    "step i2 ?\<sigma>1 = Next ?\<sigma>2"
    using does_frame(5) [of ?\<sigma>1] by (auto simp: does_def)
  have "insts s = [i1, i2, Ret (xr 30)]"
    using assms by (auto simp: body_def pair_inst_def simm7_pair i1(1) i2(1) seq_fixed_def seq_new_def inst_ret_def)
  then have "run pc (insts s @ rest) \<sigma> = Returned (load64 (memory \<sigma>) (xregs \<sigma> 29 + 8)) ?\<sigma>2"
    using i1(2) i2(2) read_xr(1) [of 30 ?\<sigma>2] by simp
  moreover have "left_frame \<sigma> ?\<sigma>2" by (simp add: left_frame_def setx_def)
  ultimately show thesis by (rule that)
qed

lemma run_trap_jump:
  assumes "body (K_TrapJump kind) (seq_new f) = Some s" "trap_kind kind = Some k" "4 \<le> f_trap f ! 0"
  shows "sites s = [k]" "run pc (insts s) \<sigma> = Leave (4 * int pc + f_trap f ! 0) \<sigma>"
proof -
  from assms(1,2) obtain v where v: "sites s = [k]" "insts s = [Branch False (branch_to 26 v)]" "fits_signed v 26 4"
    "field_value \<lparr>h_word = 0, h_kind = Br26, h_field = F_Trap 0\<rparr> f = Some v"
    by (auto simp: body_def trap_holes emit_hole_def site_def hole_def seq_fixed_def seq_new_def seq_word_def
        split: option.splits if_splits)
  then show "sites s = [k]" by simp
  from v(4) have "v = f_trap f ! 0" by (auto simp: field_value_def at_index_def i64_sub_def split: if_splits Option.bind_splits)
  with v(2) assms(3) branch_to_bytes [OF v(3)] show "run pc (insts s) \<sigma> = Leave (4 * int pc + f_trap f ! 0) \<sigma>"
    by (simp add: branch_if_def)
qed

section \<open>Calls of the runtime\<close>

lemma wp_run_prefix:
  assumes "wp f m (\<lambda>r. \<exists>\<sigma>'. r = Inr \<sigma>' \<and> P \<sigma>') \<sigma>" "m (seq_new f) = Some u" "length (insts u) \<le> 60" "sites u = []" "rest \<noteq> []"
  obtains \<sigma>' where "P \<sigma>'" "run pc (insts u @ rest) \<sigma> = run (pc + length (insts u)) rest \<sigma>'"
proof -
  from assms(1) obtain \<sigma>' where s: "P \<sigma>'" "\<And>s t c. m s = Some t \<Longrightarrow> s_fill s = f \<Longrightarrow> small t \<Longrightarrow> insts t = insts s @ c \<Longrightarrow> goes f (Inr \<sigma>') s t c \<sigma>"
    unfolding wp_def by blast
  have "goes f (Inr \<sigma>') (seq_new f) u (insts u) \<sigma>"
    using assms by (intro s(2)) (simp_all add: seq_new_def small_def)
  moreover have e: "length (insts (seq_new f)) = 0" by (simp add: seq_new_def)
  ultimately have "run pc (insts u @ rest) \<sigma> = run (pc + length (insts u)) rest \<sigma>'"
    using assms(4,5) unfolding goes_def e by (simp add: far_def)
  with s(1) show thesis by (rule that)
qed

lemma seq_bl_run:
  assumes "seq_bl rts u = Some s"
  obtains off where "insts s = insts u @ [Branch True off]" "sites s = sites u" "holes s = holes u @ [\<lparr>h_word = seq_word u, h_kind = Br26, h_field = F_Call rts\<rparr>]"
  using assms unfolding call_holes
  by (auto simp: emit_hole_def seq_fixed_def hole_def split: option.splits if_splits)

lemma body_write_uint:
  assumes "body (K_WriteUint ext) (seq_new f) = Some s"
  obtains w off \<sigma>' where "length (insts s) = Suc w" "sites s = []"
    "holes s = [\<lparr>h_word = 0, h_kind = LdSt64, h_field = SlotA\<rparr>, \<lparr>h_word = word_of_nat w, h_kind = Br26, h_field = F_Call Rt_WriteUint\<rparr>]"
    "same \<sigma> \<sigma>'" "xregs \<sigma>' 0 = raw_word ext (slot_word (slot_a f) \<sigma>)" "run pc (insts s @ rest) \<sigma> = Called (pc + w) off \<sigma>'"
proof -
  let ?m = "\<lambda>s. Option.bind (ldr_slot 0 SlotA s) (raw 0 0 ext)"
  from assms obtain u where u: "?m (seq_new f) = Some u" "seq_bl Rt_WriteUint u = Some s"
    by (auto simp: body_def split: Option.bind_splits)
  from seq_bl_run [OF u(2)] obtain off where s: "insts s = insts u @ [Branch True off]" "sites s = sites u"
    "holes s = holes u @ [\<lparr>h_word = seq_word u, h_kind = Br26, h_field = F_Call Rt_WriteUint\<rparr>]" by blast
  have "\<exists>i is. inst_uxtb (wr 0) (wr 0) = Inr i" "\<exists>i. inst_uxth (wr 0) (wr 0) = Inr i" "\<exists>i. inst_mov_reg (wr 0) (wr 0) = Inr i"
    by (simp_all add: ctor_defs)
  then have us: "sites u = []" "holes u = [\<lparr>h_word = 0, h_kind = LdSt64, h_field = SlotA\<rparr>]" "length (insts u) \<le> 2"
    using u(1) slot_holes(1) [of SlotA 0]
    by (auto simp: raw_def emit_hole_def seq_fixed_def hole_def seq_new_def seq_word_def split: option.splits if_splits RawExt.splits)
  have "wp f ?m (\<lambda>r. \<exists>\<sigma>'. r = Inr \<sigma>' \<and> same \<sigma> \<sigma>' \<and> xregs \<sigma>' 0 = raw_word ext (slot_word (slot_a f) \<sigma>)) \<sigma>"
    by (rule wp_bind, rule wp_slots, simp, simp, rule wp_raw) (simp_all add: slot_word_def)
  from wp_run_prefix [OF this u(1), of "Branch True off # rest" pc] us obtain \<sigma>' where
    "same \<sigma> \<sigma>'" "xregs \<sigma>' 0 = raw_word ext (slot_word (slot_a f) \<sigma>)"
    "run pc (insts u @ Branch True off # rest) \<sigma> = run (pc + length (insts u)) (Branch True off # rest) \<sigma>'" by auto
  with s us show thesis by (intro that [of "length (insts u)" \<sigma>']) (simp_all add: seq_word_def)
qed

lemma body_write_line:
  assumes "body K_WriteLine (seq_new f) = Some s" "f_imm f = [lo, hi, x, y]"
  obtains off \<sigma>' where "length (insts s) = 4" "sites s = []"
    "holes s = [\<lparr>h_word = 0, h_kind = Adr21, h_field = F_Lit\<rparr>, \<lparr>h_word = 1, h_kind = Imm16, h_field = F_Imm 0\<rparr>,
       \<lparr>h_word = 2, h_kind = Imm16, h_field = F_Imm 1\<rparr>, \<lparr>h_word = 3, h_kind = Br26, h_field = F_Call Rt_WriteLine\<rparr>]"
    "same \<sigma> \<sigma>'" "xregs \<sigma>' 0 = code_base \<sigma> + word_of_int (4 * int pc + f_lit f)"
    "xregs \<sigma>' 1 = push_bit 16 (ucast hi) OR ucast lo" "run pc (insts s @ rest) \<sigma> = Called (pc + 3) off \<sigma>'"
proof -
  from assms obtain v v' where v: "field_value \<lparr>h_word = 0, h_kind = Adr21, h_field = F_Lit\<rparr> f = Some v" "kind_fits Adr21 v"
    and s: "insts s = [Adr (xr 0) (AdrOffset (as_signed 32 v)), MovWide Movz (xr 1) lo 0, MovWide Movk (xr 1) hi 16, Branch True (branch_to 26 v')]"
      "sites s = []"
      "holes s = [\<lparr>h_word = 0, h_kind = Adr21, h_field = F_Lit\<rparr>, \<lparr>h_word = 1, h_kind = Imm16, h_field = F_Imm 0\<rparr>,
       \<lparr>h_word = 2, h_kind = Imm16, h_field = F_Imm 1\<rparr>, \<lparr>h_word = 3, h_kind = Br26, h_field = F_Call Rt_WriteLine\<rparr>]"
    by (auto simp: body_def call_holes mov_holes emit_hole_def field_value_def at_index_def seq_fixed_def hole_def seq_new_def seq_word_def
        split: option.splits if_splits Option.bind_splits)
  have e: "v = f_lit f" using v(1) by (auto simp: field_value_def i64_sub_def split: if_splits)
  have "in_signed 32 v" using v(2) by (simp add: in_signed_def fits_signed_def)
  then have b: "as_signed 32 v = f_lit f" by (simp add: e)
  let ?\<sigma>1 = "setx 0 (code_base \<sigma> + word_of_int (4 * int pc + f_lit f)) \<sigma>"
  have st: "k < 4 \<Longrightarrow> step (MovWide Movz (xr d) h (word_of_nat (16 * k))) \<tau> = Next (setx d (put_half k h 0) \<tau>)"
    "k < 4 \<Longrightarrow> step (MovWide Movk (xr d) h (word_of_nat (16 * k))) \<tau> = Next (setx d (put_half k h (xregs \<tau> d)) \<tau>)" if "d \<le> 30" for k d h \<tau>
    using mov_does(1,3) [OF that, of k h \<tau>]
    by (simp_all add: does_def inst_movz_def inst_movk_def mov_wide_half del: step.simps of_nat_mult of_nat_numeral)
  have st0: "step (MovWide Movz (xr 1) lo 0) \<tau> = Next (setx 1 (put_half 0 lo 0) \<tau>)"
    and st1: "step (MovWide Movk (xr 1) hi 16) \<tau> = Next (setx 1 (put_half 1 hi (xregs \<tau> 1)) \<tau>)" for \<tau>
    using st(1) [of 1 0 lo \<tau>] st(2) [of 1 1 hi \<tau>] by simp_all
  have p: "put_half 1 hi (put_half 0 lo 0) = push_bit 16 (ucast hi) OR ucast lo"
  proof -
    have "(ucast lo :: u64) AND NOT (push_bit 16 (mask 16)) = ucast lo"
      by (rule bit_word_eqI) (auto simp: bit_simps dest: bit_imp_le_length)
    then show ?thesis by (simp add: put_half_def mask_eq_exp_minus_1 or.commute)
  qed
  show thesis
    by (rule that [of "setx 1 (put_half 1 hi (put_half 0 lo 0)) (setx 1 (put_half 0 lo 0) ?\<sigma>1)" "branch_offset_bytes (branch_to 26 v')"])
      (simp_all add: s b st0 st1 p [simplified] write_xr del: step.simps(11))
qed

end
