(* ===== verification/Codegen_Emit.thy ===== *)
theory Codegen_Emit
  imports Codegen_Code Stencil_Correct Stencil_Theorems
begin

text \<open>
  What \<^verbatim>\<open>emit\<close> lays out: the code of an atom is the concatenation of the rows' stencils, each encoded on
  a fill whose trap targets are the words of its \<^verbatim>\<open>brk\<close>s in the tail, whose literal is its place in the
  pool and whose call is \<^verbatim>\<open>bl #0\<close> with a relocation.
\<close>

section \<open>Every site comes with an instruction\<close>

definition paid :: "nat \<Rightarrow> (Seq \<Rightarrow> Seq option) \<Rightarrow> bool" where
  "paid n m \<longleftrightarrow> (\<forall>s t. m s = Some t \<longrightarrow> length (sites t) + length (insts s) \<le> length (insts t) + length (sites s))"

lemma paid_hole: "paid n (emit_hole k fl mk)"
  by (auto simp: paid_def emit_hole_def hole_def seq_fixed_def split: option.splits if_splits)

lemma paid_bind: "paid n m \<Longrightarrow> paid k m' \<Longrightarrow> paid (n + k) (\<lambda>s. Option.bind (m s) m')"
  by (fastforce simp: paid_def split: Option.bind_splits)

lemma paid_site: "paid n (\<lambda>s. Option.bind (site kind s) (\<lambda>(i, s). emit_hole k (F_Trap i) mk s))"
  by (auto simp: paid_def emit_hole_def hole_def seq_fixed_def site_def Let_def
      split: option.splits if_splits Option.bind_splits)

interpretation pay: builder paid UNIV
proof (rule builder.intro)
  show "is_ok r \<Longrightarrow> paid 1 (seq_i r)" for r
    by (cases r) (auto simp: paid_def seq_fixed_def)
  show "fl = SlotA \<or> fl = SlotB \<Longrightarrow> rt \<le> 30 \<Longrightarrow> paid 1 (ldr_slot rt fl)" for fl rt
    by (subst slot_holes(1)) (auto simp: paid_hole)
  show "rt \<le> 30 \<Longrightarrow> paid 1 (str_slot rt SlotDst)" for rt
    by (subst slot_holes(2)) (auto simp: paid_hole)
  show "sh \<in> {16, 32, 48} \<Longrightarrow> paid 1 (movk_imm (xr rd) i sh)" for rd i sh
    by (subst mov_holes(2)) (auto simp: paid_hole)
qed (simp_all only: mov_holes(1) trap_holes call_holes paid_hole paid_site paid_bind, simp_all add: paid_def)

section \<open>Rows\<close>

text \<open>A row of LIR: the stencil's key, the fill, the literal and the site.\<close>

type_synonym item = "Key \<times> Fill \<times> u32 \<times> u32"

fun shows_item :: "Table \<Rightarrow> Lir \<Rightarrow> nat \<Rightarrow> item \<Rightarrow> bool" where
  "shows_item t lir i (key, fill, lit, at) \<longleftrightarrow> key \<in> set all_keys \<and> at_index (lr_stencil lir) i = table_id t key
     \<and> at_index (lr_fill lir) i = Some fill \<and> at_index (lr_lit lir) i = Some lit \<and> at_index (lr_site lir) i = Some at"

fun shows_from :: "Table \<Rightarrow> Lir \<Rightarrow> nat \<Rightarrow> item list \<Rightarrow> bool" where
  "shows_from t lir i [] \<longleftrightarrow> True"
| "shows_from t lir i (it # its) \<longleftrightarrow> shows_item t lir i it \<and> shows_from t lir (Suc i) its"

definition shows_items :: "Table \<Rightarrow> Lir \<Rightarrow> item list \<Rightarrow> bool" where
  "shows_items t lir its \<longleftrightarrow> length (lr_stencil lir) = length its \<and> length (lr_fill lir) = length its
     \<and> length (lr_lit lir) = length its \<and> length (lr_site lir) = length its \<and> shows_from t lir 0 its"

definition good_table :: "Table \<Rightarrow> bool" where
  "good_table t \<longleftrightarrow> (\<forall>key \<in> set all_keys. \<exists>i st. table_id t key = Some i \<and> at_index (stencils t) (unat i) = Some st
      \<and> from_key key = Some st \<and> table_get t key = Some st) \<and> (\<forall>key. table_id t key \<noteq> None \<longrightarrow> key \<in> set all_keys)"

lemma table_good: "table = Some t \<Longrightarrow> good_table t"
  using table_built unfolding good_table_def by (metis option.inject)

lemma shows_stencil:
  assumes "good_table t" "shows_item t lir i (key, fill, lit, at)"
  obtains st where "lir_stencil t lir i = Some st" "from_key key = Some st"
  using assms unfolding good_table_def by (fastforce simp: lir_stencil_def)

lemma patch_loop_length: "patch_loop hs f b ws = Some ws' \<Longrightarrow> length ws' = length ws"
  by (induction hs arbitrary: ws) (fastforce simp: Let_def at_index_def split: Option.bind_splits if_splits)+

lemma patching_run:
  assumes "key \<in> set all_keys" "from_key key = Some st"
  shows "build key f = Some (ws, s) \<Longrightarrow> sites s = st_sites st \<and> holes s = st_holes st \<and> length ws = length (st_words st)"
    and "\<forall>h \<in> set (st_holes st). hole_fits h f = Some True \<Longrightarrow> instantiate_into st f out = Some out' \<Longrightarrow>
      \<exists>ws s. build key f = Some (ws, s) \<and> out' = out @ ws \<and> holes s = st_holes st"
proof -
  obtain st' and t :: Seq where st': "from_key key = Some st'" "st_holes st' = holes t" "st_sites st' = sites t"
    "\<And>f. if fits_all f (holes t)
      then \<exists>t' ws. build key f = Some (ws, t') \<and> holes t' = holes t \<and> sites t' = sites t
        \<and> patch_loop (holes t) f 0 (st_words st') = Some ws
      else build key f = None"
    by (rule from_key_run [OF all_keys_valid [OF assms(1)]]) blast
  have e: "st' = st" using st'(1) assms(2) by simp
  show "sites s = st_sites st \<and> holes s = st_holes st \<and> length ws = length (st_words st)" if "build key f = Some (ws, s)"
    using st'(2,3) st'(4) [of f] that patch_loop_length unfolding e by (fastforce split: if_splits)
  show "\<exists>ws s. build key f = Some (ws, s) \<and> out' = out @ ws \<and> holes s = st_holes st"
    if "\<forall>h \<in> set (st_holes st). hole_fits h f = Some True" "instantiate_into st f out = Some out'"
  proof -
    have "fits_all f (holes t)" using that(1) st'(2) by (simp add: e fits_all_def)
    with st'(4) [of f] obtain s ws where s: "build key f = Some (ws, s)" "holes s = holes t" "patch_loop (holes t) f 0 (st_words st) = Some ws"
      by (auto simp: e)
    have "instantiate_into st f out = Some (out @ ws)"
      using patch_loop_base [OF s(3), of out] st'(2) by (simp add: instantiate_into_def e)
    with s that(2) st'(2) show ?thesis by (simp add: e)
  qed
qed

text \<open>What the table holds of a key: the kinds of its sites and the length of its code.\<close>

definition key_sites :: "Key \<Rightarrow> TrapKind list" where
  "key_sites key = (case from_key key of Some st \<Rightarrow> st_sites st | None \<Rightarrow> [])"

definition key_len :: "Key \<Rightarrow> nat" where
  "key_len key = (case from_key key of Some st \<Rightarrow> length (st_words st) | None \<Rightarrow> 0)"

lemma key_shape:
  assumes "key \<in> set all_keys"
  shows "length (key_sites key) \<le> key_len key" "length (key_sites key) \<le> 4" "key_len key \<le> 30"
proof -
  have v: "valid_key key" by (rule all_keys_valid [OF assms])
  obtain st where st: "from_key key = Some st" using from_key_total [OF v] by blast
  then obtain ws s where s: "build key placeholder = Some (ws, s)" "st_words st = ws" "st_sites st = sites s"
    by (auto simp: from_key_def split: Option.bind_splits)
  note shape = build_shape [OF s(1) v]
  have "paid 30 (body key)" by (rule pay.body [OF v]) simp
  then have "length (sites s) \<le> length (insts s)" using shape(1) by (fastforce simp: paid_def seq_new_def)
  then show "length (key_sites key) \<le> key_len key" "length (key_sites key) \<le> 4" "key_len key \<le> 30"
    using shape(3,4) encode_all_length [OF shape(5)] by (simp_all add: key_sites_def key_len_def st s(2,3) small_def)
qed

lemma build_key:
  assumes "build key f = Some (ws, s)" "key \<in> set all_keys"
  shows "sites s = key_sites key" "length (insts s) = key_len key" "length ws = key_len key" "encode_all (insts s) = Some ws"
proof -
  have v: "valid_key key" by (rule all_keys_valid [OF assms(2)])
  obtain st where st: "from_key key = Some st" using from_key_total [OF v] by blast
  with patching_run [OF assms(2) st, of f] assms(1) show l: "sites s = key_sites key" "length ws = key_len key"
    by (auto simp: key_sites_def key_len_def)
  show e: "encode_all (insts s) = Some ws" by (rule build_shape(5) [OF assms(1) v])
  from encode_all_length [OF e] l(2) show "length (insts s) = key_len key" by simp
qed

section \<open>The fill of a row\<close>

lemma u32_add_Some: "u32_add x y = Some z \<longleftrightarrow> unat x + unat y < 2 ^ 32 \<and> z = x + y"
  by (auto simp: u32_add_def)

lemma u32_add_unat: "u32_add x y = Some z \<Longrightarrow> unat z = unat x + unat y"
  by (auto simp: u32_add_def unat_word_ariths split: if_splits)

lemma u32_mul_unat: "u32_mul x y = Some z \<Longrightarrow> unat z = unat x * unat y"
  by (auto simp: u32_mul_def unat_word_ariths split: if_splits)

lemma brk_pos_unat:
  assumes "brk_pos ts g = Some p" "g < 2 ^ 32"
  shows "unat p = unat ts + 4 * g"
proof -
  have "unat (word_of_nat g :: u32) = g" using assms(2) by (simp add: unat_of_nat take_bit_nat_eq_self)
  with assms(1) show ?thesis by (auto simp: brk_pos_def dest!: u32_add_unat u32_mul_unat split: Option.bind_splits)
qed

lemma fill_traps_Some:
  assumes "fill_traps ts start g ks fill = Some fill'" "distinct ks" "\<forall>k \<in> set ks. g + k < 2 ^ 32"
  shows "slot_a fill' = slot_a fill \<and> slot_b fill' = slot_b fill \<and> slot_dst fill' = slot_dst fill \<and> f_imm fill' = f_imm fill
    \<and> f_call fill' = f_call fill \<and> f_lit fill' = f_lit fill \<and> length (f_trap fill') = length (f_trap fill)
    \<and> (\<forall>k. f_trap fill' ! k = (if k \<in> set ks then int (unat ts + 4 * (g + k)) - uint start else f_trap fill ! k))"
  using assms
proof (induction ks arbitrary: fill)
  case (Cons k ks)
  from Cons.prems(1) obtain p where p: "brk_pos ts (g + k) = Some p" "k < length (f_trap fill)"
    "fill_traps ts start g ks (fill\<lparr>f_trap := (f_trap fill)[k := uint p - uint start]\<rparr>) = Some fill'"
    by (auto simp: at_index_def split: Option.bind_splits if_splits)
  have "g + k < 2 ^ 32" using Cons.prems(3) by simp
  from brk_pos_unat [OF p(1) this] have u: "uint p = int (unat ts + 4 * (g + k))" by (simp only: uint_nat)
  have d: "distinct ks" "\<forall>k \<in> set ks. g + k < 2 ^ 32" "k \<notin> set ks" using Cons.prems(2,3) by simp_all
  note ih = Cons.IH [OF p(3) d(1,2)]
  have "f_trap fill' ! j = (if j \<in> set (k # ks) then int (unat ts + 4 * (g + j)) - uint start else f_trap fill ! j)" for j
    using ih p(2) d(3) u by (cases "j = k") simp_all
  with ih show ?case by simp
qed simp

fun call_relocs :: "nat \<Rightarrow> Hole list \<Rightarrow> Reloc list" where
  "call_relocs start [] = []"
| "call_relocs start (h # hs) =
     (case h_field h of
        F_Call rts \<Rightarrow> \<lparr>rl_offset = word_of_nat (start + 4 * unat (h_word h)), rl_target = rt_symbol rts\<rparr> # call_relocs start hs
      | _ \<Rightarrow> call_relocs start hs)"

lemma fill_calls_Some:
  assumes "fill_calls start hs (fill, rs) = Some (fill', rs')"
  shows "slot_a fill' = slot_a fill \<and> slot_b fill' = slot_b fill \<and> slot_dst fill' = slot_dst fill \<and> f_imm fill' = f_imm fill
    \<and> f_trap fill' = f_trap fill \<and> f_lit fill' = f_lit fill \<and> rs' = rs @ call_relocs (unat start) hs"
  using assms
proof (induction hs arbitrary: fill rs)
  case (Cons h hs)
  show ?case
  proof (cases "\<exists>rts. h_field h = F_Call rts")
    case True
    then obtain rts where rts: "h_field h = F_Call rts" by blast
    with Cons.prems obtain m off where off: "u32_mul 4 (ucast (h_word h)) = Some m" "u32_add start m = Some off"
      "fill_calls start hs (fill\<lparr>f_call := 4 * uint (h_word h)\<rparr>, rs @ [\<lparr>rl_offset = off, rl_target = rt_symbol rts\<rparr>]) = Some (fill', rs')"
      by (auto split: Option.bind_splits)
    have "unat off = unat start + 4 * unat (h_word h)"
      using u32_add_unat [OF off(2)] u32_mul_unat [OF off(1)] by simp
    then have "off = word_of_nat (unat start + 4 * unat (h_word h))" by (metis of_nat_unat ucast_id)
    with Cons.IH [OF off(3)] rts show ?thesis by simp
  next
    case False
    with Cons show ?thesis by (cases "h_field h") auto
  qed
qed simp

lemma find_misfit_None: "find_misfit hs fill = Some None \<Longrightarrow> \<forall>h \<in> set hs. hole_fits h fill = Some True"
  by (induction hs) (auto split: Option.bind_splits if_splits)

section \<open>The first pass\<close>

definition item_len :: "item \<Rightarrow> nat" where
  "item_len it = key_len (fst it)"

definition item_tail :: "item \<Rightarrow> Site list" where
  "item_tail it = (case it of (key, fill, lit, at) \<Rightarrow> map (\<lambda>k. \<lparr>st_kind = k, st_fmir = at\<rparr>) (key_sites key))"

fun firsts :: "nat \<Rightarrow> item list \<Rightarrow> nat list" where
  "firsts g [] = []"
| "firsts g (it # its) = g # firsts (g + length (item_tail it)) its"

lemma add_sites_eq:
  "at_index (lr_site lir) i = Some at \<Longrightarrow> add_sites ks lir i ts = Some (ts @ map (\<lambda>k. \<lparr>st_kind = k, st_fmir = at\<rparr>) ks)"
  by (induction ks arbitrary: ts) (simp_all add: tail_add_def)

lemma layout_rows_Some:
  assumes "layout_rows t lir [k..<k + length its] (code, ts, first) = Some (code', ts', first')"
    and "good_table t" "shows_from t lir k its"
  shows "unat code' = unat code + sum_list (map item_len its) \<and> ts' = ts @ concat (map item_tail its)
    \<and> first' = first @ firsts (length ts) its"
  using assms(1,3)
proof (induction its arbitrary: k code ts first)
  case (Cons it its)
  obtain key fill lit at where it: "it = (key, fill, lit, at)" by (cases it) auto
  from Cons.prems(2) have sh: "shows_item t lir k (key, fill, lit, at)" "shows_from t lir (Suc k) its" by (simp_all add: it)
  obtain st where st: "lir_stencil t lir k = Some st" "from_key key = Some st" by (rule shows_stencil [OF assms(2) sh(1)])
  have key: "key \<in> set all_keys" "at_index (lr_site lir) k = Some at" using sh(1) by simp_all
  have e: "st_sites st = key_sites key" "length (st_words st) = key_len key" by (simp_all add: key_sites_def key_len_def st(2))
  have u: "[k..<k + length (it # its)] = k # [Suc k..<Suc k + length its]" by (subst upt_conv_Cons) simp_all
  have "length (st_words st) < 2 ^ 32" using key_shape(3) [OF key(1)] e(2) by simp
  then have w: "unat (word_of_nat (length (st_words st)) :: u32) = item_len it"
    by (simp add: unat_of_nat take_bit_nat_eq_self item_len_def it e(2))
  from Cons.prems(1) obtain c where c: "u32_add code (word_of_nat (length (st_words st))) = Some c"
    "layout_rows t lir [Suc k..<Suc k + length its] (c, ts @ item_tail it, first @ [length ts]) = Some (code', ts', first')"
    unfolding u by (auto simp: st(1) add_sites_eq [OF key(2)] item_tail_def it e(1) split: Option.bind_splits)
  from Cons.IH [OF c(2) sh(2)] u32_add_unat [OF c(1)] w show ?case by simp
qed simp

lemma firsts_index: "j < length its \<Longrightarrow> firsts g its ! j = g + length (concat (map item_tail (take j its)))"
  by (induction its arbitrary: g j) (auto simp: nth_Cons' take_Cons' )

lemma firsts_length [simp]: "length (firsts g its) = length its"
  by (induction its arbitrary: g) simp_all

lemma tail_le_len: "shows_from t lir k its \<Longrightarrow> length (concat (map item_tail its)) \<le> sum_list (map item_len its)"
  by (induction its arbitrary: k) (fastforce simp: item_tail_def item_len_def dest: key_shape(1))+

section \<open>The second pass\<close>

text \<open>What a row's code is built on: the slots and immediates of its fill, the offsets of its \<^verbatim>\<open>brk\<close>s and of
  its literal from the start of the row.\<close>

definition row_built :: "nat \<Rightarrow> u32 option list \<Rightarrow> nat \<Rightarrow> nat \<Rightarrow> item \<Rightarrow> Seq \<Rightarrow> bool" where
  "row_built T pos w g it s \<longleftrightarrow> (case it of (key, fill, lit, at) \<Rightarrow> key \<in> set all_keys \<and> (\<exists>fill' ws. build key fill' = Some (ws, s)
     \<and> slot_a fill' = slot_a fill \<and> slot_b fill' = slot_b fill \<and> slot_dst fill' = slot_dst fill \<and> f_imm fill' = f_imm fill
     \<and> (\<forall>k < length (sites s). f_trap fill' ! k = 4 * int T + 4 * int (g + k) - 4 * int w)
     \<and> (lit \<noteq> NO_LIT \<longrightarrow> (\<exists>p. at_index pos (unat lit) = Some (Some p) \<and> f_lit fill' = uint p - 4 * int w))))"

fun built :: "nat \<Rightarrow> u32 option list \<Rightarrow> nat \<Rightarrow> nat \<Rightarrow> item list \<Rightarrow> Seq list \<Rightarrow> bool" where
  "built T pos w g [] ss \<longleftrightarrow> ss = []"
| "built T pos w g (it # its) ss \<longleftrightarrow> (\<exists>s ss'. ss = s # ss' \<and> row_built T pos w g it s
     \<and> built T pos (w + length (insts s)) (g + length (sites s)) its ss')"

fun all_relocs :: "nat \<Rightarrow> Seq list \<Rightarrow> Reloc list" where
  "all_relocs w [] = []"
| "all_relocs w (s # ss) = call_relocs (4 * w) (holes s) @ all_relocs (w + length (insts s)) ss"

definition code_of :: "Seq list \<Rightarrow> Inst list" where
  "code_of ss = concat (map insts ss)"

lemma encode_all_append: "encode_all is = Some ws \<Longrightarrow> encode_all js = Some vs \<Longrightarrow> encode_all (is @ js) = Some (ws @ vs)"
  by (induction "is" arbitrary: ws) (auto split: sum.splits)

lemma emit_row_Some:
  assumes e: "emit_row show_misfit t lir f ts first pos i (words, relocs) = Some (Inr (words', relocs'))"
    and t: "good_table t" "shows_item t lir i it" and T: "unat ts = 4 * T" "T < 2 ^ 30" and w: "length words \<le> T"
    and g: "at_index first i = Some g" "g \<le> T"
  obtains s ws where "row_built T pos (length words) g it s" "encode_all (insts s) = Some ws" "words' = words @ ws"
    "relocs' = relocs @ call_relocs (4 * length words) (holes s)" "length (insts s) = item_len it" "length (sites s) = length (item_tail it)"
proof -
  obtain key fill lit at where it: "it = (key, fill, lit, at)" by (cases it) auto
  obtain st where st: "lir_stencil t lir i = Some st" "from_key key = Some st" by (rule shows_stencil [OF t(1) t(2) [unfolded it]])
  have i: "key \<in> set all_keys" "at_index (lr_fill lir) i = Some fill" "at_index (lr_lit lir) i = Some lit"
    using t(2) by (simp_all add: it)
  from e obtain start f1 f2 f3 where r: "u32_mul 4 (word_of_nat (length words)) = Some start"
    "fill_traps ts start g [0..<length (st_sites st)] fill = Some f1" "fill_lit lir pos start i f1 = Some f2"
    "fill_calls start (st_holes st) (f2, relocs) = Some (f3, relocs')" "find_misfit (st_holes st) f3 = Some None"
    "instantiate_into st f3 words = Some words'"
    by (auto simp: emit_row_def st(1) i g(1) split: Option.bind_splits option.splits)
  obtain ws s where s: "build key f3 = Some (ws, s)" "words' = words @ ws" "holes s = st_holes st"
    using patching_run(2) [OF i(1) st(2) find_misfit_None [OF r(5)] r(6)] by blast
  note b = build_key [OF s(1) i(1)]
  have ks: "st_sites st = key_sites key" by (simp add: key_sites_def st(2))
  have "unat (word_of_nat (length words) :: u32) = length words" using w T(2) by (simp add: unat_of_nat take_bit_nat_eq_self)
  with u32_mul_unat [OF r(1)] have start: "unat start = 4 * length words" by simp
  then have ui: "uint start = 4 * int (length words)" by (simp add: uint_nat)
  have k: "\<forall>k \<in> set [0..<length (st_sites st)]. g + k < 2 ^ 32" using g(2) T(2) key_shape(2) [OF i(1)] ks by auto
  note tr = fill_traps_Some [OF r(2) _ k]
  have lit: "slot_a f2 = slot_a f1 \<and> slot_b f2 = slot_b f1 \<and> slot_dst f2 = slot_dst f1 \<and> f_imm f2 = f_imm f1 \<and> f_trap f2 = f_trap f1
      \<and> (lit \<noteq> NO_LIT \<longrightarrow> (\<exists>p. at_index pos (unat lit) = Some (Some p) \<and> f_lit f2 = uint p - uint start))"
    using r(3) by (auto simp: fill_lit_def i(3) split: if_splits Option.bind_splits)
  note ca = fill_calls_Some [OF r(4)]
  have "row_built T pos (length words) g it s"
    using s(1) i(1) lit ca tr ks b(1) by (auto simp: row_built_def it T(1) ui)
  then show thesis
    using s(2,3) ca b start by (intro that [of s ws]) (simp_all add: item_len_def item_tail_def it)
qed

lemma emit_rows_Some:
  assumes "emit_rows show_misfit t lir f ts first pos [k..<k + length its] (words, relocs) = Some (Inr (words', relocs'))"
    and t: "good_table t" "shows_from t lir k its" and T: "unat ts = 4 * T" "T < 2 ^ 30"
    and w: "length words + sum_list (map item_len its) \<le> T" "g + length (concat (map item_tail its)) \<le> T"
    and first: "first = f0 @ firsts g its" "length f0 = k"
  shows "\<exists>ss ws. built T pos (length words) g its ss \<and> encode_all (code_of ss) = Some ws \<and> words' = words @ ws
    \<and> relocs' = relocs @ all_relocs (length words) ss \<and> map (\<lambda>s. length (insts s)) ss = map item_len its"
  using assms
proof (induction its arbitrary: k words relocs g f0)
  case Nil
  then show ?case by (auto simp: code_of_def)
next
  case (Cons it its)
  have u: "[k..<k + length (it # its)] = k # [Suc k..<Suc k + length its]" by (subst upt_conv_Cons) simp_all
  have sh: "shows_item t lir k it" "shows_from t lir (Suc k) its" using Cons.prems(3) by simp_all
  from Cons.prems(1) obtain words1 relocs1 where r: "emit_row show_misfit t lir f ts first pos k (words, relocs) = Some (Inr (words1, relocs1))"
    "emit_rows show_misfit t lir f ts first pos [Suc k..<Suc k + length its] (words1, relocs1) = Some (Inr (words', relocs'))"
    unfolding u by (auto split: Option.bind_splits sum.splits)
  have "at_index first k = Some g" "length words \<le> T" "g \<le> T" using Cons.prems(6-9) by (simp_all add: at_index_def nth_append)
  from emit_row_Some [OF r(1) t(1) sh(1) T this(2,1,3)] obtain s ws where s: "row_built T pos (length words) g it s"
    "encode_all (insts s) = Some ws" "words1 = words @ ws" "relocs1 = relocs @ call_relocs (4 * length words) (holes s)"
    "length (insts s) = item_len it" "length (sites s) = length (item_tail it)" by blast
  have l: "length words1 = length words + length (insts s)" using s(3) encode_all_length [OF s(2)] by simp
  have "length words1 + sum_list (map item_len its) \<le> T" "g + length (item_tail it) + length (concat (map item_tail its)) \<le> T"
    "first = (f0 @ [g]) @ firsts (g + length (item_tail it)) its" "length (f0 @ [g]) = Suc k"
    using Cons.prems(6-9) l s(5) by simp_all
  from Cons.IH [OF r(2) t(1) sh(2) T this] obtain ss vs where ss:
    "built T pos (length words1) (g + length (item_tail it)) its ss" "encode_all (code_of ss) = Some vs" "words' = words1 @ vs"
    "relocs' = relocs1 @ all_relocs (length words1) ss" "map (\<lambda>s. length (insts s)) ss = map item_len its" by blast
  have "encode_all (code_of (s # ss)) = Some (ws @ vs)"
    using encode_all_append [OF s(2) ss(2)] by (simp add: code_of_def)
  with s ss show ?case unfolding l by (intro exI [of _ "s # ss"] exI [of _ "ws @ vs"]) simp
qed

section \<open>The tail, the pool and the atom\<close>

definition brk_word :: "TrapKind \<Rightarrow> u32" where
  "brk_word k = (case encode (inst_brk (TRAP_BRK_BASE + ucast (trap_code k))) of Inr w \<Rightarrow> w | Inl e \<Rightarrow> 0)"

lemma brk_stencil:
  assumes "good_table t"
  obtains st where "table_get t (K_Brk (trap_code k)) = Some st" "st_words st = [brk_word k]"
proof -
  have "K_Brk (trap_code k) \<in> set all_keys" by (cases k) (simp_all add: all_keys_def upt_conv_Cons)
  with assms obtain st where st: "table_get t (K_Brk (trap_code k)) = Some st" "from_key (K_Brk (trap_code k)) = Some st"
    unfolding good_table_def by fastforce
  have "trap_code k < 8" by (cases k) simp_all
  then have "(ucast (trap_code k) :: u16) < 8" by (cases k) simp_all
  with st(2) have "st_words st = [brk_word k]"
    by (auto simp: from_key_def build_def body_def brk_imm_def seq_fixed_def seq_new_def brk_word_def split: Option.bind_splits sum.splits)
  with st(1) show thesis by (rule that)
qed

lemma emit_brks_eq:
  assumes "good_table t"
  shows "emit_brks t ss words = Some (words @ map (brk_word \<circ> st_kind) ss)"
proof (induction ss arbitrary: words)
  case (Cons s ss)
  obtain st where "table_get t (K_Brk (trap_code (st_kind s))) = Some st" "st_words st = [brk_word (st_kind s)]"
    by (rule brk_stencil [OF assms])
  then show ?case by (simp add: Cons.IH)
qed simp

definition line_of :: "OirFunc \<Rightarrow> u32 \<Rightarrow> u32 \<times> u16" where
  "line_of f s = (case at_index (of_sites f) (unat s) of Some (l, c) \<Rightarrow> (l, ucast (min c 0xFFFF)) | None \<Rightarrow> (0, 0))"

lemma tail_rows_length: "tail_rows ts lines gs = Some rows \<Longrightarrow> length rows = length gs"
  by (induction ts lines gs arbitrary: rows rule: tail_rows.induct) (auto split: Option.bind_splits)

lemma tail_rows_Some:
  assumes "tail_rows ts (of_sites f) (enumerate g tail) = Some rows" "g + length tail < 2 ^ 32" "i < length tail"
  shows "i < length rows" "unat (tr_pc (rows ! i)) = unat ts + 4 * (g + i)" "tr_kind (rows ! i) = trap_code (st_kind (tail ! i))"
    "(tr_line (rows ! i), tr_col (rows ! i)) = line_of f (st_fmir (tail ! i))"
proof -
  have "i < length rows \<and> unat (tr_pc (rows ! i)) = unat ts + 4 * (g + i) \<and> tr_kind (rows ! i) = trap_code (st_kind (tail ! i))
    \<and> (tr_line (rows ! i), tr_col (rows ! i)) = line_of f (st_fmir (tail ! i))"
    using assms
  proof (induction tail arbitrary: g i rows)
    case (Cons s tail)
    from Cons.prems(1) obtain r rs where r: "tail_row ts (of_sites f) g s = Some r"
      "tail_rows ts (of_sites f) (enumerate (Suc g) tail) = Some rs" "rows = r # rs"
      by (auto split: Option.bind_splits)
    show ?case
    proof (cases i)
      case 0
      have "g < 2 ^ 32" using Cons.prems(2) by simp
      with r(1,3) 0 brk_pos_unat show ?thesis
        by (auto simp: tail_row_def line_of_def split: Option.bind_splits option.splits prod.splits)
    next
      case (Suc j)
      have "Suc g + length tail < 2 ^ 32" "j < length tail" using Cons.prems(2,3) Suc by simp_all
      from Cons.IH [OF r(2) this] Suc r(3) show ?thesis by simp
    qed
  qed simp
  then show "i < length rows" "unat (tr_pc (rows ! i)) = unat ts + 4 * (g + i)" "tr_kind (rows ! i) = trap_code (st_kind (tail ! i))"
    "(tr_line (rows ! i), tr_col (rows ! i)) = line_of f (st_fmir (tail ! i))" by simp_all
qed

definition strings_at :: "OirFunc \<Rightarrow> nat \<Rightarrow> u8 list \<Rightarrow> u32 option list \<Rightarrow> bool" where
  "strings_at f start pool pos \<longleftrightarrow> length pos = length (of_strings f) \<and> (\<forall>l p. at_index pos l = Some (Some p) \<longrightarrow>
     start \<le> unat p \<and> unat p + length (of_strings f ! l) \<le> start + length pool
     \<and> take (length (of_strings f ! l)) (drop (unat p - start) pool) = of_strings f ! l)"

lemma layout_pool_grows: "layout_pool lir f ps is (pool, pos) = Some (pool', pos') \<Longrightarrow> \<exists>ext. pool' = pool @ ext"
proof (induction "is" arbitrary: pool pos)
  case (Cons i "is")
  from Cons.prems obtain pool1 pos1 where p: "layout_pool lir f ps is (pool1, pos1) = Some (pool', pos')" "\<exists>ext. pool1 = pool @ ext"
    by (auto split: Option.bind_splits if_splits option.splits)
  from Cons.IH [OF p(1)] p(2) show ?case by auto
qed simp

lemma layout_pool_Some:
  assumes "layout_pool lir f ps is (pool, pos) = Some (pool', pos')" "length pool' < 2 ^ 32" "strings_at f (unat ps) pool pos"
  shows "strings_at f (unat ps) pool' pos'"
  using assms
proof (induction "is" arbitrary: pool pos)
  case (Cons i "is")
  from Cons.prems(1) obtain l where l: "at_index (lr_lit lir) i = Some l" by (auto split: Option.bind_splits)
  show ?case
  proof (cases "l = NO_LIT \<or> (\<exists>p. at_index pos (unat l) = Some (Some p))")
    case True
    with Cons.prems(1) l have "layout_pool lir f ps is (pool, pos) = Some (pool', pos')" by (auto split: if_splits)
    from Cons.IH [OF this Cons.prems(2,3)] show ?thesis .
  next
    case False
    with Cons.prems(1) l obtain p bytes where p: "at_index pos (unat l) = Some None" "u32_add ps (word_of_nat (length pool)) = Some p"
      "at_index (of_strings f) (unat l) = Some bytes" "layout_pool lir f ps is (pool @ bytes, pos[unat l := Some p]) = Some (pool', pos')"
      by (auto split: Option.bind_splits option.splits)
    from layout_pool_grows [OF p(4)] Cons.prems(2) have "length pool < 2 ^ 32" by auto
    then have "unat (word_of_nat (length pool) :: u32) = length pool" by (simp add: unat_of_nat take_bit_nat_eq_self)
    with u32_add_unat [OF p(2)] have u: "unat p = unat ps + length pool" by simp
    have "strings_at f (unat ps) (pool @ bytes) (pos[unat l := Some p])"
      unfolding strings_at_def
    proof (intro conjI allI impI)
      show "length (pos[unat l := Some p]) = length (of_strings f)" using Cons.prems(3) by (simp add: strings_at_def)
      fix k q
      assume q: "at_index (pos[unat l := Some p]) k = Some (Some q)"
      let ?n = "length (of_strings f ! k)"
      have "unat ps \<le> unat q \<and> unat q + ?n \<le> unat ps + length (pool @ bytes)
        \<and> take ?n (drop (unat q - unat ps) (pool @ bytes)) = of_strings f ! k"
      proof (cases "k = unat l")
        case True
        with q p(3) u show ?thesis by (auto simp: at_index_def split: if_splits)
      next
        case False
        with q have "at_index pos k = Some (Some q)" by (simp add: at_index_def split: if_splits)
        with Cons.prems(3) have h: "unat ps \<le> unat q" "unat q + ?n \<le> unat ps + length pool"
          "take ?n (drop (unat q - unat ps) pool) = of_strings f ! k" by (auto simp: strings_at_def)
        then have "?n - (length pool - (unat q - unat ps)) = 0" "unat q - unat ps \<le> length pool" by linarith+
        with h show ?thesis by simp
      qed
      then show "unat ps \<le> unat q" "unat q + ?n \<le> unat ps + length (pool @ bytes)"
        "take ?n (drop (unat q - unat ps) (pool @ bytes)) = of_strings f ! k" by blast+
    qed
    from Cons.IH [OF p(4) Cons.prems(2) this] show ?thesis .
  qed
qed simp

lemma pad4_dvd: "4 dvd length (pad4 code)"
proof -
  have "(n + (4 - n mod 4) mod 4) mod 4 = 0" for n :: nat
  proof -
    have "n mod 4 = 0 \<or> n mod 4 = 1 \<or> n mod 4 = 2 \<or> n mod 4 = 3" by linarith
    then show ?thesis by (subst mod_add_left_eq [symmetric]) auto
  qed
  then show ?thesis unfolding pad4_def length_append length_replicate dvd_eq_mod_eq_0 by this
qed

lemma fold_push_word: "fold push_word ws a = a\<lparr>at_code := at_code a @ concat (map le_bytes ws)\<rparr>"
  by (induction ws arbitrary: a) (simp_all add: push_word_def)

text \<open>What an emitted atom is: the code of the rows, one \<^verbatim>\<open>brk\<close> per site, the literals, and the tables.\<close>

definition atom_of :: "OirFunc \<Rightarrow> item list \<Rightarrow> Seq list \<Rightarrow> u32 option list \<Rightarrow> Atom \<Rightarrow> bool" where
  "atom_of f its ss pos atom \<longleftrightarrow> (let T = length (code_of ss); tail = concat (map item_tail its) in
     T < 2 ^ 30 \<and> length tail \<le> T \<and> 4 dvd length (at_code atom) \<and> length (at_traps atom) = length tail \<and> built T pos 0 0 its ss \<and> at_relocs atom = all_relocs 0 ss
     \<and> (\<exists>ws pool pad. encode_all (code_of ss) = Some ws \<and> strings_at f (4 * T + 4 * length tail) pool pos
          \<and> at_code atom = concat (map le_bytes (ws @ map (brk_word \<circ> st_kind) tail)) @ pool @ pad)
     \<and> (\<forall>i < length tail. i < length (at_traps atom) \<and> unat (tr_pc (at_traps atom ! i)) = 4 * T + 4 * i
          \<and> tr_kind (at_traps atom ! i) = trap_code (st_kind (tail ! i))
          \<and> (tr_line (at_traps atom ! i), tr_col (at_traps atom ! i)) = line_of f (st_fmir (tail ! i))))"

lemma built_lengths: "built T pos w g its ss \<Longrightarrow> map (\<lambda>s. length (insts s)) ss = map item_len its"
proof (induction its arbitrary: w g ss)
  case (Cons it its)
  then show ?case
    by (cases it) (fastforce simp: row_built_def item_len_def dest: build_key(2))
qed simp

lemma emit_in_Some:
  assumes e: "emit_in show_misfit t lir f name = Some (Inr atom)" and t: "good_table t" "shows_items t lir its"
    and l: "length (at_code atom) < 2 ^ 32"
  obtains ss pos where "atom_of f its ss pos atom"
proof -
  let ?rows = "[0..<0 + length its]"
  have n: "length (lr_stencil lir) = length its" and sh: "shows_from t lir 0 its" using t(2) by (simp_all add: shows_items_def)
  from e obtain cw tail first ts ps pool pos ws relocs traps words where r: "layout_rows t lir ?rows (0, [], []) = Some (cw, tail, first)"
    "u32_mul 4 cw = Some ts" "Option.bind (u32_mul 4 (word_of_nat (length tail))) (u32_add ts) = Some ps"
    "layout_pool lir f ps ?rows ([], replicate (length (of_strings f)) None) = Some (pool, pos)"
    "emit_rows show_misfit t lir f ts first pos ?rows ([], []) = Some (Inr (ws, relocs))"
    "emit_brks t tail ws = Some words" "tail_rows ts (of_sites f) (enumerate 0 tail) = Some traps"
    "atom = \<lparr>at_name = name, at_code = pad4 (concat (map le_bytes words) @ pool), at_relocs = relocs, at_traps = traps\<rparr>"
    unfolding emit_in_def Let_def n by (auto simp: fold_push_word split: Option.bind_splits sum.splits)
  from layout_rows_Some [OF r(1) t(1) sh] have lay: "unat cw = sum_list (map item_len its)" "tail = concat (map item_tail its)"
    "first = firsts 0 its" by simp_all
  define T where "T = unat cw"
  have T: "unat ts = 4 * T" using u32_mul_unat [OF r(2)] by (simp add: T_def)
  then have T': "T < 2 ^ 30" using unsigned_less [of ts, where ?'a = nat] by simp
  have tl: "length tail \<le> T" using tail_le_len [OF sh] lay T_def by simp
  have p: "unat ps = 4 * T + 4 * length tail"
  proof -
    have "unat (word_of_nat (length tail) :: u32) = length tail" using tl T' by (simp add: unat_of_nat take_bit_nat_eq_self)
    with r(3) T show ?thesis by (auto dest!: u32_add_unat u32_mul_unat split: Option.bind_splits)
  qed
  have "length ([] :: u32 list) + sum_list (map item_len its) \<le> T" "0 + length (concat (map item_tail its)) \<le> T"
    using lay tl T_def by simp_all
  from emit_rows_Some [OF r(5) t(1) sh T T' this, of "[]"] obtain ss where
    ss: "built T pos 0 0 its ss" "encode_all (code_of ss) = Some ws" "relocs = all_relocs 0 ss" by (auto simp: lay(3))
  have c: "length (code_of ss) = T"
    using built_lengths [OF ss(1)] lay(1) by (simp add: code_of_def length_concat comp_def T_def)
  have brks: "words = ws @ map (brk_word \<circ> st_kind) tail" using r(6) emit_brks_eq [OF t(1)] by simp
  have "length pool < 2 ^ 32" using l by (simp add: r(8) pad4_def)
  moreover have "strings_at f (unat ps) [] (replicate (length (of_strings f)) None)"
    by (auto simp: strings_at_def at_index_def split: if_splits)
  ultimately have pool: "strings_at f (4 * T + 4 * length tail) pool pos" using layout_pool_Some [OF r(4)] p by metis
  have tr: "0 + length tail < 2 ^ 32" using le_less_trans [OF tl T'] by simp
  have "atom_of f its ss pos atom"
    unfolding atom_of_def Let_def c lay(2) [symmetric]
  proof (intro conjI exI allI impI)
    show "at_code atom = concat (map le_bytes (ws @ map (brk_word \<circ> st_kind) tail)) @ pool
        @ replicate ((4 - length (concat (map le_bytes words) @ pool) mod 4) mod 4) 0"
      by (simp add: r(8) pad4_def brks)
    show "4 dvd length (at_code atom)" by (simp add: r(8) pad4_dvd)
    show "length (at_traps atom) = length tail" using tail_rows_length [OF r(7)] by (simp add: r(8))
    fix i
    assume "i < length tail"
    from tail_rows_Some [OF r(7) tr this] show "i < length (at_traps atom)" "unat (tr_pc (at_traps atom ! i)) = 4 * T + 4 * i"
      "tr_kind (at_traps atom ! i) = trap_code (st_kind (tail ! i))"
      "(tr_line (at_traps atom ! i), tr_col (at_traps atom ! i)) = line_of f (st_fmir (tail ! i))"
      by (simp_all add: r(8) T)
  qed (use T' tl ss pool in \<open>simp_all add: r(8)\<close>)
  then show thesis by (rule that)
qed

end
