(* ===== verification/Oir_Laws.thy ===== *)
theory Oir_Laws
  imports Oir_Code
begin

text \<open>
  What the OIR verifier guarantees: the columns of the values are complete, those of the rows have one
  length, and every row reads values defined by earlier rows, defines its own value once and with its
  type, and addresses a slot of the function through that slot's root.
\<close>

section \<open>Verified functions\<close>

definition defined_before :: "Rows \<Rightarrow> nat \<Rightarrow> u32 \<Rightarrow> bool" where
  "defined_before r i v \<longleftrightarrow> v \<noteq> NONE \<and> (\<exists>j < i. r_dst r ! j = v)"

definition slot_ok :: "OirFunc \<Rightarrow> nat \<Rightarrow> bool" where
  "slot_ok f i \<longleftrightarrow> (let r = of_rows f; n = unat (r_a r ! i)
     in is_slot_row (r_op r ! i) \<longrightarrow> n < length (of_slots f) \<and> (\<exists>src. r_alias r ! i = Some (Ac_Root (sl_root (of_slots f ! n)) src)))"

definition row_ok :: "OirFunc \<Rightarrow> nat \<Rightarrow> bool" where
  "row_ok f i \<longleftrightarrow> (let r = of_rows f; d = r_dst r ! i
     in r_op r ! i \<noteq> O_Tile \<and> slot_ok f i
        \<and> (\<forall>v \<in> set (value_cols (r_op r ! i) (r_a r ! i) (r_b r ! i)). defined_before r i v)
        \<and> (if d = NONE then r_ty r ! i = Low_Unit
           else unat d < length (v_ty (of_values f)) \<and> \<not> defined_before r i d \<and> v_ty (of_values f) ! unat d = r_ty r ! i))"

definition verified :: "OirFunc \<Rightarrow> bool" where
  "verified f \<longleftrightarrow> (let vs = of_values f; n = length (v_ty vs)
     in n \<le> length (v_secret vs) \<and> n \<le> length (v_ct vs) \<and> (\<forall>v < n. v_ct vs ! v \<noteq> CT_UNSPECIFIED)
        \<and> \<not> ragged (of_rows f) \<and> (\<forall>i < length (r_op (of_rows f)). row_ok f i))"

section \<open>The verifier decides it\<close>

lemma verify_values_ok:
  "verify_values ns vs = Inr () \<longleftrightarrow> (\<forall>v \<in> set ns. v < length (v_secret vs) \<and> v < length (v_ct vs) \<and> v_ct vs ! v \<noteq> CT_UNSPECIFIED)"
  by (induction ns) auto

lemma slot_error_ok: "slot_error f i = None \<longleftrightarrow> slot_ok f i"
  by (auto simp: slot_error_def slot_ok_def Let_def split: option.splits AliasClass.splits)

definition defined_upto :: "OirFunc \<Rightarrow> nat \<Rightarrow> bool list \<Rightarrow> bool" where
  "defined_upto f i defined \<longleftrightarrow> length defined = length (v_ty (of_values f))
     \<and> (\<forall>v < length defined. defined ! v \<longleftrightarrow> (\<exists>j < i. r_dst (of_rows f) ! j \<noteq> NONE \<and> unat (r_dst (of_rows f) ! j) = v))
     \<and> (\<forall>j < i. r_dst (of_rows f) ! j \<noteq> NONE \<longrightarrow> unat (r_dst (of_rows f) ! j) < length defined)"

lemma defined_upto_before:
  "defined_upto f i defined \<Longrightarrow> defined_before (of_rows f) i v \<longleftrightarrow> v \<noteq> NONE \<and> unat v < length defined \<and> defined ! unat v"
  unfolding defined_upto_def defined_before_def by (metis word_unat_eq_iff)

lemma defined_upto_step:
  assumes "defined_upto f i defined"
  shows "r_dst (of_rows f) ! i = NONE \<Longrightarrow> defined_upto f (Suc i) defined"
    "unat (r_dst (of_rows f) ! i) < length defined \<Longrightarrow> r_dst (of_rows f) ! i \<noteq> NONE \<Longrightarrow>
      defined_upto f (Suc i) (defined[unat (r_dst (of_rows f) ! i) := True])"
  using assms unfolding defined_upto_def by (auto simp: less_Suc_eq nth_list_update)

lemma verify_rows_step:
  "verify_rows f (i # is) defined = Inr () \<longleftrightarrow> (let r = of_rows f; d = r_dst r ! i; n = length (v_ty (of_values f))
     in r_op r ! i \<noteq> O_Tile \<and> slot_error f i = None
        \<and> (\<forall>v \<in> set (value_cols (r_op r ! i) (r_a r ! i) (r_b r ! i)). v \<noteq> NONE \<and> unat v < n \<and> defined ! unat v)
        \<and> (if d = NONE then r_ty r ! i = Low_Unit \<and> verify_rows f is defined = Inr ()
           else unat d < n \<and> \<not> defined ! unat d \<and> v_ty (of_values f) ! unat d = r_ty r ! i
             \<and> verify_rows f is (defined[unat d := True]) = Inr ()))"
  by (simp add: Let_def list_ex_iff split: option.split) (meson not_le)

lemma verify_rows_ok:
  "defined_upto f i defined \<Longrightarrow> verify_rows f [i..<i + m] defined = Inr () \<longleftrightarrow> (\<forall>j < m. row_ok f (i + j))"
proof (induction m arbitrary: i defined)
  case (Suc m)
  have u: "[i..<i + Suc m] = i # [Suc i..<Suc i + m]" by (subst upt_conv_Cons) simp_all
  have s: "(\<forall>j < Suc m. row_ok f (i + j)) \<longleftrightarrow> row_ok f i \<and> (\<forall>j < m. row_ok f (Suc i + j))"
    by (simp add: All_less_Suc2)
  have n: "length (v_ty (of_values f)) = length defined" using Suc.prems by (simp add: defined_upto_def)
  have r: "row_ok f i \<longleftrightarrow> (let r = of_rows f; d = r_dst r ! i
     in r_op r ! i \<noteq> O_Tile \<and> slot_error f i = None
        \<and> (\<forall>v \<in> set (value_cols (r_op r ! i) (r_a r ! i) (r_b r ! i)). v \<noteq> NONE \<and> unat v < length defined \<and> defined ! unat v)
        \<and> (if d = NONE then r_ty r ! i = Low_Unit
           else unat d < length defined \<and> \<not> defined ! unat d \<and> v_ty (of_values f) ! unat d = r_ty r ! i))"
    by (simp add: row_ok_def Let_def slot_error_ok defined_upto_before [OF Suc.prems] n cong: conj_cong)
  show ?case
  proof (cases "r_dst (of_rows f) ! i = NONE")
    case True
    from Suc.IH [OF defined_upto_step(1) [OF Suc.prems True]] show ?thesis
      unfolding u s verify_rows_step r Let_def n by (simp add: True)
  next
    case False
    note ih = Suc.IH [OF defined_upto_step(2) [OF Suc.prems _ False]]
    show ?thesis
      unfolding u s verify_rows_step r Let_def n
      by (cases "unat (r_dst (of_rows f) ! i) < length defined") (use ih in \<open>simp_all add: False del: upt_Suc\<close>)
  qed
qed simp

lemma verify_ok: "oir_verify f = Inr () \<longleftrightarrow> verified f"
proof -
  have "defined_upto f 0 (replicate (length (v_ty (of_values f))) False)" by (simp add: defined_upto_def)
  from verify_rows_ok [OF this, of "length (r_op (of_rows f))"]
  have rows: "verify_rows f [0..<length (r_op (of_rows f))] (replicate (length (v_ty (of_values f))) False) = Inr ()
    \<longleftrightarrow> (\<forall>i < length (r_op (of_rows f)). row_ok f i)" by simp
  have vals: "verify_values [0..<n] vs = Inr () \<longleftrightarrow> n \<le> length (v_secret vs) \<and> n \<le> length (v_ct vs) \<and> (\<forall>v < n. v_ct vs ! v \<noteq> CT_UNSPECIFIED)" for n vs
    unfolding verify_values_ok by (auto simp: not_le [symmetric])
  show ?thesis
  proof (cases "verify_values [0..<length (v_ty (of_values f))] (of_values f)")
    case (Inl e)
    with vals [of "length (v_ty (of_values f))" "of_values f"] show ?thesis
      by (auto simp: oir_verify_def verified_def Let_def)
  next
    case (Inr u)
    with vals [of "length (v_ty (of_values f))" "of_values f"] rows show ?thesis
      by (simp add: oir_verify_def verified_def Let_def)
  qed
qed

end
