(* ===== verification/Codegen_Select.thy ===== *)
theory Codegen_Select
  imports Codegen_Emit Oir_Laws
begin

text \<open>
  What \<^verbatim>\<open>select\<close> chooses: the prologue on the frame's size, one stencil per row of the function but for
  unit and string constants, and the terminator's stencil; and what the frame layout and the string
  table hold.
\<close>

section \<open>The frame\<close>

lemma frame_of_Some:
  assumes "frame_of f = Some fr"
  shows "unat (fr_size fr) \<le> MAX_FRAME" "16 dvd unat (fr_size fr)"
    "8 * (length (v_ty (of_values f)) + length (of_slots f)) \<le> unat (fr_size fr)"
    "unat (fr_values fr) = length (v_ty (of_values f))"
proof -
  let ?n = "length (v_ty (of_values f)) + length (of_slots f)"
  have small: "k \<le> 32 * 1024 \<Longrightarrow> unat (word_of_nat k :: u32) = k" for k by (simp add: unat_of_nat take_bit_nat_eq_self)
  have s: "(?n * 8 + 15) div 16 * 16 \<le> 32 * 1024" and fr: "fr_size fr = word_of_nat ((?n * 8 + 15) div 16 * 16)"
    "fr_values fr = word_of_nat (length (v_ty (of_values f)))"
    using assms by (auto simp: frame_of_def Let_def MAX_FRAME_def split: if_splits)
  have u: "unat (fr_size fr) = (?n * 8 + 15) div 16 * 16"
    unfolding fr(1) by (rule small) (rule s)
  have l: "?n * 8 \<le> (?n * 8 + 15) div 16 * 16" by linarith
  with s have "length (v_ty (of_values f)) < 2 ^ 32" by simp
  then show "unat (fr_values fr) = length (v_ty (of_values f))" by (simp add: fr(2) unat_of_nat take_bit_nat_eq_self)
  show "unat (fr_size fr) \<le> MAX_FRAME" "16 dvd unat (fr_size fr)" "8 * ?n \<le> unat (fr_size fr)"
    using s l by (simp_all add: u MAX_FRAME_def)
qed

lemma frame_value_unat: "frame_value fr v = Some x \<Longrightarrow> unat x = 8 * unat v"
  unfolding frame_value_def by (drule u32_mul_unat) simp

lemma frame_place_unat: "frame_place fr s = Some x \<Longrightarrow> unat x = 8 * (unat (fr_values fr) + unat s)"
  unfolding frame_place_def by (auto dest!: u32_mul_unat u32_add_unat split: Option.bind_splits)

section \<open>Pushing a row\<close>

lemma shows_from_snoc: "shows_from t lir k (its @ [it]) \<longleftrightarrow> shows_from t lir k its \<and> shows_item t lir (k + length its) it"
  by (induction its arbitrary: k) auto

lemma at_index_append: "at_index xs i = Some x \<Longrightarrow> at_index (xs @ ys) i = Some x"
  by (auto simp: at_index_def nth_append split: if_splits)

lemma shows_from_push:
  assumes "good_table t"
  shows "shows_from t lir k its \<Longrightarrow> shows_from t (lir_push st fill lit sm ct row at lir) k its"
proof (induction its arbitrary: k)
  case (Cons it its)
  obtain key fl l a where it: "it = (key, fl, l, a)" by (cases it) auto
  from Cons.prems have sh: "shows_item t lir k (key, fl, l, a)" "shows_from t lir (Suc k) its" by (simp_all add: it)
  obtain st' where "lir_stencil t lir k = Some st'" by (rule shows_stencil [OF assms sh(1)])
  then obtain id where id: "at_index (lr_stencil lir) k = Some id" by (auto simp: lir_stencil_def split: Option.bind_splits)
  with sh(1) have "table_id t key = Some id" by simp
  with sh(1) id have "shows_item t (lir_push st fill lit sm ct row at lir) k (key, fl, l, a)"
    by (simp add: lir_push_def at_index_append)
  with Cons.IH [OF sh(2)] show ?case by (simp add: it)
qed simp

lemma shows_items_push:
  assumes "good_table t" "shows_items t lir its" "table_id t key = Some st"
  shows "shows_items t (lir_push st fill lit sm ct row at lir) (its @ [(key, fill, lit, at)])"
proof -
  have "key \<in> set all_keys" using assms(1,3) unfolding good_table_def by blast
  moreover have "shows_from t (lir_push st fill lit sm ct row at lir) 0 its"
    using assms(2) by (intro shows_from_push [OF assms(1)]) (simp add: shows_items_def)
  ultimately show ?thesis
    using assms(2,3) by (simp add: shows_items_def shows_from_snoc lir_push_def at_index_def nth_append)
qed

section \<open>The rows\<close>

definition row_shows :: "OirFunc \<Rightarrow> Frame \<Rightarrow> u32 list \<Rightarrow> nat \<Rightarrow> item list \<Rightarrow> bool" where
  "row_shows f fr strs i its \<longleftrightarrow>
     key_of f i = Some None \<and> (r_op (of_rows f) ! i = O_ConstUnit \<or> r_op (of_rows f) ! i = O_ConstStr) \<and> its = []
     \<or> (\<exists>key fill lit. key_of f i = Some (Some key) \<and> row_fill f fr strs i = Some (Inr (fill, lit))
          \<and> its = [(key, fill, lit, r_site (of_rows f) ! i)])"

fun rows_show :: "OirFunc \<Rightarrow> Frame \<Rightarrow> u32 list \<Rightarrow> nat list \<Rightarrow> item list \<Rightarrow> bool" where
  "rows_show f fr strs [] its \<longleftrightarrow> its = []"
| "rows_show f fr strs (i # is) its \<longleftrightarrow> (\<exists>a b. its = a @ b \<and> row_shows f fr strs i a \<and> rows_show f fr strs is b)"

lemma select_row_Some:
  assumes "select_row t f fr strs i lir = Some (Inr lir')" "good_table t" "shows_items t lir its"
  obtains a where "row_shows f fr strs i a" "shows_items t lir' (its @ a)"
proof -
  from assms(1) obtain op dst key where s: "at_index (r_op (of_rows f)) i = Some op" "at_index (r_dst (of_rows f)) i = Some dst"
    "key_of f i = Some key"
    by (auto simp: select_row_def Let_def split: Option.bind_splits if_splits)
  show thesis
  proof (cases key)
    case None
    with assms(1) s have "op = O_ConstUnit \<or> op = O_ConstStr" "lir' = lir"
      by (auto simp: select_row_def Let_def split: Option.bind_splits if_splits)
    with s None assms(3) show thesis by (intro that [of "[]"]) (auto simp: row_shows_def at_index_def split: if_splits)
  next
    case (Some k)
    with assms(1) s obtain fill lit ct st at where r: "row_fill f fr strs i = Some (Inr (fill, lit))" "table_id t k = Some st"
      "at_index (r_site (of_rows f)) i = Some at" "lir' = lir_push st fill lit 0 ct (word_of_nat i) at lir"
      by (auto simp: select_row_def Let_def split: Option.bind_splits if_splits sum.splits)
    have "row_shows f fr strs i [(k, fill, lit, at)]"
      using s(3) Some r(1,3) by (auto simp: row_shows_def at_index_def split: if_splits)
    moreover have "shows_items t lir' (its @ [(k, fill, lit, at)])"
      unfolding r(4) by (rule shows_items_push [OF assms(2,3) r(2)])
    ultimately show thesis by (rule that)
  qed
qed

lemma select_rows_Some:
  assumes "select_rows t f fr strs is lir = Some (Inr lir')" "good_table t" "shows_items t lir its"
  shows "\<exists>b. rows_show f fr strs is b \<and> shows_items t lir' (its @ b)"
  using assms(1,3)
proof (induction "is" arbitrary: lir its)
  case (Cons i "is")
  from Cons.prems(1) obtain lir1 where r: "select_row t f fr strs i lir = Some (Inr lir1)" "select_rows t f fr strs is lir1 = Some (Inr lir')"
    by (auto split: Option.bind_splits sum.splits)
  obtain a where a: "row_shows f fr strs i a" "shows_items t lir1 (its @ a)"
    by (rule select_row_Some [OF r(1) assms(2) Cons.prems(2)])
  from Cons.IH [OF r(2) a(2)] a(1) show ?case by auto
qed auto

definition prologue_item :: "Frame \<Rightarrow> item" where
  "prologue_item fr = (K_Prologue, fill_default\<lparr>f_imm := [ucast (fr_size fr), 0, 0, 0]\<rparr>, NO_LIT, 0)"

definition term_item :: "OirFunc \<Rightarrow> item" where
  "term_item f = (term_key (of_term f), fill_default, NO_LIT, of_term_site f)"

lemma select_in_Some:
  assumes "select_in t f = Some (Inr lir)" "good_table t"
  obtains fr strs its where "frame_of f = Some fr"
    "str_table (of_rows f) [0..<length (r_op (of_rows f))] (replicate (length (v_ty (of_values f))) NONE) = Some strs"
    "rows_show f fr strs [0..<length (r_op (of_rows f))] its" "shows_items t lir (prologue_item fr # its @ [term_item f])"
proof -
  let ?rows = "[0..<length (r_op (of_rows f))]"
  from assms(1) obtain fr pro strs lir1 st where s: "frame_of f = Some fr" "table_id t K_Prologue = Some pro"
    "str_table (of_rows f) ?rows (replicate (length (v_ty (of_values f))) NONE) = Some strs"
    "select_rows t f fr strs ?rows (lir_push pro (fill_default\<lparr>f_imm := [ucast (fr_size fr), 0, 0, 0]\<rparr>) NO_LIT 0 0 (- 1) 0 lir_default)
      = Some (Inr lir1)"
    "table_id t (term_key (of_term f)) = Some st" "lir = lir_push st fill_default NO_LIT 0 0 (- 1) (of_term_site f) lir1"
    by (auto simp: select_in_def Let_def split: option.splits Option.bind_splits sum.splits)
  have "shows_items t lir_default []" by (simp add: shows_items_def lir_default_def)
  from select_rows_Some [OF s(4) assms(2) shows_items_push [OF assms(2) this s(2)]] obtain its where
    its: "rows_show f fr strs ?rows its" "shows_items t lir1 (prologue_item fr # its)" by (auto simp: prologue_item_def)
  have "shows_items t lir (prologue_item fr # its @ [term_item f])"
    using shows_items_push [OF assms(2) its(2) s(5)] by (simp add: s(6) term_item_def)
  with s(1,3) its(1) show thesis by (rule that)
qed

section \<open>The string table\<close>

lemma str_table_keeps:
  assumes "str_table r ks strs = Some strs'"
    and "\<forall>j \<in> set ks. r_op r ! j = O_ConstStr \<longrightarrow> r_dst r ! j \<noteq> NONE \<longrightarrow> unat (r_dst r ! j) \<noteq> d"
  shows "length strs' = length strs \<and> strs' ! d = strs ! d"
  using assms
proof (induction ks arbitrary: strs)
  case (Cons k ks)
  show ?case
  proof (cases "r_op r ! k = O_ConstStr \<and> r_dst r ! k \<noteq> NONE")
    case True
    with Cons.prems(1) have s: "str_table r ks (strs[unat (r_dst r ! k) := r_a r ! k]) = Some strs'"
      by (auto simp: at_index_def split: Option.bind_splits if_splits)
    have "unat (r_dst r ! k) \<noteq> d" using Cons.prems(2) True by simp
    with Cons.IH [OF s] Cons.prems(2) show ?thesis by simp
  next
    case False
    with Cons.prems(1) have "str_table r ks strs = Some strs'" by (auto simp: at_index_def split: Option.bind_splits if_splits)
    from Cons.IH [OF this] Cons.prems(2) show ?thesis by simp
  qed
qed simp

lemma str_table_Some:
  assumes "str_table r ks strs = Some strs'" "k \<in> set ks" "distinct ks" "r_op r ! k = O_ConstStr" "r_dst r ! k \<noteq> NONE"
    and "\<forall>j \<in> set ks. r_dst r ! j = r_dst r ! k \<longrightarrow> j = k"
  shows "strs' ! unat (r_dst r ! k) = r_a r ! k"
  using assms
proof (induction ks arbitrary: strs)
  case (Cons i ks)
  show ?case
  proof (cases "k \<in> set ks")
    case True
    from Cons.prems(1) obtain strs1 where "str_table r ks strs1 = Some strs'"
      by (auto split: Option.bind_splits if_splits)
    from Cons.IH [OF this True] Cons.prems(3-6) show ?thesis by simp
  next
    case False
    with Cons.prems have i: "i = k" by simp
    with Cons.prems(1,4,5) have s: "str_table r ks (strs[unat (r_dst r ! k) := r_a r ! k]) = Some strs'" "unat (r_dst r ! k) < length strs"
      by (auto simp: at_index_def split: Option.bind_splits if_splits)
    have "\<forall>j \<in> set ks. r_op r ! j = O_ConstStr \<longrightarrow> r_dst r ! j \<noteq> NONE \<longrightarrow> unat (r_dst r ! j) \<noteq> unat (r_dst r ! k)"
      using Cons.prems(6) False by (auto simp: word_unat_eq_iff)
    from str_table_keeps [OF s(1) this] s(2) show ?thesis by simp
  qed
qed simp

end
