(* ===== verification/Codegen_State.thy ===== *)
theory Codegen_State
  imports Oir_Sem Codegen_Run Codegen_Select
begin

text \<open>
  The machine state a compiled function keeps: the frame record and the code in memory, and in the frame
  one word for every value and place of the OIR function, in its canonical form.
\<close>

section \<open>Words of the frame\<close>

definition frame_word :: "mach \<Rightarrow> nat \<Rightarrow> u64" where
  "frame_word \<sigma> k = load64 (memory \<sigma>) (spr \<sigma> + word_of_nat (8 * k))"

declare of_nat_mult [simp del]

lemma unat_small [simp]: "n < 2 ^ 32 \<Longrightarrow> unat (word_of_nat n :: u64) = n"
  by (simp add: unat_of_nat take_bit_nat_eq_self)

lemma load64_cong: "(\<And>i. i < 8 \<Longrightarrow> m (a + word_of_nat i) = m' (a + word_of_nat i)) \<Longrightarrow> load64 m a = load64 m' a"
  unfolding load64_def by (intro foldr_cong) auto

lemma load_store_apart:
  assumes "i + 8 \<le> j \<or> j + 8 \<le> i" "i < 2 ^ 32" "j < 2 ^ 32"
  shows "load64 (store64 m (b + word_of_nat j) v) (b + word_of_nat i) = load64 m (b + word_of_nat i)"
proof -
  let ?d = "b + word_of_nat i - (b + word_of_nat j) :: u64"
  have "8 \<le> ?d \<and> ?d \<le> - 8"
  proof (cases "j < i")
    case True
    then have "?d = word_of_nat (i - j)" by (simp add: of_nat_diff)
    then have "unat ?d = i - j" using assms(2) by simp
    then have "8 \<le> unat ?d" "unat ?d \<le> 2 ^ 64 - 8" using True assms by auto
    then show ?thesis by (simp add: word_le_nat_alt)
  next
    case False
    then have "?d = word_of_nat (2 ^ 64 - (j - i))" using assms by (simp add: of_nat_diff)
    moreover have "unat (word_of_nat (2 ^ 64 - (j - i)) :: u64) = 2 ^ 64 - (j - i)"
      unfolding unat_of_nat by (rule mod_less) (use False assms in simp)
    ultimately have "unat ?d = 2 ^ 64 - (j - i)" by simp
    then have "8 \<le> unat ?d" "unat ?d \<le> 2 ^ 64 - 8" using False assms by auto
    then show ?thesis by (simp add: word_le_nat_alt)
  qed
  then show ?thesis by (simp add: load64_store64_other)
qed

lemma load_store_word:
  assumes "j < 2 ^ 20" "k < 2 ^ 20"
  shows "load64 (store64 m (b + word_of_nat (8 * j)) v) (b + word_of_nat (8 * k)) = (if k = j then v else load64 m (b + word_of_nat (8 * k)))"
proof (cases "k = j")
  case False
  then have "8 * k + 8 \<le> 8 * j \<or> 8 * j + 8 \<le> 8 * k" by linarith
  with False load_store_apart [OF this] assms show ?thesis by simp
qed (simp add: load64_store64)

lemma unat_add_le: "unat (a + b) \<le> unat a + unat b" for a b :: u64
  by (metis mod_less_eq_dividend unat_word_ariths(1))

lemma offset_inside:
  fixes a b :: u64
  assumes "unat (a - (b + word_of_nat k)) < n" "k + n \<le> l" "l < 2 ^ 32"
  shows "unat (a - b) < l"
proof -
  have "unat (a - b) \<le> unat (a - (b + word_of_nat k)) + unat (word_of_nat k :: u64)"
    using unat_add_le [of "a - (b + word_of_nat k)" "word_of_nat k"] by simp
  with assms show ?thesis by simp
qed

lemma store_outside: "\<not> unat (a - b) < l \<Longrightarrow> 8 * k + 8 \<le> l \<Longrightarrow> l < 2 ^ 32 \<Longrightarrow> store64 m (b + word_of_nat (8 * k)) v a = m a"
  using offset_inside [of a b "8 * k" 8 l] by (auto simp: store64_def word_less_nat_alt)

lemma frame_word_keep:
  assumes "\<And>a. unat (a - spr \<sigma>) < l \<Longrightarrow> memory \<sigma>' a = memory \<sigma> a" "spr \<sigma>' = spr \<sigma>" "8 * k + 8 \<le> l" "l < 2 ^ 32"
  shows "frame_word \<sigma>' k = frame_word \<sigma> k"
  unfolding frame_word_def assms(2)
proof (rule load64_cong)
  fix i :: nat
  assume i: "i < 8"
  have "unat (word_of_nat (8 * k) + word_of_nat i :: u64) < l"
    using i assms(3,4) unat_add_le [of "word_of_nat (8 * k)" "word_of_nat i"] by simp
  then show "memory \<sigma>' (spr \<sigma> + word_of_nat (8 * k) + word_of_nat i) = memory \<sigma> (spr \<sigma> + word_of_nat (8 * k) + word_of_nat i)"
    by (intro assms(1)) (simp add: algebra_simps)
qed

lemma slot_word_frame:
  assumes "unat off = 8 * k"
  shows "slot_word off \<sigma> = frame_word \<sigma> k" "slot_at \<sigma> off = spr \<sigma> + word_of_nat (8 * k)"
  unfolding slot_word_def frame_word_def slot_at_def assms [symmetric] of_nat_unat by (rule refl)+

section \<open>The frame record and the code\<close>

definition code_loaded :: "u8 list \<Rightarrow> mach \<Rightarrow> bool" where
  "code_loaded code \<sigma> \<longleftrightarrow> (\<forall>i < length code. memory \<sigma> (code_base \<sigma> + word_of_nat i) = code ! i)"

text \<open>The stack the function uses, \<open>fsz\<close> bytes of frame below the frame record, holds no code.\<close>

definition stack_apart :: "nat \<Rightarrow> u8 list \<Rightarrow> mach \<Rightarrow> bool" where
  "stack_apart fsz code \<sigma>0 \<longleftrightarrow>
     (\<forall>i < length code. fsz + 16 \<le> unat (code_base \<sigma>0 + word_of_nat i - (spr \<sigma>0 - 16 - word_of_nat fsz)))"

definition framed :: "nat \<Rightarrow> u8 list \<Rightarrow> mach \<Rightarrow> mach \<Rightarrow> bool" where
  "framed fsz code \<sigma>0 \<sigma> \<longleftrightarrow> code_base \<sigma> = code_base \<sigma>0 \<and> spr \<sigma> = spr \<sigma>0 - 16 - word_of_nat fsz \<and> xregs \<sigma> 29 = spr \<sigma>0 - 16
     \<and> frame_word \<sigma> (fsz div 8) = xregs \<sigma>0 29 \<and> frame_word \<sigma> (fsz div 8 + 1) = xregs \<sigma>0 30 \<and> code_loaded code \<sigma>"

definition frame_size :: "nat \<Rightarrow> bool" where
  "frame_size fsz \<longleftrightarrow> fsz \<le> MAX_FRAME \<and> 16 dvd fsz"

lemma frame_size_bounds: "frame_size fsz \<Longrightarrow> k < fsz div 8 + 2 \<Longrightarrow> 8 * k + 8 \<le> fsz + 16 \<and> k < 2 ^ 20 \<and> fsz + 16 < 2 ^ 32"
  by (fastforce simp: frame_size_def MAX_FRAME_def elim: dvdE)

lemma framed_keep:
  assumes "framed fsz code \<sigma>0 \<sigma>" "frame_size fsz" "spr \<sigma>' = spr \<sigma>" "code_base \<sigma>' = code_base \<sigma>" "xregs \<sigma>' 29 = xregs \<sigma> 29"
    and m: "\<And>a. unat (a - spr \<sigma>) < fsz + 16 \<Longrightarrow> memory \<sigma>' a = memory \<sigma> a"
      "\<And>i. i < length code \<Longrightarrow> memory \<sigma>' (code_base \<sigma> + word_of_nat i) = memory \<sigma> (code_base \<sigma> + word_of_nat i)"
  shows "framed fsz code \<sigma>0 \<sigma>'" "\<And>k. k < fsz div 8 + 2 \<Longrightarrow> frame_word \<sigma>' k = frame_word \<sigma> k"
proof -
  show w: "frame_word \<sigma>' k = frame_word \<sigma> k" if "k < fsz div 8 + 2" for k
    using frame_size_bounds [OF assms(2) that] by (intro frame_word_keep [of _ "fsz + 16", OF m(1) assms(3)]) linarith+
  show "framed fsz code \<sigma>0 \<sigma>'"
    using assms(1,3-5) m(2) w [of "fsz div 8"] w [of "fsz div 8 + 1"] by (auto simp: framed_def code_loaded_def)
qed

lemma framed_store:
  assumes f: "framed fsz code \<sigma>0 \<sigma>" "frame_size fsz" "stack_apart fsz code \<sigma>0" and k: "k < fsz div 8"
    and s: "same (\<sigma>\<lparr>memory := store64 (memory \<sigma>) (spr \<sigma> + word_of_nat (8 * k)) w\<rparr>) \<sigma>'"
  shows "framed fsz code \<sigma>0 \<sigma>'" "\<And>j. j < 2 ^ 20 \<Longrightarrow> frame_word \<sigma>' j = (if j = k then w else frame_word \<sigma> j)"
proof -
  note b = frame_size_bounds [OF f(2)]
  have k': "k < 2 ^ 20" "8 * k + 8 \<le> fsz + 16" "fsz + 16 < 2 ^ 32" using b [of k] k by simp_all
  have s': "spr \<sigma>' = spr \<sigma>" "code_base \<sigma>' = code_base \<sigma>" "xregs \<sigma>' 29 = xregs \<sigma> 29"
    "memory \<sigma>' = store64 (memory \<sigma>) (spr \<sigma> + word_of_nat (8 * k)) w"
    using s by (simp_all add: same_def)
  show w: "frame_word \<sigma>' j = (if j = k then w else frame_word \<sigma> j)" if "j < 2 ^ 20" for j
    unfolding frame_word_def s' by (rule load_store_word [OF k'(1) that])
  have "code_loaded code \<sigma>'"
    using f(1,3) k'(2,3) unfolding code_loaded_def stack_apart_def framed_def s'
    by (auto simp: store_outside [of _ _ "fsz + 16"] not_less)
  with f(1) s' w [of "fsz div 8"] w [of "fsz div 8 + 1"] b [of "fsz div 8"] b [of "fsz div 8 + 1"] k
  show "framed fsz code \<sigma>0 \<sigma>'" by (simp add: framed_def)
qed

section \<open>Values and places\<close>

definition low_word :: "LowTy \<Rightarrow> u64 \<Rightarrow> u64" where
  "low_word ty x = (case int_ty_of ty of Some t \<Rightarrow> canonical x t | None \<Rightarrow> x)"

definition fits_low :: "LowTy \<Rightarrow> u64 \<Rightarrow> bool" where
  "fits_low ty x \<longleftrightarrow> (case int_ty_of ty of Some t \<Rightarrow> raw_ok x t | None \<Rightarrow> ty = Low_Bool \<and> x \<le> 1)"

definition holds_at :: "mach \<Rightarrow> nat \<Rightarrow> LowTy \<Rightarrow> u64 \<Rightarrow> bool" where
  "holds_at \<sigma> k ty x \<longleftrightarrow> fits_low ty x \<and> frame_word \<sigma> k = low_word ty x"

definition place_index :: "OirFunc \<Rightarrow> u32 \<Rightarrow> nat" where
  "place_index f p = length (v_ty (of_values f)) + unat p"

definition valued :: "OirFunc \<Rightarrow> u32 list \<Rightarrow> ostate \<Rightarrow> mach \<Rightarrow> bool" where
  "valued f strs s \<sigma> \<longleftrightarrow>
     (\<forall>v x. os_vals s v = Some (Bits x) \<longrightarrow> (\<exists>ty. type_at f v = Some ty \<and> holds_at \<sigma> (unat v) ty x))
     \<and> (\<forall>v k. os_vals s v = Some (Text k) \<longrightarrow> strs ! unat v = k)
     \<and> (\<forall>p x. os_places s p = Some x \<longrightarrow> (\<exists>sl. at_index (of_slots f) (unat p) = Some sl \<and> holds_at \<sigma> (place_index f p) (sl_ty sl) x))"

lemma valuedD:
  assumes "valued f strs s \<sigma>"
  shows "os_vals s v = Some (Bits x) \<Longrightarrow> \<exists>ty. type_at f v = Some ty \<and> holds_at \<sigma> (unat v) ty x"
    and "os_vals s v = Some (Text k) \<Longrightarrow> strs ! unat v = k"
    and "os_places s p = Some x \<Longrightarrow> \<exists>sl. at_index (of_slots f) (unat p) = Some sl \<and> holds_at \<sigma> (place_index f p) (sl_ty sl) x"
  using assms unfolding valued_def by blast+

definition frame_fits :: "OirFunc \<Rightarrow> nat \<Rightarrow> bool" where
  "frame_fits f fsz \<longleftrightarrow> length (v_ty (of_values f)) + length (of_slots f) \<le> fsz div 8"

lemma value_inside: "frame_fits f fsz \<Longrightarrow> type_at f v = Some ty \<Longrightarrow> unat v < fsz div 8 \<and> unat v < length (v_ty (of_values f))"
  by (auto simp: frame_fits_def type_at_def at_index_def split: if_splits)

lemma place_inside: "frame_fits f fsz \<Longrightarrow> at_index (of_slots f) (unat p) = Some sl \<Longrightarrow> place_index f p < fsz div 8"
  by (auto simp: frame_fits_def place_index_def at_index_def split: if_splits)

lemma valued_keep:
  assumes "valued f strs s \<sigma>" "frame_fits f fsz" "\<And>k. k < fsz div 8 + 2 \<Longrightarrow> frame_word \<sigma>' k = frame_word \<sigma> k"
  shows "valued f strs s \<sigma>'"
  unfolding valued_def
proof (intro conjI allI impI)
  fix v x
  assume "os_vals s v = Some (Bits x)"
  with assms(1) obtain ty where t: "type_at f v = Some ty" "holds_at \<sigma> (unat v) ty x" unfolding valued_def by blast
  with value_inside [OF assms(2) t(1)] assms(3) [of "unat v"] show "\<exists>ty. type_at f v = Some ty \<and> holds_at \<sigma>' (unat v) ty x"
    by (simp add: holds_at_def)
next
  fix v k
  assume "os_vals s v = Some (Text k)"
  with assms(1) show "strs ! unat v = k" unfolding valued_def by blast
next
  fix p x
  assume "os_places s p = Some x"
  with assms(1) obtain sl where t: "at_index (of_slots f) (unat p) = Some sl" "holds_at \<sigma> (place_index f p) (sl_ty sl) x"
    unfolding valued_def by blast
  with place_inside [OF assms(2) t(1)] assms(3) [of "place_index f p"]
  show "\<exists>sl. at_index (of_slots f) (unat p) = Some sl \<and> holds_at \<sigma>' (place_index f p) (sl_ty sl) x" by (simp add: holds_at_def)
qed

lemma valued_store:
  assumes v: "valued f strs s \<sigma>" "frame_fits f fsz" "frame_size fsz"
    and w: "\<And>j. j < 2 ^ 20 \<Longrightarrow> frame_word \<sigma>' j = (if j = k then low_word ty x else frame_word \<sigma> j)"
    and s': "\<And>u. os_vals s' u = (if Some u = d then Some (Bits x) else os_vals s u)"
      "\<And>q. os_places s' q = (if Some q = p then Some x else os_places s q)"
    and x: "fits_low ty x" "k < 2 ^ 20"
    and d: "\<And>u. d = Some u \<Longrightarrow> k = unat u \<and> type_at f u = Some ty"
      "\<And>q. p = Some q \<Longrightarrow> k = place_index f q \<and> (\<exists>sl. at_index (of_slots f) (unat q) = Some sl \<and> sl_ty sl = ty)"
      "d = None \<longleftrightarrow> p \<noteq> None"
  shows "valued f strs s' \<sigma>'"
  unfolding valued_def
proof (intro conjI allI impI)
  have b: "j < 2 ^ 20" if "j < fsz div 8" for j using frame_size_bounds [OF v(3), of j] that by simp
  fix u y
  assume u: "os_vals s' u = Some (Bits y)"
  show "\<exists>ty. type_at f u = Some ty \<and> holds_at \<sigma>' (unat u) ty y"
  proof (cases "Some u = d")
    case True
    with d(1) [of u] u s'(1) [of u] w [of k] x show ?thesis by (auto simp: holds_at_def)
  next
    case False
    with u s'(1) [of u] obtain t where t: "type_at f u = Some t" "holds_at \<sigma> (unat u) t y" using valuedD(1) [OF v(1)] by metis
    note i = value_inside [OF v(2) t(1)]
    have "unat u \<noteq> k"
    proof (cases d)
      case None
      with d(2,3) i show ?thesis by (auto simp: place_index_def)
    next
      case (Some u')
      with False d(1) [of u'] show ?thesis by (auto simp: word_unat_eq_iff)
    qed
    with t w [OF b [OF conjunct1 [OF i]]] show ?thesis by (simp add: holds_at_def)
  qed
next
  fix u k'
  assume "os_vals s' u = Some (Text k')"
  with s'(1) [of u] have "os_vals s u = Some (Text k')" by (simp split: if_splits)
  from valuedD(2) [OF v(1) this] show "strs ! unat u = k'" .
next
  have b: "j < 2 ^ 20" if "j < fsz div 8" for j using frame_size_bounds [OF v(3), of j] that by simp
  fix q y
  assume q: "os_places s' q = Some y"
  show "\<exists>sl. at_index (of_slots f) (unat q) = Some sl \<and> holds_at \<sigma>' (place_index f q) (sl_ty sl) y"
  proof (cases "Some q = p")
    case True
    with d(2) [of q] q s'(2) [of q] w [of k] x show ?thesis by (auto simp: holds_at_def)
  next
    case False
    with q s'(2) [of q] obtain sl where t: "at_index (of_slots f) (unat q) = Some sl" "holds_at \<sigma> (place_index f q) (sl_ty sl) y"
      using valuedD(3) [OF v(1)] by metis
    have "place_index f q \<noteq> k"
    proof (cases p)
      case None
      with d(1,3) obtain u where "d = Some u" "k = unat u" "type_at f u = Some ty" by blast
      with value_inside [OF v(2) this(3)] show ?thesis by (simp add: place_index_def)
    next
      case (Some q')
      with False d(2) [of q'] show ?thesis by (auto simp: word_unat_eq_iff place_index_def)
    qed
    with t w [OF b [OF place_inside [OF v(2) t(1)]]] show ?thesis by (auto simp: holds_at_def)
  qed
qed

section \<open>The runtime\<close>

text \<open>What the code relies on from a runtime routine, the calling convention: it returns with the stack and
  frame pointers it was called with, and changes neither the caller's frame nor the code.\<close>

definition runtime_keeps :: "(string \<Rightarrow> mach \<Rightarrow> mach) \<Rightarrow> nat \<Rightarrow> u8 list \<Rightarrow> bool" where
  "runtime_keeps rt fsz code \<longleftrightarrow> (\<forall>target \<sigma>. spr (rt target \<sigma>) = spr \<sigma> \<and> xregs (rt target \<sigma>) 29 = xregs \<sigma> 29
     \<and> code_base (rt target \<sigma>) = code_base \<sigma>
     \<and> (\<forall>a. unat (a - spr \<sigma>) < fsz + 16 \<or> unat (a - code_base \<sigma>) < length code \<longrightarrow> memory (rt target \<sigma>) a = memory \<sigma> a))"

definition tracks :: "OirFunc \<Rightarrow> u32 list \<Rightarrow> nat \<Rightarrow> u8 list \<Rightarrow> mach \<Rightarrow> ostate \<Rightarrow> mach \<Rightarrow> bool" where
  "tracks f strs fsz code \<sigma>0 s \<sigma> \<longleftrightarrow> framed fsz code \<sigma>0 \<sigma> \<and> valued f strs s \<sigma>"

lemma tracks_same:
  assumes "tracks f strs fsz code \<sigma>0 s \<sigma>" "same \<sigma> \<sigma>'"
  shows "tracks f strs fsz code \<sigma>0 s \<sigma>'"
proof -
  have w: "frame_word \<sigma>' k = frame_word \<sigma> k" for k using assms(2) by (simp add: frame_word_def same_def)
  then have "framed fsz code \<sigma>0 \<sigma>'" "valued f strs s \<sigma>'"
    using assms by (auto simp: tracks_def framed_def same_def code_loaded_def) (simp add: valued_def holds_at_def)
  then show ?thesis by (simp add: tracks_def)
qed

lemma tracks_call:
  assumes "tracks f strs fsz code \<sigma>0 s \<sigma>" "frame_size fsz" "frame_fits f fsz" "runtime_keeps rt fsz code" "length code < 2 ^ 32"
  shows "tracks f strs fsz code \<sigma>0 s (rt target \<sigma>)"
proof -
  have r: "spr (rt target \<sigma>) = spr \<sigma>" "xregs (rt target \<sigma>) 29 = xregs \<sigma> 29" "code_base (rt target \<sigma>) = code_base \<sigma>"
    "unat (a - spr \<sigma>) < fsz + 16 \<Longrightarrow> memory (rt target \<sigma>) a = memory \<sigma> a"
    "unat (a - code_base \<sigma>) < length code \<Longrightarrow> memory (rt target \<sigma>) a = memory \<sigma> a" for a
    using assms(4) unfolding runtime_keeps_def by blast+
  have "framed fsz code \<sigma>0 \<sigma>" "valued f strs s \<sigma>" using assms(1) by (simp_all add: tracks_def)
  note k = framed_keep [OF this(1) assms(2) r(1,3,2,4)]
  have c: "memory (rt target \<sigma>) (code_base \<sigma> + word_of_nat i) = memory \<sigma> (code_base \<sigma> + word_of_nat i)" if "i < length code" for i
    using that assms(5) by (intro r(5)) simp
  from k c valued_keep [OF \<open>valued f strs s \<sigma>\<close> assms(3)] show ?thesis by (simp add: tracks_def)
qed

end
