(* ===== verification/Codegen_Rows.thy ===== *)
theory Codegen_Rows
  imports Codegen_State
begin

text \<open>
  One row: the stencil selected for a row, on the fill selected for it, stores the canonical word of what
  the row evaluates to, or leaves for the trap the row raises.
\<close>

section \<open>The parts of a row\<close>

lemma verified_columns:
  assumes "verified f" "i < length (r_op (of_rows f))"
  shows "at_index (r_op (of_rows f)) i = Some (r_op (of_rows f) ! i)" "at_index (r_a (of_rows f)) i = Some (r_a (of_rows f) ! i)"
    "at_index (r_b (of_rows f)) i = Some (r_b (of_rows f) ! i)" "at_index (r_ty (of_rows f)) i = Some (r_ty (of_rows f) ! i)"
    "at_index (r_mode (of_rows f)) i = Some (r_mode (of_rows f) ! i)" "at_index (r_dst (of_rows f)) i = Some (r_dst (of_rows f) ! i)"
    "at_index (r_site (of_rows f)) i = Some (r_site (of_rows f) ! i)"
  using assms by (simp_all add: verified_def ragged_def Let_def at_index_def)

lemma verified_dst:
  assumes "verified f" "i < length (r_op (of_rows f))" "r_ty (of_rows f) ! i \<noteq> Low_Unit"
  shows "r_dst (of_rows f) ! i \<noteq> NONE" "type_at f (r_dst (of_rows f) ! i) = Some (r_ty (of_rows f) ! i)"
  using assms by (auto simp: verified_def row_ok_def Let_def type_at_def at_index_def split: if_splits)

lemma operand_word:
  assumes "valued f strs s \<sigma>" "bits_as f s ty v = Some x" "unat off = 8 * unat v"
  shows "fits_low ty x" "slot_word off \<sigma> = low_word ty x"
  using assms valuedD(1) [OF assms(1), of v x]
  by (auto simp: bits_as_def holds_at_def slot_word_frame split: if_splits option.splits OVal.splits)

lemma operand_int:
  assumes "valued f strs s \<sigma>" "bits_as f s ty v = Some x" "unat off = 8 * unat v" "int_ty_of ty = Some t"
  shows "raw_ok x t" "slot_word off \<sigma> = canonical x t"
  using operand_word [OF assms(1-3)] assms(4) by (simp_all add: fits_low_def low_word_def)

lemma operand_bool:
  assumes "valued f strs s \<sigma>" "bits_as f s Low_Bool v = Some x" "unat off = 8 * unat v"
  shows "x \<le> 1" "slot_word off \<sigma> = x"
  using operand_word [OF assms(1-3)] by (simp_all add: fits_low_def low_word_def)

lemma operand_index:
  assumes "bits_as f s ty v = Some x" "frame_fits f fsz" "frame_size fsz"
  shows "v \<noteq> NONE" "type_at f v = Some ty"
proof -
  show t: "type_at f v = Some ty" using assms(1) by (simp add: bits_as_def split: if_splits)
  have "unat v < 2 ^ 20"
    using value_inside [OF assms(2) t] frame_size_bounds [OF assms(3), of "unat v"] by simp
  moreover have "\<not> unat NONE < 2 ^ 20" by (simp add: NONE_def unsigned_minus_1_eq_mask mask_eq_exp_minus_1)
  ultimately show "v \<noteq> NONE" by metis
qed

text \<open>The fill of an operation on slots.\<close>

definition plain_row :: "OirOp \<Rightarrow> bool" where
  "plain_row op \<longleftrightarrow> op \<notin> {O_ConstInt, O_ConstBool, O_SlotLoad, O_SlotStore, O_WriteUint, O_WriteLine}"

lemma row_fill_plain:
  assumes "row_fill f fr strs i = Some (Inr (fill, lit))" "plain_row (r_op (of_rows f) ! i)" "verified f" "i < length (r_op (of_rows f))"
  shows "lit = NO_LIT" "unat (slot_a fill) = 8 * unat (r_a (of_rows f) ! i)"
    "r_b (of_rows f) ! i \<noteq> NONE \<Longrightarrow> unat (slot_b fill) = 8 * unat (r_b (of_rows f) ! i)"
    "r_dst (of_rows f) ! i \<noteq> NONE \<Longrightarrow> unat (slot_dst fill) = 8 * unat (r_dst (of_rows f) ! i)"
proof -
  note c = verified_columns [OF assms(3,4)]
  from assms(1,2) obtain va vb vd where v: "frame_value fr (r_a (of_rows f) ! i) = Some va"
    "r_b (of_rows f) ! i \<noteq> NONE \<longrightarrow> frame_value fr (r_b (of_rows f) ! i) = Some vb"
    "r_dst (of_rows f) ! i \<noteq> NONE \<longrightarrow> frame_value fr (r_dst (of_rows f) ! i) = Some vd"
    "lit = NO_LIT" "slot_a fill = va" "slot_b fill = (if r_b (of_rows f) ! i \<noteq> NONE then vb else slot_b fill_default)"
    "slot_dst fill = (if r_dst (of_rows f) ! i \<noteq> NONE then vd else slot_dst fill_default)"
    by (cases "r_op (of_rows f) ! i")
      (fastforce simp: row_fill_def c plain_row_def Let_def split: Option.bind_splits if_splits)+
  show "lit = NO_LIT" by (rule v(4))
  show "unat (slot_a fill) = 8 * unat (r_a (of_rows f) ! i)"
    "r_b (of_rows f) ! i \<noteq> NONE \<Longrightarrow> unat (slot_b fill) = 8 * unat (r_b (of_rows f) ! i)"
    "r_dst (of_rows f) ! i \<noteq> NONE \<Longrightarrow> unat (slot_dst fill) = 8 * unat (r_dst (of_rows f) ! i)"
    using v frame_value_unat by auto
qed

section \<open>Results\<close>

definition word_res :: "LowTy \<Rightarrow> (TrapKind, OVal) result \<Rightarrow> (TrapKind, u64) result" where
  "word_res ty res = map_sum id (\<lambda>v. case v of Bits x \<Rightarrow> low_word ty x | _ \<Rightarrow> 0) res"

definition fits_res :: "LowTy \<Rightarrow> (TrapKind, OVal) result \<Rightarrow> bool" where
  "fits_res ty res \<longleftrightarrow> (\<forall>v. res = Inr v \<longrightarrow> (\<exists>x. v = Bits x \<and> fits_low ty x))"

lemma word_res_int: "int_ty_of ty = Some t \<Longrightarrow> word_res ty (map_sum id Bits res) = canonically t res"
  by (cases res) (simp_all add: word_res_def low_word_def canonically_def)

lemma word_res_Bits [simp]: "word_res ty (Inr (Bits x)) = Inr (low_word ty x)" "word_res ty (Inl k) = Inl k"
  by (simp_all add: word_res_def)

lemma raw_repr [simp]: "raw_ok (repr (kind_of t) v) t"
  using ty_width_bounds [of t] by (simp add: raw_ok_def repr_def take_bit_word_beyond_length_eq flip: take_bit_of_int)

lemma fits_res_int:
  assumes "int_ty_of ty = Some t" "\<And>r. res = Inr r \<Longrightarrow> raw_ok r t"
  shows "fits_res ty (map_sum id Bits res)"
  using assms by (cases res) (simp_all add: fits_res_def fits_low_def)

lemma raw_results:
  "int_binop name m x y (kind_of t) = Inr r \<Longrightarrow> raw_ok r t" "int_neg m x (kind_of t) = Inr r \<Longrightarrow> raw_ok r t"
  "conv_checked_int x k (kind_of t) = Inr r \<Longrightarrow> raw_ok r t" "raw_ok (conv_wrap_int x k (kind_of t)) t"
  "raw_ok (conv_sat_int x k (kind_of t)) t" "raw_ok (narrow (kind_of t) w) t"
proof -
  have "bindR e (\<lambda>r. Inr (repr (kind_of t) r)) = Inr r \<Longrightarrow> raw_ok r t" for e :: "(TrapKind, int) result"
    by (cases e) auto
  then show "int_binop name m x y (kind_of t) = Inr r \<Longrightarrow> raw_ok r t" "int_neg m x (kind_of t) = Inr r \<Longrightarrow> raw_ok r t"
    by (auto simp: int_binop_spec int_neg_eq split: if_splits)
qed (auto simp: conv_checked_eq conv_wrap_eq conv_sat_eq narrow_repr split: if_splits)

lemma mode_ar: "mode_sem m = Some am \<Longrightarrow> ar m = Some mode \<Longrightarrow> mode_of mode = am"
  by (cases m) auto

lemma low_kind_Some: "low_kind ty = Some k \<longleftrightarrow> (\<exists>t. int_ty_of ty = Some t \<and> k = kind_of t)"
  by (auto simp: low_kind_def)

lemma int_not_unit: "int_ty_of ty = Some t \<Longrightarrow> ty \<noteq> Low_Unit"
  by auto

section \<open>Evaluating a row\<close>

text \<open>What the row's stencil does, on a fill with the row's slots and immediates.\<close>

definition refills :: "Fill \<Rightarrow> Fill \<Rightarrow> bool" where
  "refills fill g \<longleftrightarrow> slot_a g = slot_a fill \<and> slot_b g = slot_b fill \<and> slot_dst g = slot_dst fill \<and> f_imm g = f_imm fill"

definition row_done :: "OirFunc \<Rightarrow> nat \<Rightarrow> Key \<Rightarrow> Fill \<Rightarrow> mach \<Rightarrow> (TrapKind, OVal) result \<Rightarrow> bool" where
  "row_done f i key g \<sigma> res \<longleftrightarrow> (let r = of_rows f; ty = r_ty r ! i; d = r_dst r ! i
     in d \<noteq> NONE \<and> type_at f d = Some ty \<and> unat (slot_dst g) = 8 * unat d \<and> fits_res ty res
        \<and> wp g (body key) (stores g (word_res ty res) \<sigma>) \<sigma>)"

fun bin_of :: "OirOp \<Rightarrow> BinOp option" where
  "bin_of O_Add = Some B_Add" | "bin_of O_Sub = Some B_Sub" | "bin_of O_Mul = Some B_Mul"
| "bin_of O_Div = Some B_Div" | "bin_of O_Rem = Some B_Rem" | "bin_of _ = None"

fun shift_of :: "OirOp \<Rightarrow> ShiftOp option" where
  "shift_of O_Shl = Some S_Shl" | "shift_of O_Shr = Some S_Shr" | "shift_of _ = None"

fun logic_of :: "OirOp \<Rightarrow> LogicOp option" where
  "logic_of O_And = Some L_And" | "logic_of O_Or = Some L_Or" | "logic_of O_Xor = Some L_Xor" | "logic_of _ = None"

fun conv_of :: "OirOp \<Rightarrow> ConvOp option" where
  "conv_of O_ConvChecked = Some C_Checked" | "conv_of O_ConvWrap = Some C_Wrap" | "conv_of O_ConvSat = Some C_Sat"
| "conv_of _ = None"

lemma row_bin:
  assumes v: "verified f" "i < length (r_op (of_rows f))" "valued f strs s \<sigma>" "frame_fits f fsz" "frame_size fsz"
    and op: "bin_of (r_op (of_rows f) ! i) = Some bop" and e: "oir_eval f i s = Some res"
    and k: "key_of f i = Some (Some key)" "row_fill f fr strs i = Some (Inr (fill, lit))" and g: "refills fill g"
  shows "lit = NO_LIT" "row_done f i key g \<sigma> res"
proof -
  let ?r = "of_rows f"
  note c = verified_columns [OF v(1,2)]
  have plain: "plain_row (r_op ?r ! i)" using op by (cases "r_op ?r ! i") (simp_all add: plain_row_def)
  note fill = row_fill_plain [OF k(2) plain v(1,2)]
  from fill(1) show "lit = NO_LIT" .
  from e op obtain m t x y where s: "mode_sem (r_mode ?r ! i) = Some m" "int_ty_of (r_ty ?r ! i) = Some t"
    "bits_as f s (r_ty ?r ! i) (r_a ?r ! i) = Some x" "bits_as f s (r_ty ?r ! i) (r_b ?r ! i) = Some y"
    "res = map_sum id Bits (int_binop (op_name bop) m x y (kind_of t))"
    by (cases "r_op ?r ! i") (auto simp: oir_eval_def Let_def low_kind_Some split: Option.bind_splits)
  from k(1) op s(2) obtain mode where mode: "ar (r_mode ?r ! i) = Some mode" "key = K_Bin bop mode t"
    by (cases "r_op ?r ! i") (auto simp: key_of_def c Let_def split: Option.bind_splits)
  have m: "mode_of mode = m" by (rule mode_ar [OF s(1) mode(1)])
  have d: "r_dst ?r ! i \<noteq> NONE" "type_at f (r_dst ?r ! i) = Some (r_ty ?r ! i)"
    by (rule verified_dst [OF v(1,2) int_not_unit [OF s(2)]])+
  have off: "unat (slot_a g) = 8 * unat (r_a ?r ! i)" "unat (slot_b g) = 8 * unat (r_b ?r ! i)" "unat (slot_dst g) = 8 * unat (r_dst ?r ! i)"
    using fill g d(1) operand_index(1) [OF s(4) v(4,5)] by (simp_all add: refills_def)
  have "holds_a g x t \<sigma>" "holds_b g y t \<sigma>"
    using operand_int(2) [OF v(3) s(3) off(1) s(2)] operand_int(2) [OF v(3) s(4) off(2) s(2)] by (simp_all add: holds_a_def holds_b_def)
  from body_bin [OF this, of bop mode] d off(3) show "row_done f i key g \<sigma> res"
    by (auto simp: row_done_def Let_def s(5) word_res_int [OF s(2)] mode(2) m intro!: fits_res_int [OF s(2)] raw_results(1))
qed

lemma row_shift:
  assumes v: "verified f" "i < length (r_op (of_rows f))" "valued f strs s \<sigma>" "frame_fits f fsz" "frame_size fsz"
    and op: "shift_of (r_op (of_rows f) ! i) = Some sop" and e: "oir_eval f i s = Some res"
    and k: "key_of f i = Some (Some key)" "row_fill f fr strs i = Some (Inr (fill, lit))" and g: "refills fill g"
  shows "lit = NO_LIT" "row_done f i key g \<sigma> res"
proof -
  let ?r = "of_rows f"
  note c = verified_columns [OF v(1,2)]
  have plain: "plain_row (r_op ?r ! i)" using op by (cases "r_op ?r ! i") (simp_all add: plain_row_def)
  note fill = row_fill_plain [OF k(2) plain v(1,2)]
  from fill(1) show "lit = NO_LIT" .
  from e op obtain m t x bt ct y where s: "mode_sem (r_mode ?r ! i) = Some m" "int_ty_of (r_ty ?r ! i) = Some t"
    "bits_as f s (r_ty ?r ! i) (r_a ?r ! i) = Some x" "type_at f (r_b ?r ! i) = Some bt" "int_ty_of bt = Some ct"
    "bits_as f s bt (r_b ?r ! i) = Some y" "res = map_sum id Bits (int_binop (shift_name sop) m x y (kind_of t))"
    by (cases "r_op ?r ! i") (auto simp: oir_eval_def Let_def low_kind_Some split: Option.bind_splits)
  from k(1) op s(2,4,5) obtain mode where mode: "ar (r_mode ?r ! i) = Some mode" "key = K_Shift sop mode t (raw_ext ct)"
    by (cases "r_op ?r ! i") (auto simp: key_of_def c Let_def type_at_def split: Option.bind_splits option.splits)
  have m: "mode_of mode = m" by (rule mode_ar [OF s(1) mode(1)])
  have d: "r_dst ?r ! i \<noteq> NONE" "type_at f (r_dst ?r ! i) = Some (r_ty ?r ! i)"
    by (rule verified_dst [OF v(1,2) int_not_unit [OF s(2)]])+
  have off: "unat (slot_a g) = 8 * unat (r_a ?r ! i)" "unat (slot_b g) = 8 * unat (r_b ?r ! i)" "unat (slot_dst g) = 8 * unat (r_dst ?r ! i)"
    using fill g d(1) operand_index(1) [OF s(6) v(4,5)] by (simp_all add: refills_def)
  have h: "holds_a g x t \<sigma>" "holds_b g y ct \<sigma>" "raw_ok y ct"
    using operand_int(2) [OF v(3) s(3) off(1) s(2)] operand_int [OF v(3) s(6) off(2) s(5)] by (simp_all add: holds_a_def holds_b_def)
  from body_shift [OF h, of sop mode] d off(3) show "row_done f i key g \<sigma> res"
    by (auto simp: row_done_def Let_def s(7) word_res_int [OF s(2)] mode(2) m intro!: fits_res_int [OF s(2)] raw_results(1))
qed

lemma row_neg:
  assumes v: "verified f" "i < length (r_op (of_rows f))" "valued f strs s \<sigma>"
    and op: "r_op (of_rows f) ! i = O_Neg" and e: "oir_eval f i s = Some res"
    and k: "key_of f i = Some (Some key)" "row_fill f fr strs i = Some (Inr (fill, lit))" and g: "refills fill g"
  shows "lit = NO_LIT" "row_done f i key g \<sigma> res"
proof -
  let ?r = "of_rows f"
  note c = verified_columns [OF v(1,2)]
  have plain: "plain_row (r_op ?r ! i)" using op by (simp add: plain_row_def)
  note fill = row_fill_plain [OF k(2) plain v(1,2)]
  from fill(1) show "lit = NO_LIT" .
  from e op obtain m t x where s: "mode_sem (r_mode ?r ! i) = Some m" "int_ty_of (r_ty ?r ! i) = Some t"
    "bits_as f s (r_ty ?r ! i) (r_a ?r ! i) = Some x" "res = map_sum id Bits (int_neg m x (kind_of t))"
    by (auto simp: oir_eval_def Let_def low_kind_Some split: Option.bind_splits)
  from k(1) op s(2) obtain mode where mode: "ar (r_mode ?r ! i) = Some mode" "key = K_Neg mode t" "ty_signed t \<or> mode = M_Wrap"
    by (auto simp: key_of_def c Let_def split: Option.bind_splits if_splits)
  have m: "mode_of mode = m" by (rule mode_ar [OF s(1) mode(1)])
  have d: "r_dst ?r ! i \<noteq> NONE" "type_at f (r_dst ?r ! i) = Some (r_ty ?r ! i)"
    by (rule verified_dst [OF v(1,2) int_not_unit [OF s(2)]])+
  have off: "unat (slot_a g) = 8 * unat (r_a ?r ! i)" "unat (slot_dst g) = 8 * unat (r_dst ?r ! i)"
    using fill g d(1) by (simp_all add: refills_def)
  have "holds_a g x t \<sigma>" using operand_int(2) [OF v(3) s(3) off(1) s(2)] by (simp add: holds_a_def)
  from body_neg [OF this mode(3)] d off(2) show "row_done f i key g \<sigma> res"
    by (auto simp: row_done_def Let_def s(4) word_res_int [OF s(2)] mode(2) m intro!: fits_res_int [OF s(2)] raw_results(2))
qed

lemma row_conv:
  assumes v: "verified f" "i < length (r_op (of_rows f))" "valued f strs s \<sigma>"
    and op: "conv_of (r_op (of_rows f) ! i) = Some cop" and e: "oir_eval f i s = Some res"
    and k: "key_of f i = Some (Some key)" "row_fill f fr strs i = Some (Inr (fill, lit))" and g: "refills fill g"
  shows "lit = NO_LIT" "row_done f i key g \<sigma> res"
proof -
  let ?r = "of_rows f"
  note c = verified_columns [OF v(1,2)]
  have plain: "plain_row (r_op ?r ! i)" using op by (cases "r_op ?r ! i") (simp_all add: plain_row_def)
  note fill = row_fill_plain [OF k(2) plain v(1,2)]
  from fill(1) show "lit = NO_LIT" .
  let ?conv = "\<lambda>x ft t. case cop of C_Checked \<Rightarrow> conv_checked_int x (kind_of ft) (kind_of t)
    | C_Wrap \<Rightarrow> Inr (conv_wrap_int x (kind_of ft) (kind_of t)) | C_Sat \<Rightarrow> Inr (conv_sat_int x (kind_of ft) (kind_of t))"
  from e op obtain at ft x t where s: "type_at f (r_a ?r ! i) = Some at" "int_ty_of at = Some ft" "int_ty_of (r_ty ?r ! i) = Some t"
    "bits_as f s at (r_a ?r ! i) = Some x" "res = map_sum id Bits (?conv x ft t)"
    by (cases "r_op ?r ! i") (auto simp: oir_eval_def Let_def low_kind_Some split: Option.bind_splits)
  from k(1) op s(1-3) have key: "key = K_Conv cop ft t"
    by (cases "r_op ?r ! i") (auto simp: key_of_def c Let_def type_at_def split: Option.bind_splits)
  have d: "r_dst ?r ! i \<noteq> NONE" "type_at f (r_dst ?r ! i) = Some (r_ty ?r ! i)"
    by (rule verified_dst [OF v(1,2) int_not_unit [OF s(3)]])+
  have off: "unat (slot_a g) = 8 * unat (r_a ?r ! i)" "unat (slot_dst g) = 8 * unat (r_dst ?r ! i)"
    using fill g d(1) by (simp_all add: refills_def)
  have "holds_a g x ft \<sigma>" using operand_int(2) [OF v(3) s(4) off(1) s(2)] by (simp add: holds_a_def)
  from body_conv [OF this, of t] have w: "wp g (body key) (stores g (canonically t (?conv x ft t)) \<sigma>) \<sigma>"
    unfolding key by (cases cop) simp_all
  have "fits_res (r_ty ?r ! i) res" unfolding s(5) by (rule fits_res_int [OF s(3)]) (cases cop; auto intro: raw_results(3-5))
  with w d off(2) show "row_done f i key g \<sigma> res"
    by (simp add: row_done_def Let_def s(5) word_res_int [OF s(3)])
qed

lemma fits_low_cases:
  assumes "fits_low ty x"
  obtains (int) t where "int_ty_of ty = Some t" "raw_ok x t" "low_word ty x = canonical x t"
  | (bool) "ty = Low_Bool" "x = 0 \<or> x = 1" "low_word ty x = x"
proof -
  have "x \<le> 1 \<Longrightarrow> x = 0 \<or> x = 1" by (metis le_less word_less_1)
  with assms that show thesis by (auto simp: fits_low_def low_word_def split: option.splits)
qed

lemma fits_not_unit: "fits_low ty x \<Longrightarrow> ty \<noteq> Low_Unit"
  by (auto simp: fits_low_def)

lemma row_logic:
  assumes v: "verified f" "i < length (r_op (of_rows f))" "valued f strs s \<sigma>" "frame_fits f fsz" "frame_size fsz"
    and op: "logic_of (r_op (of_rows f) ! i) = Some lop" and e: "oir_eval f i s = Some res"
    and k: "key_of f i = Some (Some key)" "row_fill f fr strs i = Some (Inr (fill, lit))" and g: "refills fill g"
  shows "lit = NO_LIT" "row_done f i key g \<sigma> res"
proof -
  let ?r = "of_rows f"
  let ?ty = "r_ty ?r ! i"
  note c = verified_columns [OF v(1,2)]
  have plain: "plain_row (r_op ?r ! i)" using op by (cases "r_op ?r ! i") (simp_all add: plain_row_def)
  note fill = row_fill_plain [OF k(2) plain v(1,2)]
  from fill(1) show "lit = NO_LIT" .
  from e op obtain x y where s: "bits_as f s ?ty (r_a ?r ! i) = Some x" "bits_as f s ?ty (r_b ?r ! i) = Some y"
    "res = Inr (Bits (logic_sem lop x y))"
    by (cases "r_op ?r ! i") (auto simp: oir_eval_def Let_def split: Option.bind_splits)
  from k(1) op have key: "key = K_Logic lop"
    by (cases "r_op ?r ! i") (auto simp: key_of_def c Let_def split: Option.bind_splits)
  have off: "unat (slot_a g) = 8 * unat (r_a ?r ! i)" "unat (slot_b g) = 8 * unat (r_b ?r ! i)"
    using fill g operand_index(1) [OF s(2) v(4,5)] by (simp_all add: refills_def)
  note ox = operand_word [OF v(3) s(1) off(1)] and oy = operand_word [OF v(3) s(2) off(2)]
  have d: "r_dst ?r ! i \<noteq> NONE" "type_at f (r_dst ?r ! i) = Some ?ty"
    by (rule verified_dst [OF v(1,2) fits_not_unit [OF ox(1)]])+
  have dst: "unat (slot_dst g) = 8 * unat (r_dst ?r ! i)" using fill g d(1) by (simp add: refills_def)
  have "fits_low ?ty (logic_sem lop x y) \<and> logic_sem lop (low_word ?ty x) (low_word ?ty y) = low_word ?ty (logic_sem lop x y)"
    using ox(1)
  proof (cases rule: fits_low_cases)
    case (int t)
    with oy(1) have "raw_ok y t" by (simp add: fits_low_def)
    with int(2) have "raw_ok (logic_sem lop x y) t" by (cases lop) (simp_all add: raw_ok_def)
    with int(1) show ?thesis by (simp add: fits_low_def low_word_def logic_canonical)
  next
    case bool
    with oy(1) have "y = 0 \<or> y = 1" by (auto elim: fits_low_cases)
    with bool show ?thesis by (cases lop) (auto simp: fits_low_def low_word_def)
  qed
  with body_logic [of g lop \<sigma>] d dst ox(2) oy(2) show "row_done f i key g \<sigma> res"
    by (simp add: row_done_def Let_def key s(3) fits_res_def)
qed

lemma row_not:
  assumes v: "verified f" "i < length (r_op (of_rows f))" "valued f strs s \<sigma>"
    and op: "r_op (of_rows f) ! i = O_Not" and e: "oir_eval f i s = Some res"
    and k: "key_of f i = Some (Some key)" "row_fill f fr strs i = Some (Inr (fill, lit))" and g: "refills fill g"
  shows "lit = NO_LIT" "row_done f i key g \<sigma> res"
proof -
  let ?r = "of_rows f"
  let ?ty = "r_ty ?r ! i"
  note c = verified_columns [OF v(1,2)]
  have plain: "plain_row (r_op ?r ! i)" using op by (simp add: plain_row_def)
  note fill = row_fill_plain [OF k(2) plain v(1,2)]
  from fill(1) show "lit = NO_LIT" .
  from e op obtain x where s: "bits_as f s ?ty (r_a ?r ! i) = Some x"
    "if ?ty = Low_Bool then res = Inr (Bits (of_bool (x = 0))) else \<exists>t. int_ty_of ?ty = Some t \<and> res = Inr (Bits (narrow (kind_of t) (ucast (NOT x))))"
    by (auto simp: oir_eval_def Let_def low_kind_Some split: Option.bind_splits if_splits)
  have off: "unat (slot_a g) = 8 * unat (r_a ?r ! i)" using fill g by (simp add: refills_def)
  note ox = operand_word [OF v(3) s(1) off]
  have d: "r_dst ?r ! i \<noteq> NONE" "type_at f (r_dst ?r ! i) = Some ?ty"
    by (rule verified_dst [OF v(1,2) fits_not_unit [OF ox(1)]])+
  have dst: "unat (slot_dst g) = 8 * unat (r_dst ?r ! i)" using fill g d(1) by (simp add: refills_def)
  show "row_done f i key g \<sigma> res"
  proof (cases "?ty = Low_Bool")
    case True
    with k(1) op have key: "key = K_NotBool" by (auto simp: key_of_def c Let_def)
    have "x = 0 \<or> x = 1" "slot_word (slot_a g) \<sigma> = x" using ox True by (auto elim: fits_low_cases simp: low_word_def)
    with body_not_bool [of g \<sigma>] True s(2) d dst show ?thesis
      by (auto simp: row_done_def Let_def key fits_res_def fits_low_def low_word_def)
  next
    case False
    with s(2) obtain t where t: "int_ty_of ?ty = Some t" "res = map_sum id Bits (Inr (narrow (kind_of t) (ucast (NOT x))))" by auto
    with k(1) op False have key: "key = K_Not t" by (auto simp: key_of_def c Let_def)
    have "holds_a g x t \<sigma>" using operand_int(2) [OF v(3) s(1) off t(1)] by (simp add: holds_a_def)
    moreover have "fits_res ?ty res" unfolding t(2) by (rule fits_res_int [OF t(1)]) (auto intro: raw_results(6))
    ultimately show ?thesis using body_not [of g x t \<sigma>] d dst by (simp only: row_done_def Let_def key t(2) word_res_int [OF t(1)] simp_thms)
  qed
qed

lemma row_icmp:
  assumes v: "verified f" "i < length (r_op (of_rows f))" "valued f strs s \<sigma>" "frame_fits f fsz" "frame_size fsz"
    and op: "r_op (of_rows f) ! i = O_Icmp p" and e: "oir_eval f i s = Some res"
    and k: "key_of f i = Some (Some key)" "row_fill f fr strs i = Some (Inr (fill, lit))" and g: "refills fill g"
  shows "lit = NO_LIT" "row_done f i key g \<sigma> res"
proof -
  let ?r = "of_rows f"
  note c = verified_columns [OF v(1,2)]
  have plain: "plain_row (r_op ?r ! i)" using op by (simp add: plain_row_def)
  note fill = row_fill_plain [OF k(2) plain v(1,2)]
  from fill(1) show "lit = NO_LIT" .
  from e op obtain at x y kd where s: "type_at f (r_a ?r ! i) = Some at" "bits_as f s at (r_a ?r ! i) = Some x"
    "bits_as f s at (r_b ?r ! i) = Some y" "(if at = Low_Bool then Some U8 else low_kind at) = Some kd"
    "r_ty ?r ! i = Low_Bool" "res = Inr (Bits (of_bool (icmp x y kd p)))"
    by (auto simp: oir_eval_def Let_def split: Option.bind_splits if_splits)
  from k(1) op s(1) have key: "key = K_Icmp (pred_of p) (low_signed at)"
    by (auto simp: key_of_def c Let_def type_at_def)
  have off: "unat (slot_a g) = 8 * unat (r_a ?r ! i)" "unat (slot_b g) = 8 * unat (r_b ?r ! i)"
    using fill g operand_index(1) [OF s(3) v(4,5)] by (simp_all add: refills_def)
  note ox = operand_word [OF v(3) s(2) off(1)] and oy = operand_word [OF v(3) s(3) off(2)]
  have d: "r_dst ?r ! i \<noteq> NONE" "type_at f (r_dst ?r ! i) = Some Low_Bool"
    using verified_dst [OF v(1,2)] s(5) by auto
  have dst: "unat (slot_dst g) = 8 * unat (r_dst ?r ! i)" using fill g d(1) by (simp add: refills_def)
  obtain t where t: "kind_of t = kd" "low_signed at = ty_signed t" "holds_a g x t \<sigma>" "holds_b g y t \<sigma>"
  proof (cases "at = Low_Bool")
    case True
    have u8: "x = 0 \<or> x = 1" "y = 0 \<or> y = 1" using ox(1) oy(1) True by (auto elim: fits_low_cases)
    have "canonical 0 T_U8 = 0" "canonical 1 T_U8 = 1" by code_simp+
    with u8 True s(4) ox(2) oy(2) show thesis
      by (intro that [of T_U8]) (auto simp: holds_a_def holds_b_def low_signed_def low_word_def)
  next
    case False
    with s(4) obtain t where t: "int_ty_of at = Some t" "kd = kind_of t" by (auto simp: low_kind_Some)
    with operand_int(2) [OF v(3) s(2) off(1) t(1)] operand_int(2) [OF v(3) s(3) off(2) t(1)] show thesis
      by (intro that [of t]) (auto simp: holds_a_def holds_b_def low_signed_def split: LowTy.splits elim!: int_ty_of.elims)
  qed
  with body_icmp [OF t(3,4), of p] d dst show "row_done f i key g \<sigma> res"
    by (simp add: row_done_def Let_def key s(5,6) fits_res_def fits_low_def low_word_def)
qed

lemma row_const_int:
  assumes v: "verified f" "i < length (r_op (of_rows f))"
    and op: "r_op (of_rows f) ! i = O_ConstInt" and e: "oir_eval f i s = Some res"
    and k: "key_of f i = Some (Some key)" "row_fill f fr strs i = Some (Inr (fill, lit))" and g: "refills fill g"
  shows "lit = NO_LIT" "row_done f i key g \<sigma> res"
proof -
  let ?r = "of_rows f"
  note c = verified_columns [OF v(1,2)]
  let ?x = "push_bit 32 (ucast (r_b ?r ! i)) OR (ucast (r_a ?r ! i) :: u64)"
  from e op obtain t where t: "int_ty_of (r_ty ?r ! i) = Some t" "raw_ok ?x t" "res = Inr (Bits ?x)"
    by (auto simp: oir_eval_def Let_def split: Option.bind_splits if_splits)
  from k(2) op t(1) have fill: "lit = NO_LIT" "f_imm fill = halves_of (canonical ?x t)" "frame_value fr (r_dst ?r ! i) = Some (slot_dst fill)"
    by (auto simp: row_fill_def c Let_def halves_of_def split: Option.bind_splits)
  from fill(1) show "lit = NO_LIT" .
  have key: "key = K_Const" using k(1) op by (auto simp: key_of_def c Let_def)
  have d: "r_dst ?r ! i \<noteq> NONE" "type_at f (r_dst ?r ! i) = Some (r_ty ?r ! i)"
    by (rule verified_dst [OF v(1,2) int_not_unit [OF t(1)]])+
  have "f_imm g = halves_of (canonical ?x t)" using fill(2) g by (simp add: refills_def)
  from body_const [OF this, of \<sigma>] t d frame_value_unat [OF fill(3)] g show "row_done f i key g \<sigma> res"
    by (simp add: row_done_def Let_def key fits_res_def fits_low_def low_word_def refills_def)
qed

lemma row_const_bool:
  assumes v: "verified f" "i < length (r_op (of_rows f))"
    and op: "r_op (of_rows f) ! i = O_ConstBool" and e: "oir_eval f i s = Some res"
    and k: "key_of f i = Some (Some key)" "row_fill f fr strs i = Some (Inr (fill, lit))" and g: "refills fill g"
  shows "lit = NO_LIT" "row_done f i key g \<sigma> res"
proof -
  let ?r = "of_rows f"
  note c = verified_columns [OF v(1,2)]
  let ?x = "ucast (r_a ?r ! i) :: u64"
  from e op have t: "r_ty ?r ! i = Low_Bool" "r_a ?r ! i \<le> 1" "res = Inr (Bits ?x)"
    by (auto simp: oir_eval_def Let_def split: if_splits)
  from k(2) op have fill: "lit = NO_LIT" "f_imm fill = [ucast (r_a ?r ! i), 0, 0, 0]" "frame_value fr (r_dst ?r ! i) = Some (slot_dst fill)"
    by (auto simp: row_fill_def c Let_def split: Option.bind_splits)
  from fill(1) show "lit = NO_LIT" .
  have key: "key = K_Const" using k(1) op by (auto simp: key_of_def c Let_def)
  have d: "r_dst ?r ! i \<noteq> NONE" "type_at f (r_dst ?r ! i) = Some Low_Bool"
    using verified_dst [OF v(1,2)] t(1) by auto
  have a: "r_a ?r ! i = 0 \<or> r_a ?r ! i = 1" using t(2) by (metis le_less word_less_1)
  have "halves_of 0 = [0, 0, 0, 0]" "halves_of 1 = [1, 0, 0, 0]" by code_simp+
  with a fill(2) g have "f_imm g = halves_of ?x" by (auto simp: refills_def)
  from body_const [OF this, of \<sigma>] t d frame_value_unat [OF fill(3)] g a show "row_done f i key g \<sigma> res"
    by (auto simp: row_done_def Let_def key fits_res_def fits_low_def low_word_def refills_def)
qed

lemma row_load:
  assumes v: "verified f" "i < length (r_op (of_rows f))" "valued f strs s \<sigma>" "unat (fr_values fr) = length (v_ty (of_values f))"
    and op: "r_op (of_rows f) ! i = O_SlotLoad" and e: "oir_eval f i s = Some res"
    and k: "key_of f i = Some (Some key)" "row_fill f fr strs i = Some (Inr (fill, lit))" and g: "refills fill g"
  shows "lit = NO_LIT" "row_done f i key g \<sigma> res"
proof -
  let ?r = "of_rows f"
  note c = verified_columns [OF v(1,2)]
  from e op obtain sl x where t: "at_index (of_slots f) (unat (r_a ?r ! i)) = Some sl" "sl_ty sl = r_ty ?r ! i"
    "os_places s (r_a ?r ! i) = Some x" "res = Inr (Bits x)"
    by (auto simp: oir_eval_def Let_def split: Option.bind_splits if_splits)
  from k(2) op have fill: "lit = NO_LIT" "frame_place fr (r_a ?r ! i) = Some (slot_a fill)" "frame_value fr (r_dst ?r ! i) = Some (slot_dst fill)"
    by (auto simp: row_fill_def c Let_def split: Option.bind_splits)
  from fill(1) show "lit = NO_LIT" .
  have key: "key = K_Copy" using k(1) op by (auto simp: key_of_def c Let_def)
  have h: "holds_at \<sigma> (place_index f (r_a ?r ! i)) (r_ty ?r ! i) x" using valuedD(3) [OF v(3) t(3)] t(1,2) by auto
  have "unat (slot_a g) = 8 * place_index f (r_a ?r ! i)"
    using frame_place_unat [OF fill(2)] g v(4) by (simp add: refills_def place_index_def)
  then have w: "slot_word (slot_a g) \<sigma> = low_word (r_ty ?r ! i) x" using h by (simp add: slot_word_frame(1) holds_at_def)
  have fits: "fits_low (r_ty ?r ! i) x" using h by (simp add: holds_at_def)
  have d: "r_dst ?r ! i \<noteq> NONE" "type_at f (r_dst ?r ! i) = Some (r_ty ?r ! i)"
    by (rule verified_dst [OF v(1,2) fits_not_unit [OF fits]])+
  from body_copy [of g \<sigma>] t d frame_value_unat [OF fill(3)] g fits w show "row_done f i key g \<sigma> res"
    by (simp add: row_done_def Let_def key fits_res_def refills_def)
qed

text \<open>All rows that evaluate to a value.\<close>

lemma row_eval:
  assumes v: "verified f" "i < length (r_op (of_rows f))" "valued f strs s \<sigma>" "frame_fits f fsz" "frame_size fsz"
      "unat (fr_values fr) = length (v_ty (of_values f))"
    and e: "oir_eval f i s = Some res" and k: "key_of f i = Some (Some key)" "row_fill f fr strs i = Some (Inr (fill, lit))"
    and g: "refills fill g"
  shows "lit = NO_LIT \<and> row_done f i key g \<sigma> res"
proof -
  note bin = row_bin [OF v(1-5) _ e k g] and shift = row_shift [OF v(1-5) _ e k g] and neg = row_neg [OF v(1-3) _ e k g]
    and logic = row_logic [OF v(1-5) _ e k g] and conv = row_conv [OF v(1-3) _ e k g] and nt = row_not [OF v(1-3) _ e k g]
    and icmp = row_icmp [OF v(1-5) _ e k g] and ci = row_const_int [OF v(1,2) _ e k g] and cb = row_const_bool [OF v(1,2) _ e k g]
    and load = row_load [OF v(1-3,6) _ e k g]
  have n: "r_op (of_rows f) ! i \<noteq> O_ConstUnit" "r_op (of_rows f) ! i \<noteq> O_ConstStr"
    using k(1) by (auto simp: key_of_def verified_columns [OF v(1,2)] Let_def)
  show ?thesis
  proof (cases "r_op (of_rows f) ! i")
    case (O_Icmp p)
    with icmp show ?thesis by blast
  qed (use bin shift neg logic conv nt ci cb load n e in \<open>simp_all add: oir_eval_def Let_def\<close>)
qed

end
