(* ===== verification/Codegen_Sim.thy ===== *)
theory Codegen_Sim
  imports Codegen_Rows
begin

text \<open>
  The simulation: the emitted code of a row takes a machine that tracks the state of the OIR function to
  one that tracks the state behind the row, with the same output, or leaves for the row's \<^verbatim>\<open>brk\<close>.
\<close>

section \<open>Relocations\<close>

text \<open>The holes of a sequence lie in its instructions.\<close>

definition inside :: "nat \<Rightarrow> (Seq \<Rightarrow> Seq option) \<Rightarrow> bool" where
  "inside n m \<longleftrightarrow> (\<forall>s t. m s = Some t \<longrightarrow> length (insts s) + n < 2 ^ 16 \<longrightarrow> (\<forall>h \<in> set (holes s). unat (h_word h) < length (insts s))
     \<longrightarrow> length (insts t) \<le> length (insts s) + n \<and> (\<forall>h \<in> set (holes t). unat (h_word h) < length (insts t)))"

lemma inside_hole: "inside 1 (emit_hole k fl mk)"
proof -
  have "unat (word_of_nat n :: u16) = n" if "n < 2 ^ 16" for n
    using that by (simp add: unat_of_nat take_bit_nat_eq_self)
  then show ?thesis
    by (fastforce simp: inside_def emit_hole_def hole_def seq_fixed_def seq_word_def split: option.splits if_splits)
qed

lemma inside_bind:
  assumes "inside n m" "inside k m'"
  shows "inside (n + k) (\<lambda>s. Option.bind (m s) m')"
  unfolding inside_def
proof (intro allI impI)
  fix s t
  assume a: "Option.bind (m s) m' = Some t" "length (insts s) + (n + k) < 2 ^ 16" "\<forall>h\<in>set (holes s). unat (h_word h) < length (insts s)"
  then obtain u where u: "m s = Some u" "m' u = Some t" by (auto split: Option.bind_splits)
  have n: "length (insts s) + n < 2 ^ 16" using a(2) by simp
  from assms(1) u(1) n a(3) have t: "length (insts u) \<le> length (insts s) + n" "\<forall>h\<in>set (holes u). unat (h_word h) < length (insts u)"
    unfolding inside_def by blast+
  have k: "length (insts u) + k < 2 ^ 16" using a(2) t(1) by simp
  from assms(2) u(2) k t(2) have "length (insts t) \<le> length (insts u) + k \<and> (\<forall>h\<in>set (holes t). unat (h_word h) < length (insts t))"
    unfolding inside_def by blast
  with t(1) show "length (insts t) \<le> length (insts s) + (n + k) \<and> (\<forall>h\<in>set (holes t). unat (h_word h) < length (insts t))" by simp
qed

lemma inside_weaken: "inside n m \<Longrightarrow> n \<le> k \<Longrightarrow> inside k m"
  unfolding inside_def by (meson add_le_mono le_less_trans le_trans order_refl)

lemma inside_site: "(\<And>i. inside 1 (m i)) \<Longrightarrow> inside 1 (\<lambda>s. Option.bind (site kind s) (\<lambda>(i, s). m i s))"
  unfolding inside_def
  by (fastforce simp: site_def Let_def split: option.splits if_splits Option.bind_splits)

interpretation ins: builder inside UNIV
proof (rule builder.intro)
  show "is_ok r \<Longrightarrow> inside 1 (seq_i r)" for r
    by (cases r) (fastforce simp: inside_def seq_fixed_def)+
  show "fl = SlotA \<or> fl = SlotB \<Longrightarrow> rt \<le> 30 \<Longrightarrow> inside 1 (ldr_slot rt fl)" for fl rt
    by (subst slot_holes(1)) (blast | rule inside_hole)+
  show "rt \<le> 30 \<Longrightarrow> inside 1 (str_slot rt SlotDst)" for rt
    by (subst slot_holes(2)) (blast | rule inside_hole)+
  show "sh \<in> {16, 32, 48} \<Longrightarrow> inside 1 (movk_imm (xr rd) i sh)" for rd i sh
    by (subst mov_holes(2)) (assumption | rule inside_hole)+
qed (simp_all only: mov_holes(1) trap_holes call_holes inside_hole inside_site inside_bind inside_weaken, simp_all add: inside_def)

lemma hole_inside:
  assumes "build key f = Some (ws, s)" "key \<in> set all_keys" "h \<in> set (holes s)"
  shows "unat (h_word h) < length (insts s)"
proof -
  have v: "valid_key key" by (rule all_keys_valid [OF assms(2)])
  have "inside 30 (body key)" by (rule ins.body [OF v]) simp
  with build_shape(1) [OF assms(1) v] assms(3) show ?thesis
    unfolding inside_def by (fastforce simp: seq_new_def)
qed

definition before :: "nat \<Rightarrow> Reloc list \<Rightarrow> bool" where
  "before w rs \<longleftrightarrow> (\<forall>r \<in> set rs. \<exists>k < w. rl_offset r = word_of_nat (4 * k))"

lemma before_mono: "before w rs \<Longrightarrow> w \<le> w' \<Longrightarrow> before w' rs"
  unfolding before_def by (meson order_less_le_trans)

lemma before_append [simp]: "before w (rs @ rs') \<longleftrightarrow> before w rs \<and> before w rs'"
  by (auto simp: before_def)

lemma offset_inj: "k < 2 ^ 30 \<Longrightarrow> j < 2 ^ 30 \<Longrightarrow> (word_of_nat (4 * k) :: u32) = word_of_nat (4 * j) \<longleftrightarrow> k = j"
proof -
  assume "k < 2 ^ 30" "j < 2 ^ 30"
  then have "unat (word_of_nat (4 * k) :: u32) = 4 * k" "unat (word_of_nat (4 * j) :: u32) = 4 * j"
    by (simp_all add: unat_of_nat take_bit_nat_eq_self)
  then show ?thesis by (metis mult_cancel1 zero_neq_numeral)
qed

lemma reloc_skip:
  assumes "before w rs" "w \<le> p" "p < 2 ^ 30"
  shows "reloc_at (rs @ rs') (4 * p) = reloc_at rs' (4 * p)"
proof -
  have "\<forall>r \<in> set rs. rl_offset r \<noteq> word_of_nat (4 * p)"
  proof
    fix r
    assume "r \<in> set rs"
    with assms(1) obtain k where "k < w" "rl_offset r = word_of_nat (4 * k)" unfolding before_def by blast
    with assms(2,3) offset_inj [of k p] show "rl_offset r \<noteq> word_of_nat (4 * p)" by auto
  qed
  then show ?thesis
    unfolding reloc_at_def by (induction rs) auto
qed

lemma call_relocs_before: "\<forall>h \<in> set hs. unat (h_word h) < n \<Longrightarrow> before (w + n) (call_relocs (4 * w) hs)"
proof (induction hs)
  case (Cons h hs)
  then have ih: "before (w + n) (call_relocs (4 * w) hs)" and h: "unat (h_word h) < n" by simp_all
  have "\<exists>k < w + n. (word_of_nat (4 * w + 4 * unat (h_word h)) :: u32) = word_of_nat (4 * k)"
    using h by (intro exI [of _ "w + unat (h_word h)"]) (simp add: algebra_simps)
  with ih show ?case by (simp add: before_def split: Field.split)
qed (simp add: before_def)

section \<open>One stencil\<close>

lemma code_of_simps [simp]: "code_of [] = []" "code_of (s # ss) = insts s @ code_of ss" "code_of (ss @ ss') = code_of ss @ code_of ss'"
  by (simp_all add: code_of_def)

lemma exec_code_leaves: "run pc is \<sigma> = Leave off \<tau> \<Longrightarrow> exec_code rt rs pc is \<sigma> = ([], Leave off \<tau>)"
  by (simp add: exec_code.simps)

lemma exec_stencil:
  assumes r: "row_built T pos w g (key, fill, lit, at) s" "js \<noteq> []" "T = w + length (insts s) + length js"
    and p: "\<forall>gf. refills fill gf \<longrightarrow> wp gf (body key) (Q gf) \<sigma>"
  obtains (falls) gf \<sigma>' where "refills fill gf" "Q gf (Inr \<sigma>')"
      "exec_code rt rs w (insts s @ js) \<sigma> = exec_code rt rs (w + length (insts s)) js \<sigma>'"
  | (trap) gf k j \<tau> where "refills fill gf" "Q gf (Inl k)" "j < length (key_sites key)" "key_sites key ! j = k"
      "exec_code rt rs w (insts s @ js) \<sigma> = ([], Leave (4 * int T + 4 * int (g + j)) \<tau>)"
proof -
  from r(1) obtain gf ws where b: "key \<in> set all_keys" "build key gf = Some (ws, s)" "refills fill gf"
    "\<forall>k < length (sites s). f_trap gf ! k = 4 * int T + 4 * int (g + k) - 4 * int w"
    by (auto simp: row_built_def refills_def)
  note v = all_keys_valid [OF b(1)]
  have "far gf (length (sites s)) (length (insts s) + length js)"
    using b(4) r(3) by (simp add: far_def)
  with b(2) v p [rule_format, OF b(3)] r(2) show thesis
  proof (cases rule: stencil_run [where pc = w])
    case (falls \<sigma>')
    with exec_code_falls [OF falls(2)] b(3) show thesis by (intro that(1))
  next
    case (trap k i \<sigma>')
    have "4 * int w + f_trap gf ! i = 4 * int T + 4 * int (g + i)" using b(4) trap(2) by simp
    with exec_code_leaves [OF trap(5)] build_key(1) [OF b(2,1)] trap b(3) show thesis
      by (intro that(2) [of gf k i \<sigma>']) simp_all
  qed
qed

section \<open>Stores\<close>

lemma tracks_define:
  assumes t: "tracks f strs fsz code \<sigma>0 s \<sigma>" "frame_size fsz" "frame_fits f fsz" "stack_apart fsz code \<sigma>0"
    and d: "row_done f i key gf \<sigma> (Inr v)" "stores gf (word_res (r_ty (of_rows f) ! i) (Inr v)) \<sigma> (Inr \<sigma>')"
  shows "tracks f strs fsz code \<sigma>0 (oir_define (r_dst (of_rows f) ! i) v s) \<sigma>'"
proof -
  let ?ty = "r_ty (of_rows f) ! i" and ?d = "r_dst (of_rows f) ! i"
  from d(1) obtain x where x: "?d \<noteq> NONE" "type_at f ?d = Some ?ty" "unat (slot_dst gf) = 8 * unat ?d" "v = Bits x" "fits_low ?ty x"
    by (auto simp: row_done_def Let_def fits_res_def)
  note k = value_inside [OF t(3) x(2)]
  from t(1) have fr: "framed fsz code \<sigma>0 \<sigma>" "valued f strs s \<sigma>" by (simp_all add: tracks_def)
  from d(2) x(4) have "same (\<sigma>\<lparr>memory := store64 (memory \<sigma>) (spr \<sigma> + word_of_nat (8 * unat ?d)) (low_word ?ty x)\<rparr>) \<sigma>'"
    by (simp add: stores_def slot_word_frame(2) [OF x(3)])
  note st = framed_store [OF fr(1) t(2,4) conjunct1 [OF k] this]
  have "unat ?d < 2 ^ 20" using frame_size_bounds [OF t(2), of "unat ?d"] k by simp
  then have "valued f strs (oir_define ?d v s) \<sigma>'"
    using x by (intro valued_store [where d = "Some ?d" and p = None and x = x, OF fr(2) t(3,2) st(2)]) (auto simp: oir_define_def)
  with st(1) show ?thesis by (simp add: tracks_def)
qed

lemma tracks_place:
  assumes t: "tracks f strs fsz code \<sigma>0 s \<sigma>" "frame_size fsz" "frame_fits f fsz" "stack_apart fsz code \<sigma>0"
    and sl: "at_index (of_slots f) (unat p) = Some sl" "fits_low (sl_ty sl) x"
    and d: "unat (slot_dst gf) = 8 * place_index f p" "stores gf (Inr (low_word (sl_ty sl) x)) \<sigma> (Inr \<sigma>')"
  shows "tracks f strs fsz code \<sigma>0 (s\<lparr>os_places := (os_places s)(p \<mapsto> x)\<rparr>) \<sigma>'"
proof -
  note k = place_inside [OF t(3) sl(1)]
  from t(1) have fr: "framed fsz code \<sigma>0 \<sigma>" "valued f strs s \<sigma>" by (simp_all add: tracks_def)
  from d(2) have "same (\<sigma>\<lparr>memory := store64 (memory \<sigma>) (spr \<sigma> + word_of_nat (8 * place_index f p)) (low_word (sl_ty sl) x)\<rparr>) \<sigma>'"
    by (simp add: stores_def slot_word_frame(2) [OF d(1)])
  note st = framed_store [OF fr(1) t(2,4) k this]
  have "place_index f p < 2 ^ 20" using frame_size_bounds [OF t(2), of "place_index f p"] k by simp
  then have "valued f strs (s\<lparr>os_places := (os_places s)(p \<mapsto> x)\<rparr>) \<sigma>'"
    using sl by (intro valued_store [where d = None and p = "Some p" and x = x, OF fr(2) t(3,2) st(2)]) auto
  with st(1) show ?thesis by (simp add: tracks_def)
qed

lemma tracks_plain:
  assumes "tracks f strs fsz code \<sigma>0 s \<sigma>" "v = Unit_Val \<or> v = Text k \<and> strs ! unat d = k"
  shows "tracks f strs fsz code \<sigma>0 (oir_define d v s) \<sigma>" "tracks f strs fsz code \<sigma>0 (s\<lparr>os_out := out\<rparr>) \<sigma>"
  using assms by (auto simp: tracks_def oir_define_def valued_def)

section \<open>The setting\<close>

text \<open>What holds of a compiled function, its frame, its string table and its loaded code throughout a run.\<close>

definition pool_ok :: "OirFunc \<Rightarrow> u8 list \<Rightarrow> u32 option list \<Rightarrow> bool" where
  "pool_ok f code pos \<longleftrightarrow> (\<forall>l p. at_index pos l = Some (Some p) \<longrightarrow> unat p + length (of_strings f ! l) \<le> length code
     \<and> take (length (of_strings f ! l)) (drop (unat p) code) = of_strings f ! l)"

definition strs_ok :: "OirFunc \<Rightarrow> u32 list \<Rightarrow> bool" where
  "strs_ok f strs \<longleftrightarrow> (let r = of_rows f in \<forall>i < length (r_op r). r_op r ! i = O_ConstStr \<longrightarrow> r_dst r ! i \<noteq> NONE
     \<longrightarrow> strs ! unat (r_dst r ! i) = r_a r ! i)"

definition setting :: "OirFunc \<Rightarrow> Frame \<Rightarrow> u32 list \<Rightarrow> u8 list \<Rightarrow> mach \<Rightarrow> (string \<Rightarrow> mach \<Rightarrow> mach) \<Rightarrow> u32 option list \<Rightarrow> nat \<Rightarrow> bool" where
  "setting f fr strs code \<sigma>0 rt pos T \<longleftrightarrow> verified f \<and> frame_of f = Some fr \<and> strs_ok f strs \<and> pool_ok f code pos
     \<and> stack_apart (unat (fr_size fr)) code \<sigma>0 \<and> runtime_keeps rt (unat (fr_size fr)) code \<and> length code < 2 ^ 32 \<and> T < 2 ^ 30"

lemma setting_frame:
  assumes "setting f fr strs code \<sigma>0 rt pos T"
  shows "frame_size (unat (fr_size fr))" "frame_fits f (unat (fr_size fr))" "unat (fr_values fr) = length (v_ty (of_values f))"
  using frame_of_Some [of f fr] assms by (auto simp: setting_def frame_size_def frame_fits_def)

lemma trap_code_kind: "trap_kind (trap_code k) = Some k"
  by (cases k) (simp_all add: trap_kind_def trap_kind_from_u32_def at_index_def)

lemma built_nonempty: "built T pos w g (its @ [term_item f]) ss \<Longrightarrow> code_of ss \<noteq> []"
proof (induction its arbitrary: w g ss)
  case Nil
  then obtain s gf ws where s: "ss = [s]" "build (term_key (of_term f)) gf = Some (ws, s)"
    by (auto simp: row_built_def term_item_def)
  then have "body (term_key (of_term f)) (seq_new gf) = Some s" by (auto simp: build_def split: Option.bind_splits)
  then have "insts s \<noteq> []"
    by (cases "of_term f")
      (auto simp: term_key_def body_def pair_inst_def simm7_pair seq_i_def seq_fixed_def inst_ret_def trap_code_kind trap_holes emit_hole_def
        split: sum.splits Option.bind_splits option.splits if_splits)
  with s show ?case by simp
next
  case (Cons it its)
  then obtain s ss' where "ss = s # ss'" "built T pos (w + length (insts s)) (g + length (sites s)) (its @ [term_item f]) ss'" by auto
  with Cons.IH show ?case by simp
qed

section \<open>Calls\<close>

lemma exec_call:
  assumes r: "run w (insts s @ js) \<sigma> = Called (w + k) off \<tau>" "length (insts s) = Suc k" "w + length (insts s) \<le> T" "T < 2 ^ 30"
    and c: "call_relocs (4 * w) (holes s) = [\<lparr>rl_offset = word_of_nat (4 * (w + k)), rl_target = target\<rparr>]"
      "rl = R @ all_relocs w (s # ss)" "before w R"
    and e: "call_event target \<tau> = Some e"
  shows "exec_code rt rl w (insts s @ js) \<sigma> = map_prod (Cons e) id (exec_code rt rl (w + length (insts s)) js (rt target \<tau>))"
proof (rule exec_code_call [OF r(1,2) _ e])
  have "reloc_at rl (4 * (w + k)) = reloc_at (all_relocs w (s # ss)) (4 * (w + k))"
    unfolding c(2) by (rule reloc_skip [OF c(3)]) (use r(2-4) in simp_all)
  also have "\<dots> = Some target" by (simp add: c(1) reloc_at_def)
  finally show "reloc_at rl (4 * (w + k)) = Some target" .
qed

lemma write_uint_runs:
  assumes b: "row_built T pos w g (K_WriteUint ext, fill, lit, at) s" "w + length (insts s) \<le> T" "T < 2 ^ 30"
    and c: "rl = R @ all_relocs w (s # ss)" "before w R"
  obtains \<tau> where "same \<sigma> \<tau>" "key_sites (K_WriteUint ext) = []"
    "exec_code rt rl w (insts s @ js) \<sigma> = map_prod (Cons (Ev_Uint (raw_word ext (slot_word (slot_a fill) \<sigma>)))) id
       (exec_code rt rl (w + length (insts s)) js (rt (rt_symbol Rt_WriteUint) \<tau>))"
proof -
  from b(1) obtain gf ws where g: "K_WriteUint ext \<in> set all_keys" "build (K_WriteUint ext) gf = Some (ws, s)" "slot_a gf = slot_a fill"
    by (auto simp: row_built_def)
  have v: "valid_key (K_WriteUint ext)" by (rule all_keys_valid [OF g(1)])
  obtain k off \<tau> where k: "length (insts s) = Suc k" "sites s = []"
    "holes s = [\<lparr>h_word = 0, h_kind = LdSt64, h_field = SlotA\<rparr>, \<lparr>h_word = word_of_nat k, h_kind = Br26, h_field = F_Call Rt_WriteUint\<rparr>]"
    "same \<sigma> \<tau>" "xregs \<tau> 0 = raw_word ext (slot_word (slot_a gf) \<sigma>)" "run w (insts s @ js) \<sigma> = Called (w + k) off \<tau>"
    by (rule body_write_uint [OF build_shape(1) [OF g(2) v], where \<sigma> = \<sigma> and rest = js and pc = w]) blast
  have "k < 30" using build_shape(4) [OF g(2) v] k(1) by simp
  then have "unat (word_of_nat k :: u16) = k" by (simp add: unat_of_nat take_bit_nat_eq_self)
  then have r: "call_relocs (4 * w) (holes s) = [\<lparr>rl_offset = word_of_nat (4 * (w + k)), rl_target = rt_symbol Rt_WriteUint\<rparr>]"
    by (simp add: k(3) distrib_left)
  have e: "call_event (rt_symbol Rt_WriteUint) \<tau> = Some (Ev_Uint (raw_word ext (slot_word (slot_a fill) \<sigma>)))"
    using k(5) g(3) by (simp add: call_event_def)
  from k(2,4) build_key(1) [OF g(2,1)] exec_call [OF k(6,1) b(2,3) r c e] show thesis by (intro that) simp_all
qed

lemma halves_join:
  assumes "n < 2 ^ 32"
  shows "push_bit 16 (ucast (word_of_nat (n div 2 ^ 16) :: u16)) OR ucast (word_of_nat n :: u16) = (word_of_nat n :: u64)"
proof (rule bit_word_eqI)
  fix i
  have n: "take_bit 32 n = n" using assms by (simp add: take_bit_nat_eq_self)
  have b: "bit n i \<Longrightarrow> i < 32" for i using bit_take_bit_iff [of 32 n i] unfolding n by blast
  have "n div 2 ^ 16 = drop_bit 16 n" by (simp only: drop_bit_eq_div)
  then show "bit (push_bit 16 (ucast (word_of_nat (n div 2 ^ 16) :: u16)) OR ucast (word_of_nat n :: u16) :: u64) i
      \<longleftrightarrow> bit (word_of_nat n :: u64) i" if "i < LENGTH(64)"
    using that b [of i] by (auto simp: bit_simps not_le)
qed

lemma write_line_runs:
  assumes b: "row_built T pos w g (K_WriteLine, fill, lit, at) s" "w + length (insts s) \<le> T" "T < 2 ^ 30"
    and c: "rl = R @ all_relocs w (s # ss)" "before w R" and l: "lit \<noteq> NO_LIT" "unat lit < length (of_strings f)"
    and i: "f_imm fill = [word_of_nat (length (of_strings f ! unat lit)), word_of_nat (length (of_strings f ! unat lit) div 2 ^ 16), 0, 0]"
      "length (of_strings f ! unat lit) < 2 ^ 32"
    and p: "pool_ok f code pos" "code_loaded code \<sigma>"
  obtains \<tau> where "same \<sigma> \<tau>" "key_sites K_WriteLine = []"
    "exec_code rt rl w (insts s @ js) \<sigma> = map_prod (Cons (Ev_Line (of_strings f ! unat lit))) id
       (exec_code rt rl (w + length (insts s)) js (rt (rt_symbol Rt_WriteLine) \<tau>))"
proof -
  let ?str = "of_strings f ! unat lit"
  from b(1) l(1) obtain gf ws q where g: "K_WriteLine \<in> set all_keys" "build K_WriteLine gf = Some (ws, s)" "f_imm gf = f_imm fill"
    "at_index pos (unat lit) = Some (Some q)" "f_lit gf = uint q - 4 * int w"
    by (auto simp: row_built_def)
  have v: "valid_key K_WriteLine" by (rule all_keys_valid [OF g(1)])
  obtain off \<tau> where k: "length (insts s) = 4" "sites s = []"
    "holes s = [\<lparr>h_word = 0, h_kind = Adr21, h_field = F_Lit\<rparr>, \<lparr>h_word = 1, h_kind = Imm16, h_field = F_Imm 0\<rparr>,
       \<lparr>h_word = 2, h_kind = Imm16, h_field = F_Imm 1\<rparr>, \<lparr>h_word = 3, h_kind = Br26, h_field = F_Call Rt_WriteLine\<rparr>]"
    "same \<sigma> \<tau>" "xregs \<tau> 0 = code_base \<sigma> + word_of_int (4 * int w + f_lit gf)"
    "xregs \<tau> 1 = push_bit 16 (ucast (word_of_nat (length ?str div 2 ^ 16) :: u16)) OR ucast (word_of_nat (length ?str) :: u16)"
    "run w (insts s @ js) \<sigma> = Called (w + 3) off \<tau>"
    by (rule body_write_line [OF build_shape(1) [OF g(2) v] g(3) [unfolded i(1)], where \<sigma> = \<sigma> and rest = js and pc = w]) blast
  have r: "call_relocs (4 * w) (holes s) = [\<lparr>rl_offset = word_of_nat (4 * (w + 3)), rl_target = rt_symbol Rt_WriteLine\<rparr>]"
    by (simp add: k(3))
  have x0: "xregs \<tau> 0 = code_base \<sigma> + word_of_nat (unat q)"
    using k(5) g(5) by (simp add: word_of_int_uint of_nat_unat)
  have x1: "unat (xregs \<tau> 1) = length ?str"
  proof -
    have "xregs \<tau> 1 = word_of_nat (length ?str)" unfolding k(6) by (rule halves_join [OF i(2)])
    then show ?thesis using i(2) by simp
  qed
  have str: "memory \<tau> (xregs \<tau> 0 + word_of_nat j) = ?str ! j" if "j < length ?str" for j
  proof -
    from p(1) g(4) have q: "unat q + length ?str \<le> length code" "take (length ?str) (drop (unat q) code) = ?str" by (auto simp: pool_ok_def)
    have "?str ! j = code ! (unat q + j)" using that q by (metis add.commute le_add2 nth_drop nth_take add_leD1)
    moreover have "memory \<sigma> (code_base \<sigma> + word_of_nat (unat q + j)) = code ! (unat q + j)"
      by (rule p(2) [unfolded code_loaded_def, rule_format]) (use q(1) that in simp)
    ultimately show ?thesis using k(4) by (simp add: x0 same_def add.assoc)
  qed
  have "map (\<lambda>j. memory \<tau> (xregs \<tau> 0 + word_of_nat j)) [0..<unat (xregs \<tau> 1)] = ?str"
    unfolding x1 by (rule nth_equalityI) (simp_all add: str)
  then have e: "call_event (rt_symbol Rt_WriteLine) \<tau> = Some (Ev_Line ?str)" by (simp add: call_event_def)
  have k3: "length (insts s) = Suc 3" using k(1) by simp
  from k(2,4) build_key(1) [OF g(2,1)] exec_call [OF k(7) k3 b(2,3) r c e] show thesis by (intro that) simp_all
qed

section \<open>One row\<close>

lemma prefix_one [simp]: "(@) [x] = Cons x"
  by (rule ext) simp

lemma oir_define_out [simp]: "os_out (oir_define d v s) = os_out s"
  by (simp add: oir_define_def)

text \<open>The machine and the code behind a row.\<close>

record point =
  p_word :: nat
  p_site :: nat
  p_rest :: "Seq list"
  p_relocs :: "Reloc list"

definition at_point :: "nat \<Rightarrow> u32 option list \<Rightarrow> Reloc list \<Rightarrow> item list \<Rightarrow> point \<Rightarrow> bool" where
  "at_point T pos rl its p \<longleftrightarrow> built T pos (p_word p) (p_site p) its (p_rest p) \<and> T = p_word p + length (code_of (p_rest p))
     \<and> rl = p_relocs p @ all_relocs (p_word p) (p_rest p) \<and> before (p_word p) (p_relocs p)"

definition exec_at :: "(string \<Rightarrow> mach \<Rightarrow> mach) \<Rightarrow> Reloc list \<Rightarrow> point \<Rightarrow> mach \<Rightarrow> OEvent list \<times> outcome" where
  "exec_at rt rl p \<sigma> = exec_code rt rl (p_word p) (code_of (p_rest p)) \<sigma>"

lemma at_point_next:
  assumes "at_point T pos rl (it # its) p"
  obtains s ss where "p_rest p = s # ss" "row_built T pos (p_word p) (p_site p) it s"
    "length (sites s) = length (item_tail it)" "p_word p + length (insts s) \<le> T" "T = p_word p + length (insts s) + length (code_of ss)"
    "rl = p_relocs p @ all_relocs (p_word p) (s # ss)" "before (p_word p) (p_relocs p)"
    "at_point T pos rl its \<lparr>p_word = p_word p + length (insts s), p_site = p_site p + length (item_tail it), p_rest = ss,
       p_relocs = p_relocs p @ call_relocs (4 * p_word p) (holes s)\<rparr>"
proof -
  obtain key fill lit at where it: "it = (key, fill, lit, at)" by (cases it) auto
  from assms obtain s ss where s: "p_rest p = s # ss" "row_built T pos (p_word p) (p_site p) it s"
    "built T pos (p_word p + length (insts s)) (p_site p + length (sites s)) its ss"
    by (auto simp: at_point_def)
  from s(2) obtain gf ws where b: "build key gf = Some (ws, s)" "key \<in> set all_keys" by (auto simp: row_built_def it)
  have l: "length (sites s) = length (item_tail it)" using build_key(1) [OF b] by (simp add: item_tail_def it)
  have "before (p_word p + length (insts s)) (call_relocs (4 * p_word p) (holes s))"
    using hole_inside [OF b] by (intro call_relocs_before) blast
  moreover have "before (p_word p + length (insts s)) (p_relocs p)"
    using assms by (auto simp: at_point_def intro: before_mono)
  ultimately show thesis
    using assms s l by (intro that [of s ss]) (simp_all add: at_point_def)
qed

lemma row_fill_line:
  assumes "row_fill f fr strs i = Some (Inr (fill, lit))" "r_op (of_rows f) ! i = O_WriteLine" "verified f" "i < length (r_op (of_rows f))"
  obtains bs where "at_index strs (unat (r_a (of_rows f) ! i)) = Some lit" "lit \<noteq> NONE" "at_index (of_strings f) (unat lit) = Some bs"
    "\<not> length bs > 2 ^ 32 - 1" "f_imm fill = [word_of_nat (length bs), word_of_nat (length bs div 2 ^ 16), 0, 0]"
  using assms(1) verified_columns [OF assms(3,4)]
  by (auto simp: row_fill_def assms(2) Let_def simp del: not_less split: Option.bind_splits if_splits)

lemma step_row:
  assumes set: "setting f fr strs code \<sigma>0 rt pos T" and i: "i < length (r_op (of_rows f))" and sh: "row_shows f fr strs i a"
    and p: "at_point T pos rl (a @ its @ [term_item f]) p"
    and tr: "tracks f strs (unat (fr_size fr)) code \<sigma>0 s \<sigma>" and st: "oir_step f i s = Some res"
  obtains (falls) s' q evs \<sigma>' where "res = Inr s'" "at_point T pos rl (its @ [term_item f]) q" "p_site q = p_site p + length (concat (map item_tail a))"
      "tracks f strs (unat (fr_size fr)) code \<sigma>0 s' \<sigma>'" "os_out s' = os_out s @ evs"
      "exec_at rt rl p \<sigma> = map_prod ((@) evs) id (exec_at rt rl q \<sigma>')"
  | (trap) k j \<tau> where "res = Inl k" "j < length (concat (map item_tail a))"
      "concat (map item_tail a) ! j = \<lparr>st_kind = k, st_fmir = r_site (of_rows f) ! i\<rparr>"
      "exec_at rt rl p \<sigma> = ([], Leave (4 * int T + 4 * int (p_site p + j)) \<tau>)"
proof -
  let ?r = "of_rows f" and ?fsz = "unat (fr_size fr)"
  let ?d = "r_dst ?r ! i"
  note fr = setting_frame [OF set]
  have v: "verified f" "strs_ok f strs" "pool_ok f code pos" "stack_apart ?fsz code \<sigma>0" "runtime_keeps rt ?fsz code"
    "length code < 2 ^ 32" "T < 2 ^ 30" using set by (simp_all add: setting_def)
  have vd: "valued f strs s \<sigma>" "code_loaded code \<sigma>" using tr by (simp_all add: tracks_def framed_def)
  note c = verified_columns [OF v(1) i]
  show thesis
  proof (cases "a = []")
    case True
    with sh have op: "r_op ?r ! i = O_ConstUnit \<or> r_op ?r ! i = O_ConstStr" by (auto simp: row_shows_def)
    with st obtain w where w: "res = Inr (oir_define ?d w s)" "w = Unit_Val \<or> r_op ?r ! i = O_ConstStr \<and> w = Text (r_a ?r ! i)"
      by (auto simp: oir_step_def oir_eval_def Let_def)
    have "tracks f strs ?fsz code \<sigma>0 (oir_define ?d w s) \<sigma>"
    proof (cases "?d = NONE")
      case True
      with tr show ?thesis by (simp add: oir_define_def)
    next
      case False
      with w(2) v(2) i show ?thesis by (intro tracks_plain(1) [OF tr, where k = "r_a ?r ! i"]) (auto simp: strs_ok_def Let_def)
    qed
    with w(1) p True show thesis
      by (intro falls [where s' = "oir_define ?d w s" and q = p and evs = "[]" and \<sigma>' = \<sigma>]) (simp_all add: map_prod_def)
  next
    case False
    with sh obtain key fill lit where k: "key_of f i = Some (Some key)" "row_fill f fr strs i = Some (Inr (fill, lit))"
      and a: "a = [(key, fill, lit, r_site ?r ! i)]" by (auto simp: row_shows_def)
    let ?it = "(key, fill, lit, r_site ?r ! i)"
    have "at_point T pos rl (?it # its @ [term_item f]) p" using p a by simp
    then obtain sq ss where q: "p_rest p = sq # ss" "row_built T pos (p_word p) (p_site p) ?it sq"
      "length (sites sq) = length (item_tail ?it)" "p_word p + length (insts sq) \<le> T" "T = p_word p + length (insts sq) + length (code_of ss)"
      "rl = p_relocs p @ all_relocs (p_word p) (sq # ss)" "before (p_word p) (p_relocs p)"
      "at_point T pos rl (its @ [term_item f]) \<lparr>p_word = p_word p + length (insts sq), p_site = p_site p + length (item_tail ?it), p_rest = ss,
         p_relocs = p_relocs p @ call_relocs (4 * p_word p) (holes sq)\<rparr>"
      by (rule at_point_next) blast
    define n where "n = \<lparr>p_word = p_word p + length (insts sq), p_site = p_site p + length (item_tail ?it), p_rest = ss,
         p_relocs = p_relocs p @ call_relocs (4 * p_word p) (holes sq)\<rparr>"
    have n: "at_point T pos rl (its @ [term_item f]) n" "p_site n = p_site p + length (concat (map item_tail a))"
      using q(8) by (simp_all add: n_def a)
    have ne: "code_of ss \<noteq> []" using q(8) built_nonempty unfolding at_point_def by fastforce
    have ex: "exec_at rt rl p \<sigma> = exec_code rt rl (p_word p) (insts sq @ code_of ss) \<sigma>"
      "exec_at rt rl n \<sigma>' = exec_code rt rl (p_word p + length (insts sq)) (code_of ss) \<sigma>'" for \<sigma>'
      by (simp_all add: exec_at_def q(1) n_def)
    have tail: "concat (map item_tail a) = map (\<lambda>k. \<lparr>st_kind = k, st_fmir = r_site ?r ! i\<rparr>) (key_sites key)"
      by (simp add: a item_tail_def)
    consider (eval) res' where "oir_eval f i s = Some res'" "res = map_sum id (\<lambda>v. oir_define ?d v s) res'"
      | (store) sl x where "r_op ?r ! i = O_SlotStore" "at_index (of_slots f) (unat (r_a ?r ! i)) = Some sl"
          "bits_as f s (sl_ty sl) (r_b ?r ! i) = Some x" "res = Inr (s\<lparr>os_places := (os_places s)(r_a ?r ! i \<mapsto> x)\<rparr>)"
      | (uint) at x where "r_op ?r ! i = O_WriteUint" "type_at f (r_a ?r ! i) = Some at" "bits_as f s at (r_a ?r ! i) = Some x"
          "res = Inr (oir_define ?d Unit_Val (s\<lparr>os_out := os_out s @ [Ev_Uint x]\<rparr>))"
      | (line) l bytes where "r_op ?r ! i = O_WriteLine" "os_vals s (r_a ?r ! i) = Some (Text l)" "at_index (of_strings f) (unat l) = Some bytes"
          "res = Inr (oir_define ?d Unit_Val (s\<lparr>os_out := os_out s @ [Ev_Line bytes]\<rparr>))"
      using st by (cases "r_op ?r ! i") (auto simp: oir_step_def Let_def split: Option.bind_splits option.splits OVal.splits)
    then show thesis
    proof cases
      case eval
      note ev = row_eval [OF v(1) i vd(1) fr(2,1,3) eval(1) k]
      let ?w = "word_res (r_ty ?r ! i) res'"
      have "\<forall>gf. refills fill gf \<longrightarrow> wp gf (body key) (stores gf ?w \<sigma>) \<sigma>"
        using ev by (simp add: row_done_def Let_def)
      from q(2) ne q(5) this show thesis
      proof (cases rule: exec_stencil [where rt = rt and rs = rl])
        case (falls gf \<sigma>')
        then obtain x where "?w = Inr x" by (auto simp: stores_def)
        then obtain w where w: "res' = Inr w" by (cases res') (simp_all add: word_res_def)
        have "tracks f strs ?fsz code \<sigma>0 (oir_define ?d w s) \<sigma>'"
          using ev [OF falls(1)] falls(2) unfolding w by (intro tracks_define [OF tr fr(1,2) v(4)]) blast+
        with n eval(2) w falls(3) show thesis
          by (intro that(1) [where s' = "oir_define ?d w s" and q = n and evs = "[]" and \<sigma>' = \<sigma>']) (simp_all add: ex map_prod_def)
      next
        case (trap gf kd j \<tau>)
        then have "?w = Inl kd" by simp
        then have "res = Inl kd" using eval(2) by (cases res') (simp_all add: word_res_def)
        with trap(3-5) show thesis by (intro that(2) [where k = kd and j = j]) (simp_all add: tail ex)
      qed
    next
      case store
      have key: "key = K_Copy" using k(1) store(1) by (auto simp: key_of_def c Let_def)
      have fl: "frame_value fr (r_b ?r ! i) = Some (slot_a fill)" "frame_place fr (r_a ?r ! i) = Some (slot_dst fill)"
        using k(2) store(1) by (auto simp: row_fill_def c Let_def split: Option.bind_splits)
      note ox = operand_word [OF vd(1) store(3) frame_value_unat [OF fl(1)]]
      have dst: "unat (slot_dst fill) = 8 * place_index f (r_a ?r ! i)"
        using frame_place_unat [OF fl(2)] fr(3) by (simp add: place_index_def)
      let ?w = "low_word (sl_ty sl) x"
      have "\<forall>gf. refills fill gf \<longrightarrow> wp gf (body key) (stores gf (Inr ?w) \<sigma>) \<sigma>"
        using body_copy [of _ \<sigma>] ox(2) by (simp add: key refills_def) metis
      from q(2) ne q(5) this show thesis
      proof (cases rule: exec_stencil [where rt = rt and rs = rl])
        case (falls gf \<sigma>')
        have "tracks f strs ?fsz code \<sigma>0 (s\<lparr>os_places := (os_places s)(r_a ?r ! i \<mapsto> x)\<rparr>) \<sigma>'"
          using falls(1,2) dst by (intro tracks_place [OF tr fr(1,2) v(4) store(2) ox(1)]) (simp_all add: refills_def)
        with n store(4) falls(3) show thesis
          by (intro that(1) [where s' = "s\<lparr>os_places := (os_places s)(r_a ?r ! i \<mapsto> x)\<rparr>" and q = n and evs = "[]" and \<sigma>' = \<sigma>'])
            (simp_all add: ex map_prod_def)
      qed simp
    next
      case uint
      have fl: "frame_value fr (r_a ?r ! i) = Some (slot_a fill)"
        using k(2) uint(1) by (auto simp: row_fill_def c Let_def split: Option.bind_splits)
      note ox = operand_word [OF vd(1) uint(3) frame_value_unat [OF fl]]
      let ?ext = "case int_ty_of at of Some t \<Rightarrow> raw_ext t | None \<Rightarrow> RX_None"
      have key: "key = K_WriteUint ?ext"
        using k(1) uint(1,2) by (auto simp: key_of_def c Let_def type_at_def)
      have x: "raw_word ?ext (slot_word (slot_a fill) \<sigma>) = x"
        using ox(1) unfolding ox(2) by (cases rule: fits_low_cases) (simp_all add: raw_canonical)
      obtain \<tau> where t: "same \<sigma> \<tau>" "key_sites key = []"
        "exec_code rt rl (p_word p) (insts sq @ code_of ss) \<sigma> = map_prod (Cons (Ev_Uint x)) id
           (exec_code rt rl (p_word p + length (insts sq)) (code_of ss) (rt (rt_symbol Rt_WriteUint) \<tau>))"
        by (rule write_uint_runs [OF q(2) [unfolded key] q(4) v(7) q(6,7), where \<sigma> = \<sigma> and js = "code_of ss" and rt = rt]) (simp add: key x)
      have "tracks f strs ?fsz code \<sigma>0 s (rt (rt_symbol Rt_WriteUint) \<tau>)"
        by (rule tracks_call [OF tracks_same [OF tr t(1)] fr(1,2) v(5,6)])
      note tracks_plain(2) [OF this, of Unit_Val 0 0 "os_out s @ [Ev_Uint x]", simplified]
      from tracks_plain(1) [OF this, of Unit_Val 0 ?d] n uint(4) t(3) show thesis
        by (intro that(1) [where s' = "oir_define ?d Unit_Val (s\<lparr>os_out := os_out s @ [Ev_Uint x]\<rparr>)" and q = n and evs = "[Ev_Uint x]" and \<sigma>' = "rt (rt_symbol Rt_WriteUint) \<tau>"])
          (simp_all add: ex)
    next
      case line
      obtain bs where w: "at_index strs (unat (r_a ?r ! i)) = Some lit" "lit \<noteq> NONE" "at_index (of_strings f) (unat lit) = Some bs"
        "\<not> length bs > 2 ^ 32 - 1" "f_imm fill = [word_of_nat (length bs), word_of_nat (length bs div 2 ^ 16), 0, 0]"
        by (rule row_fill_line [OF k(2) line(1) v(1) i])
      from w(1) valuedD(2) [OF vd(1) line(2)] have "lit = l" by (simp add: at_index_def split: if_splits)
      with w line(3) have fl: "lit = l" "l \<noteq> NO_LIT" "length bytes < 2 ^ 32"
        "f_imm fill = [word_of_nat (length bytes), word_of_nat (length bytes div 2 ^ 16), 0, 0]"
        by (simp_all add: NO_LIT_def NONE_def)
      have key: "key = K_WriteLine" using k(1) line(1) by (auto simp: key_of_def c Let_def)
      have b: "unat l < length (of_strings f)" "bytes = of_strings f ! unat l" using line(3) by (auto simp: at_index_def split: if_splits)
      obtain \<tau> where t: "same \<sigma> \<tau>" "key_sites key = []"
        "exec_code rt rl (p_word p) (insts sq @ code_of ss) \<sigma> = map_prod (Cons (Ev_Line bytes)) id
           (exec_code rt rl (p_word p + length (insts sq)) (code_of ss) (rt (rt_symbol Rt_WriteLine) \<tau>))"
        by (rule write_line_runs [OF q(2) [unfolded key] q(4) v(7) q(6,7) _ _ _ _ v(3) vd(2), where js = "code_of ss" and rt = rt])
          (use fl b key in simp_all)
      have "tracks f strs ?fsz code \<sigma>0 s (rt (rt_symbol Rt_WriteLine) \<tau>)"
        by (rule tracks_call [OF tracks_same [OF tr t(1)] fr(1,2) v(5,6)])
      note tracks_plain(2) [OF this, of Unit_Val 0 0 "os_out s @ [Ev_Line bytes]", simplified]
      from tracks_plain(1) [OF this, of Unit_Val 0 ?d] n line(4) t(3) show thesis
        by (intro that(1) [where s' = "oir_define ?d Unit_Val (s\<lparr>os_out := os_out s @ [Ev_Line bytes]\<rparr>)" and q = n and evs = "[Ev_Line bytes]" and \<sigma>' = "rt (rt_symbol Rt_WriteLine) \<tau>"])
          (simp_all add: ex)
    qed
  qed
qed

end
