(* ===== verification/Codegen_Correct.thy ===== *)
theory Codegen_Correct
  imports Codegen_Sim
begin

text \<open>
  The compiler theorem's parts: all rows of a function, its entry and its exit.
\<close>

section \<open>All rows\<close>

lemma run_rows:
  assumes set: "setting f fr strs code \<sigma>0 rt pos T"
    and "\<forall>i \<in> set is. i < length (r_op (of_rows f))" "rows_show f fr strs is its" "at_point T pos rl (its @ [term_item f]) p"
    and "tracks f strs (unat (fr_size fr)) code \<sigma>0 s \<sigma>" "oir_rows f is s = Some (s', stop)"
  shows "\<exists>evs. os_out s' = os_out s @ evs \<and> (case stop of
      None \<Rightarrow> \<exists>q \<sigma>'. at_point T pos rl [term_item f] q \<and> p_site q = p_site p + length (concat (map item_tail its))
        \<and> tracks f strs (unat (fr_size fr)) code \<sigma>0 s' \<sigma>' \<and> exec_at rt rl p \<sigma> = map_prod ((@) evs) id (exec_at rt rl q \<sigma>')
    | Some (k, at) \<Rightarrow> \<exists>j \<tau>. j < length (concat (map item_tail its)) \<and> concat (map item_tail its) ! j = \<lparr>st_kind = k, st_fmir = at\<rparr>
        \<and> exec_at rt rl p \<sigma> = (evs, Leave (4 * int T + 4 * int (p_site p + j)) \<tau>))"
  using assms(2-6)
proof (induction "is" arbitrary: its p s \<sigma>)
  case Nil
  then show ?case by (intro exI [of _ "[]"]) (auto simp: map_prod_def)
next
  case (Cons i "is")
  from Cons.prems(2) obtain a b where ab: "its = a @ b" "row_shows f fr strs i a" "rows_show f fr strs is b" by auto
  from Cons.prems(5) obtain res where res: "oir_step f i s = Some res" by (auto split: Option.bind_splits)
  have i: "i < length (r_op (of_rows f))" "\<forall>i \<in> set is. i < length (r_op (of_rows f))" using Cons.prems(1) by simp_all
  have p: "at_point T pos rl (a @ b @ [term_item f]) p" using Cons.prems(3) ab(1) by simp
  from set i(1) ab(2) p Cons.prems(4) res show ?case
  proof (cases rule: step_row)
    case (falls s1 q evs \<sigma>1)
    have "oir_rows f is s1 = Some (s', stop)" using Cons.prems(5) res falls(1) by simp
    from Cons.IH [OF i(2) ab(3) falls(2,4) this] obtain evs' where e: "os_out s' = os_out s1 @ evs'"
      "case stop of
        None \<Rightarrow> \<exists>q' \<sigma>'. at_point T pos rl [term_item f] q' \<and> p_site q' = p_site q + length (concat (map item_tail b))
          \<and> tracks f strs (unat (fr_size fr)) code \<sigma>0 s' \<sigma>' \<and> exec_at rt rl q \<sigma>1 = map_prod ((@) evs') id (exec_at rt rl q' \<sigma>')
      | Some (k, at) \<Rightarrow> \<exists>j \<tau>. j < length (concat (map item_tail b)) \<and> concat (map item_tail b) ! j = \<lparr>st_kind = k, st_fmir = at\<rparr>
          \<and> exec_at rt rl q \<sigma>1 = (evs', Leave (4 * int T + 4 * int (p_site q + j)) \<tau>)" by blast
    show ?thesis
    proof (intro exI [of _ "evs @ evs'"] conjI)
      show "os_out s' = os_out s @ evs @ evs'" using e(1) falls(5) by simp
      show "case stop of
        None \<Rightarrow> \<exists>q' \<sigma>'. at_point T pos rl [term_item f] q' \<and> p_site q' = p_site p + length (concat (map item_tail its))
          \<and> tracks f strs (unat (fr_size fr)) code \<sigma>0 s' \<sigma>' \<and> exec_at rt rl p \<sigma> = map_prod ((@) (evs @ evs')) id (exec_at rt rl q' \<sigma>')
      | Some (k, at) \<Rightarrow> \<exists>j \<tau>. j < length (concat (map item_tail its)) \<and> concat (map item_tail its) ! j = \<lparr>st_kind = k, st_fmir = at\<rparr>
          \<and> exec_at rt rl p \<sigma> = (evs @ evs', Leave (4 * int T + 4 * int (p_site p + j)) \<tau>)"
      proof (cases stop)
        case None
        with e(2) falls(3,6) show ?thesis by (fastforce simp: ab(1) map_prod_def split: prod.splits)
      next
        case (Some kat)
        obtain k at where kat: "kat = (k, at)" by (cases kat) auto
        with e(2) Some obtain j \<tau> where j: "j < length (concat (map item_tail b))" "concat (map item_tail b) ! j = \<lparr>st_kind = k, st_fmir = at\<rparr>"
          "exec_at rt rl q \<sigma>1 = (evs', Leave (4 * int T + 4 * int (p_site q + j)) \<tau>)" by auto
        show ?thesis
          unfolding Some kat option.case prod.case
        proof (intro exI conjI)
          show "length (concat (map item_tail a)) + j < length (concat (map item_tail its))" using j(1) by (simp add: ab(1))
          show "concat (map item_tail its) ! (length (concat (map item_tail a)) + j) = \<lparr>st_kind = k, st_fmir = at\<rparr>"
            using j(1,2) by (simp add: ab(1) nth_append)
          show "exec_at rt rl p \<sigma> = (evs @ evs', Leave (4 * int T + 4 * int (p_site p + (length (concat (map item_tail a)) + j))) \<tau>)"
            using j(3) falls(3,6) by (simp add: add.assoc)
        qed
      qed
    qed
  next
    case (trap k j \<tau>)
    have "s' = s" "stop = Some (k, r_site (of_rows f) ! i)" using Cons.prems(5) res trap(1) by simp_all
    with trap(2-4) show ?thesis by (intro exI [of _ "[]"]) (auto simp: ab(1) nth_append intro!: exI [of _ j])
  qed
qed

section \<open>Exit\<close>

lemma framed_entry:
  assumes "framed fsz code \<sigma>0 \<sigma>" "frame_size fsz"
  shows "xregs \<sigma> 29 = spr \<sigma>0 - 16" "load64 (memory \<sigma>) (spr \<sigma>0 - 16) = xregs \<sigma>0 29" "load64 (memory \<sigma>) (spr \<sigma>0 - 8) = xregs \<sigma>0 30"
proof -
  have f: "spr \<sigma> = spr \<sigma>0 - 16 - word_of_nat fsz" "xregs \<sigma> 29 = spr \<sigma>0 - 16"
    "frame_word \<sigma> (fsz div 8) = xregs \<sigma>0 29" "frame_word \<sigma> (fsz div 8 + 1) = xregs \<sigma>0 30"
    using assms(1) by (simp_all add: framed_def)
  have "8 * (fsz div 8) = fsz" using assms(2) by (auto simp: frame_size_def elim: dvdE)
  moreover have "8 * (fsz div 8 + 1) = fsz + 8" using calculation by simp
  moreover have "spr \<sigma> + word_of_nat fsz = spr \<sigma>0 - 16" "spr \<sigma> + word_of_nat (fsz + 8) = spr \<sigma>0 - 8"
    by (simp_all add: f(1))
  ultimately show "xregs \<sigma> 29 = spr \<sigma>0 - 16" "load64 (memory \<sigma>) (spr \<sigma>0 - 16) = xregs \<sigma>0 29"
    "load64 (memory \<sigma>) (spr \<sigma>0 - 8) = xregs \<sigma>0 30"
    using f(2-4) by (simp_all only: frame_word_def)
qed

lemma run_ret:
  assumes p: "at_point T pos rl [term_item f] p" "of_term f = Term_Ret" and fr: "framed fsz code \<sigma>0 \<sigma>" "frame_size fsz"
  obtains \<tau> where "exec_at rt rl p \<sigma> = ([], Returned (xregs \<sigma>0 30) \<tau>)" "spr \<tau> = spr \<sigma>0" "xregs \<tau> 29 = xregs \<sigma>0 29"
proof -
  from p obtain s gf ws where s: "p_rest p = [s]" "build K_Epilogue gf = Some (ws, s)"
    by (auto simp: at_point_def row_built_def term_item_def term_key_def)
  then have b: "body K_Epilogue (seq_new gf) = Some s" by (auto simp: build_def split: Option.bind_splits)
  obtain \<tau> where t: "run (p_word p) (insts s @ []) \<sigma> = Returned (load64 (memory \<sigma>) (xregs \<sigma> 29 + 8)) \<tau>" "left_frame \<sigma> \<tau>"
    by (rule run_epilogue [OF b])
  note e = framed_entry [OF fr]
  show thesis
    using t by (intro that [of \<tau>]) (simp_all add: exec_at_def s(1) exec_code.simps left_frame_def e)
qed

lemma run_term_trap:
  assumes p: "at_point T pos rl [term_item f] p" "of_term f = Term_Trap k"
  shows "item_tail (term_item f) = [\<lparr>st_kind = k, st_fmir = of_term_site f\<rparr>]"
    "exec_at rt rl p \<sigma> = ([], Leave (4 * int T + 4 * int (p_site p)) \<sigma>)"
proof -
  let ?key = "K_TrapJump (trap_code k)"
  from p obtain s gf ws where s: "p_rest p = [s]" "?key \<in> set all_keys" "build ?key gf = Some (ws, s)" "T = p_word p + length (insts s)"
    "\<forall>j < length (sites s). f_trap gf ! j = 4 * int T + 4 * int (p_site p + j) - 4 * int (p_word p)"
    by (auto simp: at_point_def row_built_def term_item_def term_key_def)
  have b: "body ?key (seq_new gf) = Some s" using s(3) by (auto simp: build_def split: Option.bind_splits)
  have ne: "insts s \<noteq> []"
    using b by (auto simp: body_def trap_code_kind trap_holes emit_hole_def seq_fixed_def split: Option.bind_splits option.splits if_splits)
  have one: "sites s = [k]"
    using b by (auto simp: body_def trap_code_kind trap_holes emit_hole_def seq_fixed_def site_def seq_new_def hole_def
        split: Option.bind_splits option.splits if_splits)
  then have t: "f_trap gf ! 0 = 4 * int T + 4 * int (p_site p) - 4 * int (p_word p)" using s(5) by simp
  have "Suc 0 \<le> length (insts s)" using ne by (simp add: Suc_le_eq)
  with t s(4) have "4 \<le> f_trap gf ! 0" by simp
  from run_trap_jump(2) [OF b trap_code_kind this] have "run (p_word p) (insts s) \<sigma> = Leave (4 * int T + 4 * int (p_site p)) \<sigma>"
    using t by simp
  then show "exec_at rt rl p \<sigma> = ([], Leave (4 * int T + 4 * int (p_site p)) \<sigma>)"
    by (simp add: exec_at_def s(1) exec_code_leaves)
  show "item_tail (term_item f) = [\<lparr>st_kind = k, st_fmir = of_term_site f\<rparr>]"
  proof -
    have "key_sites ?key = [k]" using build_key(1) [OF s(3,2)] one by metis
    then show ?thesis by (simp add: term_item_def item_tail_def term_key_def p(2))
  qed
qed

section \<open>Entry\<close>

lemma run_prologue:
  assumes set: "setting f fr strs code \<sigma> rt pos T" and c: "code_loaded code \<sigma>"
    and p: "at_point T pos rl (prologue_item fr # its @ [term_item f]) p"
  obtains q \<sigma>' where "at_point T pos rl (its @ [term_item f]) q" "p_site q = p_site p + length (item_tail (prologue_item fr))"
    "tracks f strs (unat (fr_size fr)) code \<sigma> oir_start \<sigma>'" "exec_at rt rl p \<sigma> = exec_at rt rl q \<sigma>'"
proof -
  let ?fsz = "unat (fr_size fr)"
  let ?half = "ucast (fr_size fr) :: u16"
  note fr = setting_frame [OF set]
  obtain s ss where q: "p_rest p = s # ss" "row_built T pos (p_word p) (p_site p) (prologue_item fr) s"
    "length (sites s) = length (item_tail (prologue_item fr))" "p_word p + length (insts s) \<le> T" "T = p_word p + length (insts s) + length (code_of ss)"
    "rl = p_relocs p @ all_relocs (p_word p) (s # ss)" "before (p_word p) (p_relocs p)"
    "at_point T pos rl (its @ [term_item f]) \<lparr>p_word = p_word p + length (insts s), p_site = p_site p + length (item_tail (prologue_item fr)), p_rest = ss,
       p_relocs = p_relocs p @ call_relocs (4 * p_word p) (holes s)\<rparr>"
    by (rule at_point_next [OF p]) blast
  have ne: "code_of ss \<noteq> []" using q(8) built_nonempty unfolding at_point_def by fastforce
  have "\<forall>gf. refills (fill_default\<lparr>f_imm := [?half, 0, 0, 0]\<rparr>) gf \<longrightarrow> wp gf (body K_Prologue) (\<lambda>r. \<exists>\<sigma>'. r = Inr \<sigma>' \<and> entered ?half \<sigma> \<sigma>') \<sigma>"
    using body_prologue by (simp add: refills_def)
  from q(2) [unfolded prologue_item_def] ne q(5) this show thesis
  proof (cases rule: exec_stencil [where rt = rt and rs = rl])
    case (falls gf \<sigma>')
    then have e: "entered ?half \<sigma> \<sigma>'" by simp
    have half: "(ucast ?half :: u64) = word_of_nat ?fsz"
    proof (rule word_unat_eq_iff [THEN iffD2])
      have "?fsz < 2 ^ 16" using fr(1) by (simp add: frame_size_def MAX_FRAME_def)
      then show "unat (ucast ?half :: u64) = unat (word_of_nat ?fsz :: u64)"
        by (simp add: unsigned_ucast_eq unsigned_take_bit_eq take_bit_nat_eq_self)
    qed
    let ?B = "spr \<sigma> - 16 - word_of_nat ?fsz"
    have n: "8 * (?fsz div 8) = ?fsz" using fr(1) by (auto simp: frame_size_def elim: dvdE)
    have w: "?B + word_of_nat (8 * (?fsz div 8)) = spr \<sigma> - 16" "?B + word_of_nat (8 * (?fsz div 8 + 1)) = spr \<sigma> - 8"
      by (simp_all only: distrib_left n) (simp_all add: algebra_simps)
    have m: "memory \<sigma>' = store64 (store64 (memory \<sigma>) (?B + word_of_nat (8 * (?fsz div 8))) (xregs \<sigma> 29)) (?B + word_of_nat (8 * (?fsz div 8 + 1))) (xregs \<sigma> 30)"
      "spr \<sigma>' = ?B" "xregs \<sigma>' 29 = spr \<sigma> - 16" "code_base \<sigma>' = code_base \<sigma>"
      unfolding w using e [unfolded entered_def half] by blast+
    note b = frame_size_bounds [OF fr(1)]
    have k: "?fsz div 8 < 2 ^ 20" "?fsz div 8 + 1 < 2 ^ 20" "8 * (?fsz div 8) + 8 \<le> ?fsz + 16" "8 * (?fsz div 8 + 1) + 8 \<le> ?fsz + 16"
      "?fsz + 16 < 2 ^ 32" using b [of "?fsz div 8"] b [of "?fsz div 8 + 1"] by simp_all
    have "frame_word \<sigma>' (?fsz div 8) = xregs \<sigma> 29" "frame_word \<sigma>' (?fsz div 8 + 1) = xregs \<sigma> 30"
      unfolding frame_word_def m(1,2) load_store_word [OF k(2,1)] load_store_word [OF k(2,2)] load_store_word [OF k(1,1)] by simp_all
    moreover have "code_loaded code \<sigma>'"
    proof -
      have "stack_apart ?fsz code \<sigma>" using set by (simp add: setting_def)
      then have "\<not> unat (code_base \<sigma> + word_of_nat i - ?B) < ?fsz + 16" if "i < length code" for i
        using that by (auto simp: stack_apart_def not_less)
      note out = this
      show ?thesis
        unfolding code_loaded_def m(1,4)
        using c [unfolded code_loaded_def] store_outside [OF out k(3,5)] store_outside [OF out k(4,5)] by simp
    qed
    ultimately have "framed ?fsz code \<sigma> \<sigma>'" using m by (simp add: framed_def)
    then have "tracks f strs ?fsz code \<sigma> oir_start \<sigma>'" by (simp add: tracks_def valued_def oir_start_def)
    with q(8) falls(3) show thesis by (intro that [OF q(8)]) (simp_all add: exec_at_def q(1))
  qed simp
qed

end
