(* ===== verification/Codegen_Total.thy ===== *)
theory Codegen_Total
  imports Codegen_Correct
begin

text \<open>
  The code generator refuses nothing it should accept: a verified function of supported rows, in a frame
  of at most 32 KiB and small enough for the shortest branch of a stencil, is compiled.
\<close>

section \<open>The holes of a stencil\<close>

text \<open>A hole of every field has the kind that fits it, and names an entry of the fill.\<close>

definition good_hole :: "Hole \<Rightarrow> bool" where
  "good_hole h \<longleftrightarrow> (case h_field h of
     SlotA \<Rightarrow> h_kind h = LdSt64 | SlotB \<Rightarrow> h_kind h = LdSt64 | SlotDst \<Rightarrow> h_kind h = LdSt64
   | F_Imm k \<Rightarrow> h_kind h = Imm16 \<and> unat k < 4
   | F_Trap k \<Rightarrow> (h_kind h = Br19 \<or> h_kind h = Br14 \<or> h_kind h = Br26) \<and> unat k < 4
   | F_Call _ \<Rightarrow> h_kind h = Br26
   | F_Lit \<Rightarrow> h_kind h = Adr21)"

definition shaped :: "nat \<Rightarrow> (Seq \<Rightarrow> Seq option) \<Rightarrow> bool" where
  "shaped n m \<longleftrightarrow> (\<forall>s t. m s = Some t \<longrightarrow> length (sites s) \<le> 4 \<longrightarrow> (\<forall>h \<in> set (holes s). good_hole h)
     \<longrightarrow> length (sites t) \<le> 4 \<and> (\<forall>h \<in> set (holes t). good_hole h))"

lemma shaped_hole: "(\<And>w. good_hole \<lparr>h_word = w, h_kind = k, h_field = fl\<rparr>) \<Longrightarrow> shaped n (emit_hole k fl mk)"
  by (auto simp: shaped_def emit_hole_def hole_def seq_fixed_def split: option.splits if_splits)

lemma shaped_bind: "shaped n m \<Longrightarrow> shaped k m' \<Longrightarrow> shaped (n + k) (\<lambda>s. Option.bind (m s) m')"
  unfolding shaped_def
proof (intro allI impI)
  fix s t
  assume m: "\<forall>s t. m s = Some t \<longrightarrow> length (sites s) \<le> 4 \<longrightarrow> (\<forall>h \<in> set (holes s). good_hole h)
      \<longrightarrow> length (sites t) \<le> 4 \<and> (\<forall>h \<in> set (holes t). good_hole h)"
    and m': "\<forall>s t. m' s = Some t \<longrightarrow> length (sites s) \<le> 4 \<longrightarrow> (\<forall>h \<in> set (holes s). good_hole h)
      \<longrightarrow> length (sites t) \<le> 4 \<and> (\<forall>h \<in> set (holes t). good_hole h)"
    and s: "Option.bind (m s) m' = Some t" "length (sites s) \<le> 4" "\<forall>h \<in> set (holes s). good_hole h"
  from s(1) obtain u where u: "m s = Some u" "m' u = Some t" by (auto split: Option.bind_splits)
  from m u(1) s(2,3) have "length (sites u) \<le> 4" "\<forall>h \<in> set (holes u). good_hole h" by blast+
  with m' u(2) show "length (sites t) \<le> 4 \<and> (\<forall>h \<in> set (holes t). good_hole h)" by blast
qed

lemma site_index: "site kind s = Some (i, s') \<Longrightarrow> length (sites s) \<le> 4 \<Longrightarrow> unat i < 4 \<and> length (sites s') \<le> 4 \<and> holes s' = holes s"
  by (auto simp: site_def Let_def unat_of_nat take_bit_nat_eq_self split: option.splits if_splits dest!: position_less)

lemma shaped_site:
  assumes "k = Br19 \<or> k = Br14 \<or> k = Br26"
  shows "shaped n (\<lambda>s. Option.bind (site kind s) (\<lambda>(i, s). emit_hole k (F_Trap i) mk s))"
proof -
  have "shaped n (emit_hole k (F_Trap i) mk)" if "unat i < 4" for i
    using that assms by (intro shaped_hole) (auto simp: good_hole_def)
  note emits = this
  show ?thesis
    unfolding shaped_def
  proof (intro allI impI)
    fix s t
    assume s: "Option.bind (site kind s) (\<lambda>(i, s). emit_hole k (F_Trap i) mk s) = Some t" "length (sites s) \<le> 4"
      "\<forall>h \<in> set (holes s). good_hole h"
    then obtain i u where u: "site kind s = Some (i, u)" "emit_hole k (F_Trap i) mk u = Some t" by (auto split: Option.bind_splits)
    from site_index [OF u(1) s(2)] s(3) emits [of i] u(2)
    show "length (sites t) \<le> 4 \<and> (\<forall>h \<in> set (holes t). good_hole h)" unfolding shaped_def by metis
  qed
qed

interpretation sha: builder shaped UNIV
proof (rule builder.intro)
  show "is_ok r \<Longrightarrow> shaped 1 (seq_i r)" for r
    by (cases r) (auto simp: shaped_def seq_fixed_def)
  show "fl = SlotA \<or> fl = SlotB \<Longrightarrow> rt \<le> 30 \<Longrightarrow> shaped 1 (ldr_slot rt fl)" for fl rt
    by (subst slot_holes(1)) (auto simp: good_hole_def intro!: shaped_hole)
  show "rt \<le> 30 \<Longrightarrow> shaped 1 (str_slot rt SlotDst)" for rt
    by (subst slot_holes(2)) (auto simp: good_hole_def intro!: shaped_hole)
  show "unat i < 4 \<Longrightarrow> shaped 1 (movz_imm (xr rd) i 0)" for rd i
    unfolding mov_holes(1) by (rule shaped_hole) (simp add: good_hole_def)
  show "unat i < 4 \<Longrightarrow> sh \<in> {16, 32, 48} \<Longrightarrow> shaped 1 (movk_imm (xr rd) i sh)" for rd i sh
    by (subst mov_holes(2)) (auto simp: good_hole_def intro!: shaped_hole)
  show "shaped 1 (seq_bl rts)" for rts
    unfolding call_holes by (rule shaped_hole) (simp add: good_hole_def)
  show "shaped 1 (adr_lit (xr rd))" for rd
    unfolding call_holes by (rule shaped_hole) (simp add: good_hole_def)
qed (simp_all only: trap_holes shaped_site shaped_bind simp_thms, simp_all add: shaped_def)

text \<open>A fill that no stencil refuses: aligned slots of a frame, trap targets within the reach of \<^verbatim>\<open>tbnz\<close>
  and a literal within that of \<^verbatim>\<open>adr\<close>.\<close>

definition small_slot :: "u32 \<Rightarrow> bool" where
  "small_slot x \<longleftrightarrow> unat x mod 8 = 0 \<and> unat x \<le> 8 * 0xFFF"

definition small_slots :: "Fill \<Rightarrow> bool" where
  "small_slots f \<longleftrightarrow> small_slot (slot_a f) \<and> small_slot (slot_b f) \<and> small_slot (slot_dst f) \<and> length (f_imm f) = 4"

definition branch_reach :: "int \<Rightarrow> bool" where
  "branch_reach v \<longleftrightarrow> v mod 4 = 0 \<and> 0 \<le> v \<and> v < 32 * 1024"

definition fill_ready :: "Fill \<Rightarrow> bool" where
  "fill_ready f \<longleftrightarrow> small_slots f \<and> length (f_trap f) = 4 \<and> (\<forall>k < 4. branch_reach (f_trap f ! k)) \<and> branch_reach (f_call f)
     \<and> 0 \<le> f_lit f \<and> f_lit f < 2 ^ 20"

lemma small_slot_fits: "small_slot x \<Longrightarrow> 0 \<le> uint x \<and> uint x mod 8 = 0 \<and> uint x div 8 \<le> 0xFFF"
proof -
  assume x: "small_slot x"
  then obtain k where "unat x = 8 * k" "k \<le> 0xFFF" by (auto simp: small_slot_def elim!: dvdE)
  then have "uint x = 8 * int k" "int k \<le> 0xFFF" by (simp_all add: uint_nat)
  then show ?thesis by simp
qed

lemma branch_fits:
  assumes "branch_reach v" "0 \<le> w" "w < 30"
  shows "i64_sub v (4 * w) = Some (v - 4 * w)" "14 \<le> bits \<Longrightarrow> fits_signed (v - 4 * w) bits 4"
proof -
  obtain q where q: "v = 4 * q" "0 \<le> q" "q < 2 ^ 13" using assms(1) by (auto simp: branch_reach_def elim!: dvdE)
  then show "i64_sub v (4 * w) = Some (v - 4 * w)" using assms(2,3) by (simp add: i64_sub_def in_signed_def)
  assume "14 \<le> bits"
  then have "2 ^ 13 \<le> (2 :: int) ^ (bits - 1)" by (intro power_increasing) simp_all
  then have p: "8192 \<le> (2 :: int) ^ (bits - 1)" "q < 8192" using q(3) by simp_all
  have e: "v - 4 * w = 4 * (q - w)" using q(1) by simp
  have "- (2 ^ (bits - 1)) \<le> q - w" using p(1) q(2) assms(3) by linarith
  moreover have "q - w < 2 ^ (bits - 1)" using p assms(2) by linarith
  ultimately show "fits_signed (v - 4 * w) bits 4" unfolding e fits_signed_def Let_def by simp
qed

lemma good_hole_fits:
  assumes "good_hole h" "unat (h_word h) < 30" "fill_ready f"
  shows "hole_fits h f = Some True"
proof -
  have w: "0 \<le> uint (h_word h)" "uint (h_word h) < 30" unfolding uint_nat using assms(2) by linarith+
  have f: "small_slot (slot_a f)" "small_slot (slot_b f)" "small_slot (slot_dst f)" "length (f_imm f) = 4" "length (f_trap f) = 4"
    "\<And>k. k < 4 \<Longrightarrow> branch_reach (f_trap f ! k)" "branch_reach (f_call f)" "0 \<le> f_lit f" "f_lit f < 2 ^ 20"
    using assms(3) unfolding fill_ready_def small_slots_def by blast+
  show ?thesis
  proof (cases "h_field h")
    case (F_Imm k)
    have "uint (f_imm f ! unat k) \<le> 0xFFFF" using uint_lt2p [of "f_imm f ! unat k"] by simp
    with F_Imm assms(1) f(4) show ?thesis by (simp add: good_hole_def hole_fits_def field_value_def at_index_def)
  next
    case (F_Trap k)
    with assms(1) have k: "unat k < 4" "h_kind h = Br19 \<or> h_kind h = Br14 \<or> h_kind h = Br26" by (simp_all add: good_hole_def)
    from k(2) show ?thesis
      using F_Trap k(1) f(5) branch_fits [OF f(6) [OF k(1)] w] by (auto simp: hole_fits_def field_value_def at_index_def)
  next
    case (F_Call rts)
    with assms(1) show ?thesis
      using branch_fits [OF f(7) w] by (simp add: good_hole_def hole_fits_def field_value_def)
  next
    case F_Lit
    have l: "f_lit f < 1048576" using f(9) by simp
    have "- 1048576 \<le> f_lit f - 4 * uint (h_word h)" "f_lit f - 4 * uint (h_word h) < 1048576" using f(8) l w by linarith+
    with F_Lit assms(1) show ?thesis
      by (simp add: good_hole_def hole_fits_def field_value_def i64_sub_def in_signed_def fits_signed_def Let_def)
  qed (use assms(1) f(1-3) in \<open>simp_all add: good_hole_def hole_fits_def field_value_def small_slot_fits\<close>)
qed

lemma find_misfit_good: "\<forall>h \<in> set hs. hole_fits h f = Some True \<Longrightarrow> find_misfit hs f = Some None"
  by (induction hs) simp_all

text \<open>A stencil of the table on such a fill.\<close>

lemma stencil_ready:
  assumes "key \<in> set all_keys" "from_key key = Some st"
  shows "\<forall>h \<in> set (st_holes st). good_hole h \<and> unat (h_word h) < 30"
    "fill_ready f \<Longrightarrow> find_misfit (st_holes st) f = Some None"
    "fill_ready f \<Longrightarrow> \<exists>ws. instantiate_into st f out = Some (out @ ws) \<and> length ws = key_len key"
proof -
  have v: "valid_key key" by (rule all_keys_valid [OF assms(1)])
  from assms(2) obtain ws s where s: "build key placeholder = Some (ws, s)" "st_holes st = holes s"
    by (auto simp: from_key_def split: Option.bind_splits)
  note shape = build_shape [OF s(1) v]
  have "shaped 30 (body key)" by (rule sha.body [OF v]) simp
  then have "\<forall>h \<in> set (holes s). good_hole h" using shape(1) by (auto simp: shaped_def seq_new_def)
  moreover have "unat (h_word h) < 30" if "h \<in> set (holes s)" for h
    using hole_inside [OF s(1) assms(1) that] shape(4) by simp
  ultimately show h: "\<forall>h \<in> set (st_holes st). good_hole h \<and> unat (h_word h) < 30" using s(2) by simp
  assume f: "fill_ready f"
  have fits: "\<forall>h \<in> set (st_holes st). hole_fits h f = Some True" using h f good_hole_fits by blast
  then show "find_misfit (st_holes st) f = Some None" by (rule find_misfit_good)
  obtain st' and t :: Seq where st': "from_key key = Some st'" "st_holes st' = holes t"
    "\<And>f. if fits_all f (holes t)
      then \<exists>t' ws. build key f = Some (ws, t') \<and> holes t' = holes t \<and> sites t' = sites t
        \<and> patch_loop (holes t) f 0 (st_words st') = Some ws
      else build key f = None"
    by (rule from_key_run [OF v]) blast
  have e: "st' = st" using st'(1) assms(2) by simp
  have "fits_all f (holes t)" using fits st'(2) by (simp add: e fits_all_def)
  with st'(3) [of f] obtain u us where u: "build key f = Some (us, u)" "patch_loop (holes t) f 0 (st_words st) = Some us"
    by (auto simp: e)
  have "instantiate_into st f out = Some (out @ us)"
    using patch_loop_base [OF u(2), of out] st'(2) by (simp add: instantiate_into_def e)
  with build_key(3) [OF u(1) assms(1)] show "\<exists>ws. instantiate_into st f out = Some (out @ ws) \<and> length ws = key_len key" by blast
qed

section \<open>Emission\<close>

definition item_ready :: "OirFunc \<Rightarrow> item \<Rightarrow> bool" where
  "item_ready f it \<longleftrightarrow> (case it of (key, fill, lit, at) \<Rightarrow> small_slots fill \<and> f_trap fill = [0, 0, 0, 0] \<and> f_call fill = 0 \<and> f_lit fill = 0
     \<and> (lit = NO_LIT \<or> unat lit < length (of_strings f)))"

lemma unat_u32 [simp]: "n < 2 ^ 32 \<Longrightarrow> unat (word_of_nat n :: u32) = n"
  by (simp add: unat_of_nat take_bit_nat_eq_self)

lemma u32_add_total: "unat x + unat y < 2 ^ 32 \<Longrightarrow> \<exists>z. u32_add x y = Some z \<and> unat z = unat x + unat y"
proof -
  assume "unat x + unat y < 2 ^ 32"
  then have "u32_add x y = Some (x + y)" by (simp only: u32_add_def if_True)
  with u32_add_unat [OF this] show ?thesis by blast
qed

lemma u32_mul_total: "unat x * unat y < 2 ^ 32 \<Longrightarrow> \<exists>z. u32_mul x y = Some z \<and> unat z = unat x * unat y"
proof -
  assume "unat x * unat y < 2 ^ 32"
  then have "u32_mul x y = Some (x * y)" by (simp only: u32_mul_def if_True)
  with u32_mul_unat [OF this] show ?thesis by blast
qed

lemma brk_pos_total:
  assumes "unat ts + 4 * g < 2 ^ 32"
  shows "\<exists>p. brk_pos ts g = Some p \<and> unat p = unat ts + 4 * g"
proof -
  have g: "unat (word_of_nat g :: u32) = g" by (rule unat_u32) (use assms in linarith)
  obtain m where m: "u32_mul 4 (word_of_nat g) = Some m" "unat m = 4 * g"
    using u32_mul_total [of 4 "word_of_nat g"] assms g by auto
  have "unat ts + unat m < 2 ^ 32" using m(2) assms by simp
  from u32_add_total [OF this] m show ?thesis by (auto simp: brk_pos_def)
qed

lemma layout_rows_total:
  assumes "good_table t" "shows_from t lir k its" "unat code + sum_list (map item_len its) < 2 ^ 32"
  shows "\<exists>r. layout_rows t lir [k..<k + length its] (code, ts, first) = Some r"
  using assms(2,3)
proof (induction its arbitrary: k code ts first)
  case (Cons it its)
  obtain key fill lit at where it: "it = (key, fill, lit, at)" by (cases it) auto
  from Cons.prems(1) have sh: "shows_item t lir k (key, fill, lit, at)" "shows_from t lir (Suc k) its" by (simp_all add: it)
  obtain st where st: "lir_stencil t lir k = Some st" "from_key key = Some st" by (rule shows_stencil [OF assms(1) sh(1)])
  have key: "key \<in> set all_keys" "at_index (lr_site lir) k = Some at" using sh(1) by simp_all
  have u: "[k..<k + length (it # its)] = k # [Suc k..<Suc k + length its]" by (subst upt_conv_Cons) simp_all
  have "length (st_words st) = item_len it" by (simp add: key_len_def st(2) item_len_def it)
  moreover have "unat code + item_len it + sum_list (map item_len its) < 2 ^ 32" using Cons.prems(2) by simp
  ultimately obtain c where c: "u32_add code (word_of_nat (length (st_words st))) = Some c" "unat c = unat code + item_len it"
    using u32_add_total [of code "word_of_nat (length (st_words st))"] by auto
  with Cons.prems(2) have "unat c + sum_list (map item_len its) < 2 ^ 32" by simp
  from Cons.IH [OF sh(2) this] show ?case unfolding u by (simp add: st(1) add_sites_eq [OF key(2)] c(1))
qed simp

text \<open>The pool: what is placed and what may still be placed stays within the bytes of all strings.\<close>

definition unplaced :: "OirFunc \<Rightarrow> u32 option list \<Rightarrow> nat" where
  "unplaced f pos = (\<Sum>l < length (of_strings f). if pos ! l = None then length (of_strings f ! l) else 0)"

definition placed_within :: "OirFunc \<Rightarrow> nat \<Rightarrow> nat \<Rightarrow> u32 option list \<Rightarrow> bool" where
  "placed_within f lo hi pos \<longleftrightarrow> length pos = length (of_strings f)
     \<and> (\<forall>l < length pos. \<forall>p. pos ! l = Some p \<longrightarrow> lo \<le> unat p \<and> unat p \<le> hi)"

lemma unplaced_place:
  assumes "l < length (of_strings f)" "pos ! l = None" "length pos = length (of_strings f)"
  shows "unplaced f pos = unplaced f (pos[l := Some p]) + length (of_strings f ! l)"
proof -
  have e: "(\<Sum>j \<in> {..<length (of_strings f)} - {l}. if pos[l := Some p] ! j = None then length (of_strings f ! j) else 0)
    = (\<Sum>j \<in> {..<length (of_strings f)} - {l}. if pos ! j = None then length (of_strings f ! j) else 0)"
    by (rule sum.cong) auto
  show ?thesis
    unfolding unplaced_def
    using assms sum.remove [of "{..<length (of_strings f)}" l "\<lambda>j. if pos ! j = None then length (of_strings f ! j) else 0"]
      sum.remove [of "{..<length (of_strings f)}" l "\<lambda>j. if pos[l := Some p] ! j = None then length (of_strings f ! j) else 0"] e
    by simp
qed

lemma layout_pool_total:
  assumes "\<forall>i \<in> set is. \<exists>l. at_index (lr_lit lir) i = Some l \<and> (l = NO_LIT \<or> unat l < length (of_strings f))"
    and "placed_within f (unat ps) hi pos" "unat ps + length pool + unplaced f pos \<le> hi" "hi < 2 ^ 32"
  shows "\<exists>pool' pos'. layout_pool lir f ps is (pool, pos) = Some (pool', pos') \<and> placed_within f (unat ps) hi pos'
    \<and> unat ps + length pool' \<le> hi \<and> (\<forall>l < length pos. pos ! l \<noteq> None \<longrightarrow> pos' ! l \<noteq> None)
    \<and> (\<forall>i \<in> set is. \<forall>l. at_index (lr_lit lir) i = Some l \<longrightarrow> l \<noteq> NO_LIT \<longrightarrow> pos' ! unat l \<noteq> None)"
  using assms(1-3)
proof (induction "is" arbitrary: pool pos)
  case Nil
  then show ?case by simp
next
  case (Cons i "is")
  have n: "length pos = length (of_strings f)" using Cons.prems(2) by (simp add: placed_within_def)
  from Cons.prems(1) obtain l where l: "at_index (lr_lit lir) i = Some l" "l = NO_LIT \<or> unat l < length (of_strings f)" by auto
  have r: "\<forall>i \<in> set is. \<exists>l. at_index (lr_lit lir) i = Some l \<and> (l = NO_LIT \<or> unat l < length (of_strings f))" using Cons.prems(1) by simp
  show ?case
  proof (cases "l = NO_LIT \<or> pos ! unat l \<noteq> None")
    case True
    then have "layout_pool lir f ps (i # is) (pool, pos) = layout_pool lir f ps is (pool, pos)"
      using l n by (auto simp: at_index_def split: option.split)
    with Cons.IH [OF r Cons.prems(2,3)] True l n show ?thesis by auto
  next
    case False
    with l(2) have u: "unat l < length (of_strings f)" "pos ! unat l = None" "l \<noteq> NO_LIT" by auto
    let ?b = "of_strings f ! unat l"
    note pl = unplaced_place [OF u(1,2) n]
    have b: "unat ps + length pool + length ?b \<le> hi" using Cons.prems(3) pl [of undefined] by linarith
    then have k: "length pool < 2 ^ 32" "unat ps + length pool < 2 ^ 32" using assms(4) by linarith+
    with u32_add_total [of ps "word_of_nat (length pool)"] obtain p where
      p: "u32_add ps (word_of_nat (length pool)) = Some p" "unat p = unat ps + length pool" by (auto simp: unat_u32 [OF k(1)])
    let ?pos = "pos[unat l := Some p]"
    have e: "layout_pool lir f ps (i # is) (pool, pos) = layout_pool lir f ps is (pool @ ?b, ?pos)"
      using l(1) u n p(1) by (simp add: at_index_def)
    have "placed_within f (unat ps) hi ?pos"
      unfolding placed_within_def length_list_update
    proof (intro conjI allI impI n)
      fix j q
      assume "j < length pos" "?pos ! j = Some q"
      with Cons.prems(2) p(2) b show "unat ps \<le> unat q" "unat q \<le> hi"
        by (cases "j = unat l", simp_all add: placed_within_def)+
    qed
    moreover have "unat ps + length (pool @ ?b) + unplaced f ?pos \<le> hi" using Cons.prems(3) pl [of p] by simp
    ultimately obtain pool' pos' where q: "layout_pool lir f ps is (pool @ ?b, ?pos) = Some (pool', pos')" "placed_within f (unat ps) hi pos'"
      "unat ps + length pool' \<le> hi" "\<forall>l < length ?pos. ?pos ! l \<noteq> None \<longrightarrow> pos' ! l \<noteq> None"
      "\<forall>i \<in> set is. \<forall>l. at_index (lr_lit lir) i = Some l \<longrightarrow> l \<noteq> NO_LIT \<longrightarrow> pos' ! unat l \<noteq> None"
      using Cons.IH [OF r] by blast
    have "pos' ! unat l \<noteq> None" using q(4) u(1) n by simp
    moreover have "\<forall>j < length pos. pos ! j \<noteq> None \<longrightarrow> pos' ! j \<noteq> None" using q(4) u(2) by (metis length_list_update nth_list_update_neq)
    ultimately show ?thesis using q(1-3,5) l(1) unfolding e by auto
  qed
qed

lemma fill_traps_total:
  assumes "\<forall>k \<in> set ks. k < length (f_trap fill) \<and> unat ts + 4 * (g + k) < 2 ^ 32"
  shows "\<exists>fill'. fill_traps ts start g ks fill = Some fill'"
  using assms
proof (induction ks arbitrary: fill)
  case (Cons k ks)
  have "unat ts + 4 * (g + k) < 2 ^ 32" "k < length (f_trap fill)" using Cons.prems by simp_all
  with brk_pos_total [OF this(1)] obtain p where p: "brk_pos ts (g + k) = Some p" "k < length (f_trap fill)" by blast
  have "\<forall>j \<in> set ks. j < length (f_trap (fill\<lparr>f_trap := (f_trap fill)[k := uint p - uint start]\<rparr>)) \<and> unat ts + 4 * (g + j) < 2 ^ 32"
    using Cons.prems by simp
  from Cons.IH [OF this] p show ?case by (simp add: at_index_def)
qed simp

lemma fill_calls_total:
  assumes "\<forall>h \<in> set hs. unat (h_word h) < 30" "unat start < 2 ^ 31" "branch_reach (f_call fill)"
  shows "\<exists>fill' rs'. fill_calls start hs (fill, rs) = Some (fill', rs') \<and> branch_reach (f_call fill')"
  using assms(1,3)
proof (induction hs arbitrary: fill rs)
  case (Cons h hs)
  have hs: "\<forall>h \<in> set hs. unat (h_word h) < 30" "unat (h_word h) < 30" using Cons.prems(1) by simp_all
  show ?case
  proof (cases "\<exists>rts. h_field h = F_Call rts")
    case True
    have w: "unat (ucast (h_word h) :: u32) = unat (h_word h)" by (simp add: unat_ucast_up)
    have "unat (4 :: u32) * unat (ucast (h_word h) :: u32) < 2 ^ 32" using hs(2) w by simp
    from u32_mul_total [OF this] obtain m where m: "u32_mul 4 (ucast (h_word h)) = Some m" "unat m = 4 * unat (h_word h)" using w by auto
    have "unat start + unat m < 2 ^ 32" using m(2) hs(2) assms(2) by simp
    from u32_add_total [OF this] obtain off where off: "u32_add start m = Some off" by blast
    have "branch_reach (f_call (fill\<lparr>f_call := 4 * uint (h_word h)\<rparr>))"
    proof -
      have "uint (h_word h) < 30" unfolding uint_nat using hs(2) by linarith
      then show ?thesis by (simp add: branch_reach_def)
    qed
    from Cons.IH [OF hs(1) this] True m off show ?thesis by auto
  next
    case False
    with Cons.IH [OF hs(1) Cons.prems(2)] show ?thesis by (cases "h_field h") auto
  qed
qed simp

lemma emit_row_total:
  assumes t: "good_table t" "shows_item t lir i it" "item_ready f it" and g: "at_index first i = Some g"
    and T: "unat ts = 4 * T" "length words + item_len it \<le> T" "T + (g + length (item_tail it)) \<le> 2 ^ 13"
    and lit: "placed_within f (4 * T) (2 ^ 20 - 1) pos" "\<forall>l. at_index (lr_lit lir) i = Some l \<longrightarrow> l \<noteq> NO_LIT \<longrightarrow> pos ! unat l \<noteq> None"
  shows "\<exists>ws rs. emit_row show_misfit t lir f ts first pos i (words, relocs) = Some (Inr (words @ ws, rs)) \<and> length ws = item_len it"
proof -
  obtain key fill lit at where it: "it = (key, fill, lit, at)" by (cases it) auto
  obtain st where st: "lir_stencil t lir i = Some st" "from_key key = Some st" by (rule shows_stencil [OF t(1) t(2) [unfolded it]])
  have i: "key \<in> set all_keys" "at_index (lr_fill lir) i = Some fill" "at_index (lr_lit lir) i = Some lit"
    using t(2) by (simp_all add: it)
  have fill: "small_slots fill" "f_trap fill = [0, 0, 0, 0]" "f_call fill = 0" "f_lit fill = 0" "lit = NO_LIT \<or> unat lit < length (of_strings f)"
    using t(3) by (simp_all add: item_ready_def it)
  let ?ks = "[0..<length (st_sites st)]"
  have ns: "length (st_sites st) = length (item_tail it)" "length (st_sites st) \<le> 4"
    using key_shape(2) [OF i(1)] by (simp_all add: item_tail_def it key_sites_def st(2))
  have T13: "T \<le> 8192" "length words \<le> 8192" using T(2,3) by simp_all
  then have "unat (4 :: u32) * unat (word_of_nat (length words) :: u32) < 2 ^ 32" by simp
  from u32_mul_total [OF this] T13 obtain start where start: "u32_mul 4 (word_of_nat (length words)) = Some start" "unat start = 4 * length words"
    by auto
  have b: "T + (g + k) < 8192" if "k \<in> set ?ks" for k using that T(3) ns(1) by simp
  have "\<forall>k \<in> set ?ks. k < length (f_trap fill) \<and> unat ts + 4 * (g + k) < 2 ^ 32"
    using b ns(2) T(1) by (fastforce simp: fill(2))
  from fill_traps_total [OF this] obtain f1 where f1: "fill_traps ts start g ?ks fill = Some f1" by blast
  have "\<forall>k \<in> set ?ks. g + k < 2 ^ 32" using b by fastforce
  note tr = fill_traps_Some [OF f1 _ this, simplified]
  have reach: "branch_reach (f_trap f1 ! k)" if "k < 4" for k
  proof (cases "k \<in> set ?ks")
    case True
    have "f_trap f1 ! k = 4 * int (T + (g + k) - length words)" "T + (g + k) - length words < 8192"
      using tr True T(1,2) start(2) b [OF True] by (simp_all add: uint_nat of_nat_diff del: int_nat_eq)
    then show ?thesis by (simp add: branch_reach_def)
  next
    case False
    with tr that show ?thesis by (auto simp: fill(2) branch_reach_def nth_Cons')
  qed
  have "\<exists>f2. fill_lit lir pos start i f1 = Some f2 \<and> (\<exists>v. f2 = f1\<lparr>f_lit := v\<rparr> \<and> 0 \<le> v \<and> v < 2 ^ 20)"
  proof (cases "lit = NO_LIT")
    case True
    with tr fill(4) show ?thesis by (auto simp: fill_lit_def i(3) intro!: exI [of _ 0])
  next
    case False
    with fill(5) have l: "unat lit < length pos" using lit(1) by (simp add: placed_within_def)
    with lit(2) False i(3) obtain p where p: "pos ! unat lit = Some p" by auto
    with lit(1) l have u: "4 * T \<le> unat p" "unat p \<le> 2 ^ 20 - 1" by (auto simp: placed_within_def)
    have le: "4 * length words \<le> unat p" using u(1) T(2) by linarith
    have "uint p - uint start = int (unat p - 4 * length words)"
      unfolding uint_nat start(2) by (rule of_nat_diff [OF le, symmetric])
    moreover have "unat p - 4 * length words < 2 ^ 20" using u(2) by simp
    ultimately have "0 \<le> uint p - uint start" "uint p - uint start < 2 ^ 20" by simp_all
    moreover have "at_index pos (unat lit) = Some (Some p)" using p l by (simp add: at_index_def)
    then have "fill_lit lir pos start i f1 = Some (f1\<lparr>f_lit := uint p - uint start\<rparr>)" using False by (simp add: fill_lit_def i(3))
    ultimately show ?thesis by blast
  qed
  then obtain f2 v where f2: "fill_lit lir pos start i f1 = Some f2" "f2 = f1\<lparr>f_lit := v\<rparr>" "0 \<le> v" "v < 2 ^ 20" by blast
  note ready = stencil_ready [OF i(1) st(2)]
  have "branch_reach (f_call f2)" "unat start < 2 ^ 31" using tr fill(3) f2(2) start(2) T13 by (simp_all add: branch_reach_def)
  with fill_calls_total [of "st_holes st" start f2 relocs] ready(1) obtain f3 rs where
    f3: "fill_calls start (st_holes st) (f2, relocs) = Some (f3, rs)" "branch_reach (f_call f3)" by blast
  note ca = fill_calls_Some [OF f3(1)]
  have "fill_ready f3"
    using ca f2(2-4) tr reach fill(1,2) f3(2) by (simp add: fill_ready_def small_slots_def)
  from ready(2,3) [OF this] obtain ws where "find_misfit (st_holes st) f3 = Some None" "instantiate_into st f3 words = Some (words @ ws)"
    "length ws = key_len key" by blast
  then show ?thesis
    by (auto simp: emit_row_def st(1) start(1) i g f1 f2(1) f3(1) item_len_def it)
qed

lemma emit_rows_total:
  assumes t: "good_table t" and T: "unat ts = 4 * T" and pos: "placed_within f (4 * T) (2 ^ 20 - 1) pos"
    and "shows_from t lir k its" "\<forall>it \<in> set its. item_ready f it"
    and "length words + sum_list (map item_len its) \<le> T" "T + (g + length (concat (map item_tail its))) \<le> 2 ^ 13"
    and "first = f0 @ firsts g its" "length f0 = k"
    and "\<forall>i \<in> {k..<k + length its}. \<forall>l. at_index (lr_lit lir) i = Some l \<longrightarrow> l \<noteq> NO_LIT \<longrightarrow> pos ! unat l \<noteq> None"
  shows "\<exists>ws rs. emit_rows show_misfit t lir f ts first pos [k..<k + length its] (words, relocs) = Some (Inr (words @ ws, rs))
    \<and> length ws = sum_list (map item_len its)"
  using assms(4-)
proof (induction its arbitrary: k words relocs g f0)
  case (Cons it its)
  have u: "[k..<k + length (it # its)] = k # [Suc k..<Suc k + length its]" by (subst upt_conv_Cons) simp_all
  have sh: "shows_item t lir k it" "shows_from t lir (Suc k) its" "item_ready f it" using Cons.prems(1,2) by simp_all
  have at: "at_index first k = Some g" using Cons.prems(5,6) by (simp add: at_index_def nth_append)
  have b: "length words + item_len it \<le> T" "T + (g + length (item_tail it)) \<le> 2 ^ 13"
    "\<forall>l. at_index (lr_lit lir) k = Some l \<longrightarrow> l \<noteq> NO_LIT \<longrightarrow> pos ! unat l \<noteq> None"
    using Cons.prems(3,4) bspec [OF Cons.prems(7), of k] by simp_all
  from emit_row_total [OF t sh(1,3) at T b(1,2) pos b(3)] obtain ws rs where
    r: "emit_row show_misfit t lir f ts first pos k (words, relocs) = Some (Inr (words @ ws, rs))" "length ws = item_len it" by blast
  have c: "\<forall>it \<in> set its. item_ready f it" "length (words @ ws) + sum_list (map item_len its) \<le> T"
    "T + (g + length (item_tail it) + length (concat (map item_tail its))) \<le> 2 ^ 13"
    "first = (f0 @ [g]) @ firsts (g + length (item_tail it)) its" "length (f0 @ [g]) = Suc k"
    using Cons.prems(2-6) r(2) by simp_all
  have "{Suc k..<Suc k + length its} \<subseteq> {k..<k + length (it # its)}" by auto
  with Cons.prems(7) have p: "\<forall>i \<in> {Suc k..<Suc k + length its}. \<forall>l. at_index (lr_lit lir) i = Some l \<longrightarrow> l \<noteq> NO_LIT \<longrightarrow> pos ! unat l \<noteq> None"
    by blast
  from Cons.IH [OF sh(2) c p] obtain vs rs' where "emit_rows show_misfit t lir f ts first pos [Suc k..<Suc k + length its] (words @ ws, rs)
      = Some (Inr ((words @ ws) @ vs, rs'))" "length vs = sum_list (map item_len its)" by blast
  then show ?case unfolding u using r by (intro exI [of _ "ws @ vs"] exI [of _ rs']) simp
qed auto

lemma tail_rows_total:
  assumes "unat ts + 4 * (g + length tail) < 2 ^ 32"
  shows "\<exists>rows. tail_rows ts lines (enumerate g tail) = Some rows"
  using assms
proof (induction tail arbitrary: g)
  case (Cons s tail)
  have b: "unat ts + 4 * g < 2 ^ 32" "unat ts + 4 * (Suc g + length tail) < 2 ^ 32" using Cons.prems by simp_all
  from brk_pos_total [OF b(1)] obtain p where "brk_pos ts g = Some p" by blast
  with Cons.IH [OF b(2)] show ?case by (auto simp: tail_row_def split: prod.split)
qed simp

lemma items_small:
  assumes "shows_from t lir k its"
  shows "sum_list (map item_len its) \<le> 30 * length its" "length (concat (map item_tail its)) \<le> 4 * length its"
  using assms
proof (induction its arbitrary: k)
  case (Cons it its)
  obtain key fill lit at where it: "it = (key, fill, lit, at)" by (cases it) auto
  {
    case 1
    then have k: "key \<in> set all_keys" "shows_from t lir (Suc k) its" by (simp_all add: it)
    from Cons.IH(1) [OF k(2)] key_shape(3) [OF k(1)] show ?case by (simp add: item_len_def it)
  next
    case 2
    then have k: "key \<in> set all_keys" "shows_from t lir (Suc k) its" by (simp_all add: it)
    from Cons.IH(2) [OF k(2)] key_shape(2) [OF k(1)] show ?case by (simp add: item_tail_def it)
  }
qed simp_all

lemma items_ready_lits:
  assumes "shows_from t lir k its" "\<forall>it \<in> set its. item_ready f it"
  shows "\<forall>i \<in> set [k..<k + length its]. \<exists>l. at_index (lr_lit lir) i = Some l \<and> (l = NO_LIT \<or> unat l < length (of_strings f))"
  using assms
proof (induction its arbitrary: k)
  case (Cons it its)
  have u: "[k..<k + length (it # its)] = k # [Suc k..<Suc k + length its]" by (subst upt_conv_Cons) simp_all
  have "\<forall>i \<in> set [Suc k..<Suc k + length its]. \<exists>l. at_index (lr_lit lir) i = Some l \<and> (l = NO_LIT \<or> unat l < length (of_strings f))"
    by (rule Cons.IH) (use Cons.prems in simp_all)
  moreover have "\<exists>l. at_index (lr_lit lir) k = Some l \<and> (l = NO_LIT \<or> unat l < length (of_strings f))"
    using Cons.prems by (cases it) (simp add: item_ready_def)
  ultimately show ?case unfolding u by simp
qed simp

definition string_bytes :: "OirFunc \<Rightarrow> nat" where
  "string_bytes f = sum_list (map length (of_strings f))"

lemma pad4_length: "length (pad4 xs) \<le> length xs + 3"
proof -
  have "(4 - length xs mod 4) mod 4 \<le> 3" using mod_less_divisor [of 4 "4 - length xs mod 4"] by linarith
  then show ?thesis by (simp add: pad4_def)
qed

lemma emit_in_total:
  assumes t: "good_table t" "shows_items t lir its" "\<forall>it \<in> set its. item_ready f it"
    and b: "length its \<le> 240" "string_bytes f \<le> 1000000"
  shows "\<exists>atom. emit_in show_misfit t lir f name = Some (Inr atom) \<and> length (at_code atom) < 2 ^ 32"
proof -
  let ?rows = "[0..<0 + length its]" and ?T = "sum_list (map item_len its)" and ?tail = "concat (map item_tail its)"
  have n: "length (lr_stencil lir) = length its" and sh: "shows_from t lir 0 its" using t(2) by (simp_all add: shows_items_def)
  note small = items_small [OF sh]
  have T: "?T + length ?tail \<le> 2 ^ 13" "?T \<le> 7200" "length ?tail \<le> 960" using small b(1) by simp_all
  have "unat (0 :: u32) + ?T < 2 ^ 32" using T(2) by simp
  from layout_rows_total [OF t(1) sh this, of "[]" "[]"] obtain cw tail first where
    r: "layout_rows t lir ?rows (0, [], []) = Some (cw, tail, first)" by (metis prod_cases3)
  from layout_rows_Some [OF r t(1) sh] have lay: "unat cw = ?T" "tail = ?tail" "first = firsts 0 its" by simp_all
  have "unat (4 :: u32) * unat cw < 2 ^ 32" using lay(1) T(2) by simp
  from u32_mul_total [OF this] obtain ts where ts: "u32_mul 4 cw = Some ts" "unat ts = 4 * ?T" by (auto simp: lay(1))
  have l32: "length tail < 2 ^ 32" using T(3) by (simp add: lay(2))
  have "unat (4 :: u32) * unat (word_of_nat (length tail) :: u32) < 2 ^ 32" unfolding unat_u32 [OF l32] using T(3) by (simp add: lay(2))
  from u32_mul_total [OF this] obtain m where m: "u32_mul 4 (word_of_nat (length tail)) = Some m" "unat m = 4 * length tail"
    unfolding unat_u32 [OF l32] by auto
  have "unat ts + unat m < 2 ^ 32" using ts(2) m(2) T(2,3) by (simp add: lay(2))
  from u32_add_total [OF this] obtain ps where ps: "u32_add ts m = Some ps" "unat ps = 4 * ?T + 4 * length tail" using ts(2) m(2) by auto
  let ?none = "replicate (length (of_strings f)) None"
  have "unplaced f ?none = string_bytes f"
    by (simp add: unplaced_def string_bytes_def sum_list_sum_nth atLeast0LessThan)
  then have up: "unat ps + length ([] :: u8 list) + unplaced f ?none \<le> 2 ^ 20 - 1"
    using ps(2) T b(2) by (simp add: lay(2))
  have pl: "placed_within f (unat ps) (2 ^ 20 - 1) ?none" by (auto simp: placed_within_def)
  have hi: "2 ^ 20 - 1 < (2 :: nat) ^ 32" by simp
  from layout_pool_total [OF items_ready_lits [OF sh t(3)] pl up hi] obtain pool pos where
    pool: "layout_pool lir f ps ?rows ([], ?none) = Some (pool, pos)" "placed_within f (unat ps) (2 ^ 20 - 1) pos"
      "unat ps + length pool \<le> 2 ^ 20 - 1"
      "\<forall>i \<in> set ?rows. \<forall>l. at_index (lr_lit lir) i = Some l \<longrightarrow> l \<noteq> NO_LIT \<longrightarrow> pos ! unat l \<noteq> None" by blast
  have within: "placed_within f (4 * ?T) (2 ^ 20 - 1) pos" using pool(2) ps(2) by (fastforce simp: placed_within_def)
  have "length ([] :: u32 list) + ?T \<le> ?T" "?T + (0 + length ?tail) \<le> 2 ^ 13" "first = [] @ firsts 0 its" "length ([] :: nat list) = 0"
    "\<forall>i \<in> {0..<0 + length its}. \<forall>l. at_index (lr_lit lir) i = Some l \<longrightarrow> l \<noteq> NO_LIT \<longrightarrow> pos ! unat l \<noteq> None"
    using T(1) lay(3) pool(4) by simp_all
  from emit_rows_total [OF t(1) ts(2) within sh t(3) this, of show_misfit "[]"] obtain ws rs where
    ws: "emit_rows show_misfit t lir f ts first pos ?rows ([], []) = Some (Inr (ws, rs))" "length ws = ?T" by auto
  have "unat ts + 4 * (0 + length tail) < 2 ^ 32" using ts(2) T(2,3) by (simp add: lay(2))
  from tail_rows_total [OF this] obtain traps where traps: "tail_rows ts (of_sites f) (enumerate 0 tail) = Some traps" by blast
  let ?words = "ws @ map (brk_word \<circ> st_kind) tail"
  let ?atom = "\<lparr>at_name = name, at_code = pad4 (concat (map le_bytes ?words) @ pool), at_relocs = rs, at_traps = traps\<rparr>"
  have "emit_in show_misfit t lir f name = Some (Inr ?atom)"
    using r ts(1) m(1) ps(1) pool(1) ws(1) emit_brks_eq [OF t(1), of tail ws] traps
    by (simp add: emit_in_def Let_def n fold_push_word)
  moreover have "length (concat (map le_bytes us)) = 4 * length us" for us by (induction us) (simp_all add: le_bytes_def)
  then have "length (concat (map le_bytes ?words) @ pool) = 4 * length ?words + length pool" by (simp only: length_append)
  then have "length (at_code ?atom) \<le> 4 * length ?words + length pool + 3" using pad4_length [of "concat (map le_bytes ?words) @ pool"] by simp
  then have "length (at_code ?atom) < 2 ^ 32" using ws(2) T(2,3) pool(3) by (simp add: lay(2))
  ultimately show ?thesis by blast
qed

section \<open>Selection\<close>

text \<open>The table has a stencil for every key an integer row can ask for.\<close>

lemma enums: "set int_tys = UNIV" "set preds = UNIV"
proof -
  show "set int_tys = UNIV" unfolding int_tys_def by (auto intro: IntTy.exhaust)
  show "set preds = UNIV" unfolding preds_def by (auto intro: Pred.exhaust)
qed

lemma keys_complete:
  "K_Bin op mode ty \<in> set all_keys"
  "K_Shift sh mode ty c \<in> set all_keys"
  "ty_signed ty \<or> mode = M_Wrap \<Longrightarrow> K_Neg mode ty \<in> set all_keys"
  "K_Not ty \<in> set all_keys"
  "K_Conv cv ty to \<in> set all_keys"
  "K_Logic lg \<in> set all_keys"
  "K_Icmp p s \<in> set all_keys"
  "K_WriteUint c \<in> set all_keys"
proof -
  show "K_Bin op mode ty \<in> set all_keys" by (cases op; cases mode; simp add: all_keys_def enums)
  show "K_Shift sh mode ty c \<in> set all_keys" by (cases sh; cases mode; cases c; simp add: all_keys_def enums)
  show "ty_signed ty \<or> mode = M_Wrap \<Longrightarrow> K_Neg mode ty \<in> set all_keys" by (cases mode; auto simp: all_keys_def enums)
  show "K_Not ty \<in> set all_keys" by (simp add: all_keys_def enums)
  show "K_Conv cv ty to \<in> set all_keys" by (cases cv; auto simp: all_keys_def enums)
  show "K_Logic lg \<in> set all_keys" by (cases lg; auto simp: all_keys_def enums)
  show "K_Icmp p s \<in> set all_keys" by (cases s; auto simp: all_keys_def enums)
  show "K_WriteUint c \<in> set all_keys" by (cases c; auto simp: all_keys_def enums)
qed

text \<open>The rows the code generator has a stencil for. The verifier checks neither the types of operands nor
  the second operand of a unary row.\<close>

definition second_absent :: "OirFunc \<Rightarrow> nat \<Rightarrow> bool" where
  "second_absent f i \<longleftrightarrow> (let b = r_b (of_rows f) ! i in b = NONE \<or> unat b < length (v_ty (of_values f)))"

definition op_supported :: "OirFunc \<Rightarrow> nat \<Rightarrow> bool" where
  "op_supported f i \<longleftrightarrow> (let r = of_rows f; a = r_a r ! i; b = r_b r ! i; ty = r_ty r ! i; m = r_mode r ! i; vty = (\<lambda>v. v_ty (of_values f) ! unat v)
   in case r_op r ! i of
        O_ConstInt \<Rightarrow> low_is_int ty
      | O_ConstBool \<Rightarrow> ty \<noteq> Low_Unit
      | O_ConstUnit \<Rightarrow> True
      | O_ConstStr \<Rightarrow> True
      | O_Add \<Rightarrow> m \<noteq> Mode_None \<and> low_is_int ty
      | O_Sub \<Rightarrow> m \<noteq> Mode_None \<and> low_is_int ty
      | O_Mul \<Rightarrow> m \<noteq> Mode_None \<and> low_is_int ty
      | O_Div \<Rightarrow> m \<noteq> Mode_None \<and> low_is_int ty
      | O_Rem \<Rightarrow> m \<noteq> Mode_None \<and> low_is_int ty
      | O_Shl \<Rightarrow> m \<noteq> Mode_None \<and> low_is_int ty \<and> low_is_int (vty b)
      | O_Shr \<Rightarrow> m \<noteq> Mode_None \<and> low_is_int ty \<and> low_is_int (vty b)
      | O_Neg \<Rightarrow> m \<noteq> Mode_None \<and> low_is_int ty \<and> (low_signed ty \<or> m = Mode_Wrap) \<and> second_absent f i
      | O_And \<Rightarrow> True
      | O_Or \<Rightarrow> True
      | O_Xor \<Rightarrow> True
      | O_Not \<Rightarrow> (ty = Low_Bool \<or> low_is_int ty) \<and> second_absent f i
      | O_Icmp _ \<Rightarrow> True
      | O_ConvChecked \<Rightarrow> low_is_int (vty a) \<and> low_is_int ty \<and> second_absent f i
      | O_ConvWrap \<Rightarrow> low_is_int (vty a) \<and> low_is_int ty \<and> second_absent f i
      | O_ConvSat \<Rightarrow> low_is_int (vty a) \<and> low_is_int ty \<and> second_absent f i
      | O_SlotLoad \<Rightarrow> ty \<noteq> Low_Unit
      | O_SlotStore \<Rightarrow> True
      | O_WriteUint \<Rightarrow> True
      | O_WriteLine \<Rightarrow> list_ex (\<lambda>j. r_op r ! j = O_ConstStr \<and> r_dst r ! j = a \<and> r_a r ! j \<noteq> NONE \<and> unat (r_a r ! j) < length (of_strings f))
          [0..<length (r_op r)]
      | O_Tile \<Rightarrow> False)"

definition row_supported :: "OirFunc \<Rightarrow> nat \<Rightarrow> bool" where
  "row_supported f i \<longleftrightarrow> (let d = r_dst (of_rows f) ! i
     in (d \<noteq> NONE \<longrightarrow> \<not> v_secret (of_values f) ! unat d) \<and> op_supported f i)"

lemma low_int_of: "low_is_int ty \<longleftrightarrow> (\<exists>t. int_ty_of ty = Some t)" "int_ty_of ty = Some t \<Longrightarrow> low_signed ty = ty_signed t"
  by (cases ty; auto simp: low_is_int_def LOW_INTS_def low_signed_def)+

lemma operand_in_range:
  assumes "verified f" "i < length (r_op (of_rows f))" "v \<in> set (value_cols (r_op (of_rows f) ! i) (r_a (of_rows f) ! i) (r_b (of_rows f) ! i))"
  shows "v \<noteq> NONE" "unat v < length (v_ty (of_values f))"
proof -
  have "defined_before (of_rows f) i v" using assms by (simp add: verified_def row_ok_def Let_def)
  then obtain j where j: "v \<noteq> NONE" "j < i" "r_dst (of_rows f) ! j = v" by (auto simp: defined_before_def)
  have "row_ok f j" using assms(1,2) j(2) by (simp add: verified_def Let_def)
  with j show "v \<noteq> NONE" "unat v < length (v_ty (of_values f))" by (auto simp: row_ok_def Let_def split: if_splits)
qed

lemma dst_in_range:
  assumes "verified f" "i < length (r_op (of_rows f))" "r_dst (of_rows f) ! i \<noteq> NONE"
  shows "unat (r_dst (of_rows f) ! i) < length (v_ty (of_values f))"
  using assms by (simp add: verified_def row_ok_def Let_def)

lemma key_selected:
  assumes v: "verified f" "i < length (r_op (of_rows f))" and s: "op_supported f i"
  shows "key_of f i = Some None \<and> (r_op (of_rows f) ! i = O_ConstUnit \<or> r_op (of_rows f) ! i = O_ConstStr)
    \<or> (\<exists>key \<in> set all_keys. key_of f i = Some (Some key)) \<and> r_op (of_rows f) ! i \<noteq> O_ConstUnit \<and> r_op (of_rows f) ! i \<noteq> O_ConstStr"
proof -
  note c = verified_columns [OF v]
  have std: "K_Const \<in> set all_keys" "K_Copy \<in> set all_keys" "K_NotBool \<in> set all_keys" "K_WriteLine \<in> set all_keys"
    by (simp_all add: all_keys_def)
  have ty: "at_index (v_ty (of_values f)) (unat x) = Some (v_ty (of_values f) ! unat x)"
    if "x \<in> set (value_cols (r_op (of_rows f) ! i) (r_a (of_rows f) ! i) (r_b (of_rows f) ! i))" for x
    using operand_in_range(2) [OF v that] by (simp add: at_index_def)
  have m: "ar m = None \<longleftrightarrow> m = Mode_None" for m by (cases m) simp_all
  show ?thesis
    using s ty
    by (cases "r_op (of_rows f) ! i"; cases "r_mode (of_rows f) ! i")
      (auto simp: key_of_def op_supported_def c Let_def value_cols_def low_int_of keys_complete std)
qed

lemma value_slot:
  assumes "frame_of f = Some fr" "unat v < length (v_ty (of_values f))"
  shows "\<exists>x. frame_value fr v = Some x \<and> small_slot x"
proof -
  have "8 * unat v \<le> 8 * 0xFFF" using frame_of_Some(1,3) [OF assms(1)] assms(2) by (simp add: MAX_FRAME_def)
  moreover from this have "unat (8 :: u32) * unat v < 2 ^ 32" by simp
  from u32_mul_total [OF this] obtain x where "u32_mul 8 v = Some x" "unat x = 8 * unat v" by auto
  ultimately show ?thesis by (auto simp: frame_value_def small_slot_def)
qed

lemma place_slot:
  assumes "frame_of f = Some fr" "unat p < length (of_slots f)"
  shows "\<exists>x. frame_place fr p = Some x \<and> small_slot x"
proof -
  note n = frame_of_Some(4) [OF assms(1)]
  have b: "unat (fr_values fr) + unat p \<le> 0xFFF" using frame_of_Some(1,3) [OF assms(1)] assms(2) n by (simp add: MAX_FRAME_def)
  then have "unat (fr_values fr) + unat p < 2 ^ 32" by simp
  from u32_add_total [OF this] obtain y where y: "u32_add (fr_values fr) p = Some y" "unat y = unat (fr_values fr) + unat p" by blast
  have "unat (8 :: u32) * unat y < 2 ^ 32" using b y(2) by simp
  from u32_mul_total [OF this] obtain x where "u32_mul 8 y = Some x" "unat x = 8 * unat y" by auto
  with y b show ?thesis by (auto simp: frame_place_def small_slot_def)
qed

lemma fill_default_ready: "small_slots fill_default" "f_trap fill_default = [0, 0, 0, 0]" "f_call fill_default = 0" "f_lit fill_default = 0"
  "small_slot (slot_b fill_default)" "small_slot (slot_dst fill_default)" "small_slot (slot_a fill_default)" "length (f_imm fill_default) = 4"
  by (simp_all add: fill_default_def small_slots_def small_slot_def)

lemma row_fill_ready:
  assumes v: "verified f" "i < length (r_op (of_rows f))" and s: "op_supported f i" and fr: "frame_of f = Some fr"
    and st: "strs_ok f strs" "length strs = length (v_ty (of_values f))" "string_bytes f \<le> 1000000"
    and n: "r_op (of_rows f) ! i \<noteq> O_ConstUnit" "r_op (of_rows f) ! i \<noteq> O_ConstStr"
  shows "\<exists>fill lit. row_fill f fr strs i = Some (Inr (fill, lit)) \<and> item_ready f (key, fill, lit, at)"
proof -
  let ?r = "of_rows f"
  let ?op = "r_op ?r ! i" and ?a = "r_a ?r ! i" and ?b = "r_b ?r ! i" and ?d = "r_dst ?r ! i"
  note c = verified_columns [OF v]
  note use = operand_in_range [OF v]
  have vs: "\<exists>x. frame_value fr y = Some x \<and> small_slot x" if "y \<in> set (value_cols ?op ?a ?b)" for y
    by (rule value_slot [OF fr use(2) [OF that]])
  have ds: "\<exists>x. frame_value fr ?d = Some x \<and> small_slot x" if "?d \<noteq> NONE"
    by (rule value_slot [OF fr dst_in_range [OF v that]])
  have dty: "?d \<noteq> NONE" if "r_ty ?r ! i \<noteq> Low_Unit" using verified_dst(1) [OF v that] .
  have pl: "\<exists>x. frame_place fr ?a = Some x \<and> small_slot x" if "is_slot_row ?op"
  proof (rule place_slot [OF fr])
    have "slot_ok f i" using v by (simp add: verified_def row_ok_def Let_def)
    with that show "unat ?a < length (of_slots f)" by (simp add: slot_ok_def Let_def)
  qed
  have bs: "\<exists>x. frame_value fr ?b = Some x \<and> small_slot x" if "?b \<noteq> NONE" "second_absent f i \<or> ?b \<in> set (value_cols ?op ?a ?b)"
    using that vs value_slot [OF fr] by (auto simp: second_absent_def Let_def)
  note ready = item_ready_def small_slots_def fill_default_ready
  consider (int) "?op = O_ConstInt" | (bool) "?op = O_ConstBool" | (load) "?op = O_SlotLoad" | (store) "?op = O_SlotStore"
    | (uint) "?op = O_WriteUint" | (line) "?op = O_WriteLine" | (plain) "?a \<in> set (value_cols ?op ?a ?b)"
      "second_absent f i \<or> ?b \<in> set (value_cols ?op ?a ?b)" "plain_row ?op"
    using s n by (cases ?op) (auto simp: op_supported_def Let_def value_cols_def plain_row_def)
  then show ?thesis
  proof cases
    case int
    with s have ty: "low_is_int (r_ty ?r ! i)" by (simp add: op_supported_def Let_def)
    then have "r_ty ?r ! i \<noteq> Low_Unit" by (auto simp: low_is_int_def LOW_INTS_def)
    with ds dty ty show ?thesis by (auto simp: row_fill_def int c Let_def low_int_of(1) ready)
  next
    case bool
    with s ds dty show ?thesis by (auto simp: row_fill_def bool c Let_def op_supported_def ready)
  next
    case load
    with s ds dty pl show ?thesis by (auto simp: row_fill_def load c Let_def op_supported_def is_slot_row_def ready)
  next
    case store
    with vs [of ?b] pl show ?thesis by (auto simp: row_fill_def store c Let_def is_slot_row_def value_cols_def ready)
  next
    case uint
    with vs [of ?a] show ?thesis by (auto simp: row_fill_def uint c Let_def value_cols_def ready)
  next
    case line
    then have a: "?a \<noteq> NONE" "unat ?a < length strs" using use [of ?a] st(2) by (simp_all add: value_cols_def)
    from line s obtain j where j: "j < length (r_op ?r)" "r_op ?r ! j = O_ConstStr" "r_dst ?r ! j = ?a" "r_a ?r ! j \<noteq> NONE"
      "unat (r_a ?r ! j) < length (of_strings f)" by (auto simp: op_supported_def Let_def list_ex_iff)
    have "strs ! unat ?a = r_a ?r ! j" using st(1) j(1-3) a(1) by (auto simp: strs_ok_def Let_def)
    then have l: "at_index strs (unat ?a) = Some (r_a ?r ! j)" "at_index (of_strings f) (unat (r_a ?r ! j)) = Some (of_strings f ! unat (r_a ?r ! j))"
      using a(2) j(5) by (simp_all add: at_index_def)
    have "length (of_strings f ! unat (r_a ?r ! j)) \<le> string_bytes f"
      unfolding string_bytes_def by (rule member_le_sum_list) (use j(5) in auto)
    then have "\<not> 2 ^ 32 - 1 < length (of_strings f ! unat (r_a ?r ! j))" using st(3) by simp
    with l j(4,5) show ?thesis by (simp add: row_fill_def line c Let_def ready)
  next
    case plain
    have "\<exists>fill. row_fill f fr strs i = Some (Inr (fill, NO_LIT)) \<and> small_slots fill \<and> f_trap fill = [0, 0, 0, 0] \<and> f_call fill = 0 \<and> f_lit fill = 0"
      using plain(3) n vs [OF plain(1)] bs plain(2) ds
      by (cases ?op; cases "?b = NONE"; cases "?d = NONE")
        (auto simp: plain_row_def row_fill_def c Let_def small_slots_def fill_default_ready)
    then show ?thesis by (auto simp: item_ready_def)
  qed
qed

lemma str_table_total:
  assumes "verified f" "\<forall>k \<in> set ks. k < length (r_op (of_rows f))" "length strs = length (v_ty (of_values f))"
  shows "\<exists>strs'. str_table (of_rows f) ks strs = Some strs' \<and> length strs' = length (v_ty (of_values f))"
  using assms(2,3)
proof (induction ks arbitrary: strs)
  case (Cons k ks)
  have k: "k < length (r_op (of_rows f))" "\<forall>k \<in> set ks. k < length (r_op (of_rows f))" using Cons.prems(1) by simp_all
  note c = verified_columns [OF assms(1) k(1)]
  have "at_index strs (unat (r_dst (of_rows f) ! k)) = Some (strs ! unat (r_dst (of_rows f) ! k))" if "r_dst (of_rows f) ! k \<noteq> NONE"
    using dst_in_range [OF assms(1) k(1) that] Cons.prems(2) by (simp add: at_index_def)
  with Cons.IH [OF k(2)] Cons.prems(2) show ?case by (simp add: c)
qed simp

lemma strs_ok_table:
  assumes "verified f" "str_table (of_rows f) [0..<length (r_op (of_rows f))] strs0 = Some strs"
  shows "strs_ok f strs"
  unfolding strs_ok_def Let_def
proof (intro allI impI)
  let ?r = "of_rows f"
  fix i
  assume i: "i < length (r_op ?r)" "r_op ?r ! i = O_ConstStr" "r_dst ?r ! i \<noteq> NONE"
  have once: "\<not> j < k" if "j < length (r_op ?r)" "k < length (r_op ?r)" "r_dst ?r ! j = r_dst ?r ! k" "r_dst ?r ! k \<noteq> NONE" for j k
  proof
    assume "j < k"
    with that have "defined_before ?r k (r_dst ?r ! k)" by (auto simp: defined_before_def)
    moreover have "row_ok f k" using assms(1) that(2) by (simp add: verified_def Let_def)
    ultimately show False using that(4) by (simp add: row_ok_def Let_def)
  qed
  have "j = i" if "j < length (r_op ?r)" "r_dst ?r ! j = r_dst ?r ! i" for j
    using once [of j i] once [of i j] that i by (metis nat_neq_iff)
  with i show "strs ! unat (r_dst ?r ! i) = r_a ?r ! i"
    by (intro str_table_Some [OF assms(2)]) auto
qed

lemma select_row_total:
  assumes v: "verified f" "i < length (r_op (of_rows f))" "row_supported f i" and t: "good_table t" and fr: "frame_of f = Some fr"
    and st: "strs_ok f strs" "length strs = length (v_ty (of_values f))" "string_bytes f \<le> 1000000"
  shows "\<exists>lir'. select_row t f fr strs i lir = Some (Inr lir')"
proof -
  let ?d = "r_dst (of_rows f) ! i"
  note c = verified_columns [OF v(1,2)]
  have s: "op_supported f i" "?d \<noteq> NONE \<Longrightarrow> \<not> v_secret (of_values f) ! unat ?d" using v(3) by (simp_all add: row_supported_def Let_def)
  have cols: "at_index (v_secret (of_values f)) (unat ?d) = Some False" "\<exists>ct. at_index (v_ct (of_values f)) (unat ?d) = Some ct" if "?d \<noteq> NONE"
    using dst_in_range [OF v(1,2) that] v(1) s(2) [OF that] by (auto simp: at_index_def verified_def Let_def)
  from key_selected [OF v(1,2) s(1)] consider
      (none) "key_of f i = Some None" "r_op (of_rows f) ! i = O_ConstUnit \<or> r_op (of_rows f) ! i = O_ConstStr"
    | (key) key where "key \<in> set all_keys" "key_of f i = Some (Some key)" "r_op (of_rows f) ! i \<noteq> O_ConstUnit" "r_op (of_rows f) ! i \<noteq> O_ConstStr"
    by blast
  then show ?thesis
  proof cases
    case none
    with cols show ?thesis by (cases "?d = NONE") (auto simp: select_row_def c Let_def)
  next
    case key
    note k = key(1,2) and n = key(3,4)
    from row_fill_ready [OF v(1,2) s(1) fr st n, of key 0] obtain fill lit where r: "row_fill f fr strs i = Some (Inr (fill, lit))" by blast
    from t k(1) obtain id where "table_id t key = Some id" unfolding good_table_def by blast
    with cols k(2) r n show ?thesis by (cases "?d = NONE") (auto simp: select_row_def c Let_def)
  qed
qed

lemma select_rows_total:
  assumes "verified f" "good_table t" "frame_of f = Some fr"
    and "strs_ok f strs" "length strs = length (v_ty (of_values f))" "string_bytes f \<le> 1000000"
    and "\<forall>i \<in> set is. i < length (r_op (of_rows f)) \<and> row_supported f i"
  shows "\<exists>lir'. select_rows t f fr strs is lir = Some (Inr lir')"
  using assms(7)
proof (induction "is" arbitrary: lir)
  case (Cons i "is")
  have i: "i < length (r_op (of_rows f))" "row_supported f i" "\<forall>i \<in> set is. i < length (r_op (of_rows f)) \<and> row_supported f i"
    using Cons.prems by simp_all
  from select_row_total [OF assms(1) i(1,2) assms(2-6), of lir] Cons.IH [OF i(3)] show ?case by auto
qed simp

lemma rows_show_ready:
  assumes "verified f" "frame_of f = Some fr"
    and "strs_ok f strs" "length strs = length (v_ty (of_values f))" "string_bytes f \<le> 1000000"
    and "rows_show f fr strs is its" "\<forall>i \<in> set is. i < length (r_op (of_rows f)) \<and> row_supported f i"
  shows "(\<forall>it \<in> set its. item_ready f it) \<and> length its \<le> length is"
  using assms(6,7)
proof (induction "is" arbitrary: its)
  case (Cons i "is")
  have i: "i < length (r_op (of_rows f))" "op_supported f i" "\<forall>i \<in> set is. i < length (r_op (of_rows f)) \<and> row_supported f i"
    using Cons.prems(2) by (simp_all add: row_supported_def Let_def)
  from Cons.prems(1) obtain a b where ab: "its = a @ b" "row_shows f fr strs i a" "rows_show f fr strs is b" by auto
  have "(\<forall>it \<in> set a. item_ready f it) \<and> length a \<le> 1"
  proof (cases "a = []")
    case False
    with ab(2) obtain key fill lit where r: "key_of f i = Some (Some key)" "row_fill f fr strs i = Some (Inr (fill, lit))"
      "a = [(key, fill, lit, r_site (of_rows f) ! i)]" by (auto simp: row_shows_def)
    have n: "r_op (of_rows f) ! i \<noteq> O_ConstUnit" "r_op (of_rows f) ! i \<noteq> O_ConstStr"
      using key_selected [OF assms(1) i(1,2)] r(1) by auto
    from row_fill_ready [OF assms(1) i(1,2) assms(2-5) n, of key "r_site (of_rows f) ! i"] r(2,3) show ?thesis by auto
  qed simp
  with Cons.IH [OF ab(3) i(3)] ab(1) show ?case by auto
qed simp

section \<open>Compilation\<close>

text \<open>The functions that are compiled whatever their values: 238 rows and their prologue and exit keep every
  trap within the 32 KiB of a \<^verbatim>\<open>tbnz\<close>, and a million bytes of literals every literal within the 1 MiB of an
  \<^verbatim>\<open>adr\<close>.\<close>

definition compilable :: "OirFunc \<Rightarrow> bool" where
  "compilable f \<longleftrightarrow> length (v_ty (of_values f)) + length (of_slots f) \<le> 4096 \<and> length (r_op (of_rows f)) \<le> 238
     \<and> string_bytes f \<le> 1000000 \<and> (\<forall>i < length (r_op (of_rows f)). row_supported f i)"

lemma frame_of_total:
  assumes "length (v_ty (of_values f)) + length (of_slots f) \<le> 4096"
  shows "\<exists>fr. frame_of f = Some fr"
proof -
  have "((length (v_ty (of_values f)) + length (of_slots f)) * 8 + 15) div 16 \<le> (4096 * 8 + 15) div 16"
    using assms by (intro div_le_mono) simp
  then show ?thesis by (simp add: frame_of_def Let_def MAX_FRAME_def)
qed

lemma compile_total:
  assumes "oir_verify f = Inr ()" "compilable f"
  shows "\<exists>atom. compile show_error show_misfit f name = Some (Inr atom) \<and> length (at_code atom) < 2 ^ 32"
proof -
  let ?rows = "[0..<length (r_op (of_rows f))]" and ?none = "replicate (length (v_ty (of_values f))) NONE"
  have v: "verified f" using assms(1) verify_ok by blast
  have s: "\<forall>i \<in> set ?rows. i < length (r_op (of_rows f)) \<and> row_supported f i" "length (r_op (of_rows f)) \<le> 238" "string_bytes f \<le> 1000000"
    using assms(2) by (simp_all add: compilable_def)
  obtain fr where fr: "frame_of f = Some fr" using frame_of_total assms(2) unfolding compilable_def by blast
  obtain t where t: "table = Some t" by (rule table_built) blast
  note g = table_good [OF t]
  from str_table_total [OF v, of ?rows ?none] obtain strs where
    st: "str_table (of_rows f) ?rows ?none = Some strs" "length strs = length (v_ty (of_values f))" by auto
  note ok = strs_ok_table [OF v st(1)]
  have keys: "K_Prologue \<in> set all_keys" "term_key (of_term f) \<in> set all_keys"
  proof -
    show "K_Prologue \<in> set all_keys" by (simp add: all_keys_def)
    have "K_TrapJump (trap_code k) \<in> set all_keys" for k by (cases k) (simp_all add: all_keys_def upt_conv_Cons)
    then show "term_key (of_term f) \<in> set all_keys" by (cases "of_term f") (simp_all add: term_key_def all_keys_def)
  qed
  then obtain p q where ids: "table_id t K_Prologue = Some p" "table_id t (term_key (of_term f)) = Some q"
    using g unfolding good_table_def by blast
  let ?lir = "lir_push p (fill_default\<lparr>f_imm := [ucast (fr_size fr), 0, 0, 0]\<rparr>) NO_LIT 0 0 (- 1) 0 lir_default"
  from select_rows_total [OF v g fr ok st(2) s(3,1), of ?lir] obtain lir1 where "select_rows t f fr strs ?rows ?lir = Some (Inr lir1)" by blast
  then have "\<exists>lir. select_in t f = Some (Inr lir)" by (simp add: select_in_def fr ids st(1) Let_def)
  then obtain lir where lir: "select_in t f = Some (Inr lir)" by blast
  obtain fr' strs' its where i: "frame_of f = Some fr'" "str_table (of_rows f) ?rows ?none = Some strs'"
    "rows_show f fr' strs' ?rows its" "shows_items t lir (prologue_item fr' # its @ [term_item f])"
    by (rule select_in_Some [OF lir g])
  with fr st(1) have sh: "rows_show f fr strs ?rows its" by simp
  from rows_show_ready [OF v fr ok st(2) s(3) sh s(1)] have r: "\<forall>it \<in> set its. item_ready f it" "length its \<le> 238" using s(2) by simp_all
  have "item_ready f (prologue_item fr')" "item_ready f (term_item f)"
    by (simp_all add: prologue_item_def term_item_def item_ready_def small_slots_def fill_default_ready)
  with r have "\<forall>it \<in> set (prologue_item fr' # its @ [term_item f]). item_ready f it" "length (prologue_item fr' # its @ [term_item f]) \<le> 240"
    by auto
  from emit_in_total [OF g i(4) this s(3), of show_misfit name] obtain atom where
    atom: "emit_in show_misfit t lir f name = Some (Inr atom)" "length (at_code atom) < 2 ^ 32" by blast
  have "compile show_error show_misfit f name = Some (Inr atom)"
    unfolding compile_def assms(1) select_def emit_def t Option.bind.simps sum.case lir by (rule atom(1))
  with atom(2) show ?thesis by blast
qed

end
