(* ===== verification/Codegen_Theorems.thy ===== *)
theory Codegen_Theorems
  imports Codegen_Total
begin

text \<open>
  The code generator as a whole: what an emitted atom is, and that running it does what the OIR function
  does.
\<close>

section \<open>A run of the code\<close>

definition ends_as :: "item list \<Rightarrow> nat \<Rightarrow> mach \<Rightarrow> OStop \<Rightarrow> outcome \<Rightarrow> bool" where
  "ends_as its T \<sigma> stop out \<longleftrightarrow> (case stop of
     Stop_Ret \<Rightarrow> \<exists>\<tau>. out = Returned (xregs \<sigma> 30) \<tau> \<and> spr \<tau> = spr \<sigma> \<and> xregs \<tau> 29 = xregs \<sigma> 29
   | Stop_Trap k at \<Rightarrow> \<exists>j \<tau>. j < length (concat (map item_tail its)) \<and> concat (map item_tail its) ! j = \<lparr>st_kind = k, st_fmir = at\<rparr>
       \<and> out = Leave (4 * int T + 4 * int j) \<tau>)"

lemma ends_trap:
  assumes "j < length (concat (map item_tail b))" "concat (map item_tail b) ! j = \<lparr>st_kind = k, st_fmir = at\<rparr>"
    "out = Leave (4 * int T + 4 * int (length (concat (map item_tail a)) + j)) \<tau>"
  shows "ends_as (a @ b @ c) T \<sigma> (Stop_Trap k at) out"
  unfolding ends_as_def OStop.case
  by (rule exI [of _ "length (concat (map item_tail a)) + j"], rule exI [of _ \<tau>]) (use assms in \<open>simp add: nth_append\<close>)

lemma code_runs:
  assumes set: "setting f fr strs code \<sigma> rt pos T" and c: "code_loaded code \<sigma>"
    and p: "at_point T pos rl (prologue_item fr # its @ [term_item f]) p" "p_site p = 0"
    and sh: "rows_show f fr strs [0..<length (r_op (of_rows f))] its" and run: "oir_run f = Some (evs, stop)"
  shows "\<exists>out. exec_at rt rl p \<sigma> = (evs, out) \<and> ends_as (prologue_item fr # its @ [term_item f]) T \<sigma> stop out"
proof -
  let ?is = "[0..<length (r_op (of_rows f))]" and ?pro = "prologue_item fr"
  from run obtain s' trap where r: "oir_rows f ?is oir_start = Some (s', trap)" "evs = os_out s'"
    "stop = (case trap of Some (k, at) \<Rightarrow> Stop_Trap k at | None \<Rightarrow> (case of_term f of Term_Ret \<Rightarrow> Stop_Ret | Term_Trap k \<Rightarrow> Stop_Trap k (of_term_site f)))"
    by (auto simp: oir_run_def)
  obtain q \<sigma>1 where q: "at_point T pos rl (its @ [term_item f]) q" "p_site q = p_site p + length (item_tail ?pro)"
    "tracks f strs (unat (fr_size fr)) code \<sigma> oir_start \<sigma>1" "exec_at rt rl p \<sigma> = exec_at rt rl q \<sigma>1"
    by (rule run_prologue [OF set c p(1)])
  have i: "\<forall>i \<in> set ?is. i < length (r_op (of_rows f))" by simp
  have o: "os_out oir_start = []" by (simp add: oir_start_def)
  have split: "?pro # its @ [term_item f] = [?pro] @ its @ [term_item f]" "?pro # its @ [term_item f] = (?pro # its) @ [term_item f] @ []" by simp_all
  from run_rows [OF set i sh q(1,3) r(1)] obtain es where e: "os_out s' = os_out oir_start @ es" "case trap of
      None \<Rightarrow> \<exists>q' \<sigma>'. at_point T pos rl [term_item f] q' \<and> p_site q' = p_site q + length (concat (map item_tail its))
        \<and> tracks f strs (unat (fr_size fr)) code \<sigma> s' \<sigma>' \<and> exec_at rt rl q \<sigma>1 = map_prod ((@) es) id (exec_at rt rl q' \<sigma>')
    | Some (k, at) \<Rightarrow> \<exists>j \<tau>. j < length (concat (map item_tail its)) \<and> concat (map item_tail its) ! j = \<lparr>st_kind = k, st_fmir = at\<rparr>
        \<and> exec_at rt rl q \<sigma>1 = (es, Leave (4 * int T + 4 * int (p_site q + j)) \<tau>)" by blast
  have evs: "evs = es" using e(1) r(2) o by simp
  show ?thesis
  proof (cases trap)
    case (Some kat)
    obtain k at where kat: "kat = (k, at)" by (cases kat) auto
    with e(2) Some obtain j \<tau> where j: "j < length (concat (map item_tail its))" "concat (map item_tail its) ! j = \<lparr>st_kind = k, st_fmir = at\<rparr>"
      "exec_at rt rl q \<sigma>1 = (es, Leave (4 * int T + 4 * int (p_site q + j)) \<tau>)" by auto
    have "ends_as ([?pro] @ its @ [term_item f]) T \<sigma> (Stop_Trap k at) (Leave (4 * int T + 4 * int (p_site q + j)) \<tau>)"
      by (rule ends_trap [OF j(1,2)]) (simp add: q(2) p(2))
    then show ?thesis using j(3) q(4) evs r(3) Some kat by simp
  next
    case None
    with e(2) obtain q' \<sigma>' where q': "at_point T pos rl [term_item f] q'" "p_site q' = p_site q + length (concat (map item_tail its))"
      "tracks f strs (unat (fr_size fr)) code \<sigma> s' \<sigma>'" "exec_at rt rl q \<sigma>1 = map_prod ((@) es) id (exec_at rt rl q' \<sigma>')" by auto
    have fr: "framed (unat (fr_size fr)) code \<sigma> \<sigma>'" using q'(3) by (simp add: tracks_def)
    show ?thesis
    proof (cases "of_term f")
      case Term_Ret
      obtain \<tau> where t: "exec_at rt rl q' \<sigma>' = ([], Returned (xregs \<sigma> 30) \<tau>)" "spr \<tau> = spr \<sigma>" "xregs \<tau> 29 = xregs \<sigma> 29"
        by (rule run_ret [OF q'(1) Term_Ret fr setting_frame(1) [OF set]])
      then have "ends_as (?pro # its @ [term_item f]) T \<sigma> Stop_Ret (Returned (xregs \<sigma> 30) \<tau>)" by (simp add: ends_as_def)
      then show ?thesis using t(1) q'(4) q(4) evs r(3) None Term_Ret by simp
    next
      case (Term_Trap k)
      note t = run_term_trap(1) [OF q'(1) Term_Trap] run_term_trap(2) [OF q'(1) Term_Trap, of rt \<sigma>']
      have "ends_as ((?pro # its) @ [term_item f] @ []) T \<sigma> (Stop_Trap k (of_term_site f)) (Leave (4 * int T + 4 * int (p_site q')) \<sigma>')"
        by (rule ends_trap [where j = 0]) (simp_all add: t(1) q'(2) q(2) p(2))
      then show ?thesis using t(2) q'(4) q(4) evs r(3) None Term_Trap by simp
    qed
  qed
qed

section \<open>The compiled function\<close>

text \<open>The bytes of stack below the frame record, the words of the code, and the row of the trap table.\<close>

definition stack_size :: "OirFunc \<Rightarrow> nat" where
  "stack_size f = (case frame_of f of Some fr \<Rightarrow> unat (fr_size fr) | None \<Rightarrow> 0)"

definition code_word :: "Atom \<Rightarrow> nat \<Rightarrow> u8 list" where
  "code_word atom i = take 4 (drop (4 * i) (at_code atom))"

definition trap_row :: "OirFunc \<Rightarrow> Atom \<Rightarrow> TrapKind \<Rightarrow> u32 \<Rightarrow> nat \<Rightarrow> bool" where
  "trap_row f atom k at i \<longleftrightarrow> code_word atom i = le_bytes (brk_word k)
     \<and> (\<exists>r \<in> set (at_traps atom). unat (tr_pc r) = 4 * i \<and> tr_kind r = trap_code k \<and> (tr_line r, tr_col r) = line_of f at)"

definition stops_as :: "OirFunc \<Rightarrow> Atom \<Rightarrow> mach \<Rightarrow> OStop \<Rightarrow> outcome \<Rightarrow> bool" where
  "stops_as f atom \<sigma> stop out \<longleftrightarrow> (case stop of
     Stop_Ret \<Rightarrow> \<exists>\<tau>. out = Returned (xregs \<sigma> 30) \<tau> \<and> spr \<tau> = spr \<sigma> \<and> xregs \<tau> 29 = xregs \<sigma> 29
   | Stop_Trap k at \<Rightarrow> \<exists>i \<tau>. out = Leave (4 * int i) \<tau> \<and> trap_row f atom k at i)"

lemma nth_le_bytes: "i < length ws \<Longrightarrow> take 4 (drop (4 * i) (concat (map le_bytes ws) @ rest)) = le_bytes (ws ! i)"
proof (induction ws arbitrary: i)
  case (Cons w ws)
  then show ?case by (cases i) (simp_all add: le_bytes_def)
qed simp

lemma pool_ok_atom:
  assumes "atom_of f its ss pos atom"
  shows "pool_ok f (at_code atom) pos"
proof -
  define T tail where "T = length (code_of ss)" and "tail = concat (map item_tail its)"
  from assms obtain ws pool pad where a: "encode_all (code_of ss) = Some ws" "strings_at f (4 * T + 4 * length tail) pool pos"
    "at_code atom = concat (map le_bytes (ws @ map (brk_word \<circ> st_kind) tail)) @ pool @ pad"
    unfolding atom_of_def Let_def T_def tail_def by blast
  define rows where "rows = concat (map le_bytes (ws @ map (brk_word \<circ> st_kind) tail))"
  have b: "length (concat (map le_bytes us)) = 4 * length us" for us by (induction us) (simp_all add: le_bytes_def)
  have l: "length rows = 4 * T + 4 * length tail"
    unfolding rows_def b using encode_all_length [OF a(1)] by (simp add: T_def)
  show ?thesis
    unfolding pool_ok_def
  proof (intro allI impI)
    fix k p
    assume "at_index pos k = Some (Some p)"
    with a(2) have s: "4 * T + 4 * length tail \<le> unat p"
      "unat p + length (of_strings f ! k) \<le> 4 * T + 4 * length tail + length pool"
      "take (length (of_strings f ! k)) (drop (unat p - (4 * T + 4 * length tail)) pool) = of_strings f ! k" by (auto simp: strings_at_def)
    have z: "length (of_strings f ! k) - (length pool - (unat p - (4 * T + 4 * length tail))) = 0" "unat p - (4 * T + 4 * length tail) \<le> length pool"
      using s(1,2) by linarith+
    show "unat p + length (of_strings f ! k) \<le> length (at_code atom) \<and> take (length (of_strings f ! k)) (drop (unat p) (at_code atom)) = of_strings f ! k"
      unfolding a(3) rows_def [symmetric] using s z by (simp add: l)
  qed
qed

lemma compile_verified:
  assumes "compile show_error show_misfit f name = Some (Inr atom)"
  shows "oir_verify f = Inr ()"
proof (cases "oir_verify f")
  case (Inl e)
  with assms show ?thesis unfolding compile_def by (simp only: sum.case option.inject sum.distinct)
qed simp

lemma compile_Some:
  assumes "compile show_error show_misfit f name = Some (Inr atom)" "table = Some t"
  shows "\<exists>lir. select_in t f = Some (Inr lir) \<and> emit_in show_misfit t lir f name = Some (Inr atom)"
proof -
  have "Option.bind (select_in t f) (\<lambda>res. case res of Inl e \<Rightarrow> Some (Inl e) | Inr lir \<Rightarrow> emit_in show_misfit t lir f name) = Some (Inr atom)"
    using assms(1) unfolding compile_def compile_verified [OF assms(1)] select_def emit_def assms(2) sum.case Option.bind.simps by assumption
  then show ?thesis by (cases "select_in t f") (auto split: sum.splits)
qed

lemma compile_runs:
  assumes c: "compile show_error show_misfit f name = Some (Inr atom)" "length (at_code atom) < 2 ^ 32"
    and run: "oir_run f = Some (evs, stop)"
    and m: "code_loaded (at_code atom) \<sigma>" "stack_apart (stack_size f) (at_code atom) \<sigma>" "runtime_keeps rt (stack_size f) (at_code atom)"
  shows "\<exists>code ws out. encode_all code = Some ws \<and> (\<forall>i < length ws. code_word atom i = le_bytes (ws ! i))
    \<and> exec_code rt (at_relocs atom) 0 code \<sigma> = (evs, out) \<and> stops_as f atom \<sigma> stop out"
proof -
  obtain t where t: "table = Some t" by (rule table_built) blast
  note g = table_good [OF t]
  have l1: "oir_verify f = Inr ()" by (rule compile_verified [OF c(1)])
  obtain lir where l: "select_in t f = Some (Inr lir)" "emit_in show_misfit t lir f name = Some (Inr atom)"
    using compile_Some [OF c(1) t] by blast
  from l1 have v: "verified f" using verify_ok by blast
  obtain fr strs its where s: "frame_of f = Some fr"
    "str_table (of_rows f) [0..<length (r_op (of_rows f))] (replicate (length (v_ty (of_values f))) NONE) = Some strs"
    "rows_show f fr strs [0..<length (r_op (of_rows f))] its" "shows_items t lir (prologue_item fr # its @ [term_item f])"
    by (rule select_in_Some [OF l(1) g])
  let ?its = "prologue_item fr # its @ [term_item f]"
  obtain ss pos where a: "atom_of f ?its ss pos atom" by (rule emit_in_Some [OF l(2) g s(4) c(2)])
  define T tail where "T = length (code_of ss)" and "tail = concat (map item_tail ?its)"
  from a have b: "T < 2 ^ 30" "built T pos 0 0 ?its ss" "at_relocs atom = all_relocs 0 ss"
    and tr: "\<forall>i < length tail. i < length (at_traps atom) \<and> unat (tr_pc (at_traps atom ! i)) = 4 * T + 4 * i
          \<and> tr_kind (at_traps atom ! i) = trap_code (st_kind (tail ! i))
          \<and> (tr_line (at_traps atom ! i), tr_col (at_traps atom ! i)) = line_of f (st_fmir (tail ! i))"
    unfolding atom_of_def Let_def T_def tail_def by blast+
  from a obtain ws pool pad where w: "encode_all (code_of ss) = Some ws"
    "at_code atom = concat (map le_bytes (ws @ map (brk_word \<circ> st_kind) tail)) @ pool @ pad"
    unfolding atom_of_def Let_def tail_def by blast
  have n: "length ws = T" using encode_all_length [OF w(1)] by (simp add: T_def)
  have word: "code_word atom i = le_bytes ((ws @ map (brk_word \<circ> st_kind) tail) ! i)" if "i < T + length tail" for i
    unfolding code_word_def w(2) by (rule nth_le_bytes) (simp add: n that)
  have fsz: "stack_size f = unat (fr_size fr)" by (simp add: stack_size_def s(1))
  have set: "setting f fr strs (at_code atom) \<sigma> rt pos T"
    unfolding setting_def using v s(1) strs_ok_table [OF v s(2)] pool_ok_atom [OF a] m(2,3) c(2) b(1) by (simp only: fsz)
  define p where "p = \<lparr>p_word = 0, p_site = 0, p_rest = ss, p_relocs = []\<rparr>"
  have p: "at_point T pos (at_relocs atom) ?its p" "p_site p = 0"
    using b(2,3) by (simp_all add: at_point_def p_def T_def before_def)
  from code_runs [OF set m(1) p s(3) run] obtain out where o: "exec_at rt (at_relocs atom) p \<sigma> = (evs, out)" "ends_as ?its T \<sigma> stop out"
    by blast
  have "stops_as f atom \<sigma> stop out"
  proof (cases stop)
    case Stop_Ret
    with o(2) show ?thesis by (simp add: ends_as_def stops_as_def)
  next
    case (Stop_Trap k at)
    with o(2) obtain j \<tau> where j: "j < length tail" "tail ! j = \<lparr>st_kind = k, st_fmir = at\<rparr>" "out = Leave (4 * int T + 4 * int j) \<tau>"
      by (auto simp: ends_as_def tail_def)
    have "trap_row f atom k at (T + j)"
      unfolding trap_row_def
    proof (intro conjI bexI [of _ "at_traps atom ! j"])
      show "code_word atom (T + j) = le_bytes (brk_word k)" using word [of "T + j"] j(1,2) by (simp add: nth_append n)
    qed (use tr j in simp_all)
    then show ?thesis unfolding stops_as_def Stop_Trap OStop.case
      by (intro exI [of _ "T + j"] exI [of _ \<tau>]) (simp add: j(3))
  qed
  moreover have "\<forall>i < length ws. code_word atom i = le_bytes (ws ! i)" using word n by (simp add: nth_append)
  moreover have "exec_code rt (at_relocs atom) 0 (code_of ss) \<sigma> = (evs, out)" using o(1) by (simp add: exec_at_def p_def)
  ultimately show ?thesis using w(1) by blast
qed

section \<open>The shape of an atom\<close>

lemma call_relocs_targets: "r \<in> set (call_relocs w hs) \<Longrightarrow> \<exists>rts. rl_target r = rt_symbol rts"
  by (induction w hs rule: call_relocs.induct) (auto split: Field.splits)

lemma built_relocs:
  "built T pos w g its ss \<Longrightarrow> before (w + length (code_of ss)) (all_relocs w ss) \<and> (\<forall>r \<in> set (all_relocs w ss). \<exists>rts. rl_target r = rt_symbol rts)"
proof (induction its arbitrary: w g ss)
  case Nil
  then show ?case by (simp add: before_def)
next
  case (Cons it its)
  obtain key fill lit at where it: "it = (key, fill, lit, at)" by (cases it) auto
  from Cons.prems obtain s ss' where s: "ss = s # ss'" "row_built T pos w g it s"
    "built T pos (w + length (insts s)) (g + length (sites s)) its ss'" by auto
  from s(2) obtain gf ws where b: "build key gf = Some (ws, s)" "key \<in> set all_keys" by (auto simp: row_built_def it)
  have "before (w + length (insts s)) (call_relocs (4 * w) (holes s))"
    using hole_inside [OF b] by (intro call_relocs_before) blast
  then have "before (w + length (code_of ss)) (call_relocs (4 * w) (holes s))" by (rule before_mono) (simp add: s(1))
  with Cons.IH [OF s(3)] call_relocs_targets show ?case by (auto simp: s(1) add.assoc)
qed

lemma compile_shape:
  assumes "compile show_error show_misfit f name = Some (Inr atom)" "length (at_code atom) < 2 ^ 32"
  obtains its ss pos where "atom_of f its ss pos atom"
proof -
  obtain t where t: "table = Some t" by (rule table_built) blast
  note g = table_good [OF t]
  obtain lir where l: "select_in t f = Some (Inr lir)" "emit_in show_misfit t lir f name = Some (Inr atom)"
    using compile_Some [OF assms(1) t] by blast
  obtain fr strs its where s: "shows_items t lir (prologue_item fr # its @ [term_item f])"
    by (rule select_in_Some [OF l(1) g])
  obtain ss pos where "atom_of f (prologue_item fr # its @ [term_item f]) ss pos atom" by (rule emit_in_Some [OF l(2) g s assms(2)])
  then show thesis by (rule that)
qed

text \<open>A trap row: the word it points to, the \<^verbatim>\<open>n\<close>-th behind the code, is the \<^verbatim>\<open>brk\<close> of its kind.\<close>

definition trap_rows_exact :: "Atom \<Rightarrow> nat \<Rightarrow> bool" where
  "trap_rows_exact atom T \<longleftrightarrow> (\<forall>i < length (at_traps atom). \<exists>k. tr_kind (at_traps atom ! i) = trap_code k
     \<and> unat (tr_pc (at_traps atom ! i)) = 4 * (T + i) \<and> code_word atom (T + i) = le_bytes (brk_word k))"

definition relocs_exact :: "Atom \<Rightarrow> nat \<Rightarrow> bool" where
  "relocs_exact atom T \<longleftrightarrow> (\<forall>r \<in> set (at_relocs atom). \<exists>i < T. rl_offset r = word_of_nat (4 * i) \<and> (\<exists>rts. rl_target r = rt_symbol rts))"

lemma atom_shape:
  assumes "compile show_error show_misfit f name = Some (Inr atom)" "length (at_code atom) < 2 ^ 32"
  shows "\<exists>T. 4 dvd length (at_code atom) \<and> 4 * (T + length (at_traps atom)) \<le> length (at_code atom)
    \<and> trap_rows_exact atom T \<and> relocs_exact atom T"
proof -
  obtain its ss pos where a: "atom_of f its ss pos atom" by (rule compile_shape [OF assms])
  define T tail where "T = length (code_of ss)" and "tail = concat (map item_tail its)"
  from a have b: "4 dvd length (at_code atom)" "length (at_traps atom) = length tail" "built T pos 0 0 its ss" "at_relocs atom = all_relocs 0 ss"
    and tr: "\<forall>i < length tail. i < length (at_traps atom) \<and> unat (tr_pc (at_traps atom ! i)) = 4 * T + 4 * i
          \<and> tr_kind (at_traps atom ! i) = trap_code (st_kind (tail ! i))
          \<and> (tr_line (at_traps atom ! i), tr_col (at_traps atom ! i)) = line_of f (st_fmir (tail ! i))"
    unfolding atom_of_def Let_def T_def tail_def by blast+
  from a obtain ws pool pad where w: "encode_all (code_of ss) = Some ws"
    "at_code atom = concat (map le_bytes (ws @ map (brk_word \<circ> st_kind) tail)) @ pool @ pad"
    unfolding atom_of_def Let_def tail_def by blast
  have n: "length ws = T" using encode_all_length [OF w(1)] by (simp add: T_def)
  have word: "code_word atom i = le_bytes ((ws @ map (brk_word \<circ> st_kind) tail) ! i)" if "i < T + length tail" for i
    unfolding code_word_def w(2) by (rule nth_le_bytes) (simp add: n that)
  have "length (concat (map le_bytes us)) = 4 * length us" for us by (induction us) (simp_all add: le_bytes_def)
  then have "4 * (T + length tail) \<le> length (at_code atom)" unfolding w(2) length_append by (simp only: length_append length_map n)
  moreover have "trap_rows_exact atom T"
    unfolding trap_rows_exact_def b(2)
  proof (intro allI impI exI conjI)
    fix i
    assume i: "i < length tail"
    with tr show "tr_kind (at_traps atom ! i) = trap_code (st_kind (tail ! i))" "unat (tr_pc (at_traps atom ! i)) = 4 * (T + i)" by auto
    show "code_word atom (T + i) = le_bytes (brk_word (st_kind (tail ! i)))" using word [of "T + i"] i by (simp add: nth_append n)
  qed
  moreover have "relocs_exact atom T"
    using built_relocs [OF b(3)] by (simp add: relocs_exact_def b(4) before_def T_def)
  ultimately show ?thesis using b(1,2) by auto
qed

section \<open>The frame\<close>

lemma frame_layout:
  assumes "frame_of f = Some fr"
  shows "unat (fr_size fr) \<le> 32 * 1024 \<and> 16 dvd unat (fr_size fr)
    \<and> (\<forall>v. unat v < length (v_ty (of_values f)) \<longrightarrow>
         (\<exists>x. frame_value fr v = Some x \<and> unat x = 8 * unat v \<and> unat x + 8 \<le> unat (fr_size fr)))
    \<and> (\<forall>p. unat p < length (of_slots f) \<longrightarrow>
         (\<exists>x. frame_place fr p = Some x \<and> unat x = 8 * (length (v_ty (of_values f)) + unat p) \<and> unat x + 8 \<le> unat (fr_size fr)))"
proof (intro conjI allI impI)
  note fr = frame_of_Some [OF assms]
  show "unat (fr_size fr) \<le> 32 * 1024" "16 dvd unat (fr_size fr)" using fr(1,2) by (simp_all add: MAX_FRAME_def)
  fix v :: u32
  assume v: "unat v < length (v_ty (of_values f))"
  obtain x where "frame_value fr v = Some x" using value_slot [OF assms v] by blast
  with frame_value_unat [OF this] v fr(3) show "\<exists>x. frame_value fr v = Some x \<and> unat x = 8 * unat v \<and> unat x + 8 \<le> unat (fr_size fr)"
    by (intro exI [of _ x]) simp
next
  note fr = frame_of_Some [OF assms]
  fix p :: u32
  assume p: "unat p < length (of_slots f)"
  obtain x where "frame_place fr p = Some x" using place_slot [OF assms p] by blast
  with frame_place_unat [OF this] p fr(3,4)
  show "\<exists>x. frame_place fr p = Some x \<and> unat x = 8 * (length (v_ty (of_values f)) + unat p) \<and> unat x + 8 \<le> unat (fr_size fr)"
    by (intro exI [of _ x]) simp
qed

section \<open>Stencils of integer operations\<close>

text \<open>What the interpreter makes of a key: the type of its first operand, that of its second if it has one, that
  of its result, and the result.\<close>

fun key_sem :: "Key \<Rightarrow> u64 \<Rightarrow> u64 \<Rightarrow> (IntTy \<times> IntTy option \<times> IntTy \<times> (TrapKind, u64) result) option" where
  "key_sem (K_Bin op mode ty) a b = Some (ty, Some ty, ty, int_binop (op_name op) (mode_of mode) a b (kind_of ty))"
| "key_sem (K_Neg mode ty) a b =
     (if ty_signed ty \<or> mode = M_Wrap then Some (ty, None, ty, int_neg (mode_of mode) a (kind_of ty)) else None)"
| "key_sem (K_Conv C_Checked from to) a b = Some (from, None, to, conv_checked_int a (kind_of from) (kind_of to))"
| "key_sem (K_Conv C_Wrap from to) a b = Some (from, None, to, Inr (conv_wrap_int a (kind_of from) (kind_of to)))"
| "key_sem (K_Conv C_Sat from to) a b = Some (from, None, to, Inr (conv_sat_int a (kind_of from) (kind_of to)))"
| "key_sem _ a b = None"

text \<open>The code runs to its end with the result stored and nothing else changed in memory, or leaves for the
  target of one of its sites, of the kind of the trap.\<close>

definition code_does :: "Fill \<Rightarrow> Seq \<Rightarrow> nat \<Rightarrow> Inst list \<Rightarrow> mach \<Rightarrow> (TrapKind, u64) result \<Rightarrow> bool" where
  "code_does f s pc rest \<sigma> res \<longleftrightarrow> (case res of
     Inr v \<Rightarrow> \<exists>\<sigma>'. run pc (insts s @ rest) \<sigma> = run (pc + length (insts s)) rest \<sigma>'
       \<and> spr \<sigma>' = spr \<sigma> \<and> xregs \<sigma>' 29 = xregs \<sigma> 29 \<and> memory \<sigma>' = store64 (memory \<sigma>) (slot_at \<sigma> (slot_dst f)) v
   | Inl k \<Rightarrow> \<exists>i \<sigma>'. i < length (sites s) \<and> sites s ! i = k \<and> run pc (insts s @ rest) \<sigma> = Leave (4 * int pc + f_trap f ! i) \<sigma>')"

lemma stencil_does:
  assumes b: "build key f = Some (ws, s)" and k: "key_sem key a b = Some (ta, tb, tr, res)"
    and h: "slot_word (slot_a f) \<sigma> = canonical a ta" "\<forall>t. tb = Some t \<longrightarrow> slot_word (slot_b f) \<sigma> = canonical b t"
    and r: "rest \<noteq> []" "\<forall>i < length (sites s). 4 * int (length (insts s) + length rest) \<le> f_trap f ! i"
  shows "code_does f s pc rest \<sigma> (map_sum id (\<lambda>v. canonical v tr) res)"
proof -
  have v: "valid_key key" using k by (cases key) simp_all
  have "wp f (body key) (stores f (canonically tr res) \<sigma>) \<sigma>"
    using k h by (cases "(key, a, b)" rule: key_sem.cases)
      (auto simp: holds_a_def holds_b_def split: if_splits intro!: body_bin body_neg body_conv)
  then have w: "wp f (body key) (stores f (map_sum id (\<lambda>v. canonical v tr) res) \<sigma>) \<sigma>" by (simp add: canonically_def)
  have "far f (length (sites s)) (length (insts s) + length rest)" using r(2) by (simp add: far_def)
  with b v w r(1) show ?thesis
  proof (cases rule: stencil_run [where pc = pc])
    case (falls \<sigma>')
    then show ?thesis by (auto simp: stores_def code_does_def same_def)
  next
    case (trap k i \<sigma>')
    then show ?thesis by (auto simp: stores_def code_does_def)
  qed
qed

section \<open>An example\<close>

text \<open>A function that prints 200 and then adds it to itself in \<^verbatim>\<open>u8\<close>, which traps.\<close>

definition sample :: OirFunc where
  "sample = \<lparr>of_decl = 4, of_values = \<lparr>v_ty = [Low_U8, Low_U8], v_secret = [False, False], v_ct = [0, 0], v_fmir = [0, 2]\<rparr>,
     of_rows = \<lparr>r_op = [O_ConstInt, O_WriteUint, O_Add], r_a = [200, 0, 0], r_b = [0, NONE, 0], r_ty = [Low_U8, Low_Unit, Low_U8],
       r_mode = [Mode_None, Mode_None, Mode_Trap], r_alias = [None, None, None], r_site = [0, 1, 2], r_dst = [0, NONE, 1]\<rparr>,
     of_slots = [], of_strings = [], of_term = Term_Ret, of_term_site = 3, of_sites = [(1, 1), (2, 1), (3, 5), (4, 1)]\<rparr>"

text \<open>A machine with the code at address 0 and the stack far above it.\<close>

definition sample_mach :: "u8 list \<Rightarrow> mach" where
  "sample_mach code = \<lparr>code_base = 0, xregs = (\<lambda>_. 0), spr = 2 ^ 40, nzcv = \<lparr>flag_n = False, flag_z = False, flag_c = False, flag_v = False\<rparr>,
     memory = (\<lambda>a. if unat a < length code then code ! unat a else 0)\<rparr>"

lemma sample_machine:
  assumes "length code < 2 ^ 32"
  shows "code_loaded code (sample_mach code)" "stack_apart 16 code (sample_mach code)" "runtime_keeps (\<lambda>_ \<sigma>. \<sigma>) 16 code"
proof -
  have u: "unat (word_of_nat i :: u64) = i" if "i < length code" for i using that assms by simp
  show "code_loaded code (sample_mach code)" by (simp add: code_loaded_def sample_mach_def u)
  show "stack_apart 16 code (sample_mach code)"
    unfolding stack_apart_def
  proof (intro allI impI)
    fix i
    assume i: "i < length code"
    have "(- 1099511627744 :: u64) = word_of_nat 18446742974197923872" by simp
    then have e: "code_base (sample_mach code) + word_of_nat i - (spr (sample_mach code) - 16 - word_of_nat 16) = word_of_nat (i + 18446742974197923872)"
      by (simp add: sample_mach_def)
    have u: "unat (word_of_nat (i + 18446742974197923872) :: u64) = i + 18446742974197923872"
      unfolding unat_of_nat by (rule mod_less) (use i assms in simp)
    show "16 + 16 \<le> unat (code_base (sample_mach code) + word_of_nat i - (spr (sample_mach code) - 16 - word_of_nat 16))"
      unfolding e u by simp
  qed
  show "runtime_keeps (\<lambda>_ \<sigma>. \<sigma>) 16 code" by (simp add: runtime_keeps_def)
qed

lemma sample_facts:
  "oir_verify sample = Inr ()" "compilable sample" "oir_run sample = Some ([Ev_Uint 200], Stop_Trap Overflow 2)"
  "frame_of sample = Some \<lparr>fr_size = 16, fr_values = 2\<rparr>" "stack_size sample = 16"
proof -
  show "oir_verify sample = Inr ()"
    by (simp add: sample_def oir_verify_def Let_def NONE_def CT_UNSPECIFIED_def ragged_def slot_error_def is_slot_row_def value_cols_def upt_rec)
  have "\<forall>i < 3. row_supported sample i"
    by (simp add: sample_def All_less_Suc numeral_3_eq_3 row_supported_def op_supported_def Let_def low_is_int_def LOW_INTS_def NONE_def)
  then show "compilable sample" by (simp add: compilable_def) (simp add: sample_def string_bytes_def numeral_3_eq_3)
  have "int_binop ''add'' Trap 200 200 U8 = Inl Overflow" by code_simp
  then show "oir_run sample = Some ([Ev_Uint 200], Stop_Trap Overflow 2)"
    by (simp add: sample_def oir_run_def upt_rec oir_step_def oir_eval_def Let_def oir_start_def oir_define_def NONE_def bits_as_def
        type_at_def at_index_def low_kind_def raw_ok_def)
  show f: "frame_of sample = Some \<lparr>fr_size = 16, fr_values = 2\<rparr>" by (simp add: sample_def frame_of_def MAX_FRAME_def Let_def)
  then show "stack_size sample = 16" by (simp add: stack_size_def)
qed

lemma sample_compiled:
  obtains atom where "compile show_error show_misfit sample name = Some (Inr atom)" "length (at_code atom) < 2 ^ 32"
  using compile_total [OF sample_facts(1,2)] by blast

text \<open>A constant row without a value: the verifier lets it pass, and selection panics on it.\<close>

definition stray_const :: OirFunc where
  "stray_const = \<lparr>of_decl = 0, of_values = values_default,
     of_rows = rows_push O_ConstInt 7 0 Low_Unit Mode_None None 0 NONE rows_default,
     of_slots = [], of_strings = [], of_term = Term_Ret, of_term_site = 0, of_sites = []\<rparr>"

lemma stray_const_panics: "oir_verify stray_const = Inr () \<and> compile show_error show_misfit stray_const name = None"
proof
  show v: "oir_verify stray_const = Inr ()"
    by (simp add: stray_const_def values_default_def rows_default_def rows_push_def oir_verify_def Let_def ragged_def slot_error_def is_slot_row_def
        value_cols_def upt_rec)
  obtain t where t: "table = Some t" by (rule table_built) blast
  have "key_of stray_const 0 = Some (Some K_Const)" "row_fill stray_const fr strs 0 = None" for fr strs
    by (simp_all add: stray_const_def values_default_def rows_default_def rows_push_def key_of_def row_fill_def at_index_def Let_def)
  then have "select_row t stray_const fr strs 0 lir = None" for fr strs lir
    by (simp add: select_row_def) (simp add: stray_const_def values_default_def rows_default_def rows_push_def at_index_def)
  moreover have "[0..<length (r_op (of_rows stray_const))] = [0]" by (simp add: stray_const_def rows_default_def rows_push_def)
  moreover have "\<exists>fr. frame_of stray_const = Some fr" by (rule frame_of_total) (simp add: stray_const_def values_default_def)
  ultimately have "select_in t stray_const = None"
    by (auto simp: select_in_def Let_def split: Option.bind_splits)
  then show "compile show_error show_misfit stray_const name = None"
    unfolding compile_def v select_def t sum.case Option.bind.simps by simp
qed

section \<open>The theorems\<close>

text \<open>C1: the code of a compiled function, encoded as the words of its atom, does what the OIR function does by the
  interpreter's semantics: it calls the output routines on the same values in the same order, and returns to its
  caller with the stack and frame pointers restored, or stops at the \<^verbatim>\<open>brk\<close> of the trap raised, whose row in
  the trap table has the trap's kind and the position of the source.\<close>

theorem compiled_code_correct:
  assumes "compile show_error show_misfit f name = Some (Inr atom)" "length (at_code atom) < 2 ^ 32"
    and "oir_run f = Some (evs, stop)"
    and "code_loaded (at_code atom) \<sigma>" "stack_apart (stack_size f) (at_code atom) \<sigma>" "runtime_keeps rt (stack_size f) (at_code atom)"
  shows "\<exists>code ws out. encode_all code = Some ws \<and> (\<forall>i < length ws. code_word atom i = le_bytes (ws ! i))
    \<and> exec_code rt (at_relocs atom) 0 code \<sigma> = (evs, out) \<and> stops_as f atom \<sigma> stop out"
  by (rule compile_runs [OF assms])

theorem compiled_code_correct_witness:
  "\<exists>atom code ws out. compile (\<lambda>_. []) (\<lambda>_ _. []) sample ''f'' = Some (Inr atom) \<and> encode_all code = Some ws
    \<and> exec_code (\<lambda>_ \<sigma>. \<sigma>) (at_relocs atom) 0 code (sample_mach (at_code atom)) = ([Ev_Uint 200], out)
    \<and> stops_as sample atom (sample_mach (at_code atom)) (Stop_Trap Overflow 2) out"
proof -
  obtain atom where a: "compile (\<lambda>_. []) (\<lambda>_ _. []) sample ''f'' = Some (Inr atom)" "length (at_code atom) < 2 ^ 32"
    by (rule sample_compiled)
  from compiled_code_correct [OF a sample_facts(3), of "sample_mach (at_code atom)" "\<lambda>_ \<sigma>. \<sigma>"] sample_machine [OF a(2)] a(1)
  show ?thesis unfolding sample_facts(5) by blast
qed

text \<open>C2: a verified function of supported rows, in a frame of at most 4096 slots, with at most 238 rows and a
  million bytes of string literals, is compiled: no panic and no refusal.\<close>

theorem compile_succeeds:
  assumes "oir_verify f = Inr ()" "compilable f"
  shows "\<exists>atom. compile show_error show_misfit f name = Some (Inr atom) \<and> length (at_code atom) < 2 ^ 32"
  by (rule compile_total [OF assms])

theorem compile_succeeds_witness:
  "\<exists>atom. compile (\<lambda>_. []) (\<lambda>_ _. []) sample ''main'' = Some (Inr atom) \<and> length (at_code atom) < 2 ^ 32"
  by (rule compile_succeeds [OF sample_facts(1,2)])

text \<open>C3: the stencil built for a binary operation, a negation or a conversion computes the interpreter's result:
  on operands in canonical form it runs to its end with the canonical result in its slot, nothing else in memory
  changed and the stack and frame pointers kept, or, exactly when the interpreter traps, leaves for the target of
  a site of that trap's kind.\<close>

theorem stencils_compute:
  assumes "build key f = Some (ws, s)" "key_sem key a b = Some (ta, tb, tr, res)"
    and "slot_word (slot_a f) \<sigma> = canonical a ta" "\<forall>t. tb = Some t \<longrightarrow> slot_word (slot_b f) \<sigma> = canonical b t"
    and "rest \<noteq> []" "\<forall>i < length (sites s). 4 * int (length (insts s) + length rest) \<le> f_trap f ! i"
  shows "code_does f s pc rest \<sigma> (map_sum id (\<lambda>v. canonical v tr) res)"
  by (rule stencil_does [OF assms])

theorem stencils_compute_witness:
  "\<exists>ws s. build (K_Bin B_Div M_Trap T_I64) placeholder = Some (ws, s)
    \<and> code_does placeholder s 0 [Ret (xr 30)] (sample_mach []) (Inl DivZero)"
proof -
  obtain st where "from_key (K_Bin B_Div M_Trap T_I64) = Some st" using from_key_total [of "K_Bin B_Div M_Trap T_I64"] by auto
  then obtain ws s where s: "build (K_Bin B_Div M_Trap T_I64) placeholder = Some (ws, s)"
    by (auto simp: from_key_def split: Option.bind_splits)
  note shape = build_shape [OF s, simplified]
  have "4 * int (length (insts s) + length [Ret (xr 30)]) \<le> f_trap placeholder ! i" if "i < length (sites s)" for i
  proof -
    have "i < 4" "length (insts s) \<le> 30" using that shape(3,4) by (simp_all add: small_def)
    then show ?thesis by (auto simp: placeholder_def less_Suc_eq numeral_eq_Suc nth_Cons')
  qed
  then have t: "\<forall>i < length (sites s). 4 * int (length (insts s) + length [Ret (xr 30)]) \<le> f_trap placeholder ! i" by blast
  have "foldr (\<lambda>i v. v) xs z = z" for xs :: "nat list" and z :: u64 by (induction xs) simp_all
  then have z: "slot_word off (sample_mach []) = 0" for off by (simp add: slot_word_def load64_def sample_mach_def)
  have "int_binop ''div'' Trap 0 0 I64 = Inl DivZero" by code_simp
  then have k: "key_sem (K_Bin B_Div M_Trap T_I64) 0 0 = Some (T_I64, Some T_I64, T_I64, Inl DivZero)" by simp
  have "code_does placeholder s 0 [Ret (xr 30)] (sample_mach []) (map_sum id (\<lambda>v. canonical v T_I64) (Inl DivZero))"
    by (rule stencils_compute [OF s k _ _ _ t]) (simp_all add: z canonical_def)
  with s show ?thesis by auto
qed

text \<open>C4: the verifier accepts exactly the functions whose value columns are complete, whose row columns have one
  length, whose rows read only values defined by earlier rows and define a value once and with its type, and
  whose slot rows address a slot of the function through that slot's root.\<close>

theorem oir_verify_exact: "oir_verify f = Inr () \<longleftrightarrow> verified f"
  by (rule verify_ok)

text \<open>C5: the frame is refused exactly above 4096 slots; a frame laid out is a multiple of 16 bytes and at most
  32 KiB, and every value and place has its own 8 bytes in it, the values in order and the places behind them.\<close>

theorem frame_exact:
  "(frame_of f = None \<longleftrightarrow> 4096 < length (v_ty (of_values f)) + length (of_slots f))
    \<and> (\<forall>fr. frame_of f = Some fr \<longrightarrow> unat (fr_size fr) \<le> 32 * 1024 \<and> 16 dvd unat (fr_size fr)
    \<and> (\<forall>v. unat v < length (v_ty (of_values f)) \<longrightarrow>
         (\<exists>x. frame_value fr v = Some x \<and> unat x = 8 * unat v \<and> unat x + 8 \<le> unat (fr_size fr)))
    \<and> (\<forall>p. unat p < length (of_slots f) \<longrightarrow>
         (\<exists>x. frame_place fr p = Some x \<and> unat x = 8 * (length (v_ty (of_values f)) + unat p) \<and> unat x + 8 \<le> unat (fr_size fr))))"
proof (intro conjI allI impI)
  have "4096 < n \<Longrightarrow> 32 * 1024 < (n * 8 + 15) div 16 * 16" for n :: nat by linarith
  then show "frame_of f = None \<longleftrightarrow> 4096 < length (v_ty (of_values f)) + length (of_slots f)"
    using frame_of_total [of f] by (auto simp: frame_of_def Let_def MAX_FRAME_def not_le)
qed (use frame_layout in blast)+

theorem frame_exact_witness:
  "frame_of sample = Some \<lparr>fr_size = 16, fr_values = 2\<rparr> \<and> (\<exists>x. frame_value \<lparr>fr_size = 16, fr_values = 2\<rparr> 1 = Some x \<and> unat x = 8)"
proof -
  have "unat (1 :: u32) < length (v_ty (of_values sample))" by (simp add: sample_def)
  with frame_exact [of sample] sample_facts(4) show ?thesis by fastforce
qed

text \<open>C6: an atom is a multiple of four bytes; its trap table has one row per word behind the code, which is the
  \<^verbatim>\<open>brk\<close> of the row's kind, and every relocation is of a word of the code and names a routine of the runtime.\<close>

theorem atom_exact:
  assumes "compile show_error show_misfit f name = Some (Inr atom)" "length (at_code atom) < 2 ^ 32"
  shows "\<exists>T. 4 dvd length (at_code atom) \<and> 4 * (T + length (at_traps atom)) \<le> length (at_code atom)
    \<and> trap_rows_exact atom T \<and> relocs_exact atom T"
  by (rule atom_shape [OF assms])

theorem atom_exact_witness:
  "\<exists>atom T. compile (\<lambda>_. []) (\<lambda>_ _. []) sample ''g'' = Some (Inr atom) \<and> trap_rows_exact atom T \<and> relocs_exact atom T"
proof -
  obtain atom where a: "compile (\<lambda>_. []) (\<lambda>_ _. []) sample ''g'' = Some (Inr atom)" "length (at_code atom) < 2 ^ 32"
    by (rule sample_compiled)
  from atom_exact [OF a] a(1) show ?thesis by blast
qed

end
