(* ===== verification/Match_Code.thy ===== *)
theory Match_Code
  imports Arith_Int
begin

text \<open>
  The pattern-matrix walk of the type checker: the interner (\<^verbatim>\<open>fors-index/src/interner.rs\<close>), the pattern
  arena (\<^verbatim>\<open>fors-check/src/pat.rs\<close>), the questions the walk asks about a type (\<^verbatim>\<open>pat.rs\<close>, \<^verbatim>\<open>member.rs\<close>)
  and the usefulness algorithm with its budget (\<^verbatim>\<open>fors-check/src/exhaust.rs\<close>). \<open>None\<close> is a panic (an
  index out of range) or a recursion that does not return. The row tables of \<^verbatim>\<open>fors-fir\<close> are
  functions from ids to rows: a table is append-only and answers every id it has issued. The
  substitution engine (\<^verbatim>\<open>subst_norm_n\<close>) is the field \<open>fir_subst\<close>; the walk relies on nothing about it.
\<close>

section \<open>The interner\<close>

type_synonym Symbol = nat
type_synonym bytes = string

record Interner =
  in_strings :: "bytes list"
  in_lookup :: "bytes \<rightharpoonup> Symbol"

definition interner_new :: Interner where
  "interner_new = \<lparr>in_strings = [], in_lookup = Map.empty\<rparr>"

definition intern :: "bytes \<Rightarrow> Interner \<Rightarrow> Symbol \<times> Interner" where
  "intern bs i =
     (case in_lookup i bs of
        Some y \<Rightarrow> (y, i)
      | None \<Rightarrow>
          let y = length (in_strings i) mod 2 ^ 32
          in (y, \<lparr>in_strings = in_strings i @ [bs], in_lookup = (in_lookup i)(bs \<mapsto> y)\<rparr>))"

definition resolve :: "Interner \<Rightarrow> Symbol \<Rightarrow> bytes option" where
  "resolve i y = (if y < length (in_strings i) then Some (in_strings i ! y) else None)"

section \<open>Types, signatures and members\<close>

type_synonym TyId = nat
type_synonym ArgsId = nat
type_synonym DefId = nat
type_synonym MemberListId = nat

definition TY_ERROR :: TyId where "TY_ERROR = 0"
definition NO_TY :: TyId where "NO_TY = 2 ^ 32 - 1"
definition NO_ARGS :: ArgsId where "NO_ARGS = 0"

datatype TyTag =
    Tag_Error | Tag_Unit | Tag_Never | Tag_Prim | Tag_Nominal | Tag_Tuple | Tag_Fn | Tag_Dyn
  | Tag_Param | Tag_Proj | Tag_Brand | Tag_ConstVal

datatype SigKind =
    Sig_Fn | Sig_ExternFn | Sig_Struct | Sig_Enum | Sig_Trait | Sig_Impl | Sig_Const | Sig_Poisoned
  | Sig_Absent

datatype MemberKind = Mem_Field | Mem_Variant | Mem_Item

datatype PayloadKind = Pay_None | Pay_Tuple | Pay_Record

record Member =
  mem_kind :: MemberKind
  mem_name :: Symbol
  mem_ty :: TyId
  mem_payload :: PayloadKind
  mem_args :: ArgsId
  mem_sub :: MemberListId

record TyRow =
  row_tag :: TyTag
  row_a :: nat
  row_b :: nat
  row_flags :: u8
  row_unqual :: TyId

record Fir =
  fir_ty :: "TyId \<Rightarrow> TyRow"
  fir_args :: "ArgsId \<Rightarrow> TyId list"
  fir_kind :: "DefId \<Rightarrow> SigKind"
  fir_members :: "DefId \<Rightarrow> MemberListId"
  fir_member_list :: "MemberListId \<Rightarrow> Member list"
  fir_subst :: "TyId \<Rightarrow> (DefId \<times> TyId list) \<Rightarrow> TyId option"

definition F_OPEN :: u8 where "F_OPEN = 1 OR 2 OR 4"

definition prim_from_u8 :: "nat \<Rightarrow> PrimKind option" where
  "prim_from_u8 v =
     (let all = [Prim_I8, Prim_I16, Prim_I32, Prim_I64, Prim_Isize, Prim_U8, Prim_U16, Prim_U32, Prim_U64,
                 Prim_Usize, Prim_F32, Prim_F64, Prim_Bool, Prim_Str, Prim_RawPtr]
      in if v < length all then Some (all ! v) else None)"

definition unqual :: "Fir \<Rightarrow> TyId \<Rightarrow> TyId" where "unqual F t = row_unqual (fir_ty F t)"
definition tag :: "Fir \<Rightarrow> TyId \<Rightarrow> TyTag" where "tag F t = row_tag (fir_ty F t)"
definition ty_a :: "Fir \<Rightarrow> TyId \<Rightarrow> nat" where "ty_a F t = row_a (fir_ty F t)"
definition ty_b :: "Fir \<Rightarrow> TyId \<Rightarrow> nat" where "ty_b F t = row_b (fir_ty F t)"

definition is_monomorphic :: "Fir \<Rightarrow> TyId \<Rightarrow> bool" where
  "is_monomorphic F t \<longleftrightarrow> row_flags (fir_ty F t) AND F_OPEN = 0"

definition substituted :: "Fir \<Rightarrow> DefId \<Rightarrow> ArgsId \<Rightarrow> TyId \<Rightarrow> TyId" where
  "substituted F head args ty =
     (if is_monomorphic F ty then ty
      else let xs = fir_args F args
           in if xs = [] then ty
              else case fir_subst F ty (head, xs) of Some t \<Rightarrow> t | None \<Rightarrow> TY_ERROR)"

definition members_of :: "Fir \<Rightarrow> DefId \<Rightarrow> Member list" where
  "members_of F def = fir_member_list F (fir_members F def)"

definition variants_of :: "Fir \<Rightarrow> DefId \<Rightarrow> Member list" where
  "variants_of F def = filter (\<lambda>m. mem_kind m = Mem_Variant) (members_of F def)"

definition nth_variant :: "Fir \<Rightarrow> DefId \<Rightarrow> nat \<Rightarrow> Member option" where
  "nth_variant F def index =
     (if index < length (variants_of F def) then Some (variants_of F def ! index) else None)"

definition scrutinee_args :: "Fir \<Rightarrow> TyId \<Rightarrow> DefId \<Rightarrow> ArgsId" where
  "scrutinee_args F s def =
     (let bare = unqual F s
      in if tag F bare = Tag_Nominal \<and> ty_a F bare = def then ty_b F bare else NO_ARGS)"

definition struct_fields :: "Fir \<Rightarrow> DefId \<Rightarrow> ArgsId \<Rightarrow> (Symbol \<times> TyId) list" where
  "struct_fields F def args =
     map (\<lambda>m. (mem_name m, substituted F def args (mem_ty m)))
         (filter (\<lambda>m. mem_kind m = Mem_Field) (members_of F def))"

definition variant_component_types :: "Fir \<Rightarrow> DefId \<Rightarrow> ArgsId \<Rightarrow> Member \<Rightarrow> TyId list" where
  "variant_component_types F def args m =
     (case mem_payload m of
        Pay_None \<Rightarrow> []
      | Pay_Tuple \<Rightarrow> map (substituted F def args) (fir_args F (mem_args m))
      | Pay_Record \<Rightarrow> map (\<lambda>f. substituted F def args (mem_ty f)) (fir_member_list F (mem_sub m)))"

section \<open>The pattern arena\<close>

datatype Ctor =
    C_Variant DefId nat
  | C_Bool bool
  | C_Tuple nat
  | C_Struct DefId
  | C_Int int
  | C_Str Symbol

datatype PKind = P_Wild | P_Ctor Ctor

type_synonym PatId = nat

record PatStore =
  ps_kind :: "PKind list"
  ps_sub_start :: "nat list"
  ps_sub_len :: "nat list"
  ps_subs :: "PatId list"
  ps_wild :: PatId
  ps_node_count :: nat

definition ps_push :: "PKind \<Rightarrow> PatId list \<Rightarrow> PatStore \<Rightarrow> PatId \<times> PatStore" where
  "ps_push k subs st =
     (let n = length (ps_kind st) mod 2 ^ 32;
          start = length (ps_subs st) mod 2 ^ 32
      in (n, st\<lparr>ps_subs := ps_subs st @ subs,
                 ps_kind := ps_kind st @ [k],
                 ps_sub_start := ps_sub_start st @ [start],
                 ps_sub_len := ps_sub_len st @ [length subs mod 2 ^ 32]\<rparr>))"

definition ps_new :: PatStore where
  "ps_new =
     (let s = \<lparr>ps_kind = [], ps_sub_start = [], ps_sub_len = [], ps_subs = [], ps_wild = 0,
               ps_node_count = 0\<rparr>;
          (n, s) = ps_push P_Wild [] s
      in s\<lparr>ps_wild := n\<rparr>)"

definition ps_touch :: "PatStore \<Rightarrow> PatStore" where
  "ps_touch st = st\<lparr>ps_node_count := ps_node_count st + 1\<rparr>"

definition ps_ctor :: "Ctor \<Rightarrow> PatId list \<Rightarrow> PatStore \<Rightarrow> PatId \<times> PatStore" where
  "ps_ctor c subs st = ps_push (P_Ctor c) subs st"

definition ctor_of :: "PatStore \<Rightarrow> PatId \<Rightarrow> Ctor option option" where
  "ctor_of st p =
     (if p < length (ps_kind st)
      then Some (case ps_kind st ! p of P_Ctor c \<Rightarrow> Some c | P_Wild \<Rightarrow> None)
      else None)"

definition subs_of :: "PatStore \<Rightarrow> PatId \<Rightarrow> PatId list option" where
  "subs_of st p =
     (if p < length (ps_sub_start st) \<and> p < length (ps_sub_len st)
      then let s = ps_sub_start st ! p; l = ps_sub_len st ! p
           in if s + l \<le> length (ps_subs st) then Some (take l (drop s (ps_subs st))) else None
      else None)"

section \<open>The budget and the witnesses\<close>

definition MATCH_STEP_FACTOR :: nat where "MATCH_STEP_FACTOR = 256"

record Budget =
  bg_steps :: nat
  bg_limit :: nat

definition budget_new :: "nat \<Rightarrow> Budget" where
  "budget_new limit = \<lparr>bg_steps = 0, bg_limit = limit\<rparr>"

definition charge :: "nat \<Rightarrow> Budget \<Rightarrow> bool \<times> Budget" where
  "charge n b = (let b' = b\<lparr>bg_steps := bg_steps b + n\<rparr> in (bg_steps b' \<le> bg_limit b', b'))"

datatype Witness = W_Wild | W_Ctor Ctor "Witness list"

datatype Sig = Finite "(Ctor \<times> TyId list) list" | Infinite

definition combine_witness :: "Ctor \<Rightarrow> nat \<Rightarrow> Witness list \<Rightarrow> Witness list option" where
  "combine_witness c arity w =
     (if arity \<le> length w then Some (W_Ctor c (take arity w) # drop arity w) else None)"

section \<open>Questions about a column\<close>

definition prim_of :: "Fir \<Rightarrow> TyId \<Rightarrow> PrimKind option" where
  "prim_of F bare = prim_from_u8 (ty_a F bare mod 256)"

definition enum_ctors :: "Fir \<Rightarrow> DefId \<Rightarrow> ArgsId \<Rightarrow> (Ctor \<times> TyId list) list" where
  "enum_ctors F def args =
     map (\<lambda>(idx, m). (C_Variant def idx, variant_component_types F def args m))
         (enumerate 0 (variants_of F def))"

definition signature_of :: "Fir \<Rightarrow> TyId \<Rightarrow> Sig" where
  "signature_of F ty =
     (if ty = TY_ERROR \<or> ty = NO_TY then Infinite
      else let bare = unqual F ty
           in case tag F bare of
                Tag_Prim \<Rightarrow>
                  (if prim_of F bare = Some Prim_Bool
                   then Finite [(C_Bool False, []), (C_Bool True, [])] else Infinite)
              | Tag_Tuple \<Rightarrow>
                  let parts = fir_args F (ty_b F bare) in Finite [(C_Tuple (length parts), parts)]
              | Tag_Nominal \<Rightarrow>
                  let def = ty_a F bare; args = ty_b F bare
                  in (case fir_kind F def of
                        Sig_Struct \<Rightarrow> Finite [(C_Struct def, map snd (struct_fields F def args))]
                      | Sig_Enum \<Rightarrow>
                          let out = enum_ctors F def args in if out = [] then Infinite else Finite out
                      | _ \<Rightarrow> Infinite)
              | _ \<Rightarrow> Infinite)"

fun ctor_sub_tys :: "Fir \<Rightarrow> TyId \<Rightarrow> Ctor \<Rightarrow> TyId list" where
  "ctor_sub_tys F ty (C_Bool b) = []"
| "ctor_sub_tys F ty (C_Int n) = []"
| "ctor_sub_tys F ty (C_Str s) = []"
| "ctor_sub_tys F ty (C_Tuple n) =
     (let bare = unqual F ty in if tag F bare = Tag_Tuple then fir_args F (ty_b F bare) else [])"
| "ctor_sub_tys F ty (C_Struct def) =
     map snd (struct_fields F def (scrutinee_args F ty def))"
| "ctor_sub_tys F ty (C_Variant def idx) =
     (let args = scrutinee_args F ty def
      in case nth_variant F def idx of
           Some m \<Rightarrow> variant_component_types F def args m
         | None \<Rightarrow> [])"

section \<open>Rows of the matrix\<close>

fun head_ctor :: "PatStore \<Rightarrow> PatId list \<Rightarrow> Ctor option option" where
  "head_ctor st [] = None"
| "head_ctor st (p # r) = ctor_of st p"

fun any_head :: "PatStore \<Rightarrow> Ctor \<Rightarrow> PatId list list \<Rightarrow> bool option" where
  "any_head st c [] = Some False"
| "any_head st c (r # rows) =
     Option.bind (head_ctor st r) (\<lambda>h. if h = Some c then Some True else any_head st c rows)"

fun find_missing :: "PatStore \<Rightarrow> PatId list list \<Rightarrow> nat \<Rightarrow> (Ctor \<times> TyId list) list \<Rightarrow> nat option option" where
  "find_missing st rows i [] = Some None"
| "find_missing st rows i ((c, sub) # cs) =
     Option.bind (any_head st c rows) (\<lambda>b. if b then find_missing st rows (Suc i) cs else Some (Some i))"

fun specialize :: "PatStore \<Rightarrow> Ctor \<Rightarrow> nat \<Rightarrow> PatId list list \<Rightarrow> PatId list list option" where
  "specialize st c arity [] = Some []"
| "specialize st c arity (r # rows) =
     Option.bind (head_ctor st r) (\<lambda>h.
       case h of
         None \<Rightarrow> map_option (\<lambda>out. (replicate arity (ps_wild st) @ tl r) # out) (specialize st c arity rows)
       | Some rc \<Rightarrow>
           if rc = c then
             Option.bind (subs_of st (hd r)) (\<lambda>ps.
               map_option (\<lambda>out. (ps @ tl r) # out) (specialize st c arity rows))
           else specialize st c arity rows)"

fun default_rows :: "PatStore \<Rightarrow> PatId list list \<Rightarrow> PatId list list option" where
  "default_rows st [] = Some []"
| "default_rows st (r # rows) =
     Option.bind (head_ctor st r) (\<lambda>h.
       map_option (\<lambda>out. if h = None then tl r # out else out) (default_rows st rows))"

section \<open>Missing literals\<close>

fun decimal :: "nat \<Rightarrow> string" where
  "decimal n = (if n < 10 then [char_of (48 + n)] else decimal (n div 10) @ [char_of (48 + n mod 10)])"

declare decimal.simps [simp del]

definition other_name :: "nat \<Rightarrow> bytes" where
  "other_name n = ''other'' @ decimal n"

definition is_str_column :: "Fir \<Rightarrow> TyId \<Rightarrow> bool" where
  "is_str_column F ty \<longleftrightarrow>
     (let bare = unqual F ty
      in ty \<noteq> TY_ERROR \<and> ty \<noteq> NO_TY \<and> tag F bare = Tag_Prim \<and> prim_of F bare = Some Prim_Str)"

fun missing_str :: "PatStore \<Rightarrow> PatId list list \<Rightarrow> nat list \<Rightarrow> Interner \<Rightarrow> (Witness \<times> Interner) option" where
  "missing_str st rows [] nm = Some (W_Wild, nm)"
| "missing_str st rows (n # ns) nm =
     (let (y, nm) = intern (other_name n) nm
      in Option.bind (any_head st (C_Str y) rows) (\<lambda>b.
           if b then missing_str st rows ns nm else Some (W_Ctor (C_Str y) [], nm)))"

fun missing_int :: "PatStore \<Rightarrow> PatId list list \<Rightarrow> nat list \<Rightarrow> Witness option" where
  "missing_int st rows [] = Some W_Wild"
| "missing_int st rows (n # ns) =
     Option.bind (any_head st (C_Int (int n)) rows) (\<lambda>b.
       if b then missing_int st rows ns else Some (W_Ctor (C_Int (int n)) []))"

definition missing_literal ::
  "Fir \<Rightarrow> TyId \<Rightarrow> PatStore \<Rightarrow> PatId list list \<Rightarrow> Interner \<Rightarrow> (Witness \<times> Interner) option" where
  "missing_literal F ty st rows nm =
     (let cands = [0..<length rows + 1]
      in if is_str_column F ty then missing_str st rows cands nm
         else map_option (\<lambda>w. (w, nm)) (missing_int st rows cands))"

section \<open>Usefulness\<close>

text \<open>
  The state of the walk is its budget and the interner. An answer is \<open>None\<close> once the budget is
  exhausted, \<open>Some None\<close> for a row that is not useful, \<open>Some (Some w)\<close> for a useful one with a
  witness per column; \<open>keep\<close> is the \<^verbatim>\<open>?\<close> operator on it.
\<close>

type_synonym wstate = "Budget \<times> Interner"
type_synonym 'a run = "('a option \<times> wstate) option"

definition keep :: "'a run \<Rightarrow> ('a \<Rightarrow> wstate \<Rightarrow> 'b run) \<Rightarrow> 'b run" where
  "keep m f = Option.bind m (\<lambda>rs. case fst rs of None \<Rightarrow> Some (None, snd rs) | Some a \<Rightarrow> f a (snd rs))"

lemma keep_mono [partial_function_mono]:
  fixes m :: "('r \<Rightarrow> 's option) \<Rightarrow> 'c run"
  assumes "mono_option (\<lambda>g. m g)" and "\<And>a s. mono_option (\<lambda>g. f g a s)"
  shows "mono_option (\<lambda>g. keep (m g) (f g))"
  unfolding keep_def
proof (intro bind_mono assms)
  fix rs :: "'c option \<times> wstate"
  show "mono_option (\<lambda>g. case fst rs of None \<Rightarrow> Some (None, snd rs) | Some a \<Rightarrow> f g a (snd rs))"
    by (cases "fst rs") (simp_all add: assms option.const_mono)
qed

text \<open>The first useful constructor gives the witness; every constructor is tried.\<close>

fun try_all ::
  "(Ctor \<Rightarrow> TyId list \<Rightarrow> wstate \<Rightarrow> Witness list option run) \<Rightarrow> (Ctor \<times> TyId list) list \<Rightarrow>
   Witness list option \<Rightarrow> wstate \<Rightarrow> Witness list option run" where
  "try_all f [] w s = Some (Some w, s)"
| "try_all f ((c, sub) # cs) w s =
     keep (f c sub s) (\<lambda>r s.
       case (w, r) of
         (None, Some ws) \<Rightarrow> Option.bind (combine_witness c (length sub) ws) (\<lambda>x. try_all f cs (Some x) s)
       | _ \<Rightarrow> try_all f cs w s)"

lemma try_all_mono [partial_function_mono]:
  assumes "\<And>c sub s. mono_option (\<lambda>g. f g c sub s)"
  shows "mono_option (\<lambda>g. try_all (f g) cs w s)"
proof (induction cs arbitrary: w s)
  case Nil
  show ?case by (simp add: option.const_mono)
next
  case (Cons x cs)
  obtain c sub where x: "x = (c, sub)" by (cases x)
  have "mono_option (\<lambda>g. case (w, r) of
      (None, Some ws) \<Rightarrow> Option.bind (combine_witness c (length sub) ws) (\<lambda>x. try_all (f g) cs (Some x) s')
    | _ \<Rightarrow> try_all (f g) cs w s')" for r s'
    by (cases w; cases r) (auto intro!: bind_mono Cons.IH option.const_mono)
  then show ?case by (simp add: x keep_mono assms)
qed

partial_function (option) usefulness ::
  "Fir \<Rightarrow> PatStore \<Rightarrow> TyId list \<Rightarrow> PatId list list \<Rightarrow> PatId list \<Rightarrow> wstate \<Rightarrow> Witness list option run" where
  "usefulness F st col_tys rows v s =
     (let (ok, b) = charge (length rows) (fst s); s = (b, snd s)
      in if \<not> ok then Some (None, s)
         else case v of
           [] \<Rightarrow> Some (Some (if rows = [] then Some [] else None), s)
         | p # vs \<Rightarrow>
             Option.bind (ctor_of st p) (\<lambda>k.
               case col_tys of
                 [] \<Rightarrow> None
               | ty # tys \<Rightarrow>
                   (case k of
                      Some c \<Rightarrow>
                        let sub_tys = ctor_sub_tys F ty c; arity = length sub_tys
                        in Option.bind (specialize st c arity rows) (\<lambda>spec_rows.
                           Option.bind (subs_of st p) (\<lambda>ps.
                             keep (usefulness F st (sub_tys @ tys) spec_rows (ps @ vs) s) (\<lambda>r s.
                               case r of
                                 None \<Rightarrow> Some (Some None, s)
                               | Some w \<Rightarrow> map_option (\<lambda>x. (Some (Some x), s)) (combine_witness c arity w))))
                    | None \<Rightarrow>
                        (case signature_of F ty of
                           Finite ctors \<Rightarrow>
                             Option.bind (find_missing st rows 0 ctors) (\<lambda>missing_idx.
                               case missing_idx of
                                 None \<Rightarrow>
                                   try_all (\<lambda>c sub_tys s.
                                     Option.bind (specialize st c (length sub_tys) rows) (\<lambda>spec_rows.
                                       usefulness F st (sub_tys @ tys) spec_rows
                                         (replicate (length sub_tys) (ps_wild st) @ vs) s)) ctors None s
                               | Some i \<Rightarrow>
                                   Option.bind (default_rows st rows) (\<lambda>def_rows.
                                     keep (usefulness F st tys def_rows vs s) (\<lambda>r s.
                                       let (mc, msub) = ctors ! i
                                       in Some (Some (map_option
                                            (\<lambda>rest. W_Ctor mc (replicate (length msub) W_Wild) # rest) r), s))))
                         | Infinite \<Rightarrow>
                             Option.bind (default_rows st rows) (\<lambda>def_rows.
                               keep (usefulness F st tys def_rows vs s) (\<lambda>r s.
                                 map_option (\<lambda>(w0, nm). (Some (map_option (\<lambda>rest. w0 # rest) r), (fst s, nm)))
                                   (missing_literal F ty st rows (snd s))))))))"

section \<open>One match\<close>

text \<open>
  What a match adds to the checker: the interner, the running step counter, the rows of
  \<^verbatim>\<open>facts.patterns.scrutinees\<close> and the diagnostics, whose witness is kept as a term.
\<close>

datatype Diag =
    T0053 nat Witness
  | T0054 nat
  | T0055 nat nat nat

record ScrutineeRow =
  sr_owner :: nat
  sr_ty :: TyId
  sr_exhaustive :: bool

record Checker =
  ck_names :: Interner
  ck_exhaust_steps :: nat
  ck_scrutinees :: "ScrutineeRow list"
  ck_diags :: "Diag list"

definition bemit :: "Diag \<Rightarrow> Checker \<Rightarrow> Checker" where
  "bemit d ck = ck\<lparr>ck_diags := ck_diags ck @ [d]\<rparr>"

definition arm_rows :: "(nat \<times> PatId) list \<Rightarrow> PatId list list" where
  "arm_rows arms = map (\<lambda>a. [snd a]) arms"

fun unreachable_arms ::
  "Fir \<Rightarrow> PatStore \<Rightarrow> TyId \<Rightarrow> (nat \<times> PatId) list \<Rightarrow> nat list \<Rightarrow> nat list \<Rightarrow> wstate \<Rightarrow> nat list run" where
  "unreachable_arms F st s arms [] acc ws = Some (Some acc, ws)"
| "unreachable_arms F st s arms (i # is) acc ws =
     keep (usefulness F st [s] (arm_rows (take i arms)) [snd (arms ! i)] ws) (\<lambda>r ws.
       unreachable_arms F st s arms is (if r = None then acc @ [fst (arms ! i)] else acc) ws)"

definition match_limit :: "PatStore \<Rightarrow> nat" where
  "match_limit st = min (MATCH_STEP_FACTOR * ps_node_count st) (2 ^ 64 - 1)"

definition check_match ::
  "Fir \<Rightarrow> nat \<Rightarrow> (nat \<times> PatId) list \<Rightarrow> PatStore \<Rightarrow> TyId \<Rightarrow> Checker \<Rightarrow> Checker option" where
  "check_match F node arms st s ck =
     (if s = TY_ERROR \<or> s = NO_TY \<or> arms = [] then Some ck
      else let limit = match_limit st
           in Option.bind
                (keep (unreachable_arms F st s arms [0..<length arms] [] (budget_new limit, ck_names ck)) (\<lambda>unreachable ws.
                 keep (usefulness F st [s] (arm_rows arms) [ps_wild st] ws) (\<lambda>missing ws.
                   Some (Some (unreachable, missing), ws))))
                (\<lambda>(answer, b, nm).
                   let ck = ck\<lparr>ck_names := nm, ck_exhaust_steps := ck_exhaust_steps ck + bg_steps b\<rparr>
                   in case answer of
                        None \<Rightarrow> Some (bemit (T0055 node (bg_steps b) limit) ck)
                      | Some (unreachable, missing) \<Rightarrow>
                          let ck = fold (\<lambda>n. bemit (T0054 n)) unreachable ck;
                              ck = ck\<lparr>ck_scrutinees := ck_scrutinees ck @
                                        [\<lparr>sr_owner = node mod 2 ^ 32, sr_ty = s, sr_exhaustive = missing = None\<rparr>]\<rparr>
                          in case missing of
                               None \<Rightarrow> Some ck
                             | Some w \<Rightarrow> if w = [] then None else Some (bemit (T0053 node (hd w)) ck)))"

end
