(* ===== verification/Match_Sem.thy ===== *)
theory Match_Sem
  imports Match_Code
begin

text \<open>
  What a match means: values as trees of constructors, the values of a type, the values a pattern
  and a row of patterns match, and the useful rows of a matrix. Integer and string columns count as
  infinite, as the language's rule says; a type the walk does not look into (a float, a type
  parameter) has the integers as stand-ins for its values, which only a wildcard matches.
\<close>

datatype Val = V Ctor "Val list"

fun literal_of :: "Fir \<Rightarrow> TyId \<Rightarrow> Ctor \<Rightarrow> bool" where
  "literal_of F ty (C_Int n) \<longleftrightarrow> \<not> is_str_column F ty"
| "literal_of F ty (C_Str y) \<longleftrightarrow> is_str_column F ty"
| "literal_of F ty c \<longleftrightarrow> False"

definition ctor_in :: "Fir \<Rightarrow> TyId \<Rightarrow> Ctor \<Rightarrow> bool" where
  "ctor_in F ty c \<longleftrightarrow>
     (case signature_of F ty of Finite cs \<Rightarrow> c \<in> fst ` set cs | Infinite \<Rightarrow> literal_of F ty c)"

fun has_ty :: "Fir \<Rightarrow> Val \<Rightarrow> TyId \<Rightarrow> bool" and has_tys :: "Fir \<Rightarrow> Val list \<Rightarrow> TyId list \<Rightarrow> bool" where
  "has_ty F (V c vs) ty \<longleftrightarrow> ctor_in F ty c \<and> has_tys F vs (ctor_sub_tys F ty c)"
| "has_tys F [] [] \<longleftrightarrow> True"
| "has_tys F (v # vs) (t # ts) \<longleftrightarrow> has_ty F v t \<and> has_tys F vs ts"
| "has_tys F _ _ \<longleftrightarrow> False"

fun pmatch :: "PatStore \<Rightarrow> PatId \<Rightarrow> Val \<Rightarrow> bool" and pmatches :: "PatStore \<Rightarrow> PatId list \<Rightarrow> Val list \<Rightarrow> bool" where
  "pmatch st p (V c vs) \<longleftrightarrow>
     (case ctor_of st p of
        None \<Rightarrow> False
      | Some None \<Rightarrow> True
      | Some (Some c') \<Rightarrow> c' = c \<and> (case subs_of st p of Some ps \<Rightarrow> pmatches st ps vs | None \<Rightarrow> False))"
| "pmatches st [] [] \<longleftrightarrow> True"
| "pmatches st (p # ps) (v # vs) \<longleftrightarrow> pmatch st p v \<and> pmatches st ps vs"
| "pmatches st _ _ \<longleftrightarrow> False"

definition covered :: "PatStore \<Rightarrow> PatId list list \<Rightarrow> Val list \<Rightarrow> bool" where
  "covered st rows vs \<longleftrightarrow> (\<exists>r\<in>set rows. pmatches st r vs)"

text \<open>A row is useful when some value of the columns' types is matched by it and by no row above.\<close>

definition useful :: "Fir \<Rightarrow> PatStore \<Rightarrow> TyId list \<Rightarrow> PatId list list \<Rightarrow> PatId list \<Rightarrow> bool" where
  "useful F st tys rows v \<longleftrightarrow> (\<exists>vs. has_tys F vs tys \<and> pmatches st v vs \<and> \<not> covered st rows vs)"

fun inst :: "Witness \<Rightarrow> Val \<Rightarrow> bool" and insts :: "Witness list \<Rightarrow> Val list \<Rightarrow> bool" where
  "inst W_Wild v \<longleftrightarrow> True"
| "inst (W_Ctor c ws) (V c' vs) \<longleftrightarrow> c = c' \<and> insts ws vs"
| "insts [] [] \<longleftrightarrow> True"
| "insts (w # ws) (v # vs) \<longleftrightarrow> inst w v \<and> insts ws vs"
| "insts _ _ \<longleftrightarrow> False"

definition inhabited :: "Fir \<Rightarrow> bool" where
  "inhabited F \<longleftrightarrow> (\<forall>ty. \<exists>v. has_ty F v ty)"

section \<open>Patterns that fit their columns\<close>

text \<open>
  Pattern typing gives a constructor pattern one sub-pattern per component of the column's type, in
  every case, diagnosed or not; \<open>pat_fits F st p ty k\<close> says so, with \<open>k\<close> the number of constructor
  nodes. A pattern without a diagnostic also tests a constructor of the type (\<open>typed\<close>).
\<close>

inductive pat_fits :: "Fir \<Rightarrow> PatStore \<Rightarrow> PatId \<Rightarrow> TyId \<Rightarrow> nat \<Rightarrow> bool"
  and fits_row :: "Fir \<Rightarrow> PatStore \<Rightarrow> PatId list \<Rightarrow> TyId list \<Rightarrow> nat \<Rightarrow> bool"
  for F st where
  fits_wild: "ctor_of st p = Some None \<Longrightarrow> pat_fits F st p ty 0"
| fits_ctor: "ctor_of st p = Some (Some c) \<Longrightarrow> subs_of st p = Some ps \<Longrightarrow>
    fits_row F st ps (ctor_sub_tys F ty c) k \<Longrightarrow> pat_fits F st p ty (Suc k)"
| fits_nil: "fits_row F st [] [] 0"
| fits_cons: "pat_fits F st p ty k \<Longrightarrow> fits_row F st r tys m \<Longrightarrow> fits_row F st (p # r) (ty # tys) (k + m)"

inductive typed :: "Fir \<Rightarrow> PatStore \<Rightarrow> PatId \<Rightarrow> TyId \<Rightarrow> bool"
  and typed_row :: "Fir \<Rightarrow> PatStore \<Rightarrow> PatId list \<Rightarrow> TyId list \<Rightarrow> bool"
  for F st where
  typed_wild: "ctor_of st p = Some None \<Longrightarrow> typed F st p ty"
| typed_ctor: "ctor_of st p = Some (Some c) \<Longrightarrow> subs_of st p = Some ps \<Longrightarrow> ctor_in F ty c \<Longrightarrow>
    typed_row F st ps (ctor_sub_tys F ty c) \<Longrightarrow> typed F st p ty"
| typed_nil: "typed_row F st [] []"
| typed_cons: "typed F st p ty \<Longrightarrow> typed_row F st r tys \<Longrightarrow> typed_row F st (p # r) (ty # tys)"

section \<open>The plain count\<close>

text \<open>
  \<open>counted F st tys rows v n\<close>: the plain algorithm, with no budget, forms matrices of \<open>n\<close> rows
  altogether for the query \<open>v\<close> against \<open>rows\<close>.
\<close>

inductive counted :: "Fir \<Rightarrow> PatStore \<Rightarrow> TyId list \<Rightarrow> PatId list list \<Rightarrow> PatId list \<Rightarrow> nat \<Rightarrow> bool"
  for F st where
  counted_nil: "counted F st tys rows [] (length rows)"
| counted_ctor: "ctor_of st p = Some (Some c) \<Longrightarrow> sub = ctor_sub_tys F ty c \<Longrightarrow>
    specialize st c (length sub) rows = Some sr \<Longrightarrow> subs_of st p = Some ps \<Longrightarrow>
    counted F st (sub @ tys) sr (ps @ vs) n \<Longrightarrow>
    counted F st (ty # tys) rows (p # vs) (length rows + n)"
| counted_all: "ctor_of st p = Some None \<Longrightarrow> signature_of F ty = Finite cs \<Longrightarrow>
    find_missing st rows 0 cs = Some None \<Longrightarrow>
    list_all2 (\<lambda>x n. \<exists>sr. specialize st (fst x) (length (snd x)) rows = Some sr \<and>
      counted F st (snd x @ tys) sr (replicate (length (snd x)) (ps_wild st) @ vs) n) cs ns \<Longrightarrow>
    counted F st (ty # tys) rows (p # vs) (length rows + sum_list ns)"
| counted_default: "ctor_of st p = Some None \<Longrightarrow>
    signature_of F ty = Infinite \<or> signature_of F ty = Finite cs \<and> find_missing st rows 0 cs = Some (Some i) \<Longrightarrow>
    default_rows st rows = Some dr \<Longrightarrow> counted F st tys dr vs n \<Longrightarrow>
    counted F st (ty # tys) rows (p # vs) (length rows + n)"

inductive_simps fits_simps: "pat_fits F st p ty k"
inductive_simps fits_row_simps [simp]: "fits_row F st [] tys k" "fits_row F st (p # r) tys k" "fits_row F st r [] k"
inductive_cases fits_row_consE: "fits_row F st r (ty # tys) k"
inductive_simps typed_simps: "typed F st p ty"
inductive_simps typed_row_simps [simp]: "typed_row F st [] tys" "typed_row F st (p # r) tys" "typed_row F st r []"

end
