(* ===== verification/Match_Laws.thy ===== *)
theory Match_Laws
  imports Match_Sem
begin

text \<open>
  The algebra of the pattern matrix: the signature of a type names each constructor with its own
  components, specialising and defaulting keep exactly the values they should, and neither panics
  nor adds constructor nodes when the rows fit their columns.
\<close>

section \<open>Signatures\<close>

lemma ctor_in_finite: "signature_of F ty = Finite cs \<Longrightarrow> ctor_in F ty c \<longleftrightarrow> (\<exists>sub. (c, sub) \<in> set cs)"
  by (force simp: ctor_in_def)

lemma ctor_in_infinite: "signature_of F ty = Infinite \<Longrightarrow> ctor_in F ty c \<longleftrightarrow> literal_of F ty c"
  by (simp add: ctor_in_def)

lemma signature_cases:
  assumes "signature_of F ty = Finite cs"
  obtains
    (prim) "tag F (unqual F ty) = Tag_Prim" "cs = [(C_Bool False, []), (C_Bool True, [])]"
  | (tuple) parts where "tag F (unqual F ty) = Tag_Tuple" "parts = fir_args F (ty_b F (unqual F ty))"
      "cs = [(C_Tuple (length parts), parts)]"
  | (struct) def args where "tag F (unqual F ty) = Tag_Nominal" "def = ty_a F (unqual F ty)"
      "args = ty_b F (unqual F ty)" "cs = [(C_Struct def, map snd (struct_fields F def args))]"
  | (enum) def args where "tag F (unqual F ty) = Tag_Nominal" "def = ty_a F (unqual F ty)"
      "args = ty_b F (unqual F ty)" "cs = enum_ctors F def args" "cs \<noteq> []"
proof (cases "tag F (unqual F ty)")
  case Tag_Nominal
  with assms that(3,4) show ?thesis
    by (cases "fir_kind F (ty_a F (unqual F ty))") (auto simp: signature_of_def Let_def split: if_splits)
qed (use assms that(1,2) in \<open>auto simp: signature_of_def Let_def split: if_splits\<close>)

lemma signature_nonempty:
  assumes "signature_of F ty = Finite cs"
  shows "cs \<noteq> []"
  using assms by (cases rule: signature_cases) simp_all

lemma enum_ctors_sub:
  assumes "(c, sub) \<in> set (enum_ctors F def args)"
  shows "\<exists>idx m. c = C_Variant def idx \<and> nth_variant F def idx = Some m \<and> sub = variant_component_types F def args m"
proof -
  from assms obtain idx m where "(idx, m) \<in> set (enumerate 0 (variants_of F def))"
    "c = C_Variant def idx" "sub = variant_component_types F def args m"
    unfolding enum_ctors_def by auto
  then show ?thesis by (intro exI [of _ idx] exI [of _ m]) (simp add: nth_variant_def in_set_enumerate_eq)
qed

lemma scrutinee_args_nominal:
  "tag F (unqual F ty) = Tag_Nominal \<Longrightarrow> scrutinee_args F ty (ty_a F (unqual F ty)) = ty_b F (unqual F ty)"
  by (simp add: scrutinee_args_def)

lemma signature_sub:
  assumes "signature_of F ty = Finite cs" "(c, sub) \<in> set cs"
  shows "ctor_sub_tys F ty c = sub"
  using assms(1)
proof (cases rule: signature_cases)
  case (enum def args)
  with assms(2) enum_ctors_sub [of c sub F def args] show ?thesis
    by (auto simp: scrutinee_args_nominal)
qed (use assms(2) in \<open>auto simp: scrutinee_args_nominal\<close>)

lemma literal_no_sub: "literal_of F ty c \<Longrightarrow> ctor_sub_tys F ty c = []"
  by (cases c) auto

section \<open>Rows of values\<close>

lemma has_tys_length: "has_tys F vs tys \<Longrightarrow> length vs = length tys"
  by (induction vs tys rule: list_induct2') auto

lemma has_tys_append:
  "length xs = length sub \<Longrightarrow> has_tys F (xs @ vs) (sub @ tys) \<longleftrightarrow> has_tys F xs sub \<and> has_tys F vs tys"
  by (induction xs sub rule: list_induct2) auto

lemma has_tys_split:
  assumes "has_tys F zs (sub @ tys)"
  obtains xs vs where "zs = xs @ vs" "has_tys F xs sub" "has_tys F vs tys" "length xs = length sub"
proof -
  have l: "length (take (length sub) zs) = length sub"
    using has_tys_length [OF assms] by simp
  moreover have "has_tys F (take (length sub) zs @ drop (length sub) zs) (sub @ tys)"
    using assms by simp
  ultimately show thesis
    using that [of "take (length sub) zs" "drop (length sub) zs"] by (simp only: has_tys_append) simp
qed

lemma pmatches_length: "pmatches st ps vs \<Longrightarrow> length ps = length vs"
  by (induction ps vs rule: list_induct2') auto

lemma pmatches_append:
  "length ps = length xs \<Longrightarrow> pmatches st (ps @ qs) (xs @ vs) \<longleftrightarrow> pmatches st ps xs \<and> pmatches st qs vs"
  by (induction ps xs rule: list_induct2) auto

lemma pmatch_wild: "ctor_of st p = Some None \<Longrightarrow> pmatch st p v"
  by (cases v) simp

lemma pmatches_wilds:
  assumes "ctor_of st w = Some None"
  shows "length xs = n \<Longrightarrow> pmatches st (replicate n w @ qs) (xs @ vs) \<longleftrightarrow> pmatches st qs vs"
  by (induction xs arbitrary: n) (auto simp: pmatch_wild [OF assms])

lemma insts_length: "insts ws vs \<Longrightarrow> length ws = length vs"
  by (induction ws vs rule: list_induct2') auto

lemma insts_append:
  "length ws = length xs \<Longrightarrow> insts (ws @ us) (xs @ vs) \<longleftrightarrow> insts ws xs \<and> insts us vs"
  by (induction ws xs rule: list_induct2) auto

lemma insts_wilds: "insts (replicate n W_Wild) xs \<longleftrightarrow> length xs = n"
  by (induction n arbitrary: xs) (case_tac xs, auto)+

lemma covered_simps [simp]:
  "covered st [] vs \<longleftrightarrow> False"
  "covered st (r # rows) vs \<longleftrightarrow> pmatches st r vs \<or> covered st rows vs"
  by (auto simp: covered_def)

section \<open>Fitting rows\<close>

abbreviation wild_ok :: "PatStore \<Rightarrow> bool" where "wild_ok st \<equiv> ctor_of st (ps_wild st) = Some None"

definition fits_rows :: "Fir \<Rightarrow> PatStore \<Rightarrow> PatId list list \<Rightarrow> TyId list \<Rightarrow> nat \<Rightarrow> bool" where
  "fits_rows F st rows tys n \<longleftrightarrow> (\<exists>ks. list_all2 (\<lambda>r. fits_row F st r tys) rows ks \<and> n = sum_list ks)"

lemma fits_rows_nil [simp]: "fits_rows F st [] tys n \<longleftrightarrow> n = 0"
  by (auto simp: fits_rows_def)

lemma fits_rows_cons [simp]:
  "fits_rows F st (r # rows) tys n \<longleftrightarrow> (\<exists>k m. n = k + m \<and> fits_row F st r tys k \<and> fits_rows F st rows tys m)"
proof
  assume "fits_rows F st (r # rows) tys n"
  then show "\<exists>k m. n = k + m \<and> fits_row F st r tys k \<and> fits_rows F st rows tys m"
    unfolding fits_rows_def list_all2_Cons1 by (metis sum_list.Cons)
next
  assume "\<exists>k m. n = k + m \<and> fits_row F st r tys k \<and> fits_rows F st rows tys m"
  then obtain k ks where "n = k + sum_list ks" "fits_row F st r tys k"
    "list_all2 (\<lambda>r. fits_row F st r tys) rows ks"
    unfolding fits_rows_def by blast
  then show "fits_rows F st (r # rows) tys n"
    unfolding fits_rows_def by (intro exI [of _ "k # ks"]) simp
qed

lemma fits_row_length: "fits_row F st r tys k \<Longrightarrow> length r = length tys"
  by (induction r arbitrary: tys k) auto

lemma fits_row_append:
  "fits_row F st ps sub k \<Longrightarrow> fits_row F st qs tys m \<Longrightarrow> fits_row F st (ps @ qs) (sub @ tys) (k + m)"
proof (induction ps arbitrary: sub k)
  case (Cons p ps)
  from Cons.prems(1) obtain ty sub' a b where "sub = ty # sub'" "k = a + b" "pat_fits F st p ty a"
    "fits_row F st ps sub' b" by auto
  with Cons.IH [of sub' b] Cons.prems(2) show ?case by (auto simp: add.assoc intro!: fits_cons)
qed simp

lemma fits_wilds: "wild_ok st \<Longrightarrow> fits_row F st (replicate (length sub) (ps_wild st)) sub 0"
  by (induction sub) (auto simp: fits_simps)

lemma typed_row_append:
  "typed_row F st ps sub \<Longrightarrow> typed_row F st qs tys \<Longrightarrow> typed_row F st (ps @ qs) (sub @ tys)"
  by (induction ps arbitrary: sub) auto

lemma typed_wilds: "wild_ok st \<Longrightarrow> typed_row F st (replicate (length sub) (ps_wild st)) sub"
  by (induction sub) (auto simp: typed_simps)

lemma typed_fits:
  "typed F st p ty \<Longrightarrow> \<exists>k. pat_fits F st p ty k"
  "typed_row F st r tys \<Longrightarrow> \<exists>k. fits_row F st r tys k"
  by (induction rule: typed_typed_row.inducts) (blast intro: pat_fits_fits_row.intros)+

lemma fits_head:
  assumes "fits_row F st r (ty # tys) k"
  obtains p q a b where "r = p # q" "k = a + b" "pat_fits F st p ty a" "fits_row F st q tys b"
  using assms by (auto elim: fits_row_consE)

lemma any_head_total:
  assumes "fits_rows F st rows (ty # tys) n"
  shows "any_head st c rows \<noteq> None"
  using assms
proof (induction rows arbitrary: n)
  case (Cons r rows)
  then obtain k m where r: "fits_row F st r (ty # tys) k" "fits_rows F st rows (ty # tys) m" by auto
  from r(1) obtain p q h where q: "r = p # q" "ctor_of st p = Some h"
    by (elim fits_head) (auto simp: fits_simps)
  with Cons.IH [OF r(2)] show ?case by (cases "h = Some c") simp_all
qed simp

lemma any_head_True: "any_head st c rows = Some True \<Longrightarrow> \<exists>r\<in>set rows. head_ctor st r = Some (Some c)"
  by (induction rows) (auto split: bind_splits if_splits)

lemma find_missing_total:
  assumes "fits_rows F st rows (ty # tys) n"
  shows "(find_missing st rows i cs = Some None \<and> (\<forall>x\<in>set cs. any_head st (fst x) rows = Some True)) \<or>
    (\<exists>j < length cs. find_missing st rows i cs = Some (Some (i + j)) \<and> any_head st (fst (cs ! j)) rows = Some False)"
proof (induction cs arbitrary: i)
  case (Cons x cs)
  obtain c sub where x: "x = (c, sub)" by (cases x)
  obtain b where b: "any_head st c rows = Some b" using any_head_total [OF assms, of c] by auto
  show ?case
  proof (cases b)
    case True
    with Cons.IH [of "Suc i"] b x show ?thesis by fastforce
  next
    case False
    with b x show ?thesis by (intro disjI2 exI [of _ 0]) simp
  qed
qed simp

section \<open>Specialised and default rows\<close>

text \<open>
  A specialised matrix covers the components of a value of that constructor exactly when the matrix
  covers the value, and has fewer constructor nodes if the constructor heads a row.
\<close>

lemma specialize_ok:
  assumes sub: "sub = ctor_sub_tys F ty c" and w: "wild_ok st"
  shows "fits_rows F st rows (ty # tys) n \<Longrightarrow>
    \<exists>sr m. specialize st c (length sub) rows = Some sr \<and> fits_rows F st sr (sub @ tys) m \<and> m \<le> n \<and>
      (any_head st c rows = Some True \<longrightarrow> m < n) \<and>
      (\<forall>xs vs. length xs = length sub \<longrightarrow> covered st sr (xs @ vs) = covered st rows (V c xs # vs))"
proof (induction rows arbitrary: n)
  case (Cons r rows)
  then obtain k m where r: "fits_row F st r (ty # tys) k" "fits_rows F st rows (ty # tys) m" and n: "n = k + m"
    by auto
  from r(1) obtain p q a b where q: "r = p # q" and k: "k = a + b" and f: "pat_fits F st p ty a" "fits_row F st q tys b"
    by (rule fits_head)
  from Cons.IH [OF r(2)] obtain sr m' where IH: "specialize st c (length sub) rows = Some sr"
    "fits_rows F st sr (sub @ tys) m'" "m' \<le> m" "any_head st c rows = Some True \<longrightarrow> m' < m"
    "\<And>xs vs. length xs = length sub \<Longrightarrow> covered st sr (xs @ vs) = covered st rows (V c xs # vs)"
    by blast
  from f(1) consider (wild) "ctor_of st p = Some None" "a = 0"
    | (same) ps j where "ctor_of st p = Some (Some c)" "subs_of st p = Some ps" "fits_row F st ps sub j" "a = Suc j"
    | (other) c' where "ctor_of st p = Some (Some c')" "c' \<noteq> c"
    unfolding fits_simps [of F st p] sub by metis
  then show ?case
  proof cases
    case wild
    have "fits_row F st (replicate (length sub) (ps_wild st) @ q) (sub @ tys) (0 + b)"
      by (intro fits_row_append fits_wilds w f)
    with IH wild show ?thesis
      by (intro exI [of _ "(replicate (length sub) (ps_wild st) @ q) # sr"] exI [of _ "b + m'"])
        (auto simp: q n k pmatches_wilds [OF w])
  next
    case same
    have "fits_row F st (ps @ q) (sub @ tys) (j + b)"
      by (intro fits_row_append same f)
    with IH same fits_row_length [OF same(3)] show ?thesis
      by (intro exI [of _ "(ps @ q) # sr"] exI [of _ "j + b + m'"])
        (auto simp: q n k pmatches_append)
  next
    case other
    with IH show ?thesis
      by (intro exI [of _ sr] exI [of _ m']) (auto simp: q n k)
  qed
qed (simp add: covered_def)

lemma default_ok:
  assumes w: "wild_ok st"
  shows "fits_rows F st rows (ty # tys) n \<Longrightarrow>
    \<exists>dr m. default_rows st rows = Some dr \<and> fits_rows F st dr tys m \<and> m \<le> n \<and>
      (\<forall>v vs. covered st dr vs \<longrightarrow> covered st rows (v # vs)) \<and>
      (\<forall>c xs vs. any_head st c rows = Some False \<longrightarrow> covered st dr vs = covered st rows (V c xs # vs))"
proof (induction rows arbitrary: n)
  case (Cons r rows)
  then obtain k m where r: "fits_row F st r (ty # tys) k" "fits_rows F st rows (ty # tys) m" and n: "n = k + m"
    by auto
  from r(1) obtain p q a b where q: "r = p # q" and k: "k = a + b" and f: "pat_fits F st p ty a" "fits_row F st q tys b"
    by (rule fits_head)
  from Cons.IH [OF r(2)] obtain dr m' where IH: "default_rows st rows = Some dr"
    "fits_rows F st dr tys m'" "m' \<le> m" "\<And>v vs. covered st dr vs \<Longrightarrow> covered st rows (v # vs)"
    "\<And>c xs vs. any_head st c rows = Some False \<Longrightarrow> covered st dr vs = covered st rows (V c xs # vs)"
    by blast
  from f(1) consider (wild) "ctor_of st p = Some None" "a = 0" | (ctor) c' where "ctor_of st p = Some (Some c')"
    unfolding fits_simps [of F st p] by metis
  then show ?case
  proof cases
    case wild
    with IH f(2) show ?thesis
      by (intro exI [of _ "q # dr"] exI [of _ "b + m'"]) (auto simp: q n k pmatch_wild)
  next
    case ctor
    with IH show ?thesis
      by (intro exI [of _ dr] exI [of _ m']) (auto simp: q n k)
  qed
qed (simp add: covered_def)

section \<open>Termination\<close>

lemma list_all2_choice: "(\<And>x. x \<in> set xs \<Longrightarrow> \<exists>y. P x y) \<Longrightarrow> \<exists>ys. list_all2 P xs ys"
proof (induction xs)
  case (Cons x xs)
  from Cons.IH Cons.prems obtain ys where "list_all2 P xs ys" by auto
  moreover from Cons.prems [of x] obtain y where "P x y" by auto
  ultimately show ?case by (intro exI [of _ "y # ys"]) simp
qed (intro exI [of _ "[]"] list.rel_intros)

text \<open>
  Specialising by the constructors of a complete signature removes a constructor node from the rows,
  specialising by the query's own constructor removes one from the query, and the default matrix has
  one column less: the plain count exists for every matrix that fits.
\<close>

lemma counted_exists:
  assumes w: "wild_ok st"
  shows "fits_rows F st rows tys n \<Longrightarrow> fits_row F st v tys k \<Longrightarrow> \<exists>m. counted F st tys rows v m"
proof (induction "n + k" arbitrary: n k tys rows v rule: less_induct)
  case outer: less
  then show ?case
  proof (induction "length tys" arbitrary: n k tys rows v rule: less_induct)
    case less
    have smaller: "\<exists>m. counted F st tys' rows' v' m"
      if "fits_rows F st rows' tys' n'" "fits_row F st v' tys' k'" "n' + k' < n + k" for rows' tys' v' n' k'
      using less(2) that by blast
    have shorter: "\<exists>m. counted F st tys' rows' v' m"
      if "fits_rows F st rows' tys' n'" "fits_row F st v' tys' k'" "n' + k' \<le> n + k" "length tys' < length tys"
      for rows' tys' v' n' k'
    proof (cases "n' + k' = n + k")
      case True
      show ?thesis by (rule less(1)) (use that less(2) True in \<open>simp_all\<close>)
    qed (use smaller that in auto)
    show ?case
    proof (cases v)
      case Nil
      then show ?thesis by (blast intro: counted_nil)
    next
      case (Cons p vs)
      with less(4) obtain ty tys' a b where t: "tys = ty # tys'" "k = a + b"
        and f: "pat_fits F st p ty a" "fits_row F st vs tys' b"
        by auto
      note rows = less(3) [unfolded t(1)]
      from f(1) consider (wild) "ctor_of st p = Some None" "a = 0"
        | (ctor) c ps j where "ctor_of st p = Some (Some c)" "subs_of st p = Some ps"
          "fits_row F st ps (ctor_sub_tys F ty c) j" "a = Suc j"
        unfolding fits_simps [of F st p] by metis
      then show ?thesis
      proof cases
        case ctor
        from specialize_ok [OF refl w rows, of c] obtain sr m where
          sr: "specialize st c (length (ctor_sub_tys F ty c)) rows = Some sr"
            "fits_rows F st sr (ctor_sub_tys F ty c @ tys') m" "m \<le> n" by blast
        obtain m' where "counted F st (ctor_sub_tys F ty c @ tys') sr (ps @ vs) m'"
          using smaller [OF sr(2) fits_row_append [OF ctor(3) f(2)]] sr(3) ctor(4) t(2) by auto
        with ctor sr show ?thesis unfolding t Cons by (blast intro: counted_ctor)
      next
        case wild
        from default_ok [OF w rows] obtain dr m where dr: "default_rows st rows = Some dr"
          "fits_rows F st dr tys' m" "m \<le> n" by blast
        obtain m' where d: "counted F st tys' dr vs m'"
          using shorter [OF dr(2) f(2)] dr(3) wild(2) t by auto
        show ?thesis
        proof (cases "signature_of F ty")
          case Infinite
          with wild dr d show ?thesis unfolding t Cons by (blast intro: counted_default)
        next
          case (Finite cs)
          from find_missing_total [OF rows, of 0 cs] consider
            (all) "find_missing st rows 0 cs = Some None" "\<forall>x\<in>set cs. any_head st (fst x) rows = Some True"
            | (gap) j where "find_missing st rows 0 cs = Some (Some j)" by auto
          then show ?thesis
          proof cases
            case gap
            with wild dr d Finite show ?thesis unfolding t Cons by (blast intro: counted_default)
          next
            case all
            have "\<exists>m sr. specialize st (fst x) (length (snd x)) rows = Some sr \<and>
                counted F st (snd x @ tys') sr (replicate (length (snd x)) (ps_wild st) @ vs) m"
              if x: "x \<in> set cs" for x
            proof -
              have s: "snd x = ctor_sub_tys F ty (fst x)"
                using signature_sub [OF Finite, of "fst x" "snd x"] x by simp
              from specialize_ok [OF s w rows] all(2) x obtain sr m where
                sr: "specialize st (fst x) (length (snd x)) rows = Some sr"
                  "fits_rows F st sr (snd x @ tys') m" "m < n" by blast
              show ?thesis
                using smaller [OF sr(2) fits_row_append [OF fits_wilds [OF w] f(2)]] sr wild(2) t(2) by auto
            qed
            then have "\<exists>ns. list_all2 (\<lambda>x m. \<exists>sr. specialize st (fst x) (length (snd x)) rows = Some sr \<and>
                counted F st (snd x @ tys') sr (replicate (length (snd x)) (ps_wild st) @ vs) m) cs ns"
              by (intro list_all2_choice) blast
            with wild Finite all show ?thesis unfolding t Cons by (blast intro: counted_all)
          qed
        qed
      qed
    qed
  qed
qed

end
