(* ===== verification/Match_Names.thy ===== *)
theory Match_Names
  imports Match_Laws
begin

text \<open>
  The literal a non-exhaustive match is told about is new: no row of the column tests it. For strings
  this needs the interner to tell distinct names apart, which is the interface \<open>name_table\<close>.
\<close>

section \<open>Name tables\<close>

fun intern_list :: "(bytes \<Rightarrow> 's \<Rightarrow> Symbol \<times> 's) \<Rightarrow> bytes list \<Rightarrow> 's \<Rightarrow> Symbol list \<times> 's" where
  "intern_list f [] i = ([], i)"
| "intern_list f (b # bs) i =
     (let (y, i) = f b i; (ys, i) = intern_list f bs i in (y # ys, i))"

locale name_table =
  fixes ok :: "'s \<Rightarrow> bool" and size_of :: "'s \<Rightarrow> nat" and look :: "'s \<Rightarrow> bytes \<rightharpoonup> Symbol"
    and put :: "bytes \<Rightarrow> 's \<Rightarrow> Symbol \<times> 's"
  assumes put_ok: "ok i \<Longrightarrow> ok (snd (put b i))"
    and put_size: "size_of i \<le> size_of (snd (put b i))"
    and put_look: "look (snd (put b i)) b = Some (fst (put b i))"
    and put_keeps: "look i a = Some y \<Longrightarrow> look (snd (put b i)) a = Some y"
    and look_inj: "ok i \<Longrightarrow> size_of i \<le> 2 ^ 32 \<Longrightarrow> look i a = Some y \<Longrightarrow> look i b = Some y \<Longrightarrow> a = b"
begin

lemma list_keeps:
  "intern_list put bs i = (ys, j) \<Longrightarrow>
    (ok i \<longrightarrow> ok j) \<and> size_of i \<le> size_of j \<and> (\<forall>a y. look i a = Some y \<longrightarrow> look j a = Some y)"
proof (induction bs arbitrary: i ys)
  case (Cons b bs)
  obtain y i' where p: "put b i = (y, i')" by (cases "put b i")
  with Cons.prems obtain ys' where "intern_list put bs i' = (ys', j)" by (auto split: prod.splits)
  from Cons.IH [OF this] show ?case
    using put_ok [of i b] put_size [of i b] put_keeps [of i _ _ b] p by (auto intro: order_trans)
qed simp

lemma list_look:
  "intern_list put bs i = (ys, j) \<Longrightarrow> map (look j) bs = map Some ys"
proof (induction bs arbitrary: i ys)
  case (Cons b bs)
  obtain y i' where p: "put b i = (y, i')" by (cases "put b i")
  with Cons.prems obtain ys' where r: "intern_list put bs i' = (ys', j)" "ys = y # ys'"
    by (auto split: prod.splits)
  have "look i' b = Some y" using put_look [where b = b and i = i] p by simp
  then have "look j b = Some y" using list_keeps [OF r(1)] by blast
  with Cons.IH [OF r(1)] r(2) show ?case by simp
qed simp

lemma list_distinct:
  assumes "intern_list put bs i = (ys, j)" "ok i" "size_of j \<le> 2 ^ 32" "distinct bs"
  shows "distinct ys"
proof -
  note l = list_look [OF assms(1)]
  have ok: "ok j" using list_keeps [OF assms(1)] assms(2) by blast
  have "inj_on (look j) (set bs)"
  proof (rule inj_onI)
    fix a b assume ab: "a \<in> set bs" "b \<in> set bs" "look j a = look j b"
    from l ab(1) have "look j a \<in> Some ` set ys" by (metis image_eqI list.set_map)
    then obtain y where "look j a = Some y" by blast
    with ab(3) show "a = b" using look_inj [OF ok assms(3)] by metis
  qed
  then have "distinct (map (look j) bs)" using assms(4) by (simp add: distinct_map)
  then show ?thesis by (simp add: l distinct_map)
qed

lemma list_length: "intern_list put bs i = (ys, j) \<Longrightarrow> length ys = length bs"
  by (drule list_look) (metis length_map)

end

section \<open>The interner\<close>

text \<open>
  A symbol is the position at which its string was first interned, modulo the width of \<^verbatim>\<open>Symbol\<close>; so
  it determines the string as long as the table has at most \<open>2 ^ 32\<close> of them.
\<close>

definition interner_ok :: "Interner \<Rightarrow> bool" where
  "interner_ok i \<longleftrightarrow> (\<forall>b y. in_lookup i b = Some y \<longrightarrow>
     (\<exists>k < length (in_strings i). in_strings i ! k = b \<and> y = k mod 2 ^ 32))"

definition interner_size :: "Interner \<Rightarrow> nat" where
  "interner_size i = length (in_strings i)"

lemma interner_new_ok: "interner_ok interner_new"
  by (simp add: interner_ok_def interner_new_def)

lemma intern_ok: "interner_ok i \<Longrightarrow> interner_ok (snd (intern b i))"
  by (cases "in_lookup i b") (force simp: intern_def interner_ok_def Let_def nth_append)+

lemma intern_size: "interner_size i \<le> interner_size (snd (intern b i))"
  by (simp add: intern_def interner_size_def Let_def split: option.split)

lemma intern_look: "in_lookup (snd (intern b i)) b = Some (fst (intern b i))"
  by (simp add: intern_def Let_def split: option.split)

lemma intern_keeps: "in_lookup i a = Some y \<Longrightarrow> in_lookup (snd (intern b i)) a = Some y"
  by (auto simp: intern_def Let_def split: option.split)

lemma lookup_inj:
  assumes "interner_ok i" "interner_size i \<le> 2 ^ 32" "in_lookup i a = Some y" "in_lookup i b = Some y"
  shows "a = b"
proof -
  from assms(1,3) obtain k where k: "k < interner_size i" "in_strings i ! k = a" "y = k mod 2 ^ 32"
    unfolding interner_ok_def interner_size_def by blast
  from assms(1,4) obtain l where l: "l < interner_size i" "in_strings i ! l = b" "y = l mod 2 ^ 32"
    unfolding interner_ok_def interner_size_def by blast
  from k(1) l(1) assms(2) have "k mod 2 ^ 32 = k" "l mod 2 ^ 32 = l" by simp_all
  with k l show ?thesis by simp
qed

interpretation names: name_table interner_ok interner_size in_lookup intern
  by unfold_locales (rule intern_ok intern_size intern_look intern_keeps lookup_inj; assumption)+

section \<open>Decimal names\<close>

lemma decimal_snoc: "10 \<le> n \<Longrightarrow> decimal n = decimal (n div 10) @ [char_of (48 + n mod 10)]"
  by (subst decimal.simps) simp

lemma decimal_digit: "n < 10 \<Longrightarrow> decimal n = [char_of (48 + n)]"
  by (subst decimal.simps) simp

lemma decimal_nonempty: "decimal n \<noteq> []"
  by (subst decimal.simps) simp

lemma digit_inj: "a < 10 \<Longrightarrow> b < 10 \<Longrightarrow> (char_of (48 + a) :: char) = char_of (48 + b) \<Longrightarrow> a = (b :: nat)"
  by (drule arg_cong [where f = "of_char :: char \<Rightarrow> nat"]) simp

lemma decimal_inj: "decimal a = decimal b \<Longrightarrow> a = b"
proof (induction a arbitrary: b rule: less_induct)
  case (less a)
  show ?case
  proof (cases "a < 10 \<or> b < 10")
    case True
    with less.prems show ?thesis
      by (cases "a < 10"; cases "b < 10")
        (auto simp: decimal_digit decimal_snoc decimal_nonempty decimal_nonempty [symmetric] dest: digit_inj)
  next
    case False
    with less.prems have "decimal (a div 10) = decimal (b div 10)" and m: "a mod 10 = b mod 10"
      by (auto simp: decimal_snoc dest: digit_inj [rotated 2])
    with less.IH [of "a div 10"] False have "a div 10 = b div 10" by simp
    with m show ?thesis by (metis mult_div_mod_eq)
  qed
qed

lemma other_name_inj: "inj other_name"
  by (rule injI) (simp add: other_name_def decimal_inj)

section \<open>The missing literal\<close>

lemma heads_pigeonhole:
  assumes "inj f" "distinct ys" "\<forall>y\<in>set ys. any_head st (f y) rows = Some True"
  shows "length ys \<le> length rows"
proof -
  have "(Some \<circ> Some \<circ> f) ` set ys \<subseteq> set (map (head_ctor st) rows)"
  proof
    fix h assume "h \<in> (Some \<circ> Some \<circ> f) ` set ys"
    then obtain y where y: "y \<in> set ys" "h = Some (Some (f y))" by auto
    with assms(3) obtain r where "r \<in> set rows" "head_ctor st r = h" using any_head_True by metis
    then show "h \<in> set (map (head_ctor st) rows)" by auto
  qed
  then have "card ((Some \<circ> Some \<circ> f) ` set ys) \<le> card (set (map (head_ctor st) rows))"
    by (rule card_mono [rotated]) simp
  also have "\<dots> \<le> length rows" by (metis card_length length_map)
  also have "card ((Some \<circ> Some \<circ> f) ` set ys) = length ys"
    using assms(1,2) by (simp add: card_image distinct_card inj_on_def)
  finally show ?thesis .
qed

lemma missing_int_cases:
  assumes "\<And>c. any_head st c rows \<noteq> None"
  shows "(missing_int st rows ns = Some W_Wild \<and> (\<forall>n\<in>set ns. any_head st (C_Int (int n)) rows = Some True)) \<or>
    (\<exists>n. missing_int st rows ns = Some (W_Ctor (C_Int (int n)) []) \<and> any_head st (C_Int (int n)) rows = Some False)"
  using assms
proof (induction ns)
  case (Cons n ns)
  from Cons.prems [of "C_Int (int n)"] obtain b where "any_head st (C_Int (int n)) rows = Some b" by auto
  with Cons show ?case by (cases b) auto
qed simp

lemma missing_str_cases:
  assumes "\<And>c. any_head st c rows \<noteq> None"
  shows "\<exists>nm'. interner_size nm \<le> interner_size nm' \<and> (interner_ok nm \<longrightarrow> interner_ok nm') \<and>
    ((missing_str st rows ns nm = Some (W_Wild, nm') \<and>
        (\<exists>ys. intern_list intern (map other_name ns) nm = (ys, nm') \<and>
          (\<forall>y\<in>set ys. any_head st (C_Str y) rows = Some True))) \<or>
     (\<exists>y. missing_str st rows ns nm = Some (W_Ctor (C_Str y) [], nm') \<and> any_head st (C_Str y) rows = Some False))"
  using assms
proof (induction ns arbitrary: nm)
  case (Cons n ns)
  obtain y i where p: "intern (other_name n) nm = (y, i)" by (cases "intern (other_name n) nm")
  have i: "interner_size nm \<le> interner_size i" "interner_ok nm \<longrightarrow> interner_ok i"
    using intern_size [of nm "other_name n"] intern_ok [of nm "other_name n"] p by auto
  from Cons.prems [of "C_Str y"] obtain b where b: "any_head st (C_Str y) rows = Some b" by auto
  show ?case
  proof (cases b)
    case False
    with b p i show ?thesis by (intro exI [of _ i]) auto
  next
    case True
    from Cons.IH [OF Cons.prems, of i] obtain nm' where
      n: "interner_size i \<le> interner_size nm'" "interner_ok i \<longrightarrow> interner_ok nm'" and
      c: "(missing_str st rows ns i = Some (W_Wild, nm') \<and>
        (\<exists>ys. intern_list intern (map other_name ns) i = (ys, nm') \<and>
          (\<forall>y\<in>set ys. any_head st (C_Str y) rows = Some True))) \<or>
       (\<exists>y. missing_str st rows ns i = Some (W_Ctor (C_Str y) [], nm') \<and> any_head st (C_Str y) rows = Some False)"
      by blast
    from True b p have "missing_str st rows (n # ns) nm = missing_str st rows ns i" by simp
    moreover from True b p have "intern_list intern (map other_name (n # ns)) nm = (y # ys, nm')"
      if "intern_list intern (map other_name ns) i = (ys, nm')" for ys using that by simp
    ultimately show ?thesis using n c i True b by (intro exI [of _ nm']) (fastforce intro: order_trans)
  qed
qed simp

text \<open>
  With one more candidate than there are rows the search succeeds, for strings in an interner that
  has not outgrown its symbols.
\<close>

lemma missing_literal_fresh:
  assumes total: "\<And>c. any_head st c rows \<noteq> None"
  shows "\<exists>w nm'. missing_literal F ty st rows nm = Some (w, nm') \<and> interner_size nm \<le> interner_size nm' \<and>
    (interner_ok nm \<longrightarrow> interner_ok nm' \<and>
      (interner_size nm' \<le> 2 ^ 32 \<longrightarrow>
        (\<exists>c. w = W_Ctor c [] \<and> literal_of F ty c \<and> any_head st c rows = Some False)))"
proof (cases "is_str_column F ty")
  case False
  have "\<not> (\<forall>n\<in>set [0..<length rows + 1]. any_head st (C_Int (int n)) rows = Some True)"
    using heads_pigeonhole [of "\<lambda>n. C_Int (int n)" "[0..<length rows + 1]" st rows]
    by (auto simp: inj_def simp del: upt_Suc)
  with missing_int_cases [OF total, of "[0..<length rows + 1]"] False show ?thesis
    unfolding missing_literal_def by (auto simp del: upt_Suc)
next
  case True
  let ?ns = "[0..<length rows + 1]"
  from missing_str_cases [OF total, of nm ?ns] obtain nm' where
    n: "interner_size nm \<le> interner_size nm'" "interner_ok nm \<longrightarrow> interner_ok nm'" and
    c: "(missing_str st rows ?ns nm = Some (W_Wild, nm') \<and>
        (\<exists>ys. intern_list intern (map other_name ?ns) nm = (ys, nm') \<and>
          (\<forall>y\<in>set ys. any_head st (C_Str y) rows = Some True))) \<or>
       (\<exists>y. missing_str st rows ?ns nm = Some (W_Ctor (C_Str y) [], nm') \<and> any_head st (C_Str y) rows = Some False)"
    by blast
  have full: False if "intern_list intern (map other_name ?ns) nm = (ys, nm')" "interner_ok nm"
    "interner_size nm' \<le> 2 ^ 32" "\<forall>y\<in>set ys. any_head st (C_Str y) rows = Some True" for ys
  proof -
    have "distinct (map other_name ?ns)"
      using other_name_inj by (simp add: distinct_map inj_on_subset [OF _ subset_UNIV] del: upt_Suc)
    with that have "distinct ys" by (intro names.list_distinct)
    then have "length ys \<le> length rows" using that(4) by (intro heads_pigeonhole) (auto simp: inj_def)
    with names.list_length [OF that(1)] show False by (simp del: upt_Suc)
  qed
  have m: "missing_literal F ty st rows nm = missing_str st rows ?ns nm"
    using True by (simp add: missing_literal_def Let_def del: upt_Suc)
  from c show ?thesis
  proof (elim disjE conjE exE)
    fix ys
    assume "missing_str st rows ?ns nm = Some (W_Wild, nm')"
      "intern_list intern (map other_name ?ns) nm = (ys, nm')" "\<forall>y\<in>set ys. any_head st (C_Str y) rows = Some True"
    with m n full show ?thesis by (intro exI [of _ W_Wild] exI [of _ nm']) auto
  next
    fix y
    assume "missing_str st rows ?ns nm = Some (W_Ctor (C_Str y) [], nm')" "any_head st (C_Str y) rows = Some False"
    with m n True show ?thesis by (intro exI [of _ "W_Ctor (C_Str y) []"] exI [of _ nm']) auto
  qed
qed

end
