(* ===== verification/Match_Walk.thy ===== *)
theory Match_Walk
  imports Match_Names
begin

text \<open>
  The usefulness walk as a computation that pays for its matrices: what a budgeted run does is
  determined by its plain count, and its answer means what usefulness means.
\<close>

section \<open>Runs that spend steps\<close>

text \<open>
  \<open>spends m nm n r nm'\<close>: from interner \<open>nm\<close>, \<open>m\<close> costs \<open>n\<close> steps; if the budget has them it answers \<open>r\<close>
  and leaves \<open>nm'\<close>, otherwise it aborts with the counter past the limit.
\<close>

definition paid :: "(wstate \<Rightarrow> 'a run) \<Rightarrow> Interner \<Rightarrow> nat \<Rightarrow> 'a \<Rightarrow> Interner \<Rightarrow> Budget \<Rightarrow> bool" where
  "paid m nm n r nm' b \<longleftrightarrow>
     (if bg_steps b + n \<le> bg_limit b
      then m (b, nm) = Some (Some r, b\<lparr>bg_steps := bg_steps b + n\<rparr>, nm')
      else \<exists>b' nm''. m (b, nm) = Some (None, b', nm'') \<and> bg_limit b' = bg_limit b \<and> bg_limit b < bg_steps b')"

definition spends :: "(wstate \<Rightarrow> 'a run) \<Rightarrow> Interner \<Rightarrow> nat \<Rightarrow> 'a \<Rightarrow> Interner \<Rightarrow> bool" where
  "spends m nm n r nm' \<longleftrightarrow> (\<forall>b. bg_steps b \<le> bg_limit b \<longrightarrow> paid m nm n r nm' b)"

lemma spends_return: "(\<And>b. m (b, nm) = Some (Some r, b, nm')) \<Longrightarrow> spends m nm 0 r nm'"
  by (simp add: spends_def paid_def)

lemma spends_keep:
  assumes "spends m nm n r nm1" "spends (f r) nm1 k q nm2"
  shows "spends (\<lambda>s. keep (m s) f) nm (n + k) q nm2"
  unfolding spends_def
proof (intro allI impI)
  fix b :: Budget
  assume b: "bg_steps b \<le> bg_limit b"
  show "paid (\<lambda>s. keep (m s) f) nm (n + k) q nm2 b"
  proof (cases "bg_steps b + n \<le> bg_limit b")
    case True
    define c where "c = b\<lparr>bg_steps := bg_steps b + n\<rparr>"
    from True assms(1) b have e: "keep (m (b, nm)) f = f r (c, nm1)"
      by (simp add: keep_def spends_def paid_def c_def)
    from True have c: "bg_steps c = bg_steps b + n" "bg_limit c = bg_limit b"
      "c\<lparr>bg_steps := bg_steps b + (n + k)\<rparr> = b\<lparr>bg_steps := bg_steps b + (n + k)\<rparr>"
      by (simp_all add: c_def)
    from assms(2) True c(1,2) have "paid (f r) nm1 k q nm2 c" by (simp add: spends_def)
    then show ?thesis unfolding paid_def e c(1,2) by (auto simp: c(3) add.assoc)
  next
    case False
    with assms(1) b obtain b' nm'' where "m (b, nm) = Some (None, b', nm'')" "bg_limit b' = bg_limit b"
      "bg_limit b < bg_steps b'" unfolding spends_def paid_def by (meson less_imp_le)
    with False show ?thesis by (simp add: paid_def keep_def)
  qed
qed

lemma spends_map:
  assumes "spends m nm n r nm'" "\<And>s. f r s = Some (Some q, s)"
  shows "spends (\<lambda>s. keep (m s) f) nm n q nm'"
  using spends_keep [OF assms(1) spends_return, of f q nm'] assms(2) by simp

definition charged :: "nat \<Rightarrow> (wstate \<Rightarrow> 'a run) \<Rightarrow> wstate \<Rightarrow> 'a run" where
  "charged k body s =
     (let (ok, b) = charge k (fst s) in if \<not> ok then Some (None, b, snd s) else body (b, snd s))"

lemma spends_charge:
  assumes "spends body nm n r nm'"
  shows "spends (charged k body) nm (k + n) r nm'"
  unfolding spends_def
proof (intro allI impI)
  fix b :: Budget
  assume b: "bg_steps b \<le> bg_limit b"
  define c where "c = b\<lparr>bg_steps := bg_steps b + k\<rparr>"
  have c: "bg_steps c = bg_steps b + k" "bg_limit c = bg_limit b"
    "c\<lparr>bg_steps := bg_steps b + (k + n)\<rparr> = b\<lparr>bg_steps := bg_steps b + (k + n)\<rparr>"
    by (simp_all add: c_def)
  have e: "charged k body (b, nm) = (if bg_steps c \<le> bg_limit c then body (c, nm) else Some (None, c, nm))"
    by (simp add: charged_def charge_def c_def)
  show "paid (charged k body) nm (k + n) r nm' b"
  proof (cases "bg_steps b + k \<le> bg_limit b")
    case True
    with assms c(1,2) have "paid body nm n r nm' c" by (simp add: spends_def)
    with True show ?thesis unfolding paid_def e c(1,2) by (auto simp: c(3) add.assoc)
  next
    case False
    then show ?thesis unfolding paid_def e by (simp add: c)
  qed
qed

section \<open>What the cases of the walk do\<close>

text \<open>\<open>reassemble\<close> is a combined witness that does not panic.\<close>

definition reassemble :: "Ctor \<Rightarrow> nat \<Rightarrow> Witness list \<Rightarrow> Witness list" where
  "reassemble c n w = W_Ctor c (take n w) # drop n w"

lemma combine_ok: "n \<le> length w \<Longrightarrow> combine_witness c n w = Some (reassemble c n w)"
  by (simp add: combine_witness_def reassemble_def)

lemma usefulness_nil:
  "usefulness F st tys rows [] = charged (length rows) (\<lambda>s. Some (Some (if rows = [] then Some [] else None), s))"
  by (rule ext, subst usefulness.simps) (simp add: charged_def charge_def Let_def)

lemma usefulness_ctor:
  assumes "ctor_of st p = Some (Some c)" "sub = ctor_sub_tys F ty c"
    "specialize st c (length sub) rows = Some sr" "subs_of st p = Some ps"
  shows "usefulness F st (ty # tys) rows (p # vs) = charged (length rows)
    (\<lambda>s. keep (usefulness F st (sub @ tys) sr (ps @ vs) s) (\<lambda>r s.
      case r of None \<Rightarrow> Some (Some None, s)
      | Some w \<Rightarrow> map_option (\<lambda>x. (Some (Some x), s)) (combine_witness c (length sub) w)))"
  by (rule ext, subst usefulness.simps)
    (simp add: charged_def charge_def Let_def assms(1,3,4) assms(3) [unfolded assms(2)] flip: assms(2))

lemma usefulness_all:
  assumes "ctor_of st p = Some None" "signature_of F ty = Finite cs" "find_missing st rows 0 cs = Some None"
  shows "usefulness F st (ty # tys) rows (p # vs) = charged (length rows)
    (try_all (\<lambda>c sub s. Option.bind (specialize st c (length sub) rows) (\<lambda>sr.
      usefulness F st (sub @ tys) sr (replicate (length sub) (ps_wild st) @ vs) s)) cs None)"
  by (rule ext, subst usefulness.simps) (simp add: charged_def charge_def Let_def assms)

lemma usefulness_gap:
  assumes "ctor_of st p = Some None" "signature_of F ty = Finite cs"
    "find_missing st rows 0 cs = Some (Some i)" "default_rows st rows = Some dr" "cs ! i = (mc, msub)"
  shows "usefulness F st (ty # tys) rows (p # vs) = charged (length rows)
    (\<lambda>s. keep (usefulness F st tys dr vs s) (\<lambda>r s.
      Some (Some (map_option (\<lambda>rest. W_Ctor mc (replicate (length msub) W_Wild) # rest) r), s)))"
  by (rule ext, subst usefulness.simps) (simp add: charged_def charge_def Let_def assms)

lemma usefulness_infinite:
  assumes "ctor_of st p = Some None" "signature_of F ty = Infinite" "default_rows st rows = Some dr"
  shows "usefulness F st (ty # tys) rows (p # vs) = charged (length rows)
    (\<lambda>s. keep (usefulness F st tys dr vs s) (\<lambda>r s.
      map_option (\<lambda>(w0, nm). (Some (map_option (\<lambda>rest. w0 # rest) r), (fst s, nm)))
        (missing_literal F ty st rows (snd s))))"
  by (rule ext, subst usefulness.simps) (simp add: charged_def charge_def Let_def assms)

lemma walk_nil:
  "spends (usefulness F st tys rows []) nm (length rows) (if rows = [] then Some [] else None) nm"
  unfolding usefulness_nil
  using spends_charge [OF spends_return, of "\<lambda>s. Some (Some (if rows = [] then Some [] else None), s)" nm _ nm "length rows"]
  by simp

lemma walk_ctor:
  assumes "ctor_of st p = Some (Some c)" "sub = ctor_sub_tys F ty c"
    "specialize st c (length sub) rows = Some sr" "subs_of st p = Some ps"
    "spends (usefulness F st (sub @ tys) sr (ps @ vs)) nm n r nm'"
    "\<And>w. r = Some w \<Longrightarrow> length sub \<le> length w"
  shows "spends (usefulness F st (ty # tys) rows (p # vs)) nm (length rows + n)
    (map_option (reassemble c (length sub)) r) nm'"
  unfolding usefulness_ctor [OF assms(1-4)]
  by (intro spends_charge spends_map [OF assms(5)]) (use assms(6) in \<open>cases r; simp add: combine_ok\<close>)

lemma walk_all_step:
  assumes "ctor_of st p = Some None" "signature_of F ty = Finite cs" "find_missing st rows 0 cs = Some None"
    "spends (try_all (\<lambda>c sub s. Option.bind (specialize st c (length sub) rows) (\<lambda>sr.
      usefulness F st (sub @ tys) sr (replicate (length sub) (ps_wild st) @ vs) s)) cs None) nm n r nm'"
  shows "spends (usefulness F st (ty # tys) rows (p # vs)) nm (length rows + n) r nm'"
  unfolding usefulness_all [OF assms(1-3)] by (rule spends_charge [OF assms(4)])

lemma walk_gap:
  assumes "ctor_of st p = Some None" "signature_of F ty = Finite cs"
    "find_missing st rows 0 cs = Some (Some i)" "default_rows st rows = Some dr" "cs ! i = (mc, msub)"
    "spends (usefulness F st tys dr vs) nm n r nm'"
  shows "spends (usefulness F st (ty # tys) rows (p # vs)) nm (length rows + n)
    (map_option (\<lambda>rest. W_Ctor mc (replicate (length msub) W_Wild) # rest) r) nm'"
  unfolding usefulness_gap [OF assms(1-5)] by (intro spends_charge spends_map [OF assms(6)]) simp

lemma walk_infinite:
  assumes "ctor_of st p = Some None" "signature_of F ty = Infinite" "default_rows st rows = Some dr"
    "spends (usefulness F st tys dr vs) nm n r nm1" "missing_literal F ty st rows nm1 = Some (w0, nm')"
  shows "spends (usefulness F st (ty # tys) rows (p # vs)) nm (length rows + n)
    (map_option (\<lambda>rest. w0 # rest) r) nm'"
proof -
  let ?f = "\<lambda>r s. map_option (\<lambda>(w0, nm). (Some (map_option (\<lambda>rest. w0 # rest) r), (fst s, nm)))
    (missing_literal F ty st rows (snd s))"
  have "spends (?f r) nm1 0 (map_option (\<lambda>rest. w0 # rest) r) nm'"
    by (rule spends_return) (simp add: assms(5))
  from spends_keep [where f = ?f, OF assms(4) this] show ?thesis
    unfolding usefulness_infinite [OF assms(1-3)] by (intro spends_charge) simp
qed

end
