(* ===== verification/Match_Correct.thy ===== *)
theory Match_Correct
  imports Match_Walk
begin

text \<open>
  The meaning of an answer of the walk, proved along the plain count: no answer but "not useful" when
  every value is covered, and a witness whose every value is matched and not covered.
\<close>

section \<open>Answers\<close>

definition grows :: "Interner \<Rightarrow> Interner \<Rightarrow> bool" where
  "grows nm nm' \<longleftrightarrow> interner_size nm \<le> interner_size nm' \<and> (interner_ok nm \<longrightarrow> interner_ok nm')"

definition small :: "Interner \<Rightarrow> Interner \<Rightarrow> bool" where
  "small nm nm' \<longleftrightarrow> interner_ok nm \<and> interner_size nm' \<le> 2 ^ 32"

lemma grows_refl [simp]: "grows nm nm" by (simp add: grows_def)

lemma grows_trans: "grows a b \<Longrightarrow> grows b c \<Longrightarrow> grows a c" by (auto simp: grows_def)

lemma small_front: "small a c \<Longrightarrow> grows b c \<Longrightarrow> small a b" by (auto simp: small_def grows_def)

lemma small_back: "small a c \<Longrightarrow> grows a b \<Longrightarrow> small b c" by (auto simp: small_def grows_def)

definition uncovered :: "Fir \<Rightarrow> PatStore \<Rightarrow> TyId list \<Rightarrow> PatId list list \<Rightarrow> PatId list \<Rightarrow> Witness list \<Rightarrow> bool" where
  "uncovered F st tys rows v ws \<longleftrightarrow>
     (\<forall>vs. has_tys F vs tys \<longrightarrow> insts ws vs \<longrightarrow> pmatches st v vs \<and> \<not> covered st rows vs) \<and>
     (inhabited F \<longrightarrow> typed_row F st v tys \<longrightarrow> (\<exists>vs. has_tys F vs tys \<and> insts ws vs))"

definition answer_ok ::
  "Fir \<Rightarrow> PatStore \<Rightarrow> TyId list \<Rightarrow> PatId list list \<Rightarrow> PatId list \<Rightarrow> bool \<Rightarrow> Witness list option \<Rightarrow> bool" where
  "answer_ok F st tys rows v sm r \<longleftrightarrow>
     (case r of
        None \<Rightarrow> \<not> useful F st tys rows v
      | Some ws \<Rightarrow> length ws = length tys \<and> (sm \<longrightarrow> uncovered F st tys rows v ws))"

lemma answer_None [simp]: "answer_ok F st tys rows v sm None \<longleftrightarrow> \<not> useful F st tys rows v"
  by (simp add: answer_ok_def)

lemma answer_Some [simp]:
  "answer_ok F st tys rows v sm (Some ws) \<longleftrightarrow> length ws = length tys \<and> (sm \<longrightarrow> uncovered F st tys rows v ws)"
  by (simp add: answer_ok_def)

lemma answer_weaken: "answer_ok F st tys rows v sm r \<Longrightarrow> (sm' \<Longrightarrow> sm) \<Longrightarrow> answer_ok F st tys rows v sm' r"
  by (auto simp: answer_ok_def split: option.splits)

section \<open>The query's own constructor\<close>

lemma has_ty_cases: "has_ty F u ty \<Longrightarrow> (\<And>c xs. u = V c xs \<Longrightarrow> ctor_in F ty c \<Longrightarrow>
    has_tys F xs (ctor_sub_tys F ty c) \<Longrightarrow> thesis) \<Longrightarrow> thesis"
  by (cases u) simp

lemma insts_reassemble:
  assumes "length w = length sub + length tys"
  shows "insts (reassemble c (length sub) w) (V c xs # vs) \<longleftrightarrow> length xs = length sub \<and> insts w (xs @ vs)"
proof
  assume a: "insts (reassemble c (length sub) w) (V c xs # vs)"
  then have t: "insts (take (length sub) w) xs" "insts (drop (length sub) w) vs" by (simp_all add: reassemble_def)
  from insts_length [OF t(1)] assms have l: "length xs = length sub" by simp
  have "insts (take (length sub) w @ drop (length sub) w) (xs @ vs)"
    using t assms l by (subst insts_append) simp_all
  with l show "length xs = length sub \<and> insts w (xs @ vs)" by simp
next
  assume a: "length xs = length sub \<and> insts w (xs @ vs)"
  then have "insts (take (length sub) w @ drop (length sub) w) (xs @ vs)" by simp
  with a assms show "insts (reassemble c (length sub) w) (V c xs # vs)"
    by (subst (asm) insts_append) (simp_all add: reassemble_def)
qed

lemma insts_reassembleE:
  assumes "insts (reassemble c n w) zs"
  obtains xs vs where "zs = V c xs # vs"
  using assms unfolding reassemble_def by (cases zs; cases "hd zs") auto

lemma ctor_useful:
  assumes "ctor_of st p = Some (Some c)" "subs_of st p = Some ps" "length ps = length sub" "sub = ctor_sub_tys F ty c"
    "\<And>xs vs. length xs = length sub \<Longrightarrow> covered st sr (xs @ vs) = covered st rows (V c xs # vs)"
    "useful F st (ty # tys) rows (p # q)"
  shows "useful F st (sub @ tys) sr (ps @ q)"
proof -
  from assms(6) obtain u vs where u: "has_ty F u ty" "has_tys F vs tys" "pmatch st p u" "pmatches st q vs"
    "\<not> covered st rows (u # vs)"
    unfolding useful_def by (auto elim: has_tys.elims(2))
  from u(1,3) assms(1,2,4) obtain xs where x: "u = V c xs" "has_tys F xs sub" "pmatches st ps xs"
    by (elim has_ty_cases) auto
  have l: "length xs = length sub" using has_tys_length [OF x(2)] .
  with x u assms(3,5) show ?thesis unfolding useful_def
    by (intro exI [of _ "xs @ vs"]) (simp add: has_tys_append pmatches_append)
qed

lemma ctor_answer:
  assumes c: "ctor_of st p = Some (Some c)" "subs_of st p = Some ps" "length ps = length sub" "sub = ctor_sub_tys F ty c"
    "\<And>xs vs. length xs = length sub \<Longrightarrow> covered st sr (xs @ vs) = covered st rows (V c xs # vs)"
    and r: "answer_ok F st (sub @ tys) sr (ps @ q) sm r"
  shows "answer_ok F st (ty # tys) rows (p # q) sm (map_option (reassemble c (length sub)) r)"
proof (cases r)
  case None
  with r ctor_useful [OF c] show ?thesis by auto
next
  case (Some w)
  with r have l: "length w = length sub + length tys" and w: "sm \<Longrightarrow> uncovered F st (sub @ tys) sr (ps @ q) w" by auto
  have "uncovered F st (ty # tys) rows (p # q) (reassemble c (length sub) w)" if sm
    unfolding uncovered_def
  proof (intro conjI allI impI)
    fix zs
    assume z: "has_tys F zs (ty # tys)" "insts (reassemble c (length sub) w) zs"
    then obtain xs vs where x: "zs = V c xs # vs" by (elim insts_reassembleE)
    from z have i: "length xs = length sub \<and> insts w (xs @ vs)" unfolding x insts_reassemble [OF l] by simp
    with z have h: "length xs = length sub" "insts w (xs @ vs)" "has_tys F (xs @ vs) (sub @ tys)"
      by (auto simp: x has_tys_append simp flip: c(4))
    with w [OF that] have "pmatches st (ps @ q) (xs @ vs)" "\<not> covered st sr (xs @ vs)"
      by (auto simp: uncovered_def)
    with h(1) c show "pmatches st (p # q) zs" "\<not> covered st rows zs"
      by (auto simp: x pmatches_append)
  next
    assume i: "inhabited F" "typed_row F st (p # q) (ty # tys)"
    with c(1,2,4) have "ctor_in F ty c" "typed_row F st (ps @ q) (sub @ tys)"
      by (auto simp: typed_simps intro: typed_row_append)
    with w [OF that] i(1) obtain zs where z: "has_tys F zs (sub @ tys)" "insts w zs"
      by (auto simp: uncovered_def)
    from z(1) obtain xs vs where "zs = xs @ vs" "has_tys F xs sub" "has_tys F vs tys" "length xs = length sub"
      by (rule has_tys_split)
    with z \<open>ctor_in F ty c\<close> show "\<exists>vs. has_tys F vs (ty # tys) \<and> insts (reassemble c (length sub) w) vs"
      by (intro exI [of _ "V c xs # vs"]) (simp add: insts_reassemble [OF l] flip: c(4))
  qed
  with Some l show ?thesis by (simp add: reassemble_def)
qed

section \<open>A complete signature\<close>

text \<open>Facts about the query row whose first pattern is expanded by a constructor of the signature.\<close>

lemma expanded_useful:
  assumes w: "wild_ok st" and s: "signature_of F ty = Finite cs"
    and e: "\<And>c sub xs vs. (c, sub) \<in> set cs \<Longrightarrow> length xs = length sub \<Longrightarrow>
      covered st (sr c) (xs @ vs) = covered st rows (V c xs # vs)"
    and u: "useful F st (ty # tys) rows (p # q)"
  shows "\<exists>(c, sub)\<in>set cs. useful F st (sub @ tys) (sr c) (replicate (length sub) (ps_wild st) @ q)"
proof -
  from u obtain u vs where u: "has_ty F u ty" "has_tys F vs tys" "pmatches st q vs" "\<not> covered st rows (u # vs)"
    unfolding useful_def by (auto elim: has_tys.elims(2))
  from u(1) obtain c xs where x: "u = V c xs" "ctor_in F ty c" "has_tys F xs (ctor_sub_tys F ty c)"
    by (elim has_ty_cases)
  from x(2) obtain sub where sub: "(c, sub) \<in> set cs" unfolding ctor_in_finite [OF s] by blast
  have t: "has_tys F xs sub" using x(3) unfolding signature_sub [OF s sub] .
  have "useful F st (sub @ tys) (sr c) (replicate (length sub) (ps_wild st) @ q)"
    unfolding useful_def
    using u x(1) t has_tys_length [OF t] e [OF sub]
    by (intro exI [of _ "xs @ vs"]) (simp add: has_tys_append pmatches_wilds [OF w])
  with sub show ?thesis by blast
qed

lemma expanded_answer:
  assumes w: "wild_ok st" and p: "ctor_of st p = Some None" and s: "signature_of F ty = Finite cs"
    and sub: "(c, sub) \<in> set cs"
    and e: "\<And>xs vs. length xs = length sub \<Longrightarrow> covered st sr (xs @ vs) = covered st rows (V c xs # vs)"
    and r: "answer_ok F st (sub @ tys) sr (replicate (length sub) (ps_wild st) @ q) sm (Some ws)"
  shows "answer_ok F st (ty # tys) rows (p # q) sm (Some (reassemble c (length sub) ws))"
proof -
  from r have l: "length ws = length sub + length tys"
    and a: "sm \<Longrightarrow> uncovered F st (sub @ tys) sr (replicate (length sub) (ps_wild st) @ q) ws" by auto
  note t = signature_sub [OF s sub]
  have "uncovered F st (ty # tys) rows (p # q) (reassemble c (length sub) ws)" if sm
    unfolding uncovered_def
  proof (intro conjI allI impI)
    fix zs
    assume z: "has_tys F zs (ty # tys)" "insts (reassemble c (length sub) ws) zs"
    then obtain xs vs where x: "zs = V c xs # vs" by (elim insts_reassembleE)
    from z have i: "length xs = length sub \<and> insts ws (xs @ vs)" unfolding x insts_reassemble [OF l] by simp
    with z have h: "length xs = length sub" "insts ws (xs @ vs)" "has_tys F (xs @ vs) (sub @ tys)"
      by (auto simp: x has_tys_append t)
    with a [OF that] have "pmatches st (replicate (length sub) (ps_wild st) @ q) (xs @ vs)" "\<not> covered st sr (xs @ vs)"
      by (auto simp: uncovered_def)
    with h(1) e p show "pmatches st (p # q) zs" "\<not> covered st rows zs"
      by (auto simp: x pmatches_wilds [OF w])
  next
    assume i: "inhabited F" "typed_row F st (p # q) (ty # tys)"
    then have "typed_row F st (replicate (length sub) (ps_wild st) @ q) (sub @ tys)"
      by (auto intro: typed_row_append typed_wilds [OF w])
    with a [OF that] i(1) obtain zs where z: "has_tys F zs (sub @ tys)" "insts ws zs"
      by (auto simp: uncovered_def)
    from z(1) obtain xs vs where "zs = xs @ vs" "has_tys F xs sub" "has_tys F vs tys" "length xs = length sub"
      by (rule has_tys_split)
    moreover have "ctor_in F ty c" using sub ctor_in_finite [OF s] by blast
    ultimately show "\<exists>vs. has_tys F vs (ty # tys) \<and> insts (reassemble c (length sub) ws) vs"
      using z by (intro exI [of _ "V c xs # vs"]) (simp add: insts_reassemble [OF l] t)
  qed
  with l show ?thesis by (simp add: reassemble_def)
qed

section \<open>The default matrix\<close>

lemma default_answer:
  assumes p: "ctor_of st p = Some None"
    and d1: "\<And>u vs. covered st dr vs \<Longrightarrow> covered st rows (u # vs)"
    and w0: "sm \<Longrightarrow> (\<forall>u vs. inst w0 u \<longrightarrow> has_ty F u ty \<longrightarrow> covered st dr vs = covered st rows (u # vs)) \<and>
      (inhabited F \<longrightarrow> (\<exists>u. has_ty F u ty \<and> inst w0 u))"
    and r: "answer_ok F st tys dr q sm r"
  shows "answer_ok F st (ty # tys) rows (p # q) sm (map_option (\<lambda>rest. w0 # rest) r)"
proof (cases r)
  case None
  have "\<not> useful F st (ty # tys) rows (p # q)"
  proof
    assume "useful F st (ty # tys) rows (p # q)"
    then obtain u vs where "has_tys F vs tys" "pmatches st q vs" "\<not> covered st rows (u # vs)"
      unfolding useful_def by (auto elim: has_tys.elims(2))
    with d1 have "useful F st tys dr q" unfolding useful_def by blast
    with r None show False by simp
  qed
  with None show ?thesis by simp
next
  case (Some ws)
  with r have l: "length ws = length tys" and a: "sm \<Longrightarrow> uncovered F st tys dr q ws" by auto
  have "uncovered F st (ty # tys) rows (p # q) (w0 # ws)" if sm
    unfolding uncovered_def
  proof (intro conjI allI impI)
    fix zs
    assume z: "has_tys F zs (ty # tys)" "insts (w0 # ws) zs"
    then obtain u vs where u: "zs = u # vs" "has_ty F u ty" "has_tys F vs tys" "inst w0 u" "insts ws vs"
      by (cases zs) auto
    with a [OF that] have "pmatches st q vs" "\<not> covered st dr vs" by (auto simp: uncovered_def)
    with w0 [OF that] u p show "pmatches st (p # q) zs" "\<not> covered st rows zs"
      by (auto simp: pmatch_wild)
  next
    assume i: "inhabited F" "typed_row F st (p # q) (ty # tys)"
    with a [OF that] obtain vs where "has_tys F vs tys" "insts ws vs" by (auto simp: uncovered_def)
    moreover from w0 [OF that] i(1) obtain u where "has_ty F u ty" "inst w0 u" by blast
    ultimately show "\<exists>vs. has_tys F vs (ty # tys) \<and> insts (w0 # ws) vs" by (intro exI [of _ "u # vs"]) simp
  qed
  with Some l show ?thesis by simp
qed

section \<open>The walk\<close>

lemma try_all_runs:
  assumes weak: "\<And>x s s' r. R x s r \<Longrightarrow> (s' \<Longrightarrow> s) \<Longrightarrow> R x s' r"
    and len: "\<And>x s w. R x s (Some w) \<Longrightarrow> length (snd x) \<le> length w"
  shows "list_all2 (\<lambda>x n. \<forall>nm. \<exists>r nm'. spends (f (fst x) (snd x)) nm n r nm' \<and> grows nm nm' \<and> R x (small nm nm') r) cs ns \<Longrightarrow>
    \<exists>r nm'. spends (try_all f cs acc) nm (sum_list ns) r nm' \<and> grows nm nm' \<and>
      (r = None \<longrightarrow> acc = None \<and> (\<forall>x\<in>set cs. R x (small nm nm') None)) \<and>
      (\<forall>z. r = Some z \<longrightarrow> acc = Some z \<or>
        (\<exists>x\<in>set cs. \<exists>w. R x (small nm nm') (Some w) \<and> z = reassemble (fst x) (length (snd x)) w))"
proof (induction cs ns arbitrary: acc nm rule: list_all2_induct)
  case Nil
  show ?case by (intro exI [of _ acc] exI [of _ nm]) (simp add: spends_return)
next
  case (Cons x cs n ns)
  obtain c sub where x: "x = (c, sub)" by (cases x)
  from Cons(1) obtain r nm1 where r: "spends (f c sub) nm n r nm1" "grows nm nm1" "R x (small nm nm1) r"
    unfolding x by fastforce
  define acc' where "acc' = (if acc = None then map_option (reassemble c (length sub)) r else acc)"
  from Cons.IH [of acc' nm1] obtain q nm2 where q: "spends (try_all f cs acc') nm1 (sum_list ns) q nm2" "grows nm1 nm2"
    "q = None \<longrightarrow> acc' = None \<and> (\<forall>x\<in>set cs. R x (small nm1 nm2) None)"
    "\<forall>z. q = Some z \<longrightarrow> acc' = Some z \<or>
      (\<exists>x\<in>set cs. \<exists>w. R x (small nm1 nm2) (Some w) \<and> z = reassemble (fst x) (length (snd x)) w)" by blast
  let ?g = "\<lambda>r s. case (acc, r) of
      (None, Some ws) \<Rightarrow> Option.bind (combine_witness c (length sub) ws) (\<lambda>x. try_all f cs (Some x) s)
    | _ \<Rightarrow> try_all f cs acc s"
  have g: "?g r = try_all f cs acc'"
    using len [of x "small nm nm1"] r(3) x unfolding acc'_def by (cases acc; cases r) (auto simp: combine_ok)
  have s: "spends (try_all f (x # cs) acc) nm (sum_list (n # ns)) q nm2"
  proof -
    have "try_all f (x # cs) acc = (\<lambda>s. keep (f c sub s) ?g)" by (rule ext) (simp add: x)
    with spends_keep [of "f c sub" nm n r nm1 ?g, unfolded g, OF r(1) q(1)] show ?thesis by simp
  qed
  have first: "R x (small nm nm2) r" by (rule weak [OF r(3)]) (use small_front q(2) in blast)
  have rest: "R y (small nm nm2) z" if "R y (small nm1 nm2) z" for y z
    by (rule weak [OF that]) (use small_back r(2) in blast)
  have "acc = Some z \<or> (\<exists>y\<in>set (x # cs). \<exists>w. R y (small nm nm2) (Some w) \<and> z = reassemble (fst y) (length (snd y)) w)"
    if "q = Some z" for z
    using q(4) [rule_format, OF that]
  proof
    assume "acc' = Some z"
    with first x show ?thesis unfolding acc'_def by (cases acc; cases r) auto
  next
    assume "\<exists>y\<in>set cs. \<exists>w. R y (small nm1 nm2) (Some w) \<and> z = reassemble (fst y) (length (snd y)) w"
    with rest show ?thesis by (meson list.set_intros(2))
  qed
  moreover have "acc = None \<and> (\<forall>y\<in>set (x # cs). R y (small nm nm2) None)" if "q = None"
    using q(3) that first rest unfolding acc'_def by (cases acc; cases r) auto
  ultimately show ?case using s grows_trans [OF r(2) q(2)] by blast
qed

definition runs_ok :: "Fir \<Rightarrow> PatStore \<Rightarrow> TyId list \<Rightarrow> PatId list list \<Rightarrow> PatId list \<Rightarrow> nat \<Rightarrow> bool" where
  "runs_ok F st tys rows v n \<longleftrightarrow>
     (\<forall>nm. \<exists>r nm'. spends (usefulness F st tys rows v) nm n r nm' \<and> grows nm nm' \<and>
       answer_ok F st tys rows v (small nm nm') r)"

lemma runs_okE:
  assumes "runs_ok F st tys rows v n"
  obtains r nm' where "spends (usefulness F st tys rows v) nm n r nm'" "grows nm nm'"
    "answer_ok F st tys rows v (small nm nm') r"
  using assms unfolding runs_ok_def by blast

lemma nil_answer:
  assumes "fits_rows F st rows [] k"
  shows "answer_ok F st [] rows [] sm (if rows = [] then Some [] else None)"
proof (cases rows)
  case Nil
  then show ?thesis
    by (auto simp: uncovered_def covered_def insts_length dest: has_tys_length intro: exI [of _ "[]"])
next
  case (Cons r rows')
  with assms have "r = []" by auto
  with Cons have "\<not> useful F st [] rows []"
    by (auto simp: useful_def dest: has_tys_length)
  with Cons show ?thesis by simp
qed

text \<open>One lemma per case of the plain count.\<close>

lemma ctor_runs:
  assumes p: "ctor_of st p = Some (Some c)" "sub = ctor_sub_tys F ty c" "specialize st c (length sub) rows = Some sr"
    "subs_of st p = Some ps" and ps: "length ps = length sub"
    and e: "\<And>xs vs. length xs = length sub \<Longrightarrow> covered st sr (xs @ vs) = covered st rows (V c xs # vs)"
    and IH: "runs_ok F st (sub @ tys) sr (ps @ vs) n"
  shows "runs_ok F st (ty # tys) rows (p # vs) (length rows + n)"
  unfolding runs_ok_def
proof
  fix nm
  from IH obtain r nm' where r: "spends (usefulness F st (sub @ tys) sr (ps @ vs)) nm n r nm'" "grows nm nm'"
    "answer_ok F st (sub @ tys) sr (ps @ vs) (small nm nm') r" by (rule runs_okE)
  have "length sub \<le> length w" if "r = Some w" for w using r(3) that by simp
  from walk_ctor [OF p r(1) this] ctor_answer [OF p(1,4) ps p(2) e r(3)] r(2)
  show "\<exists>r nm'. spends (usefulness F st (ty # tys) rows (p # vs)) nm (length rows + n) r nm' \<and> grows nm nm' \<and>
    answer_ok F st (ty # tys) rows (p # vs) (small nm nm') r" by blast
qed

lemma all_answer:
  assumes w: "wild_ok st" and p: "ctor_of st p = Some None" "signature_of F ty = Finite cs"
    and s: "\<And>c sub xs vs. (c, sub) \<in> set cs \<Longrightarrow> length xs = length sub \<Longrightarrow>
      covered st (sr c sub) (xs @ vs) = covered st rows (V c xs # vs)"
    and R: "R = (\<lambda>x sm r. answer_ok F st (snd x @ tys) (sr (fst x) (snd x))
      (replicate (length (snd x)) (ps_wild st) @ vs) sm r)"
    and none: "r = None \<longrightarrow> (\<forall>x\<in>set cs. R x sm None)"
    and some: "\<forall>z. r = Some z \<longrightarrow> (\<exists>x\<in>set cs. \<exists>w. R x sm (Some w) \<and> z = reassemble (fst x) (length (snd x)) w)"
  shows "answer_ok F st (ty # tys) rows (p # vs) sm r"
proof (cases r)
  case None
  with none have "\<forall>(c, sub)\<in>set cs. \<not> useful F st (sub @ tys) (sr c sub) (replicate (length sub) (ps_wild st) @ vs)"
    unfolding R by auto
  moreover have "covered st (sr c (ctor_sub_tys F ty c)) (xs @ vs) = covered st rows (V c xs # vs)"
    if "(c, sub) \<in> set cs" "length xs = length sub" for c sub xs vs
    using s [OF that] signature_sub [OF p(2) that(1)] by simp
  ultimately have "\<not> useful F st (ty # tys) rows (p # vs)"
    using expanded_useful [OF w p(2), of "\<lambda>c. sr c (ctor_sub_tys F ty c)" rows tys p vs]
      signature_sub [OF p(2)] by fastforce
  with None show ?thesis by simp
next
  case (Some z)
  with some obtain x w' where x': "x \<in> set cs" "R x sm (Some w')"
    "z = reassemble (fst x) (length (snd x)) w'" by blast
  obtain c sub where "x = (c, sub)" by (cases x)
  with x' have x: "(c, sub) \<in> set cs" "z = reassemble c (length sub) w'"
    "answer_ok F st (sub @ tys) (sr c sub) (replicate (length sub) (ps_wild st) @ vs) sm (Some w')"
    unfolding R by (simp_all only: fst_conv snd_conv)
  show ?thesis unfolding Some x(2)
    by (rule expanded_answer [OF w p x(1) s [OF x(1)] x(3)])
qed

lemma all_runs:
  assumes w: "wild_ok st" and p: "ctor_of st p = Some None" "signature_of F ty = Finite cs"
    "find_missing st rows 0 cs = Some None"
    and s: "\<And>c sub. (c, sub) \<in> set cs \<Longrightarrow> specialize st c (length sub) rows = Some (sr c sub) \<and>
      (\<forall>xs vs. length xs = length sub \<longrightarrow> covered st (sr c sub) (xs @ vs) = covered st rows (V c xs # vs))"
    and IH: "list_all2 (\<lambda>x n. runs_ok F st (snd x @ tys) (sr (fst x) (snd x))
      (replicate (length (snd x)) (ps_wild st) @ vs) n) cs ns"
  shows "runs_ok F st (ty # tys) rows (p # vs) (length rows + sum_list ns)"
  unfolding runs_ok_def
proof
  fix nm
  let ?f = "\<lambda>c sub s. Option.bind (specialize st c (length sub) rows) (\<lambda>sr.
    usefulness F st (sub @ tys) sr (replicate (length sub) (ps_wild st) @ vs) s)"
  let ?R = "\<lambda>x sm r. answer_ok F st (snd x @ tys) (sr (fst x) (snd x)) (replicate (length (snd x)) (ps_wild st) @ vs) sm r"
  have len: "length (snd x) \<le> length w" if "?R x sm (Some w)" for x sm w using that by simp
  have each: "list_all2 (\<lambda>x n. \<forall>nm. \<exists>r nm'. spends (?f (fst x) (snd x)) nm n r nm' \<and> grows nm nm' \<and> ?R x (small nm nm') r) cs ns"
    using IH
  proof (rule list.rel_mono_strong)
    fix x n
    assume x: "x \<in> set cs" and r: "runs_ok F st (snd x @ tys) (sr (fst x) (snd x)) (replicate (length (snd x)) (ps_wild st) @ vs) n"
    from s [of "fst x" "snd x"] x have "specialize st (fst x) (length (snd x)) rows = Some (sr (fst x) (snd x))" by simp
    with r show "\<forall>nm. \<exists>r nm'. spends (?f (fst x) (snd x)) nm n r nm' \<and> grows nm nm' \<and> ?R x (small nm nm') r"
      unfolding runs_ok_def by simp
  qed
  have "\<exists>r nm'. spends (try_all ?f cs None) nm (sum_list ns) r nm' \<and> grows nm nm' \<and>
      (r = None \<longrightarrow> (None :: Witness list option) = None \<and> (\<forall>x\<in>set cs. ?R x (small nm nm') None)) \<and>
      (\<forall>z. r = Some z \<longrightarrow> None = Some z \<or>
        (\<exists>x\<in>set cs. \<exists>w. ?R x (small nm nm') (Some w) \<and> z = reassemble (fst x) (length (snd x)) w))"
    by (rule try_all_runs [where R = ?R]) (use each len answer_weaken in \<open>blast+\<close>)
  then obtain r nm' where r: "spends (try_all ?f cs None) nm (sum_list ns) r nm'" "grows nm nm'"
    "r = None \<longrightarrow> (\<forall>x\<in>set cs. ?R x (small nm nm') None)"
    "\<forall>z. r = Some z \<longrightarrow> (\<exists>x\<in>set cs. \<exists>w. ?R x (small nm nm') (Some w) \<and> z = reassemble (fst x) (length (snd x)) w)"
    by blast
  have "answer_ok F st (ty # tys) rows (p # vs) (small nm nm') r"
    by (rule all_answer [OF w p(1,2) _ refl r(3,4)]) (use s in blast)
  with walk_all_step [OF p r(1)] r(2)
  show "\<exists>r nm'. spends (usefulness F st (ty # tys) rows (p # vs)) nm (length rows + sum_list ns) r nm' \<and>
    grows nm nm' \<and> answer_ok F st (ty # tys) rows (p # vs) (small nm nm') r" by blast
qed

lemma infinite_runs:
  assumes p: "ctor_of st p = Some None" and inf: "signature_of F ty = Infinite" and dr: "default_rows st rows = Some dr"
    and total: "\<And>c. any_head st c rows \<noteq> None"
    and d: "\<And>u vs. covered st dr vs \<Longrightarrow> covered st rows (u # vs)"
      "\<And>c xs vs. any_head st c rows = Some False \<Longrightarrow> covered st dr vs = covered st rows (V c xs # vs)"
    and IH: "runs_ok F st tys dr vs n"
  shows "runs_ok F st (ty # tys) rows (p # vs) (length rows + n)"
  unfolding runs_ok_def
proof
  fix nm
  from IH obtain r nm1 where r: "spends (usefulness F st tys dr vs) nm n r nm1" "grows nm nm1"
    "answer_ok F st tys dr vs (small nm nm1) r" by (rule runs_okE)
  from missing_literal_fresh [OF total, of F ty nm1] obtain w0 nm' where
    m: "missing_literal F ty st rows nm1 = Some (w0, nm')" "grows nm1 nm'"
    and fresh: "interner_ok nm1 \<Longrightarrow> interner_size nm' \<le> 2 ^ 32 \<Longrightarrow>
      \<exists>c. w0 = W_Ctor c [] \<and> literal_of F ty c \<and> any_head st c rows = Some False"
    unfolding grows_def by blast
  have w0: "(\<forall>u vs. inst w0 u \<longrightarrow> has_ty F u ty \<longrightarrow> covered st dr vs = covered st rows (u # vs)) \<and>
      (inhabited F \<longrightarrow> (\<exists>u. has_ty F u ty \<and> inst w0 u))" if "small nm nm'"
  proof -
    have "small nm1 nm'" using that r(2) by (rule small_back)
    with fresh obtain c where c: "w0 = W_Ctor c []" "literal_of F ty c" "any_head st c rows = Some False"
      unfolding small_def by blast
    then have "has_ty F (V c []) ty \<and> inst w0 (V c [])"
      by (simp add: ctor_in_infinite [OF inf] literal_no_sub)
    moreover have "covered st dr vs = covered st rows (u # vs)" if "inst w0 u" for u vs
      using that c(1) d(2) [OF c(3)] by (cases u) auto
    ultimately show ?thesis by blast
  qed
  have "answer_ok F st tys dr vs (small nm nm') r"
    by (rule answer_weaken [OF r(3)]) (use small_front m(2) in blast)
  from default_answer [where dr = dr, OF p d(1) w0 this]
    walk_infinite [OF p inf dr r(1) m(1)] grows_trans [OF r(2) m(2)]
  show "\<exists>r nm'. spends (usefulness F st (ty # tys) rows (p # vs)) nm (length rows + n) r nm' \<and>
    grows nm nm' \<and> answer_ok F st (ty # tys) rows (p # vs) (small nm nm') r" by blast
qed

lemma gap_runs:
  assumes p: "ctor_of st p = Some None" "signature_of F ty = Finite cs" "find_missing st rows 0 cs = Some (Some i)"
    "default_rows st rows = Some dr" "cs ! i = (mc, msub)"
    and i: "i < length cs" "any_head st mc rows = Some False"
    and d: "\<And>u vs. covered st dr vs \<Longrightarrow> covered st rows (u # vs)"
      "\<And>c xs vs. any_head st c rows = Some False \<Longrightarrow> covered st dr vs = covered st rows (V c xs # vs)"
    and IH: "runs_ok F st tys dr vs n"
  shows "runs_ok F st (ty # tys) rows (p # vs) (length rows + n)"
  unfolding runs_ok_def
proof
  fix nm
  let ?w = "W_Ctor mc (replicate (length msub) W_Wild)"
  from IH obtain r nm1 where r: "spends (usefulness F st tys dr vs) nm n r nm1" "grows nm nm1"
    "answer_ok F st tys dr vs (small nm nm1) r" by (rule runs_okE)
  from i(1) p(5) have mem: "(mc, msub) \<in> set cs" by (metis nth_mem)
  have "covered st dr vs = covered st rows (u # vs)" if "inst ?w u" for u vs
    using that d(2) [OF i(2)] by (cases u) auto
  moreover have "\<exists>u. has_ty F u ty \<and> inst ?w u" if "inhabited F"
  proof -
    from that have "\<forall>t. \<exists>u. has_ty F u t" by (simp add: inhabited_def)
    then obtain g where g: "\<And>t. has_ty F (g t) t" by metis
    have "has_tys F (map g msub) msub" by (induction msub) (simp_all add: g)
    with mem p(2) show ?thesis
      by (intro exI [of _ "V mc (map g msub)"]) (auto simp: insts_wilds ctor_in_finite signature_sub)
  qed
  ultimately have w0: "(\<forall>u vs. inst ?w u \<longrightarrow> has_ty F u ty \<longrightarrow> covered st dr vs = covered st rows (u # vs)) \<and>
    (inhabited F \<longrightarrow> (\<exists>u. has_ty F u ty \<and> inst ?w u))" by blast
  from default_answer [where dr = dr, OF p(1) d(1) w0 r(3)] walk_gap [OF p r(1)] r(2)
  show "\<exists>r nm'. spends (usefulness F st (ty # tys) rows (p # vs)) nm (length rows + n) r nm' \<and>
    grows nm nm' \<and> answer_ok F st (ty # tys) rows (p # vs) (small nm nm') r" by blast
qed

theorem walk_ok:
  assumes w: "wild_ok st"
  shows "counted F st tys rows v n \<Longrightarrow> fits_rows F st rows tys k \<Longrightarrow> fits_row F st v tys m \<Longrightarrow>
    runs_ok F st tys rows v n"
proof (induction arbitrary: k m rule: counted.induct)
  case (counted_nil tys rows)
  then have t: "tys = []" by simp
  with counted_nil show ?case
    unfolding runs_ok_def t using walk_nil nil_answer grows_refl by blast
next
  case (counted_ctor p c sub ty rows sr ps tys vs n)
  from counted_ctor.prems(2) counted_ctor.hyps obtain j b where
    f: "fits_row F st ps sub j" "fits_row F st vs tys b"
    by (auto simp: fits_simps)
  from specialize_ok [OF counted_ctor.hyps(2) w counted_ctor.prems(1)] counted_ctor.hyps(3) obtain m' where
    s: "fits_rows F st sr (sub @ tys) m'"
      "\<And>xs vs. length xs = length sub \<Longrightarrow> covered st sr (xs @ vs) = covered st rows (V c xs # vs)" by auto
  show ?case
    by (rule ctor_runs [OF counted_ctor.hyps(1-4) fits_row_length [OF f(1)] s(2)
        counted_ctor.IH [OF s(1) fits_row_append [OF f]]])
next
  case (counted_all p ty cs rows tys vs ns)
  from counted_all.prems(2) obtain b where f: "fits_row F st vs tys b" by auto
  define sr where "sr = (\<lambda>c (sub :: TyId list). the (specialize st c (length sub) rows))"
  have s: "\<exists>m'. specialize st c (length sub) rows = Some (sr c sub) \<and> fits_rows F st (sr c sub) (sub @ tys) m' \<and>
      (\<forall>xs vs. length xs = length sub \<longrightarrow> covered st (sr c sub) (xs @ vs) = covered st rows (V c xs # vs))"
    if "(c, sub) \<in> set cs" for c sub
    using specialize_ok [OF signature_sub [OF counted_all.hyps(2) that, symmetric] w counted_all.prems(1)]
    unfolding sr_def by auto
  show ?case
  proof (rule all_runs [where sr = sr, OF w counted_all.hyps(1-3)])
    show "list_all2 (\<lambda>x n. runs_ok F st (snd x @ tys) (sr (fst x) (snd x))
      (replicate (length (snd x)) (ps_wild st) @ vs) n) cs ns"
      using counted_all.IH
    proof (rule list.rel_mono_strong)
      fix x n
      assume x: "x \<in> set cs" and "n \<in> set ns" and IH: "\<exists>sr. specialize st (fst x) (length (snd x)) rows = Some sr \<and>
        counted F st (snd x @ tys) sr (replicate (length (snd x)) (ps_wild st) @ vs) n \<and>
        (\<forall>k. fits_rows F st sr (snd x @ tys) k \<longrightarrow>
          (\<forall>m. fits_row F st (replicate (length (snd x)) (ps_wild st) @ vs) (snd x @ tys) m \<longrightarrow>
          runs_ok F st (snd x @ tys) sr (replicate (length (snd x)) (ps_wild st) @ vs) n))"
      with s [of "fst x" "snd x"] fits_row_append [OF fits_wilds [OF w] f]
      show "runs_ok F st (snd x @ tys) (sr (fst x) (snd x)) (replicate (length (snd x)) (ps_wild st) @ vs) n"
        by auto
    qed
  qed (use s in blast)
next
  case (counted_default p ty cs rows i dr tys vs n)
  note rows = counted_default.prems(1)
  from counted_default.prems(2) obtain b where f: "fits_row F st vs tys b" by auto
  from default_ok [OF w rows] counted_default.hyps(3) obtain m' where
    d: "fits_rows F st dr tys m'" "\<And>u vs. covered st dr vs \<Longrightarrow> covered st rows (u # vs)"
      "\<And>c xs vs. any_head st c rows = Some False \<Longrightarrow> covered st dr vs = covered st rows (V c xs # vs)"
    by auto
  note IH = counted_default.IH [OF d(1) f]
  from counted_default.hyps(2) show ?case
  proof
    assume "signature_of F ty = Infinite"
    from infinite_runs [OF counted_default.hyps(1) this counted_default.hyps(3) any_head_total [OF rows] d(2,3) IH]
    show ?thesis .
  next
    assume fin: "signature_of F ty = Finite cs \<and> find_missing st rows 0 cs = Some (Some i)"
    obtain mc msub where x: "cs ! i = (mc, msub)" by (cases "cs ! i")
    from find_missing_total [OF rows, of 0 cs] fin x have i: "i < length cs" "any_head st mc rows = Some False" by auto
    from fin gap_runs [OF counted_default.hyps(1) _ _ counted_default.hyps(3) x i d(2,3) IH]
    show ?thesis by blast
  qed
qed

end
