(* ===== verification/Match_Check.thy ===== *)
theory Match_Check
  imports Match_Correct
begin

text \<open>
  One match as a whole: the queries for the arms and for the wildcard row against the plain count,
  and what the check leaves in the checker's state.
\<close>

section \<open>The plain count is a function\<close>

lemma counted_unique: "counted F st tys rows v n \<Longrightarrow> counted F st tys rows v m \<Longrightarrow> n = m"
proof (induction arbitrary: m rule: counted.induct)
  case (counted_nil tys rows)
  then show ?case by (auto elim: counted.cases)
next
  case (counted_ctor p c sub ty rows sr ps tys vs n)
  from counted_ctor.prems counted_ctor.hyps show ?case
    by (cases rule: counted.cases) (simp_all, metis counted_ctor.IH)
next
  case (counted_all p ty cs rows tys vs ns)
  from counted_all.prems counted_all.hyps(1-3) obtain ms where m: "m = length rows + sum_list ms"
    "list_all2 (\<lambda>x n. \<exists>sr. specialize st (fst x) (length (snd x)) rows = Some sr \<and>
      counted F st (snd x @ tys) sr (replicate (length (snd x)) (ps_wild st) @ vs) n) cs ms"
    by (cases rule: counted.cases) auto
  from counted_all.IH m(2) have "ns = ms"
    by (induction cs ns arbitrary: ms rule: list_all2_induct) (auto simp: list_all2_Cons1)
  with m show ?case by simp
next
  case (counted_default p ty cs rows i dr tys vs n)
  from counted_default.prems counted_default.hyps show ?case
    by (cases rule: counted.cases) (auto dest: counted_default.IH)
qed

section \<open>The arms in order\<close>

definition arms_fit :: "Fir \<Rightarrow> PatStore \<Rightarrow> (nat \<times> PatId) list \<Rightarrow> TyId \<Rightarrow> bool" where
  "arms_fit F st arms s \<longleftrightarrow> (\<forall>a\<in>set arms. \<exists>k. pat_fits F st (snd a) s k)"

definition arms_typed :: "Fir \<Rightarrow> PatStore \<Rightarrow> (nat \<times> PatId) list \<Rightarrow> TyId \<Rightarrow> bool" where
  "arms_typed F st arms s \<longleftrightarrow> (\<forall>a\<in>set arms. typed F st (snd a) s)"

text \<open>R55's count of a whole match: one query per arm, then the wildcard row.\<close>

definition match_count :: "Fir \<Rightarrow> PatStore \<Rightarrow> (nat \<times> PatId) list \<Rightarrow> TyId \<Rightarrow> nat \<Rightarrow> bool" where
  "match_count F st arms s n \<longleftrightarrow> (\<exists>ns m.
     list_all2 (\<lambda>i. counted F st [s] (arm_rows (take i arms)) [snd (arms ! i)]) [0..<length arms] ns \<and>
     counted F st [s] (arm_rows arms) [ps_wild st] m \<and> n = sum_list ns + m)"

lemma match_count_unique: "match_count F st arms s n \<Longrightarrow> match_count F st arms s m \<Longrightarrow> n = m"
proof -
  assume "match_count F st arms s n" "match_count F st arms s m"
  then obtain ns ms a b where
    l: "list_all2 (\<lambda>i. counted F st [s] (arm_rows (take i arms)) [snd (arms ! i)]) [0..<length arms] ns"
       "list_all2 (\<lambda>i. counted F st [s] (arm_rows (take i arms)) [snd (arms ! i)]) [0..<length arms] ms"
    and e: "counted F st [s] (arm_rows arms) [ps_wild st] a" "counted F st [s] (arm_rows arms) [ps_wild st] b"
      "n = sum_list ns + a" "m = sum_list ms + b"
    unfolding match_count_def by blast
  from l have "ns = ms"
    by (intro nth_equalityI) (simp_all add: list_all2_conv_all_nth, metis counted_unique)
  with e counted_unique show ?thesis by metis
qed

definition arm_covered :: "Fir \<Rightarrow> PatStore \<Rightarrow> (nat \<times> PatId) list \<Rightarrow> TyId \<Rightarrow> nat \<Rightarrow> bool" where
  "arm_covered F st arms s i \<longleftrightarrow>
     (\<forall>v. has_ty F v s \<longrightarrow> pmatch st (snd (arms ! i)) v \<longrightarrow> (\<exists>j<i. pmatch st (snd (arms ! j)) v))"

lemma fits_arm_rows: "\<forall>a\<in>set arms. \<exists>k. pat_fits F st (snd a) s k \<Longrightarrow> \<exists>n. fits_rows F st (arm_rows arms) [s] n"
proof (induction arms)
  case (Cons a arms)
  then obtain k n where "pat_fits F st (snd a) s k" "fits_rows F st (arm_rows arms) [s] n" by auto
  then show ?case by (intro exI [of _ "k + n"]) (auto simp: arm_rows_def)
qed (intro exI [of _ 0], simp add: arm_rows_def)

lemma has_tys_one: "has_tys F vs [s] \<longleftrightarrow> (\<exists>v. vs = [v] \<and> has_ty F v s)"
  by (cases vs; cases "tl vs") auto

lemma covered_arms: "covered st (arm_rows arms) [v] \<longleftrightarrow> (\<exists>a\<in>set arms. pmatch st (snd a) v)"
  by (auto simp: covered_def arm_rows_def)

lemma useful_one:
  "useful F st [s] (arm_rows arms) [p] \<longleftrightarrow> (\<exists>v. has_ty F v s \<and> pmatch st p v \<and> (\<forall>a\<in>set arms. \<not> pmatch st (snd a) v))"
proof -
  have "useful F st [s] (arm_rows arms) [p] \<longleftrightarrow>
      (\<exists>v. has_ty F v s \<and> pmatches st [p] [v] \<and> \<not> covered st (arm_rows arms) [v])"
    unfolding useful_def has_tys_one by blast
  then show ?thesis by (simp add: covered_arms)
qed

lemma useful_arm:
  assumes "i < length arms"
  shows "useful F st [s] (arm_rows (take i arms)) [snd (arms ! i)] \<longleftrightarrow> \<not> arm_covered F st arms s i"
proof -
  have "set (take i arms) = (!) arms ` {0..<i}" using assms by (simp add: nth_image)
  then have "(\<exists>a\<in>set (take i arms). P a) \<longleftrightarrow> (\<exists>j<i. P (arms ! j))" for P by auto
  then have "(\<forall>a\<in>set (take i arms). \<not> P a) \<longleftrightarrow> \<not> (\<exists>j<i. P (arms ! j))" for P by blast
  then show ?thesis unfolding useful_one arm_covered_def by simp
qed

lemma useful_rest:
  assumes "wild_ok st"
  shows "useful F st [s] (arm_rows arms) [ps_wild st] \<longleftrightarrow> (\<exists>v. has_ty F v s \<and> (\<forall>a\<in>set arms. \<not> pmatch st (snd a) v))"
  by (simp add: useful_one pmatch_wild [OF assms])

lemma uncovered_useful:
  "uncovered F st tys rows v ws \<Longrightarrow> inhabited F \<Longrightarrow> typed_row F st v tys \<Longrightarrow> useful F st tys rows v"
  unfolding uncovered_def useful_def by blast

text \<open>The arms reported are covered, and they are all the covered ones if the answers can be trusted.\<close>

lemma arm_runs:
  assumes w: "wild_ok st" and fit: "arms_fit F st arms s" and i: "i < length arms"
    and n: "counted F st [s] (arm_rows (take i arms)) [snd (arms ! i)] n"
  shows "\<exists>r nm'. spends (usefulness F st [s] (arm_rows (take i arms)) [snd (arms ! i)]) nm n r nm' \<and> grows nm nm' \<and>
    (r = None \<longrightarrow> arm_covered F st arms s i) \<and>
    (small nm nm' \<longrightarrow> inhabited F \<longrightarrow> arms_typed F st arms s \<longrightarrow> r \<noteq> None \<longrightarrow> \<not> arm_covered F st arms s i)"
proof -
  have mem: "arms ! i \<in> set arms" using i by simp
  then obtain k where k: "pat_fits F st (snd (arms ! i)) s k" using fit unfolding arms_fit_def by blast
  have "\<forall>a\<in>set (take i arms). \<exists>k. pat_fits F st (snd a) s k"
    using fit unfolding arms_fit_def by (meson in_set_takeD)
  then obtain m where m: "fits_rows F st (arm_rows (take i arms)) [s] m" using fits_arm_rows by blast
  from k have "fits_row F st [snd (arms ! i)] [s] k" by simp
  from walk_ok [OF w n m this] obtain r nm' where
    r: "spends (usefulness F st [s] (arm_rows (take i arms)) [snd (arms ! i)]) nm n r nm'" "grows nm nm'"
    "answer_ok F st [s] (arm_rows (take i arms)) [snd (arms ! i)] (small nm nm') r" by (rule runs_okE)
  have "typed_row F st [snd (arms ! i)] [s]" if "arms_typed F st arms s"
    using that mem by (simp add: arms_typed_def)
  with r(3) have "r \<noteq> None \<longrightarrow> \<not> arm_covered F st arms s i"
    if "small nm nm'" "inhabited F" "arms_typed F st arms s"
    using that uncovered_useful [of F st "[s]"] useful_arm [OF i, of F st s] by (cases r) auto
  moreover have "r = None \<longrightarrow> arm_covered F st arms s i" using r(3) useful_arm [OF i] by auto
  ultimately show ?thesis using r by blast
qed

lemma unreachable_runs:
  assumes w: "wild_ok st" and fit: "arms_fit F st arms s"
    and i: "\<forall>i\<in>set js. i < length arms" "distinct js"
    and ns: "list_all2 (\<lambda>i. counted F st [s] (arm_rows (take i arms)) [snd (arms ! i)]) js ns"
  shows "\<exists>Q nm'. spends (unreachable_arms F st s arms js acc) nm (sum_list ns)
      (acc @ map (\<lambda>i. fst (arms ! i)) (filter Q js)) nm' \<and> grows nm nm' \<and>
    (\<forall>i\<in>set js. Q i \<longrightarrow> arm_covered F st arms s i) \<and>
    (small nm nm' \<longrightarrow> inhabited F \<longrightarrow> arms_typed F st arms s \<longrightarrow> (\<forall>i\<in>set js. \<not> Q i \<longrightarrow> \<not> arm_covered F st arms s i))"
  using ns i
proof (induction js ns arbitrary: acc nm rule: list_all2_induct)
  case Nil
  show ?case by (intro exI [of _ "\<lambda>_. True"] exI [of _ nm]) (simp add: spends_return)
next
  case (Cons i js n ns)
  from Cons.prems have i: "i < length arms" "\<forall>j\<in>set js. j < length arms" "distinct js" "i \<notin> set js" by auto
  from arm_runs [OF w fit i(1) Cons(1), of nm] obtain r nm1 where
    r: "spends (usefulness F st [s] (arm_rows (take i arms)) [snd (arms ! i)]) nm n r nm1" "grows nm nm1"
    "r = None \<longrightarrow> arm_covered F st arms s i"
    "small nm nm1 \<longrightarrow> inhabited F \<longrightarrow> arms_typed F st arms s \<longrightarrow> r \<noteq> None \<longrightarrow> \<not> arm_covered F st arms s i" by blast
  let ?acc = "if r = None then acc @ [fst (arms ! i)] else acc"
  from Cons.IH [OF i(2,3), of ?acc nm1] obtain Q nm' where
    q: "spends (unreachable_arms F st s arms js ?acc) nm1 (sum_list ns) (?acc @ map (\<lambda>i. fst (arms ! i)) (filter Q js)) nm'"
    "grows nm1 nm'" "\<forall>i\<in>set js. Q i \<longrightarrow> arm_covered F st arms s i"
    "small nm1 nm' \<longrightarrow> inhabited F \<longrightarrow> arms_typed F st arms s \<longrightarrow> (\<forall>i\<in>set js. \<not> Q i \<longrightarrow> \<not> arm_covered F st arms s i)"
    by blast
  define Q' where "Q' = Q(i := r = None)"
  have f: "filter Q' js = filter Q js" by (rule filter_cong) (use i(4) in \<open>auto simp: Q'_def\<close>)
  have h: "Q' i \<longleftrightarrow> r = None" by (simp add: Q'_def)
  have e: "?acc @ map (\<lambda>i. fst (arms ! i)) (filter Q js) = acc @ map (\<lambda>i. fst (arms ! i)) (filter Q' (i # js))"
    by (simp add: f h)
  have "unreachable_arms F st s arms (i # js) acc =
      (\<lambda>ws. keep (usefulness F st [s] (arm_rows (take i arms)) [snd (arms ! i)] ws)
        (\<lambda>r. unreachable_arms F st s arms js (if r = None then acc @ [fst (arms ! i)] else acc)))"
    by (rule ext) simp
  with spends_keep [where f = "\<lambda>r. unreachable_arms F st s arms js (if r = None then acc @ [fst (arms ! i)] else acc)",
      OF r(1) q(1)]
  have s: "spends (unreachable_arms F st s arms (i # js) acc) nm (sum_list (n # ns))
      (acc @ map (\<lambda>i. fst (arms ! i)) (filter Q' (i # js))) nm'"
    unfolding e by simp
  have c: "\<forall>j\<in>set (i # js). Q' j \<longrightarrow> arm_covered F st arms s j"
    using r(3) q(3) by (auto simp: Q'_def)
  have d: "\<forall>j\<in>set (i # js). \<not> Q' j \<longrightarrow> \<not> arm_covered F st arms s j"
    if "small nm nm'" "inhabited F" "arms_typed F st arms s"
    using r(4) q(4) that small_front [OF that(1) q(2)] small_back [OF that(1) r(2)] i(4) by (auto simp: Q'_def)
  show ?case using s grows_trans [OF r(2) q(2)] c d by blast
qed

section \<open>The whole check\<close>

lemma emit_unreachable:
  "fold (\<lambda>n. bemit (T0054 n)) us ck = ck\<lparr>ck_diags := ck_diags ck @ map T0054 us\<rparr>"
  by (induction us arbitrary: ck) (simp_all add: bemit_def)

lemma match_count_exists:
  assumes w: "wild_ok st" and fit: "arms_fit F st arms s"
  shows "\<exists>n. match_count F st arms s n"
proof -
  have "\<exists>m. counted F st [s] (arm_rows (take i arms)) [snd (arms ! i)] m" if "i \<in> set [0..<length arms]" for i
  proof -
    from that have mem: "arms ! i \<in> set arms" by simp
    then obtain k where k: "pat_fits F st (snd (arms ! i)) s k" using fit unfolding arms_fit_def by blast
    have "\<forall>a\<in>set (take i arms). \<exists>k. pat_fits F st (snd a) s k"
      using fit unfolding arms_fit_def by (meson in_set_takeD)
    then obtain m where m: "fits_rows F st (arm_rows (take i arms)) [s] m" using fits_arm_rows by blast
    from k have "fits_row F st [snd (arms ! i)] [s] k" by simp
    with m show ?thesis using counted_exists [OF w] by blast
  qed
  then have "\<exists>ns. list_all2 (\<lambda>i. counted F st [s] (arm_rows (take i arms)) [snd (arms ! i)]) [0..<length arms] ns"
    by (rule list_all2_choice)
  moreover obtain m where "fits_rows F st (arm_rows arms) [s] m"
    using fits_arm_rows fit unfolding arms_fit_def by blast
  then obtain l where "counted F st [s] (arm_rows arms) [ps_wild st] l"
    using counted_exists [OF w, of F "arm_rows arms" "[s]" m "[ps_wild st]" 0] by (auto simp: fits_simps w)
  ultimately show ?thesis unfolding match_count_def by blast
qed

text \<open>The two queries of a match, and what their answers say.\<close>

definition match_walk ::
  "Fir \<Rightarrow> PatStore \<Rightarrow> (nat \<times> PatId) list \<Rightarrow> TyId \<Rightarrow> wstate \<Rightarrow> (nat list \<times> Witness list option) run" where
  "match_walk F st arms s ws =
     keep (unreachable_arms F st s arms [0..<length arms] [] ws) (\<lambda>unreachable ws.
       keep (usefulness F st [s] (arm_rows arms) [ps_wild st] ws) (\<lambda>missing ws.
         Some (Some (unreachable, missing), ws)))"

definition told :: "Fir \<Rightarrow> PatStore \<Rightarrow> (nat \<times> PatId) list \<Rightarrow> TyId \<Rightarrow> (nat \<Rightarrow> bool) \<Rightarrow> Witness list option \<Rightarrow> bool \<Rightarrow> bool" where
  "told F st arms s Q missing sm \<longleftrightarrow>
     (\<forall>i<length arms. Q i \<longrightarrow> arm_covered F st arms s i) \<and>
     (sm \<longrightarrow> inhabited F \<longrightarrow> arms_typed F st arms s \<longrightarrow> (\<forall>i<length arms. \<not> Q i \<longrightarrow> \<not> arm_covered F st arms s i)) \<and>
     answer_ok F st [s] (arm_rows arms) [ps_wild st] sm missing"

lemma match_walk_runs:
  assumes w: "wild_ok st" and fit: "arms_fit F st arms s" and n: "match_count F st arms s n"
  obtains Q missing nm' where
    "spends (match_walk F st arms s) nm n (map (\<lambda>i. fst (arms ! i)) (filter Q [0..<length arms]), missing) nm'"
    "told F st arms s Q missing (small nm nm')"
proof -
  from n obtain ns m where ns: "list_all2 (\<lambda>i. counted F st [s] (arm_rows (take i arms)) [snd (arms ! i)]) [0..<length arms] ns"
    and m: "counted F st [s] (arm_rows arms) [ps_wild st] m" and e: "n = sum_list ns + m"
    unfolding match_count_def by blast
  have "\<forall>i\<in>set [0..<length arms]. i < length arms" "distinct [0..<length arms]" by simp_all
  from unreachable_runs [OF w fit this ns, of "[]" nm] obtain Q nm1 where
    u: "spends (unreachable_arms F st s arms [0..<length arms] []) nm (sum_list ns)
      (map (\<lambda>i. fst (arms ! i)) (filter Q [0..<length arms])) nm1" "grows nm nm1"
      "\<forall>i\<in>set [0..<length arms]. Q i \<longrightarrow> arm_covered F st arms s i"
      "small nm nm1 \<longrightarrow> inhabited F \<longrightarrow> arms_typed F st arms s \<longrightarrow>
        (\<forall>i\<in>set [0..<length arms]. \<not> Q i \<longrightarrow> \<not> arm_covered F st arms s i)"
    unfolding append_Nil by blast
  obtain k where k: "fits_rows F st (arm_rows arms) [s] k"
    using fits_arm_rows fit unfolding arms_fit_def by blast
  have "fits_row F st [ps_wild st] [s] 0" by (simp add: fits_simps w)
  from walk_ok [OF w m k this] obtain missing nm' where
    q: "spends (usefulness F st [s] (arm_rows arms) [ps_wild st]) nm1 m missing nm'" "grows nm1 nm'"
    "answer_ok F st [s] (arm_rows arms) [ps_wild st] (small nm1 nm') missing" by (rule runs_okE)
  let ?U = "map (\<lambda>i. fst (arms ! i)) (filter Q [0..<length arms])"
  let ?g = "\<lambda>u ws. keep (usefulness F st [s] (arm_rows arms) [ps_wild st] ws) (\<lambda>missing ws. Some (Some (u, missing), ws))"
  have "spends (?g ?U) nm1 m (?U, missing) nm'" by (rule spends_map [OF q(1)]) simp
  from spends_keep [where f = ?g, OF u(1) this]
  have sp: "spends (match_walk F st arms s) nm n (?U, missing) nm'"
    by (simp add: match_walk_def [abs_def] e)
  have a: "answer_ok F st [s] (arm_rows arms) [ps_wild st] (small nm nm') missing"
    by (rule answer_weaken [OF q(3)]) (use small_back u(2) in blast)
  have "told F st arms s Q missing (small nm nm')"
    using u(3,4) a small_front [OF _ q(2), of nm] unfolding told_def by auto
  with sp show thesis by (rule that)
qed

text \<open>What a finished check leaves behind.\<close>

definition reports :: "Checker \<Rightarrow> nat \<Rightarrow> TyId \<Rightarrow> nat \<Rightarrow> nat list \<Rightarrow> Witness list option \<Rightarrow> Interner \<Rightarrow> Checker" where
  "reports ck node s n unreachable missing nm =
     ck\<lparr>ck_names := nm, ck_exhaust_steps := ck_exhaust_steps ck + n,
        ck_scrutinees := ck_scrutinees ck @ [\<lparr>sr_owner = node mod 2 ^ 32, sr_ty = s, sr_exhaustive = missing = None\<rparr>],
        ck_diags := ck_diags ck @ map T0054 unreachable @
          (case missing of None \<Rightarrow> [] | Some w \<Rightarrow> [T0053 node (hd w)])\<rparr>"

lemma check_match_runs:
  assumes s: "s \<noteq> TY_ERROR" "s \<noteq> NO_TY" "arms \<noteq> []"
    and walk: "spends (match_walk F st arms s) (ck_names ck) n (unreachable, missing) nm"
    and len: "\<And>w. missing = Some w \<Longrightarrow> length w = 1"
  shows "if n \<le> match_limit st
    then check_match F node arms st s ck = Some (reports ck node s n unreachable missing nm)
    else \<exists>k nm'. match_limit st < k \<and> check_match F node arms st s ck =
      Some (ck\<lparr>ck_names := nm', ck_exhaust_steps := ck_exhaust_steps ck + k,
        ck_diags := ck_diags ck @ [T0055 node k (match_limit st)]\<rparr>)"
proof -
  let ?b = "budget_new (match_limit st)"
  have b: "bg_steps ?b = 0" "bg_limit ?b = match_limit st" by (simp_all add: budget_new_def)
  from walk b(1) have p: "paid (match_walk F st arms s) (ck_names ck) n (unreachable, missing) nm ?b"
    by (simp add: spends_def)
  show ?thesis
  proof (cases "n \<le> match_limit st")
    case True
    with p b have "match_walk F st arms s (?b, ck_names ck) =
        Some (Some (unreachable, missing), ?b\<lparr>bg_steps := n\<rparr>, nm)" by (simp add: paid_def)
    with True s len show ?thesis
      by (cases missing) (auto simp: check_match_def match_walk_def reports_def emit_unreachable bemit_def Let_def)
  next
    case False
    with p b obtain b' nm' where "match_walk F st arms s (?b, ck_names ck) = Some (None, b', nm')"
      "match_limit st < bg_steps b'" by (auto simp: paid_def)
    with False s show ?thesis by (auto simp: check_match_def match_walk_def bemit_def Let_def)
  qed
qed

end
