(* ===== verification/Spec2Isabelle.thy ===== *)
theory Spec2Isabelle
  imports Asm_Theorems Asm_Semantics Asm_Gaps Arith_Theorems Arith_Float Layout_Theorems Lex_Theorems Stencil_Theorems Codegen_Theorems Match_Theorems
begin

text \<open>
  \<^bold>\<open>Fors bootstrap compiler: verification development.\<close>

  Fors is a systems language whose bootstrap compiler is the Rust workspace under
  \<^verbatim>\<open>src/crates\<close>. Source text goes through the lexer (\<^verbatim>\<open>fors-lex\<close>), the parser (\<^verbatim>\<open>fors-syntax\<close>), the
  declaration index (\<^verbatim>\<open>fors-index\<close>), name resolution (\<^verbatim>\<open>fors-resolve\<close>) and the type checker
  (\<^verbatim>\<open>fors-check\<close> over \<^verbatim>\<open>fors-fir\<close>), is lowered (\<^verbatim>\<open>fors-lower\<close>) to the mid-level IR (\<^verbatim>\<open>fors-fmir\<close>), and
  runs either in the reference interpreter (\<^verbatim>\<open>fors-interp\<close>, with the type layout of \<^verbatim>\<open>fors-layout\<close>) or,
  through \<^verbatim>\<open>fors-oir\<close>, the dev code generator (\<^verbatim>\<open>fors-codegen-dev\<close>), the instruction encoder
  (\<^verbatim>\<open>fors-asm\<close>) and the object writer (\<^verbatim>\<open>fors-obj\<close>, \<^verbatim>\<open>fors-link\<close>), as a native image. The two execution
  paths must agree: the interpreter fixes what a program means, the encoder what a machine word
  means.

  \<^bold>\<open>Instruction encoder\<close> (\<^verbatim>\<open>crates/fors-asm/src\<close>).
  \<^item> \<open>Asm_Reg\<close>: \<^verbatim>\<open>reg.rs\<close> and the error type of \<^verbatim>\<open>error.rs\<close>.
  \<^item> \<open>Search_Codec\<close>: the locale of an encoder that searches the finite domain of a decoder.
  \<^item> \<open>Asm_Bitmask\<close>: \<^verbatim>\<open>bitmask.rs\<close>, with the meaning of the decoded masks and the exactness of the search.
  \<^item> \<open>Asm_Operand\<close>, \<open>Asm_Operand_Laws\<close>: \<^verbatim>\<open>operand.rs\<close> and \<^verbatim>\<open>fpimm.rs\<close>; the locale of a validated
    operand (what the constructor accepts, which field it encodes, what the field decodes to),
    interpreted on every immediate and offset type.
  \<^item> \<open>Asm_Inst\<close>: \<^verbatim>\<open>inst.rs\<close> and \<^verbatim>\<open>fp.rs\<close>, every constructor with its checks in source order.
  \<^item> \<open>Asm_Encode\<close>: \<^verbatim>\<open>encode.rs\<close>, one definition per match arm.
  \<^item> \<open>Asm_Decode\<close>: a decoder written from the instruction formats, the specification \<^verbatim>\<open>encode\<close> is
    measured against; it models no code.
  \<^item> \<open>Asm_Legal\<close>, \<open>Asm_Built\<close>: the invariant \<open>inst_ok\<close> the constructors establish, and the operand
    rules \<open>arch_legal\<close> they leave to the caller.
  \<^item> \<open>Asm_Correct\<close>, \<open>Asm_Theorems\<close>: decoding inverts encoding, class by class and for all instructions.
  \<^item> \<open>Asm_Semantics\<close>: what the data-processing instructions compute, and that the aliases compute what
    their names say. \<open>Asm_Gaps\<close>: the misuses the constructors refuse and those they let through.

  \<^bold>\<open>Interpreter arithmetic\<close> (\<^verbatim>\<open>crates/fors-interp/src/arith.rs\<close>).
  \<^item> \<open>Arith_Int\<close>: the integer half of the file. \<^verbatim>\<open>i128\<close> host values are \<open>int\<close> with the range written out
    in the checked and saturating operations, \<^verbatim>\<open>u64\<close> and \<^verbatim>\<open>u128\<close> are words.
  \<^item> \<open>Arith_Laws\<close>: locales for an operation that is exact in the host width and for one that is a ring
    homomorphism, interpreted on addition, subtraction and multiplication.
  \<^item> \<open>Arith_Theorems\<close>: every operation, mode and conversion against unbounded integers.

  \<^item> \<open>Arith_Float\<close>: the software remainder \<^verbatim>\<open>frem_f64\<close> and \<^verbatim>\<open>frem_f32\<close> on bit patterns; a locale of a
    binary float format, interpreted on both widths, in which the remainder is proved exact.

  \<^bold>\<open>Type layout\<close> (\<^verbatim>\<open>crates/fors-layout/src\<close>).
  \<^item> \<open>Layout_Rule\<close>: \<^verbatim>\<open>target.rs\<close>, \<^verbatim>\<open>ty.rs\<close>, \<^verbatim>\<open>layout.rs\<close> and \<^verbatim>\<open>mono.rs\<close>, with \<^verbatim>\<open>usize\<close> as \<open>nat\<close> and the
    saturation written out.
  \<^item> \<open>Layout_Laws\<close>: the ideal layout over unbounded numbers and its laws.
  \<^item> \<open>Layout_Theorems\<close>: the code computes the ideal layout cut off at the largest \<^verbatim>\<open>usize\<close>; alignment,
    disjointness, payload placement and discriminants.

  \<^bold>\<open>Lexer\<close> (\<^verbatim>\<open>crates/fors-lex/src\<close>).
  \<^item> \<open>Lex_Token\<close>: \<^verbatim>\<open>token.rs\<close> and \<^verbatim>\<open>diag.rs\<close>. \<open>Lex_Code\<close>: \<^verbatim>\<open>lexer.rs\<close>, the lexer state passed explicitly;
    \<^verbatim>\<open>std::str::from_utf8\<close> is modelled from the UTF-8 definition of the standard library.
  \<^item> \<open>Lex_Laws\<close>: what one step of the main loop emits, and the locale of a scanning loop whose step
    consumes input, interpreted on that loop.
  \<^item> \<open>Lex_Theorems\<close>: lexing ends, loses no byte, reports exactly its error tokens and classifies words
    by longest match.

  \<^bold>\<open>Match checking\<close> (\<^verbatim>\<open>crates/fors-check/src\<close>).
  \<^item> \<open>Match_Code\<close>: \<^verbatim>\<open>exhaust.rs\<close>, the pattern arena and the type questions of \<^verbatim>\<open>pat.rs\<close>, and \<^verbatim>\<open>interner.rs\<close> of
    \<^verbatim>\<open>fors-index\<close>. A table of \<^verbatim>\<open>fors-fir\<close> is a function from ids to rows; substitution is a parameter.
  \<^item> \<open>Match_Sem\<close>: the specification: values, the values of a type, what a pattern matches, useful rows, and
    the plain count of matrix rows; it models no code.
  \<^item> \<open>Match_Laws\<close>: specialised and default matrices keep the right values, and the plain count exists.
    \<open>Match_Names\<close>: the locale of a name table, interpreted on the interner, gives a missing literal.
  \<^item> \<open>Match_Walk\<close>, \<open>Match_Correct\<close>, \<open>Match_Check\<close>: the walk spends exactly its plain count and its answer is
    right, for one query and for a whole match. \<open>Match_Theorems\<close>: the properties.

  \<^bold>\<open>OIR\<close> (\<^verbatim>\<open>crates/fors-oir/src\<close>).
  \<^item> \<open>Oir_Code\<close>: \<^verbatim>\<open>ir.rs\<close> (columns as lists), \<^verbatim>\<open>alias.rs\<close> and the verifier of \<^verbatim>\<open>verify.rs\<close>.
  \<^item> \<open>Oir_Laws\<close>: the verifier accepts exactly the functions in which values are defined once, before
    their uses and with their type, and slot rows trace to their slot's root.
  \<^item> \<open>Oir_Sem\<close>: the specification of compilation; it models no code. An OIR function runs row by row on
    the operations of \<open>Arith_Int\<close>; emitted code runs with the runtime's output routines as events.

  \<^bold>\<open>Dev code generator\<close> (\<^verbatim>\<open>crates/fors-codegen-dev/src\<close>).
  \<^item> \<open>Asm_Machine\<close>: a machine for the instructions the generator emits (registers, flags, byte memory,
    forward branches inside a sequence), the specification of their meaning; it models no code.
  \<^item> \<open>Stencil_Code\<close>, \<open>Stencil_Int\<close>: \<^verbatim>\<open>stencil.rs\<close> and \<^verbatim>\<open>stencil/int.rs\<close>: the builder that records holes and
    trap sites, the body of every key, the table, and patching.
  \<^item> \<open>Stencil_Logic\<close>: the locale \<open>builder\<close> of a judgement on bodies closed under the builder's operations.
    It is interpreted on every property proved of all bodies (patching, length, sites, hole kinds).
  \<^item> \<open>Stencil_Patch\<close>, \<open>Stencil_Theorems\<close>: patching the copied words of a stencil is encoding its body on the
    fill, and the table is complete.
  \<^item> \<open>Stencil_Run\<close>, \<open>Stencil_Step\<close>, \<open>Stencil_Value\<close>, \<open>Stencil_Arith\<close>, \<open>Stencil_Ops\<close>, \<open>Stencil_Body\<close>,
    \<open>Stencil_Correct\<close>: weakest preconditions of sequences, and that every body computes the interpreter's
    operation on canonical words or leaves for the trap.
  \<^item> \<open>Codegen_Code\<close>: \<^verbatim>\<open>frame.rs\<close>, \<^verbatim>\<open>lir.rs\<close>, \<^verbatim>\<open>select.rs\<close>, \<^verbatim>\<open>trap.rs\<close>, \<^verbatim>\<open>emit.rs\<close>, \<^verbatim>\<open>compile\<close> of \<^verbatim>\<open>lib.rs\<close> and the atom of
    \<^verbatim>\<open>fors-obj/src/atom.rs\<close>. \<open>None\<close> is a panic, \<open>Inl\<close> a refusal.
  \<^item> \<open>Codegen_Emit\<close>, \<open>Codegen_Select\<close>: what emission lays out and selection chooses.
  \<^item> \<open>Codegen_Run\<close>, \<open>Codegen_State\<close>, \<open>Codegen_Rows\<close>, \<open>Codegen_Sim\<close>, \<open>Codegen_Correct\<close>: entry, exit and calls; the
    invariant that ties the machine to the OIR state (the frame record, the loaded code, a canonical word
    for every value and place); the simulation of one row, of all rows and of the whole function.
  \<^item> \<open>Codegen_Total\<close>: every verified function of supported rows within the size limits is compiled.
  \<^item> \<open>Codegen_Theorems\<close>: the compiler's correctness and totality, the frame and the shape of an atom. The
    runtime routines are a parameter; that they keep the stack pointer, the frame and the code is a
    hypothesis, the calling convention.

  \<^bold>\<open>Bounds.\<close> The inner loops of the modelled code are over finite ranges or have a decreasing measure, so
  their definitions are total functions and no fuel is used; the main loop of the lexer is a
  \<open>while_option\<close> and the usefulness walk a \<open>partial_function\<close>, and that they end is a theorem. A Rust panic that the code can reach is \<open>None\<close>. An atom of
  less than \<open>2 ^ 32\<close> bytes is a hypothesis of the compiler's theorems (\<^verbatim>\<open>emit\<close> truncates \<^verbatim>\<open>pool.len()\<close> to
  \<^verbatim>\<open>u32\<close>); \<open>compile_succeeds\<close> shows when it holds.

  \<^bold>\<open>Not modelled.\<close> Text output (\<^verbatim>\<open>display.rs\<close>, \<^verbatim>\<open>Display\<close> impls, \<^verbatim>\<open>dump.rs\<close>, witness rendering), floating-point operations that
  are the host's own (\<^verbatim>\<open>fadd\<close>, \<^verbatim>\<open>fcmp\<close>, and so on), the runtime's hand-assembled atoms (\<^verbatim>\<open>rt.rs\<close>), the lowering
  of FMIR to OIR, the front end behind the lexer (parser, resolver, the type
  checker but for the match check), the query engine, the
  linker and object writer, drivers and I/O: they work on the concrete syntax tree and the FMIR pools,
  which are not modelled.
\<close>

end
